(* ===== verification/MM_Prelude.thy ===== *)
theory MM_Prelude
  imports Main "HOL-Library.Word"
begin

text \<open>
  Shared vocabulary of the development: the machine integer types of the ESP32-S3 target
  (32-bit \<open>size_t\<close>, \<open>unsigned\<close> and \<open>uint32_t\<close>), the outcomes of a C operation that asserts or
  leaves its defined behaviour, reads and writes of byte memory with the bounds written out,
  the round-up macro of mmutils.h, and the generic lemmas about them.
\<close>

unbundle bit_operations_syntax

section \<open>Integers\<close>

type_synonym u8 = "8 word"
type_synonym u16 = "16 word"
type_synonym u32 = "32 word"

named_theorems u32_arith \<open>values of 32-bit arithmetic where it does not wrap\<close>

lemma unat_u32_lt [simp]: "unat (x :: u32) < 4294967296"
  using unsigned_less [of x, where ?'a=nat] by simp

lemma unat_u8_lt [simp]: "unat (x :: u8) < 256"
  using unsigned_less [of x, where ?'a=nat] by simp

lemma unat_u16_lt [simp]: "unat (x :: u16) < 65536"
  using unsigned_less [of x, where ?'a=nat] by simp

lemma unat_lt_numeral [simp]:
  "(256 :: nat) \<le> numeral k \<Longrightarrow> unat (x :: u8) < numeral k"
  "(65536 :: nat) \<le> numeral k \<Longrightarrow> unat (y :: u16) < numeral k"
  by (rule less_le_trans [OF unat_u8_lt], assumption) (rule less_le_trans [OF unat_u16_lt], assumption)

lemma u32_add [u32_arith]:
  "unat x + unat y < 4294967296 \<Longrightarrow> unat (x + y :: u32) = unat x + unat y"
  by (simp add: unat_word_ariths)

lemma u32_add_le:
  assumes "unat x + unat y \<le> unat (z :: u32)"
  shows "unat (x + y :: u32) = unat x + unat y"
  by (rule u32_add [OF le_less_trans [OF assms unat_u32_lt]])

lemma u32_sub [u32_arith]: "y \<le> x \<Longrightarrow> unat (x - y :: u32) = unat x - unat y"
  by (rule unat_sub)

lemma u32_le_iff: "(x :: u32) \<le> y \<longleftrightarrow> unat x \<le> unat y"
  by (rule word_le_nat_alt)

lemma u32_less_iff: "(x :: u32) < y \<longleftrightarrow> unat x < unat y"
  by (rule word_less_nat_alt)

lemma u32_add_wraps: "unat (x + y :: u32) = (unat x + unat y) mod 4294967296"
  by (simp add: unat_word_ariths)

lemma unat_of_nat_u32 [simp]: "n < 4294967296 \<Longrightarrow> unat (of_nat n :: u32) = n"
  by (simp add: unat_of_nat)

lemma unat_ucast_u8 [simp]: "unat (ucast (x :: u8) :: u32) = unat x"
proof -
  have "unat x < 2 ^ 32" by (rule less_trans [OF unat_u8_lt]) simp
  then show ?thesis by (simp add: unsigned_ucast_eq take_bit_nat_eq_self)
qed

lemma u8_bit_ge: "8 \<le> n \<Longrightarrow> \<not> bit (w :: u8) n"
  using bit_imp_le_length [of w n] by auto

lemma u16_bit_ge: "16 \<le> n \<Longrightarrow> \<not> bit (w :: u16) n"
  using bit_imp_le_length [of w n] by auto

lemma unat_align_4: "unat (push_bit 2 (drop_bit 2 x) :: u32) = 4 * (unat x div 4)"
proof -
  have "unat (drop_bit 2 x) = unat x div 4"
    by (simp add: drop_bit_eq_div unat_div_distrib)
  moreover have "unat x div 4 < 1073741824"
    using unat_u32_lt [of x] by (intro less_mult_imp_div_less) simp
  ultimately show ?thesis by (simp add: push_bit_eq_mult unat_word_ariths)
qed

lemma u32_and_not_3: "unat (x AND NOT 3 :: u32) = 4 * (unat x div 4)"
proof -
  have three: "(3 :: u32) = mask 2"
    by (simp add: mask_eq_exp_minus_1)
  have "x AND NOT 3 = push_bit 2 (drop_bit 2 x)"
    unfolding three
  proof (rule bit_word_eqI)
    fix n assume n: "n < LENGTH(32)"
    have "n = 2 + (n - 2)" if "\<not> n < 2" using that by arith
    with n show "bit (x AND NOT (mask 2)) n = bit (push_bit 2 (drop_bit 2 x) :: u32) n"
      by (cases "n < 2") (simp_all add: bit_and_iff bit_not_iff bit_mask_iff bit_push_bit_iff bit_drop_bit_eq)
  qed
  then show ?thesis by (simp add: unat_align_4)
qed

lemma bit_31_iff: "bit (w :: u32) 31 \<longleftrightarrow> 2147483648 \<le> unat w"
proof -
  have "bit w 31 \<longleftrightarrow> odd (unat w div 2147483648)"
    using bit_unsigned_iff [of w 31, where ?'a=nat] by (simp add: bit_iff_odd)
  moreover have "unat w div 2147483648 < 2"
    using unat_u32_lt [of w] by (intro less_mult_imp_div_less) simp
  ultimately show ?thesis by (auto simp: odd_pos Suc_le_eq div_greater_zero_iff less_2_cases_iff intro: gr0I)
qed

lemma sint_u32: "sint (w :: u32) = (if unat w < 2147483648 then int (unat w) else int (unat w) - 4294967296)"
proof -
  have "sint w = int (unat w) - 4294967296 * of_bool (bit w 31)"
    using take_bit_int_eq_self [of "uint w" 32] unsigned_greater_eq [of w] unsigned_less [of w, where ?'a=int]
    by (simp add: sint_uint signed_take_bit_eq_take_bit_minus bit_uint_iff flip: uint_nat)
  then show ?thesis by (simp add: bit_31_iff)
qed
section \<open>Outcomes of C operations\<close>

text \<open>
  \<open>MMOSAL_ASSERT\<close> failures and the ways a C operation can leave its defined behaviour are error
  values, so that ``the code never does this'' is a theorem about the result.
\<close>

datatype c_error =
    Assert_failed      \<comment> \<open>MMOSAL_ASSERT / LWIP_ASSERT fires\<close>
  | Out_of_bounds      \<comment> \<open>access outside the memory area\<close>
  | Null_deref         \<comment> \<open>access through NULL\<close>
  | Dangling           \<comment> \<open>access to an object that is not live\<close>
  | Div_by_zero        \<comment> \<open>integer division or remainder by zero\<close>
  | Does_not_return    \<comment> \<open>the call restarts the chip or loops forever\<close>

type_synonym 'a result = "c_error + 'a"

definition rbind :: "'a result \<Rightarrow> ('a \<Rightarrow> 'b result) \<Rightarrow> 'b result" where
  "rbind m f = (case m of Inl e \<Rightarrow> Inl e | Inr x \<Rightarrow> f x)"

definition c_assert :: "bool \<Rightarrow> unit result" where
  "c_assert b = (if b then Inr () else Inl Assert_failed)"

lemma rbind_simps [simp]:
  "rbind (Inl e) f = Inl e"
  "rbind (Inr x) f = f x"
  by (simp_all add: rbind_def)

lemma rbind_eq_Inr: "rbind m f = Inr y \<longleftrightarrow> (\<exists>x. m = Inr x \<and> f x = Inr y)"
  by (cases m) simp_all

lemma rbind_eq_Inl: "rbind m f = Inl e \<longleftrightarrow> m = Inl e \<or> (\<exists>x. m = Inr x \<and> f x = Inl e)"
  by (cases m) auto

lemma rbind_assoc: "rbind (rbind m f) g = rbind m (\<lambda>x. rbind (f x) g)"
  by (cases m) simp_all

lemma c_assert_simps [simp]:
  "b \<Longrightarrow> c_assert b = Inr ()"
  "\<not> b \<Longrightarrow> c_assert b = Inl Assert_failed"
  by (simp_all add: c_assert_def)

lemma c_assert_eq [simp]:
  "c_assert b = Inr u \<longleftrightarrow> b"
  "c_assert b = Inl e \<longleftrightarrow> \<not> b \<and> e = Assert_failed"
  by (auto simp: c_assert_def)

text \<open>Loops that may not end are defined by \<open>partial_function\<close> and branch on results.\<close>

lemma case_result_mono [partial_function_mono]:
  "(\<And>e. monotone orda ordb (\<lambda>f. F f e)) \<Longrightarrow> (\<And>x. monotone orda ordb (\<lambda>f. G f x)) \<Longrightarrow>
   monotone orda ordb (\<lambda>f. case r of Inl e \<Rightarrow> F f e | Inr x \<Rightarrow> G f x)"
  by (cases r) simp_all

lemma case_option_mono [partial_function_mono]:
  "monotone orda ordb F \<Longrightarrow> (\<And>x. monotone orda ordb (\<lambda>f. G f x)) \<Longrightarrow>
   monotone orda ordb (\<lambda>f. case r of None \<Rightarrow> F f | Some x \<Rightarrow> G f x)"
  by (cases r) simp_all

text \<open>Sequencing of calls that may also not return (\<open>None\<close>).\<close>

definition obind :: "'x result option \<Rightarrow> ('x \<Rightarrow> 'y result option) \<Rightarrow> 'y result option" where
  "obind m f = (case m of None \<Rightarrow> None | Some (Inl e) \<Rightarrow> Some (Inl e) | Some (Inr x) \<Rightarrow> f x)"

lemma obind_simps [simp]:
  "obind None f = None"
  "obind (Some (Inl e)) f = Some (Inl e)"
  "obind (Some (Inr x)) f = f x"
  by (simp_all add: obind_def)

section \<open>Byte memory\<close>

definition mem_get :: "u8 list \<Rightarrow> nat \<Rightarrow> u8 result" where
  "mem_get m i = (if i < length m then Inr (m ! i) else Inl Out_of_bounds)"

definition mem_read :: "u8 list \<Rightarrow> nat \<Rightarrow> nat \<Rightarrow> u8 list result" where
  "mem_read m off n =
     (if off + n \<le> length m then Inr (take n (drop off m)) else Inl Out_of_bounds)"

definition mem_write :: "u8 list \<Rightarrow> nat \<Rightarrow> u8 list \<Rightarrow> u8 list result" where
  "mem_write m off d =
     (if off + length d \<le> length m
      then Inr (take off m @ d @ drop (off + length d) m) else Inl Out_of_bounds)"

lemma mem_get_in [simp]: "i < length m \<Longrightarrow> mem_get m i = Inr (m ! i)"
  by (simp add: mem_get_def)

lemma mem_get_eq_Inr: "mem_get m i = Inr b \<longleftrightarrow> i < length m \<and> b = m ! i"
  by (auto simp: mem_get_def)

lemma mem_read_in [simp]: "off + n \<le> length m \<Longrightarrow> mem_read m off n = Inr (take n (drop off m))"
  by (simp add: mem_read_def)

lemma mem_write_in [simp]:
  "off + length d \<le> length m \<Longrightarrow>
   mem_write m off d = Inr (take off m @ d @ drop (off + length d) m)"
  by (simp add: mem_write_def)

lemma mem_write_length: "mem_write m off d = Inr m' \<Longrightarrow> length m' = length m"
  by (auto simp: mem_write_def split: if_splits)

lemma mem_read_write_same:
  "off + length d \<le> length m \<Longrightarrow>
   take (length d) (drop off (take off m @ d @ drop (off + length d) m)) = d"
  by simp

text \<open>
  A data window of \<open>n\<close> bytes at offset \<open>s\<close> of a memory area, and what writing a block just before
  or just after it does to the enlarged window.
\<close>

definition window :: "u8 list \<Rightarrow> nat \<Rightarrow> nat \<Rightarrow> u8 list" where
  "window m s n = take n (drop s m)"

lemma window_length: "s + n \<le> length m \<Longrightarrow> length (window m s n) = n"
  by (simp add: window_def)

lemma window_prepend:
  assumes "length d \<le> s" and "s + n \<le> length m"
  shows "window (take (s - length d) m @ d @ drop s m) (s - length d) (n + length d) = d @ window m s n"
  using assms by (simp add: window_def)

lemma window_append:
  assumes "s + n + length d \<le> length m"
  shows "window (take (s + n) m @ d @ drop (s + n + length d) m) s (n + length d) = window m s n @ d"
proof -
  have "drop s (take (s + n) m @ d @ drop (s + n + length d) m)
      = take n (drop s m) @ d @ drop (s + n + length d) m"
    using assms by (simp add: take_drop add.commute)
  moreover have "length (take n (drop s m)) = n" using assms by simp
  ultimately show ?thesis by (simp add: window_def)
qed

text \<open>A block written between \<open>lo\<close> and \<open>hi\<close> leaves the memory outside these bounds as it was.\<close>

lemma outside_write:
  assumes "lo \<le> at" "at + length d \<le> hi" "hi \<le> length m"
  shows "take lo (take at m @ d @ drop (at + length d) m) = take lo m"
    and "drop hi (take at m @ d @ drop (at + length d) m) = drop hi m"
proof -
  show "take lo (take at m @ d @ drop (at + length d) m) = take lo m"
    using assms by (simp add: min_def)
  have "hi - at - length d + (at + length d) = hi" using assms by linarith
  then show "drop hi (take at m @ d @ drop (at + length d) m) = drop hi m"
    using assms by (simp add: drop_take)
qed

lemma window_drop: "k \<le> n \<Longrightarrow> window m (s + k) (n - k) = drop k (window m s n)"
  by (simp add: window_def drop_take add.commute)

lemma window_take: "k \<le> n \<Longrightarrow> window m s k = take k (window m s n)"
  by (simp add: window_def min_def)

section \<open>The round-up macro\<close>

text \<open>
  \<open>MM_FAST_ROUND_UP(x, m)\<close> is \<open>(((x)-1) | ((m)-1)) + 1\<close> at 32 bits; the code only uses it with
  \<open>m = 4\<close>. Its value wraps to 0 for an argument above \<open>0xfffffffc\<close>.
\<close>

definition mm_fast_round_up :: "u32 \<Rightarrow> u32 \<Rightarrow> u32" where
  "mm_fast_round_up x m = ((x - 1) OR (m - 1)) + 1"

lemma u32_or_3: "unat (x OR 3 :: u32) = 4 * (unat x div 4) + 3"
proof -
  have three: "(3 :: u32) = mask 2"
    by (simp add: mask_eq_exp_minus_1)
  have split: "x OR 3 = push_bit 2 (drop_bit 2 x) + mask 2"
  proof -
    have "x OR 3 = push_bit 2 (drop_bit 2 x) OR mask 2"
      unfolding three
    proof (rule bit_word_eqI)
      fix n assume n: "n < LENGTH(32)"
      have "n = 2 + (n - 2)" if "\<not> n < 2" using that by arith
      with n show "bit (x OR mask 2) n = bit (push_bit 2 (drop_bit 2 x) OR mask 2 :: u32) n"
        by (cases "n < 2") (simp_all add: bit_or_iff bit_mask_iff bit_push_bit_iff bit_drop_bit_eq)
    qed
    also have "\<dots> = push_bit 2 (drop_bit 2 x) + mask 2"
      by (rule disjunctive_add_eq_or [symmetric]) (auto intro!: bit_word_eqI simp: bit_simps)
    finally show ?thesis .
  qed
  have "unat x div 4 < 1073741824"
    using unat_u32_lt [of x] by (intro less_mult_imp_div_less) simp
  then show ?thesis
    unfolding split by (simp add: u32_add unat_align_4 mask_eq_exp_minus_1)
qed

lemma nat_round_4:
  fixes n :: nat
  shows "0 < n \<Longrightarrow> 4 * ((n - 1) div 4) + 4 = 4 * ((n + 3) div 4)"
    and "n \<le> 4 * ((n + 3) div 4)" and "4 * ((n + 3) div 4) < n + 4"
proof -
  show "0 < n \<Longrightarrow> 4 * ((n - 1) div 4) + 4 = 4 * ((n + 3) div 4)"
  proof -
    assume "0 < n"
    then have "n + 3 = (n - 1) + 4" by simp
    then have "(n + 3) div 4 = (n - 1) div 4 + 1"
      by (metis div_add_self2 zero_neq_numeral)
    then show ?thesis by simp
  qed
  have "4 * ((n + 3) div 4) + (n + 3) mod 4 = n + 3" by (rule mult_div_mod_eq)
  moreover have "(n + 3) mod 4 < 4" by simp
  ultimately show "n \<le> 4 * ((n + 3) div 4)" and "4 * ((n + 3) div 4) < n + 4" by linarith+
qed

lemma unat_round_up_4:
  "unat (mm_fast_round_up x 4) = (if unat x \<le> 4294967292 then 4 * ((unat x + 3) div 4) else 0)"
proof (cases "x = 0")
  case True
  then show ?thesis by (simp add: mm_fast_round_up_def)
next
  case False
  then have pos: "0 < unat x" by (simp add: unat_gt_0)
  then have "unat (x - 1) = unat x - 1"
    by (metis False unat_minus_one)
  then have "unat (mm_fast_round_up x 4) = (4 * ((unat x - 1) div 4) + 4) mod 4294967296"
    by (simp add: mm_fast_round_up_def u32_add_wraps u32_or_3 add.commute)
  also have "\<dots> = (if unat x \<le> 4294967292 then 4 * ((unat x + 3) div 4) else 0)"
  proof (cases "unat x \<le> 4294967292")
    case True
    then have "4 * ((unat x + 3) div 4) < 4294967296"
      using nat_round_4(3) [of "unat x"] by linarith
    with True pos show ?thesis by (simp add: nat_round_4(1) flip: One_nat_def)
  next
    case False
    moreover have "unat x - 1 < 4294967296"
      using unat_u32_lt [of x] by linarith
    ultimately have "(unat x - 1) div 4 = 1073741823"
      by (intro div_nat_eqI) simp_all
    with False show ?thesis by simp
  qed
  finally show ?thesis .
qed

lemma round_up_4_ge: "unat x \<le> 4294967292 \<Longrightarrow> unat x \<le> unat (mm_fast_round_up x 4)"
  using nat_round_4(2) [of "unat x"] by (simp add: unat_round_up_4)

lemma round_up_4_lt: "unat (mm_fast_round_up x 4) < unat x + 4"
  using nat_round_4(3) [of "unat x"] by (simp add: unat_round_up_4)

lemma round_up_4_dvd: "4 dvd unat (mm_fast_round_up x 4)"
  by (simp add: unat_round_up_4)

section \<open>Strings\<close>

text \<open>The string in an array or behind a pointer: the bytes before the first NUL.\<close>

definition c_string :: "u8 list \<Rightarrow> u8 list" where
  "c_string m = takeWhile (\<lambda>c. c \<noteq> 0) m"

lemma c_string_no_nul: "0 \<notin> set (c_string m)"
  by (auto simp: c_string_def dest: set_takeWhileD)

lemma c_string_pad: "0 \<notin> set s \<Longrightarrow> c_string (s @ replicate j 0) = s"
  by (cases j; induction s) (simp_all add: c_string_def)

text \<open>What \<open>strncpy\<close> writes: the string, padded with NULs; an unterminated source is read beyond its end.\<close>

primrec strncpy_bytes :: "nat \<Rightarrow> u8 list \<Rightarrow> u8 list result" where
  "strncpy_bytes 0 src = Inr []"
| "strncpy_bytes (Suc n) src =
     (case src of
        [] \<Rightarrow> Inl Out_of_bounds
      | c # cs \<Rightarrow> if c = 0 then Inr (replicate (Suc n) 0)
                   else rbind (strncpy_bytes n cs) (\<lambda>r. Inr (c # r)))"

text \<open>\<open>strlen\<close> of an array without a NUL reads beyond its end.\<close>

definition c_strlen :: "u8 list \<Rightarrow> nat result" where
  "c_strlen m = (if 0 \<in> set m then Inr (length (c_string m)) else Inl Out_of_bounds)"

lemma strncpy_bytes_ok:
  "0 \<in> set src \<Longrightarrow> strncpy_bytes n src = Inr (take n (c_string src @ replicate n 0))"
proof (induction n arbitrary: src)
  case (Suc n)
  then obtain c cs where src: "src = c # cs" by (cases src) auto
  show ?case
  proof (cases "c = 0")
    case True
    then show ?thesis by (simp add: src c_string_def)
  next
    case False
    then have "0 \<in> set cs" using Suc.prems src by simp
    with Suc.IH [of cs] False show ?thesis
      by (simp add: src c_string_def) (simp add: take_Cons' replicate_append_same [symmetric] flip: replicate_Suc)
  qed
qed simp

lemma strncpy_terminated:
  assumes "0 \<in> set src" "strncpy_bytes n src = Inr b"
  shows "c_string (b @ [0]) = take n (c_string src)"
proof -
  have "b = take n (c_string src) @ take (n - length (c_string src)) (replicate n 0)"
    using strncpy_bytes_ok [OF assms(1), of n] assms(2) by simp
  then obtain j where "b @ [0] = take n (c_string src) @ replicate j 0 @ [0]" by (auto simp: min_def)
  then have "b @ [0] = take n (c_string src) @ replicate (Suc j) 0" by (simp add: replicate_append_same)
  moreover have "0 \<notin> set (take n (c_string src))" using c_string_no_nul by (meson in_set_takeD)
  ultimately show ?thesis by (metis c_string_pad)
qed

end
