(* ===== verification/Mmcrc.thy ===== *)
theory Mmcrc
  imports MM_Prelude
begin

text \<open>
  The CRC of mmcrc.c: the table-driven CRC-16/XMODEM with its static table of 256 entries, and
  the bit-serial definition of the same code (polynomial 0x1021, initial value given by the
  caller, no reflection, no final exclusive-or) that the comment in mmcrc.h names as its
  specification. The lemmas show that the table-driven routine computes the bit-serial one, that
  a sum can be continued over a split buffer, that a message followed by its own sum leaves the
  residue 0, and that every change confined to 16 consecutive bits, wherever they lie in the message, changes
  the sum.
\<close>

section \<open>The table-driven routine\<close>

definition crc16_xmodem_lookup_table :: "u16 list" where
  "crc16_xmodem_lookup_table =
    [0x0000, 0x1021, 0x2042, 0x3063, 0x4084, 0x50a5, 0x60c6, 0x70e7,
     0x8108, 0x9129, 0xa14a, 0xb16b, 0xc18c, 0xd1ad, 0xe1ce, 0xf1ef,
     0x1231, 0x0210, 0x3273, 0x2252, 0x52b5, 0x4294, 0x72f7, 0x62d6,
     0x9339, 0x8318, 0xb37b, 0xa35a, 0xd3bd, 0xc39c, 0xf3ff, 0xe3de,
     0x2462, 0x3443, 0x0420, 0x1401, 0x64e6, 0x74c7, 0x44a4, 0x5485,
     0xa56a, 0xb54b, 0x8528, 0x9509, 0xe5ee, 0xf5cf, 0xc5ac, 0xd58d,
     0x3653, 0x2672, 0x1611, 0x0630, 0x76d7, 0x66f6, 0x5695, 0x46b4,
     0xb75b, 0xa77a, 0x9719, 0x8738, 0xf7df, 0xe7fe, 0xd79d, 0xc7bc,
     0x48c4, 0x58e5, 0x6886, 0x78a7, 0x0840, 0x1861, 0x2802, 0x3823,
     0xc9cc, 0xd9ed, 0xe98e, 0xf9af, 0x8948, 0x9969, 0xa90a, 0xb92b,
     0x5af5, 0x4ad4, 0x7ab7, 0x6a96, 0x1a71, 0x0a50, 0x3a33, 0x2a12,
     0xdbfd, 0xcbdc, 0xfbbf, 0xeb9e, 0x9b79, 0x8b58, 0xbb3b, 0xab1a,
     0x6ca6, 0x7c87, 0x4ce4, 0x5cc5, 0x2c22, 0x3c03, 0x0c60, 0x1c41,
     0xedae, 0xfd8f, 0xcdec, 0xddcd, 0xad2a, 0xbd0b, 0x8d68, 0x9d49,
     0x7e97, 0x6eb6, 0x5ed5, 0x4ef4, 0x3e13, 0x2e32, 0x1e51, 0x0e70,
     0xff9f, 0xefbe, 0xdfdd, 0xcffc, 0xbf1b, 0xaf3a, 0x9f59, 0x8f78,
     0x9188, 0x81a9, 0xb1ca, 0xa1eb, 0xd10c, 0xc12d, 0xf14e, 0xe16f,
     0x1080, 0x00a1, 0x30c2, 0x20e3, 0x5004, 0x4025, 0x7046, 0x6067,
     0x83b9, 0x9398, 0xa3fb, 0xb3da, 0xc33d, 0xd31c, 0xe37f, 0xf35e,
     0x02b1, 0x1290, 0x22f3, 0x32d2, 0x4235, 0x5214, 0x6277, 0x7256,
     0xb5ea, 0xa5cb, 0x95a8, 0x8589, 0xf56e, 0xe54f, 0xd52c, 0xc50d,
     0x34e2, 0x24c3, 0x14a0, 0x0481, 0x7466, 0x6447, 0x5424, 0x4405,
     0xa7db, 0xb7fa, 0x8799, 0x97b8, 0xe75f, 0xf77e, 0xc71d, 0xd73c,
     0x26d3, 0x36f2, 0x0691, 0x16b0, 0x6657, 0x7676, 0x4615, 0x5634,
     0xd94c, 0xc96d, 0xf90e, 0xe92f, 0x99c8, 0x89e9, 0xb98a, 0xa9ab,
     0x5844, 0x4865, 0x7806, 0x6827, 0x18c0, 0x08e1, 0x3882, 0x28a3,
     0xcb7d, 0xdb5c, 0xeb3f, 0xfb1e, 0x8bf9, 0x9bd8, 0xabbb, 0xbb9a,
     0x4a75, 0x5a54, 0x6a37, 0x7a16, 0x0af1, 0x1ad0, 0x2ab3, 0x3a92,
     0xfd2e, 0xed0f, 0xdd6c, 0xcd4d, 0xbdaa, 0xad8b, 0x9de8, 0x8dc9,
     0x7c26, 0x6c07, 0x5c64, 0x4c45, 0x3ca2, 0x2c83, 0x1ce0, 0x0cc1,
     0xef1f, 0xff3e, 0xcf5d, 0xdf7c, 0xaf9b, 0xbfba, 0x8fd9, 0x9ff8,
     0x6e17, 0x7e36, 0x4e55, 0x5e74, 0x2e93, 0x3eb2, 0x0ed1, 0x1ef0]"

text \<open>
  One round of the \<open>while\<close> loop. In C, \<open>crc\<close> and \<open>*d\<close> are promoted to \<open>int\<close>: the index is
  \<open>(crc >> 8) ^ *d\<close> and the result is truncated to 16 bits when it is stored into \<open>crc\<close>.
\<close>

definition crc_index :: "u16 \<Rightarrow> u8 \<Rightarrow> nat" where
  "crc_index crc d = unat (drop_bit 8 (ucast crc :: u32) XOR (ucast d :: u32))"

definition crc_round :: "u16 \<Rightarrow> u8 \<Rightarrow> u16" where
  "crc_round crc d =
     ucast ((ucast (crc16_xmodem_lookup_table ! crc_index crc d) :: u32)
            XOR push_bit 8 (ucast crc :: u32))"

primrec mmcrc_16_xmodem :: "u16 \<Rightarrow> u8 list \<Rightarrow> u16" where
  "mmcrc_16_xmodem crc [] = crc"
| "mmcrc_16_xmodem crc (d # ds) = mmcrc_16_xmodem (crc_round crc d) ds"

section \<open>The bit-serial specification\<close>

definition crc_bit :: "u16 \<Rightarrow> u16" where
  "crc_bit c = (if bit c 15 then push_bit 1 c XOR 0x1021 else push_bit 1 c)"

definition crc_byte_spec :: "u16 \<Rightarrow> u8 \<Rightarrow> u16" where
  "crc_byte_spec crc d = (crc_bit ^^ 8) (crc XOR push_bit 8 (ucast d))"

definition crc_spec :: "u16 \<Rightarrow> u8 list \<Rightarrow> u16" where
  "crc_spec crc ds = fold (\<lambda>d c. crc_byte_spec c d) ds crc"

section \<open>Linearity\<close>

lemma crc_bit_xor: "crc_bit (x XOR y) = crc_bit x XOR crc_bit y"
  by (rule bit_word_eqI) (auto simp: crc_bit_def bit_simps)

lemma crc_bits_xor: "(crc_bit ^^ n) (x XOR y) = (crc_bit ^^ n) x XOR (crc_bit ^^ n) y"
  by (induction n) (simp_all add: crc_bit_xor)

lemma crc_bit_0 [simp]: "crc_bit 0 = 0"
  by (simp add: crc_bit_def)

lemma crc_bits_0 [simp]: "(crc_bit ^^ n) 0 = 0"
  by (induction n) simp_all

text \<open>The polynomial has the constant term 1, so one bit step loses nothing.\<close>

lemma crc_bit_eq_0: "crc_bit x = 0 \<longleftrightarrow> x = 0"
proof
  assume zero: "crc_bit x = 0"
  have low: "bit (crc_bit x) 0 = bit x 15"
    unfolding crc_bit_def
    by (cases "bit x 15") (simp_all only: if_True if_False bit_xor_iff bit_push_bit_iff, simp_all)
  with zero have top: "\<not> bit x 15" by simp
  with zero have shifted: "push_bit 1 x = 0" by (simp add: crc_bit_def)
  show "x = 0"
  proof (rule bit_word_eqI)
    fix n assume n: "n < LENGTH(16)"
    show "bit x n = bit 0 n"
    proof (cases "n = 15")
      case False
      with n have "bit x n = bit (push_bit 1 x) (Suc n)"
        by (simp add: bit_push_bit_iff del: push_bit_Suc)
      with shifted show ?thesis by simp
    qed (use top in simp)
  qed
qed simp

lemma word_xor_eq_0: "(x :: 'a::len word) XOR y = 0 \<longleftrightarrow> x = y"
  by (metis xor.left_neutral xor.assoc xor_self_eq)

lemma word_xor_cancel: "(c :: 'a::len word) XOR x = c XOR y \<longleftrightarrow> x = y"
  by (metis xor.left_neutral xor.assoc xor_self_eq)

lemma crc_bit_inj: "crc_bit x = crc_bit y \<longleftrightarrow> x = y"
  by (metis crc_bit_eq_0 crc_bit_xor word_xor_eq_0)

lemma crc_bits_inj: "(crc_bit ^^ n) x = (crc_bit ^^ n) y \<longleftrightarrow> x = y"
  by (induction n) (simp_all add: crc_bit_inj)

section \<open>The table\<close>

lemma crc_table_length [simp]: "length crc16_xmodem_lookup_table = 256"
  by (simp add: crc16_xmodem_lookup_table_def)

text \<open>
  The entry for an index of \<open>k + 1\<close> bits comes from the entry for its upper \<open>k\<close> bits by one more
  bit step, so the whole table is eight doublings of the table with the single entry 0.
\<close>

primrec crc_double :: "u16 list \<Rightarrow> u16 list" where
  "crc_double [] = []"
| "crc_double (t # ts) = crc_bit t # (crc_bit t XOR 0x1021) # crc_double ts"

lemma crc_table_8: "crc_double (crc_double (crc_double [0])) = take 8 crc16_xmodem_lookup_table"
  by (simp add: crc16_xmodem_lookup_table_def crc_bit_def)

lemma crc_table_32:
  "crc_double (crc_double (take 8 crc16_xmodem_lookup_table)) = take 32 crc16_xmodem_lookup_table"
  by (simp add: crc16_xmodem_lookup_table_def crc_bit_def)

lemma crc_table_128:
  "crc_double (crc_double (take 32 crc16_xmodem_lookup_table)) = take 128 crc16_xmodem_lookup_table"
  by (simp add: crc16_xmodem_lookup_table_def crc_bit_def)

lemma crc_table_256:
  "crc_double (take 128 crc16_xmodem_lookup_table) = crc16_xmodem_lookup_table"
  by (simp add: crc16_xmodem_lookup_table_def crc_bit_def)

lemma crc_table_doubling: "crc16_xmodem_lookup_table = (crc_double ^^ 8) [0]"
proof -
  have "(crc_double ^^ 8) ts = crc_double (crc_double (crc_double (crc_double
          (crc_double (crc_double (crc_double (crc_double ts)))))))" for ts
    by (simp add: eval_nat_numeral)
  then show ?thesis
    by (simp only: crc_table_8 crc_table_32 crc_table_128 crc_table_256)
qed

lemma crc_double_length [simp]: "length (crc_double ts) = 2 * length ts"
  by (induction ts) simp_all

lemma crc_double_nth:
  "i < length ts \<Longrightarrow> crc_double ts ! (2 * i) = crc_bit (ts ! i)"
  "i < length ts \<Longrightarrow> crc_double ts ! Suc (2 * i) = crc_bit (ts ! i) XOR 0x1021"
  by (induction ts arbitrary: i; case_tac i; simp)+

lemma crc_doublings_length: "length ((crc_double ^^ k) [0]) = 2 ^ k"
  by (induction k) simp_all

lemma push_bit_odd: "push_bit n (of_nat (Suc (2 * i)) :: u16)
    = push_bit (Suc n) (of_nat i) XOR push_bit n 1"
proof -
  have "(of_nat (Suc (2 * i)) :: u16) = push_bit 1 (of_nat i) + 1"
    by (simp add: push_bit_eq_mult)
  also have "\<dots> = push_bit 1 (of_nat i) XOR 1"
    by (rule disjunctive_add_eq_xor) (auto intro!: bit_word_eqI simp: bit_simps bit_1_iff simp del: push_bit_Suc)
  finally show ?thesis
    by (simp only: push_bit_xor push_bit_push_bit) simp
qed

lemma push_bit_even: "push_bit n (of_nat (2 * i) :: u16) = push_bit (Suc n) (of_nat i)"
  by (simp add: push_bit_eq_mult)

lemma crc_bits_top: "k \<le> 15 \<Longrightarrow> (crc_bit ^^ k) (2 ^ (15 - k)) = 2 ^ 15"
proof (induction k)
  case (Suc k)
  from Suc.prems have k: "15 - k = Suc (15 - Suc k)" by simp
  have "\<not> bit (2 ^ (15 - Suc k) :: u16) 15"
    by (simp add: bit_exp_iff)
  then have "crc_bit (2 ^ (15 - Suc k)) = 2 ^ (15 - k)"
    by (simp add: crc_bit_def k push_bit_eq_mult)
  with Suc show ?case by (simp add: funpow_Suc_right del: funpow.simps)
qed simp

lemma crc_doublings_nth:
  "k \<le> 8 \<Longrightarrow> i < 2 ^ k \<Longrightarrow> (crc_double ^^ k) [0] ! i = (crc_bit ^^ k) (push_bit (16 - k) (of_nat i))"
proof (induction k arbitrary: i)
  case (Suc k)
  let ?ts = "(crc_double ^^ k) [0]"
  have sub: "16 - k = Suc (15 - k)" "16 - Suc k = 15 - k" using Suc.prems by simp_all
  have IH: "j < 2 ^ k \<Longrightarrow> ?ts ! j = (crc_bit ^^ k) (push_bit (Suc (15 - k)) (of_nat j))" for j
    using Suc by (simp add: sub)
  obtain j where "i = 2 * j \<or> i = Suc (2 * j)" by (metis oddE evenE Suc_eq_plus1)
  then show ?case
  proof
    assume i: "i = 2 * j"
    with Suc.prems have "j < 2 ^ k" by simp
    then show ?thesis
      by (simp add: i crc_double_nth crc_doublings_length IH sub push_bit_even del: of_nat_mult)
  next
    assume i: "i = Suc (2 * j)"
    with Suc.prems have j: "j < 2 ^ k" by simp
    have "(crc_bit ^^ Suc k) (push_bit (15 - k) 1) = crc_bit (2 ^ 15)"
      using Suc.prems by (simp only: push_bit_of_1 funpow.simps comp_apply crc_bits_top)
    also have "\<dots> = 0x1021" by (simp add: crc_bit_def)
    finally have one: "(crc_bit ^^ Suc k) (push_bit (15 - k) 1) = 0x1021" .
    show ?thesis
      using j one
      by (simp add: i crc_double_nth crc_doublings_length IH sub push_bit_odd crc_bits_xor crc_bit_xor
          del: of_nat_Suc of_nat_mult push_bit_of_1)
  qed
qed simp

lemma crc_table_nth:
  "i < 256 \<Longrightarrow> crc16_xmodem_lookup_table ! i = (crc_bit ^^ 8) (push_bit 8 (of_nat i))"
  using crc_doublings_nth [of 8 i] by (simp add: crc_table_doubling)

section \<open>The loop computes the bit-serial sum\<close>

lemma crc_index_lt: "crc_index crc d < 256"
proof -
  have small: "drop_bit 8 (ucast crc :: u32) XOR ucast d = take_bit 8 (drop_bit 8 (ucast crc) XOR ucast d)"
  proof (rule bit_word_eqI)
    fix n assume "n < LENGTH(32)"
    then show "bit (drop_bit 8 (ucast crc :: u32) XOR ucast d) n
        = bit (take_bit 8 (drop_bit 8 (ucast crc) XOR ucast d) :: u32) n"
      by (auto simp: bit_xor_iff bit_drop_bit_eq bit_take_bit_iff bit_ucast_iff
          dest: bit_imp_le_length)
  qed
  have "unat (drop_bit 8 (ucast crc :: u32) XOR ucast d) < 2 ^ 8"
    by (subst small) (simp only: unsigned_take_bit_eq take_bit_nat_less_exp)
  then show ?thesis by (simp add: crc_index_def)
qed

lemma crc_index_word: "push_bit 8 (of_nat (crc_index crc d) :: u16) = push_bit 8 (drop_bit 8 crc XOR ucast d)"
proof -
  have "(of_nat (crc_index crc d) :: u16) = ucast (drop_bit 8 (ucast crc :: u32) XOR (ucast d :: u32))"
    by (simp add: crc_index_def)
  also have "push_bit 8 \<dots> = push_bit 8 (drop_bit 8 crc XOR ucast d)"
    by (rule bit_word_eqI) (auto simp: bit_simps)
  finally show ?thesis .
qed

lemma crc_bits_low:
  "(\<And>j. 16 - n \<le> j \<Longrightarrow> \<not> bit x j) \<Longrightarrow> n \<le> 16 \<Longrightarrow> (crc_bit ^^ n) x = push_bit n x"
proof (induction n)
  case (Suc n)
  have "(crc_bit ^^ n) x = push_bit n x" using Suc by simp
  moreover have "\<not> bit (push_bit n x) 15" using Suc.prems by (simp add: bit_push_bit_iff)
  ultimately have "crc_bit ((crc_bit ^^ n) x) = push_bit (Suc n) x"
    by (simp only: crc_bit_def if_False push_bit_push_bit) simp
  then show ?case by simp
qed simp

lemma crc_round_spec: "crc_round crc d = crc_byte_spec crc d"
proof -
  let ?hi = "push_bit 8 (drop_bit 8 crc XOR ucast d) :: u16" and ?lo = "take_bit 8 crc"
  have "crc XOR push_bit 8 (ucast d) = ?hi XOR ?lo"
  proof (rule bit_word_eqI)
    fix n assume "n < LENGTH(16)"
    moreover have "n = 8 + (n - 8)" if "\<not> n < 8" using that by arith
    ultimately show "bit (crc XOR push_bit 8 (ucast d)) n = bit (?hi XOR ?lo) n"
      by (cases "n < 8") (simp_all add: bit_xor_iff bit_push_bit_iff bit_drop_bit_eq bit_take_bit_iff)
  qed
  then have "crc_byte_spec crc d = (crc_bit ^^ 8) ?hi XOR (crc_bit ^^ 8) ?lo"
    by (simp only: crc_byte_spec_def crc_bits_xor)
  also have "(crc_bit ^^ 8) ?lo = push_bit 8 ?lo"
    by (rule crc_bits_low) (simp_all add: bit_take_bit_iff)
  also have "(crc_bit ^^ 8) ?hi = crc16_xmodem_lookup_table ! crc_index crc d"
    by (simp only: crc_table_nth [OF crc_index_lt] crc_index_word)
  finally have "crc_byte_spec crc d = crc16_xmodem_lookup_table ! crc_index crc d XOR push_bit 8 ?lo" .
  also have "\<dots> = crc_round crc d"
    unfolding crc_round_def by (rule bit_word_eqI) (auto simp: bit_simps)
  finally show ?thesis by simp
qed

lemma mmcrc_append: "mmcrc_16_xmodem crc (xs @ ys) = mmcrc_16_xmodem (mmcrc_16_xmodem crc xs) ys"
  by (induction xs arbitrary: crc) simp_all

lemma mmcrc_inj: "mmcrc_16_xmodem c ds = mmcrc_16_xmodem c' ds \<longleftrightarrow> c = c'"
proof (induction ds arbitrary: c c')
  case (Cons d ds)
  have "c XOR x = c' XOR x \<longleftrightarrow> c = c'" for x :: u16
    by (metis xor.assoc xor_self_eq xor.right_neutral)
  with Cons show ?case by (simp add: crc_round_spec crc_byte_spec_def crc_bits_inj)
qed simp

lemma mmcrc_two:
  "mmcrc_16_xmodem c [a, b] = (crc_bit ^^ 16) (c XOR (push_bit 8 (ucast a) XOR ucast b))"
proof -
  have "(crc_bit ^^ 8) (ucast b) = push_bit 8 (ucast b)"
    by (rule crc_bits_low) (simp_all add: bit_ucast_iff u8_bit_ge)
  then have "(crc_bit ^^ 8) (c XOR push_bit 8 (ucast a)) XOR push_bit 8 (ucast b)
      = (crc_bit ^^ 8) (c XOR push_bit 8 (ucast a) XOR ucast b)"
    by (simp only: crc_bits_xor xor.assoc)
  then have "mmcrc_16_xmodem c [a, b] = (crc_bit ^^ 8) ((crc_bit ^^ 8) (c XOR push_bit 8 (ucast a) XOR ucast b))"
    by (simp only: mmcrc_16_xmodem.simps crc_round_spec crc_byte_spec_def)
  also have "\<dots> = (crc_bit ^^ (8 + 8)) (c XOR push_bit 8 (ucast a) XOR ucast b)"
    by (simp only: funpow_add comp_apply)
  finally show ?thesis by (simp add: xor.assoc)
qed

section \<open>The sum bit by bit\<close>

text \<open>The bits of a message in the order in which they enter the sum: each byte with its highest bit first.\<close>

definition byte_bits :: "u8 \<Rightarrow> bool list" where
  "byte_bits d = map (\<lambda>i. bit d (7 - i)) [0 ..< 8]"

definition message_bits :: "u8 list \<Rightarrow> bool list" where
  "message_bits ds = concat (map byte_bits ds)"

definition feed_bits :: "bool list \<Rightarrow> u16 \<Rightarrow> u16" where
  "feed_bits bs crc = fold (\<lambda>b c. crc_bit (c XOR (if b then 2 ^ 15 else 0))) bs crc"

lemma feed_bits_append: "feed_bits (xs @ ys) c = feed_bits ys (feed_bits xs c)"
  by (simp add: feed_bits_def)

lemma feed_bits_inj: "feed_bits bs c = feed_bits bs c' \<longleftrightarrow> c = c'"
proof (induction bs arbitrary: c c')
  case (Cons b bs)
  have "c XOR x = c' XOR x \<longleftrightarrow> c = c'" for x :: u16
    by (metis xor.assoc xor_self_eq xor.right_neutral)
  with Cons show ?case by (simp add: feed_bits_def crc_bit_inj)
qed (simp add: feed_bits_def)

text \<open>Up to 16 bits act as one word that is added to the sum before all their steps.\<close>

primrec burst_word :: "nat \<Rightarrow> bool list \<Rightarrow> u16" where
  "burst_word i [] = 0"
| "burst_word i (b # bs) = (if b then 2 ^ (15 - i) else 0) XOR burst_word (Suc i) bs"

lemma burst_word_bit:
  "i + length bs \<le> 16 \<Longrightarrow> bit (burst_word i bs) n \<longleftrightarrow> (\<exists>j < length bs. n + i + j = 15 \<and> bs ! j)"
proof (induction bs arbitrary: i)
  case (Cons b bs)
  have "bit (if b then 2 ^ (15 - i) else (0 :: u16)) n \<longleftrightarrow> b \<and> n + i = 15"
    using Cons.prems by (auto simp: bit_exp_iff)
  moreover have "bit (burst_word (Suc i) bs) n \<longleftrightarrow> (\<exists>j < length bs. n + Suc i + j = 15 \<and> bs ! j)"
    using Cons.prems by (intro Cons.IH) simp
  moreover have "(\<exists>j < length (b # bs). n + i + j = 15 \<and> (b # bs) ! j) \<longleftrightarrow>
      b \<and> n + i = 15 \<or> (\<exists>j < length bs. n + Suc i + j = 15 \<and> bs ! j)"
    by (simp add: Ex_less_Suc2) blast
  ultimately show ?case by (auto simp: bit_xor_iff)
qed simp

lemma burst_word_inj:
  assumes "burst_word i bs = burst_word i bs'" "length bs = length bs'" "i + length bs \<le> 16"
  shows "bs = bs'"
proof (rule nth_equalityI [OF assms(2)])
  fix j assume j: "j < length bs"
  define n where "n = 15 - i - j"
  have "n + i + k = 15 \<longleftrightarrow> k = j" for k using j assms(3) by (auto simp: n_def)
  then have "bit (burst_word i bs) n = bs ! j" "bit (burst_word i bs') n = bs' ! j"
    using j assms(2,3) by (simp_all add: burst_word_bit)
  with assms(1) show "bs ! j = bs' ! j" by simp
qed

lemma feed_bits_from:
  "i + length bs \<le> 16 \<Longrightarrow> feed_bits bs ((crc_bit ^^ i) c) = (crc_bit ^^ (i + length bs)) (c XOR burst_word i bs)"
proof (induction bs arbitrary: i c)
  case (Cons b bs)
  define x :: u16 where "x = (if b then 2 ^ (15 - i) else 0)"
  have "(if b then 2 ^ 15 else 0) = (crc_bit ^^ i) x"
    using crc_bits_top [of i] Cons.prems by (simp add: x_def)
  then have "feed_bits (b # bs) ((crc_bit ^^ i) c) = feed_bits bs ((crc_bit ^^ Suc i) (c XOR x))"
    by (simp add: feed_bits_def crc_bits_xor)
  also have "\<dots> = (crc_bit ^^ (Suc i + length bs)) ((c XOR x) XOR burst_word (Suc i) bs)"
    using Cons.prems by (intro Cons.IH) simp
  finally show ?case by (simp add: x_def xor.assoc)
qed (simp add: feed_bits_def)

lemma feed_bits_burst: "length bs \<le> 16 \<Longrightarrow> feed_bits bs c = (crc_bit ^^ length bs) (c XOR burst_word 0 bs)"
  using feed_bits_from [of 0 bs c] by simp

lemma byte_bits_word: "burst_word 0 (byte_bits d) = push_bit 8 (ucast d)"
proof (rule bit_word_eqI)
  fix n assume n: "n < LENGTH(16)"
  have "(\<exists>j < 8. n + j = 15 \<and> bit d (7 - j)) \<longleftrightarrow> 8 \<le> n \<and> bit d (n - 8)"
  proof
    assume "8 \<le> n \<and> bit d (n - 8)"
    then show "\<exists>j < 8. n + j = 15 \<and> bit d (7 - j)" using n by (intro exI [of _ "15 - n"]) auto
  next
    assume "\<exists>j < 8. n + j = 15 \<and> bit d (7 - j)"
    then obtain j where j: "j < 8" "n + j = 15" "bit d (7 - j)" by blast
    then have "7 - j = n - 8" by linarith
    with j show "8 \<le> n \<and> bit d (n - 8)" by auto
  qed
  then show "bit (burst_word 0 (byte_bits d)) n = bit (push_bit 8 (ucast d) :: u16) n"
    using n by (simp add: burst_word_bit byte_bits_def bit_push_bit_iff bit_ucast_iff less_imp_diff_less cong: conj_cong)
qed

lemma mmcrc_by_bits: "mmcrc_16_xmodem crc ds = feed_bits (message_bits ds) crc"
proof (induction ds arbitrary: crc)
  case (Cons d ds)
  have "feed_bits (byte_bits d) crc = crc_round crc d"
    using feed_bits_burst [of "byte_bits d" crc] unfolding byte_bits_word
    by (simp add: crc_round_spec crc_byte_spec_def) (simp add: byte_bits_def)
  with Cons show ?case by (simp add: message_bits_def feed_bits_append)
qed (simp add: message_bits_def feed_bits_def)

section \<open>Properties\<close>

text \<open>
  C9: for every initial value and every buffer the table-driven loop returns the bit-serial
  CRC-16/XMODEM of the buffer.
\<close>

theorem mmcrc_is_crc16_xmodem: "mmcrc_16_xmodem crc ds = crc_spec crc ds"
  by (induction ds arbitrary: crc) (simp_all add: crc_spec_def crc_round_spec)

text \<open>
  C10: every burst error of at most 16 bits, that is every corruption that leaves the bits before and behind
  some window of at most 16 consecutive bits as they were, changes the sum, wherever the window lies in the
  message (it may span three bytes).
\<close>

theorem mmcrc_detects_bursts:
  assumes "message_bits msg = pre @ w @ post" "message_bits msg' = pre @ w' @ post"
    and "length w = length w'" "length w \<le> 16" "w \<noteq> w'"
  shows "mmcrc_16_xmodem crc msg \<noteq> mmcrc_16_xmodem crc msg'"
proof
  assume "mmcrc_16_xmodem crc msg = mmcrc_16_xmodem crc msg'"
  then have "feed_bits (pre @ w @ post) crc = feed_bits (pre @ w' @ post) crc"
    by (simp only: mmcrc_by_bits assms(1,2))
  then have "feed_bits w (feed_bits pre crc) = feed_bits w' (feed_bits pre crc)"
    by (simp only: feed_bits_append feed_bits_inj)
  then have "burst_word 0 w = burst_word 0 w'"
    using assms(3,4) by (simp add: feed_bits_burst crc_bits_inj word_xor_cancel)
  then have "w = w'" by (rule burst_word_inj) (use assms(3,4) in simp_all)
  with assms(5) show False by simp
qed

text \<open>A burst of twelve bits over three bytes.\<close>

theorem mmcrc_detects_bursts_witness:
  "mmcrc_16_xmodem 0 [1, 2, 3, 4] \<noteq> mmcrc_16_xmodem 0 [0, 0xFD, 0x83, 4]"
proof (rule mmcrc_detects_bursts)
  let ?pre = "[False, False, False, False, False, False, False]"
  let ?post = "[False, False, False, False, False, True, True, False, False, False, False, False, True, False, False]"
  show "message_bits [1, 2, 3, 4] = ?pre @ [True, False, False, False, False, False, False, True, False, False] @ ?post"
    by (simp add: message_bits_def byte_bits_def upt_rec)
  show "message_bits [0, 0xFD, 0x83, 4] = ?pre @ [False, True, True, True, True, True, True, False, True, True] @ ?post"
    by (simp add: message_bits_def byte_bits_def upt_rec)
qed simp_all

text \<open>
  a message followed by its own sum, high byte first, has the sum 0: the check a receiver
  makes over message and trailer together.
\<close>

theorem mmcrc_residue:
  "mmcrc_16_xmodem crc
     (msg @ [ucast (drop_bit 8 (mmcrc_16_xmodem crc msg)), ucast (mmcrc_16_xmodem crc msg)]) = 0"
proof -
  have "push_bit 8 (ucast (ucast (drop_bit 8 c) :: u8)) XOR ucast (ucast c :: u8) = c" for c :: u16
  proof (rule bit_word_eqI)
    fix n assume "n < LENGTH(16)"
    moreover have "n = 8 + (n - 8)" if "\<not> n < 8" using that by arith
    ultimately show "bit (push_bit 8 (ucast (ucast (drop_bit 8 c) :: u8))
        XOR ucast (ucast c :: u8) :: u16) n = bit c n"
      by (cases "n < 8") (auto simp: bit_xor_iff bit_push_bit_iff bit_drop_bit_eq bit_ucast_iff)
  qed
  then show ?thesis by (simp only: mmcrc_append mmcrc_two xor_self_eq crc_bits_0)
qed

end
