(* ===== verification/Packet_Buffer.thy ===== *)
theory Packet_Buffer
  imports MM_Prelude
begin

text \<open>
  The contract that mmbuf.h and mmpkt.h both promise for their byte buffers with reserved space
  on either side: what each operation does to the data in the buffer and to the free space, and
  when it refuses. The lemmas of the interface (headers pushed are headers popped, a chain of
  segments is concatenated) are proved once from the contract; the two implementations interpret
  it in the theories Mmbuf and Mmpkt.
\<close>

fun append_all ::
    "('b \<Rightarrow> u8 list \<Rightarrow> u32 \<Rightarrow> 'b result) \<Rightarrow> 'b \<Rightarrow> u8 list list \<Rightarrow> 'b result" where
  "append_all app b [] = Inr b"
| "append_all app b (d # ds) = rbind (app b d (of_nat (length d))) (\<lambda>b'. append_all app b' ds)"

locale packet_buffer =
  fixes ok :: "'b \<Rightarrow> bool"
    and data :: "'b \<Rightarrow> u8 list"
    and headroom tailroom :: "'b \<Rightarrow> nat"
    and prepend append :: "'b \<Rightarrow> u8 list \<Rightarrow> u32 \<Rightarrow> 'b result"
    and remove_start remove_end :: "'b \<Rightarrow> u32 \<Rightarrow> u32 option \<times> 'b"
    and shorten :: "'b \<Rightarrow> u32 \<Rightarrow> 'b result"
  assumes prepend_ok:
      "\<lbrakk>ok b; length d = unat n; unat n \<le> headroom b\<rbrakk> \<Longrightarrow>
       \<exists>b'. prepend b d n = Inr b' \<and> ok b' \<and> data b' = d @ data b \<and>
            headroom b' = headroom b - unat n \<and> tailroom b' = tailroom b"
    and prepend_refused:
      "\<lbrakk>ok b; headroom b < unat n\<rbrakk> \<Longrightarrow> prepend b d n = Inl Assert_failed"
    and append_ok:
      "\<lbrakk>ok b; length d = unat n; unat n \<le> tailroom b\<rbrakk> \<Longrightarrow>
       \<exists>b'. append b d n = Inr b' \<and> ok b' \<and> data b' = data b @ d \<and>
            tailroom b' = tailroom b - unat n \<and> headroom b' = headroom b"
    and append_refused:
      "\<lbrakk>ok b; tailroom b < unat n\<rbrakk> \<Longrightarrow> append b d n = Inl Assert_failed"
    and remove_start_ok:
      "\<lbrakk>ok b; unat n \<le> length (data b)\<rbrakk> \<Longrightarrow>
       \<exists>p b'. remove_start b n = (Some p, b') \<and> ok b' \<and> data b' = drop (unat n) (data b) \<and>
            headroom b' = headroom b + unat n \<and> tailroom b' = tailroom b"
    and remove_start_short:
      "\<lbrakk>ok b; length (data b) < unat n\<rbrakk> \<Longrightarrow> remove_start b n = (None, b)"
    and remove_end_ok:
      "\<lbrakk>ok b; unat n \<le> length (data b)\<rbrakk> \<Longrightarrow>
       \<exists>p b'. remove_end b n = (Some p, b') \<and> ok b' \<and>
            data b' = take (length (data b) - unat n) (data b) \<and>
            headroom b' = headroom b \<and> tailroom b' = tailroom b + unat n"
    and remove_end_short:
      "\<lbrakk>ok b; length (data b) < unat n\<rbrakk> \<Longrightarrow> remove_end b n = (None, b)"
    and shorten_ok:
      "\<lbrakk>ok b; unat n \<le> length (data b)\<rbrakk> \<Longrightarrow>
       \<exists>b'. shorten b n = Inr b' \<and> ok b' \<and> data b' = take (unat n) (data b) \<and>
            headroom b' = headroom b"
    and shorten_refused:
      "\<lbrakk>ok b; length (data b) < unat n\<rbrakk> \<Longrightarrow> shorten b n = Inl Assert_failed"
begin

text \<open>A header that is pushed and popped again leaves the payload and both margins as they were.\<close>

lemma header_roundtrip:
  assumes "ok b" "length d = unat n" "unat n \<le> headroom b"
  shows "\<exists>b1 p b2. prepend b d n = Inr b1 \<and> take (unat n) (data b1) = d \<and>
           remove_start b1 n = (Some p, b2) \<and> ok b2 \<and> data b2 = data b \<and>
           headroom b2 = headroom b \<and> tailroom b2 = tailroom b"
proof -
  obtain b1 where b1: "prepend b d n = Inr b1" "ok b1" "data b1 = d @ data b"
      "headroom b1 = headroom b - unat n" "tailroom b1 = tailroom b"
    using prepend_ok [OF assms] by blast
  with assms obtain p b2 where "remove_start b1 n = (Some p, b2)" "ok b2"
      "data b2 = drop (unat n) (data b1)" "headroom b2 = headroom b1 + unat n"
      "tailroom b2 = tailroom b1"
    using remove_start_ok [of b1 n] by auto
  with b1 assms show ?thesis by (intro exI [of _ b1] exI [of _ p] exI [of _ b2]) simp
qed

text \<open>The same for a trailer.\<close>

lemma trailer_roundtrip:
  assumes "ok b" "length d = unat n" "unat n \<le> tailroom b"
  shows "\<exists>b1 p b2. append b d n = Inr b1 \<and> drop (length (data b)) (data b1) = d \<and>
           remove_end b1 n = (Some p, b2) \<and> ok b2 \<and> data b2 = data b \<and>
           headroom b2 = headroom b \<and> tailroom b2 = tailroom b"
proof -
  obtain b1 where b1: "append b d n = Inr b1" "ok b1" "data b1 = data b @ d"
      "tailroom b1 = tailroom b - unat n" "headroom b1 = headroom b"
    using append_ok [OF assms] by blast
  with assms obtain p b2 where "remove_end b1 n = (Some p, b2)" "ok b2"
      "data b2 = take (length (data b1) - unat n) (data b1)" "headroom b2 = headroom b1"
      "tailroom b2 = tailroom b1 + unat n"
    using remove_end_ok [of b1 n] by auto
  with b1 assms show ?thesis by (intro exI [of _ b1] exI [of _ p] exI [of _ b2]) simp
qed

text \<open>A chain of segments that fits is appended in order, without gaps.\<close>

lemma append_all_ok:
  "\<lbrakk>ok b; length (concat ds) \<le> tailroom b; tailroom b < 4294967296\<rbrakk> \<Longrightarrow>
   \<exists>b'. append_all append b ds = Inr b' \<and> ok b' \<and> data b' = data b @ concat ds \<and>
        tailroom b' = tailroom b - length (concat ds) \<and> headroom b' = headroom b"
proof (induction ds arbitrary: b)
  case (Cons d ds)
  then have n: "length d = unat (of_nat (length d) :: u32)"
    and "unat (of_nat (length d) :: u32) \<le> tailroom b"
    by simp_all
  with Cons.prems(1) obtain b1 where b1: "append b d (of_nat (length d)) = Inr b1" "ok b1"
      "data b1 = data b @ d" "tailroom b1 = tailroom b - length d" "headroom b1 = headroom b"
    using append_ok [of b d "of_nat (length d)"] by auto
  with Cons.prems have "length (concat ds) \<le> tailroom b1" "tailroom b1 < 4294967296" by simp_all
  from Cons.IH [OF b1(2) this] b1 show ?case by auto
qed simp

text \<open>A chain that does not fit fails its assertion instead of writing past the buffer.\<close>

lemma append_all_refused:
  "\<lbrakk>ok b; tailroom b < length (concat ds); tailroom b < 4294967296;
    \<forall>d \<in> set ds. length d < 4294967296\<rbrakk> \<Longrightarrow> append_all append b ds = Inl Assert_failed"
proof (induction ds arbitrary: b)
  case (Cons d ds)
  then have n: "length d = unat (of_nat (length d) :: u32)" by simp
  show ?case
  proof (cases "length d \<le> tailroom b")
    case True
    with n Cons.prems(1) obtain b1 where b1: "append b d (of_nat (length d)) = Inr b1" "ok b1"
        "tailroom b1 = tailroom b - length d"
      using append_ok [of b d "of_nat (length d)"] by auto
    moreover have "append_all append b1 ds = Inl Assert_failed"
      using Cons.prems True by (intro Cons.IH) (auto simp: b1)
    ultimately show ?thesis by simp
  next
    case False
    with n Cons.prems(1) show ?thesis
      using append_refused [of b "of_nat (length d)"] by simp
  qed
qed simp

end

end
