(* ===== verification/Mmpkt.thy ===== *)
theory Mmpkt
  imports Packet_Buffer
begin

text \<open>
  The packets of mmpkt.h. A packet lives in one block of memory: the structure itself (28 bytes), the
  data area \<open>buf\<close> and, behind it, the metadata. The model keeps the whole block in \<open>blk\<close>; \<open>buf\<close>
  and \<open>metadata\<close> are offsets in it, so that a packet written over its structure or its metadata
  would show. Views (\<open>struct mmpktview\<close>) are casts of the packet pointer and have no state.
\<close>

section \<open>Data\<close>

datatype free_pkt_fn = Tx_command_reserved_free | Tx_data_pool_pkt_free | Rx_pkt_free | Library_free nat

record mmpkt_ops =
  free_mmpkt :: "free_pkt_fn option"

record mmpkt =
  blk :: "u8 list"
  buf :: u32
  buf_len :: u32
  start_offset :: u32
  data_len :: u32
  metadata :: "u32 option"
  ops :: "mmpkt_ops option"
  next_pkt :: "nat option"

text \<open>\<open>sizeof(struct mmpkt)\<close>: seven 4-byte members on the 32-bit target.\<close>

definition sizeof_mmpkt :: u32 where
  "sizeof_mmpkt = 28"

section \<open>Operations\<close>

definition mmpkt_init :: "u8 list \<Rightarrow> u32 \<Rightarrow> u32 \<Rightarrow> u32 \<Rightarrow> mmpkt_ops option \<Rightarrow> mmpkt" where
  "mmpkt_init m b blen data_start_offset o_ops =
     \<lparr>blk = m, buf = b, buf_len = blen, start_offset = data_start_offset, data_len = 0,
      metadata = None, ops = o_ops, next_pkt = None\<rparr>"

text \<open>
  \<open>m\<close> is the memory at the pointer \<open>buf\<close>, \<open>blen\<close> the length the caller states. The comparison in the
  whole-buffer case is signed.
\<close>

definition mmpkt_init_buf ::
    "u8 list \<Rightarrow> u32 \<Rightarrow> u32 \<Rightarrow> u32 \<Rightarrow> u32 \<Rightarrow> mmpkt_ops option \<Rightarrow> mmpkt option result" where
  "mmpkt_init_buf m blen space_at_start space_at_end metadata_size o_ops =
     (let header_size = mm_fast_round_up sizeof_mmpkt 4;
          metadata_size = mm_fast_round_up metadata_size 4;
          whole = (space_at_end = 0xFFFFFFFF);
          dlen = (if \<not> whole then mm_fast_round_up (space_at_start + space_at_end) 4
                  else (blen - header_size - metadata_size) AND NOT 3)
      in if whole \<and> sint dlen < sint space_at_start then Inr None
         else if blen < header_size + dlen + metadata_size then Inr None
         else
           let pkt = mmpkt_init m header_size dlen space_at_start o_ops
           in if metadata_size \<noteq> 0
              then rbind (mem_write m (unat (header_size + dlen)) (replicate (unat metadata_size) 0))
                     (\<lambda>m1. Inr (Some (pkt\<lparr>blk := m1, metadata := Some (header_size + dlen)\<rparr>)))
              else Inr (Some pkt))"

definition mmpkt_get_data_start :: "mmpkt \<Rightarrow> u32" where
  "mmpkt_get_data_start p = buf p + start_offset p"

definition mmpkt_get_data_end :: "mmpkt \<Rightarrow> u32" where
  "mmpkt_get_data_end p = buf p + start_offset p + data_len p"

definition mmpkt_peek_data_length :: "mmpkt \<Rightarrow> u32" where
  "mmpkt_peek_data_length p = data_len p"

definition mmpkt_get_data_length :: "mmpkt \<Rightarrow> u32" where
  "mmpkt_get_data_length p = data_len p"

definition mmpkt_available_space_at_start :: "mmpkt \<Rightarrow> u32" where
  "mmpkt_available_space_at_start p = start_offset p"

definition mmpkt_available_space_at_end :: "mmpkt \<Rightarrow> u32" where
  "mmpkt_available_space_at_end p = buf_len p - (start_offset p + data_len p)"

definition mmpkt_prepend :: "mmpkt \<Rightarrow> u32 \<Rightarrow> (u32 \<times> mmpkt) result" where
  "mmpkt_prepend p len =
     rbind (c_assert (len \<le> mmpkt_available_space_at_start p)) (\<lambda>_.
       let p1 = p\<lparr>start_offset := start_offset p - len, data_len := data_len p + len\<rparr>
       in Inr (buf p1 + start_offset p1, p1))"

definition mmpkt_prepend_data :: "mmpkt \<Rightarrow> u8 list \<Rightarrow> u32 \<Rightarrow> mmpkt result" where
  "mmpkt_prepend_data p d len =
     rbind (mmpkt_prepend p len) (\<lambda>(dest, p1).
     rbind (mem_read d 0 (unat len)) (\<lambda>bytes.
     rbind (mem_write (blk p1) (unat dest) bytes) (\<lambda>m. Inr (p1\<lparr>blk := m\<rparr>))))"

definition mmpkt_append :: "mmpkt \<Rightarrow> u32 \<Rightarrow> (u32 \<times> mmpkt) result" where
  "mmpkt_append p len =
     (let ret = mmpkt_get_data_end p in
      rbind (c_assert (len \<le> mmpkt_available_space_at_end p)) (\<lambda>_.
        Inr (ret, p\<lparr>data_len := data_len p + len\<rparr>)))"

definition mmpkt_append_data :: "mmpkt \<Rightarrow> u8 list \<Rightarrow> u32 \<Rightarrow> mmpkt result" where
  "mmpkt_append_data p d len =
     rbind (mmpkt_append p len) (\<lambda>(dest, p1).
     rbind (mem_read d 0 (unat len)) (\<lambda>bytes.
     rbind (mem_write (blk p1) (unat dest) bytes) (\<lambda>m. Inr (p1\<lparr>blk := m\<rparr>))))"

definition mmpkt_get_metadata :: "mmpkt \<Rightarrow> u32 option" where
  "mmpkt_get_metadata p = metadata p"

text \<open>\<open>delta\<close> is an \<open>int32_t\<close>; adding it is addition of its 32-bit pattern.\<close>

definition mmpkt_adjust_start_offset :: "mmpkt \<Rightarrow> u32 \<Rightarrow> mmpkt result" where
  "mmpkt_adjust_start_offset p delta =
     rbind (c_assert (data_len p = 0)) (\<lambda>_.
       let p1 = p\<lparr>start_offset := start_offset p + delta\<rparr>
       in rbind (c_assert (start_offset p1 \<le> buf_len p1)) (\<lambda>_. Inr p1))"

definition mmpkt_remove_from_start :: "mmpkt \<Rightarrow> u32 \<Rightarrow> u32 option \<times> mmpkt" where
  "mmpkt_remove_from_start p len =
     (if mmpkt_get_data_length p < len then (None, p)
      else (Some (mmpkt_get_data_start p),
            p\<lparr>start_offset := start_offset p + len, data_len := data_len p - len\<rparr>))"

definition mmpkt_remove_from_end :: "mmpkt \<Rightarrow> u32 \<Rightarrow> u32 option \<times> mmpkt" where
  "mmpkt_remove_from_end p len =
     (if mmpkt_get_data_length p < len then (None, p)
      else (Some (mmpkt_get_data_end p - len), p\<lparr>data_len := data_len p - len\<rparr>))"

definition mmpkt_truncate :: "mmpkt \<Rightarrow> u32 \<Rightarrow> mmpkt result" where
  "mmpkt_truncate p len =
     rbind (c_assert (len \<le> data_len p)) (\<lambda>_. Inr (p\<lparr>data_len := len\<rparr>))"

definition mmpkt_get_next :: "mmpkt \<Rightarrow> nat option" where
  "mmpkt_get_next p = next_pkt p"

definition mmpkt_set_next :: "mmpkt \<Rightarrow> nat option \<Rightarrow> mmpkt" where
  "mmpkt_set_next p n = p\<lparr>next_pkt := n\<rparr>"

text \<open>\<open>base\<close> is the address of the block; addresses are 32-bit and compared unsigned.\<close>

definition mmpkt_contains_ptr :: "u32 \<Rightarrow> mmpkt \<Rightarrow> u32 \<Rightarrow> bool" where
  "mmpkt_contains_ptr base p ptr \<longleftrightarrow> base + buf p \<le> ptr \<and> ptr < base + buf p + buf_len p"

section \<open>Invariant and abstraction\<close>

definition mmpkt_ok :: "mmpkt \<Rightarrow> bool" where
  "mmpkt_ok p \<longleftrightarrow> length (blk p) < 4294967296 \<and>
     unat (buf p) + unat (buf_len p) \<le> length (blk p) \<and>
     unat (start_offset p) + unat (data_len p) \<le> unat (buf_len p)"

definition mmpkt_data :: "mmpkt \<Rightarrow> u8 list" where
  "mmpkt_data p = window (blk p) (unat (buf p) + unat (start_offset p)) (unat (data_len p))"

definition mmpkt_headroom :: "mmpkt \<Rightarrow> nat" where
  "mmpkt_headroom p = unat (mmpkt_available_space_at_start p)"

definition mmpkt_tailroom :: "mmpkt \<Rightarrow> nat" where
  "mmpkt_tailroom p = unat (mmpkt_available_space_at_end p)"

text \<open>What is in the block outside the data area: the structure before it, the metadata behind it.\<close>

definition mmpkt_outside :: "mmpkt \<Rightarrow> u8 list \<times> u8 list" where
  "mmpkt_outside p = (take (unat (buf p)) (blk p), drop (unat (buf p) + unat (buf_len p)) (blk p))"

lemma mmpkt_sums:
  assumes "mmpkt_ok p"
  shows "unat (start_offset p + data_len p) = unat (start_offset p) + unat (data_len p)"
    and "unat (buf p + start_offset p) = unat (buf p) + unat (start_offset p)"
    and "unat (buf p + start_offset p + data_len p) = unat (buf p) + unat (start_offset p) + unat (data_len p)"
proof -
  from assms have b: "unat (buf p) + unat (start_offset p) + unat (data_len p) < 4294967296"
    by (simp add: mmpkt_ok_def)
  then show "unat (start_offset p + data_len p) = unat (start_offset p) + unat (data_len p)"
    and bs: "unat (buf p + start_offset p) = unat (buf p) + unat (start_offset p)"
    by (simp_all add: u32_add)
  with b show "unat (buf p + start_offset p + data_len p)
      = unat (buf p) + unat (start_offset p) + unat (data_len p)"
    by (subst u32_add) simp_all
qed

lemma mmpkt_headroom_eq: "mmpkt_headroom p = unat (start_offset p)"
  by (simp add: mmpkt_headroom_def mmpkt_available_space_at_start_def)

lemma mmpkt_tailroom_eq:
  "mmpkt_ok p \<Longrightarrow> mmpkt_tailroom p = unat (buf_len p) - (unat (start_offset p) + unat (data_len p))"
  using mmpkt_sums(1) [of p]
  by (simp add: mmpkt_tailroom_def mmpkt_available_space_at_end_def u32_sub u32_le_iff mmpkt_ok_def)

lemma mmpkt_data_length: "mmpkt_ok p \<Longrightarrow> length (mmpkt_data p) = unat (data_len p)"
  by (simp add: mmpkt_data_def mmpkt_ok_def window_length)

lemmas mmpkt_defs =
  mmpkt_get_data_start_def mmpkt_get_data_end_def mmpkt_get_data_length_def
  mmpkt_available_space_at_start_def mmpkt_available_space_at_end_def
  mmpkt_prepend_def mmpkt_append_def mmpkt_prepend_data_def mmpkt_append_data_def
  mmpkt_remove_from_start_def mmpkt_remove_from_end_def mmpkt_truncate_def

lemma mmpkt_prepend_data_run:
  assumes ok: "mmpkt_ok p" and d: "length d = unat n" and room: "unat n \<le> mmpkt_headroom p"
  defines "at \<equiv> unat (buf p) + unat (start_offset p)"
  defines "p' \<equiv> p\<lparr>start_offset := start_offset p - n, data_len := data_len p + n,
      blk := take (at - length d) (blk p) @ d @ drop at (blk p)\<rparr>"
  shows "mmpkt_prepend_data p d n = Inr p'" and "mmpkt_ok p'"
    and "unat (start_offset p - n) = unat (start_offset p) - unat n"
    and "unat (data_len p + n) = unat (data_len p) + unat n"
proof -
  let ?s = "unat (start_offset p)" and ?l = "unat (data_len p)"
  have b: "unat (buf p) + unat (buf_len p) \<le> length (blk p)" "?s + ?l \<le> unat (buf_len p)"
      "length (blk p) < 4294967296"
    using ok by (simp_all add: mmpkt_ok_def)
  have fits: "unat n \<le> ?s" using room by (simp add: mmpkt_headroom_eq)
  show s': "unat (start_offset p - n) = ?s - unat n" using fits by (simp add: u32_sub u32_le_iff)
  show l': "unat (data_len p + n) = ?l + unat n"
    by (rule u32_add_le [of _ _ "buf_len p"]) (use fits b in linarith)
  have at: "unat (buf p + (start_offset p - n)) = at - unat n"
    using fits b by (simp add: u32_add s' at_def)
  show "mmpkt_prepend_data p d n = Inr p'"
    using fits b d by (simp add: mmpkt_defs Let_def u32_le_iff at p'_def at_def)
  show "mmpkt_ok p'" using fits b d by (simp add: mmpkt_ok_def p'_def s' l' at_def)
qed

lemma mmpkt_prepend_data_ok:
  assumes ok: "mmpkt_ok p" and d: "length d = unat n" and room: "unat n \<le> mmpkt_headroom p"
  shows "\<exists>p'. mmpkt_prepend_data p d n = Inr p' \<and> mmpkt_ok p' \<and> mmpkt_data p' = d @ mmpkt_data p \<and>
    mmpkt_headroom p' = mmpkt_headroom p - unat n \<and> mmpkt_tailroom p' = mmpkt_tailroom p"
proof -
  note run = mmpkt_prepend_data_run [OF assms]
  have fits: "unat n \<le> unat (start_offset p)" using room by (simp add: mmpkt_headroom_eq)
  have b: "unat (buf p) + unat (start_offset p) + unat (data_len p) \<le> length (blk p)"
    using ok by (simp add: mmpkt_ok_def)
  have data: "unat (buf p) + (unat (start_offset p) - unat n)
      = unat (buf p) + unat (start_offset p) - length d" using fits d by simp
  show ?thesis
    using run(2) fits d window_prepend [of d "unat (buf p) + unat (start_offset p)" "unat (data_len p)" "blk p"] b
    by (simp add: run(1,3,4) mmpkt_data_def data mmpkt_headroom_eq mmpkt_tailroom_eq ok)
qed

lemma mmpkt_append_data_run:
  assumes ok: "mmpkt_ok p" and d: "length d = unat n" and room: "unat n \<le> mmpkt_tailroom p"
  defines "at \<equiv> unat (buf p) + unat (start_offset p) + unat (data_len p)"
  defines "p' \<equiv> p\<lparr>data_len := data_len p + n,
      blk := take at (blk p) @ d @ drop (at + length d) (blk p)\<rparr>"
  shows "mmpkt_append_data p d n = Inr p'" and "mmpkt_ok p'"
    and "unat (data_len p + n) = unat (data_len p) + unat n"
    and "unat (start_offset p) + unat (data_len p) + unat n \<le> unat (buf_len p)"
proof -
  let ?s = "unat (start_offset p)" and ?l = "unat (data_len p)"
  have b: "unat (buf p) + unat (buf_len p) \<le> length (blk p)" "?s + ?l \<le> unat (buf_len p)"
      "length (blk p) < 4294967296"
    using ok by (simp_all add: mmpkt_ok_def)
  show fits: "?s + ?l + unat n \<le> unat (buf_len p)"
    using room b by (simp add: mmpkt_tailroom_eq ok)
  show l': "unat (data_len p + n) = ?l + unat n"
    by (rule u32_add_le [of _ _ "buf_len p"]) (use fits in linarith)
  have "n \<le> mmpkt_available_space_at_end p"
    using room by (simp add: u32_le_iff mmpkt_tailroom_def)
  then show "mmpkt_append_data p d n = Inr p'"
    using fits b d by (simp add: mmpkt_append_data_def mmpkt_append_def mmpkt_get_data_end_def
        mmpkt_sums [OF ok] p'_def at_def)
  show "mmpkt_ok p'" using fits b d by (simp add: mmpkt_ok_def p'_def l' at_def)
qed

lemma mmpkt_append_data_ok:
  assumes ok: "mmpkt_ok p" and d: "length d = unat n" and room: "unat n \<le> mmpkt_tailroom p"
  shows "\<exists>p'. mmpkt_append_data p d n = Inr p' \<and> mmpkt_ok p' \<and> mmpkt_data p' = mmpkt_data p @ d \<and>
    mmpkt_tailroom p' = mmpkt_tailroom p - unat n \<and> mmpkt_headroom p' = mmpkt_headroom p"
proof -
  note run = mmpkt_append_data_run [OF assms]
  have b: "unat (buf p) + unat (start_offset p) + unat (data_len p) + length d \<le> length (blk p)"
    using ok run(4) d by (simp add: mmpkt_ok_def)
  show ?thesis
    using run(2) d window_append [OF b]
    by (simp add: run(1,3) mmpkt_data_def mmpkt_headroom_eq mmpkt_tailroom_eq ok)
qed

lemma mmpkt_remove_from_start_ok:
  assumes ok: "mmpkt_ok p" and n: "unat n \<le> length (mmpkt_data p)"
  shows "\<exists>q p'. mmpkt_remove_from_start p n = (Some q, p') \<and> mmpkt_ok p' \<and>
    mmpkt_data p' = drop (unat n) (mmpkt_data p) \<and>
    mmpkt_headroom p' = mmpkt_headroom p + unat n \<and> mmpkt_tailroom p' = mmpkt_tailroom p"
proof -
  let ?p' = "p\<lparr>start_offset := start_offset p + n, data_len := data_len p - n\<rparr>"
  have b: "unat (start_offset p) + unat (data_len p) \<le> unat (buf_len p)"
    using ok by (simp add: mmpkt_ok_def)
  have fits: "unat n \<le> unat (data_len p)" using n by (simp add: mmpkt_data_length ok)
  have s': "unat (start_offset p + n) = unat (start_offset p) + unat n"
    by (rule u32_add_le [of _ _ "buf_len p"]) (use fits b in linarith)
  have l': "unat (data_len p - n) = unat (data_len p) - unat n"
    using fits by (simp add: u32_sub u32_le_iff)
  have run: "mmpkt_remove_from_start p n = (Some (mmpkt_get_data_start p), ?p')"
    using fits by (simp add: mmpkt_remove_from_start_def mmpkt_get_data_length_def u32_less_iff)
  have ok': "mmpkt_ok ?p'" using ok fits by (simp add: mmpkt_ok_def s' l')
  have "mmpkt_data ?p' = drop (unat n) (mmpkt_data p)"
    using window_drop [OF fits, of "blk p" "unat (buf p) + unat (start_offset p)"]
    by (simp add: mmpkt_data_def s' l' add.assoc)
  with run ok' fits show ?thesis by (simp add: mmpkt_headroom_eq mmpkt_tailroom_eq ok s' l')
qed

lemma mmpkt_shrink_end:
  assumes ok: "mmpkt_ok p" and k: "unat k \<le> unat (data_len p)"
  shows "mmpkt_ok (p\<lparr>data_len := k\<rparr>) \<and> mmpkt_data (p\<lparr>data_len := k\<rparr>) = take (unat k) (mmpkt_data p)
    \<and> mmpkt_headroom (p\<lparr>data_len := k\<rparr>) = mmpkt_headroom p
    \<and> mmpkt_tailroom (p\<lparr>data_len := k\<rparr>) = mmpkt_tailroom p + (unat (data_len p) - unat k)"
proof -
  have ok': "mmpkt_ok (p\<lparr>data_len := k\<rparr>)" using assms by (simp add: mmpkt_ok_def)
  moreover have "mmpkt_tailroom (p\<lparr>data_len := k\<rparr>) = mmpkt_tailroom p + (unat (data_len p) - unat k)"
    using assms by (simp add: mmpkt_tailroom_eq ok' mmpkt_ok_def)
  ultimately show ?thesis
    using k by (simp add: mmpkt_headroom_eq mmpkt_data_def window_take [of "unat k" "unat (data_len p)"])
qed

text \<open>The packets of mmpkt keep the same contract as the buffers of mmbuf.\<close>

interpretation mp: packet_buffer mmpkt_ok mmpkt_data mmpkt_headroom mmpkt_tailroom
  mmpkt_prepend_data mmpkt_append_data mmpkt_remove_from_start mmpkt_remove_from_end mmpkt_truncate
proof unfold_locales
  fix p n
  assume ok: "mmpkt_ok p"
  show "mmpkt_headroom p < unat n \<Longrightarrow> mmpkt_prepend_data p d n = Inl Assert_failed" for d
    by (simp add: mmpkt_defs u32_le_iff mmpkt_headroom_eq)
  show "mmpkt_tailroom p < unat n \<Longrightarrow> mmpkt_append_data p d n = Inl Assert_failed" for d
    by (simp add: mmpkt_append_data_def mmpkt_append_def u32_le_iff mmpkt_tailroom_def)
  show "length (mmpkt_data p) < unat n \<Longrightarrow> mmpkt_remove_from_start p n = (None, p)"
    "length (mmpkt_data p) < unat n \<Longrightarrow> mmpkt_remove_from_end p n = (None, p)"
    "length (mmpkt_data p) < unat n \<Longrightarrow> mmpkt_truncate p n = Inl Assert_failed"
    by (simp_all add: mmpkt_defs u32_less_iff u32_le_iff mmpkt_data_length ok)
  assume n: "unat n \<le> length (mmpkt_data p)"
  then have le: "unat n \<le> unat (data_len p)" by (simp add: mmpkt_data_length ok)
  then have sub: "unat (data_len p - n) = unat (data_len p) - unat n"
    by (simp add: u32_sub u32_le_iff)
  show "\<exists>q p'. mmpkt_remove_from_end p n = (Some q, p') \<and> mmpkt_ok p' \<and>
      mmpkt_data p' = take (length (mmpkt_data p) - unat n) (mmpkt_data p) \<and>
      mmpkt_headroom p' = mmpkt_headroom p \<and> mmpkt_tailroom p' = mmpkt_tailroom p + unat n"
    using mmpkt_shrink_end [OF ok, of "data_len p - n"] le
    by (simp add: mmpkt_defs u32_less_iff sub mmpkt_data_length ok)
  show "\<exists>p'. mmpkt_truncate p n = Inr p' \<and> mmpkt_ok p' \<and>
      mmpkt_data p' = take (unat n) (mmpkt_data p) \<and> mmpkt_headroom p' = mmpkt_headroom p"
    using mmpkt_shrink_end [OF ok, of n] le by (simp add: mmpkt_defs u32_le_iff)
qed (blast intro: mmpkt_prepend_data_ok mmpkt_append_data_ok mmpkt_remove_from_start_ok)+

section \<open>Laying out a packet in a block\<close>

lemma pkt_header_size: "mm_fast_round_up sizeof_mmpkt 4 = 28"
  by (simp add: word_unat_eq_iff unat_round_up_4 sizeof_mmpkt_def)

text \<open>
  What a caller of \<open>mmpkt_init_buf\<close> gets: a well-formed, empty packet whose area has the requested
  space, with zeroed metadata of the rounded size right behind the area and still in the block, and
  the structure and the rest of the block outside the area.
\<close>

definition laid_out :: "u8 list \<Rightarrow> u32 \<Rightarrow> u32 \<Rightarrow> mmpkt \<Rightarrow> bool" where
  "laid_out m space_at_start metadata_size p \<longleftrightarrow>
     mmpkt_ok p \<and> length (blk p) = length m \<and> mmpkt_data p = [] \<and> unat (buf p) = 28 \<and>
     mmpkt_headroom p = unat space_at_start \<and> next_pkt p = None \<and>
     (if metadata_size = 0 then metadata p = None \<and> blk p = m
      else metadata p = Some (buf p + buf_len p) \<and>
        unat (buf p) + unat (buf_len p) + unat (mm_fast_round_up metadata_size 4) \<le> length m \<and>
        window (blk p) (unat (buf p + buf_len p)) (unat (mm_fast_round_up metadata_size 4))
          = replicate (unat (mm_fast_round_up metadata_size 4)) 0)"

lemma round_up_eq_0: "unat n \<le> 4294967292 \<Longrightarrow> mm_fast_round_up n 4 = 0 \<longleftrightarrow> n = 0"
proof -
  assume n: "unat n \<le> 4294967292"
  have "unat (mm_fast_round_up n 4) = 0 \<longleftrightarrow> unat n = 0"
    by (simp add: unat_round_up_4 n div_eq_0_iff)
  then show ?thesis by (simp add: unat_eq_0)
qed

lemma mmpkt_layout:
  fixes o_ops :: "mmpkt_ops option"
  assumes "unat blen \<le> length m" "length m < 4294967296" "unat ms \<le> 4294967292"
    and "28 + unat dlen + unat (mm_fast_round_up ms 4) \<le> unat blen" "unat s \<le> unat dlen"
  defines "mr \<equiv> mm_fast_round_up ms 4"
  defines "m' \<equiv> (if mr \<noteq> 0 then take (unat (28 + dlen)) m @ replicate (unat mr) 0 @ drop (unat (28 + dlen) + unat mr) m
            else m)"
  defines "p \<equiv> (mmpkt_init m' 28 dlen s o_ops)\<lparr>metadata := if mr \<noteq> 0 then Some (28 + dlen) else None\<rparr>"
  shows "laid_out m s ms p" and "unat (28 + dlen) = 28 + unat dlen"
    and "unat (28 + dlen + mr) = 28 + unat dlen + unat mr" and "mmpkt_tailroom p = unat dlen - unat s"
    and "28 + unat dlen + unat mr \<le> length m"
proof -
  note mr = assms(4) [folded mr_def]
  show e: "unat (28 + dlen) = 28 + unat dlen" using mr assms(1,2) by (simp add: u32_add)
  with mr assms(1,2) show "unat (28 + dlen + mr) = 28 + unat dlen + unat mr" by (simp add: u32_add)
  show le: "28 + unat dlen + unat mr \<le> length m" using mr assms(1) by linarith
  then have len: "length m' = length m" by (simp add: m'_def e)
  have ok: "mmpkt_ok p" using len le assms(2,5) by (simp add: mmpkt_ok_def p_def mmpkt_init_def)
  show "mmpkt_tailroom p = unat dlen - unat s"
    using ok by (simp add: mmpkt_tailroom_eq) (simp add: p_def mmpkt_init_def)
  have z: "mr = 0 \<longleftrightarrow> ms = 0" unfolding mr_def by (rule round_up_eq_0 [OF assms(3)])
  have "mr \<noteq> 0 \<Longrightarrow> window m' (28 + unat dlen) (unat mr) = replicate (unat mr) 0"
    using le by (simp add: window_def m'_def e)
  then show "laid_out m s ms p"
    using ok len le z by (simp add: laid_out_def flip: mr_def)
      (simp add: p_def mmpkt_init_def mmpkt_headroom_eq mmpkt_data_def window_def e m'_def)
qed

lemma init_buf_explicit_end:
  assumes "unat blen \<le> length m" "length m < 4294967296"
    and "unat s < 1073741824" "unat e < 1073741824" "unat ms < 1073741824"
  shows "if 28 + 4 * ((unat s + unat e + 3) div 4) + 4 * ((unat ms + 3) div 4) \<le> unat blen
    then \<exists>p. mmpkt_init_buf m blen s e ms o_ops = Inr (Some p) \<and> laid_out m s ms p \<and>
           unat e \<le> mmpkt_tailroom p \<and> mmpkt_tailroom p < unat e + 4 \<and> ops p = o_ops
    else mmpkt_init_buf m blen s e ms o_ops = Inr None"
proof -
  define dlen where "dlen = mm_fast_round_up (s + e) 4"
  define mr where "mr = mm_fast_round_up ms 4"
  have "unat (s + e) = unat s + unat e" using assms(3,4) by (intro u32_add) linarith
  then have dl: "unat dlen = 4 * ((unat s + unat e + 3) div 4)"
    using assms(3,4) by (simp add: dlen_def unat_round_up_4)
  have ml: "unat mr = 4 * ((unat ms + 3) div 4)" using assms(5) by (simp add: mr_def unat_round_up_4)
  have se: "unat s + unat e \<le> unat dlen" "unat dlen < unat s + unat e + 4"
    using nat_round_4(2,3) [of "unat s + unat e"] by (simp_all add: dl)
  have ms4: "unat mr < unat ms + 4" using nat_round_4(3) [of "unat ms"] by (simp add: ml)
  have e: "e \<noteq> 0xFFFFFFFF" using assms(4) by auto
  have sum: "unat (28 + dlen + mr) = 28 + unat dlen + unat mr"
    using se(2) ms4 assms(3-5) by (simp add: u32_add)
  show ?thesis
  proof (cases "28 + unat dlen + unat mr \<le> unat blen")
    case True
    have lay: "unat ms \<le> 4294967292" "unat s \<le> unat dlen" using assms(5) se by simp_all
    note L = mmpkt_layout [OF assms(1,2) lay(1) _ lay(2), folded mr_def, OF True]
    have run: "mmpkt_init_buf m blen s e ms o_ops = Inr (Some ((mmpkt_init
        (if mr \<noteq> 0 then take (unat (28 + dlen)) m @ replicate (unat mr) 0 @ drop (unat (28 + dlen) + unat mr) m
         else m) 28 dlen s o_ops)\<lparr>metadata := if mr \<noteq> 0 then Some (28 + dlen) else None\<rparr>))"
      using e True L(2,5) sum
      by (simp add: mmpkt_init_buf_def pkt_header_size u32_less_iff mmpkt_init_def flip: dlen_def mr_def)
    from True dl ml have "28 + 4 * ((unat s + unat e + 3) div 4) + 4 * ((unat ms + 3) div 4) \<le> unat blen"
      by simp
    moreover have "unat e \<le> unat dlen - unat s" "unat dlen - unat s < unat e + 4"
      using se by linarith+
    ultimately show ?thesis
      unfolding run using L(1,4) by (simp add: mmpkt_init_def)
  next
    case False
    then have "mmpkt_init_buf m blen s e ms o_ops = Inr None"
      using e sum by (simp add: mmpkt_init_buf_def pkt_header_size u32_less_iff flip: dlen_def mr_def)
    with False dl ml show ?thesis by simp
  qed
qed

text \<open>
  \<open>mmpkt_init_buf\<close> with an explicit \<open>space_at_end\<close> lays out a packet exactly when structure,
  rounded-up data area and rounded-up metadata fit in the stated length, and returns NULL
  otherwise; the packet has the requested space before and at least the requested space behind the
  data, and nothing is written outside the block. (Requests are below 2 to the 30 so that no sum
  wraps; lemma \<open>mmpkt_init_buf_wraps\<close> shows what happens above.)
\<close>

theorem mmpkt_init_buf_sized:
  assumes "unat blen \<le> length m" "length m < 4294967296"
    and "unat s < 1073741824" "unat e < 1073741824" "unat ms < 1073741824"
  shows "if 28 + 4 * ((unat s + unat e + 3) div 4) + 4 * ((unat ms + 3) div 4) \<le> unat blen
    then \<exists>p. mmpkt_init_buf m blen s e ms o_ops = Inr (Some p) \<and> laid_out m s ms p \<and>
           unat e \<le> mmpkt_tailroom p \<and> mmpkt_tailroom p < unat e + 4 \<and> ops p = o_ops
    else mmpkt_init_buf m blen s e ms o_ops = Inr None"
  by (rule init_buf_explicit_end [OF assms])

lemma mmpkt_init_buf_sized_witness:
  "(\<exists>p. mmpkt_init_buf (replicate 64 0xA5) 64 10 9 5 None = Inr (Some p) \<and>
      laid_out (replicate 64 0xA5) 10 5 p) \<and>
   mmpkt_init_buf (replicate 64 0xA5) 48 10 9 5 None = Inr None"
  using mmpkt_init_buf_sized [of 64 "replicate 64 0xA5" 10 9 5 None]
    mmpkt_init_buf_sized [of 48 "replicate 64 0xA5" 10 9 5 None]
  by auto

lemma init_buf_rest:
  assumes "unat blen \<le> length m" "length m < 2147483648"
    and "unat s < 1073741824" "unat ms < 1073741824"
  defines "room \<equiv> unat blen - 28 - 4 * ((unat ms + 3) div 4)"
  shows "if 28 + 4 * ((unat ms + 3) div 4) \<le> unat blen \<and> unat s \<le> 4 * (room div 4)
    then \<exists>p. mmpkt_init_buf m blen s 0xFFFFFFFF ms o_ops = Inr (Some p) \<and> laid_out m s ms p \<and>
           mmpkt_headroom p + mmpkt_tailroom p = 4 * (room div 4) \<and> ops p = o_ops
    else mmpkt_init_buf m blen s 0xFFFFFFFF ms o_ops = Inr None"
proof -
  define mr where "mr = mm_fast_round_up ms 4"
  define dlen where "dlen = (blen - 28 - mr) AND NOT 3"
  have ml: "unat mr = 4 * ((unat ms + 3) div 4)" using assms(4) by (simp add: mr_def unat_round_up_4)
  have ms4: "unat mr < unat ms + 4" using nat_round_4(3) [of "unat ms"] by (simp add: ml)
  have dl: "unat dlen = 4 * (unat (blen - 28 - mr) div 4)" unfolding dlen_def by (rule u32_and_not_3)
  have ss: "sint s = int (unat s)" using assms(3) by (simp add: sint_u32)
  have unf: "mmpkt_init_buf m blen s 0xFFFFFFFF ms o_ops =
      (if sint dlen < sint s then Inr None
       else if blen < 28 + dlen + mr then Inr None
       else let pkt = mmpkt_init m 28 dlen s o_ops
            in if mr \<noteq> 0
               then rbind (mem_write m (unat (28 + dlen)) (replicate (unat mr) 0))
                      (\<lambda>m1. Inr (Some (pkt\<lparr>blk := m1, metadata := Some (28 + dlen)\<rparr>)))
               else Inr (Some pkt))"
    by (simp add: mmpkt_init_buf_def pkt_header_size dlen_def mr_def Let_def)
  show ?thesis
  proof (cases "28 + unat mr \<le> unat blen")
    case True
    then have "unat (blen - 28) = unat blen - 28" by (simp add: u32_sub u32_le_iff)
    with True have "unat (blen - 28 - mr) = room" by (simp add: u32_sub u32_le_iff room_def ml)
    then have d: "unat dlen = 4 * (room div 4)" by (simp add: dl)
    have "4 * (room div 4) \<le> room" by simp
    then have fit: "28 + unat dlen + unat mr \<le> unat blen" using True d by (simp add: room_def ml)
    have sd: "sint dlen = int (unat dlen)" using fit assms(1,2) by (simp add: sint_u32)
    show ?thesis
    proof (cases "unat s \<le> unat dlen")
      case le: True
      have lay: "unat ms \<le> 4294967292" "length m < 4294967296" using assms(2,4) by simp_all
      note L = mmpkt_layout [OF assms(1) lay(2,1) _ le, folded mr_def, OF fit]
      have pos: "\<not> sint dlen < sint s" unfolding ss sd using le by linarith
      have run: "mmpkt_init_buf m blen s 0xFFFFFFFF ms o_ops = Inr (Some ((mmpkt_init
          (if mr \<noteq> 0 then take (unat (28 + dlen)) m @ replicate (unat mr) 0 @ drop (unat (28 + dlen) + unat mr) m
           else m) 28 dlen s o_ops)\<lparr>metadata := if mr \<noteq> 0 then Some (28 + dlen) else None\<rparr>))"
        unfolding unf using pos fit L(2,3,5) by (simp add: u32_less_iff mmpkt_init_def)
      have "28 + 4 * ((unat ms + 3) div 4) \<le> unat blen" "unat s \<le> 4 * (room div 4)"
        using True ml le d by simp_all
      moreover have "unat s + (unat dlen - unat s) = 4 * (room div 4)" using le d by simp
      ultimately show ?thesis
        unfolding run using L(1,4) by (simp add: mmpkt_init_def mmpkt_headroom_eq)
    next
      case False
      then have "sint dlen < sint s" unfolding ss sd by linarith
      then have "mmpkt_init_buf m blen s 0xFFFFFFFF ms o_ops = Inr None" unfolding unf by (rule if_P)
      moreover have "\<not> unat s \<le> 4 * (room div 4)" using False d by simp
      ultimately show ?thesis by simp
    qed
  next
    case False
    have "unat (28 + mr) = 28 + unat mr" using ms4 assms(4) by (simp add: u32_add)
    then have "unat (blen - (28 + mr)) = 4294967296 - (28 + unat mr - unat blen)"
      using False by (simp add: unat_sub_if')
    then have "2147483648 \<le> unat (blen - 28 - mr)"
      using False ms4 assms(4) by (simp add: diff_diff_eq)
    then have "2147483648 div 4 \<le> unat (blen - 28 - mr) div 4" by (rule div_le_mono)
    then have "2147483648 \<le> unat dlen" unfolding dl by simp
    then have "sint dlen = int (unat dlen) - 4294967296" unfolding sint_u32 by (intro if_not_P) linarith
    then have "sint dlen < sint s" using unat_u32_lt [of dlen] unfolding ss by linarith
    then have "mmpkt_init_buf m blen s 0xFFFFFFFF ms o_ops = Inr None" unfolding unf by (rule if_P)
    with False ml show ?thesis by simp
  qed
qed

text \<open>
  With \<open>space_at_end = UINT32_MAX\<close> the data area is the largest multiple of four bytes that the
  block leaves after structure and metadata; the call returns NULL exactly when the block is too
  small for those two or the area for the requested space at the start.
\<close>

theorem mmpkt_init_buf_whole:
  assumes "unat blen \<le> length m" "length m < 2147483648"
    and "unat s < 1073741824" "unat ms < 1073741824"
  defines "room \<equiv> unat blen - 28 - 4 * ((unat ms + 3) div 4)"
  shows "if 28 + 4 * ((unat ms + 3) div 4) \<le> unat blen \<and> unat s \<le> 4 * (room div 4)
    then \<exists>p. mmpkt_init_buf m blen s 0xFFFFFFFF ms o_ops = Inr (Some p) \<and> laid_out m s ms p \<and>
           mmpkt_headroom p + mmpkt_tailroom p = 4 * (room div 4) \<and> ops p = o_ops
    else mmpkt_init_buf m blen s 0xFFFFFFFF ms o_ops = Inr None"
  unfolding room_def by (rule init_buf_rest [OF assms(1-4)])

lemma mmpkt_init_buf_whole_witness:
  "(\<exists>p. mmpkt_init_buf (replicate 63 0xA5) 63 10 0xFFFFFFFF 5 None = Inr (Some p) \<and>
      laid_out (replicate 63 0xA5) 10 5 p \<and> mmpkt_headroom p + mmpkt_tailroom p = 24) \<and>
   mmpkt_init_buf (replicate 63 0xA5) 35 0 0xFFFFFFFF 5 None = Inr None"
  using mmpkt_init_buf_whole [of 63 "replicate 63 0xA5" 10 5 None]
    mmpkt_init_buf_whole [of 35 "replicate 63 0xA5" 0 5 None]
  by auto

text \<open>
  C8: Writing to a packet, at either end and with any length, either stops at the assertion or
  changes only the data area: the packet structure in front of it and the metadata behind it keep
  every byte, and the data is extended by exactly the bytes given.
\<close>

theorem mmpkt_writes_stay_inside:
  assumes "mmpkt_ok p" and "length d = unat n"
  shows "(mmpkt_prepend_data p d n = Inl Assert_failed \<or>
      (\<exists>p'. mmpkt_prepend_data p d n = Inr p' \<and> mmpkt_outside p' = mmpkt_outside p \<and>
         mmpkt_ok p' \<and> mmpkt_data p' = d @ mmpkt_data p)) \<and>
    (mmpkt_append_data p d n = Inl Assert_failed \<or>
      (\<exists>p'. mmpkt_append_data p d n = Inr p' \<and> mmpkt_outside p' = mmpkt_outside p \<and>
         mmpkt_ok p' \<and> mmpkt_data p' = mmpkt_data p @ d))"
proof
  have b: "unat (buf p) + unat (buf_len p) \<le> length (blk p)"
      "unat (start_offset p) + unat (data_len p) \<le> unat (buf_len p)"
    using assms(1) by (simp_all add: mmpkt_ok_def)
  show "mmpkt_prepend_data p d n = Inl Assert_failed \<or>
      (\<exists>p'. mmpkt_prepend_data p d n = Inr p' \<and> mmpkt_outside p' = mmpkt_outside p \<and>
         mmpkt_ok p' \<and> mmpkt_data p' = d @ mmpkt_data p)"
  proof (cases "unat n \<le> mmpkt_headroom p")
    case True
    note run = mmpkt_prepend_data_run [OF assms True]
    let ?at = "unat (buf p) + unat (start_offset p) - length d"
    have d: "length d \<le> unat (start_offset p)" using True assms(2) by (simp add: mmpkt_headroom_eq)
    then have at: "unat (buf p) \<le> ?at" "?at + length d \<le> unat (buf p) + unat (buf_len p)"
        "?at + length d = unat (buf p) + unat (start_offset p)" using b by linarith+
    from outside_write [OF at(1,2) b(1)] run(1) mmpkt_prepend_data_ok [OF assms True] show ?thesis
      by (auto simp: mmpkt_outside_def at(3))
  next
    case False
    then show ?thesis using mp.prepend_refused [OF assms(1)] by simp
  qed
  show "mmpkt_append_data p d n = Inl Assert_failed \<or>
      (\<exists>p'. mmpkt_append_data p d n = Inr p' \<and> mmpkt_outside p' = mmpkt_outside p \<and>
         mmpkt_ok p' \<and> mmpkt_data p' = mmpkt_data p @ d)"
  proof (cases "unat n \<le> mmpkt_tailroom p")
    case True
    note run = mmpkt_append_data_run [OF assms True]
    let ?at = "unat (buf p) + unat (start_offset p) + unat (data_len p)"
    have at: "unat (buf p) \<le> ?at" "?at + length d \<le> unat (buf p) + unat (buf_len p)"
      using run(4) assms(2) by linarith+
    from outside_write [OF at b(1)] run(1) mmpkt_append_data_ok [OF assms True] show ?thesis
      by (auto simp: mmpkt_outside_def)
  next
    case False
    then show ?thesis using mp.append_refused [OF assms(1)] by simp
  qed
qed

text \<open>Small requests are laid out or refused, and never write outside the block.\<close>

lemma mmpkt_init_buf_small:
  assumes "unat blen \<le> length m" "length m < 2147483648"
    and "unat s < 1073741824" "unat e < 1073741824 \<or> e = 0xFFFFFFFF" "unat ms < 1073741824"
  shows "mmpkt_init_buf m blen s e ms o_ops = Inr None \<or>
    (\<exists>p. mmpkt_init_buf m blen s e ms o_ops = Inr (Some p) \<and> laid_out m s ms p \<and> ops p = o_ops)"
  using assms(4)
proof
  assume "unat e < 1073741824"
  then show ?thesis
    using init_buf_explicit_end [OF assms(1) _ assms(3) _ assms(5), of e o_ops] assms(2)
    by (auto split: if_splits)
next
  assume "e = 0xFFFFFFFF"
  then show ?thesis
    using init_buf_rest [OF assms(1,2,3,5), of o_ops] by (auto split: if_splits)
qed

definition sample_pkt :: mmpkt where
  "sample_pkt = \<lparr>blk = replicate 28 1 @ [0, 0, 0xAA, 0, 0, 0, 0, 0] @ replicate 4 9, buf = 28, buf_len = 8,
     start_offset = 2, data_len = 1, metadata = Some 36, ops = None, next_pkt = None\<rparr>"

lemma mmpkt_writes_stay_inside_witness:
  "mmpkt_prepend_data sample_pkt [1, 2, 3] 3 = Inl Assert_failed \<and>
   (\<exists>p. mmpkt_append_data sample_pkt [1, 2, 3] 3 = Inr p \<and> mmpkt_data p = [0xAA, 1, 2, 3] \<and>
      mmpkt_outside p = mmpkt_outside sample_pkt)"
proof -
  have ok: "mmpkt_ok sample_pkt" "length [1, 2, 3 :: u8] = unat (3 :: u32)"
    by (simp_all add: mmpkt_ok_def sample_pkt_def)
  have room: "mmpkt_headroom sample_pkt = 2" "mmpkt_tailroom sample_pkt = 5" "mmpkt_data sample_pkt = [0xAA]"
    by (simp_all add: sample_pkt_def mmpkt_headroom_def mmpkt_tailroom_def mmpkt_defs mmpkt_data_def window_def)
  have "mmpkt_prepend_data sample_pkt [1, 2, 3] 3 = Inl Assert_failed"
    using mp.prepend_refused [OF ok(1), of 3] by (simp add: room)
  moreover have "mmpkt_append_data sample_pkt [1, 2, 3] 3 \<noteq> Inl Assert_failed"
    using mp.append_ok [OF ok] by (auto simp: room)
  ultimately show ?thesis
    using mmpkt_writes_stay_inside [OF ok] by (auto simp: room)
qed

text \<open>
  The size check adds header, area and metadata at 32 bits. When the sum wraps, a block that is far
  too small is accepted: here 32 bytes become a packet that claims an area of 0xFFFFFFF0 bytes.
\<close>

lemma mmpkt_init_buf_wraps:
  "mmpkt_init_buf m 32 0 0xFFFFFFEE 0 o_ops = Inr (Some (mmpkt_init m 28 0xFFFFFFF0 0 o_ops))"
proof -
  have "mm_fast_round_up (0 + 0xFFFFFFEE) 4 = (0xFFFFFFF0 :: u32)" "mm_fast_round_up 0 4 = (0 :: u32)"
    by (simp_all add: word_unat_eq_iff unat_round_up_4)
  then show ?thesis unfolding mmpkt_init_buf_def pkt_header_size by (simp add: u32_less_iff)
qed

text \<open>
  \<open>mmpkt_adjust_start_offset\<close> moves the start of an empty packet by a signed amount, exactly when the
  new start lies in the area; otherwise the assertion stops it.
\<close>

lemma mmpkt_adjust_start_offset_ok:
  assumes "mmpkt_ok p" "data_len p = 0"
    and new: "int (unat (start_offset p)) + sint delta = int k" "k \<le> unat (buf_len p)"
  shows "\<exists>p'. mmpkt_adjust_start_offset p delta = Inr p' \<and> mmpkt_ok p' \<and> mmpkt_headroom p' = k \<and>
    mmpkt_data p' = []"
proof -
  have k: "k < 4294967296" using new(2) unat_u32_lt [of "buf_len p"] by linarith
  have "unat (start_offset p + delta) = k"
  proof (cases "unat delta < 2147483648")
    case True
    then have "sint delta = int (unat delta)" unfolding sint_u32 by (rule if_P)
    with new(1) have "unat (start_offset p) + unat delta = k" by linarith
    with k show ?thesis by (simp add: u32_add)
  next
    case False
    then have "sint delta = int (unat delta) - 4294967296" unfolding sint_u32 by (rule if_not_P)
    with new(1) have "unat (start_offset p) + unat delta = k + 4294967296" by linarith
    with k show ?thesis by (simp add: u32_add_wraps)
  qed
  with assms show ?thesis
    by (simp add: mmpkt_adjust_start_offset_def u32_le_iff mmpkt_ok_def mmpkt_headroom_eq
        mmpkt_data_def window_def)
qed

end
