(* ===== verification/Packet_List.thy ===== *)
theory Packet_List
  imports MM_Prelude
begin

text \<open>
  The contract of the counted, singly linked packet lists (\<open>struct mmbuf_list\<close> of mmbuf.h, and
  \<open>struct mmpkt_list\<close> of mmpkt_list.h, whose non-inline half is in the vendor library): each
  operation does to the packets in the list what the operation on a plain list does. \<open>packet_fifo\<close> is
  the part the packet memory manager relies on, \<open>packet_deque\<close> the whole interface. A call that
  does not return is \<open>None\<close>. \<open>pkts\<close> is what the state holds apart from the links: no list
  operation changes it.
\<close>

section \<open>The FIFO part\<close>

fun enqueue_all :: "('s \<Rightarrow> 'a \<Rightarrow> 's result) \<Rightarrow> 's \<Rightarrow> 'a list \<Rightarrow> 's result" where
  "enqueue_all enq s [] = Inr s"
| "enqueue_all enq s (x # xs) = rbind (enq s x) (\<lambda>s'. enqueue_all enq s' xs)"

fun dequeue_n :: "('s \<Rightarrow> ('a option \<times> 's) result) \<Rightarrow> 's \<Rightarrow> nat \<Rightarrow> ('a option list \<times> 's) result" where
  "dequeue_n deq s 0 = Inr ([], s)"
| "dequeue_n deq s (Suc n) =
     rbind (deq s) (\<lambda>(x, s'). rbind (dequeue_n deq s' n) (\<lambda>(xs, t). Inr (x # xs, t)))"

locale packet_fifo =
  fixes rep :: "'s \<Rightarrow> 'a list \<Rightarrow> bool"
    and pkts :: "'s \<Rightarrow> 'a \<Rightarrow> 'p option"
    and enqueue :: "'s \<Rightarrow> 'a \<Rightarrow> 's result"
    and dequeue :: "'s \<Rightarrow> ('a option \<times> 's) result"
  assumes enqueue_ok:
      "\<lbrakk>rep s xs; pkts s x \<noteq> None; x \<notin> set xs\<rbrakk> \<Longrightarrow>
       \<exists>s'. enqueue s x = Inr s' \<and> rep s' (xs @ [x]) \<and> pkts s' = pkts s"
    and dequeue_empty: "rep s [] \<Longrightarrow> dequeue s = Inr (None, s)"
    and dequeue_cons:
      "rep s (x # xs) \<Longrightarrow> \<exists>s'. dequeue s = Inr (Some x, s') \<and> rep s' xs \<and> pkts s' = pkts s"
begin

lemma enqueue_all_ok:
  "\<lbrakk>rep s xs; \<forall>y \<in> set ys. pkts s y \<noteq> None; distinct ys; set xs \<inter> set ys = {}\<rbrakk> \<Longrightarrow>
   \<exists>s'. enqueue_all enqueue s ys = Inr s' \<and> rep s' (xs @ ys) \<and> pkts s' = pkts s"
proof (induction ys arbitrary: s xs)
  case (Cons y ys)
  then obtain s1 where s1: "enqueue s y = Inr s1" "rep s1 (xs @ [y])" "pkts s1 = pkts s"
    using enqueue_ok [of s xs y] by auto
  with Cons.prems have "\<exists>s'. enqueue_all enqueue s1 ys = Inr s' \<and> rep s' ((xs @ [y]) @ ys) \<and> pkts s' = pkts s1"
    by (intro Cons.IH) auto
  with s1 show ?case by simp
qed simp

lemma dequeue_n_ok:
  "rep s xs \<Longrightarrow>
   \<exists>s'. dequeue_n dequeue s n = Inr (map Some (take n xs) @ replicate (n - length xs) None, s') \<and>
        rep s' (drop n xs) \<and> pkts s' = pkts s"
proof (induction n arbitrary: s xs)
  case (Suc n)
  show ?case
  proof (cases xs)
    case Nil
    with Suc show ?thesis using dequeue_empty [of s] by fastforce
  next
    case (Cons x xs')
    with Suc.prems obtain s1 where "dequeue s = Inr (Some x, s1)" "rep s1 xs'" "pkts s1 = pkts s"
      using dequeue_cons by blast
    with Suc.IH [of s1 xs'] Cons show ?thesis by auto
  qed
qed simp

text \<open>Packets leave in the order they came in.\<close>

lemma fifo_order:
  assumes "rep s []" "distinct ys" "\<forall>y \<in> set ys. pkts s y \<noteq> None"
  shows "\<exists>s1 s2. enqueue_all enqueue s ys = Inr s1 \<and>
           dequeue_n dequeue s1 (length ys) = Inr (map Some ys, s2) \<and> rep s2 []"
proof -
  obtain s1 where s1: "enqueue_all enqueue s ys = Inr s1" "rep s1 ys"
    using enqueue_all_ok [of s "[]" ys] assms by auto
  with dequeue_n_ok [OF s1(2), of "length ys"] show ?thesis by auto
qed

end

section \<open>The whole interface\<close>

locale packet_deque = packet_fifo +
  fixes prepend :: "'s \<Rightarrow> 'a \<Rightarrow> 's result"
    and remove :: "'s \<Rightarrow> 'a \<Rightarrow> (bool \<times> 's) result option"
    and dequeue_tail :: "'s \<Rightarrow> ('a option \<times> 's) result option"
  assumes prepend_ok:
      "\<lbrakk>rep s xs; pkts s x \<noteq> None; x \<notin> set xs\<rbrakk> \<Longrightarrow>
       \<exists>s'. prepend s x = Inr s' \<and> rep s' (x # xs) \<and> pkts s' = pkts s"
    and remove_in:
      "\<lbrakk>rep s xs; x \<in> set xs\<rbrakk> \<Longrightarrow>
       \<exists>s'. remove s x = Some (Inr (True, s')) \<and> rep s' (remove1 x xs) \<and> pkts s' = pkts s"
    and remove_not_in: "\<lbrakk>rep s xs; x \<notin> set xs\<rbrakk> \<Longrightarrow> remove s x = Some (Inr (False, s))"
    and dequeue_tail_empty: "rep s [] \<Longrightarrow> dequeue_tail s = Some (Inr (None, s))"
    and dequeue_tail_snoc:
      "rep s (xs @ [x]) \<Longrightarrow>
       \<exists>s'. dequeue_tail s = Some (Inr (Some x, s')) \<and> rep s' xs \<and> pkts s' = pkts s"

text \<open>
  A client's sequence of calls, run on the implementation and on plain lists. Each call yields what
  it returns to the caller.
\<close>

datatype 'a list_call = Append 'a | Prepend 'a | Remove 'a | Dequeue | Dequeue_tail

datatype 'a list_ret = Void | Removed bool | Packet "'a option"

fun abs_call :: "'a list \<Rightarrow> 'a list_call \<Rightarrow> 'a list_ret \<times> 'a list" where
  "abs_call xs (Append x) = (Void, xs @ [x])"
| "abs_call xs (Prepend x) = (Void, x # xs)"
| "abs_call xs (Remove x) = (Removed (x \<in> set xs), remove1 x xs)"
| "abs_call [] Dequeue = (Packet None, [])"
| "abs_call (x # xs) Dequeue = (Packet (Some x), xs)"
| "abs_call xs Dequeue_tail = (if xs = [] then (Packet None, []) else (Packet (Some (last xs)), butlast xs))"

fun abs_calls :: "'a list \<Rightarrow> 'a list_call list \<Rightarrow> 'a list_ret list \<times> 'a list" where
  "abs_calls xs [] = ([], xs)"
| "abs_calls xs (c # cs) =
     (let (r, ys) = abs_call xs c; (rs, zs) = abs_calls ys cs in (r # rs, zs))"

text \<open>The client never inserts a packet that is already in the list, and only inserts live ones.\<close>

fun calls_valid :: "('a \<Rightarrow> bool) \<Rightarrow> 'a list \<Rightarrow> 'a list_call list \<Rightarrow> bool" where
  "calls_valid ok xs [] \<longleftrightarrow> True"
| "calls_valid ok xs (c # cs) \<longleftrightarrow>
     (case c of Append x \<Rightarrow> ok x \<and> x \<notin> set xs | Prepend x \<Rightarrow> ok x \<and> x \<notin> set xs | _ \<Rightarrow> True) \<and>
     calls_valid ok (snd (abs_call xs c)) cs"

fun exec_call ::
    "('s \<Rightarrow> 'a \<Rightarrow> 's result) \<Rightarrow> ('s \<Rightarrow> 'a \<Rightarrow> 's result) \<Rightarrow> ('s \<Rightarrow> 'a \<Rightarrow> (bool \<times> 's) result option)
     \<Rightarrow> ('s \<Rightarrow> ('a option \<times> 's) result) \<Rightarrow> ('s \<Rightarrow> ('a option \<times> 's) result option)
     \<Rightarrow> 's \<Rightarrow> 'a list_call \<Rightarrow> ('a list_ret \<times> 's) result option" where
  "exec_call app pre rem deq deqt s (Append x) = Some (rbind (app s x) (\<lambda>s'. Inr (Void, s')))"
| "exec_call app pre rem deq deqt s (Prepend x) = Some (rbind (pre s x) (\<lambda>s'. Inr (Void, s')))"
| "exec_call app pre rem deq deqt s (Remove x) = obind (rem s x) (\<lambda>(b, s'). Some (Inr (Removed b, s')))"
| "exec_call app pre rem deq deqt s Dequeue = Some (rbind (deq s) (\<lambda>(p, s'). Inr (Packet p, s')))"
| "exec_call app pre rem deq deqt s Dequeue_tail = obind (deqt s) (\<lambda>(p, s'). Some (Inr (Packet p, s')))"

fun exec_calls ::
    "('s \<Rightarrow> 'a list_call \<Rightarrow> ('a list_ret \<times> 's) result option) \<Rightarrow> 's \<Rightarrow> 'a list_call list
     \<Rightarrow> ('a list_ret list \<times> 's) result option" where
  "exec_calls ex s [] = Some (Inr ([], s))"
| "exec_calls ex s (c # cs) =
     obind (ex s c) (\<lambda>(r, s'). obind (exec_calls ex s' cs) (\<lambda>(rs, t). Some (Inr (r # rs, t))))"

context packet_deque
begin

lemma exec_call_refines:
  assumes "rep s xs" and "calls_valid (\<lambda>x. pkts s x \<noteq> None) xs [c]"
  shows "\<exists>s'. exec_call enqueue prepend remove dequeue dequeue_tail s c = Some (Inr (fst (abs_call xs c), s')) \<and>
           rep s' (snd (abs_call xs c)) \<and> pkts s' = pkts s"
proof (cases c)
  case (Append x)
  with enqueue_ok [of s xs x] assms show ?thesis by auto
next
  case (Prepend x)
  with prepend_ok [of s xs x] assms show ?thesis by auto
next
  case (Remove x)
  with remove_in [OF assms(1)] remove_not_in [OF assms(1)] assms(1) show ?thesis
    by (cases "x \<in> set xs") (fastforce simp: remove1_idem)+
next
  case Dequeue
  with dequeue_empty dequeue_cons assms(1) show ?thesis by (cases xs) fastforce+
next
  case Dequeue_tail
  with dequeue_tail_empty dequeue_tail_snoc assms(1) show ?thesis
    by (cases xs rule: rev_cases) fastforce+
qed

lemma exec_calls_refine:
  "\<lbrakk>rep s xs; calls_valid (\<lambda>x. pkts s x \<noteq> None) xs cs\<rbrakk> \<Longrightarrow>
   \<exists>s'. exec_calls (exec_call enqueue prepend remove dequeue dequeue_tail) s cs
          = Some (Inr (fst (abs_calls xs cs), s')) \<and>
        rep s' (snd (abs_calls xs cs)) \<and> pkts s' = pkts s"
proof (induction cs arbitrary: s xs)
  case (Cons c cs)
  then obtain s1 where s1:
      "exec_call enqueue prepend remove dequeue dequeue_tail s c = Some (Inr (fst (abs_call xs c), s1))"
      "rep s1 (snd (abs_call xs c))" "pkts s1 = pkts s"
    using exec_call_refines [of s xs c] by auto
  with Cons.prems Cons.IH [of s1 "snd (abs_call xs c)"] show ?case
    by (auto simp: Let_def split_beta)
qed simp

end

end
