(* ===== verification/Pktmem.thy ===== *)
theory Pktmem
  imports Mmpkt Packet_List
begin

text \<open>
  The packet memory manager of mmpktmem_heap.c, one call at a time: the transmit data pool with its
  allocation limit and flow control, the receive pool, and the two statically allocated command
  blocks. \<open>mmpkt_list_append\<close>, \<open>mmpkt_list_dequeue\<close> and \<open>mmpkt_alloc_on_heap\<close> are in the
  vendor library and are parameters; the type \<open>'s\<close> is the library's list with the packets linked
  into it. What several threads do to the shared counters at the same time is in Pktmem_Conc.
\<close>

section \<open>State\<close>

definition MMPKTMEM_TX_POOL_N_BLOCKS :: int where "MMPKTMEM_TX_POOL_N_BLOCKS = 20"
definition MMPKTMEM_RX_POOL_N_BLOCKS :: int where "MMPKTMEM_RX_POOL_N_BLOCKS = 23"
definition TX_DATA_POOL_UNPAUSE_THRESHOLD :: int where
  "TX_DATA_POOL_UNPAUSE_THRESHOLD = MMPKTMEM_TX_POOL_N_BLOCKS - 2"
definition TX_DATA_POOL_PAUSE_THRESHOLD :: int where
  "TX_DATA_POOL_PAUSE_THRESHOLD = MMPKTMEM_TX_POOL_N_BLOCKS - 1"
definition TX_COMMAND_POOL_BLOCK_SIZE :: u32 where "TX_COMMAND_POOL_BLOCK_SIZE = 256"
definition TX_COMMAND_POOL_N_BLOCKS :: nat where "TX_COMMAND_POOL_N_BLOCKS = 2"

lemmas pool_sizes =
  MMPKTMEM_TX_POOL_N_BLOCKS_def MMPKTMEM_RX_POOL_N_BLOCKS_def TX_DATA_POOL_UNPAUSE_THRESHOLD_def
  TX_DATA_POOL_PAUSE_THRESHOLD_def TX_COMMAND_POOL_BLOCK_SIZE_def TX_COMMAND_POOL_N_BLOCKS_def

text \<open>A packet is one of the command blocks or an address on the heap.\<close>

datatype pkt_ptr = Cmd_block nat | Heap_pkt nat

text \<open>The packet class is a byte of \<open>enum mmhal_wlan_pkt_class\<close>; data TIDs and management come first.\<close>

definition MMHAL_WLAN_PKT_COMMAND :: u8 where "MMHAL_WLAN_PKT_COMMAND = 9"

datatype tx_flow_control_state = MMWLAN_TX_READY | MMWLAN_TX_PAUSED

text \<open>
  The counters are 32-bit atomics; the invariant below keeps them between 0 and the pool sizes, so
  plain integers are the same. \<open>tx_data_pool_tx_paused\<close> only ever holds 0 and 1. \<open>clients\<close> are the
  packets in the hands of clients, and \<open>cb_log\<close> is what a client sees that reads the flow-control
  state in each flow-control callback.
\<close>

record 's pktmem =
  tx_data_pool_allocated :: int
  tx_data_pool_tx_paused :: bool
  rx_pool_allocated :: int
  tx_command_pool_free_list :: 's
  tx_command_pool :: "nat \<Rightarrow> u8 list"
  clients :: "pkt_ptr \<Rightarrow> mmpkt option"
  cb_log :: "tx_flow_control_state list"

definition mmhal_wlan_pktmem_tx_flow_control_state :: "'s pktmem \<Rightarrow> tx_flow_control_state" where
  "mmhal_wlan_pktmem_tx_flow_control_state st =
     (if tx_data_pool_tx_paused st then MMWLAN_TX_PAUSED else MMWLAN_TX_READY)"

definition tx_flow_control_cb :: "'s pktmem \<Rightarrow> 's pktmem" where
  "tx_flow_control_cb st =
     st\<lparr>cb_log := cb_log st @ [mmhal_wlan_pktmem_tx_flow_control_state st]\<rparr>"

definition tx_command_pool_ops :: mmpkt_ops where
  "tx_command_pool_ops = \<lparr>free_mmpkt = Some Tx_command_reserved_free\<rparr>"
definition tx_data_pool_pkt_ops :: mmpkt_ops where
  "tx_data_pool_pkt_ops = \<lparr>free_mmpkt = Some Tx_data_pool_pkt_free\<rparr>"
definition mmpkt_rx_ops :: mmpkt_ops where
  "mmpkt_rx_ops = \<lparr>free_mmpkt = Some Rx_pkt_free\<rparr>"

section \<open>Operations\<close>

type_synonym 's append_fn = "'s \<Rightarrow> nat \<Rightarrow> 's result"
type_synonym 's dequeue_fn = "'s \<Rightarrow> (nat option \<times> 's) result"
type_synonym heap_fn = "u32 \<Rightarrow> u32 \<Rightarrow> u32 \<Rightarrow> (nat \<times> mmpkt) option"

text \<open>\<open>l0\<close> is the list of a zeroed list structure.\<close>

definition mmhal_wlan_pktmem_init :: "'s append_fn \<Rightarrow> 's \<Rightarrow> 's pktmem result" where
  "mmhal_wlan_pktmem_init app l0 =
     rbind (enqueue_all app l0 [0 ..< TX_COMMAND_POOL_N_BLOCKS]) (\<lambda>l.
       Inr \<lparr>tx_data_pool_allocated = 0, tx_data_pool_tx_paused = False, rx_pool_allocated = 0,
            tx_command_pool_free_list = l,
            tx_command_pool = (\<lambda>_. replicate (unat TX_COMMAND_POOL_BLOCK_SIZE) 0),
            clients = (\<lambda>_. None), cb_log = []\<rparr>)"

definition tx_command_reserved_free :: "'s append_fn \<Rightarrow> 's pktmem \<Rightarrow> nat \<Rightarrow> 's pktmem result" where
  "tx_command_reserved_free app st b =
     rbind (app (tx_command_pool_free_list st) b) (\<lambda>l.
       Inr (st\<lparr>tx_command_pool_free_list := l\<rparr>))"

definition alloc_pkt_from_list ::
    "'s append_fn \<Rightarrow> 's dequeue_fn \<Rightarrow> 's pktmem \<Rightarrow> u32 \<Rightarrow> u32 \<Rightarrow> u32 \<Rightarrow> u32
     \<Rightarrow> (pkt_ptr option \<times> 's pktmem) result" where
  "alloc_pkt_from_list app deq st pktbufsize space_at_start space_at_end metadata_length =
     rbind (deq (tx_command_pool_free_list st)) (\<lambda>(r, l).
       let st1 = st\<lparr>tx_command_pool_free_list := l\<rparr>
       in case r of
            None \<Rightarrow> Inr (None, st1)
          | Some b \<Rightarrow>
              rbind (mmpkt_init_buf (tx_command_pool st b) pktbufsize space_at_start space_at_end
                       metadata_length (Some tx_command_pool_ops)) (\<lambda>p.
                case p of
                  None \<Rightarrow> rbind (tx_command_reserved_free app st1 b) (\<lambda>st2. Inr (None, st2))
                | Some pkt \<Rightarrow> Inr (Some (Cmd_block b), st1\<lparr>clients := (clients st1)(Cmd_block b \<mapsto> pkt)\<rparr>)))"

definition command_pool_alloc ::
    "'s append_fn \<Rightarrow> 's dequeue_fn \<Rightarrow> 's pktmem \<Rightarrow> u32 \<Rightarrow> u32 \<Rightarrow> u32
     \<Rightarrow> (pkt_ptr option \<times> 's pktmem) result" where
  "command_pool_alloc app deq st space_at_start space_at_end metadata_length =
     alloc_pkt_from_list app deq st TX_COMMAND_POOL_BLOCK_SIZE space_at_start space_at_end metadata_length"

text \<open>The part of \<open>mmhal_wlan_alloc_mmpkt_for_tx\<close> behind the command pool.\<close>

definition tx_data_alloc ::
    "heap_fn \<Rightarrow> 's pktmem \<Rightarrow> u32 \<Rightarrow> u32 \<Rightarrow> u32 \<Rightarrow> pkt_ptr option \<times> 's pktmem" where
  "tx_data_alloc heap st space_at_start space_at_end metadata_length =
     (let old_value = tx_data_pool_allocated st;
          st1 = st\<lparr>tx_data_pool_allocated := old_value + 1\<rparr>
      in if old_value \<ge> MMPKTMEM_TX_POOL_N_BLOCKS
         then (None, st1\<lparr>tx_data_pool_allocated := tx_data_pool_allocated st1 - 1\<rparr>)
         else case heap space_at_start space_at_end metadata_length of
                None \<Rightarrow> (None, st1\<lparr>tx_data_pool_allocated := tx_data_pool_allocated st1 - 1\<rparr>)
              | Some (a, pkt) \<Rightarrow>
                  let st2 = st1\<lparr>clients := (clients st1)(Heap_pkt a \<mapsto> pkt\<lparr>ops := Some tx_data_pool_pkt_ops\<rparr>)\<rparr>
                  in (Some (Heap_pkt a),
                      if tx_data_pool_allocated st2 > TX_DATA_POOL_PAUSE_THRESHOLD
                      then let old_tx_paused = tx_data_pool_tx_paused st2;
                               st3 = st2\<lparr>tx_data_pool_tx_paused := True\<rparr>
                           in if \<not> old_tx_paused then tx_flow_control_cb st3 else st3
                      else st2))"

definition mmhal_wlan_alloc_mmpkt_for_tx ::
    "'s append_fn \<Rightarrow> 's dequeue_fn \<Rightarrow> heap_fn \<Rightarrow> 's pktmem \<Rightarrow> u8 \<Rightarrow> u32 \<Rightarrow> u32 \<Rightarrow> u32
     \<Rightarrow> (pkt_ptr option \<times> 's pktmem) result" where
  "mmhal_wlan_alloc_mmpkt_for_tx app deq heap st pclass space_at_start space_at_end metadata_length =
     rbind (if pclass = MMHAL_WLAN_PKT_COMMAND
            then command_pool_alloc app deq st space_at_start space_at_end metadata_length
            else Inr (None, st)) (\<lambda>(r, st1).
       if r \<noteq> None then Inr (r, st1)
       else Inr (tx_data_alloc heap st1 space_at_start space_at_end metadata_length))"

definition tx_data_pool_pkt_free :: "'s pktmem \<Rightarrow> pkt_ptr \<Rightarrow> 's pktmem result" where
  "tx_data_pool_pkt_free st p =
     (let old_value = tx_data_pool_allocated st;
          st1 = st\<lparr>tx_data_pool_allocated := old_value - 1\<rparr>
      in rbind (c_assert (old_value > 0)) (\<lambda>_.
           let st2 = st1\<lparr>clients := (clients st1)(p := None)\<rparr>
           in Inr (if tx_data_pool_allocated st2 < TX_DATA_POOL_UNPAUSE_THRESHOLD
                   then let old_tx_paused = tx_data_pool_tx_paused st2;
                            st3 = st2\<lparr>tx_data_pool_tx_paused := False\<rparr>
                        in if old_tx_paused then tx_flow_control_cb st3 else st3
                   else st2)))"

definition rx_pkt_free :: "'s pktmem \<Rightarrow> pkt_ptr option \<Rightarrow> 's pktmem" where
  "rx_pkt_free st pp =
     (case pp of
        None \<Rightarrow> st
      | Some p \<Rightarrow> st\<lparr>rx_pool_allocated := rx_pool_allocated st - 1, clients := (clients st)(p := None)\<rparr>)"

definition mmhal_wlan_alloc_mmpkt_for_rx ::
    "heap_fn \<Rightarrow> 's pktmem \<Rightarrow> u8 \<Rightarrow> u32 \<Rightarrow> u32 \<Rightarrow> pkt_ptr option \<times> 's pktmem" where
  "mmhal_wlan_alloc_mmpkt_for_rx heap st pclass capacity metadata_length =
     (if pclass = MMHAL_WLAN_PKT_COMMAND
      then (case heap 0 capacity metadata_length of
              None \<Rightarrow> (None, st)
            | Some (a, pkt) \<Rightarrow> (Some (Heap_pkt a), st\<lparr>clients := (clients st)(Heap_pkt a \<mapsto> pkt)\<rparr>))
      else
        let old_value = rx_pool_allocated st;
            st1 = st\<lparr>rx_pool_allocated := old_value + 1\<rparr>
        in if old_value \<ge> MMPKTMEM_RX_POOL_N_BLOCKS
           then (None, st1\<lparr>rx_pool_allocated := rx_pool_allocated st1 - 1\<rparr>)
           else case heap 0 capacity metadata_length of
                  None \<Rightarrow> (None, st1\<lparr>rx_pool_allocated := rx_pool_allocated st1 - 1\<rparr>)
                | Some (a, pkt) \<Rightarrow>
                    (Some (Heap_pkt a),
                     st1\<lparr>clients := (clients st1)(Heap_pkt a \<mapsto> pkt\<lparr>ops := Some mmpkt_rx_ops\<rparr>)\<rparr>))"

text \<open>
  A client returns a packet through its \<open>free_mmpkt\<close>. A command block keeps its memory; a packet
  with the library's own function (a received command) only goes back to the heap.
\<close>

definition pkt_free :: "'s append_fn \<Rightarrow> 's pktmem \<Rightarrow> pkt_ptr \<Rightarrow> 's pktmem result" where
  "pkt_free app st p =
     (case clients st p of
        None \<Rightarrow> Inl Dangling
      | Some pkt \<Rightarrow>
          (case ops pkt of
             None \<Rightarrow> Inl Null_deref
           | Some oo \<Rightarrow>
               (case free_mmpkt oo of
                  None \<Rightarrow> Inl Null_deref
                | Some Tx_command_reserved_free \<Rightarrow>
                    (case p of
                       Cmd_block b \<Rightarrow>
                         tx_command_reserved_free app
                           (st\<lparr>clients := (clients st)(p := None),
                               tx_command_pool := (tx_command_pool st)(b := blk pkt)\<rparr>) b
                     | Heap_pkt a \<Rightarrow> Inl Out_of_bounds)
                | Some Tx_data_pool_pkt_free \<Rightarrow> tx_data_pool_pkt_free st p
                | Some Rx_pkt_free \<Rightarrow> Inr (rx_pkt_free st (Some p))
                | Some (Library_free k) \<Rightarrow> Inr (st\<lparr>clients := (clients st)(p := None)\<rparr>))))"

section \<open>The invariant\<close>

text \<open>
  Three parts: the counters count the packets that carry the pool's free function; flow control is
  a hysteresis on the transmit counter whose every change was reported; each command block is either
  in the free list or in the hands of a client.
\<close>

definition owned_by :: "(pkt_ptr \<Rightarrow> mmpkt option) \<Rightarrow> free_pkt_fn \<Rightarrow> pkt_ptr set" where
  "owned_by c f = {p. \<exists>pkt. c p = Some pkt \<and> ops pkt = Some \<lparr>free_mmpkt = Some f\<rparr>}"

definition typed_clients :: "(pkt_ptr \<Rightarrow> mmpkt option) \<Rightarrow> bool" where
  "typed_clients c \<longleftrightarrow> (\<forall>p pkt. c p = Some pkt \<longrightarrow>
     (\<exists>f. ops pkt = Some \<lparr>free_mmpkt = Some f\<rparr> \<and>
          (f = Tx_command_reserved_free \<longleftrightarrow> (\<exists>b. p = Cmd_block b))))"

definition counted :: "(pkt_ptr \<Rightarrow> mmpkt option) \<Rightarrow> free_pkt_fn \<Rightarrow> int \<Rightarrow> bool" where
  "counted c f n \<longleftrightarrow> finite (owned_by c f) \<and> int (card (owned_by c f)) = n"

definition flow_ok :: "int \<Rightarrow> bool \<Rightarrow> tx_flow_control_state list \<Rightarrow> bool" where
  "flow_ok n paused log \<longleftrightarrow> n \<le> 20 \<and> (paused \<longrightarrow> 18 \<le> n) \<and> (\<not> paused \<longrightarrow> n < 20) \<and>
     successively (\<noteq>) (MMWLAN_TX_READY # log) \<and>
     last (MMWLAN_TX_READY # log) = (if paused then MMWLAN_TX_PAUSED else MMWLAN_TX_READY)"

definition command_ok ::
    "('s \<Rightarrow> nat list \<Rightarrow> bool) \<Rightarrow> ('s \<Rightarrow> nat \<Rightarrow> 'p option) \<Rightarrow> 's \<Rightarrow> (pkt_ptr \<Rightarrow> mmpkt option)
     \<Rightarrow> (nat \<Rightarrow> u8 list) \<Rightarrow> bool" where
  "command_ok rep blocks l c pool \<longleftrightarrow>
     (\<exists>xs. rep l xs \<and> distinct xs \<and> set xs \<subseteq> {..<2} \<and>
        (\<forall>b. c (Cmd_block b) \<noteq> None \<longleftrightarrow> b < 2 \<and> b \<notin> set xs)) \<and>
     (\<forall>b < 2. blocks l b \<noteq> None \<and> length (pool b) = 256) \<and>
     (\<forall>b pkt. c (Cmd_block b) = Some pkt \<longrightarrow> length (blk pkt) = 256)"

definition pktmem_ok ::
    "('s \<Rightarrow> nat list \<Rightarrow> bool) \<Rightarrow> ('s \<Rightarrow> nat \<Rightarrow> 'p option) \<Rightarrow> 's pktmem \<Rightarrow> bool" where
  "pktmem_ok rep blocks st \<longleftrightarrow>
     typed_clients (clients st) \<and>
     counted (clients st) Tx_data_pool_pkt_free (tx_data_pool_allocated st) \<and>
     counted (clients st) Rx_pkt_free (rx_pool_allocated st) \<and> rx_pool_allocated st \<le> 23 \<and>
     flow_ok (tx_data_pool_allocated st) (tx_data_pool_tx_paused st) (cb_log st) \<and>
     command_ok rep blocks (tx_command_pool_free_list st) (clients st) (tx_command_pool st)"

lemma owned_by_insert:
  "ops pkt = Some \<lparr>free_mmpkt = Some g\<rparr> \<Longrightarrow>
   owned_by (c(p \<mapsto> pkt)) f = (if f = g then insert p (owned_by c f) else owned_by c f - {p})"
  by (auto simp: owned_by_def)

lemma owned_by_remove: "owned_by (c(p := None)) f = owned_by c f - {p}"
  by (auto simp: owned_by_def)

lemma counted_insert:
  assumes "ops pkt = Some \<lparr>free_mmpkt = Some g\<rparr>" "c p = None" "counted c f n"
  shows "counted (c(p \<mapsto> pkt)) f (if f = g then n + 1 else n)"
proof -
  have "p \<notin> owned_by c f" using assms(2) by (simp add: owned_by_def)
  with assms(3) show ?thesis by (auto simp: counted_def owned_by_insert [OF assms(1)])
qed

lemma counted_remove:
  assumes "c p = Some pkt" "ops pkt = Some \<lparr>free_mmpkt = Some g\<rparr>" "counted c f n"
  shows "counted (c(p := None)) f (if f = g then n - 1 else n)" and "f = g \<Longrightarrow> 0 < n"
proof -
  have in_own: "p \<in> owned_by c f \<longleftrightarrow> f = g" using assms(1,2) by (auto simp: owned_by_def)
  then have pos: "f = g \<Longrightarrow> 0 < card (owned_by c f)"
    using assms(3) by (auto simp: counted_def card_gt_0_iff)
  then show "f = g \<Longrightarrow> 0 < n" using assms(3) by (auto simp: counted_def)
  show "counted (c(p := None)) f (if f = g then n - 1 else n)"
    using assms(3) in_own pos by (auto simp: counted_def owned_by_remove card_Diff_singleton of_nat_diff)
qed

lemma typed_insert:
  "\<lbrakk>typed_clients c; ops pkt = Some \<lparr>free_mmpkt = Some f\<rparr>;
    f = Tx_command_reserved_free \<longleftrightarrow> (\<exists>b. p = Cmd_block b)\<rbrakk> \<Longrightarrow> typed_clients (c(p \<mapsto> pkt))"
  by (auto simp: typed_clients_def)

lemma typed_remove: "typed_clients c \<Longrightarrow> typed_clients (c(p := None))"
  by (auto simp: typed_clients_def)

lemma command_ok_heap [simp]:
  "command_ok rep blocks l (c(Heap_pkt a := x)) pool = command_ok rep blocks l c pool"
  by (simp add: command_ok_def)

lemma flow_step:
  assumes "flow_ok n paused log"
  shows "n + 1 \<le> 20 \<Longrightarrow> flow_ok (n + 1) (paused \<or> n + 1 > 19)
           (if n + 1 > 19 \<and> \<not> paused then log @ [MMWLAN_TX_PAUSED] else log)"
    and "flow_ok (n - 1) (paused \<and> \<not> n - 1 < 18)
           (if n - 1 < 18 \<and> paused then log @ [MMWLAN_TX_READY] else log)"
proof -
  have log: "successively (\<noteq>) (x # log @ [y]) \<longleftrightarrow> successively (\<noteq>) (x # log) \<and> last (x # log) \<noteq> y" for x y
    using successively_append_iff [of "(\<noteq>)" "x # log" "[y]"] by simp
  have last: "last (x # log @ [y]) = y" for x y :: tx_flow_control_state by simp
  show "n + 1 \<le> 20 \<Longrightarrow> flow_ok (n + 1) (paused \<or> n + 1 > 19)
           (if n + 1 > 19 \<and> \<not> paused then log @ [MMWLAN_TX_PAUSED] else log)"
    using assms unfolding flow_ok_def by (auto simp: log last simp del: last.simps successively.simps)
  show "flow_ok (n - 1) (paused \<and> \<not> n - 1 < 18)
           (if n - 1 < 18 \<and> paused then log @ [MMWLAN_TX_READY] else log)"
    using assms unfolding flow_ok_def by (auto simp: log last simp del: last.simps successively.simps)
qed

section \<open>Every operation keeps the invariant\<close>

text \<open>
  The library's heap allocator hands out an address that is not in use and a packet with a free
  function of its own.
\<close>

definition heap_contract :: "heap_fn \<Rightarrow> 's pktmem \<Rightarrow> bool" where
  "heap_contract heap st \<longleftrightarrow> (\<forall>s e ms a pkt. heap s e ms = Some (a, pkt) \<longrightarrow>
     clients st (Heap_pkt a) = None \<and> (\<exists>k. ops pkt = Some \<lparr>free_mmpkt = Some (Library_free k)\<rparr>))"

lemma ops_eqs:
  "tx_command_pool_ops = \<lparr>free_mmpkt = Some Tx_command_reserved_free\<rparr>"
  "tx_data_pool_pkt_ops = \<lparr>free_mmpkt = Some Tx_data_pool_pkt_free\<rparr>"
  "mmpkt_rx_ops = \<lparr>free_mmpkt = Some Rx_pkt_free\<rparr>"
  by (simp_all add: tx_command_pool_ops_def tx_data_pool_pkt_ops_def mmpkt_rx_ops_def)

lemma counted_heap_insert:
  assumes "c (Heap_pkt a) = None" "ops pkt = Some \<lparr>free_mmpkt = Some g\<rparr>" "g \<noteq> Tx_command_reserved_free"
    "typed_clients c" and cnt: "counted c f n"
  shows "typed_clients (c(Heap_pkt a \<mapsto> pkt))"
    and "counted (c(Heap_pkt a \<mapsto> pkt)) f (if f = g then n + 1 else n)"
  using assms by (auto intro: typed_insert) (use counted_insert [of pkt g c, OF assms(2,1) cnt] in auto)

lemma typed_heap:
  assumes "typed_clients c" "c p = Some pkt" "ops pkt = Some \<lparr>free_mmpkt = Some f\<rparr>"
    "f \<noteq> Tx_command_reserved_free"
  obtains a where "p = Heap_pkt a"
  using assms by (cases p) (fastforce simp: typed_clients_def)+

lemma tx_data_alloc_ok:
  assumes ok: "pktmem_ok rep blocks st" and heap: "heap_contract heap st"
  shows "case tx_data_alloc heap st s e ms of
      (None, st') \<Rightarrow> st' = st \<and> (tx_data_pool_allocated st = 20 \<or> heap s e ms = None)
    | (Some p, st') \<Rightarrow> pktmem_ok rep blocks st' \<and> clients st p = None \<and> tx_data_pool_allocated st < 20 \<and>
        (\<exists>a pkt. p = Heap_pkt a \<and> heap s e ms = Some (a, pkt) \<and>
           clients st' = (clients st)(p \<mapsto> pkt\<lparr>ops := Some tx_data_pool_pkt_ops\<rparr>))"
proof -
  let ?n = "tx_data_pool_allocated st"
  have flow: "flow_ok ?n (tx_data_pool_tx_paused st) (cb_log st)" and le: "?n \<le> 20"
    using ok by (simp_all add: pktmem_ok_def flow_ok_def)
  show ?thesis
  proof (cases "?n < 20 \<and> heap s e ms \<noteq> None")
    case True
    then obtain a pkt where a: "heap s e ms = Some (a, pkt)" by force
    then have free: "clients st (Heap_pkt a) = None" using heap by (auto simp: heap_contract_def)
    let ?pkt = "pkt\<lparr>ops := Some tx_data_pool_pkt_ops\<rparr>"
    have typed: "typed_clients (clients st)"
      and tx: "counted (clients st) Tx_data_pool_pkt_free ?n"
      and rx: "counted (clients st) Rx_pkt_free (rx_pool_allocated st)"
      using ok by (simp_all add: pktmem_ok_def)
    have pops: "ops ?pkt = Some \<lparr>free_mmpkt = Some Tx_data_pool_pkt_free\<rparr>" by (simp add: ops_eqs)
    note ins = counted_heap_insert [OF free pops _ typed]
    have "typed_clients ((clients st)(Heap_pkt a \<mapsto> ?pkt))"
      "counted ((clients st)(Heap_pkt a \<mapsto> ?pkt)) Tx_data_pool_pkt_free (?n + 1)"
      "counted ((clients st)(Heap_pkt a \<mapsto> ?pkt)) Rx_pkt_free (rx_pool_allocated st)"
      using ins(1) [OF _ tx] ins(2) [OF _ tx] ins(2) [OF _ rx] by simp_all
    then show ?thesis
      using True a free ok flow_step(1) [OF flow]
      by (auto simp: tx_data_alloc_def pool_sizes Let_def pktmem_ok_def tx_flow_control_cb_def
          mmhal_wlan_pktmem_tx_flow_control_state_def split: if_splits)
  next
    case False
    with le show ?thesis by (auto simp: tx_data_alloc_def pool_sizes Let_def split: option.splits)
  qed
qed

lemma tx_data_free_ok:
  assumes ok: "pktmem_ok rep blocks st" and p: "clients st p = Some pkt"
    "ops pkt = Some \<lparr>free_mmpkt = Some Tx_data_pool_pkt_free\<rparr>"
  shows "\<exists>st'. tx_data_pool_pkt_free st p = Inr st' \<and> pktmem_ok rep blocks st' \<and>
    clients st' = (clients st)(p := None)"
proof -
  let ?n = "tx_data_pool_allocated st"
  have flow: "flow_ok ?n (tx_data_pool_tx_paused st) (cb_log st)"
    and typed: "typed_clients (clients st)"
    and tx: "counted (clients st) Tx_data_pool_pkt_free ?n"
    and rx: "counted (clients st) Rx_pkt_free (rx_pool_allocated st)"
    using ok by (simp_all add: pktmem_ok_def)
  obtain a where a: "p = Heap_pkt a" by (rule typed_heap [OF typed p]) simp
  have "counted ((clients st)(p := None)) Tx_data_pool_pkt_free (?n - 1)" "0 < ?n"
    "counted ((clients st)(p := None)) Rx_pkt_free (rx_pool_allocated st)"
    using counted_remove [OF p tx] counted_remove(1) [OF p rx] by simp_all
  then show ?thesis
    using typed_remove [OF typed, of p] ok flow_step(2) [OF flow]
    by (auto simp: tx_data_pool_pkt_free_def pool_sizes Let_def pktmem_ok_def tx_flow_control_cb_def
        mmhal_wlan_pktmem_tx_flow_control_state_def a split: if_splits)
qed

lemma rx_alloc_ok:
  assumes ok: "pktmem_ok rep blocks st" and heap: "heap_contract heap st"
  shows "case mmhal_wlan_alloc_mmpkt_for_rx heap st cls cap ms of
      (None, st') \<Rightarrow> st' = st \<and>
        (cls \<noteq> MMHAL_WLAN_PKT_COMMAND \<and> rx_pool_allocated st = 23 \<or> heap 0 cap ms = None)
    | (Some p, st') \<Rightarrow> pktmem_ok rep blocks st' \<and> clients st p = None"
proof (cases "heap 0 cap ms")
  case None
  then show ?thesis by (auto simp: mmhal_wlan_alloc_mmpkt_for_rx_def Let_def)
next
  case (Some r)
  then obtain a pkt where a: "heap 0 cap ms = Some (a, pkt)" by (cases r) simp
  then obtain k where free: "clients st (Heap_pkt a) = None"
    and k: "ops pkt = Some \<lparr>free_mmpkt = Some (Library_free k)\<rparr>"
    using heap by (fastforce simp: heap_contract_def)
  have typed: "typed_clients (clients st)"
    and tx: "counted (clients st) Tx_data_pool_pkt_free (tx_data_pool_allocated st)"
    and rx: "counted (clients st) Rx_pkt_free (rx_pool_allocated st)"
    and le: "rx_pool_allocated st \<le> 23"
    using ok by (simp_all add: pktmem_ok_def)
  show ?thesis
  proof (cases "cls = MMHAL_WLAN_PKT_COMMAND")
    case True
    note ins = counted_heap_insert [OF free k _ typed]
    show ?thesis
      using True a free ok ins(1) [OF _ tx] ins(2) [OF _ tx] ins(2) [OF _ rx]
      by (simp add: mmhal_wlan_alloc_mmpkt_for_rx_def pktmem_ok_def)
  next
    case False
    have pops: "ops (pkt\<lparr>ops := Some mmpkt_rx_ops\<rparr>) = Some \<lparr>free_mmpkt = Some Rx_pkt_free\<rparr>"
      by (simp add: ops_eqs)
    note ins = counted_heap_insert [OF free pops _ typed]
    show ?thesis
      using False a free ok ins(1) [OF _ tx] ins(2) [OF _ tx] ins(2) [OF _ rx] le
      by (auto simp: mmhal_wlan_alloc_mmpkt_for_rx_def pktmem_ok_def pool_sizes Let_def)
  qed
qed

lemma rx_free_ok:
  assumes ok: "pktmem_ok rep blocks st" and p: "clients st p = Some pkt"
    "ops pkt = Some \<lparr>free_mmpkt = Some Rx_pkt_free\<rparr>"
  shows "pktmem_ok rep blocks (rx_pkt_free st (Some p))"
proof -
  have typed: "typed_clients (clients st)"
    and tx: "counted (clients st) Tx_data_pool_pkt_free (tx_data_pool_allocated st)"
    and rx: "counted (clients st) Rx_pkt_free (rx_pool_allocated st)"
    using ok by (simp_all add: pktmem_ok_def)
  obtain a where a: "p = Heap_pkt a" by (rule typed_heap [OF typed p]) simp
  show ?thesis
    using typed_remove [OF typed, of p] ok counted_remove(1) [OF p tx] counted_remove(1) [OF p rx]
    by (simp add: rx_pkt_free_def pktmem_ok_def a)
qed

section \<open>The command pool and sequences of calls\<close>

definition small_request :: "u32 \<Rightarrow> u32 \<Rightarrow> u32 \<Rightarrow> bool" where
  "small_request s e ms \<longleftrightarrow> unat s < 1073741824 \<and> (unat e < 1073741824 \<or> e = 0xFFFFFFFF) \<and>
     unat ms < 1073741824"

datatype pkt_call = Alloc_tx u8 u32 u32 u32 | Alloc_rx u8 u32 u32 | Free_pkt pkt_ptr

fun pkt_call_valid :: "'s pktmem \<Rightarrow> pkt_call \<Rightarrow> bool" where
  "pkt_call_valid st (Alloc_tx cls s e ms) \<longleftrightarrow> small_request s e ms"
| "pkt_call_valid st (Alloc_rx cls cap ms) \<longleftrightarrow> True"
| "pkt_call_valid st (Free_pkt p) \<longleftrightarrow> clients st p \<noteq> None"

fun pkt_call_run ::
    "'s append_fn \<Rightarrow> 's dequeue_fn \<Rightarrow> heap_fn \<Rightarrow> 's pktmem \<Rightarrow> pkt_call \<Rightarrow> (pkt_ptr option \<times> 's pktmem) result" where
  "pkt_call_run app deq heap st (Alloc_tx cls s e ms) = mmhal_wlan_alloc_mmpkt_for_tx app deq heap st cls s e ms"
| "pkt_call_run app deq heap st (Alloc_rx cls cap ms) = Inr (mmhal_wlan_alloc_mmpkt_for_rx heap st cls cap ms)"
| "pkt_call_run app deq heap st (Free_pkt p) = rbind (pkt_free app st p) (\<lambda>st'. Inr (None, st'))"

inductive pktmem_reach :: "'s append_fn \<Rightarrow> 's dequeue_fn \<Rightarrow> 's \<Rightarrow> 's pktmem \<Rightarrow> bool"
  for app deq l0 where
  reach_init: "mmhal_wlan_pktmem_init app l0 = Inr st \<Longrightarrow> pktmem_reach app deq l0 st"
| reach_call: "\<lbrakk>pktmem_reach app deq l0 st; heap_contract heap st; pkt_call_valid st c;
    pkt_call_run app deq heap st c = Inr (r, st')\<rbrakk> \<Longrightarrow> pktmem_reach app deq l0 st'"

locale pktmem_lists = packet_fifo rep blocks app deq
  for rep :: "'s \<Rightarrow> nat list \<Rightarrow> bool" and blocks :: "'s \<Rightarrow> nat \<Rightarrow> 'p option"
    and app :: "'s append_fn" and deq :: "'s dequeue_fn"
begin

lemma init_ok:
  assumes "rep l0 []" "\<forall>b < 2. blocks l0 b \<noteq> None"
  shows "\<exists>st. mmhal_wlan_pktmem_init app l0 = Inr st \<and> pktmem_ok rep blocks st"
proof -
  have two: "[0 ..< TX_COMMAND_POOL_N_BLOCKS] = [0, 1]" by (simp add: pool_sizes upt_rec)
  obtain l where l: "enqueue_all app l0 [0, 1] = Inr l" "rep l [0, 1]" "blocks l = blocks l0"
    using enqueue_all_ok [of l0 "[]" "[0, 1]"] assms by auto
  have "command_ok rep blocks l (\<lambda>_. None) (\<lambda>_. replicate 256 0)"
    using l assms(2) unfolding command_ok_def
    by (intro conjI exI [of _ "[0, 1]"]) (auto simp: less_2_cases_iff)
  moreover have "mmhal_wlan_pktmem_init app l0 = Inr \<lparr>tx_data_pool_allocated = 0,
      tx_data_pool_tx_paused = False, rx_pool_allocated = 0, tx_command_pool_free_list = l,
      tx_command_pool = (\<lambda>_. replicate 256 0), clients = (\<lambda>_. None), cb_log = []\<rparr>"
    unfolding mmhal_wlan_pktmem_init_def two l(1) by (simp add: pool_sizes)
  ultimately show ?thesis
    by (simp add: pktmem_ok_def typed_clients_def counted_def owned_by_def flow_ok_def)
qed

lemma command_pool_alloc_ok:
  assumes ok: "pktmem_ok rep blocks st" and small: "small_request s e ms"
  shows "\<exists>r st'. command_pool_alloc app deq st s e ms = Inr (r, st') \<and> pktmem_ok rep blocks st' \<and>
    clients st' = (case r of None \<Rightarrow> clients st | Some p \<Rightarrow> (clients st)(p := clients st' p)) \<and>
    (\<forall>p. r = Some p \<longrightarrow> clients st p = None \<and> (\<exists>b. p = Cmd_block b)) \<and>
    tx_data_pool_allocated st' = tx_data_pool_allocated st"
proof -
  obtain xs where xs: "rep (tx_command_pool_free_list st) xs" "distinct xs" "set xs \<subseteq> {..<2}"
      "\<forall>b. clients st (Cmd_block b) \<noteq> None \<longleftrightarrow> b < 2 \<and> b \<notin> set xs"
    and mem: "\<forall>b < 2. blocks (tx_command_pool_free_list st) b \<noteq> None \<and> length (tx_command_pool st b) = 256"
    and blks: "\<forall>b pkt. clients st (Cmd_block b) = Some pkt \<longrightarrow> length (blk pkt) = 256"
    using ok by (auto simp: pktmem_ok_def command_ok_def)
  show ?thesis
  proof (cases xs)
    case Nil
    with xs(1) dequeue_empty ok show ?thesis
      by (simp add: command_pool_alloc_def alloc_pkt_from_list_def)
  next
    case (Cons b ys)
    then obtain l where l: "deq (tx_command_pool_free_list st) = Inr (Some b, l)" "rep l ys"
        "blocks l = blocks (tx_command_pool_free_list st)"
      using dequeue_cons xs(1) by blast
    have b: "b < 2" "clients st (Cmd_block b) = None" "b \<notin> set ys"
      using xs(2-4) Cons by auto
    let ?init = "mmpkt_init_buf (tx_command_pool st b) 256 s e ms (Some tx_command_pool_ops)"
    have "?init = Inr None \<or> (\<exists>p. ?init = Inr (Some p) \<and> laid_out (tx_command_pool st b) s ms p \<and>
        ops p = Some tx_command_pool_ops)"
      using small mem b by (intro mmpkt_init_buf_small) (auto simp: small_request_def)
    then show ?thesis
    proof (elim disjE exE conjE)
      assume none: "?init = Inr None"
      obtain l' where l': "app l b = Inr l'" "rep l' (ys @ [b])" "blocks l' = blocks l"
        using enqueue_ok [OF l(2), of b] mem b l(3) by auto
      have "command_ok rep blocks l' (clients st) (tx_command_pool st)"
        using xs mem blks b l l' Cons unfolding command_ok_def
        by (intro conjI exI [of _ "ys @ [b]"]) auto
      with l l' none ok show ?thesis
        by (auto simp: command_pool_alloc_def alloc_pkt_from_list_def tx_command_reserved_free_def
            pool_sizes pktmem_ok_def)
    next
      fix p
      assume p: "?init = Inr (Some p)" "laid_out (tx_command_pool st b) s ms p"
        "ops p = Some tx_command_pool_ops"
      let ?c = "(clients st)(Cmd_block b \<mapsto> p)"
      have "length (blk p) = 256" using p(2) mem b by (simp add: laid_out_def)
      then have "command_ok rep blocks l ?c (tx_command_pool st)"
        using xs mem blks b l Cons unfolding command_ok_def by (intro conjI exI [of _ ys]) auto
      moreover have opsp: "ops p = Some \<lparr>free_mmpkt = Some Tx_command_reserved_free\<rparr>"
        using p(3) by (simp add: ops_eqs)
      moreover have "typed_clients ?c"
        using ok opsp by (intro typed_insert [of "clients st"]) (auto simp: pktmem_ok_def)
      moreover have "counted ?c Tx_data_pool_pkt_free (tx_data_pool_allocated st)"
        "counted ?c Rx_pkt_free (rx_pool_allocated st)"
        using ok counted_insert [where c = "clients st", OF opsp b(2), of Tx_data_pool_pkt_free]
          counted_insert [where c = "clients st", OF opsp b(2), of Rx_pkt_free]
        by (auto simp: pktmem_ok_def)
      ultimately show ?thesis
        using l p ok b by (auto simp: command_pool_alloc_def alloc_pkt_from_list_def pool_sizes pktmem_ok_def)
    qed
  qed
qed

lemma command_free_ok:
  assumes ok: "pktmem_ok rep blocks st" and p: "clients st (Cmd_block b) = Some pkt"
  defines "st1 \<equiv> st\<lparr>clients := (clients st)(Cmd_block b := None),
      tx_command_pool := (tx_command_pool st)(b := blk pkt)\<rparr>"
  shows "\<exists>st'. tx_command_reserved_free app st1 b = Inr st' \<and> pktmem_ok rep blocks st'"
proof -
  obtain xs where xs: "rep (tx_command_pool_free_list st) xs" "distinct xs" "set xs \<subseteq> {..<2}"
      "\<forall>b. clients st (Cmd_block b) \<noteq> None \<longleftrightarrow> b < 2 \<and> b \<notin> set xs"
    and mem: "\<forall>b < 2. blocks (tx_command_pool_free_list st) b \<noteq> None \<and> length (tx_command_pool st b) = 256"
    and blks: "\<forall>b pkt. clients st (Cmd_block b) = Some pkt \<longrightarrow> length (blk pkt) = 256"
    and typed: "typed_clients (clients st)"
    and tx: "counted (clients st) Tx_data_pool_pkt_free (tx_data_pool_allocated st)"
    and rx: "counted (clients st) Rx_pkt_free (rx_pool_allocated st)"
    using ok by (auto simp: pktmem_ok_def command_ok_def)
  have b: "b < 2" "b \<notin> set xs" using xs(4) p by auto
  from typed p have opsp: "ops pkt = Some \<lparr>free_mmpkt = Some Tx_command_reserved_free\<rparr>"
    by (fastforce simp: typed_clients_def)
  obtain l where l: "app (tx_command_pool_free_list st) b = Inr l" "rep l (xs @ [b])"
      "blocks l = blocks (tx_command_pool_free_list st)"
    using enqueue_ok [OF xs(1)] mem b by blast
  have "command_ok rep blocks l (clients st1) (tx_command_pool st1)"
    using xs mem blks b l p unfolding command_ok_def st1_def
    by (intro conjI exI [of _ "xs @ [b]"]) auto
  then show ?thesis
    using ok l typed_remove [OF typed] counted_remove(1) [OF p opsp tx] counted_remove(1) [OF p opsp rx]
    by (simp add: tx_command_reserved_free_def pktmem_ok_def st1_def)
qed

lemma tx_call_ok:
  assumes ok: "pktmem_ok rep blocks st" and heap: "heap_contract heap st" and small: "small_request s e ms"
  shows "\<exists>r st'. mmhal_wlan_alloc_mmpkt_for_tx app deq heap st cls s e ms = Inr (r, st') \<and>
    pktmem_ok rep blocks st'"
proof -
  have data: "\<exists>r st'. tx_data_alloc heap st1 s e ms = (r, st') \<and> pktmem_ok rep blocks st'"
    if "pktmem_ok rep blocks st1" "clients st1 = clients st" for st1
  proof -
    have "heap_contract heap st1" using heap that(2) by (simp add: heap_contract_def)
    from tx_data_alloc_ok [OF that(1) this, of s e ms] that(1) show ?thesis
      by (cases "tx_data_alloc heap st1 s e ms") (auto split: option.splits)
  qed
  show ?thesis
  proof (cases "cls = MMHAL_WLAN_PKT_COMMAND")
    case True
    obtain r st1 where st1: "command_pool_alloc app deq st s e ms = Inr (r, st1)" "pktmem_ok rep blocks st1"
        "r = None \<Longrightarrow> clients st1 = clients st"
      using command_pool_alloc_ok [OF ok small] by (auto split: option.splits)
    with data [of st1] True show ?thesis
      by (cases r) (auto simp: mmhal_wlan_alloc_mmpkt_for_tx_def)
  next
    case False
    with data [OF ok] show ?thesis by (auto simp: mmhal_wlan_alloc_mmpkt_for_tx_def)
  qed
qed

lemma free_call_ok:
  assumes ok: "pktmem_ok rep blocks st" and p: "clients st p = Some pkt"
  shows "\<exists>st'. pkt_free app st p = Inr st' \<and> pktmem_ok rep blocks st'"
proof -
  have typed: "typed_clients (clients st)"
    and tx: "counted (clients st) Tx_data_pool_pkt_free (tx_data_pool_allocated st)"
    and rx: "counted (clients st) Rx_pkt_free (rx_pool_allocated st)"
    using ok by (simp_all add: pktmem_ok_def)
  from typed [unfolded typed_clients_def, rule_format, OF p]
  obtain f where f: "ops pkt = Some \<lparr>free_mmpkt = Some f\<rparr>"
      "f = Tx_command_reserved_free \<longleftrightarrow> (\<exists>b. p = Cmd_block b)"
    by blast
  show ?thesis
  proof (cases f)
    case Tx_command_reserved_free
    with f obtain b where "p = Cmd_block b" by auto
    with p f Tx_command_reserved_free command_free_ok [OF ok, of b pkt] show ?thesis
      by (auto simp: pkt_free_def)
  next
    case Tx_data_pool_pkt_free
    with p f tx_data_free_ok [OF ok p] show ?thesis by (auto simp: pkt_free_def)
  next
    case Rx_pkt_free
    with p f rx_free_ok [OF ok p] show ?thesis by (auto simp: pkt_free_def)
  next
    case (Library_free k)
    obtain a where a: "p = Heap_pkt a" using typed_heap [OF typed p f(1)] Library_free by auto
    show ?thesis
      using p f Library_free ok typed_remove [OF typed, of p] counted_remove(1) [OF p f(1) tx]
        counted_remove(1) [OF p f(1) rx]
      by (simp add: pkt_free_def pktmem_ok_def a)
  qed
qed

lemma call_ok:
  assumes ok: "pktmem_ok rep blocks st" and heap: "heap_contract heap st" and valid: "pkt_call_valid st c"
  shows "\<exists>r st'. pkt_call_run app deq heap st c = Inr (r, st') \<and> pktmem_ok rep blocks st'"
proof (cases c)
  case (Alloc_tx cls s e ms)
  with tx_call_ok [OF ok heap] valid show ?thesis by simp
next
  case (Alloc_rx cls cap ms)
  with rx_alloc_ok [OF ok heap, of cls cap ms] ok show ?thesis
    by (cases "mmhal_wlan_alloc_mmpkt_for_rx heap st cls cap ms") (auto split: option.splits)
next
  case (Free_pkt p)
  with free_call_ok [OF ok] valid show ?thesis by fastforce
qed

lemma reach_ok:
  assumes "pktmem_reach app deq l0 st" "rep l0 []" "\<forall>b < 2. blocks l0 b \<noteq> None"
  shows "pktmem_ok rep blocks st"
  using assms(1)
proof induction
  case (reach_init st)
  with init_ok [OF assms(2,3)] show ?case by simp
next
  case (reach_call st heap c r st')
  with call_ok show ?case by fastforce
qed

end

section \<open>Deinitialisation\<close>

text \<open>
  \<open>snaps\<close> is what the free list length and the data counter hold each time the waiting loop tests them
  (other threads run while it sleeps); the result is the number of sleeps of 10 ms.
\<close>

primrec deinit_wait :: "(u32 \<times> u32) list \<Rightarrow> nat" where
  "deinit_wait [] = 0"
| "deinit_wait (s # snaps) =
     (case s of (free_len, allocated) \<Rightarrow>
        if (free_len OR allocated OR allocated) = 0 then 0 else Suc (deinit_wait snaps))"

datatype leak_msg = Leak_data int | Leak_command int

definition mmhal_wlan_pktmem_deinit :: "(u32 \<times> u32) list \<Rightarrow> u32 \<times> u32 \<Rightarrow> nat \<times> leak_msg list" where
  "mmhal_wlan_pktmem_deinit snaps fin =
     (deinit_wait (take 100 snaps),
      (case fin of (free_len, allocated) \<Rightarrow>
         (if allocated \<noteq> 0 then [Leak_data (sint allocated)] else []) @
         (if free_len \<noteq> 2 then [Leak_command (2 - sint free_len)] else [])))"

lemma u32_or_eq_0: "(x OR y :: u32) = 0 \<longleftrightarrow> x = 0 \<and> y = 0"
  by (rule or_eq_0_iff)

lemma deinit_wait_all: "\<forall>(f, a) \<in> set snaps. f \<noteq> 0 \<or> a \<noteq> 0 \<Longrightarrow> deinit_wait snaps = length snaps"
  by (induction snaps) (auto simp: u32_or_eq_0)

text \<open>
  The waiting loop of \<open>mmhal_wlan_pktmem_deinit\<close> tests the length of the free list, so as long as a
  command block is free it always sleeps its full hundred times, also when nothing is left allocated;
  it ends at once when both command blocks are still out, and then reports them as leaked.
\<close>

theorem deinit_waits_while_free:
  assumes "length snaps = 100"
  shows "((\<forall>(f, a) \<in> set snaps. f = 2 \<and> a = 0) \<longrightarrow> mmhal_wlan_pktmem_deinit snaps (2, 0) = (100, [])) \<and>
    (hd snaps = (0, 0) \<longrightarrow> mmhal_wlan_pktmem_deinit snaps (0, 0) = (0, [Leak_command 2]))"
proof -
  have first: "hd snaps = (0, 0) \<longrightarrow> deinit_wait snaps = 0"
    using assms by (cases snaps) auto
  have all: "(\<forall>(f, a) \<in> set snaps. f = 2 \<and> a = 0) \<longrightarrow> deinit_wait snaps = 100"
  proof
    assume "\<forall>(f, a) \<in> set snaps. f = 2 \<and> a = 0"
    then have "\<forall>(f, a) \<in> set snaps. f \<noteq> 0 \<or> a \<noteq> 0" by force
    from deinit_wait_all [OF this] show "deinit_wait snaps = 100" by (simp add: assms)
  qed
  have "take 100 snaps = snaps" using assms by simp
  with first all show ?thesis by (simp add: mmhal_wlan_pktmem_deinit_def)
qed

lemma deinit_waits_while_free_witness:
  "mmhal_wlan_pktmem_deinit (replicate 100 (2, 0)) (2, 0) = (100, []) \<and>
   mmhal_wlan_pktmem_deinit ((0, 0) # replicate 99 (2, 0)) (0, 0) = (0, [Leak_command 2])"
  using deinit_waits_while_free [of "replicate 100 (2, 0)"]
    deinit_waits_while_free [of "(0, 0) # replicate 99 (2, 0)"]
  by auto

end
