(* ===== verification/Mmbuf.thy ===== *)
theory Mmbuf
  imports Packet_Buffer
begin

text \<open>
  The buffers of mmbuf.h and mmbuf.c: allocation on the heap, copying, and the in-place operations
  that move the boundaries of the data inside the buffer. A pointer into the buffer is its offset
  from \<open>buf\<close>; the memory behind \<open>buf\<close> is a list of bytes, so an access past it is an error
  value. The linked lists of buffers are in Mmbuf_List.
\<close>

section \<open>Data\<close>

text \<open>
  The \<open>free_mmbuf\<close> callback is identified by name: the heap backend's \<open>mmosal_free\<close>, or another
  backend's function.
\<close>

datatype free_fn = Mmosal_free | Backend_free nat

record mmbuf_ops =
  free_mmbuf :: "free_fn option"

record mmbuf =
  buf :: "u8 list"
  buf_len :: u32
  start_offset :: u32
  data_len :: u32
  ops :: "mmbuf_ops option"
  next_buf :: "nat option"

definition mmbuf_heap_ops :: mmbuf_ops where
  "mmbuf_heap_ops = \<lparr>free_mmbuf = Some Mmosal_free\<rparr>"

text \<open>\<open>sizeof(struct mmbuf)\<close>: six 4-byte members on the 32-bit target.\<close>

definition sizeof_mmbuf :: u32 where
  "sizeof_mmbuf = 24"

section \<open>Operations of mmbuf.h\<close>

definition mmbuf_init :: "u8 list \<Rightarrow> u32 \<Rightarrow> u32 \<Rightarrow> mmbuf_ops option \<Rightarrow> mmbuf" where
  "mmbuf_init b blen data_start_offset o_ops =
     \<lparr>buf = b, buf_len = blen, start_offset = data_start_offset, data_len = 0, ops = o_ops,
      next_buf = None\<rparr>"

definition mmbuf_get_data_start :: "mmbuf \<Rightarrow> u32" where
  "mmbuf_get_data_start b = start_offset b"

definition mmbuf_get_data_end :: "mmbuf \<Rightarrow> u32" where
  "mmbuf_get_data_end b = start_offset b + data_len b"

definition mmbuf_get_data_length :: "mmbuf \<Rightarrow> u32" where
  "mmbuf_get_data_length b = data_len b"

definition mmbuf_available_space_at_start :: "mmbuf \<Rightarrow> u32" where
  "mmbuf_available_space_at_start b = start_offset b"

definition mmbuf_available_space_at_end :: "mmbuf \<Rightarrow> u32" where
  "mmbuf_available_space_at_end b = buf_len b - (start_offset b + data_len b)"

definition mmbuf_prepend :: "mmbuf \<Rightarrow> u32 \<Rightarrow> (u32 \<times> mmbuf) result" where
  "mmbuf_prepend b len =
     rbind (c_assert (len \<le> mmbuf_available_space_at_start b)) (\<lambda>_.
       let b' = b\<lparr>start_offset := start_offset b - len, data_len := data_len b + len\<rparr>
       in Inr (start_offset b', b'))"

definition mmbuf_prepend_data :: "mmbuf \<Rightarrow> u8 list \<Rightarrow> u32 \<Rightarrow> mmbuf result" where
  "mmbuf_prepend_data b d len =
     rbind (mmbuf_prepend b len) (\<lambda>(dest, b').
     rbind (mem_read d 0 (unat len)) (\<lambda>bytes.
     rbind (mem_write (buf b') (unat dest) bytes) (\<lambda>m. Inr (b'\<lparr>buf := m\<rparr>))))"

definition mmbuf_append :: "mmbuf \<Rightarrow> u32 \<Rightarrow> (u32 \<times> mmbuf) result" where
  "mmbuf_append b len =
     (let ret = mmbuf_get_data_end b in
      rbind (c_assert (len \<le> mmbuf_available_space_at_end b)) (\<lambda>_.
        Inr (ret, b\<lparr>data_len := data_len b + len\<rparr>)))"

definition mmbuf_append_data :: "mmbuf \<Rightarrow> u8 list \<Rightarrow> u32 \<Rightarrow> mmbuf result" where
  "mmbuf_append_data b d len =
     rbind (mmbuf_append b len) (\<lambda>(dest, b').
     rbind (mem_read d 0 (unat len)) (\<lambda>bytes.
     rbind (mem_write (buf b') (unat dest) bytes) (\<lambda>m. Inr (b'\<lparr>buf := m\<rparr>))))"

definition mmbuf_remove_from_start :: "mmbuf \<Rightarrow> u32 \<Rightarrow> u32 option \<times> mmbuf" where
  "mmbuf_remove_from_start b len =
     (if mmbuf_get_data_length b < len then (None, b)
      else (Some (mmbuf_get_data_start b),
            b\<lparr>start_offset := start_offset b + len, data_len := data_len b - len\<rparr>))"

definition mmbuf_remove_from_end :: "mmbuf \<Rightarrow> u32 \<Rightarrow> u32 option \<times> mmbuf" where
  "mmbuf_remove_from_end b len =
     (if mmbuf_get_data_length b < len then (None, b)
      else (Some (mmbuf_get_data_end b - len), b\<lparr>data_len := data_len b - len\<rparr>))"

definition mmbuf_truncate :: "mmbuf \<Rightarrow> u32 \<Rightarrow> mmbuf result" where
  "mmbuf_truncate b len =
     rbind (c_assert (len \<le> data_len b)) (\<lambda>_. Inr (b\<lparr>data_len := len\<rparr>))"

section \<open>Allocation, copy and release (mmbuf.c)\<close>

text \<open>
  The heap maps the addresses of live buffers to them. \<open>mmosal_malloc\<close> belongs to the OS shim and
  ends in FreeRTOS: it is a parameter that is given the size and the heap and returns NULL or an
  address with the (unspecified) contents of the new block.
\<close>

type_synonym mmbuf_heap = "nat \<Rightarrow> mmbuf option"
type_synonym malloc_fn = "u32 \<Rightarrow> mmbuf_heap \<Rightarrow> (nat \<times> u8 list) option"

definition mmbuf_alloc_on_heap ::
    "malloc_fn \<Rightarrow> mmbuf_heap \<Rightarrow> u32 \<Rightarrow> u32 \<Rightarrow> nat option \<times> mmbuf_heap" where
  "mmbuf_alloc_on_heap malloc h space_at_start space_at_end =
     (let alloc_len = mm_fast_round_up sizeof_mmbuf 4
                      + mm_fast_round_up (space_at_start + space_at_end) 4
      in case malloc alloc_len h of
           None \<Rightarrow> (None, h)
         | Some (p, block) \<Rightarrow>
             let block = replicate (unat alloc_len) 0;  \<comment> \<open>the memset\<close>
                 area = drop (unat (mm_fast_round_up sizeof_mmbuf 4)) block
             in (Some p,
                 h(p \<mapsto> mmbuf_init area (mm_fast_round_up (space_at_start + space_at_end) 4)
                        space_at_start (Some mmbuf_heap_ops))))"

definition mmbuf_make_copy_on_heap ::
    "malloc_fn \<Rightarrow> mmbuf_heap \<Rightarrow> mmbuf \<Rightarrow> (nat option \<times> mmbuf_heap) result" where
  "mmbuf_make_copy_on_heap malloc h original =
     (let alloc_len = mm_fast_round_up sizeof_mmbuf 4 + buf_len original
      in case malloc alloc_len h of
           None \<Rightarrow> Inr (None, h)
         | Some (p, block) \<Rightarrow>
             let area = drop (unat (mm_fast_round_up sizeof_mmbuf 4)) block;
                 b = (mmbuf_init area (buf_len original) (start_offset original)
                        (Some mmbuf_heap_ops))\<lparr>data_len := data_len original\<rparr>
             in if data_len original \<noteq> 0
                then rbind (mem_read (buf original) (unat (mmbuf_get_data_start original))
                              (unat (mmbuf_get_data_length original))) (\<lambda>bytes.
                     rbind (mem_write (buf b) (unat (mmbuf_get_data_start b)) bytes) (\<lambda>m.
                       Inr (Some p, h(p \<mapsto> b\<lparr>buf := m\<rparr>))))
                else Inr (Some p, h(p \<mapsto> b)))"

text \<open>
  Release calls the backend through \<open>ops->free_mmbuf\<close>. \<open>mmosal_free\<close> makes the block's address
  dead; what another backend's callback does to the heap is a parameter.
\<close>

definition free_call :: "(nat \<Rightarrow> nat \<Rightarrow> mmbuf_heap \<Rightarrow> mmbuf_heap) \<Rightarrow> free_fn \<Rightarrow> nat \<Rightarrow> mmbuf_heap \<Rightarrow> mmbuf_heap" where
  "free_call backend f p h =
     (case f of Mmosal_free \<Rightarrow> h(p := None) | Backend_free k \<Rightarrow> backend k p h)"

definition mmbuf_release ::
    "(nat \<Rightarrow> nat \<Rightarrow> mmbuf_heap \<Rightarrow> mmbuf_heap) \<Rightarrow> mmbuf_heap \<Rightarrow> nat option \<Rightarrow> mmbuf_heap result" where
  "mmbuf_release backend h pp =
     (case pp of
        None \<Rightarrow> Inr h
      | Some p \<Rightarrow>
          (case h p of
             None \<Rightarrow> Inl Dangling
           | Some b \<Rightarrow>
               (case ops b of
                  None \<Rightarrow> Inl Assert_failed
                | Some oo \<Rightarrow>
                    (case free_mmbuf oo of
                       None \<Rightarrow> Inl Assert_failed
                     | Some f \<Rightarrow> Inr (free_call backend f p h)))))"

section \<open>Invariant and abstraction\<close>

text \<open>
  The layout of the comment in mmbuf.h: the memory has \<open>buf_len\<close> bytes, and reserved start, data and
  reserved end lie inside it in this order.
\<close>

definition mmbuf_ok :: "mmbuf \<Rightarrow> bool" where
  "mmbuf_ok b \<longleftrightarrow> length (buf b) = unat (buf_len b) \<and>
     unat (start_offset b) + unat (data_len b) \<le> unat (buf_len b)"

definition mmbuf_data :: "mmbuf \<Rightarrow> u8 list" where
  "mmbuf_data b = window (buf b) (unat (start_offset b)) (unat (data_len b))"

definition mmbuf_headroom :: "mmbuf \<Rightarrow> nat" where
  "mmbuf_headroom b = unat (mmbuf_available_space_at_start b)"

definition mmbuf_tailroom :: "mmbuf \<Rightarrow> nat" where
  "mmbuf_tailroom b = unat (mmbuf_available_space_at_end b)"

lemma mmbuf_end:
  "mmbuf_ok b \<Longrightarrow> unat (start_offset b + data_len b) = unat (start_offset b) + unat (data_len b)"
  unfolding mmbuf_ok_def by (blast intro: u32_add_le)

lemma mmbuf_tailroom_eq:
  "mmbuf_ok b \<Longrightarrow> mmbuf_tailroom b = unat (buf_len b) - (unat (start_offset b) + unat (data_len b))"
  using mmbuf_end [of b]
  by (simp add: mmbuf_tailroom_def mmbuf_available_space_at_end_def u32_sub u32_le_iff mmbuf_ok_def)

lemma mmbuf_headroom_eq: "mmbuf_headroom b = unat (start_offset b)"
  by (simp add: mmbuf_headroom_def mmbuf_available_space_at_start_def)

lemma mmbuf_data_length: "mmbuf_ok b \<Longrightarrow> length (mmbuf_data b) = unat (data_len b)"
  by (simp add: mmbuf_data_def mmbuf_ok_def window_length)

lemmas mmbuf_defs =
  mmbuf_get_data_start_def mmbuf_get_data_end_def mmbuf_get_data_length_def
  mmbuf_available_space_at_start_def mmbuf_available_space_at_end_def
  mmbuf_prepend_def mmbuf_append_def mmbuf_prepend_data_def mmbuf_append_data_def
  mmbuf_remove_from_start_def mmbuf_remove_from_end_def mmbuf_truncate_def

lemma mmbuf_prepend_data_ok:
  assumes ok: "mmbuf_ok b" and d: "length d = unat n" and room: "unat n \<le> mmbuf_headroom b"
  shows "\<exists>b'. mmbuf_prepend_data b d n = Inr b' \<and> mmbuf_ok b' \<and> mmbuf_data b' = d @ mmbuf_data b \<and>
           mmbuf_headroom b' = mmbuf_headroom b - unat n \<and> mmbuf_tailroom b' = mmbuf_tailroom b"
proof -
  let ?s = "unat (start_offset b)" and ?l = "unat (data_len b)"
  have len: "length (buf b) = unat (buf_len b)" and bound: "?s + ?l \<le> unat (buf_len b)"
    using ok by (simp_all add: mmbuf_ok_def)
  have fits: "unat n \<le> ?s" using room by (simp add: mmbuf_headroom_eq)
  have s': "unat (start_offset b - n) = ?s - unat n" using fits by (simp add: u32_sub u32_le_iff)
  have l': "unat (data_len b + n) = ?l + unat n"
    by (rule u32_add_le [of _ _ "buf_len b"]) (use fits bound in linarith)
  let ?m = "take (?s - length d) (buf b) @ d @ drop ?s (buf b)"
  let ?b' = "b\<lparr>start_offset := start_offset b - n, data_len := data_len b + n, buf := ?m\<rparr>"
  have run: "mmbuf_prepend_data b d n = Inr ?b'"
    using fits bound d len by (simp add: mmbuf_defs Let_def u32_le_iff s')
  have ok': "mmbuf_ok ?b'"
    using fits bound d len by (simp add: mmbuf_ok_def s' l')
  have "mmbuf_data ?b' = d @ mmbuf_data b"
    using window_prepend [of d ?s ?l "buf b"] fits bound d len by (simp add: mmbuf_data_def s' l')
  with run ok' fits show ?thesis
    by (simp add: mmbuf_headroom_eq mmbuf_tailroom_eq ok s' l')
qed

lemma mmbuf_append_data_ok:
  assumes ok: "mmbuf_ok b" and d: "length d = unat n" and room: "unat n \<le> mmbuf_tailroom b"
  shows "\<exists>b'. mmbuf_append_data b d n = Inr b' \<and> mmbuf_ok b' \<and> mmbuf_data b' = mmbuf_data b @ d \<and>
           mmbuf_tailroom b' = mmbuf_tailroom b - unat n \<and> mmbuf_headroom b' = mmbuf_headroom b"
proof -
  let ?s = "unat (start_offset b)" and ?l = "unat (data_len b)"
  have len: "length (buf b) = unat (buf_len b)" and bound: "?s + ?l \<le> unat (buf_len b)"
    using ok by (simp_all add: mmbuf_ok_def)
  have fits: "?s + ?l + unat n \<le> unat (buf_len b)"
    using room bound by (simp add: mmbuf_tailroom_eq ok)
  have l': "unat (data_len b + n) = ?l + unat n"
    by (rule u32_add_le [of _ _ "buf_len b"]) (use fits in linarith)
  let ?m = "take (?s + ?l) (buf b) @ d @ drop (?s + ?l + length d) (buf b)"
  let ?b' = "b\<lparr>data_len := data_len b + n, buf := ?m\<rparr>"
  have "n \<le> mmbuf_available_space_at_end b"
    using room by (simp add: u32_le_iff mmbuf_tailroom_def)
  then have run: "mmbuf_append_data b d n = Inr ?b'"
    using fits d len by (simp add: mmbuf_append_data_def mmbuf_append_def mmbuf_get_data_end_def
        mmbuf_end [OF ok])
  have ok': "mmbuf_ok ?b'" using fits d len by (simp add: mmbuf_ok_def l')
  have "mmbuf_data ?b' = mmbuf_data b @ d"
    using window_append [of ?s ?l d "buf b"] fits d len by (simp add: mmbuf_data_def l')
  with run ok' fits show ?thesis
    by (simp add: mmbuf_headroom_eq mmbuf_tailroom_eq ok l')
qed

lemma mmbuf_remove_from_start_ok:
  assumes ok: "mmbuf_ok b" and n: "unat n \<le> length (mmbuf_data b)"
  shows "\<exists>p b'. mmbuf_remove_from_start b n = (Some p, b') \<and> mmbuf_ok b' \<and>
           mmbuf_data b' = drop (unat n) (mmbuf_data b) \<and>
           mmbuf_headroom b' = mmbuf_headroom b + unat n \<and> mmbuf_tailroom b' = mmbuf_tailroom b"
proof -
  let ?s = "unat (start_offset b)" and ?l = "unat (data_len b)"
  let ?b' = "b\<lparr>start_offset := start_offset b + n, data_len := data_len b - n\<rparr>"
  have bound: "?s + ?l \<le> unat (buf_len b)" using ok by (simp add: mmbuf_ok_def)
  have fits: "unat n \<le> ?l" using n by (simp add: mmbuf_data_length ok)
  have s': "unat (start_offset b + n) = ?s + unat n"
    by (rule u32_add_le [of _ _ "buf_len b"]) (use fits bound in linarith)
  have l': "unat (data_len b - n) = ?l - unat n" using fits by (simp add: u32_sub u32_le_iff)
  have run: "mmbuf_remove_from_start b n = (Some (start_offset b), ?b')"
    using fits by (simp add: mmbuf_defs u32_less_iff)
  have ok': "mmbuf_ok ?b'" using ok fits by (simp add: mmbuf_ok_def s' l')
  have "mmbuf_data ?b' = drop (unat n) (mmbuf_data b)"
    using window_drop [of "unat n" ?l "buf b" ?s] fits by (simp add: mmbuf_data_def s' l')
  with run ok' fits show ?thesis
    by (simp add: mmbuf_headroom_eq mmbuf_tailroom_eq ok s' l')
qed

lemma mmbuf_shrink_end:
  assumes ok: "mmbuf_ok b" and k: "unat k \<le> unat (data_len b)"
  shows "mmbuf_ok (b\<lparr>data_len := k\<rparr>) \<and> mmbuf_data (b\<lparr>data_len := k\<rparr>) = take (unat k) (mmbuf_data b)
    \<and> mmbuf_headroom (b\<lparr>data_len := k\<rparr>) = mmbuf_headroom b
    \<and> mmbuf_tailroom (b\<lparr>data_len := k\<rparr>) = mmbuf_tailroom b + (unat (data_len b) - unat k)"
proof -
  have ok': "mmbuf_ok (b\<lparr>data_len := k\<rparr>)" using assms by (simp add: mmbuf_ok_def)
  moreover have "mmbuf_tailroom (b\<lparr>data_len := k\<rparr>) = mmbuf_tailroom b + (unat (data_len b) - unat k)"
    using assms by (simp add: mmbuf_tailroom_eq ok' mmbuf_ok_def)
  ultimately show ?thesis
    using k by (simp add: mmbuf_headroom_eq mmbuf_data_def window_take [of "unat k" "unat (data_len b)"])
qed

text \<open>The buffers of mmbuf keep the contract of Packet_Buffer.\<close>

interpretation mb: packet_buffer mmbuf_ok mmbuf_data mmbuf_headroom mmbuf_tailroom
  mmbuf_prepend_data mmbuf_append_data mmbuf_remove_from_start mmbuf_remove_from_end mmbuf_truncate
proof unfold_locales
  fix b n
  assume ok: "mmbuf_ok b"
  show "mmbuf_headroom b < unat n \<Longrightarrow> mmbuf_prepend_data b d n = Inl Assert_failed" for d
    by (simp add: mmbuf_defs u32_le_iff mmbuf_headroom_eq)
  show "mmbuf_tailroom b < unat n \<Longrightarrow> mmbuf_append_data b d n = Inl Assert_failed" for d
    by (simp add: mmbuf_append_data_def mmbuf_append_def u32_le_iff mmbuf_tailroom_def)
  show "length (mmbuf_data b) < unat n \<Longrightarrow> mmbuf_remove_from_start b n = (None, b)"
    "length (mmbuf_data b) < unat n \<Longrightarrow> mmbuf_remove_from_end b n = (None, b)"
    "length (mmbuf_data b) < unat n \<Longrightarrow> mmbuf_truncate b n = Inl Assert_failed"
    by (simp_all add: mmbuf_defs u32_less_iff u32_le_iff mmbuf_data_length ok)
  assume n: "unat n \<le> length (mmbuf_data b)"
  then have le: "unat n \<le> unat (data_len b)" by (simp add: mmbuf_data_length ok)
  then have sub: "unat (data_len b - n) = unat (data_len b) - unat n"
    by (simp add: u32_sub u32_le_iff)
  show "\<exists>p b'. mmbuf_remove_from_end b n = (Some p, b') \<and> mmbuf_ok b' \<and>
      mmbuf_data b' = take (length (mmbuf_data b) - unat n) (mmbuf_data b) \<and>
      mmbuf_headroom b' = mmbuf_headroom b \<and> mmbuf_tailroom b' = mmbuf_tailroom b + unat n"
    using mmbuf_shrink_end [OF ok, of "data_len b - n"] le
    by (simp add: mmbuf_defs u32_less_iff sub mmbuf_data_length ok)
  show "\<exists>b'. mmbuf_truncate b n = Inr b' \<and> mmbuf_ok b' \<and>
      mmbuf_data b' = take (unat n) (mmbuf_data b) \<and> mmbuf_headroom b' = mmbuf_headroom b"
    using mmbuf_shrink_end [OF ok, of n] le by (simp add: mmbuf_defs u32_le_iff)
qed (blast intro: mmbuf_prepend_data_ok mmbuf_append_data_ok mmbuf_remove_from_start_ok)+

section \<open>Properties\<close>

text \<open>
  What mmbuf.c needs of \<open>mmosal_malloc\<close>: a block it hands out has the requested size and is not in
  use.
\<close>

definition malloc_contract :: "malloc_fn \<Rightarrow> bool" where
  "malloc_contract malloc \<longleftrightarrow>
     (\<forall>n h p block. malloc n h = Some (p, block) \<longrightarrow> length block = unat n \<and> h p = None)"

lemma malloc_contractD:
  "malloc_contract malloc \<Longrightarrow> malloc n h = Some (p, block) \<Longrightarrow> length block = unat n \<and> h p = None"
  by (simp add: malloc_contract_def)

definition bump_malloc :: malloc_fn where
  "bump_malloc n h = (if h 0 = None then Some (0, replicate (unat n) 0xA5) else None)"

lemma bump_malloc_contract: "malloc_contract bump_malloc"
  by (simp add: malloc_contract_def bump_malloc_def)

lemma header_size: "mm_fast_round_up sizeof_mmbuf 4 = 24"
  by (simp add: word_unat_eq_iff unat_round_up_4 sizeof_mmbuf_def)

lemma header_plus_area:
  assumes "unat a \<le> 4294967271"
  shows "unat (24 + a :: u32) - 24 = unat a"
  using assms by (simp add: u32_add)

lemma mmbuf_fresh_ok:
  assumes "unat s + unat e \<le> 4294967268"
  defines "area \<equiv> mm_fast_round_up (s + e) 4"
  shows "unat s + unat e \<le> unat area" and "unat area < unat s + unat e + 4"
    and "unat (mm_fast_round_up sizeof_mmbuf 4 + area) = 24 + unat area"
proof -
  have sum: "unat (s + e) = unat s + unat e" using assms(1) by (intro u32_add) linarith
  then show ge: "unat s + unat e \<le> unat area" and lt: "unat area < unat s + unat e + 4"
    using round_up_4_ge [of "s + e"] round_up_4_lt [of "s + e"] assms(1) by (simp_all add: area_def)
  have "4 dvd unat area" unfolding area_def by (rule round_up_4_dvd)
  then have "unat area \<le> 4294967268" using lt assms(1) by (elim dvdE) simp
  then show "unat (mm_fast_round_up sizeof_mmbuf 4 + area) = 24 + unat area"
    by (simp add: header_size u32_add)
qed

text \<open>
  \<open>mmbuf_alloc_on_heap\<close> returns NULL and leaves the heap alone, or returns a fresh buffer that is
  well formed, empty and zeroed, with exactly the requested space in front of the data and at least the
  requested space (rounded up to four bytes) behind it, as long as header and spaces together stay below
  2 to the 32.
\<close>

theorem mmbuf_alloc_on_heap_ok:
  assumes "malloc_contract malloc" and "unat s + unat e \<le> 4294967268"
  shows "case mmbuf_alloc_on_heap malloc h s e of
      (None, h') \<Rightarrow> h' = h
    | (Some p, h') \<Rightarrow> h p = None \<and> (\<exists>b. h' = h(p \<mapsto> b) \<and> mmbuf_ok b \<and> mmbuf_data b = [] \<and>
        mmbuf_headroom b = unat s \<and> unat e \<le> mmbuf_tailroom b \<and> mmbuf_tailroom b < unat e + 4 \<and>
        set (buf b) \<subseteq> {0} \<and> ops b = Some mmbuf_heap_ops \<and> next_buf b = None)"
proof (cases "malloc (mm_fast_round_up sizeof_mmbuf 4 + mm_fast_round_up (s + e) 4) h")
  case (Some r)
  then obtain p block where r: "malloc (mm_fast_round_up sizeof_mmbuf 4 + mm_fast_round_up (s + e) 4) h
      = Some (p, block)" by (cases r) simp
  define area where "area = mm_fast_round_up (s + e) 4"
  note fresh = mmbuf_fresh_ok [OF assms(2), folded area_def]
  let ?b = "mmbuf_init (replicate (unat area) 0) area s (Some mmbuf_heap_ops)"
  have ok: "mmbuf_ok ?b" using fresh(1) by (simp add: mmbuf_ok_def mmbuf_init_def)
  have run: "mmbuf_alloc_on_heap malloc h s e = (Some p, h(p \<mapsto> ?b))"
    using r fresh(3) by (simp add: mmbuf_alloc_on_heap_def header_size flip: area_def)
  have "mmbuf_headroom ?b = unat s" "mmbuf_tailroom ?b = unat area - unat s"
    using ok by (simp_all add: mmbuf_headroom_eq mmbuf_tailroom_eq) (simp_all add: mmbuf_init_def)
  moreover have "mmbuf_data ?b = []" by (simp add: mmbuf_data_def mmbuf_init_def window_def)
  moreover have "set (buf ?b) \<subseteq> {0}" "ops ?b = Some mmbuf_heap_ops" "next_buf ?b = None"
    by (auto simp: mmbuf_init_def)
  ultimately show ?thesis
    using malloc_contractD [OF assms(1) r] fresh ok unfolding run by auto
qed (simp add: mmbuf_alloc_on_heap_def)

lemma mmbuf_alloc_on_heap_ok_witness:
  "case mmbuf_alloc_on_heap bump_malloc (\<lambda>_. None) 8 13 of
      (None, h') \<Rightarrow> False
    | (Some p, h') \<Rightarrow> (\<exists>b. h' = [p \<mapsto> b] \<and> mmbuf_ok b \<and> mmbuf_headroom b = 8 \<and> 13 \<le> mmbuf_tailroom b)"
  using mmbuf_alloc_on_heap_ok [OF bump_malloc_contract, of 8 13 "\<lambda>_. None"]
  by (auto simp: mmbuf_alloc_on_heap_def bump_malloc_def split: option.splits)

text \<open>
  \<open>mmbuf_make_copy_on_heap\<close> of a well-formed buffer never leaves its memory; when it returns a buffer,
  that is a fresh one on the heap with the same data, the same space on either side and the heap's own
  release function, and no other buffer is touched.
\<close>

theorem mmbuf_make_copy_on_heap_ok:
  assumes "malloc_contract malloc" and ok: "mmbuf_ok b" and "unat (buf_len b) \<le> 4294967271"
  shows "mmbuf_make_copy_on_heap malloc h b = Inr (None, h) \<or>
    (\<exists>p c. mmbuf_make_copy_on_heap malloc h b = Inr (Some p, h(p \<mapsto> c)) \<and> h p = None \<and>
       mmbuf_ok c \<and> mmbuf_data c = mmbuf_data b \<and> mmbuf_headroom c = mmbuf_headroom b \<and>
       mmbuf_tailroom c = mmbuf_tailroom b \<and> ops c = Some mmbuf_heap_ops \<and> next_buf c = None)"
proof (cases "malloc (mm_fast_round_up sizeof_mmbuf 4 + buf_len b) h")
  case (Some r)
  then obtain p block where r: "malloc (mm_fast_round_up sizeof_mmbuf 4 + buf_len b) h = Some (p, block)"
    by (cases r) simp
  let ?s = "unat (start_offset b)" and ?l = "unat (data_len b)"
  let ?area = "drop 24 block"
  have bound: "?s + ?l \<le> unat (buf_len b)" "length (buf b) = unat (buf_len b)"
    using ok by (simp_all add: mmbuf_ok_def)
  have blk: "length block = 24 + unat (buf_len b)" and fresh: "h p = None"
    using malloc_contractD [OF assms(1) r] assms(3) by (simp_all add: header_size u32_add)
  define d where "d = window (buf b) ?s ?l"
  have ld: "length d = ?l" using bound by (simp add: d_def window_length)
  let ?m = "take ?s ?area @ d @ drop (?s + ?l) ?area"
  define c where "c = \<lparr>buf = if data_len b \<noteq> 0 then ?m else ?area, buf_len = buf_len b,
    start_offset = start_offset b, data_len = data_len b, ops = Some mmbuf_heap_ops, next_buf = None\<rparr>"
  have run: "mmbuf_make_copy_on_heap malloc h b = Inr (Some p, h(p \<mapsto> c))"
    using r bound blk ld
    by (auto simp: mmbuf_make_copy_on_heap_def header_size mmbuf_init_def mmbuf_defs c_def d_def window_def)
  have okc: "mmbuf_ok c" using bound blk ld by (simp add: c_def mmbuf_ok_def)
  have "mmbuf_data c = mmbuf_data b"
    using bound blk ld by (simp add: mmbuf_data_def c_def window_def flip: d_def) (simp add: d_def window_def)
  moreover have "mmbuf_headroom c = mmbuf_headroom b" "mmbuf_tailroom c = mmbuf_tailroom b"
    by (simp_all add: mmbuf_headroom_eq mmbuf_tailroom_eq ok okc) (simp_all add: c_def)
  moreover have "ops c = Some mmbuf_heap_ops" "next_buf c = None" by (simp_all add: c_def)
  ultimately show ?thesis using run fresh okc by blast
qed (simp add: mmbuf_make_copy_on_heap_def)

definition sample_mmbuf :: mmbuf where
  "sample_mmbuf = \<lparr>buf = [0, 0, 0xAA, 0xBB, 0, 0, 0, 0], buf_len = 8, start_offset = 2, data_len = 2,
     ops = Some \<lparr>free_mmbuf = Some (Backend_free 1)\<rparr>, next_buf = Some 7\<rparr>"

lemma mmbuf_make_copy_on_heap_ok_witness:
  "\<exists>c. mmbuf_make_copy_on_heap bump_malloc (\<lambda>_. None) sample_mmbuf = Inr (Some 0, [0 \<mapsto> c]) \<and>
     mmbuf_data c = [0xAA, 0xBB]"
proof -
  have ok: "mmbuf_ok sample_mmbuf" "unat (buf_len sample_mmbuf) \<le> 4294967271"
    by (simp_all add: mmbuf_ok_def sample_mmbuf_def)
  have "mmbuf_data sample_mmbuf = [0xAA, 0xBB]"
    by (simp add: mmbuf_data_def sample_mmbuf_def window_def)
  with mmbuf_make_copy_on_heap_ok [OF bump_malloc_contract ok, of "\<lambda>_. None"] show ?thesis
    by (auto simp: mmbuf_make_copy_on_heap_def bump_malloc_def sample_mmbuf_def mmbuf_defs mmbuf_init_def
        header_size Let_def)
qed

text \<open>
  Appending a chain of segments to a well-formed buffer either fits in the space at the end and
  yields the old data followed by all segments in order, or stops at an assertion: no sequence of
  appends writes outside the buffer.
\<close>

theorem mmbuf_append_chain:
  assumes "mmbuf_ok b" and "\<forall>d \<in> set ds. length d < 4294967296"
  shows "if length (concat ds) \<le> mmbuf_tailroom b
    then \<exists>b'. append_all mmbuf_append_data b ds = Inr b' \<and> mmbuf_ok b' \<and>
           mmbuf_data b' = mmbuf_data b @ concat ds \<and>
           mmbuf_tailroom b' = mmbuf_tailroom b - length (concat ds) \<and>
           mmbuf_headroom b' = mmbuf_headroom b
    else append_all mmbuf_append_data b ds = Inl Assert_failed"
proof -
  have "mmbuf_tailroom b < 4294967296" by (simp add: mmbuf_tailroom_def)
  then show ?thesis
    using mb.append_all_ok [OF assms(1), of ds] mb.append_all_refused [OF assms(1) _ _ assms(2)] by auto
qed

lemma mmbuf_append_chain_witness:
  "(\<exists>b. append_all mmbuf_append_data sample_mmbuf [[1, 2], [3]] = Inr b \<and>
      mmbuf_data b = [0xAA, 0xBB, 1, 2, 3]) \<and>
   append_all mmbuf_append_data sample_mmbuf [[1, 2], [3, 4, 5]] = Inl Assert_failed"
proof -
  have ok: "mmbuf_ok sample_mmbuf" "mmbuf_tailroom sample_mmbuf = 4" "mmbuf_data sample_mmbuf = [0xAA, 0xBB]"
    by (simp_all add: mmbuf_ok_def sample_mmbuf_def mmbuf_tailroom_def mmbuf_defs mmbuf_data_def window_def)
  from mmbuf_append_chain [OF ok(1), of "[[1, 2], [3]]"] mmbuf_append_chain [OF ok(1), of "[[1, 2], [3, 4, 5]]"]
  show ?thesis by (auto simp: ok simp del: append_all.simps)
qed

text \<open>
  A header put in front of the data with \<open>mmbuf_prepend_data\<close> is exactly what
  \<open>mmbuf_remove_from_start\<close> takes off again: the pointer it returns is the address the header was
  written to, and payload and free space are as before.
\<close>

theorem mmbuf_header_roundtrip:
  assumes "mmbuf_ok b" "length d = unat n" "unat n \<le> mmbuf_headroom b"
  shows "\<exists>b1 p b2. mmbuf_prepend_data b d n = Inr b1 \<and> mmbuf_remove_from_start b1 n = (Some p, b2) \<and>
    window (buf b2) (unat p) (unat n) = d \<and> mmbuf_ok b2 \<and> mmbuf_data b2 = mmbuf_data b \<and>
    mmbuf_headroom b2 = mmbuf_headroom b \<and> mmbuf_tailroom b2 = mmbuf_tailroom b"
proof -
  obtain b1 p b2 where b: "mmbuf_prepend_data b d n = Inr b1" "take (unat n) (mmbuf_data b1) = d"
      "mmbuf_remove_from_start b1 n = (Some p, b2)" "mmbuf_ok b2" "mmbuf_data b2 = mmbuf_data b"
      "mmbuf_headroom b2 = mmbuf_headroom b" "mmbuf_tailroom b2 = mmbuf_tailroom b"
    using mb.header_roundtrip [OF assms] by blast
  then have "p = start_offset b1" "buf b2 = buf b1" "unat n \<le> unat (data_len b1)"
    by (auto simp: mmbuf_defs u32_less_iff split: if_splits)
  with b have "window (buf b2) (unat p) (unat n) = d"
    by (simp add: mmbuf_data_def flip: window_take)
  with b show ?thesis by blast
qed

lemma mmbuf_header_roundtrip_witness:
  "\<exists>b1 p b2. mmbuf_prepend_data sample_mmbuf [7, 8] 2 = Inr b1 \<and>
     mmbuf_remove_from_start b1 2 = (Some p, b2) \<and> window (buf b2) (unat p) 2 = [7, 8] \<and>
     mmbuf_data b2 = mmbuf_data sample_mmbuf"
proof -
  have "mmbuf_ok sample_mmbuf" "length [7, 8 :: u8] = unat (2 :: u32)"
      "unat (2 :: u32) \<le> mmbuf_headroom sample_mmbuf"
    by (simp_all add: mmbuf_ok_def sample_mmbuf_def mmbuf_headroom_def mmbuf_defs)
  from mmbuf_header_roundtrip [OF this] show ?thesis by auto
qed

text \<open>
  The sum \<open>space_at_start + space_at_end\<close> is not checked. When it wraps, the allocation succeeds with a
  memory area smaller than promised, and a write the buffer's own bounds checks let through leaves it.
\<close>

lemma mmbuf_alloc_wraps:
  "\<exists>b. mmbuf_alloc_on_heap bump_malloc (\<lambda>_. None) 0xFFFFFFF0 0x18 = (Some 0, [0 \<mapsto> b]) \<and>
     length (buf b) = 8 \<and> mmbuf_tailroom b = 0x18 \<and> mmbuf_append_data b [1] 1 = Inl Out_of_bounds"
proof -
  have area: "mm_fast_round_up (0xFFFFFFF0 + 0x18) 4 = (8 :: u32)"
    by (simp add: word_unat_eq_iff unat_round_up_4)
  show ?thesis
    unfolding mmbuf_alloc_on_heap_def area header_size
    by (rule exI [of _ "mmbuf_init (replicate 8 0) 8 0xFFFFFFF0 (Some mmbuf_heap_ops)"])
      (simp add: bump_malloc_def mmbuf_init_def mmbuf_tailroom_def mmbuf_defs mem_read_def mem_write_def u32_le_iff)
qed

end
