(* ===== verification/Mmbuf_List.thy ===== *)
theory Mmbuf_List
  imports Mmbuf Packet_List
begin

text \<open>
  The counted linked lists of buffers of mmbuf.h and mmbuf.c. The heap maps addresses to buffers, a
  pointer is an optional address; reading through NULL and through an address that is not live are
  error values, and a loop that follows a cyclic list for ever is \<open>None\<close>. The operations are the ones
  of the default build, in which MMBUF_SANITY is not defined; the check that macro would insert after
  each of them is \<open>mmbuf_list_sanity_check\<close>, and it is proved to accept exactly the lists that the
  invariant \<open>list_rep\<close> describes.
\<close>

section \<open>Operations\<close>

record mmbuf_list =
  head :: "nat option"
  tail :: "nat option"
  list_len :: u32

definition mmbuf_list_init :: mmbuf_list where
  "mmbuf_list_init = \<lparr>head = None, tail = None, list_len = 0\<rparr>"

definition deref :: "mmbuf_heap \<Rightarrow> nat option \<Rightarrow> mmbuf result" where
  "deref h p =
     (case p of None \<Rightarrow> Inl Null_deref
      | Some a \<Rightarrow> (case h a of None \<Rightarrow> Inl Dangling | Some b \<Rightarrow> Inr b))"

definition set_next :: "mmbuf_heap \<Rightarrow> nat option \<Rightarrow> nat option \<Rightarrow> mmbuf_heap result" where
  "set_next h p n = rbind (deref h p) (\<lambda>b. Inr (h(the p \<mapsto> b\<lparr>next_buf := n\<rparr>)))"

type_synonym list_state = "mmbuf_heap \<times> mmbuf_list"

definition mmbuf_list_prepend :: "list_state \<Rightarrow> nat \<Rightarrow> list_state result" where
  "mmbuf_list_prepend s m =
     (case s of (h, l) \<Rightarrow>
        rbind (set_next h (Some m) (head l)) (\<lambda>h1.
          let l1 = l\<lparr>head := Some m, list_len := list_len l + 1\<rparr>
          in Inr (h1, if tail l1 = None then l1\<lparr>tail := head l1\<rparr> else l1)))"

definition mmbuf_list_append :: "list_state \<Rightarrow> nat \<Rightarrow> list_state result" where
  "mmbuf_list_append s m =
     (case s of (h, l) \<Rightarrow>
        rbind (set_next h (Some m) None) (\<lambda>h1.
        rbind (if head l = None then Inr (h1, l\<lparr>head := Some m, tail := Some m\<rparr>)
               else rbind (set_next h1 (tail l) (Some m)) (\<lambda>h2. Inr (h2, l\<lparr>tail := Some m\<rparr>)))
          (\<lambda>(h2, l2). Inr (h2, l2\<lparr>list_len := list_len l2 + 1\<rparr>))))"

partial_function (option) find_prev_loop ::
    "mmbuf_heap \<Rightarrow> nat \<Rightarrow> nat \<Rightarrow> nat option \<Rightarrow> nat option result option" where
  "find_prev_loop h m walk nxt =
     (case nxt of
        None \<Rightarrow> Some (Inr None)
      | Some n \<Rightarrow>
          if n = m then Some (Inr (Some walk))
          else (case deref h (Some n) of
                  Inl e \<Rightarrow> Some (Inl e)
                | Inr b \<Rightarrow> find_prev_loop h m n (next_buf b)))"

definition mmbuf_find_prev :: "mmbuf_heap \<Rightarrow> mmbuf_list \<Rightarrow> nat \<Rightarrow> nat option result option" where
  "mmbuf_find_prev h l m =
     (case deref h (head l) of
        Inl e \<Rightarrow> Some (Inl e)
      | Inr b \<Rightarrow> find_prev_loop h m (the (head l)) (next_buf b))"

text \<open>The common end of \<open>mmbuf_list_remove\<close>, from the test of the tail on.\<close>

definition remove_finish ::
    "mmbuf_heap \<Rightarrow> mmbuf_list \<Rightarrow> nat \<Rightarrow> nat option \<Rightarrow> (bool \<times> list_state) result" where
  "remove_finish h l m prev =
     (let l1 = (if tail l = Some m then l\<lparr>tail := prev\<rparr> else l);
          l2 = l1\<lparr>list_len := list_len l1 - 1\<rparr>
      in rbind (set_next h (Some m) None) (\<lambda>h1. Inr (True, (h1, l2))))"

definition mmbuf_list_remove :: "list_state \<Rightarrow> nat \<Rightarrow> (bool \<times> list_state) result option" where
  "mmbuf_list_remove s m =
     (case s of (h, l) \<Rightarrow>
        if head l = None then Some (Inr (False, s))
        else if head l = Some m
        then Some (rbind (deref h (Some m)) (\<lambda>b.
                     remove_finish h (l\<lparr>head := next_buf b\<rparr>) m None))
        else obind (mmbuf_find_prev h l m) (\<lambda>prev.
               if prev = None then Some (Inr (False, s))
               else Some (rbind (deref h (Some m)) (\<lambda>b.
                          rbind (set_next h prev (next_buf b)) (\<lambda>h1.
                            remove_finish h1 l m prev)))))"

definition mmbuf_list_dequeue :: "list_state \<Rightarrow> (nat option \<times> list_state) result" where
  "mmbuf_list_dequeue s =
     (case s of (h, l) \<Rightarrow>
        (case head l of
           None \<Rightarrow> Inr (None, s)
         | Some m \<Rightarrow>
             rbind (deref h (Some m)) (\<lambda>b.
               let l1 = l\<lparr>head := next_buf b, list_len := list_len l - 1\<rparr>;
                   l2 = (if tail l1 = Some m then l1\<lparr>tail := None\<rparr> else l1)
               in rbind (set_next h (Some m) None) (\<lambda>h1. Inr (Some m, (h1, l2))))))"

definition mmbuf_list_dequeue_tail :: "list_state \<Rightarrow> (nat option \<times> list_state) result option" where
  "mmbuf_list_dequeue_tail s =
     (case tail (snd s) of
        None \<Rightarrow> Some (Inr (None, s))
      | Some m \<Rightarrow> obind (mmbuf_list_remove s m) (\<lambda>(ret, s1). Some (Inr (Some m, s1))))"

definition mmbuf_list_dequeue_all :: "list_state \<Rightarrow> nat option \<times> list_state" where
  "mmbuf_list_dequeue_all s =
     (case s of (h, l) \<Rightarrow> (head l, (h, l\<lparr>head := None, tail := None, list_len := 0\<rparr>)))"

definition mmbuf_list_is_empty :: "mmbuf_list \<Rightarrow> bool" where
  "mmbuf_list_is_empty l = (head l = None)"

definition mmbuf_list_peek :: "mmbuf_list \<Rightarrow> nat option" where
  "mmbuf_list_peek l = head l"

definition mmbuf_list_peek_tail :: "mmbuf_list \<Rightarrow> nat option" where
  "mmbuf_list_peek_tail l = tail l"

text \<open>The loop of \<open>mmbuf_list_clear\<close>: \<open>next\<close> is read before the buffer is released.\<close>

partial_function (option) clear_loop ::
    "(nat \<Rightarrow> nat \<Rightarrow> mmbuf_heap \<Rightarrow> mmbuf_heap) \<Rightarrow> mmbuf_heap \<Rightarrow> nat option \<Rightarrow> nat option
     \<Rightarrow> mmbuf_heap result option" where
  "clear_loop backend h walk nxt =
     (case walk of
        None \<Rightarrow> Some (Inr h)
      | Some w \<Rightarrow>
          (case mmbuf_release backend h (Some w) of
             Inl e \<Rightarrow> Some (Inl e)
           | Inr h1 \<Rightarrow>
               (case nxt of
                  None \<Rightarrow> clear_loop backend h1 nxt None
                | Some n \<Rightarrow>
                    (case deref h1 nxt of
                       Inl e \<Rightarrow> Some (Inl e)
                     | Inr b \<Rightarrow> clear_loop backend h1 nxt (next_buf b)))))"

definition mmbuf_list_clear ::
    "(nat \<Rightarrow> nat \<Rightarrow> mmbuf_heap \<Rightarrow> mmbuf_heap) \<Rightarrow> list_state \<Rightarrow> list_state result option" where
  "mmbuf_list_clear backend s =
     (case s of (h, l) \<Rightarrow>
        if head l = None then Some (Inr s)
        else (case deref h (head l) of
                Inl e \<Rightarrow> Some (Inl e)
              | Inr b \<Rightarrow>
                  obind (clear_loop backend h (head l) (next_buf b)) (\<lambda>h1.
                    Some (Inr (h1, l\<lparr>list_len := 0, head := None, tail := None\<rparr>)))))"

partial_function (option) sanity_loop ::
    "mmbuf_heap \<Rightarrow> nat option \<Rightarrow> nat option \<Rightarrow> u32 \<Rightarrow> (u32 \<times> nat option) result option" where
  "sanity_loop h walk prev cnt =
     (case walk of
        None \<Rightarrow> Some (Inr (cnt, prev))
      | Some w \<Rightarrow>
          (case deref h walk of
             Inl e \<Rightarrow> Some (Inl e)
           | Inr b \<Rightarrow> sanity_loop h (next_buf b) walk (cnt + 1)))"

definition mmbuf_list_sanity_check :: "list_state \<Rightarrow> unit result option" where
  "mmbuf_list_sanity_check s =
     (case s of (h, l) \<Rightarrow>
        obind (sanity_loop h (head l) None 0) (\<lambda>(cnt, prev).
          Some (rbind (c_assert (cnt = list_len l)) (\<lambda>_. c_assert (prev = tail l)))))"

section \<open>Paths\<close>

text \<open>\<open>path h p as q\<close>: following \<open>next\<close> from \<open>p\<close> visits the live buffers \<open>as\<close> and arrives at \<open>q\<close>.\<close>

primrec path :: "mmbuf_heap \<Rightarrow> nat option \<Rightarrow> nat list \<Rightarrow> nat option \<Rightarrow> bool" where
  "path h p [] q \<longleftrightarrow> p = q"
| "path h p (a # as) q \<longleftrightarrow> p = Some a \<and> (\<exists>b. h a = Some b \<and> path h (next_buf b) as q)"

lemma path_append: "path h p (as @ bs) q \<longleftrightarrow> (\<exists>r. path h p as r \<and> path h r bs q)"
  by (induction as arbitrary: p) auto

lemma path_upd [simp]: "a \<notin> set as \<Longrightarrow> path (h(a := x)) p as q \<longleftrightarrow> path h p as q"
  by (induction as arbitrary: p) auto

lemma path_live: "path h p as q \<Longrightarrow> a \<in> set as \<Longrightarrow> \<exists>b. h a = Some b"
  by (induction as arbitrary: p) auto

lemma path_None: "path h None as q \<longleftrightarrow> as = [] \<and> q = None"
  by (cases as) auto

lemma path_unique:
  "path h p as None \<Longrightarrow> path h p bs None \<Longrightarrow> as = bs"
proof (induction as arbitrary: p bs)
  case Nil
  then show ?case by (simp add: path_None)
next
  case (Cons a as)
  then obtain b where "p = Some a" "h a = Some b" "path h (next_buf b) as None" by auto
  with Cons show ?case by (cases bs) auto
qed

lemma path_distinct: "path h p as None \<Longrightarrow> distinct as"
proof (induction as arbitrary: p)
  case (Cons a as)
  have "a \<notin> set as"
  proof
    assume "a \<in> set as"
    then obtain xs ys where as: "as = xs @ a # ys" by (meson split_list)
    with Cons.prems obtain r where "path h p (a # xs) r" "path h r (a # ys) None"
      using path_append [of h p "a # xs" "a # ys" None] by auto
    then have "path h (Some a) (a # ys) None" by (auto split: if_splits)
    moreover have "path h (Some a) (a # as) None" using Cons.prems by auto
    ultimately show False using path_unique [of h "Some a" "a # ys" "a # as"] as by simp
  qed
  with Cons show ?case by auto
qed simp

section \<open>The invariant\<close>

text \<open>
  What the sanity check of mmbuf.c describes: the buffers in the list are reached from \<open>head\<close> in
  order, \<open>tail\<close> is the last one, and \<open>len\<close> counts them (modulo 2 to the 32).
\<close>

definition list_rep :: "list_state \<Rightarrow> nat list \<Rightarrow> bool" where
  "list_rep s ps \<longleftrightarrow>
     (case s of (h, l) \<Rightarrow> path h (head l) ps None \<and> list_len l = of_nat (length ps) \<and>
        tail l = (if ps = [] then None else Some (last ps)))"

definition contents :: "mmbuf_heap \<Rightarrow> nat \<Rightarrow> mmbuf option" where
  "contents h a = map_option (\<lambda>b. b\<lparr>next_buf := None\<rparr>) (h a)"

definition buffers :: "list_state \<Rightarrow> nat \<Rightarrow> mmbuf option" where
  "buffers s = contents (fst s)"

lemma buffers_pair [simp]: "buffers (h, l) = contents h"
  by (simp add: buffers_def)

lemma list_rep_simp [simp]:
  "list_rep (h, l) ps \<longleftrightarrow> path h (head l) ps None \<and> list_len l = of_nat (length ps) \<and>
     tail l = (if ps = [] then None else Some (last ps))"
  by (simp add: list_rep_def)

lemma list_rep_distinct: "list_rep s ps \<Longrightarrow> distinct ps"
  by (cases s) (auto dest: path_distinct)

lemma list_rep_init: "list_rep (h, mmbuf_list_init) []"
  by (simp add: mmbuf_list_init_def)

lemma set_next_live [simp]: "h a = Some b \<Longrightarrow> set_next h (Some a) n = Inr (h(a \<mapsto> b\<lparr>next_buf := n\<rparr>))"
  by (simp add: set_next_def deref_def)

lemma deref_live [simp]: "h a = Some b \<Longrightarrow> deref h (Some a) = Inr b"
  by (simp add: deref_def)

lemma contents_live: "h a = Some b \<Longrightarrow> contents h a = Some (b\<lparr>next_buf := None\<rparr>)"
  by (simp add: contents_def)

lemma contents_upd: "h a = Some b \<Longrightarrow> contents (h(a \<mapsto> b\<lparr>next_buf := n\<rparr>)) = contents h"
  by (auto simp: contents_def fun_eq_iff)

lemma contents_None [simp]: "contents h a = None \<longleftrightarrow> h a = None"
  by (simp add: contents_def)

section \<open>Every operation does what it does on a plain list\<close>

lemma mmbuf_list_prepend_ok:
  assumes "list_rep s ps" "buffers s m \<noteq> None" "m \<notin> set ps"
  shows "\<exists>s'. mmbuf_list_prepend s m = Inr s' \<and> list_rep s' (m # ps) \<and> buffers s' = buffers s"
proof -
  obtain h l where s: "s = (h, l)" by (cases s)
  with assms(2) obtain b where b: "h m = Some b" by auto
  with assms show ?thesis
    by (cases "ps = []") (auto simp: s mmbuf_list_prepend_def Let_def contents_upd)
qed

lemma path_snocE:
  assumes "path h p (ps @ [t]) None"
  obtains b where "path h p ps (Some t)" "h t = Some b" "next_buf b = None" "t \<notin> set ps"
proof -
  from assms have "t \<notin> set ps" using path_distinct [of h p "ps @ [t]"] by simp
  moreover obtain r b where "path h p ps r" "r = Some t" "h t = Some b" "next_buf b = None"
    using assms by (auto simp: path_append)
  ultimately show ?thesis using that by blast
qed

lemma mmbuf_list_append_ok:
  assumes "list_rep s ps" "buffers s m \<noteq> None" "m \<notin> set ps"
  shows "\<exists>s'. mmbuf_list_append s m = Inr s' \<and> list_rep s' (ps @ [m]) \<and> buffers s' = buffers s"
proof -
  obtain h l where s: "s = (h, l)" by (cases s)
  with assms(2) obtain b where b: "h m = Some b" by auto
  show ?thesis
  proof (cases ps rule: rev_cases)
    case Nil
    with assms b show ?thesis by (auto simp: s mmbuf_list_append_def contents_upd)
  next
    case (snoc qs t)
    with assms s have p: "path h (head l) (qs @ [t]) None" "tail l = Some t" "m \<notin> set qs" "m \<noteq> t"
        and n: "list_len l = of_nat (length ps)" by auto
    from p(1) obtain bt where t: "path h (head l) qs (Some t)" "h t = Some bt" "t \<notin> set qs"
      by (rule path_snocE)
    obtain a where hd: "head l = Some a" using p(1) by (cases qs) auto
    let ?h = "h(m \<mapsto> b\<lparr>next_buf := None\<rparr>, t \<mapsto> bt\<lparr>next_buf := Some m\<rparr>)"
    let ?l = "l\<lparr>tail := Some m, list_len := list_len l + 1\<rparr>"
    have "mmbuf_list_append s m = Inr (?h, ?l)"
      using b t p hd by (simp add: s mmbuf_list_append_def)
    moreover have "path ?h (head l) (ps @ [m]) None"
      using t p by (simp add: snoc path_append exI [of _ "Some t"] exI [of _ "Some m"])
    moreover have "buffers (?h, ?l) = buffers s"
      using b t p by (simp add: s contents_upd)
    ultimately show ?thesis using n by (intro exI [of _ "(?h, ?l)"]) simp
  qed
qed

lemma find_prev_loop_found:
  "\<lbrakk>path h nxt (as @ m # bs) q; m \<notin> set as\<rbrakk> \<Longrightarrow>
   find_prev_loop h m walk nxt = Some (Inr (Some (last (walk # as))))"
  by (induction as arbitrary: nxt walk) (auto simp: find_prev_loop.simps)

lemma find_prev_loop_not_found:
  "\<lbrakk>path h nxt as None; m \<notin> set as\<rbrakk> \<Longrightarrow> find_prev_loop h m walk nxt = Some (Inr None)"
  by (induction as arbitrary: nxt walk) (auto simp: find_prev_loop.simps)

lemma mmbuf_list_remove_not_in:
  assumes "list_rep s ps" "m \<notin> set ps"
  shows "mmbuf_list_remove s m = Some (Inr (False, s))"
proof -
  obtain h l where s: "s = (h, l)" by (cases s)
  show ?thesis
  proof (cases ps)
    case Nil
    with assms show ?thesis by (simp add: s mmbuf_list_remove_def)
  next
    case (Cons a as)
    with assms s obtain b where "head l = Some a" "h a = Some b" "path h (next_buf b) as None" by auto
    moreover from this have "find_prev_loop h m a (next_buf b) = Some (Inr None)"
      using assms(2) Cons by (intro find_prev_loop_not_found [of _ _ as]) auto
    ultimately show ?thesis
      using assms(2) Cons by (simp add: s mmbuf_list_remove_def mmbuf_find_prev_def)
  qed
qed

lemma mmbuf_list_remove_in:
  assumes rep: "list_rep s ps" and m: "m \<in> set ps"
  shows "\<exists>s'. mmbuf_list_remove s m = Some (Inr (True, s')) \<and> list_rep s' (remove1 m ps) \<and>
    buffers s' = buffers s"
proof -
  obtain h l where s: "s = (h, l)" by (cases s)
  from m obtain as bs where ps: "ps = as @ m # bs" and m_as: "m \<notin> set as"
    by (meson split_list_first)
  from rep s have path: "path h (head l) (as @ m # bs) None" and n: "list_len l = of_nat (length ps)"
      and tl: "tail l = Some (last ps)" by (auto simp: ps)
  then obtain bm where bm: "path h (head l) as (Some m)" "h m = Some bm" "path h (next_buf bm) bs None"
    by (auto simp: path_append)
  from path have dist: "distinct (as @ m # bs)" by (rule path_distinct)
  have len: "list_len l - 1 = of_nat (length (as @ bs))" by (simp add: n ps)
  have rm: "remove1 m ps = as @ bs" using m_as by (simp add: ps remove1_append)
  show ?thesis
  proof (cases as rule: rev_cases)
    case Nil
    then have "head l = Some m" using path by simp
    with bm dist Nil tl len show ?thesis
      by (auto simp: s rm mmbuf_list_remove_def remove_finish_def ps contents_upd)
  next
    case (snoc as' w)
    with bm obtain bw where w: "path h (head l) as' (Some w)" "h w = Some bw" "next_buf bw = Some m"
      by (auto simp: path_append)
    have "as \<noteq> []" using snoc by simp
    then obtain a ar where ar: "as = a # ar" by (meson neq_Nil_conv)
    with path m_as obtain b0 where hd: "head l = Some a" "a \<noteq> m" "m \<notin> set ar"
        and b0: "h a = Some b0" "path h (next_buf b0) (ar @ m # bs) None" by auto
    have "last (a # ar) = w" using snoc by (simp flip: ar)
    then have prev: "mmbuf_find_prev h l m = Some (Inr (Some w))"
      using find_prev_loop_found [OF b0(2) hd(3)] hd b0(1) by (simp add: mmbuf_find_prev_def)
    have neq: "w \<noteq> m" "w \<notin> set as'" "w \<notin> set bs" "m \<notin> set as'" "m \<notin> set bs"
      using dist by (auto simp: snoc)
    let ?h = "h(w \<mapsto> bw\<lparr>next_buf := next_buf bm\<rparr>, m \<mapsto> bm\<lparr>next_buf := None\<rparr>)"
    let ?l = "(if tail l = Some m then l\<lparr>tail := Some w\<rparr> else l)\<lparr>list_len := list_len l - 1\<rparr>"
    have run: "mmbuf_list_remove s m = Some (Inr (True, (?h, ?l)))"
      using hd prev w bm neq by (simp add: s mmbuf_list_remove_def remove_finish_def Let_def)
    have "path ?h (head l) (as @ bs) None"
      using w bm neq by (simp add: snoc path_append exI [of _ "Some w"])
    moreover have "tail ?l = Some (last (as @ bs))"
      using tl neq dist by (auto simp: ps snoc split: if_splits)
    moreover have "buffers (?h, ?l) = buffers s"
      using w bm neq by (simp add: s contents_upd)
    ultimately show ?thesis
      using len run by (intro exI [of _ "(?h, ?l)"]) (simp add: rm, simp add: snoc)
  qed
qed

lemma mmbuf_list_dequeue_empty: "list_rep s [] \<Longrightarrow> mmbuf_list_dequeue s = Inr (None, s)"
  by (cases s) (simp add: mmbuf_list_dequeue_def)

lemma mmbuf_list_dequeue_cons:
  assumes "list_rep s (m # ps)"
  shows "\<exists>s'. mmbuf_list_dequeue s = Inr (Some m, s') \<and> list_rep s' ps \<and> buffers s' = buffers s"
proof -
  obtain h l where s: "s = (h, l)" by (cases s)
  with assms obtain b where b: "head l = Some m" "h m = Some b" "path h (next_buf b) ps None"
      "list_len l = of_nat (length ps) + 1" "tail l = Some (last (m # ps))" by auto
  have "m \<notin> set ps" using list_rep_distinct [OF assms] by simp
  moreover from this have "ps \<noteq> [] \<Longrightarrow> last ps \<noteq> m" by auto
  ultimately show ?thesis
    using b by (cases "ps = []") (simp_all add: s mmbuf_list_dequeue_def Let_def contents_upd)
qed

lemma mmbuf_list_dequeue_tail_empty:
  "list_rep s [] \<Longrightarrow> mmbuf_list_dequeue_tail s = Some (Inr (None, s))"
  by (cases s) (simp add: mmbuf_list_dequeue_tail_def)

lemma mmbuf_list_dequeue_tail_snoc:
  assumes "list_rep s (ps @ [m])"
  shows "\<exists>s'. mmbuf_list_dequeue_tail s = Some (Inr (Some m, s')) \<and> list_rep s' ps \<and>
    buffers s' = buffers s"
proof -
  have "m \<notin> set ps" using list_rep_distinct [OF assms] by simp
  then have "remove1 m (ps @ [m]) = ps" by (simp add: remove1_append)
  moreover have "tail (snd s) = Some m" using assms by (cases s) simp
  ultimately show ?thesis
    using mmbuf_list_remove_in [OF assms, of m] by (auto simp: mmbuf_list_dequeue_tail_def)
qed

interpretation ml: packet_deque list_rep buffers mmbuf_list_append mmbuf_list_dequeue
  mmbuf_list_prepend mmbuf_list_remove mmbuf_list_dequeue_tail
  by unfold_locales
    (blast intro: mmbuf_list_append_ok mmbuf_list_dequeue_empty mmbuf_list_dequeue_cons
      mmbuf_list_prepend_ok mmbuf_list_remove_in mmbuf_list_remove_not_in
      mmbuf_list_dequeue_tail_empty mmbuf_list_dequeue_tail_snoc)+

section \<open>The sanity check decides the invariant\<close>

lemma sanity_loop_path:
  "path h walk as None \<Longrightarrow>
   sanity_loop h walk prev cnt
     = Some (Inr (cnt + of_nat (length as), if as = [] then prev else Some (last as)))"
proof (induction as arbitrary: walk prev cnt)
  case Nil
  then show ?case by (simp add: sanity_loop.simps)
next
  case (Cons a as)
  then obtain b where b: "walk = Some a" "h a = Some b" "path h (next_buf b) as None" by auto
  with Cons.IH [OF b(3), of walk "cnt + 1"] show ?case
    by (subst sanity_loop.simps) (simp add: add.assoc)
qed

lemma sanity_loop_returns:
  assumes "sanity_loop h walk prev cnt = Some r"
  shows "(\<exists>x. r = Inr x) \<longrightarrow> (\<exists>as. path h walk as None)"
proof (rule sanity_loop.raw_induct [where P = "\<lambda>h walk prev cnt r. (\<exists>x. r = Inr x) \<longrightarrow> (\<exists>as. path h walk as None)",
      OF _ assms])
  fix loop h walk prev cnt r
  assume IH: "\<And>h walk prev cnt r. loop h walk prev cnt = Some r \<Longrightarrow>
        (\<exists>x. r = Inr x) \<longrightarrow> (\<exists>as. path h walk as None)"
    and eq: "(case walk of None \<Rightarrow> Some (Inr (cnt, prev))
      | Some w \<Rightarrow> (case deref h walk of Inl e \<Rightarrow> Some (Inl e)
          | Inr b \<Rightarrow> loop h (next_buf b) walk (cnt + 1))) = Some r"
  show "(\<exists>x. r = Inr x) \<longrightarrow> (\<exists>as. path h walk as None)"
  proof (cases walk)
    case None
    then show ?thesis by (simp add: path_None)
  next
    case (Some w)
    show ?thesis
    proof (cases "h w")
      case None
      with eq Some show ?thesis by (auto simp: deref_def)
    next
      fix b assume b: "h w = Some b"
      then have "loop h (next_buf b) walk (cnt + 1) = Some r" using eq Some by simp
      from IH [OF this] Some b show ?thesis by (metis path.simps(2))
    qed
  qed
qed

text \<open>
  The check that MMBUF_SANITY compiles into the list operations terminates without an assertion
  exactly for the lists that satisfy the invariant: reached from \<open>head\<close> through live buffers to NULL,
  without a cycle, with the right \<open>tail\<close> and the right count.
\<close>

theorem mmbuf_list_sanity_check_iff:
  "mmbuf_list_sanity_check s = Some (Inr ()) \<longleftrightarrow> (\<exists>ps. list_rep s ps)"
proof -
  obtain h l where s: "s = (h, l)" by (cases s)
  have "mmbuf_list_sanity_check s = Some (Inr ()) \<longleftrightarrow>
      list_len l = of_nat (length as) \<and> tail l = (if as = [] then None else Some (last as))"
    if "path h (head l) as None" for as
    unfolding s mmbuf_list_sanity_check_def
    by (simp add: sanity_loop_path [OF that] rbind_eq_Inr) (metis (no_types))
  moreover have "\<exists>as. path h (head l) as None" if "mmbuf_list_sanity_check s = Some (Inr ())"
  proof -
    from that obtain x where "sanity_loop h (head l) None 0 = Some (Inr x)"
      by (auto simp: s mmbuf_list_sanity_check_def obind_def split: option.splits sum.splits)
    from sanity_loop_returns [OF this] show ?thesis by simp
  qed
  ultimately show ?thesis unfolding s list_rep_simp by blast
qed

text \<open>
  C7: Any sequence of prepend, append, remove, dequeue and dequeue_tail calls on a well-formed list
  returns what the same calls return on a plain list of buffers, never follows a NULL or stale pointer
  and never loops; afterwards the invariant holds for the resulting list, and nothing in any
  buffer but its link has changed.
\<close>

theorem mmbuf_list_refines_deque:
  assumes "list_rep s ps" and "calls_valid (\<lambda>a. buffers s a \<noteq> None) ps cs"
  shows "\<exists>s'. exec_calls (exec_call mmbuf_list_append mmbuf_list_prepend mmbuf_list_remove
                   mmbuf_list_dequeue mmbuf_list_dequeue_tail) s cs
      = Some (Inr (fst (abs_calls ps cs), s')) \<and>
    list_rep s' (snd (abs_calls ps cs)) \<and> buffers s' = buffers s"
  by (rule ml.exec_calls_refine [OF assms])

definition sample_heap :: mmbuf_heap where
  "sample_heap = (\<lambda>a. if a < 3 then Some (sample_mmbuf\<lparr>next_buf := None\<rparr>) else None)"

lemma mmbuf_list_refines_deque_witness:
  "\<exists>s'. exec_calls (exec_call mmbuf_list_append mmbuf_list_prepend mmbuf_list_remove
                   mmbuf_list_dequeue mmbuf_list_dequeue_tail) (sample_heap, mmbuf_list_init)
      [Append 0, Append 1, Prepend 2, Remove 0, Dequeue_tail, Dequeue, Dequeue]
    = Some (Inr ([Void, Void, Void, Removed True, Packet (Some 1), Packet (Some 2), Packet None], s')) \<and>
    list_rep s' []"
  using mmbuf_list_refines_deque [OF list_rep_init, of sample_heap
      "[Append 0, Append 1, Prepend 2, Remove 0, Dequeue_tail, Dequeue, Dequeue]"]
  by (simp add: sample_heap_def del: exec_calls.simps exec_call.simps list_rep_simp) blast

text \<open>
  What \<open>mmbuf_list_clear\<close> needs of a release callback other than \<open>mmosal_free\<close>: it takes the buffer it
  is given out of use and touches no other.
\<close>

definition frees_buffer :: "(nat \<Rightarrow> nat \<Rightarrow> mmbuf_heap \<Rightarrow> mmbuf_heap) \<Rightarrow> bool" where
  "frees_buffer backend \<longleftrightarrow> (\<forall>k p h. backend k p h = h(p := None))"

definition releasable :: "mmbuf_heap \<Rightarrow> nat \<Rightarrow> bool" where
  "releasable h p \<longleftrightarrow> (case h p of None \<Rightarrow> False
     | Some b \<Rightarrow> (case ops b of None \<Rightarrow> False | Some oo \<Rightarrow> free_mmbuf oo \<noteq> None))"

lemma mmbuf_release_ok:
  "frees_buffer backend \<Longrightarrow> releasable h p \<Longrightarrow> mmbuf_release backend h (Some p) = Inr (h(p := None))"
  by (auto simp: frees_buffer_def releasable_def mmbuf_release_def free_call_def
      split: option.splits free_fn.splits)

lemma releasable_upd [simp]: "q \<noteq> p \<Longrightarrow> releasable (h(q := x)) p = releasable h p"
  by (simp add: releasable_def)

lemma clear_loop_ok:
  assumes "frees_buffer backend"
  shows "\<lbrakk>path h (Some a) (a # as) None; h a = Some b; \<forall>p \<in> set (a # as). releasable h p\<rbrakk> \<Longrightarrow>
    clear_loop backend h (Some a) (next_buf b) = Some (Inr (h |` (- set (a # as))))"
proof (induction as arbitrary: h a b)
  case Nil
  then have "clear_loop backend h (Some a) (next_buf b) = Some (Inr (h(a := None)))"
    by (subst clear_loop.simps)
      (simp add: mmbuf_release_ok [OF assms] path_None clear_loop.simps)
  then show ?case by (simp add: restrict_map_def fun_upd_def fun_eq_iff)
next
  case (Cons c as)
  let ?h = "h(a := None)"
  from Cons.prems(1) have "a \<notin> set (c # as)" using path_distinct [OF Cons.prems(1)] by simp
  then have notin: "a \<noteq> c" "a \<notin> set as" by auto
  from Cons.prems(1,2) obtain d where d: "next_buf b = Some c" "h c = Some d" "path h (next_buf d) as None"
    by auto
  have "clear_loop backend h (Some a) (next_buf b) = clear_loop backend ?h (Some c) (next_buf d)"
    using Cons.prems(3) notin d by (subst clear_loop.simps) (simp add: mmbuf_release_ok [OF assms])
  also have "\<dots> = Some (Inr (?h |` (- set (c # as))))"
  proof (rule Cons.IH)
    show "path ?h (Some c) (c # as) None" using notin d by simp
    show "?h c = Some d" using notin d by simp
    show "\<forall>p \<in> set (c # as). releasable ?h p" using Cons.prems(3) notin by (auto intro: releasable_upd [THEN iffD2])
  qed
  also have "?h |` (- set (c # as)) = h |` (- set (a # c # as))"
    by (auto simp: restrict_map_def fun_eq_iff)
  finally show ?case .
qed

text \<open>
  \<open>mmbuf_list_clear\<close> of a well-formed list whose buffers all carry a release function returns,
  never reads a buffer it has released, releases every buffer of the list once and no other, and
  leaves the empty list.
\<close>

theorem mmbuf_list_clear_ok:
  assumes "frees_buffer backend" and "list_rep (h, l) ps" and "\<forall>p \<in> set ps. releasable h p"
  shows "mmbuf_list_clear backend (h, l) = Some (Inr (h |` (- set ps), mmbuf_list_init))"
proof (cases ps)
  case Nil
  with assms(2) have "l = mmbuf_list_init" by (simp add: mmbuf_list_init_def)
  with Nil show ?thesis by (simp add: mmbuf_list_clear_def mmbuf_list_init_def restrict_map_def)
next
  case (Cons a as)
  with assms(2) obtain b where b: "head l = Some a" "h a = Some b" "path h (Some a) (a # as) None" by auto
  with clear_loop_ok [OF assms(1), of h a as b] assms(3) Cons show ?thesis
    by (simp add: mmbuf_list_clear_def mmbuf_list_init_def del: path.simps)
qed

lemma mmbuf_list_clear_ok_witness:
  "mmbuf_list_clear (\<lambda>k p h. h(p := None))
     ([0 \<mapsto> sample_mmbuf\<lparr>next_buf := Some 1\<rparr>, 1 \<mapsto> sample_mmbuf\<lparr>next_buf := None\<rparr>, 5 \<mapsto> sample_mmbuf],
      \<lparr>head = Some 0, tail = Some 1, list_len = 2\<rparr>)
   = Some (Inr ([5 \<mapsto> sample_mmbuf], mmbuf_list_init))"
proof -
  let ?h = "[0 \<mapsto> sample_mmbuf\<lparr>next_buf := Some 1\<rparr>, 1 \<mapsto> sample_mmbuf\<lparr>next_buf := None\<rparr>,
    5 \<mapsto> sample_mmbuf] :: mmbuf_heap"
  have "frees_buffer (\<lambda>k p h. h(p := None))" by (simp add: frees_buffer_def)
  moreover have "list_rep (?h, \<lparr>head = Some 0, tail = Some 1, list_len = 2\<rparr>) [0, 1]" by simp
  moreover have "\<forall>p \<in> set [0, 1]. releasable ?h p" by (simp add: releasable_def sample_mmbuf_def)
  ultimately have "mmbuf_list_clear (\<lambda>k p h. h(p := None)) (?h, \<lparr>head = Some 0, tail = Some 1, list_len = 2\<rparr>)
      = Some (Inr (?h |` (- set [0, 1]), mmbuf_list_init))"
    by (rule mmbuf_list_clear_ok)
  moreover have "?h |` (- set [0, 1]) = [5 \<mapsto> sample_mmbuf]"
    by (auto simp: restrict_map_def fun_eq_iff)
  ultimately show ?thesis by simp
qed

text \<open>Following \<open>next\<close> from what \<open>mmbuf_list_dequeue_all\<close> returns visits the former list in order.\<close>

lemma mmbuf_list_dequeue_all_ok:
  assumes "list_rep (h, l) ps"
  shows "\<exists>p. mmbuf_list_dequeue_all (h, l) = (p, (h, mmbuf_list_init)) \<and> path h p ps None"
  using assms by (simp add: mmbuf_list_dequeue_all_def mmbuf_list_init_def)

end
