(* ===== verification/Pktmem_Safety.thy ===== *)
theory Pktmem_Safety
  imports Pktmem Mmbuf_List
begin

text \<open>
  The properties of the packet memory manager under arbitrary sequences of calls. The command pool's
  list is any list with the contract of Packet_List; the repository's own linked lists (Mmbuf_List)
  keep that contract, which is where the witnesses take their list from.
\<close>

interpretation pl: pktmem_lists list_rep buffers mmbuf_list_append mmbuf_list_dequeue
  by unfold_locales

definition pool_lists :: list_state where
  "pool_lists = (sample_heap, mmbuf_list_init)"

lemma pool_lists_ok: "list_rep pool_lists []" "\<forall>b < 2. buffers pool_lists b \<noteq> None"
  by (simp_all add: pool_lists_def mmbuf_list_init_def sample_heap_def)

lemma lists_of_fifo: "packet_fifo rep blocks app deq \<Longrightarrow> pktmem_lists rep blocks app deq"
  by (simp add: pktmem_lists_def)

text \<open>
  A request whose sum wraps at 32 bits passes the check of \<open>mmpkt_init_buf\<close>; the metadata is then cleared far
  behind the block.
\<close>

lemma init_buf_leaves_block:
  assumes "length m = 256"
  shows "mmpkt_init_buf m 256 0 0xFFFFFF00 0x100 o_ops = Inl Out_of_bounds"
proof -
  have "mm_fast_round_up (0 + 0xFFFFFF00) 4 = (0xFFFFFF00 :: u32)" "mm_fast_round_up 0x100 4 = (0x100 :: u32)"
    by (simp_all add: word_unat_eq_iff unat_round_up_4)
  then show ?thesis using assms unfolding mmpkt_init_buf_def pkt_header_size
    by (simp add: u32_less_iff mem_write_def Let_def)
qed

context pktmem_lists
begin

lemma wrapping_request:
  assumes ok: "pktmem_ok rep blocks st" and b: "b < 2" "clients st (Cmd_block b) = None"
  shows "pkt_call_run app deq heap st (Alloc_tx MMHAL_WLAN_PKT_COMMAND 0 0xFFFFFF00 0x100) = Inl Out_of_bounds"
proof -
  obtain xs where xs: "rep (tx_command_pool_free_list st) xs" "set xs \<subseteq> {..<2}"
      "\<forall>b. clients st (Cmd_block b) \<noteq> None \<longleftrightarrow> b < 2 \<and> b \<notin> set xs"
    and mem: "\<forall>b < 2. length (tx_command_pool st b) = 256"
    using ok by (auto simp: pktmem_ok_def command_ok_def)
  from xs(3) b have "b \<in> set xs" by blast
  then obtain c ys where c: "xs = c # ys" "c < 2" using xs(2) by (cases xs) auto
  obtain l where "deq (tx_command_pool_free_list st) = Inr (Some c, l)"
    using dequeue_cons xs(1) c(1) by blast
  with init_buf_leaves_block mem c(2) show ?thesis
    by (simp add: mmhal_wlan_alloc_mmpkt_for_tx_def command_pool_alloc_def alloc_pkt_from_list_def pool_sizes)
qed

end


text \<open>
  C4: In every reachable state the transmit counter is the number of data-pool packets in the hands of
  clients and at most 20, the receive counter likewise and at most 23; the transmit path is paused
  at 20 packets and stays so down to 18; the client saw every change of that state, in order; and
  only the two command blocks are ever handed out as such.
\<close>

theorem pktmem_invariant:
  assumes "packet_fifo rep blocks app deq" "rep l0 []" "\<forall>b < 2. blocks l0 b \<noteq> None"
    and "pktmem_reach app deq l0 st"
  shows "int (card (owned_by (clients st) Tx_data_pool_pkt_free)) = tx_data_pool_allocated st \<and>
    tx_data_pool_allocated st \<le> 20 \<and>
    int (card (owned_by (clients st) Rx_pkt_free)) = rx_pool_allocated st \<and> rx_pool_allocated st \<le> 23 \<and>
    (tx_data_pool_allocated st = 20 \<longrightarrow> mmhal_wlan_pktmem_tx_flow_control_state st = MMWLAN_TX_PAUSED) \<and>
    (tx_data_pool_allocated st < 18 \<longrightarrow> mmhal_wlan_pktmem_tx_flow_control_state st = MMWLAN_TX_READY) \<and>
    last (MMWLAN_TX_READY # cb_log st) = mmhal_wlan_pktmem_tx_flow_control_state st \<and>
    successively (\<noteq>) (MMWLAN_TX_READY # cb_log st) \<and>
    (\<forall>b. clients st (Cmd_block b) \<noteq> None \<longrightarrow> b < 2)"
  using pktmem_lists.reach_ok [OF lists_of_fifo [OF assms(1)] assms(4,2,3)]
  unfolding pktmem_ok_def counted_def flow_ok_def command_ok_def mmhal_wlan_pktmem_tx_flow_control_state_def
  by auto

definition sample_heap_alloc :: heap_fn where
  "sample_heap_alloc s e ms =
     Some (5, mmpkt_init (replicate 64 0) 28 36 s (Some \<lparr>free_mmpkt = Some (Library_free 0)\<rparr>))"

lemma init_clients:
  "mmhal_wlan_pktmem_init app l0 = Inr st \<Longrightarrow> clients st = (\<lambda>_. None) \<and> tx_data_pool_allocated st = 0"
  by (cases "enqueue_all app l0 [0 ..< TX_COMMAND_POOL_N_BLOCKS]") (auto simp: mmhal_wlan_pktmem_init_def)

lemma pool_reach: "\<exists>st. mmhal_wlan_pktmem_init mmbuf_list_append pool_lists = Inr st \<and>
    pktmem_reach mmbuf_list_append mmbuf_list_dequeue pool_lists st \<and> clients st = (\<lambda>_. None)"
proof -
  obtain st where st: "mmhal_wlan_pktmem_init mmbuf_list_append pool_lists = Inr st"
    using pl.init_ok [OF pool_lists_ok] by blast
  have "pktmem_reach mmbuf_list_append mmbuf_list_dequeue pool_lists st" by (rule reach_init [OF st])
  then show ?thesis using st init_clients [OF st] by blast
qed

lemma sample_heap_contract: "clients st = (\<lambda>_. None) \<Longrightarrow> heap_contract sample_heap_alloc st"
  by (auto simp: heap_contract_def sample_heap_alloc_def mmpkt_init_def)


lemma pktmem_invariant_witness:
  "\<exists>st r st'. mmhal_wlan_pktmem_init mmbuf_list_append pool_lists = Inr st \<and>
     pkt_call_run mmbuf_list_append mmbuf_list_dequeue sample_heap_alloc st (Alloc_tx 0 40 100 16) = Inr (r, st') \<and>
     int (card (owned_by (clients st') Tx_data_pool_pkt_free)) = tx_data_pool_allocated st' \<and>
     tx_data_pool_allocated st' = 1"
proof -
  obtain st where st: "mmhal_wlan_pktmem_init mmbuf_list_append pool_lists = Inr st"
      "pktmem_reach mmbuf_list_append mmbuf_list_dequeue pool_lists st" "clients st = (\<lambda>_. None)"
    using pool_reach by blast
  have zero: "tx_data_pool_allocated st = 0" using init_clients [OF st(1)] by simp
  let ?c = "Alloc_tx 0 40 100 16"
  have valid: "pkt_call_valid st ?c" by (simp add: small_request_def)
  obtain r st' where run: "pkt_call_run mmbuf_list_append mmbuf_list_dequeue sample_heap_alloc st ?c = Inr (r, st')"
    using pl.call_ok [OF pl.reach_ok [OF st(2) pool_lists_ok] sample_heap_contract [OF st(3)] valid] by blast
  then have "pktmem_reach mmbuf_list_append mmbuf_list_dequeue pool_lists st'"
    by (rule reach_call [OF st(2) sample_heap_contract [OF st(3)] valid])
  note inv = pktmem_invariant [OF ml.packet_fifo_axioms pool_lists_ok this]
  have "tx_data_pool_allocated st' = 1"
    using run zero by (auto simp: mmhal_wlan_alloc_mmpkt_for_tx_def tx_data_alloc_def sample_heap_alloc_def
        MMHAL_WLAN_PKT_COMMAND_def pool_sizes Let_def tx_flow_control_cb_def split: if_splits)
  with inv run st(1) show ?thesis by blast
qed

end
