(* ===== verification/Pktmem_Conc.thy ===== *)
theory Pktmem_Conc
  imports Pktmem
begin

text \<open>
  The transmit data pool of mmpktmem_heap.c under concurrency. Each step is one access of one thread to
  shared state: an atomic read-modify-write of the counter or the pause flag, a read of the counter, a
  call of the allocator, of \<open>mmosal_free\<close> or of the flow-control callback. Any number of threads
  allocate and free in any interleaving; a thread frees only packets that clients hold. The callback
  is taken to read the flow-control state, as the driver does through
  \<open>mmhal_wlan_pktmem_tx_flow_control_state\<close>; \<open>reported\<close> is what it saw last.
\<close>

section \<open>Steps\<close>

datatype pc =
    Idle
  | A_old int          \<comment> \<open>alloc: after atomic_fetch_add, with the old value\<close>
  | A_undo             \<comment> \<open>alloc: about to atomic_fetch_sub and return NULL\<close>
  | A_heap             \<comment> \<open>alloc: about to call mmpkt_alloc_on_heap\<close>
  | A_check nat        \<comment> \<open>alloc: about to compare the counter with the pause threshold\<close>
  | A_pause nat        \<comment> \<open>alloc: about to exchange the pause flag\<close>
  | A_cb nat           \<comment> \<open>alloc: about to call the callback\<close>
  | A_ret nat          \<comment> \<open>alloc: about to return the packet\<close>
  | F_assert int nat   \<comment> \<open>free: after atomic_fetch_sub, with the old value\<close>
  | F_free nat         \<comment> \<open>free: about to call mmosal_free\<close>
  | F_check            \<comment> \<open>free: about to compare the counter with the unpause threshold\<close>
  | F_resume           \<comment> \<open>free: about to exchange the pause flag\<close>
  | F_cb               \<comment> \<open>free: about to call the callback\<close>
  | Failed             \<comment> \<open>MMOSAL_ASSERT(old_value > 0) fired\<close>

record conc =
  allocated :: int
  paused :: bool
  reported :: bool
  held :: "nat list"
  pcs :: "pc list"

definition conc_init :: "nat \<Rightarrow> conc" where
  "conc_init threads =
     \<lparr>allocated = 0, paused = False, reported = False, held = [], pcs = replicate threads Idle\<rparr>"

inductive conc_step :: "conc \<Rightarrow> conc \<Rightarrow> bool" where
  alloc_add: "\<lbrakk>i < length (pcs s); pcs s ! i = Idle\<rbrakk> \<Longrightarrow>
    conc_step s (s\<lparr>allocated := allocated s + 1, pcs := (pcs s)[i := A_old (allocated s)]\<rparr>)"
| alloc_full: "\<lbrakk>i < length (pcs s); pcs s ! i = A_old v; v \<ge> MMPKTMEM_TX_POOL_N_BLOCKS\<rbrakk> \<Longrightarrow>
    conc_step s (s\<lparr>pcs := (pcs s)[i := A_undo]\<rparr>)"
| alloc_room: "\<lbrakk>i < length (pcs s); pcs s ! i = A_old v; \<not> v \<ge> MMPKTMEM_TX_POOL_N_BLOCKS\<rbrakk> \<Longrightarrow>
    conc_step s (s\<lparr>pcs := (pcs s)[i := A_heap]\<rparr>)"
| alloc_undo: "\<lbrakk>i < length (pcs s); pcs s ! i = A_undo\<rbrakk> \<Longrightarrow>
    conc_step s (s\<lparr>allocated := allocated s - 1, pcs := (pcs s)[i := Idle]\<rparr>)"
| alloc_no_memory: "\<lbrakk>i < length (pcs s); pcs s ! i = A_heap\<rbrakk> \<Longrightarrow>
    conc_step s (s\<lparr>pcs := (pcs s)[i := A_undo]\<rparr>)"
| alloc_memory: "\<lbrakk>i < length (pcs s); pcs s ! i = A_heap; p \<notin> set (held s)\<rbrakk> \<Longrightarrow>
    conc_step s (s\<lparr>pcs := (pcs s)[i := A_check p]\<rparr>)"
| alloc_check: "\<lbrakk>i < length (pcs s); pcs s ! i = A_check p\<rbrakk> \<Longrightarrow>
    conc_step s (s\<lparr>pcs := (pcs s)[i :=
      if allocated s > TX_DATA_POOL_PAUSE_THRESHOLD then A_pause p else A_ret p]\<rparr>)"
| alloc_pause: "\<lbrakk>i < length (pcs s); pcs s ! i = A_pause p\<rbrakk> \<Longrightarrow>
    conc_step s (s\<lparr>paused := True, pcs := (pcs s)[i := if \<not> paused s then A_cb p else A_ret p]\<rparr>)"
| alloc_cb: "\<lbrakk>i < length (pcs s); pcs s ! i = A_cb p\<rbrakk> \<Longrightarrow>
    conc_step s (s\<lparr>reported := paused s, pcs := (pcs s)[i := A_ret p]\<rparr>)"
| alloc_return: "\<lbrakk>i < length (pcs s); pcs s ! i = A_ret p\<rbrakk> \<Longrightarrow>
    conc_step s (s\<lparr>held := p # held s, pcs := (pcs s)[i := Idle]\<rparr>)"
| free_sub: "\<lbrakk>i < length (pcs s); pcs s ! i = Idle; p \<in> set (held s)\<rbrakk> \<Longrightarrow>
    conc_step s (s\<lparr>allocated := allocated s - 1, held := remove1 p (held s),
                   pcs := (pcs s)[i := F_assert (allocated s) p]\<rparr>)"
| free_assert: "\<lbrakk>i < length (pcs s); pcs s ! i = F_assert v p\<rbrakk> \<Longrightarrow>
    conc_step s (s\<lparr>pcs := (pcs s)[i := if v > 0 then F_free p else Failed]\<rparr>)"
| free_free: "\<lbrakk>i < length (pcs s); pcs s ! i = F_free p\<rbrakk> \<Longrightarrow>
    conc_step s (s\<lparr>pcs := (pcs s)[i := F_check]\<rparr>)"
| free_check: "\<lbrakk>i < length (pcs s); pcs s ! i = F_check\<rbrakk> \<Longrightarrow>
    conc_step s (s\<lparr>pcs := (pcs s)[i :=
      if allocated s < TX_DATA_POOL_UNPAUSE_THRESHOLD then F_resume else Idle]\<rparr>)"
| free_resume: "\<lbrakk>i < length (pcs s); pcs s ! i = F_resume\<rbrakk> \<Longrightarrow>
    conc_step s (s\<lparr>paused := False, pcs := (pcs s)[i := if paused s then F_cb else Idle]\<rparr>)"
| free_cb: "\<lbrakk>i < length (pcs s); pcs s ! i = F_cb\<rbrakk> \<Longrightarrow>
    conc_step s (s\<lparr>reported := paused s, pcs := (pcs s)[i := Idle]\<rparr>)"

inductive conc_reach :: "nat \<Rightarrow> conc \<Rightarrow> bool" for threads where
  reach_start: "conc_reach threads (conc_init threads)"
| reach_next: "\<lbrakk>conc_reach threads s; conc_step s s'\<rbrakk> \<Longrightarrow> conc_reach threads s'"

section \<open>Counting threads\<close>

text \<open>
  What a thread contributes to the counter, to the packets it was granted (it saw a counter below the
  limit and may still get memory), and to the packets that exist.
\<close>

fun weight :: "pc \<Rightarrow> int" where
  "weight (A_old v) = 1" | "weight A_undo = 1" | "weight A_heap = 1" | "weight (A_check p) = 1"
| "weight (A_pause p) = 1" | "weight (A_cb p) = 1" | "weight (A_ret p) = 1" | "weight _ = 0"

fun granted :: "pc \<Rightarrow> int" where
  "granted (A_old v) = (if v < 20 then 1 else 0)" | "granted A_heap = 1" | "granted (A_check p) = 1"
| "granted (A_pause p) = 1" | "granted (A_cb p) = 1" | "granted (A_ret p) = 1" | "granted _ = 0"

fun has_packet :: "pc \<Rightarrow> int" where
  "has_packet (A_check p) = 1" | "has_packet (A_pause p) = 1" | "has_packet (A_cb p) = 1"
| "has_packet (A_ret p) = 1" | "has_packet _ = 0"

fun will_check :: "pc \<Rightarrow> int" where
  "will_check (F_assert v p) = 1" | "will_check (F_free p) = 1" | "will_check F_check = 1"
| "will_check F_resume = 1" | "will_check _ = 0"

fun will_report :: "pc \<Rightarrow> int" where
  "will_report (A_cb p) = 1" | "will_report F_cb = 1" | "will_report _ = 0"

definition total :: "(pc \<Rightarrow> int) \<Rightarrow> pc list \<Rightarrow> int" where
  "total f xs = sum_list (map f xs)"

lemma total_update: "i < length xs \<Longrightarrow> total f (xs[i := x]) = total f xs - f (xs ! i) + f x"
  by (induction xs arbitrary: i) (auto simp: total_def split: nat.splits)

lemma total_replicate [simp]: "total f (replicate n x) = int n * f x"
  by (induction n) (simp_all add: total_def algebra_simps)

lemma total_mono: "(\<And>x. f x \<le> g x) \<Longrightarrow> total f xs \<le> total g xs"
  by (induction xs) (auto simp: total_def intro: add_mono)

lemma total_le_length: "(\<And>x. f x \<le> 1) \<Longrightarrow> total f xs \<le> int (length xs)"
  by (induction xs) (auto simp: total_def intro: order_trans [OF add_mono])

lemma total_nonneg: "(\<And>x. 0 \<le> f x) \<Longrightarrow> 0 \<le> total f xs"
  by (induction xs) (auto simp: total_def)

lemma total_diff: "total (\<lambda>x. f x - g x) xs = total f xs - total g xs"
  by (induction xs) (auto simp: total_def)

lemma granted_le: "granted x \<le> weight x" and has_le: "has_packet x \<le> granted x"
  and has_nonneg: "0 \<le> has_packet x" and weight_bounds: "0 \<le> weight x" "weight x \<le> 1"
  by (cases x; simp)+

lemma pending_nonneg: "0 \<le> will_check x" "0 \<le> will_report x"
  by (cases x; simp)+

section \<open>The invariant\<close>

fun pc_ok :: "pc \<Rightarrow> bool" where
  "pc_ok Failed = False"
| "pc_ok (F_assert v p) = (v > 0)"
| "pc_ok _ = True"

definition pcs_ok :: "pc list \<Rightarrow> bool" where
  "pcs_ok xs \<longleftrightarrow> (\<forall>x \<in> set xs. pc_ok x)"

definition conc_inv :: "conc \<Rightarrow> bool" where
  "conc_inv s \<longleftrightarrow>
     allocated s = int (length (held s)) + total weight (pcs s) \<and>
     int (length (held s)) + total granted (pcs s) \<le> 20 \<and>
     pcs_ok (pcs s) \<and>
     (reported s = paused s \<or> 0 < total will_report (pcs s)) \<and>
     (length (pcs s) \<le> 18 \<longrightarrow> paused s \<longrightarrow>
        0 < int (length (held s)) + total has_packet (pcs s) + total will_check (pcs s))"

lemma held_le_allocated:
  "conc_inv s \<Longrightarrow> int (length (held s)) + total granted (pcs s) \<le> allocated s"
  using total_mono [of granted weight "pcs s", OF granted_le] by (simp add: conc_inv_def)

text \<open>A thread that finds the counter at 18 or more, with at most 17 others, leaves a packet behind.\<close>

lemma packet_remains:
  assumes inv: "conc_inv s" and i: "i < length (pcs s)" "weight (pcs s ! i) = 0"
    and T: "length (pcs s) \<le> 18" and n: "18 \<le> allocated s"
  shows "0 < int (length (held s)) + total has_packet (pcs s)"
proof -
  let ?d = "\<lambda>x. weight x - has_packet x"
  have "?d x \<le> 1" for x using weight_bounds(2) [of x] has_nonneg [of x] by linarith
  then have "total ?d ((pcs s)[i := A_undo]) \<le> int (length (pcs s))"
    using total_le_length [of ?d "(pcs s)[i := A_undo]"] by simp
  moreover have "?d (pcs s ! i) = 0"
    using i(2) has_nonneg [of "pcs s ! i"] has_le [of "pcs s ! i"] granted_le [of "pcs s ! i"] by linarith
  ultimately have "total ?d (pcs s) + 1 \<le> 18"
    using T by (simp add: total_update i(1))
  then show ?thesis using inv n by (simp add: conc_inv_def total_diff)
qed

lemma pc_ok_update [simp]:
  "pcs_ok xs \<Longrightarrow> pc_ok y \<Longrightarrow> pcs_ok (xs[i := y])"
  using set_update_subset_insert [of xs i y] by (auto simp: pcs_ok_def)

lemma totals_nonneg:
  "0 \<le> total weight xs" "0 \<le> total has_packet xs" "0 \<le> total will_check xs" "0 \<le> total will_report xs"
  by (auto intro: total_nonneg weight_bounds has_nonneg pending_nonneg)

lemma length_remove1_int: "p \<in> set xs \<Longrightarrow> int (length (remove1 p xs)) = int (length xs) - 1"
  by (cases "xs = []") (auto simp: length_remove1 of_nat_diff Suc_leI)

lemma conc_step_inv:
  assumes "conc_step s s'" "conc_inv s"
  shows "conc_inv s' \<and> length (pcs s') = length (pcs s)"
proof -
  note inv = assms(2) [unfolded conc_inv_def]
  note nonneg = totals_nonneg [of "pcs s"]
  from assms(1) show ?thesis
  proof cases
    case (free_check i)
    show ?thesis
    proof (cases "allocated s < 18")
      case True
      with free_check inv show ?thesis by (simp add: conc_inv_def total_update pool_sizes)
    next
      case False
      have "1 \<le> total will_check (pcs s)"
        using totals_nonneg(3) [of "(pcs s)[i := Idle]"] free_check by (simp add: total_update)
      moreover have "length (pcs s) \<le> 18 \<Longrightarrow> 0 < int (length (held s)) + total has_packet (pcs s)"
        using packet_remains [OF assms(2), of i] free_check False by simp
      ultimately have "length (pcs s) \<le> 18 \<longrightarrow> 0 < int (length (held s)) + total has_packet (pcs s)
          + (total will_check (pcs s) - 1)"
        by auto
      then show ?thesis
        using free_check inv False by (simp add: conc_inv_def total_update pool_sizes)
    qed
  next
    case (alloc_pause i p)
    have "1 \<le> total has_packet (pcs s)"
      using totals_nonneg(2) [of "(pcs s)[i := Idle]"] alloc_pause by (simp add: total_update)
    with alloc_pause inv nonneg show ?thesis by (auto simp: conc_inv_def total_update)
  next
    case (free_sub i p)
    have held: "1 \<le> int (length (held s))" using free_sub by (cases "held s") auto
    then have "0 < allocated s" using inv nonneg by linarith
    then have "pcs_ok ((pcs s)[i := F_assert (allocated s) p])"
      using inv by (intro pc_ok_update) simp_all
    then show ?thesis
      using free_sub inv nonneg held
      by (simp add: conc_inv_def total_update length_remove1_int)
  next
    case (alloc_add i)
    have "pc_ok (A_old (allocated s))" by simp
    with alloc_add inv held_le_allocated [OF assms(2)] show ?thesis
      by (simp add: conc_inv_def total_update)
  next
    case (free_assert i v p)
    then have "pc_ok (F_assert v p)" using inv by (metis nth_mem pcs_ok_def)
    then show ?thesis
      using free_assert inv by (simp add: conc_inv_def total_update)
  qed (use inv nonneg in \<open>auto simp: conc_inv_def total_update pool_sizes\<close>)
qed

lemma conc_init_inv: "conc_inv (conc_init n)"
  by (simp add: conc_inv_def conc_init_def pcs_ok_def)

lemma conc_reach_inv: "conc_reach n s \<Longrightarrow> conc_inv s \<and> length (pcs s) = n"
proof (induction rule: conc_reach.induct)
  case reach_start
  show ?case using conc_init_inv by (simp add: conc_init_def)
next
  case (reach_next s s')
  with conc_step_inv show ?case by auto
qed

text \<open>
  C3: In every interleaving of allocating and freeing threads, clients never hold more than 20
  data-pool packets, the counter is exactly the packets held plus the calls in progress that have
  counted themselves, it never becomes negative, and the assertion in the free function never
  fires.
\<close>

theorem conc_pool_safety:
  assumes "conc_reach n s"
  shows "length (held s) \<le> 20 \<and> allocated s = int (length (held s)) + total weight (pcs s) \<and>
    0 \<le> allocated s \<and> allocated s \<le> 20 + int n \<and> Failed \<notin> set (pcs s)"
proof -
  have inv: "conc_inv s" and n: "length (pcs s) = n" using conc_reach_inv [OF assms] by simp_all
  then have alloc: "allocated s = int (length (held s)) + total weight (pcs s)"
      "int (length (held s)) + total granted (pcs s) \<le> 20" "\<forall>x \<in> set (pcs s). pc_ok x"
    by (simp_all add: conc_inv_def pcs_ok_def)
  have "0 \<le> total granted (pcs s)"
    using total_mono [of has_packet granted "pcs s", OF has_le] totals_nonneg(2) [of "pcs s"] by simp
  moreover have "total weight (pcs s) \<le> int n"
    using total_le_length [of weight "pcs s"] weight_bounds(2) n by simp
  moreover have "Failed \<notin> set (pcs s)" using alloc(3) by fastforce
  ultimately show ?thesis using alloc totals_nonneg(1) [of "pcs s"] by linarith
qed

text \<open>
  C5: Flow control loses no wake-up: with at most 18 threads, whenever no call is in progress and
  clients have returned every packet, transmission is not paused, whatever the interleaving was. And
  whenever no call is in progress, what the client saw in its last callback is the current state.
\<close>

theorem conc_no_lost_wakeup:
  assumes "conc_reach n s" "\<forall>x \<in> set (pcs s). x = Idle"
  shows "reported s = paused s \<and> (n \<le> 18 \<longrightarrow> held s = [] \<longrightarrow> \<not> paused s)"
proof -
  have inv: "conc_inv s" and n: "length (pcs s) = n" using conc_reach_inv [OF assms(1)] by simp_all
  have "pcs s = replicate n Idle" using assms(2) n by (metis replicate_eqI)
  with inv show ?thesis by (auto simp: conc_inv_def)
qed

text \<open>A run of one allocation and its release by another thread reaches the states of the theorems.\<close>

lemma conc_alloc_run:
  assumes "conc_reach n s" "i < n" "pcs s ! i = Idle" "allocated s < 19" "7 \<notin> set (held s)" "0 \<le> allocated s"
  shows "conc_reach n (s\<lparr>allocated := allocated s + 1, held := 7 # held s\<rparr>)"
proof -
  have len: "length (pcs s) = n" using conc_reach_inv [OF assms(1)] by simp
  let ?st = "\<lambda>x. s\<lparr>allocated := allocated s + 1, pcs := (pcs s)[i := x]\<rparr>"
  have "conc_reach n (?st (A_old (allocated s)))"
    using assms len by (intro reach_next [OF assms(1)] alloc_add) simp_all
  moreover have "conc_step (?st (A_old (allocated s))) (?st A_heap)"
    using assms len alloc_room [of i "?st (A_old (allocated s))" "allocated s"] by (simp add: pool_sizes)
  moreover have "conc_step (?st A_heap) (?st (A_check 7))"
    using assms len alloc_memory [of i "?st A_heap" 7] by simp
  moreover have "conc_step (?st (A_check 7)) (?st (A_ret 7))"
    using assms len alloc_check [of i "?st (A_check 7)" 7] by (simp add: pool_sizes)
  moreover have "conc_step (?st (A_ret 7)) (s\<lparr>allocated := allocated s + 1, held := 7 # held s\<rparr>)"
    using assms len alloc_return [of i "?st (A_ret 7)" 7] list_update_id [of "pcs s" i] by simp
  ultimately show ?thesis by (blast intro: reach_next)
qed

lemma conc_pool_safety_witness:
  "conc_reach 2 ((conc_init 2)\<lparr>allocated := 1, held := [7]\<rparr>) \<and> length [7 :: nat] \<le> 20"
  using conc_alloc_run [OF reach_start, of 0 2] conc_pool_safety [of 2 "(conc_init 2)\<lparr>allocated := 1, held := [7]\<rparr>"]
  by (simp add: conc_init_def)

lemma conc_no_lost_wakeup_witness:
  "conc_reach 2 ((conc_init 2)\<lparr>allocated := 1, held := [7]\<rparr>) \<and>
   reported ((conc_init 2)\<lparr>allocated := 1, held := [7]\<rparr>) = paused ((conc_init 2)\<lparr>allocated := 1, held := [7]\<rparr>)"
  using conc_alloc_run [OF reach_start, of 0 2]
    conc_no_lost_wakeup [of 2 "(conc_init 2)\<lparr>allocated := 1, held := [7]\<rparr>"]
  by (simp add: conc_init_def)

end
