(* ===== verification/Mmutils_Wlan.thy ===== *)
theory Mmutils_Wlan
  imports MM_Prelude
begin

text \<open>
  The information element parsers of mmutils_wlan.c. The bytes a caller passes are a list, \<open>ies_len\<close> is
  the length the caller states; a read past the list is \<open>Out_of_bounds\<close>, a loop that does not end
  is \<open>None\<close>. The offsets are 32-bit as in the code.
\<close>

section \<open>Small helpers of mmutils.h\<close>

definition MM_RSN_INFORMATION_IE_TYPE :: u8 where "MM_RSN_INFORMATION_IE_TYPE = 48"
definition MM_VENDOR_SPECIFIC_IE_TYPE :: u8 where "MM_VENDOR_SPECIFIC_IE_TYPE = 221"
definition MM_S1G_OPERATION_IE_TYPE :: u8 where "MM_S1G_OPERATION_IE_TYPE = 232"
definition MAX_PAIRWISE :: u16 where "MAX_PAIRWISE = 2"
definition MAX_AKM :: u16 where "MAX_AKM = 2"

definition mm_nibble_to_hex_char :: "u8 \<Rightarrow> u8" where
  "mm_nibble_to_hex_char nibble =
     (let nibble = nibble AND 0x0f
      in if nibble < 0x0a then 48 + nibble else 65 + nibble - 0x0a)"

definition mm_akm_suite_to_string :: "u32 \<Rightarrow> string" where
  "mm_akm_suite_to_string akm_suite_oui =
     (if akm_suite_oui = 0 then ''None''
      else if akm_suite_oui = 0x506f9a02 then ''PSK''
      else if akm_suite_oui = 0x000fac08 then ''SAE''
      else if akm_suite_oui = 0x000fac12 then ''OWE''
      else ''Other'')"

section \<open>Finding elements\<close>

partial_function (option) mm_find_ie_from_offset ::
    "u8 list \<Rightarrow> u32 \<Rightarrow> u32 \<Rightarrow> u8 \<Rightarrow> int result option" where
  "mm_find_ie_from_offset ies ies_len search_offset ie_type =
     (if search_offset + 2 \<le> ies_len then
        (case mem_get ies (unat search_offset) of
           Inl e \<Rightarrow> Some (Inl e)
         | Inr type \<Rightarrow>
        (case mem_get ies (unat (search_offset + 1)) of
           Inl e \<Rightarrow> Some (Inl e)
         | Inr len \<Rightarrow>
             if type = ie_type then
               (if search_offset + 2 + ucast len > ies_len then Some (Inr (-2))
                else Some (Inr (sint search_offset)))
             else mm_find_ie_from_offset ies ies_len (search_offset + (2 + ucast len)) ie_type))
      else Some (Inr (-1)))"

definition mm_find_ie :: "u8 list \<Rightarrow> u32 \<Rightarrow> u8 \<Rightarrow> int result option" where
  "mm_find_ie ies ies_len ie_type = mm_find_ie_from_offset ies ies_len 0 ie_type"

text \<open>\<open>ident\<close> holds at least \<open>id_len\<close> bytes; \<open>memcmp\<close> reads that many on both sides.\<close>

partial_function (option) mm_find_vendor_specific_ie_from_offset ::
    "u8 list \<Rightarrow> u32 \<Rightarrow> u32 \<Rightarrow> u8 list \<Rightarrow> u32 \<Rightarrow> int result option" where
  "mm_find_vendor_specific_ie_from_offset ies ies_len search_offset ident id_len =
     (if search_offset + id_len \<le> ies_len then
        (case mm_find_ie_from_offset ies ies_len search_offset MM_VENDOR_SPECIFIC_IE_TYPE of
           None \<Rightarrow> None
         | Some r \<Rightarrow>
        (case r of
           Inl e \<Rightarrow> Some (Inl e)
         | Inr offset \<Rightarrow>
             if offset < 0 then Some (Inr offset)
             else
               (case rbind (mem_get ies (nat offset)) (\<lambda>ie_type.
                     rbind (mem_get ies (nat offset + 1)) (\<lambda>ie_length.
                     rbind (if ie_type = MM_VENDOR_SPECIFIC_IE_TYPE \<and> unat id_len \<le> unat ie_length
                            then rbind (mem_read ident 0 (unat id_len)) (\<lambda>a.
                                 rbind (mem_read ies (nat offset + 2) (unat id_len)) (\<lambda>b. Inr (a = b)))
                            else Inr False) (\<lambda>same. Inr (ie_length, same)))) of
                  Inl e \<Rightarrow> Some (Inl e)
                | Inr x \<Rightarrow>
                    if snd x then
                      (if of_int offset + 2 + ucast (fst x) > ies_len then Some (Inr (-2))
                       else Some (Inr offset))
                    else mm_find_vendor_specific_ie_from_offset ies ies_len
                           (2 + ucast (fst x) + of_int offset) ident id_len)))
      else Some (Inr (-1)))"

definition mm_find_vendor_specific_ie :: "u8 list \<Rightarrow> u32 \<Rightarrow> u8 list \<Rightarrow> u32 \<Rightarrow> int result option" where
  "mm_find_vendor_specific_ie ies ies_len ident id_len =
     mm_find_vendor_specific_ie_from_offset ies ies_len 0 ident id_len"

section \<open>The RSN element\<close>

record mm_rsn_information =
  group_cipher_suite :: u32
  pairwise_cipher_suites :: "u32 list"
  akm_suites :: "u32 list"
  num_pairwise_cipher_suites :: u16
  num_akm_suites :: u16
  version :: u16
  rsn_capabilities :: u16

definition rsn_zero :: mm_rsn_information where
  "rsn_zero = \<lparr>group_cipher_suite = 0, pairwise_cipher_suites = [0, 0], akm_suites = [0, 0],
     num_pairwise_cipher_suites = 0, num_akm_suites = 0, version = 0, rsn_capabilities = 0\<rparr>"

text \<open>
  \<open>ies[o] | ies[o+1] << 8\<close> and \<open>ies[o] << 24 | ... | ies[o+3]\<close>: the bytes are promoted to \<open>int\<close>, and
  the result is stored in 16 and 32 bits.
\<close>

definition read_le16 :: "u8 list \<Rightarrow> nat \<Rightarrow> u16 result" where
  "read_le16 m off =
     rbind (mem_get m off) (\<lambda>a. rbind (mem_get m (off + 1)) (\<lambda>b.
       Inr (ucast ((ucast a :: u32) OR push_bit 8 (ucast b)))))"

definition read_be32 :: "u8 list \<Rightarrow> nat \<Rightarrow> u32 result" where
  "read_be32 m off =
     rbind (mem_get m off) (\<lambda>a. rbind (mem_get m (off + 1)) (\<lambda>b.
     rbind (mem_get m (off + 2)) (\<lambda>c. rbind (mem_get m (off + 3)) (\<lambda>d.
       Inr (push_bit 24 (ucast a) OR push_bit 16 (ucast b) OR push_bit 8 (ucast c) OR ucast d)))))"

text \<open>
  The loop over the suites of one list: the count on the wire drives it, and only the first
  \<open>stored\<close> suites are written to the array. \<open>len\<close> is the 8-bit count of remaining bytes.
\<close>

primrec suite_loop ::
    "nat \<Rightarrow> u8 list \<Rightarrow> u16 \<Rightarrow> nat \<Rightarrow> u32 list \<Rightarrow> nat \<Rightarrow> u8 \<Rightarrow> (u32 list \<times> nat \<times> u8) result" where
  "suite_loop 0 m stored ii arr off len = Inr (arr, off, len)"
| "suite_loop (Suc k) m stored ii arr off len =
     rbind (if ii < unat stored
            then rbind (read_be32 m off) (\<lambda>v.
                   if ii < length arr then Inr (arr[ii := v]) else Inl Out_of_bounds)
            else Inr arr) (\<lambda>arr1. suite_loop k m stored (ii + 1) arr1 (off + 4) (len - 4))"

definition clamp_suites :: "u16 \<Rightarrow> u16 \<Rightarrow> u16" where
  "clamp_suites num limit = (if num > limit then limit else num)"

text \<open>Everything behind the length check, from the version field on; the result carries the return value.\<close>

definition parse_rsn_akm ::
    "u8 list \<Rightarrow> mm_rsn_information \<Rightarrow> nat \<Rightarrow> u8 \<Rightarrow> (int \<times> mm_rsn_information) result" where
  "parse_rsn_akm ies output offset len =
     rbind (read_le16 ies offset) (\<lambda>num.
       let offset = offset + 2; len = len - 2;
           output = output\<lparr>num_akm_suites := clamp_suites num MAX_AKM\<rparr>
       in if unat len < 4 * unat num + 2 then Inr (-2, output)
          else rbind (suite_loop (unat num) ies (num_akm_suites output) 0 (akm_suites output) offset len)
                 (\<lambda>(arr, offset, len).
                 rbind (read_le16 ies offset) (\<lambda>caps.
                   Inr (0, output\<lparr>akm_suites := arr, rsn_capabilities := caps\<rparr>))))"

definition parse_rsn_body ::
    "u8 list \<Rightarrow> mm_rsn_information \<Rightarrow> nat \<Rightarrow> u8 \<Rightarrow> (int \<times> mm_rsn_information) result" where
  "parse_rsn_body ies output offset len =
     rbind (read_le16 ies offset) (\<lambda>ver.
       let output = output\<lparr>version := ver\<rparr>; offset = offset + 2; len = len - 2
       in rbind (read_be32 ies offset) (\<lambda>grp.
          let output = output\<lparr>group_cipher_suite := grp\<rparr>; offset = offset + 4; len = len - 4
          in rbind (read_le16 ies offset) (\<lambda>num.
             let offset = offset + 2; len = len - 2;
                 output = output\<lparr>num_pairwise_cipher_suites := clamp_suites num MAX_PAIRWISE\<rparr>
             in if unat len < 4 * unat num + 2 then Inr (-2, output)
                else rbind (suite_loop (unat num) ies (num_pairwise_cipher_suites output) 0
                              (pairwise_cipher_suites output) offset len) (\<lambda>(arr, offset, len).
                       parse_rsn_akm ies (output\<lparr>pairwise_cipher_suites := arr\<rparr>) offset len))))"

definition mm_parse_rsn_information ::
    "u8 list \<Rightarrow> u32 \<Rightarrow> (int \<times> mm_rsn_information) result option" where
  "mm_parse_rsn_information ies ies_len =
     obind (mm_find_ie ies ies_len MM_RSN_INFORMATION_IE_TYPE) (\<lambda>offset.
       if offset < 0 then Some (Inr (offset, rsn_zero))
       else Some (rbind (mem_get ies (nat offset + 1)) (\<lambda>len.
              if len < 8 then Inr (-2, rsn_zero)
              else parse_rsn_body ies rsn_zero (nat offset + 2) len)))"

section \<open>The S1G Operation element\<close>

record mm_s1g_operation =
  operating_class :: u8
  operating_channel_width_mhz :: u8
  primary_channel_width_mhz :: u8
  operating_channel_number :: u8
  primary_channel_number :: u8

text \<open>The packed structure: type, length, width, class, primary channel, centre channel, two MCS bytes.\<close>

definition mm_parse_s1g_operation ::
    "u8 list \<Rightarrow> u32 \<Rightarrow> mm_s1g_operation \<Rightarrow> (int \<times> mm_s1g_operation) result option" where
  "mm_parse_s1g_operation ies ies_len output =
     obind (mm_find_ie ies ies_len MM_S1G_OPERATION_IE_TYPE) (\<lambda>offset.
       if offset < 0 then Some (Inr (offset, output))
       else Some (
         rbind (mem_get ies (nat offset + 1)) (\<lambda>len.
           if (8 :: u32) > ucast len + 2 then Inr (-2, output)
           else
             rbind (mem_get ies (nat offset + 3)) (\<lambda>cls.
             rbind (mem_get ies (nat offset + 5)) (\<lambda>center.
             rbind (mem_get ies (nat offset + 2)) (\<lambda>width.
             rbind (mem_get ies (nat offset + 4)) (\<lambda>primary.
               Inr (0, output\<lparr>
                 operating_class := cls,
                 operating_channel_number := center,
                 operating_channel_width_mhz := (drop_bit 1 width AND 0x0f) + 1,
                 primary_channel_number := primary,
                 primary_channel_width_mhz := 2 - (width AND 0x01)\<rparr>))))))))"

section \<open>Reference: the elements of a buffer\<close>

text \<open>
  The elements of a byte string, each with its offset, type and stated length. The last one may be
  truncated; a lone trailing byte is no element.
\<close>

fun elements :: "nat \<Rightarrow> u8 list \<Rightarrow> (nat \<times> u8 \<times> nat) list" where
  "elements off (t # l # rest) = (off, t, unat l) # elements (off + 2 + unat l) (drop (unat l) rest)"
| "elements off _ = []"

definition first_of_type :: "u8 \<Rightarrow> (nat \<times> u8 \<times> nat) list \<Rightarrow> (nat \<times> nat) option" where
  "first_of_type t es = map_option (\<lambda>(off, ty, l). (off, l)) (find (\<lambda>(off, ty, l). ty = t) es)"

text \<open>What the header promises of \<open>mm_find_ie\<close>: the offset of the first match, -1 or -2.\<close>

definition find_result :: "nat \<Rightarrow> (nat \<times> nat) option \<Rightarrow> int" where
  "find_result len m =
     (case m of None \<Rightarrow> -1 | Some (off, l) \<Rightarrow> if off + 2 + l \<le> len then int off else -2)"

lemma first_of_type_Nil [simp]: "first_of_type t [] = None"
  by (simp add: first_of_type_def)

lemma first_of_type_Cons [simp]:
  "first_of_type t ((off, ty, l) # es) = (if ty = t then Some (off, l) else first_of_type t es)"
  by (simp add: first_of_type_def)

lemma elements_short: "length bs < 2 \<Longrightarrow> elements off bs = []"
  by (cases "(off, bs)" rule: elements.cases) auto

lemma elements_at:
  assumes "off + 2 \<le> n" "n \<le> length m"
  shows "elements off (drop off (take n m)) =
    (off, m ! off, unat (m ! (off + 1))) #
    elements (off + 2 + unat (m ! (off + 1))) (drop (off + 2 + unat (m ! (off + 1))) (take n m))"
proof -
  have "drop off (take n m) = m ! off # m ! (off + 1) # drop (off + 2) (take n m)"
    using assms by (simp add: Cons_nth_drop_Suc [symmetric] numeral_2_eq_2)
  then show ?thesis by (simp add: ac_simps)
qed

text \<open>Valid arguments: the stated length is there and fits the signed return type.\<close>

definition ies_valid :: "u8 list \<Rightarrow> u32 \<Rightarrow> bool" where
  "ies_valid ies len \<longleftrightarrow> unat len \<le> length ies \<and> unat len < 2147483648"

lemma find_ie_loop:
  assumes "ies_valid ies len"
  shows "unat so \<le> unat len + 257 \<Longrightarrow>
    mm_find_ie_from_offset ies len so t
      = Some (Inr (find_result (unat len)
          (first_of_type t (elements (unat so) (drop (unat so) (take (unat len) ies))))))"
proof (induction "unat len + 257 - unat so" arbitrary: so rule: less_induct)
  case less
  have len: "unat len \<le> length ies" "unat len < 2147483648" using assms by (simp_all add: ies_valid_def)
  have so: "unat (so + 2) = unat so + 2" "unat (so + 1) = unat so + 1"
    using less.prems len by (simp_all add: u32_add)
  show ?case
  proof (cases "unat so + 2 \<le> unat len")
    case True
    let ?t = "ies ! unat so" and ?l = "ies ! (unat so + 1)"
    have l: "unat ?l < 256" by simp
    have add: "unat (so + 2 + ucast ?l) = unat so + 2 + unat ?l"
    proof -
      have "unat so + 2 + unat ?l < 4294967296" using True len(2) l by linarith
      then show ?thesis by (subst u32_add) (simp_all add: so)
    qed
    have el: "elements (unat so) (drop (unat so) (take (unat len) ies)) =
        (unat so, ?t, unat ?l) # elements (unat so + 2 + unat ?l)
          (drop (unat so + 2 + unat ?l) (take (unat len) ies))"
      using elements_at [OF True len(1)] .
    have "mm_find_ie_from_offset ies len so t =
        (if ?t = t then (if unat so + 2 + unat ?l > unat len then Some (Inr (-2)) else Some (Inr (int (unat so))))
         else mm_find_ie_from_offset ies len (so + 2 + ucast ?l) t)"
      using True len add by (subst mm_find_ie_from_offset.simps)
        (simp add: u32_le_iff u32_less_iff so sint_u32 add.assoc)
    also have "\<dots> = Some (Inr (find_result (unat len) (first_of_type t
        (elements (unat so) (drop (unat so) (take (unat len) ies))))))"
    proof (cases "?t = t")
      case False
      have "unat len + 257 - unat (so + 2 + ucast ?l) < unat len + 257 - unat so"
        using True add by linarith
      moreover have "unat (so + 2 + ucast ?l) \<le> unat len + 257" using True add l by linarith
      ultimately show ?thesis using False less.hyps el add by simp
    qed (simp add: el find_result_def)
    finally show ?thesis .
  next
    case False
    then have "elements (unat so) (drop (unat so) (take (unat len) ies)) = []"
      by (intro elements_short) simp
    with False show ?thesis
      by (subst mm_find_ie_from_offset.simps) (simp add: u32_le_iff so find_result_def)
  qed
qed

text \<open>Where the first element of a type is, and what precedes it.\<close>

lemma first_of_type_elements:
  "\<lbrakk>n \<le> length m; first_of_type t (elements off (drop off (take n m))) = Some (o1, l)\<rbrakk> \<Longrightarrow>
   off \<le> o1 \<and> o1 + 2 \<le> n \<and> m ! o1 = t \<and> l = unat (m ! (o1 + 1)) \<and>
   (\<exists>pre. elements off (drop off (take n m)) = pre @ elements o1 (drop o1 (take n m)) \<and>
          (\<forall>(o2, ty, l2) \<in> set pre. ty \<noteq> t))"
proof (induction "n - off" arbitrary: off rule: less_induct)
  case less
  show ?case
  proof (cases "off + 2 \<le> n")
    case True
    let ?l = "unat (m ! (off + 1))"
    note el = elements_at [OF True less.prems(1)]
    show ?thesis
    proof (cases "m ! off = t")
      case True
      then show ?thesis using less.prems(2) \<open>off + 2 \<le> n\<close> by (auto simp: el intro!: exI [of _ "[]"])
    next
      case False
      have "off + 2 + ?l \<le> o1 \<and> o1 + 2 \<le> n \<and> m ! o1 = t \<and> l = unat (m ! (o1 + 1)) \<and>
          (\<exists>pre. elements (off + 2 + ?l) (drop (off + 2 + ?l) (take n m))
             = pre @ elements o1 (drop o1 (take n m)) \<and> (\<forall>(o2, ty, l2) \<in> set pre. ty \<noteq> t))"
        using less.prems False True by (intro less.hyps) (simp_all add: el)
      then obtain pre where *: "off + 2 + ?l \<le> o1" "o1 + 2 \<le> n" "m ! o1 = t" "l = unat (m ! (o1 + 1))"
          "elements (off + 2 + ?l) (drop (off + 2 + ?l) (take n m)) = pre @ elements o1 (drop o1 (take n m))"
          "\<forall>(o2, ty, l2) \<in> set pre. ty \<noteq> t" by blast
      have "elements off (drop off (take n m)) = ((off, m ! off, ?l) # pre) @ elements o1 (drop o1 (take n m))"
        using *(5) by (simp add: el)
      moreover have "\<forall>(o2, ty, l2) \<in> set ((off, m ! off, ?l) # pre). ty \<noteq> t" using *(6) False by simp
      ultimately have "\<exists>pre. elements off (drop off (take n m)) = pre @ elements o1 (drop o1 (take n m)) \<and>
          (\<forall>(o2, ty, l2) \<in> set pre. ty \<noteq> t)" by blast
      then show ?thesis using *(1-4) by simp
    qed
  next
    case False
    then have "elements off (drop off (take n m)) = []" by (intro elements_short) simp
    with less.prems(2) show ?thesis by simp
  qed
qed

lemma elements_offset: "(o1, ty, l) \<in> set (elements off bs) \<Longrightarrow> off \<le> o1"
  by (induction off bs rule: elements.induct) auto

lemma first_of_type_None: "first_of_type t es = None \<Longrightarrow> (o1, ty, l) \<in> set es \<Longrightarrow> ty \<noteq> t"
  by (auto simp: first_of_type_def find_None_iff)

text \<open>
  \<open>ies ! off = 221\<close>, complete, and its payload starts with the identifier: the match the vendor search
  looks for.
\<close>

definition vendor_match :: "u8 list \<Rightarrow> nat \<Rightarrow> u8 list \<Rightarrow> nat \<times> u8 \<times> nat \<Rightarrow> bool" where
  "vendor_match ies n ident e \<longleftrightarrow>
     (case e of (off, ty, l) \<Rightarrow> ty = MM_VENDOR_SPECIFIC_IE_TYPE \<and> off + 2 + l \<le> n \<and>
        length ident \<le> l \<and> take (length ident) (drop (off + 2) ies) = ident)"

definition vendor_result_ok :: "int \<Rightarrow> (nat \<times> u8 \<times> nat) list \<Rightarrow> bool" where
  "vendor_result_ok r ms \<longleftrightarrow> (case ms of [] \<Rightarrow> r = -1 \<or> r = -2 | (off, ty, l) # _ \<Rightarrow> r = int off)"

lemma of_int_offset: "off < 4294967296 \<Longrightarrow> unat (of_int (int off) :: u32) = off"
  by (simp add: unat_of_nat)

lemma find_vendor_loop:
  assumes valid: "ies_valid ies len" and id: "unat id_len = length ident" "length ident < 1073741824"
  shows "unat so \<le> unat len + 257 \<Longrightarrow>
    \<exists>r. mm_find_vendor_specific_ie_from_offset ies len so ident id_len = Some (Inr r) \<and>
      vendor_result_ok r (filter (vendor_match ies (unat len) ident)
        (elements (unat so) (drop (unat so) (take (unat len) ies))))"
proof (induction "unat len + 257 - unat so" arbitrary: so rule: less_induct)
  case less
  let ?n = "unat len" and ?es = "elements (unat so) (drop (unat so) (take (unat len) ies))"
  let ?match = "vendor_match ies ?n ident"
  have len: "?n \<le> length ies" "?n < 2147483648" using valid by (simp_all add: ies_valid_def)
  have so: "unat (so + id_len) = unat so + length ident"
    using less.prems len id by (simp add: u32_add)
  show ?case
  proof (cases "unat so + length ident \<le> ?n")
    case False
    have "\<not> ?match e" if "e \<in> set ?es" for e
    proof -
      have "unat so \<le> fst e" using that elements_offset [of "fst e" "fst (snd e)" "snd (snd e)"] by simp
      with False show ?thesis by (cases e) (simp add: vendor_match_def)
    qed
    then have "filter ?match ?es = []" by (simp add: filter_empty_conv)
    with False show ?thesis
      by (subst mm_find_vendor_specific_ie_from_offset.simps)
        (simp add: u32_le_iff so vendor_result_ok_def)
  next
    case True
    note find = find_ie_loop [OF valid less.prems, of MM_VENDOR_SPECIFIC_IE_TYPE]
    show ?thesis
    proof (cases "first_of_type MM_VENDOR_SPECIFIC_IE_TYPE ?es")
      case None
      then have "filter ?match ?es = []"
        by (auto simp: filter_empty_conv vendor_match_def dest: first_of_type_None)
      with None True find show ?thesis
        by (subst mm_find_vendor_specific_ie_from_offset.simps)
          (simp add: u32_le_iff so vendor_result_ok_def find_result_def)
    next
      case (Some p)
      then obtain o1 l where p: "first_of_type MM_VENDOR_SPECIFIC_IE_TYPE ?es = Some (o1, l)"
        by (cases p) simp
      from first_of_type_elements [OF len(1) p] obtain pre where
          o1: "unat so \<le> o1" "o1 + 2 \<le> ?n" "ies ! o1 = MM_VENDOR_SPECIFIC_IE_TYPE" "l = unat (ies ! (o1 + 1))"
        and es: "?es = pre @ elements o1 (drop o1 (take ?n ies))"
        and pre: "\<forall>(o2, ty, l2) \<in> set pre. ty \<noteq> MM_VENDOR_SPECIFIC_IE_TYPE" by blast
      have l: "l < 256" using o1(4) by simp
      let ?rest = "elements (o1 + 2 + l) (drop (o1 + 2 + l) (take ?n ies))"
      have "filter ?match pre = []" using pre by (auto simp: filter_empty_conv vendor_match_def)
      then have fil: "filter ?match ?es = (if ?match (o1, MM_VENDOR_SPECIFIC_IE_TYPE, l)
          then (o1, MM_VENDOR_SPECIFIC_IE_TYPE, l) # filter ?match ?rest else filter ?match ?rest)"
        using elements_at [OF o1(2) len(1)] by (simp add: es o1(3,4))
      show ?thesis
      proof (cases "o1 + 2 + l \<le> ?n")
        case False
        then have "?rest = []" by (intro elements_short) simp
        with False fil p True find show ?thesis
          by (subst mm_find_vendor_specific_ie_from_offset.simps)
            (simp add: u32_le_iff so vendor_result_ok_def find_result_def vendor_match_def)
      next
        case complete: True
        define nxt where "nxt = (2 + ucast (ies ! Suc o1) + of_nat o1 :: u32)"
        have nx: "unat nxt = o1 + 2 + l"
        proof -
          have "unat (2 + ucast (ies ! Suc o1) :: u32) = 2 + l"
            using l o1(4) by (simp add: u32_add)
          then show ?thesis
            using complete len(2) unfolding nxt_def by (subst u32_add) simp_all
        qed
        have nx2: "2 + ucast (ies ! Suc o1) + of_nat o1 = nxt" "of_nat o1 + 2 + ucast (ies ! Suc o1) = nxt"
          by (simp_all add: nxt_def)
        let ?same = "length ident \<le> l \<and> ident = take (length ident) (drop (o1 + 2) ies)"
        have step: "mm_find_vendor_specific_ie_from_offset ies len so ident id_len =
            (if ?same then Some (Inr (int o1))
             else mm_find_vendor_specific_ie_from_offset ies len nxt ident id_len)"
          using True complete p find o1 len
          by (subst mm_find_vendor_specific_ie_from_offset.simps)
            (auto simp: u32_le_iff u32_less_iff so find_result_def id nx2 nx mem_read_def)
        show ?thesis
        proof (cases ?same)
          case True
          with fil complete step show ?thesis by (simp add: vendor_result_ok_def vendor_match_def)
        next
          case False
          then have fil': "filter ?match ?es = filter ?match ?rest" using fil by (auto simp: vendor_match_def)
          have "\<exists>r. mm_find_vendor_specific_ie_from_offset ies len nxt ident id_len = Some (Inr r) \<and>
              vendor_result_ok r (filter ?match (elements (unat nxt) (drop (unat nxt) (take ?n ies))))"
            using complete o1(1) by (intro less.hyps) (simp_all add: nx)
          with False step fil' show ?thesis by (auto simp: nx)
        qed
      qed
    qed
  qed
qed

section \<open>Properties of the search\<close>

text \<open>
  For any bytes, \<open>mm_find_ie\<close> terminates without reading outside the buffer and returns what its
  documentation says: the offset of the first element of the type, -2 if that element is cut off, -1
  if there is none.
\<close>

theorem mm_find_ie_spec:
  assumes "ies_valid ies len"
  shows "mm_find_ie ies len t = Some (Inr
    (find_result (unat len) (first_of_type t (elements 0 (take (unat len) ies)))))"
  using find_ie_loop [OF assms, of 0 t] by (simp add: mm_find_ie_def)

lemma mm_find_ie_spec_witness:
  "mm_find_ie [0, 1, 7, 48, 2, 5, 6, 221, 9, 1] 10 48 = Some (Inr 3) \<and>
   mm_find_ie [0, 1, 7, 48, 2, 5, 6, 221, 9, 1] 10 221 = Some (Inr (-2))"
proof -
  have "ies_valid [0, 1, 7, 48, 2, 5, 6, 221, 9, 1] 10" by (simp add: ies_valid_def)
  from mm_find_ie_spec [OF this] show ?thesis by (simp add: find_result_def)
qed

text \<open>
  For any bytes and identifier, the vendor-specific search terminates without reading outside
  buffer or identifier, and returns the offset of the first complete vendor-specific element whose
  payload starts with the identifier, or a negative value exactly when there is none.
\<close>

theorem mm_find_vendor_specific_ie_spec:
  assumes "ies_valid ies len" "unat id_len = length ident" "length ident < 1073741824"
  shows "\<exists>r. mm_find_vendor_specific_ie ies len ident id_len = Some (Inr r) \<and>
    vendor_result_ok r (filter (vendor_match ies (unat len) ident) (elements 0 (take (unat len) ies)))"
  using find_vendor_loop [OF assms, of 0] by (simp add: mm_find_vendor_specific_ie_def)

lemma mm_find_vendor_specific_ie_spec_witness:
  "mm_find_vendor_specific_ie [221, 3, 1, 2, 3, 0, 0, 221, 4, 9, 8, 7, 6] 13 [9, 8] 2 = Some (Inr 7)"
proof -
  let ?m = "[221, 3, 1, 2, 3, 0, 0, 221, 4, 9, 8, 7, 6] :: u8 list"
  have v: "ies_valid ?m 13" by (simp add: ies_valid_def)
  have "elements 0 (take (unat (13 :: u32)) ?m) = [(0, 221, 3), (5, 0, 0), (7, 221, 4)]" by simp
  then have "filter (vendor_match ?m (unat (13 :: u32)) [9, 8]) (elements 0 (take (unat (13 :: u32)) ?m))
      = [(7, 221, 4)]"
    by (simp add: vendor_match_def MM_VENDOR_SPECIFIC_IE_TYPE_def)
  with mm_find_vendor_specific_ie_spec [OF v, of 2 "[9, 8]"] show ?thesis
    by (auto simp: vendor_result_ok_def)
qed

section \<open>Parsing the RSN element\<close>

definition le16_at :: "u8 list \<Rightarrow> nat \<Rightarrow> u16" where
  "le16_at m off = ucast ((ucast (m ! off) :: u32) OR push_bit 8 (ucast (m ! (off + 1))))"

definition be32_at :: "u8 list \<Rightarrow> nat \<Rightarrow> u32" where
  "be32_at m off = push_bit 24 (ucast (m ! off)) OR push_bit 16 (ucast (m ! (off + 1)))
     OR push_bit 8 (ucast (m ! (off + 2))) OR ucast (m ! (off + 3))"

lemma read_in_bounds:
  "off + 2 \<le> length m \<Longrightarrow> read_le16 m off = Inr (le16_at m off)"
  "off + 4 \<le> length m \<Longrightarrow> read_be32 m off = Inr (be32_at m off)"
  by (simp_all add: read_le16_def le16_at_def read_be32_def be32_at_def)

primrec store_suites :: "nat \<Rightarrow> nat \<Rightarrow> u32 list \<Rightarrow> u32 list \<Rightarrow> u32 list" where
  "store_suites stored ii arr [] = arr"
| "store_suites stored ii arr (v # vs) =
     store_suites stored (Suc ii) (if ii < stored then arr[ii := v] else arr) vs"

lemma suite_loop_in_bounds:
  "\<lbrakk>off + 4 * k \<le> length m; unat stored \<le> length arr\<rbrakk> \<Longrightarrow>
   suite_loop k m stored ii arr off len = Inr (store_suites (unat stored) ii arr
     (map (\<lambda>j. be32_at m (off + 4 * j)) [0 ..< k]), off + 4 * k, len - of_nat (4 * k))"
proof (induction k arbitrary: ii arr off len)
  case (Suc k)
  have "map (\<lambda>j. be32_at m (off + 4 * j)) [0 ..< Suc k]
      = be32_at m off # map (\<lambda>j. be32_at m (off + 4 + 4 * j)) [0 ..< k]"
    by (simp add: upt_conv_Cons map_Suc_upt [symmetric] comp_def algebra_simps del: upt_Suc)
  then show ?case
    using Suc.prems Suc.IH [of "off + 4"] by (simp add: read_in_bounds algebra_simps)
qed simp

lemma store_suites_late: "stored \<le> ii \<Longrightarrow> store_suites stored ii arr vs = arr"
  by (induction vs arbitrary: ii arr) auto

text \<open>An array of two keeps the first two suites.\<close>

lemma store_two: "store_suites (min 2 (length vs)) 0 [0, 0] vs = take 2 (vs @ [0, 0])"
proof (cases vs)
  case (Cons v ws)
  then show ?thesis by (cases ws) (simp_all add: store_suites_late)
qed simp

lemma stored_min: "unat (if n > (2 :: u16) then 2 else n) = min 2 (unat n)"
  by (auto simp: word_less_nat_alt)

lemma u8_sub_nat: "n \<le> unat (w :: u8) \<Longrightarrow> unat (w - of_nat n) = unat w - n"
proof -
  assume n: "n \<le> unat w"
  then have "n < 256" using unat_u8_lt [of w] by linarith
  then have "unat (of_nat n :: u8) = n" by (simp add: unat_of_nat)
  with n show ?thesis by (simp add: unat_sub word_le_nat_alt)
qed

lemma u8_sub_numeral: "numeral n \<le> unat (w :: u8) \<Longrightarrow> unat (w - numeral n) = unat w - numeral n"
  using u8_sub_nat [of "numeral n" w] by simp

text \<open>
  The values the parser must deliver for an element whose payload of \<open>l\<close> bytes is at offset \<open>off\<close>:
  counts and suites as on the wire, of which two are kept, and -2 as soon as the payload is too short
  for a count.
\<close>

definition rsn_counts :: "u8 list \<Rightarrow> nat \<Rightarrow> nat \<times> nat" where
  "rsn_counts m off =
     (let np = unat (le16_at m (off + 6)) in (np, unat (le16_at m (off + 8 + 4 * np))))"

definition suites_at :: "u8 list \<Rightarrow> nat \<Rightarrow> nat \<Rightarrow> u32 list" where
  "suites_at m off k = map (\<lambda>j. be32_at m (off + 4 * j)) [0 ..< k]"

definition rsn_ok :: "u8 list \<Rightarrow> nat \<Rightarrow> nat \<Rightarrow> bool" where
  "rsn_ok m off l \<longleftrightarrow>
     (case rsn_counts m off of (np, na) \<Rightarrow> 8 + 4 * np + 2 \<le> l \<and> 8 + 4 * np + 2 + 4 * na + 2 \<le> l)"

definition rsn_value :: "u8 list \<Rightarrow> nat \<Rightarrow> mm_rsn_information" where
  "rsn_value m off =
     (case rsn_counts m off of (np, na) \<Rightarrow>
        \<lparr>group_cipher_suite = be32_at m (off + 2),
         pairwise_cipher_suites = take 2 (suites_at m (off + 8) np @ [0, 0]),
         akm_suites = take 2 (suites_at m (off + 8 + 4 * np + 2) na @ [0, 0]),
         num_pairwise_cipher_suites = of_nat (min 2 np), num_akm_suites = of_nat (min 2 na),
         version = le16_at m off,
         rsn_capabilities = le16_at m (off + 8 + 4 * np + 2 + 4 * na)\<rparr>)"

lemma clamp_two: "clamp_suites n 2 = of_nat (min 2 (unat n))"
  by (rule word_unat_eq_iff [THEN iffD2]) (simp add: clamp_suites_def word_less_nat_alt unat_of_nat min_def)

lemma suite_loop_two:
  assumes "off + 4 * unat n \<le> length m"
  shows "suite_loop (unat n) m (of_nat (min 2 (unat (n :: u16)))) 0 [0, 0] off len =
    Inr (take 2 (suites_at m off (unat n) @ [0, 0]), off + 4 * unat n, len - of_nat (4 * unat n))"
proof -
  have "unat (of_nat (min 2 (unat n)) :: u16) = min 2 (unat n)" by (simp add: unat_of_nat)
  then show ?thesis
    using suite_loop_in_bounds [OF assms, of "of_nat (min 2 (unat n))" "[0, 0]" 0 len]
      store_two [of "suites_at m off (unat n)"]
    by (simp add: suites_at_def)
qed

lemma parse_rsn_akm_eq:
  assumes "off + unat len \<le> length m" "2 \<le> unat len" "akm_suites out = [0, 0]"
  defines "na \<equiv> unat (le16_at m off)"
  shows "\<exists>out'. parse_rsn_akm m out off len = Inr (if 4 * na + 4 \<le> unat len then 0 else -2, out') \<and>
    num_pairwise_cipher_suites out' = num_pairwise_cipher_suites out \<and> num_akm_suites out' = of_nat (min 2 na) \<and>
    (4 * na + 4 \<le> unat len \<longrightarrow> out' = out\<lparr>num_akm_suites := of_nat (min 2 na),
       akm_suites := take 2 (suites_at m (off + 2) na @ [0, 0]),
       rsn_capabilities := le16_at m (off + 2 + 4 * na)\<rparr>)"
proof -
  have l2: "unat (len - 2) = unat len - 2" using assms(2) by (rule u8_sub_numeral)
  have clamp: "clamp_suites (le16_at m off) MAX_AKM = of_nat (min 2 na)"
    by (simp add: MAX_AKM_def clamp_two na_def)
  have start: "read_le16 m off = Inr (le16_at m off)" using assms(1,2) by (simp add: read_in_bounds)
  show ?thesis
  proof (cases "4 * na + 4 \<le> unat len")
    case True
    have b: "off + 2 + 4 * na \<le> length m" "off + 2 + 4 * na + 2 \<le> length m"
      using assms(1) True by linarith+
    have c: "\<not> unat (len - 2) < 4 * na + 2" using True l2 by linarith
    have "parse_rsn_akm m out off len = Inr (0, out\<lparr>num_akm_suites := of_nat (min 2 na),
       akm_suites := take 2 (suites_at m (off + 2) na @ [0, 0]),
       rsn_capabilities := le16_at m (off + 2 + 4 * na)\<rparr>)"
      using c b(1) suite_loop_two [of "off + 2" "le16_at m off" m "len - 2"] read_in_bounds(1) [OF b(2)]
      by (simp add: parse_rsn_akm_def start clamp assms(3) Let_def flip: na_def)
    with True show ?thesis by simp
  next
    case False
    then have "unat (len - 2) < 4 * na + 2" using l2 assms(2) by linarith
    then have "parse_rsn_akm m out off len = Inr (-2, out\<lparr>num_akm_suites := of_nat (min 2 na)\<rparr>)"
      by (simp add: parse_rsn_akm_def start clamp Let_def flip: na_def)
    with False show ?thesis by simp
  qed
qed

lemma parse_rsn_body_eq:
  assumes b: "off + unat len \<le> length m" and l8: "8 \<le> unat len"
  shows "\<exists>out. parse_rsn_body m rsn_zero off len = Inr (if rsn_ok m off (unat len) then 0 else -2, out) \<and>
    unat (num_pairwise_cipher_suites out) \<le> 2 \<and> unat (num_akm_suites out) \<le> 2 \<and>
    (rsn_ok m off (unat len) \<longrightarrow> out = rsn_value m off)"
proof -
  define np where "np = unat (le16_at m (off + 6))"
  define na where "na = unat (le16_at m (off + 8 + 4 * np))"
  have counts: "rsn_counts m off = (np, na)" by (simp add: rsn_counts_def np_def na_def Let_def)
  have l6: "len - 2 - 4 - 2 = len - 8" by simp
  have l: "unat (len - 8) = unat len - 8" using l8 by (rule u8_sub_numeral)
  have rd: "read_le16 m off = Inr (le16_at m off)" "read_be32 m (off + 2) = Inr (be32_at m (off + 2))"
      "read_le16 m (off + 6) = Inr (le16_at m (off + 6))"
    using b l8 by (simp_all add: read_in_bounds)
  have clamp: "clamp_suites (le16_at m (off + 6)) MAX_PAIRWISE = of_nat (min 2 np)"
    by (simp add: MAX_PAIRWISE_def clamp_two np_def)
  have small: "unat (of_nat (min 2 k) :: u16) \<le> 2" for k by (simp add: unat_of_nat)
  let ?o1 = "rsn_zero\<lparr>version := le16_at m off, group_cipher_suite := be32_at m (off + 2),
      num_pairwise_cipher_suites := of_nat (min 2 np)\<rparr>"
  let ?o2 = "?o1\<lparr>pairwise_cipher_suites := take 2 (suites_at m (off + 8) np @ [0, 0])\<rparr>"
  have body: "parse_rsn_body m rsn_zero off len =
      (if unat (len - 8) < 4 * np + 2 then Inr (-2, ?o1)
       else rbind (suite_loop np m (of_nat (min 2 np)) 0 [0, 0] (off + 8) (len - 8))
              (\<lambda>(arr, offset, len). parse_rsn_akm m (?o1\<lparr>pairwise_cipher_suites := arr\<rparr>) offset len))"
    by (simp add: parse_rsn_body_def rd clamp Let_def l6 rsn_zero_def add.assoc
        del: add_2_eq_Suc add_2_eq_Suc' flip: np_def)
  show ?thesis
  proof (cases "4 * np + 10 \<le> unat len")
    case True
    have "off + 8 + 4 * np \<le> length m" using True b by linarith
    then have loop: "suite_loop np m (of_nat (min 2 np)) 0 [0, 0] (off + 8) (len - 8)
        = Inr (take 2 (suites_at m (off + 8) np @ [0, 0]), off + 8 + 4 * np, len - 8 - of_nat (4 * np))"
      using suite_loop_two [of "off + 8" "le16_at m (off + 6)" m "len - 8"] by (simp add: np_def)
    have rest: "unat (len - 8 - of_nat (4 * np)) = unat len - 8 - 4 * np"
      using True l by (subst u8_sub_nat) simp_all
    have "off + 8 + 4 * np + unat (len - 8 - of_nat (4 * np)) \<le> length m"
      "2 \<le> unat (len - 8 - of_nat (4 * np))"
      unfolding rest using True b by linarith+
    from parse_rsn_akm_eq [OF this, of ?o2]
    obtain out where out: "parse_rsn_akm m ?o2 (off + 8 + 4 * np) (len - 8 - of_nat (4 * np))
        = Inr (if 4 * na + 4 \<le> unat len - 8 - 4 * np then 0 else -2, out)"
      "num_pairwise_cipher_suites out = of_nat (min 2 np)" "num_akm_suites out = of_nat (min 2 na)"
      "4 * na + 4 \<le> unat len - 8 - 4 * np \<longrightarrow> out = ?o2\<lparr>num_akm_suites := of_nat (min 2 na),
         akm_suites := take 2 (suites_at m (off + 8 + 4 * np + 2) na @ [0, 0]),
         rsn_capabilities := le16_at m (off + 8 + 4 * np + 2 + 4 * na)\<rparr>"
      unfolding rest na_def [symmetric] by (auto simp: rsn_zero_def)
    have ok: "rsn_ok m off (unat len) \<longleftrightarrow> 4 * na + 4 \<le> unat len - 8 - 4 * np"
      using True by (simp add: rsn_ok_def counts) arith
    have "\<not> unat (len - 8) < 4 * np + 2" using True l by linarith
    then have "parse_rsn_body m rsn_zero off len = Inr (if rsn_ok m off (unat len) then 0 else -2, out)"
      unfolding body ok using out(1) by (simp add: loop)
    moreover have "rsn_ok m off (unat len) \<longrightarrow> out = rsn_value m off"
      using out(4) unfolding ok by (simp add: rsn_value_def counts rsn_zero_def)
    ultimately show ?thesis using out(2,3) small by auto
  next
    case False
    then have "unat (len - 8) < 4 * np + 2" using l l8 by linarith
    moreover have "\<not> rsn_ok m off (unat len)" using False by (simp add: rsn_ok_def counts)
    ultimately show ?thesis unfolding body using small by (simp add: rsn_zero_def)
  qed
qed

lemma parse_rsn_found:
  assumes valid: "ies_valid ies len"
    and first: "first_of_type MM_RSN_INFORMATION_IE_TYPE (elements 0 (take (unat len) ies)) = Some (off, l)"
    and fits: "off + 2 + l \<le> unat len" "8 \<le> l"
  shows "\<exists>out. mm_parse_rsn_information ies len = Some (Inr (if rsn_ok ies (off + 2) l then 0 else -2, out)) \<and>
    unat (num_pairwise_cipher_suites out) \<le> 2 \<and> unat (num_akm_suites out) \<le> 2 \<and>
    (rsn_ok ies (off + 2) l \<longrightarrow> out = rsn_value ies (off + 2))"
proof -
  have n: "unat len \<le> length ies" using valid by (simp add: ies_valid_def)
  from first_of_type_elements [OF n, of _ 0] first have l: "l = unat (ies ! (off + 1))" by simp
  have found: "mm_find_ie ies len MM_RSN_INFORMATION_IE_TYPE = Some (Inr (int off))"
    using find_ie_loop [OF valid, of 0 MM_RSN_INFORMATION_IE_TYPE] first fits(1)
    by (simp add: mm_find_ie_def find_result_def)
  have b: "off + 2 + unat (ies ! (off + 1)) \<le> length ies" "8 \<le> unat (ies ! (off + 1))"
    using fits n l by linarith+
  have "\<not> ies ! (off + 1) < 8" using b(2) by (simp add: word_less_nat_alt)
  then have "mm_parse_rsn_information ies len = Some (parse_rsn_body ies rsn_zero (off + 2) (ies ! (off + 1)))"
    using found fits(1) n by (simp add: mm_parse_rsn_information_def)
  with parse_rsn_body_eq [OF b] show ?thesis unfolding l by auto
qed

text \<open>
  C21: For any bytes whatever, \<open>mm_parse_rsn_information\<close> returns without reading outside the buffer or
  writing outside its two-entry arrays; it reports -1 or -2 as the search does, -2 for a payload
  too short for its own counts, and otherwise 0 with the fields of the first RSN element: the first
  two suites of each list, and counts capped at two.
\<close>

theorem mm_parse_rsn_information_spec:
  assumes "ies_valid ies len"
  shows "case first_of_type MM_RSN_INFORMATION_IE_TYPE (elements 0 (take (unat len) ies)) of
      None \<Rightarrow> mm_parse_rsn_information ies len = Some (Inr (-1, rsn_zero))
    | Some (off, l) \<Rightarrow>
        if unat len < off + 2 + l \<or> l < 8 then mm_parse_rsn_information ies len = Some (Inr (-2, rsn_zero))
        else \<exists>out. mm_parse_rsn_information ies len
               = Some (Inr (if rsn_ok ies (off + 2) l then 0 else -2, out)) \<and>
             unat (num_pairwise_cipher_suites out) \<le> 2 \<and> unat (num_akm_suites out) \<le> 2 \<and>
             (rsn_ok ies (off + 2) l \<longrightarrow> out = rsn_value ies (off + 2))"
proof (cases "first_of_type MM_RSN_INFORMATION_IE_TYPE (elements 0 (take (unat len) ies))")
  case None
  then show ?thesis
    using find_ie_loop [OF assms, of 0 MM_RSN_INFORMATION_IE_TYPE]
    by (simp add: mm_parse_rsn_information_def mm_find_ie_def find_result_def)
next
  case (Some p)
  then obtain off l where p: "first_of_type MM_RSN_INFORMATION_IE_TYPE (elements 0 (take (unat len) ies)) = Some (off, l)"
    by (cases p) simp
  have n: "unat len \<le> length ies" using assms by (simp add: ies_valid_def)
  have l: "l = unat (ies ! (off + 1))" and off: "off + 2 \<le> unat len"
    using first_of_type_elements [OF n, of _ 0] p by simp_all
  note find = find_ie_loop [OF assms, of 0 MM_RSN_INFORMATION_IE_TYPE]
  show ?thesis
  proof (cases "off + 2 + l \<le> unat len \<and> 8 \<le> l")
    case True
    with parse_rsn_found [OF assms p] p show ?thesis by auto
  next
    case False
    then have "mm_parse_rsn_information ies len = Some (Inr (-2, rsn_zero))"
      using find p n off by (auto simp: mm_parse_rsn_information_def mm_find_ie_def find_result_def
          word_less_nat_alt l)
    with False p show ?thesis by auto
  qed
qed

lemma mm_parse_rsn_information_spec_witness:
  "mm_parse_rsn_information [48, 7, 1, 0, 0, 0x0f, 0xac, 4, 1] 9 = Some (Inr (-2, rsn_zero)) \<and>
   mm_parse_rsn_information [221, 1, 9] 3 = Some (Inr (-1, rsn_zero))"
proof -
  have "ies_valid [48, 7, 1, 0, 0, 0x0f, 0xac, 4, 1] 9" "ies_valid [221, 1, 9] 3"
    by (simp_all add: ies_valid_def)
  from this [THEN mm_parse_rsn_information_spec] show ?thesis
    by (simp add: MM_RSN_INFORMATION_IE_TYPE_def)
qed

section \<open>Encoding and parsing back\<close>

definition le16 :: "u16 \<Rightarrow> u8 list" where
  "le16 x = [ucast x, ucast (drop_bit 8 x)]"

definition be32 :: "u32 \<Rightarrow> u8 list" where
  "be32 x = [ucast (drop_bit 24 x), ucast (drop_bit 16 x), ucast (drop_bit 8 x), ucast x]"

definition encode_ies :: "(u8 \<times> u8 list) list \<Rightarrow> u8 list" where
  "encode_ies es = concat (map (\<lambda>(t, p). t # of_nat (length p) # p) es)"

definition rsn_payload :: "u16 \<Rightarrow> u32 \<Rightarrow> u32 list \<Rightarrow> u32 list \<Rightarrow> u16 \<Rightarrow> u8 list" where
  "rsn_payload ver grp pw akm caps =
     le16 ver @ be32 grp @ le16 (of_nat (length pw)) @ concat (map be32 pw)
     @ le16 (of_nat (length akm)) @ concat (map be32 akm) @ le16 caps"

lemma le16_value: "ucast ((ucast (ucast x :: u8) :: u32) OR push_bit 8 (ucast (ucast (drop_bit 8 x) :: u8))) = (x :: u16)"
proof (rule bit_word_eqI)
  fix n assume n: "n < LENGTH(16)"
  have "n = 8 + (n - 8)" if "\<not> n < 8" using that by arith
  with n show "bit (ucast ((ucast (ucast x :: u8) :: u32) OR push_bit 8 (ucast (ucast (drop_bit 8 x) :: u8))) :: u16) n
      = bit x n"
    by (cases "n < 8") (auto simp: bit_ucast_iff bit_or_iff bit_push_bit_iff bit_drop_bit_eq)
qed

lemma be32_value:
  "push_bit 24 (ucast (ucast (drop_bit 24 x) :: u8)) OR push_bit 16 (ucast (ucast (drop_bit 16 x) :: u8))
     OR push_bit 8 (ucast (ucast (drop_bit 8 x) :: u8)) OR ucast (ucast x :: u8) = (x :: u32)"
proof (rule bit_word_eqI)
  fix n assume n: "n < LENGTH(32)"
  then consider "n < 8" | "8 \<le> n" "n < 16" | "16 \<le> n" "n < 24" | "24 \<le> n" "n < 32" by fastforce
  then show "bit (push_bit 24 (ucast (ucast (drop_bit 24 x) :: u8)) OR push_bit 16 (ucast (ucast (drop_bit 16 x) :: u8))
     OR push_bit 8 (ucast (ucast (drop_bit 8 x) :: u8)) OR ucast (ucast x :: u8) :: u32) n = bit x n"
    by cases (auto simp: bit_ucast_iff bit_or_iff bit_push_bit_iff bit_drop_bit_eq)
qed

lemma le16_at_append: "le16_at (A @ le16 x @ B) (length A) = x"
  by (simp add: le16_at_def le16_def nth_append le16_value)

lemma be32_at_append: "be32_at (A @ be32 x @ B) (length A) = x"
  by (simp add: be32_at_def be32_def nth_append be32_value)

lemma length_wire [simp]: "length (le16 x) = 2" "length (be32 y) = 4"
  by (simp_all add: le16_def be32_def)

lemma length_suites [simp]: "length (concat (map be32 vs)) = 4 * length vs"
  by (induction vs) simp_all

lemma suites_at_append: "suites_at (A @ concat (map be32 vs) @ B) (length A) (length vs) = vs"
proof (induction vs arbitrary: A)
  case (Cons v vs)
  have "suites_at (A @ be32 v @ C) (length A) (Suc k)
      = be32_at (A @ be32 v @ C) (length A) # suites_at ((A @ be32 v) @ C) (length (A @ be32 v)) k" for C k
    by (simp add: suites_at_def upt_conv_Cons map_Suc_upt [symmetric] comp_def algebra_simps del: upt_Suc)
  with Cons [of "A @ be32 v"] show ?case by (simp add: be32_at_append)
qed (simp add: suites_at_def)

lemma elements_encode:
  "\<forall>(t, p) \<in> set es. length p < 256 \<Longrightarrow>
   \<exists>hs. elements off (encode_ies es @ rest) = hs @ elements (off + length (encode_ies es)) rest \<and>
        map (\<lambda>(o1, t, l). t) hs = map fst es"
proof (induction es arbitrary: off)
  case (Cons e es)
  obtain t p where e: "e = (t, p)" by (cases e)
  with Cons.prems have p: "unat (of_nat (length p) :: u8) = length p" by (simp add: unat_of_nat)
  obtain hs where hs: "elements (off + 2 + length p) (encode_ies es @ rest)
      = hs @ elements (off + 2 + length p + length (encode_ies es)) rest" "map (\<lambda>(o1, t, l). t) hs = map fst es"
    using Cons.IH [of "off + 2 + length p"] Cons.prems by auto
  have "elements off (encode_ies (e # es) @ rest)
      = (off, t, length p) # elements (off + 2 + length p) (encode_ies es @ rest)"
    by (simp add: encode_ies_def e p)
  also have "\<dots> = ((off, t, length p) # hs) @ elements (off + length (encode_ies (e # es))) rest"
    using hs(1) by (simp add: encode_ies_def e algebra_simps)
  finally show ?case using hs(2) by (intro exI [of _ "(off, t, length p) # hs"]) (simp add: e)
qed (simp add: encode_ies_def)

lemma first_of_type_append:
  "t \<notin> (\<lambda>(o1, ty, l). ty) ` set hs \<Longrightarrow> first_of_type t (hs @ es) = first_of_type t es"
  by (induction hs) auto

lemma first_after_encoded:
  assumes "\<forall>(t, p) \<in> set es. length p < 256" "ty \<notin> fst ` set es"
  shows "first_of_type ty (elements 0 (encode_ies es @ ty # n # rest))
    = Some (length (encode_ies es), unat n)"
proof -
  obtain hs where hs: "elements 0 (encode_ies es @ ty # n # rest)
      = hs @ elements (0 + length (encode_ies es)) (ty # n # rest)" "map (\<lambda>(o1, t, l). t) hs = map fst es"
    using elements_encode [OF assms(1)] by blast
  have "(\<lambda>(o1, t, l). t) ` set hs = fst ` set es" using hs(2) by (metis set_map)
  with assms(2) show ?thesis by (simp add: hs(1) first_of_type_append)
qed

lemma rsn_payload_fields:
  fixes A B :: "u8 list" and ver caps :: u16 and grp :: u32
  assumes "length pw < 65536" "length akm < 65536"
  defines "m \<equiv> A @ rsn_payload ver grp pw akm caps @ B"
  shows "rsn_counts m (length A) = (length pw, length akm)"
    and "rsn_value m (length A) = \<lparr>group_cipher_suite = grp,
      pairwise_cipher_suites = take 2 (pw @ [0, 0]), akm_suites = take 2 (akm @ [0, 0]),
      num_pairwise_cipher_suites = of_nat (min 2 (length pw)), num_akm_suites = of_nat (min 2 (length akm)),
      version = ver, rsn_capabilities = caps\<rparr>"
proof -
  let ?P = "concat (map be32 pw)" and ?K = "concat (map be32 akm)"
  let ?np = "le16 (of_nat (length pw))" and ?na = "le16 (of_nat (length akm))"
  have m: "m = A @ le16 ver @ be32 grp @ ?np @ ?P @ ?na @ ?K @ le16 caps @ B"
    by (simp add: m_def rsn_payload_def)
  have "le16_at m (length A) = ver"
    using le16_at_append [of A ver] by (simp add: m add.assoc add.left_commute add.commute)
  moreover have "be32_at m (length A + 2) = grp"
    using be32_at_append [of "A @ le16 ver" grp] by (simp add: m add.assoc add.left_commute add.commute)
  moreover have np: "le16_at m (length A + 6) = of_nat (length pw)"
    using le16_at_append [of "A @ le16 ver @ be32 grp" "of_nat (length pw)"] by (simp add: m add.assoc add.left_commute add.commute)
  moreover have "suites_at m (length A + 8) (length pw) = pw"
    using suites_at_append [of "A @ le16 ver @ be32 grp @ ?np" pw] by (simp add: m add.assoc add.left_commute add.commute)
  moreover have na: "le16_at m (length A + 8 + 4 * length pw) = of_nat (length akm)"
    using le16_at_append [of "A @ le16 ver @ be32 grp @ ?np @ ?P" "of_nat (length akm)"] by (simp add: m add.assoc add.left_commute add.commute)
  moreover have "suites_at m (length A + 8 + 4 * length pw + 2) (length akm) = akm"
    using suites_at_append [of "A @ le16 ver @ be32 grp @ ?np @ ?P @ ?na" akm] by (simp add: m add.assoc add.left_commute add.commute)
  moreover have "le16_at m (length A + 8 + 4 * length pw + 2 + 4 * length akm) = caps"
    using le16_at_append [of "A @ le16 ver @ be32 grp @ ?np @ ?P @ ?na @ ?K" caps] by (simp add: m add.assoc add.left_commute add.commute)
  moreover have "unat (of_nat (length pw) :: u16) = length pw" "unat (of_nat (length akm) :: u16) = length akm"
    using assms(1,2) by (simp_all add: unat_of_nat)
  ultimately show "rsn_counts m (length A) = (length pw, length akm)"
    and "rsn_value m (length A) = \<lparr>group_cipher_suite = grp,
      pairwise_cipher_suites = take 2 (pw @ [0, 0]), akm_suites = take 2 (akm @ [0, 0]),
      num_pairwise_cipher_suites = of_nat (min 2 (length pw)), num_akm_suites = of_nat (min 2 (length akm)),
      version = ver, rsn_capabilities = caps\<rparr>"
    by (simp_all add: rsn_counts_def rsn_value_def Let_def)
qed

text \<open>
  Parsing gives back what was encoded: an RSN element with version, group cipher, suite lists and
  capabilities, with anything behind the capabilities (such as PMKIDs), placed behind elements of
  other types and before arbitrary bytes, is parsed to these values, with the first two suites of
  each list.
\<close>

theorem rsn_encode_parse:
  fixes es :: "(u8 \<times> u8 list) list" and ver caps :: u16 and grp :: u32 and pw akm :: "u32 list"
    and extra rest :: "u8 list"
  defines "payload \<equiv> rsn_payload ver grp pw akm caps @ extra"
  defines "ies \<equiv> encode_ies es @ MM_RSN_INFORMATION_IE_TYPE # of_nat (length payload) # payload @ rest"
  assumes "length payload < 256" "length ies < 2147483648"
    and "\<forall>(t, p) \<in> set es. length p < 256" "MM_RSN_INFORMATION_IE_TYPE \<notin> fst ` set es"
  shows "mm_parse_rsn_information ies (of_nat (length ies)) = Some (Inr (0,
    \<lparr>group_cipher_suite = grp, pairwise_cipher_suites = take 2 (pw @ [0, 0]),
     akm_suites = take 2 (akm @ [0, 0]), num_pairwise_cipher_suites = of_nat (min 2 (length pw)),
     num_akm_suites = of_nat (min 2 (length akm)), version = ver, rsn_capabilities = caps\<rparr>))"
proof -
  let ?o = "length (encode_ies es)" and ?l = "length payload"
  let ?A = "encode_ies es @ [MM_RSN_INFORMATION_IE_TYPE, of_nat ?l]"
  have len: "unat (of_nat (length ies) :: u32) = length ies" using assms(4) by simp
  have l: "unat (of_nat ?l :: u8) = ?l" using assms(3) by (simp add: unat_of_nat)
  have valid: "ies_valid ies (of_nat (length ies))" using assms(4) by (simp add: ies_valid_def)
  have first: "first_of_type MM_RSN_INFORMATION_IE_TYPE (elements 0 (take (length ies) ies)) = Some (?o, ?l)"
    using first_after_encoded [OF assms(5,6)] by (simp add: ies_def l)
  have pl: "?l = 12 + 4 * length pw + 4 * length akm + length extra"
    by (simp add: payload_def rsn_payload_def)
  then have small: "length pw < 65536" "length akm < 65536" using assms(3) by linarith+
  have ies_eq: "ies = ?A @ rsn_payload ver grp pw akm caps @ (extra @ rest)"
    by (simp add: ies_def payload_def)
  have lA: "length ?A = ?o + 2" by simp
  note fields = rsn_payload_fields [OF small, of ?A ver grp caps "extra @ rest", folded ies_eq, unfolded lA]
  have "rsn_ok ies (?o + 2) ?l" unfolding rsn_ok_def fields(1) using pl by simp
  moreover have "?o + 2 + ?l \<le> length ies" "8 \<le> ?l" using pl by (simp_all add: ies_def)
  ultimately show ?thesis
    using parse_rsn_found [OF valid, unfolded len, OF first] fields(2) by auto
qed

lemma rsn_encode_parse_witness:
  "mm_parse_rsn_information
     (encode_ies [(0, [104, 105])] @ MM_RSN_INFORMATION_IE_TYPE # 20 #
      (rsn_payload 1 0x000fac04 [0x000fac04] [0x000fac08] 0xC0) @ [221, 0]) 28
   = Some (Inr (0, \<lparr>group_cipher_suite = 0x000fac04, pairwise_cipher_suites = [0x000fac04, 0],
       akm_suites = [0x000fac08, 0], num_pairwise_cipher_suites = 1, num_akm_suites = 1,
       version = 1, rsn_capabilities = 0xC0\<rparr>))"
proof -
  have l: "length (rsn_payload 1 0x000fac04 [0x000fac04] [0x000fac08] 0xC0) = 20"
    by (simp add: rsn_payload_def)
  show ?thesis
    using rsn_encode_parse [of 1 "0x000fac04" "[0x000fac04]" "[0x000fac08]" "0xC0" "[]" "[(0, [104, 105])]" "[221, 0]"]
    by (simp add: l encode_ies_def MM_RSN_INFORMATION_IE_TYPE_def)
qed

section \<open>The S1G Operation element\<close>

definition s1g_value :: "u8 list \<Rightarrow> nat \<Rightarrow> mm_s1g_operation \<Rightarrow> mm_s1g_operation" where
  "s1g_value m off output = output\<lparr>
     operating_class := m ! (off + 3), operating_channel_number := m ! (off + 5),
     operating_channel_width_mhz := (drop_bit 1 (m ! (off + 2)) AND 0x0f) + 1,
     primary_channel_number := m ! (off + 4),
     primary_channel_width_mhz := 2 - (m ! (off + 2) AND 0x01)\<rparr>"

lemma s1g_widths:
  "1 \<le> unat ((x AND 0x0f) + 1 :: u8) \<and> unat ((x AND 0x0f) + 1 :: u8) \<le> 16"
  "unat (2 - (y AND 0x01) :: u8) \<in> {1, 2}"
proof -
  have "x AND 0x0f \<le> 0x0f" by (rule word_and_le1)
  then have "unat (x AND 0x0f) \<le> 15" by (simp add: word_le_nat_alt)
  then show "1 \<le> unat ((x AND 0x0f) + 1 :: u8) \<and> unat ((x AND 0x0f) + 1 :: u8) \<le> 16"
    by (simp add: unat_word_ariths)
  have "unat (y AND 1) \<le> 1" using word_and_le1 [of y 1] by (simp add: word_le_nat_alt)
  then have "unat (y AND 1) = 0 \<or> unat (y AND 1) = 1" by linarith
  then have "y AND 1 = 0 \<or> y AND 1 = 1" by (simp add: word_unat_eq_iff)
  then show "unat (2 - (y AND 0x01) :: u8) \<in> {1, 2}" by auto
qed

text \<open>
  For any bytes, \<open>mm_parse_s1g_operation\<close> returns without reading outside the buffer: -1 or -2 with
  the output untouched, or 0 with the fields of the first S1G Operation element, with an operating
  width of 1 to 16 MHz and a primary width of 1 or 2 MHz.
\<close>

theorem mm_parse_s1g_operation_spec:
  assumes "ies_valid ies len"
  shows "case first_of_type MM_S1G_OPERATION_IE_TYPE (elements 0 (take (unat len) ies)) of
      None \<Rightarrow> mm_parse_s1g_operation ies len output = Some (Inr (-1, output))
    | Some (off, l) \<Rightarrow>
        if unat len < off + 2 + l \<or> l < 6 then mm_parse_s1g_operation ies len output = Some (Inr (-2, output))
        else mm_parse_s1g_operation ies len output = Some (Inr (0, s1g_value ies off output)) \<and>
          unat (operating_channel_width_mhz (s1g_value ies off output)) \<in> {1..16} \<and>
          unat (primary_channel_width_mhz (s1g_value ies off output)) \<in> {1, 2}"
proof (cases "first_of_type MM_S1G_OPERATION_IE_TYPE (elements 0 (take (unat len) ies))")
  case None
  then show ?thesis
    using find_ie_loop [OF assms, of 0 MM_S1G_OPERATION_IE_TYPE]
    by (simp add: mm_parse_s1g_operation_def mm_find_ie_def find_result_def)
next
  case (Some p)
  then obtain off l where p: "first_of_type MM_S1G_OPERATION_IE_TYPE (elements 0 (take (unat len) ies)) = Some (off, l)"
    by (cases p) simp
  have n: "unat len \<le> length ies" using assms by (simp add: ies_valid_def)
  have l: "l = unat (ies ! (off + 1))" and off: "off + 2 \<le> unat len"
    using first_of_type_elements [OF n, of _ 0] p by simp_all
  note find = find_ie_loop [OF assms, of 0 MM_S1G_OPERATION_IE_TYPE]
  have short: "(8 :: u32) > ucast (ies ! (off + 1)) + 2 \<longleftrightarrow> l < 6"
    by (simp add: u32_less_iff u32_add l)
  show ?thesis
  proof (cases "off + 2 + l \<le> unat len \<and> 6 \<le> l")
    case True
    then have "off + 5 < length ies" using n by linarith
    then have "mm_parse_s1g_operation ies len output = Some (Inr (0, s1g_value ies off output))"
      using find p True short
      by (simp add: mm_parse_s1g_operation_def mm_find_ie_def find_result_def s1g_value_def)
    then show ?thesis using True p s1g_widths by (auto simp: s1g_value_def)
  next
    case False
    then have "mm_parse_s1g_operation ies len output = Some (Inr (-2, output))"
      using find p n off short by (auto simp: mm_parse_s1g_operation_def mm_find_ie_def find_result_def)
    with False p show ?thesis by auto
  qed
qed

lemma mm_parse_s1g_operation_spec_witness:
  "\<forall>out. mm_parse_s1g_operation [232, 6, 0x02, 68, 5, 4, 0, 0] 8 out
     = Some (Inr (0, s1g_value [232, 6, 0x02, 68, 5, 4, 0, 0] 0 out)) \<and>
   mm_parse_s1g_operation [232, 5, 0x02, 68, 5, 4, 0] 7 out = Some (Inr (-2, out))"
proof -
  have "ies_valid [232, 6, 0x02, 68, 5, 4, 0, 0] 8" "ies_valid [232, 5, 0x02, 68, 5, 4, 0] 7"
    by (simp_all add: ies_valid_def)
  from this [THEN mm_parse_s1g_operation_spec] show ?thesis
    by (simp add: MM_S1G_OPERATION_IE_TYPE_def)
qed

text \<open>The hexadecimal digit of the low nibble, checked for all bytes.\<close>

lemma mm_nibble_to_hex_char_table:
  "mm_nibble_to_hex_char n = (map (of_nat \<circ> of_char) ''0123456789ABCDEF'') ! unat (n AND 0x0f)"
proof -
  have "n AND 0x0f \<le> 0x0f" by (rule word_and_le1)
  then have "unat (n AND 0x0f) < 16" by (simp add: word_le_nat_alt)
  then have "unat (n AND 0x0f) \<in> set [0 ..< 16]" by simp
  moreover have "\<forall>k \<in> set [0 ..< 16]. (if (of_nat k :: u8) < 0x0a then 48 + of_nat k else 65 + of_nat k - 0x0a)
      = (map (of_nat \<circ> of_char) ''0123456789ABCDEF'' ! k :: u8)"
    by code_simp
  moreover have "(of_nat (unat (n AND 0x0f)) :: u8) = n AND 0x0f" by simp
  ultimately show ?thesis
    unfolding mm_nibble_to_hex_char_def Let_def by metis
qed

end
