(* ===== verification/Mmosal_Rtos.thy ===== *)
theory Mmosal_Rtos
  imports MM_Prelude
begin

text \<open>
  The wrappers of mmosal_shim_freertos_esp32.c around FreeRTOS and its heap. FreeRTOS is not part of
  the repository: its calls are the fields of one record per group of objects, over a kernel state
  of any type \<open>'k\<close>. Handles and pointers are numbers, NULL is \<open>None\<close>, and \<open>BaseType_t\<close> results are
  compared with \<open>pdPASS\<close> as in the code.
\<close>

section \<open>The FreeRTOS interface\<close>

type_synonym handle = nat

definition pdPASS :: int where "pdPASS = 1"
definition pdFALSE :: int where "pdFALSE = 0"
definition portMAX_DELAY :: u32 where "portMAX_DELAY = 0xFFFFFFFF"
definition UINT32_MAX :: u32 where "UINT32_MAX = 0xFFFFFFFF"

text \<open>The tick period and the conversion macro depend on the FreeRTOS configuration.\<close>

record tick_config =
  portTICK_PERIOD_MS :: u32
  pdMS_TO_TICKS :: "u32 \<Rightarrow> u32"

record 'k heap_api =
  pvPortMalloc :: "u32 \<Rightarrow> 'k \<Rightarrow> nat option \<times> 'k"
  vPortFree :: "nat \<Rightarrow> 'k \<Rightarrow> 'k"
  libc_realloc :: "nat option \<Rightarrow> u32 \<Rightarrow> 'k \<Rightarrow> nat option \<times> 'k"

text \<open>\<open>xTaskCreate\<close> gets name, stack size in bytes, argument block and priority; \<open>None\<close> is pdFAIL.\<close>

record 'k task_api =
  xTaskCreate :: "string \<Rightarrow> u32 \<Rightarrow> nat \<Rightarrow> u32 \<Rightarrow> 'k \<Rightarrow> handle option \<times> 'k"
  vTaskDelete :: "handle option \<Rightarrow> 'k \<Rightarrow> 'k"
  task_is_deleted :: "handle \<Rightarrow> 'k \<Rightarrow> bool"
  vTaskDelay :: "u32 \<Rightarrow> 'k \<Rightarrow> 'k"
  taskYIELD :: "'k \<Rightarrow> 'k"
  xTaskGetCurrentTaskHandle :: "'k \<Rightarrow> handle"
  pcTaskGetName :: "handle \<Rightarrow> 'k \<Rightarrow> string"
  ulTaskNotifyTake :: "u32 \<Rightarrow> 'k \<Rightarrow> u32 \<times> 'k"
  xTaskNotifyGive :: "handle \<Rightarrow> 'k \<Rightarrow> 'k"
  vTaskNotifyGiveFromISR :: "handle \<Rightarrow> 'k \<Rightarrow> bool \<times> 'k"
  portYIELD_FROM_ISR :: "bool \<Rightarrow> 'k \<Rightarrow> 'k"
  xTaskGetTickCount :: "'k \<Rightarrow> u32"

record 'k sem_api =
  xSemaphoreCreateMutex :: "'k \<Rightarrow> handle option \<times> 'k"
  xSemaphoreCreateCounting :: "u32 \<Rightarrow> u32 \<Rightarrow> 'k \<Rightarrow> handle option \<times> 'k"
  xSemaphoreCreateBinary :: "'k \<Rightarrow> handle option \<times> 'k"
  vQueueDelete :: "handle \<Rightarrow> 'k \<Rightarrow> 'k"
  xSemaphoreTake :: "handle \<Rightarrow> u32 \<Rightarrow> 'k \<Rightarrow> int \<times> 'k"
  xSemaphoreGive :: "handle \<Rightarrow> 'k \<Rightarrow> int \<times> 'k"
  xSemaphoreGiveFromISR :: "handle \<Rightarrow> 'k \<Rightarrow> int \<times> bool \<times> 'k"
  xSemaphoreGetMutexHolder :: "handle \<Rightarrow> 'k \<Rightarrow> handle option"
  uxSemaphoreGetCount :: "handle \<Rightarrow> 'k \<Rightarrow> u32"

record ('k, 'i) queue_api =
  xQueueCreate :: "u32 \<Rightarrow> u32 \<Rightarrow> 'k \<Rightarrow> handle option \<times> 'k"
  queue_delete :: "handle \<Rightarrow> 'k \<Rightarrow> 'k"
  xQueueReceive :: "handle \<Rightarrow> u32 \<Rightarrow> 'k \<Rightarrow> (int \<times> 'i option) \<times> 'k"
  xQueueSendToBack :: "handle \<Rightarrow> 'i \<Rightarrow> u32 \<Rightarrow> 'k \<Rightarrow> int \<times> 'k"
  xQueueReceiveFromISR :: "handle \<Rightarrow> 'k \<Rightarrow> (int \<times> 'i option) \<times> bool \<times> 'k"
  xQueueSendToBackFromISR :: "handle \<Rightarrow> 'i \<Rightarrow> 'k \<Rightarrow> int \<times> bool \<times> 'k"

record 'k timer_api =
  xTimerCreate :: "string \<Rightarrow> u32 \<Rightarrow> bool \<Rightarrow> nat \<Rightarrow> nat \<Rightarrow> 'k \<Rightarrow> handle option \<times> 'k"
  xTimerDelete :: "handle \<Rightarrow> u32 \<Rightarrow> 'k \<Rightarrow> int \<times> 'k"
  xTimerStart :: "handle \<Rightarrow> u32 \<Rightarrow> 'k \<Rightarrow> int \<times> 'k"
  xTimerStop :: "handle \<Rightarrow> u32 \<Rightarrow> 'k \<Rightarrow> int \<times> 'k"
  xTimerChangePeriod :: "handle \<Rightarrow> u32 \<Rightarrow> u32 \<Rightarrow> 'k \<Rightarrow> int \<times> 'k"
  pvTimerGetTimerID :: "handle \<Rightarrow> 'k \<Rightarrow> nat"
  xTimerIsTimerActive :: "handle \<Rightarrow> 'k \<Rightarrow> int"

section \<open>Heap\<close>

definition mmosal_malloc :: "'k heap_api \<Rightarrow> u32 \<Rightarrow> 'k \<Rightarrow> nat option \<times> 'k" where
  "mmosal_malloc h sz k = pvPortMalloc h sz k"

text \<open>The variant without \<open>MMOSAL_TRACK_ALLOCATIONS\<close>: name and line are dropped.\<close>

definition mmosal_malloc_dbg :: "'k heap_api \<Rightarrow> u32 \<Rightarrow> string \<Rightarrow> u32 \<Rightarrow> 'k \<Rightarrow> nat option \<times> 'k" where
  "mmosal_malloc_dbg h sz name line_number k = pvPortMalloc h sz k"

definition mmosal_free :: "'k heap_api \<Rightarrow> nat \<Rightarrow> 'k \<Rightarrow> 'k" where
  "mmosal_free h p k = vPortFree h p k"

definition mmosal_realloc :: "'k heap_api \<Rightarrow> nat option \<Rightarrow> u32 \<Rightarrow> 'k \<Rightarrow> nat option \<times> 'k" where
  "mmosal_realloc h p sz k = libc_realloc h p sz k"

text \<open>With the pointer comes what the \<open>memset\<close> leaves in the block.\<close>

definition mmosal_calloc :: "'k heap_api \<Rightarrow> u32 \<Rightarrow> u32 \<Rightarrow> 'k \<Rightarrow> (nat \<times> u8 list) option \<times> 'k" where
  "mmosal_calloc h nitems sz k =
     (case pvPortMalloc h (nitems * sz) k of
        (None, k1) \<Rightarrow> (None, k1)
      | (Some p, k1) \<Rightarrow> (Some (p, replicate (unat (nitems * sz)) 0), k1))"

section \<open>Tasks\<close>

record 'a mmosal_task_arg =
  task_fn :: nat
  task_fn_arg :: 'a

text \<open>The argument blocks handed to tasks that have not started yet, beside the kernel state.\<close>

type_synonym ('a, 'k) task_state = "(nat \<rightharpoonup> 'a mmosal_task_arg) \<times> 'k"

definition arg_free :: "'k heap_api \<Rightarrow> nat \<Rightarrow> ('a, 'k) task_state \<Rightarrow> ('a, 'k) task_state" where
  "arg_free h p s = ((fst s)(p := None), mmosal_free h p (snd s))"

definition mmosal_task_delete :: "'k task_api \<Rightarrow> handle option \<Rightarrow> 'k \<Rightarrow> 'k" where
  "mmosal_task_delete ta task k = vTaskDelete ta task k"

text \<open>
  \<open>run f a\<close> is the body of the task function number \<open>f\<close> on its argument; when it returns, the task
  deletes itself.
\<close>

definition mmosal_task_main ::
    "'k heap_api \<Rightarrow> 'k task_api \<Rightarrow> (nat \<Rightarrow> 'a \<Rightarrow> ('a, 'k) task_state \<Rightarrow> ('a, 'k) task_state) \<Rightarrow> nat \<Rightarrow>
     ('a, 'k) task_state \<Rightarrow> ('a, 'k) task_state result" where
  "mmosal_task_main h ta run arg s =
     (case fst s arg of
        None \<Rightarrow> Inl Dangling
      | Some task_arg \<Rightarrow>
          (let s1 = arg_free h arg s;
               s2 = run (task_fn task_arg) (task_fn_arg task_arg) s1
           in Inr (fst s2, mmosal_task_delete ta None (snd s2))))"

definition tskIDLE_PRIORITY :: u32 where "tskIDLE_PRIORITY = 0"

definition mmosal_task_create ::
    "'k heap_api \<Rightarrow> 'k task_api \<Rightarrow> nat \<Rightarrow> 'a \<Rightarrow> u32 \<Rightarrow> u32 \<Rightarrow> string \<Rightarrow> ('a, 'k) task_state \<Rightarrow>
     handle option \<times> ('a, 'k) task_state" where
  "mmosal_task_create h ta fn argument priority stack_size_u32 name s =
     (case mmosal_malloc h 8 (snd s) of
        (None, k1) \<Rightarrow> (None, (fst s, k1))
      | (Some p, k1) \<Rightarrow>
          (let blocks = (fst s)(p \<mapsto> \<lparr>task_fn = fn, task_fn_arg = argument\<rparr>)
           in case xTaskCreate ta name (stack_size_u32 * 4) p (tskIDLE_PRIORITY + priority) k1 of
                (None, k2) \<Rightarrow> (None, arg_free h p (blocks, k2))
              | (Some th, k2) \<Rightarrow> (Some th, (blocks, k2))))"

text \<open>\<open>vTaskDelay(duration_ms / portTICK_PERIOD_MS)\<close>; the period is not zero in a valid configuration.\<close>

definition mmosal_task_sleep :: "tick_config \<Rightarrow> 'k task_api \<Rightarrow> u32 \<Rightarrow> 'k \<Rightarrow> 'k" where
  "mmosal_task_sleep c ta duration_ms k = vTaskDelay ta (duration_ms div portTICK_PERIOD_MS c) k"

text \<open>The polling loop need not end: \<open>None\<close> is a call that never returns.\<close>

partial_function (option) mmosal_task_join :: "tick_config \<Rightarrow> 'k task_api \<Rightarrow> handle \<Rightarrow> 'k \<Rightarrow> 'k option" where
  "mmosal_task_join c ta task k =
     (if task_is_deleted ta task k then Some k
      else mmosal_task_join c ta task (mmosal_task_sleep c ta 10 k))"

definition mmosal_task_get_active :: "'k task_api \<Rightarrow> 'k \<Rightarrow> handle" where
  "mmosal_task_get_active ta k = xTaskGetCurrentTaskHandle ta k"

definition mmosal_task_yield :: "'k task_api \<Rightarrow> 'k \<Rightarrow> 'k" where
  "mmosal_task_yield ta k = taskYIELD ta k"

definition mmosal_task_name :: "'k task_api \<Rightarrow> 'k \<Rightarrow> string" where
  "mmosal_task_name ta k = pcTaskGetName ta (xTaskGetCurrentTaskHandle ta k) k"

definition mmosal_task_wait_for_notification :: "tick_config \<Rightarrow> 'k task_api \<Rightarrow> u32 \<Rightarrow> 'k \<Rightarrow> bool \<times> 'k" where
  "mmosal_task_wait_for_notification c ta timeout_ms k =
     (let wait = (if timeout_ms < UINT32_MAX then pdMS_TO_TICKS c timeout_ms else portMAX_DELAY);
          (ret, k1) = ulTaskNotifyTake ta wait k
      in (ret \<noteq> 0, k1))"

definition mmosal_task_notify :: "'k task_api \<Rightarrow> handle \<Rightarrow> 'k \<Rightarrow> 'k" where
  "mmosal_task_notify ta task k = xTaskNotifyGive ta task k"

definition mmosal_task_notify_from_isr :: "'k task_api \<Rightarrow> handle \<Rightarrow> 'k \<Rightarrow> 'k" where
  "mmosal_task_notify_from_isr ta task k =
     (let (woken, k1) = vTaskNotifyGiveFromISR ta task k in portYIELD_FROM_ISR ta woken k1)"

section \<open>Mutexes\<close>

text \<open>The conversion that the blocking calls share, each with its own copy in the code.\<close>

definition timeout_to_ticks :: "tick_config \<Rightarrow> u32 \<Rightarrow> u32" where
  "timeout_to_ticks c timeout_ms =
     (if timeout_ms \<noteq> UINT32_MAX then timeout_ms div portTICK_PERIOD_MS c else portMAX_DELAY)"

definition mmosal_mutex_create :: "'k sem_api \<Rightarrow> string option \<Rightarrow> 'k \<Rightarrow> handle option \<times> 'k" where
  "mmosal_mutex_create sa name k = xSemaphoreCreateMutex sa k"

definition mmosal_mutex_delete :: "'k sem_api \<Rightarrow> handle option \<Rightarrow> 'k \<Rightarrow> 'k" where
  "mmosal_mutex_delete sa mutex k = (case mutex of None \<Rightarrow> k | Some m \<Rightarrow> vQueueDelete sa m k)"

definition mmosal_mutex_get :: "tick_config \<Rightarrow> 'k sem_api \<Rightarrow> handle \<Rightarrow> u32 \<Rightarrow> 'k \<Rightarrow> bool \<times> 'k" where
  "mmosal_mutex_get c sa mutex timeout_ms k =
     (let (ret, k1) = xSemaphoreTake sa mutex (timeout_to_ticks c timeout_ms) k in (ret = pdPASS, k1))"

definition mmosal_mutex_release :: "'k sem_api \<Rightarrow> handle \<Rightarrow> 'k \<Rightarrow> bool \<times> 'k" where
  "mmosal_mutex_release sa mutex k = (let (ret, k1) = xSemaphoreGive sa mutex k in (ret = pdPASS, k1))"

definition mmosal_mutex_is_held_by_active_task :: "'k sem_api \<Rightarrow> 'k task_api \<Rightarrow> handle \<Rightarrow> 'k \<Rightarrow> bool" where
  "mmosal_mutex_is_held_by_active_task sa ta mutex k \<longleftrightarrow>
     xSemaphoreGetMutexHolder sa mutex k = Some (xTaskGetCurrentTaskHandle ta k)"

section \<open>Semaphores\<close>

definition mmosal_sem_create :: "'k sem_api \<Rightarrow> u32 \<Rightarrow> u32 \<Rightarrow> string option \<Rightarrow> 'k \<Rightarrow> handle option \<times> 'k" where
  "mmosal_sem_create sa max_count initial_count name k = xSemaphoreCreateCounting sa max_count initial_count k"

definition mmosal_sem_delete :: "'k sem_api \<Rightarrow> handle \<Rightarrow> 'k \<Rightarrow> 'k" where
  "mmosal_sem_delete sa sem k = vQueueDelete sa sem k"

text \<open>The result is the \<open>BaseType_t\<close> converted to \<open>bool\<close>.\<close>

definition mmosal_sem_give :: "'k sem_api \<Rightarrow> handle \<Rightarrow> 'k \<Rightarrow> bool \<times> 'k" where
  "mmosal_sem_give sa sem k = (let (ret, k1) = xSemaphoreGive sa sem k in (ret \<noteq> 0, k1))"

definition mmosal_sem_give_from_isr :: "'k sem_api \<Rightarrow> 'k task_api \<Rightarrow> handle \<Rightarrow> 'k \<Rightarrow> bool \<times> 'k" where
  "mmosal_sem_give_from_isr sa ta sem k =
     (let (ret, task_woken, k1) = xSemaphoreGiveFromISR sa sem k
      in if ret = pdPASS then (True, portYIELD_FROM_ISR ta task_woken k1) else (False, k1))"

definition mmosal_sem_wait :: "tick_config \<Rightarrow> 'k sem_api \<Rightarrow> handle \<Rightarrow> u32 \<Rightarrow> 'k \<Rightarrow> bool \<times> 'k" where
  "mmosal_sem_wait c sa sem timeout_ms k =
     (let (ret, k1) = xSemaphoreTake sa sem (timeout_to_ticks c timeout_ms) k in (ret = pdPASS, k1))"

definition mmosal_sem_get_count :: "'k sem_api \<Rightarrow> handle \<Rightarrow> 'k \<Rightarrow> u32" where
  "mmosal_sem_get_count sa sem k = uxSemaphoreGetCount sa sem k"

definition mmosal_semb_create :: "'k sem_api \<Rightarrow> string option \<Rightarrow> 'k \<Rightarrow> handle option \<times> 'k" where
  "mmosal_semb_create sa name k = xSemaphoreCreateBinary sa k"

definition mmosal_semb_delete :: "'k sem_api \<Rightarrow> handle \<Rightarrow> 'k \<Rightarrow> 'k" where
  "mmosal_semb_delete sa semb k = vQueueDelete sa semb k"

definition mmosal_semb_give :: "'k sem_api \<Rightarrow> handle \<Rightarrow> 'k \<Rightarrow> bool \<times> 'k" where
  "mmosal_semb_give sa semb k = (let (ret, k1) = xSemaphoreGive sa semb k in (ret = pdPASS, k1))"

definition mmosal_semb_give_from_isr :: "'k sem_api \<Rightarrow> 'k task_api \<Rightarrow> handle \<Rightarrow> 'k \<Rightarrow> bool \<times> 'k" where
  "mmosal_semb_give_from_isr sa ta semb k =
     (let (ret, task_woken, k1) = xSemaphoreGiveFromISR sa semb k
      in if ret = pdPASS then (True, portYIELD_FROM_ISR ta task_woken k1) else (False, k1))"

definition mmosal_semb_wait :: "tick_config \<Rightarrow> 'k sem_api \<Rightarrow> handle \<Rightarrow> u32 \<Rightarrow> 'k \<Rightarrow> bool \<times> 'k" where
  "mmosal_semb_wait c sa semb timeout_ms k =
     (let (ret, k1) = xSemaphoreTake sa semb (timeout_to_ticks c timeout_ms) k in (ret = pdPASS, k1))"

section \<open>Queues\<close>

definition mmosal_queue_create :: "('k, 'i) queue_api \<Rightarrow> u32 \<Rightarrow> u32 \<Rightarrow> string option \<Rightarrow> 'k \<Rightarrow> handle option \<times> 'k" where
  "mmosal_queue_create qa num_items item_size name k = xQueueCreate qa num_items item_size k"

definition mmosal_queue_delete :: "('k, 'i) queue_api \<Rightarrow> handle \<Rightarrow> 'k \<Rightarrow> 'k" where
  "mmosal_queue_delete qa queue k = queue_delete qa queue k"

text \<open>With the result comes the item that the call stored through \<open>item\<close>, if any.\<close>

definition mmosal_queue_pop :: "tick_config \<Rightarrow> ('k, 'i) queue_api \<Rightarrow> handle \<Rightarrow> u32 \<Rightarrow> 'k \<Rightarrow> (bool \<times> 'i option) \<times> 'k" where
  "mmosal_queue_pop c qa queue timeout_ms k =
     (let ((ret, item), k1) = xQueueReceive qa queue (timeout_to_ticks c timeout_ms) k
      in ((ret = pdPASS, item), k1))"

definition mmosal_queue_push :: "tick_config \<Rightarrow> ('k, 'i) queue_api \<Rightarrow> handle \<Rightarrow> 'i \<Rightarrow> u32 \<Rightarrow> 'k \<Rightarrow> bool \<times> 'k" where
  "mmosal_queue_push c qa queue item timeout_ms k =
     (let (ret, k1) = xQueueSendToBack qa queue item (timeout_to_ticks c timeout_ms) k in (ret = pdPASS, k1))"

definition mmosal_queue_pop_from_isr ::
    "('k, 'i) queue_api \<Rightarrow> 'k task_api \<Rightarrow> handle \<Rightarrow> 'k \<Rightarrow> (bool \<times> 'i option) \<times> 'k" where
  "mmosal_queue_pop_from_isr qa ta queue k =
     (let ((ret, item), task_woken, k1) = xQueueReceiveFromISR qa queue k
      in if ret = pdPASS then ((True, item), portYIELD_FROM_ISR ta task_woken k1) else ((False, item), k1))"

definition mmosal_queue_push_from_isr ::
    "('k, 'i) queue_api \<Rightarrow> 'k task_api \<Rightarrow> handle \<Rightarrow> 'i \<Rightarrow> 'k \<Rightarrow> bool \<times> 'k" where
  "mmosal_queue_push_from_isr qa ta queue item k =
     (let (ret, task_woken, k1) = xQueueSendToBackFromISR qa queue item k
      in if ret = pdPASS then (True, portYIELD_FROM_ISR ta task_woken k1) else (False, k1))"

section \<open>Time and timers\<close>

definition mmosal_get_time_ms :: "tick_config \<Rightarrow> 'k task_api \<Rightarrow> 'k \<Rightarrow> u32" where
  "mmosal_get_time_ms c ta k = xTaskGetTickCount ta k * portTICK_PERIOD_MS c"

definition mmosal_get_time_ticks :: "'k task_api \<Rightarrow> 'k \<Rightarrow> u32" where
  "mmosal_get_time_ticks ta k = xTaskGetTickCount ta k"

definition mmosal_ticks_per_second :: "tick_config \<Rightarrow> u32" where
  "mmosal_ticks_per_second c = portTICK_PERIOD_MS c * 1000"

definition mmosal_timer_create ::
    "tick_config \<Rightarrow> 'k timer_api \<Rightarrow> string \<Rightarrow> u32 \<Rightarrow> bool \<Rightarrow> nat \<Rightarrow> nat \<Rightarrow> 'k \<Rightarrow> handle option \<times> 'k" where
  "mmosal_timer_create c tm name timer_period auto_reload arg callback k =
     xTimerCreate tm name (pdMS_TO_TICKS c timer_period) auto_reload arg callback k"

text \<open>The command is queued without waiting; when the queue is full \<open>configASSERT\<close> fails.\<close>

definition mmosal_timer_delete :: "'k timer_api \<Rightarrow> handle option \<Rightarrow> 'k \<Rightarrow> 'k result" where
  "mmosal_timer_delete tm timer k =
     (case timer of
        None \<Rightarrow> Inr k
      | Some t \<Rightarrow> (let (ret, k1) = xTimerDelete tm t 0 k
                   in rbind (c_assert (ret = pdPASS)) (\<lambda>_. Inr k1)))"

definition mmosal_timer_start :: "'k timer_api \<Rightarrow> handle \<Rightarrow> 'k \<Rightarrow> bool \<times> 'k" where
  "mmosal_timer_start tm timer k = (let (ret, k1) = xTimerStart tm timer 0 k in (ret = pdPASS, k1))"

definition mmosal_timer_stop :: "'k timer_api \<Rightarrow> handle \<Rightarrow> 'k \<Rightarrow> bool \<times> 'k" where
  "mmosal_timer_stop tm timer k = (let (ret, k1) = xTimerStop tm timer 0 k in (ret = pdPASS, k1))"

definition mmosal_timer_change_period :: "tick_config \<Rightarrow> 'k timer_api \<Rightarrow> handle \<Rightarrow> u32 \<Rightarrow> 'k \<Rightarrow> bool \<times> 'k" where
  "mmosal_timer_change_period c tm timer new_period k =
     (let (ret, k1) = xTimerChangePeriod tm timer (pdMS_TO_TICKS c new_period) 0 k in (ret = pdPASS, k1))"

definition mmosal_timer_get_arg :: "'k timer_api \<Rightarrow> handle \<Rightarrow> 'k \<Rightarrow> nat" where
  "mmosal_timer_get_arg tm timer k = pvTimerGetTimerID tm timer k"

definition mmosal_is_timer_active :: "'k timer_api \<Rightarrow> handle \<Rightarrow> 'k \<Rightarrow> bool" where
  "mmosal_is_timer_active tm timer k \<longleftrightarrow> xTimerIsTimerActive tm timer k \<noteq> pdFALSE"

section \<open>Timeouts\<close>

text \<open>
  Every blocking call (mutex, semaphore, binary semaphore, queue in both directions) waits for
  ever exactly for \<open>UINT32_MAX\<close>; any other timeout is passed on as the largest whole number of ticks
  that is not longer than asked, and a timeout shorter than a tick does not wait at all.
\<close>

theorem mmosal_timeouts:
  assumes "portTICK_PERIOD_MS c \<noteq> 0"
  shows "\<exists>ticks.
    mmosal_mutex_get c sa m t k = (let (r, k1) = xSemaphoreTake sa m ticks k in (r = pdPASS, k1)) \<and>
    mmosal_sem_wait c sa m t k = mmosal_mutex_get c sa m t k \<and>
    mmosal_semb_wait c sa m t k = mmosal_mutex_get c sa m t k \<and>
    mmosal_queue_pop c qa m t k = (let ((r, i), k1) = xQueueReceive qa m ticks k in ((r = pdPASS, i), k1)) \<and>
    mmosal_queue_push c qa m it t k = (let (r, k1) = xQueueSendToBack qa m it ticks k in (r = pdPASS, k1)) \<and>
    (ticks = portMAX_DELAY \<longleftrightarrow> t = UINT32_MAX) \<and>
    (t \<noteq> UINT32_MAX \<longrightarrow> unat ticks * unat (portTICK_PERIOD_MS c) \<le> unat t \<and>
       unat t < (unat ticks + 1) * unat (portTICK_PERIOD_MS c))"
proof -
  let ?p = "unat (portTICK_PERIOD_MS c)" and ?ticks = "timeout_to_ticks c t"
  have p: "0 < ?p" using assms by (simp add: unat_gt_0)
  have div: "unat ?ticks = unat t div ?p" if "t \<noteq> UINT32_MAX"
    using that by (simp add: timeout_to_ticks_def unat_div_distrib)
  have lt: "unat t < 4294967295" if "t \<noteq> UINT32_MAX"
  proof -
    have "unat t \<noteq> 4294967295"
      using that by (simp add: UINT32_MAX_def word_unat_eq_iff)
    with unat_u32_lt [of t] show ?thesis by linarith
  qed
  have "?ticks = portMAX_DELAY \<longleftrightarrow> t = UINT32_MAX"
  proof (cases "t = UINT32_MAX")
    case False
    have "unat ?ticks < 4294967295"
      using div [OF False] lt [OF False] div_le_dividend [of "unat t" ?p] by linarith
    then have "?ticks \<noteq> portMAX_DELAY" by (auto simp: portMAX_DELAY_def)
    with False show ?thesis by simp
  qed (simp add: timeout_to_ticks_def)
  moreover have "unat ?ticks * ?p \<le> unat t \<and> unat t < (unat ?ticks + 1) * ?p" if "t \<noteq> UINT32_MAX"
    using div [OF that] p dividend_less_div_times [of ?p "unat t"] by (simp add: algebra_simps)
  ultimately show ?thesis
    by (intro exI [of _ ?ticks])
      (simp add: mmosal_mutex_get_def mmosal_sem_wait_def mmosal_semb_wait_def mmosal_queue_pop_def
        mmosal_queue_push_def)
qed

lemma mmosal_timeouts_witness:
  "\<forall>(sa :: unit sem_api) m k. \<exists>ticks.
     mmosal_sem_wait \<lparr>portTICK_PERIOD_MS = 10, pdMS_TO_TICKS = \<lambda>x. x div 10\<rparr> sa m 25 k =
     (let (r, k1) = xSemaphoreTake sa m ticks k in (r = pdPASS, k1)) \<and> unat ticks = 2"
proof (intro allI)
  fix sa :: "unit sem_api" and m k
  have ne: "(25 :: u32) \<noteq> UINT32_MAX" by (simp add: UINT32_MAX_def)
  have "portTICK_PERIOD_MS \<lparr>portTICK_PERIOD_MS = 10, pdMS_TO_TICKS = \<lambda>x. x div 10\<rparr> \<noteq> 0" by simp
  from mmosal_timeouts [OF this, of sa m 25 k "undefined :: (unit, unit) queue_api"] ne
  obtain ticks where
    "mmosal_sem_wait \<lparr>portTICK_PERIOD_MS = 10, pdMS_TO_TICKS = \<lambda>x. x div 10\<rparr> sa m 25 k =
      (let (r, k1) = xSemaphoreTake sa m ticks k in (r = pdPASS, k1))"
    "unat ticks * 10 \<le> 25" "25 < (unat ticks + 1) * 10"
    by auto
  moreover from this(2,3) have "unat ticks = 2" by presburger
  ultimately show "\<exists>ticks.
     mmosal_sem_wait \<lparr>portTICK_PERIOD_MS = 10, pdMS_TO_TICKS = \<lambda>x. x div 10\<rparr> sa m 25 k =
     (let (r, k1) = xSemaphoreTake sa m ticks k in (r = pdPASS, k1)) \<and> unat ticks = 2" by blast
qed

section \<open>The life of a task\<close>

text \<open>
  The argument block of a new task is released exactly once. If the block cannot be allocated or
  the task cannot be created, \<open>mmosal_task_create\<close> returns NULL and no block is left behind; otherwise
  the block stays until the task starts, which reads back the very function and argument it was
  created with, frees the block before it runs the function, deletes itself afterwards, and cannot be
  started a second time with the same block.
\<close>

theorem mmosal_task_lifecycle:
  fixes h :: "'k heap_api" and run :: "nat \<Rightarrow> 'a \<Rightarrow> ('a, 'k) task_state \<Rightarrow> ('a, 'k) task_state"
  assumes fresh: "\<And>p k1. pvPortMalloc h 8 k = (Some p, k1) \<Longrightarrow> blocks p = None"
    and create: "mmosal_task_create h ta fn a prio stack name (blocks, k) = (r, (blocks', k'))"
  shows "case r of
      None \<Rightarrow> blocks' = blocks \<and>
        (\<forall>p k1 k2. pvPortMalloc h 8 k = (Some p, k1) \<and> xTaskCreate ta name (stack * 4) p prio k1 = (None, k2)
           \<longrightarrow> k' = vPortFree h p k2)
    | Some t \<Rightarrow> \<exists>p k1. pvPortMalloc h 8 k = (Some p, k1) \<and>
        xTaskCreate ta name (stack * 4) p prio k1 = (Some t, k') \<and> dom blocks' = insert p (dom blocks) \<and>
        (\<forall>k3. mmosal_task_main h ta run p (blocks', k3) =
           Inr (let (b, k4) = run fn a (blocks, vPortFree h p k3) in (b, vTaskDelete ta None k4)) \<and>
           mmosal_task_main h ta run p (blocks, k3) = Inl Dangling)"
proof (cases "pvPortMalloc h 8 k")
  case (Pair mp k1)
  show ?thesis
  proof (cases mp)
    case None
    with Pair create show ?thesis by (auto simp: mmosal_task_create_def mmosal_malloc_def)
  next
    case (Some p)
    then have undo: "blocks(p := None) = blocks" using fresh [of p k1] Pair by (simp add: fun_upd_idem)
    obtain q k2 where tc: "xTaskCreate ta name (stack * 4) p prio k1 = (q, k2)" by fastforce
    show ?thesis
      using create Pair Some tc undo fresh [of p k1]
      by (cases q) (auto simp: mmosal_task_create_def mmosal_malloc_def tskIDLE_PRIORITY_def arg_free_def
          mmosal_free_def mmosal_task_main_def mmosal_task_delete_def Let_def split: prod.split)
  qed
qed

text \<open>A heap with one free block and a scheduler that always creates the task.\<close>

definition one_block_heap :: "nat list heap_api" where
  "one_block_heap = \<lparr>pvPortMalloc = (\<lambda>n k. case k of [] \<Rightarrow> (None, []) | p # ps \<Rightarrow> (Some p, ps)),
     vPortFree = (\<lambda>p k. p # k), libc_realloc = (\<lambda>p n k. (p, k))\<rparr>"

definition plain_tasks :: "'k task_api" where
  "plain_tasks = \<lparr>xTaskCreate = (\<lambda>name n p prio k. (Some 7, k)), vTaskDelete = (\<lambda>t k. k),
     task_is_deleted = (\<lambda>t k. True), vTaskDelay = (\<lambda>n k. k), taskYIELD = (\<lambda>k. k),
     xTaskGetCurrentTaskHandle = (\<lambda>k. 7), pcTaskGetName = (\<lambda>t k. ''main''),
     ulTaskNotifyTake = (\<lambda>w k. (1, k)), xTaskNotifyGive = (\<lambda>t k. k),
     vTaskNotifyGiveFromISR = (\<lambda>t k. (False, k)), portYIELD_FROM_ISR = (\<lambda>b k. k),
     xTaskGetTickCount = (\<lambda>k. 0)\<rparr>"

lemma mmosal_task_lifecycle_witness:
  "mmosal_task_main one_block_heap plain_tasks (\<lambda>f a s. s) 4 (Map.empty(4 \<mapsto> \<lparr>task_fn = 3, task_fn_arg = True\<rparr>), [])
     = Inr (Map.empty, [4])"
proof -
  have c: "mmosal_task_create one_block_heap plain_tasks 3 True 1 256 ''t'' (Map.empty, [4]) =
      (Some 7, (Map.empty(4 \<mapsto> \<lparr>task_fn = 3, task_fn_arg = True\<rparr>), []))"
    by (simp add: mmosal_task_create_def mmosal_malloc_def one_block_heap_def plain_tasks_def tskIDLE_PRIORITY_def)
  have "pvPortMalloc one_block_heap 8 [4] = (Some 4, [])" by (simp add: one_block_heap_def)
  moreover have "vPortFree one_block_heap 4 k = 4 # k" "vTaskDelete plain_tasks None k = k" for k
    by (simp_all add: one_block_heap_def plain_tasks_def)
  ultimately show ?thesis
    using mmosal_task_lifecycle [OF _ c, of "\<lambda>f a s. s"] by auto
qed

text \<open>Joining a task that ends: the loop sleeps as often as needed and returns.\<close>

lemma mmosal_task_join_returns:
  assumes "task_is_deleted ta t (((mmosal_task_sleep c ta 10) ^^ n) k)"
  shows "\<exists>m \<le> n. mmosal_task_join c ta t k = Some (((mmosal_task_sleep c ta 10) ^^ m) k)"
  using assms
proof (induction n arbitrary: k)
  case 0
  then show ?case by (subst mmosal_task_join.simps) simp
next
  case (Suc n)
  show ?case
  proof (cases "task_is_deleted ta t k")
    case True
    then show ?thesis by (subst mmosal_task_join.simps) (auto intro: exI [of _ 0])
  next
    case False
    have "task_is_deleted ta t (((mmosal_task_sleep c ta 10) ^^ n) (mmosal_task_sleep c ta 10 k))"
      using Suc.prems by (simp add: funpow_swap1)
    from Suc.IH [OF this] obtain m where "m \<le> n"
      "mmosal_task_join c ta t (mmosal_task_sleep c ta 10 k) =
        Some (((mmosal_task_sleep c ta 10) ^^ m) (mmosal_task_sleep c ta 10 k))" by blast
    with False show ?thesis
      by (subst mmosal_task_join.simps) (auto intro!: exI [of _ "Suc m"] simp: funpow_swap1)
  qed
qed

end
