(* ===== verification/Mmosal.thy ===== *)
theory Mmosal
  imports MM_Prelude
begin

text \<open>
  The OS abstraction: the inline helpers of mmosal.h and the failure log of
  mmosal_shim_freertos_esp32.c that survives a reset. The wrappers around FreeRTOS are in
  Mmosal_Rtos.
\<close>

section \<open>Times that wrap (mmosal.h)\<close>

definition mmosal_time_lt :: "u32 \<Rightarrow> u32 \<Rightarrow> bool" where
  "mmosal_time_lt a b \<longleftrightarrow> sint (a - b) < 0"

definition mmosal_time_le :: "u32 \<Rightarrow> u32 \<Rightarrow> bool" where
  "mmosal_time_le a b \<longleftrightarrow> sint (a - b) \<le> 0"

definition mmosal_time_max :: "u32 \<Rightarrow> u32 \<Rightarrow> u32" where
  "mmosal_time_max a b = (if mmosal_time_lt a b then b else a)"

text \<open>\<open>now\<close> is what \<open>mmosal_get_time_ms\<close> returns.\<close>

definition mmosal_time_has_passed :: "u32 \<Rightarrow> u32 \<Rightarrow> bool" where
  "mmosal_time_has_passed now t = mmosal_time_le t now"

section \<open>Copying strings (mmosal.h)\<close>

definition mmosal_safer_strcpy :: "u8 list \<Rightarrow> u8 list \<Rightarrow> u32 \<Rightarrow> (bool \<times> u8 list) result" where
  "mmosal_safer_strcpy dst src sz =
     (if sz = 0 then Inr (True, dst)
      else rbind (strncpy_bytes (unat sz) src) (\<lambda>bytes.
           rbind (mem_write dst 0 bytes) (\<lambda>dst1.
           rbind (mem_get dst1 (unat (sz - 1))) (\<lambda>last.
           rbind (mem_write dst1 (unat (sz - 1)) [0]) (\<lambda>dst2.
             Inr (last \<noteq> 0, dst2))))))"

section \<open>The failure log\<close>

record mmosal_failure_info =
  pc :: u32
  lr :: u32
  fileid :: u32
  line :: u32
  platform_info :: "u32 list"

record preserved_failure_info =
  magic :: u32
  failure_count :: u32
  displayed_failure_count :: u32
  info :: "mmosal_failure_info list"

definition MAX_FAILURE_RECORDS :: u32 where "MAX_FAILURE_RECORDS = 4"
definition ASSERT_INFO_MAGIC :: u32 where "ASSERT_INFO_MAGIC = 0xabcd1234"

definition FAST_MOD :: "u32 \<Rightarrow> u32 \<Rightarrow> u32" where
  "FAST_MOD x m = x AND (m - 1)"

definition mmosal_log_failure_info ::
    "preserved_failure_info \<Rightarrow> mmosal_failure_info \<Rightarrow> preserved_failure_info" where
  "mmosal_log_failure_info st i =
     (let st1 = (if magic st \<noteq> ASSERT_INFO_MAGIC
                 then st\<lparr>failure_count := 0, displayed_failure_count := 0\<rparr> else st);
          st2 = st1\<lparr>magic := ASSERT_INFO_MAGIC\<rparr>;
          record_num = FAST_MOD (failure_count st2) MAX_FAILURE_RECORDS;
          st3 = st2\<lparr>failure_count := failure_count st2 + 1\<rparr>
      in st3\<lparr>info := (info st3)[unat record_num := i]\<rparr>)"

text \<open>What is printed: for each failure its number and its record.\<close>

definition mmosal_dump_failure_info ::
    "preserved_failure_info \<Rightarrow> (u32 \<times> mmosal_failure_info) list \<times> preserved_failure_info" where
  "mmosal_dump_failure_info st =
     (let first_failure_num = displayed_failure_count st;
          new_failure_count = failure_count st - displayed_failure_count st;
          (first_failure_num, new_failure_count) =
            (if new_failure_count \<ge> MAX_FAILURE_RECORDS
             then (FAST_MOD (failure_count st) MAX_FAILURE_RECORDS, MAX_FAILURE_RECORDS)
             else (first_failure_num, new_failure_count))
      in (map (\<lambda>off. let idx = FAST_MOD (first_failure_num + of_nat off) MAX_FAILURE_RECORDS
                      in (first_failure_num + of_nat off, info st ! unat idx)) [0 ..< unat new_failure_count],
          st\<lparr>displayed_failure_count := failure_count st\<rparr>))"

text \<open>The system initialisation function: at boot the log is printed when its magic number is there.\<close>

definition dump_failure_info_init ::
    "preserved_failure_info \<Rightarrow> (u32 \<times> mmosal_failure_info) list \<times> preserved_failure_info" where
  "dump_failure_info_init st =
     (if magic st = ASSERT_INFO_MAGIC then mmosal_dump_failure_info st else ([], st))"

section \<open>Times\<close>

lemma sint_of_int_u32: "-2147483648 \<le> z \<Longrightarrow> z < 2147483648 \<Longrightarrow> sint (of_int z :: u32) = z"
  by (simp add: signed_of_int signed_take_bit_int_eq_self)

text \<open>
  The comparisons of wrapped 32-bit times agree with the true times, counted without wrapping,
  whenever the two are less than 2 to the 31 apart; \<open>mmosal_time_max\<close> is then the later one.
\<close>

theorem mmosal_time_order:
  fixes x y :: int
  assumes "\<bar>x - y\<bar> < 2147483648"
  shows "(mmosal_time_lt (of_int x) (of_int y) \<longleftrightarrow> x < y) \<and>
    (mmosal_time_le (of_int x) (of_int y) \<longleftrightarrow> x \<le> y) \<and>
    mmosal_time_max (of_int x) (of_int y) = of_int (max x y)"
proof -
  have "sint (of_int x - of_int y :: u32) = x - y"
    using sint_of_int_u32 [of "x - y"] assms by simp
  then show ?thesis
    by (auto simp: mmosal_time_lt_def mmosal_time_le_def mmosal_time_max_def max_def)
qed

lemma mmosal_time_order_witness:
  "mmosal_time_lt 0xffffffff 5 \<and> \<not> mmosal_time_lt 5 0xffffffff \<and> mmosal_time_max 0xffffffff 5 = 5"
proof -
  have "(of_int 4294967301 :: u32) = 5" by simp
  then have eq: "(4294967301 :: u32) = 5" by (simp only: of_int_numeral)
  show ?thesis
    using mmosal_time_order [of 4294967295 4294967301] mmosal_time_order [of 4294967301 4294967295]
    unfolding of_int_numeral eq by simp
qed

text \<open>
  \<open>mmosal_safer_strcpy\<close> of a terminated string writes exactly \<open>size\<close> bytes of the destination and
  leaves there the string cut to \<open>size - 1\<close> characters, always terminated; it returns true exactly
  when characters were lost.
\<close>

theorem mmosal_safer_strcpy_ok:
  assumes "0 \<in> set src" "0 < unat sz" "unat sz \<le> length dst"
  shows "\<exists>bytes. mmosal_safer_strcpy dst src sz
      = Inr (unat sz \<le> length (c_string src), bytes @ drop (unat sz) dst) \<and>
    length bytes = unat sz \<and> c_string bytes = take (unat sz - 1) (c_string src) \<and> last bytes = 0"
proof -
  let ?n = "unat sz" and ?s = "c_string src"
  let ?b = "take ?n (?s @ replicate ?n 0)"
  have sz: "sz \<noteq> 0" using assms(2) by auto
  then have sz1: "unat (sz - 1) = ?n - 1" by (rule unat_minus_one)
  have lb: "length ?b = ?n" by simp
  have nz: "0 \<notin> set ?s" by (auto simp: c_string_def dest: set_takeWhileD)
  have last: "?b ! (?n - 1) \<noteq> 0 \<longleftrightarrow> ?n \<le> length ?s"
  proof (cases "?n \<le> length ?s")
    case True
    then have "?b ! (?n - 1) \<in> set ?s" using assms(2) by (simp add: nth_append)
    with nz True show ?thesis by metis
  next
    case False
    then have "\<not> ?n - 1 < length ?s" using assms(2) by linarith
    with False show ?thesis using assms(2) by (simp add: nth_append)
  qed
  let ?bytes = "take (?n - 1) ?b @ [0]"
  define b where "b = ?b"
  have b: "strncpy_bytes ?n src = Inr b" "length b = ?n" "b ! (?n - 1) \<noteq> 0 \<longleftrightarrow> ?n \<le> length ?s"
    using strncpy_bytes_ok [OF assms(1)] last by (simp_all only: b_def lb)
  have run: "mmosal_safer_strcpy dst src sz = Inr (?n \<le> length ?s, ?bytes @ drop ?n dst)"
    unfolding b_def [symmetric]
    using assms(2,3) sz b by (simp add: mmosal_safer_strcpy_def sz1 nth_append)
  have "take (?n - 1) ?b = take (?n - 1) ?s @ replicate (?n - 1 - length ?s) 0"
    by (simp add: min_def)
  moreover have "takeWhile (\<lambda>c. c \<noteq> 0) (take (?n - 1) ?s @ replicate (?n - 1 - length ?s) 0 @ [0]) = take (?n - 1) ?s"
  proof -
    have "\<forall>c \<in> set (take (?n - 1) ?s). c \<noteq> 0" using nz by (metis in_set_takeD)
    then show ?thesis by (cases "?n - 1 - length ?s") (simp_all add: takeWhile_append2)
  qed
  ultimately have "c_string ?bytes = take (?n - 1) ?s" by (simp add: c_string_def)
  with run lb assms(2) show ?thesis by (intro exI [of _ ?bytes]) simp
qed

lemma mmosal_safer_strcpy_ok_witness:
  "\<exists>bytes. mmosal_safer_strcpy [9, 9, 9, 9] [72, 105, 33, 0] 3 = Inr (True, bytes @ [9]) \<and>
     c_string bytes = [72, 105]"
  using mmosal_safer_strcpy_ok [of "[72, 105, 33, 0]" 3 "[9, 9, 9, 9]"] by (auto simp: c_string_def)

section \<open>The failure log is a ring of the last four failures\<close>

lemma unat_FAST_MOD_4: "unat (FAST_MOD x MAX_FAILURE_RECORDS) = unat x mod 4"
proof -
  have "(3 :: u32) = mask 2" by (simp add: mask_eq_exp_minus_1)
  then have "x AND 3 = take_bit 2 x" by (simp add: take_bit_eq_mask)
  then show ?thesis
    by (simp add: FAST_MOD_def MAX_FAILURE_RECORDS_def take_bit_eq_mod unat_mod_distrib)
qed

text \<open>
  \<open>hs\<close> are all failures since the log became valid, of which the first \<open>d\<close> were displayed. The counts
  are kept modulo 2 to the 32 and the last four failures are in the ring at their number modulo four.
\<close>

definition log_rep :: "preserved_failure_info \<Rightarrow> mmosal_failure_info list \<Rightarrow> nat \<Rightarrow> bool" where
  "log_rep st hs d \<longleftrightarrow> magic st = ASSERT_INFO_MAGIC \<and> failure_count st = of_nat (length hs) \<and>
     displayed_failure_count st = of_nat d \<and> d \<le> length hs \<and> length (info st) = 4 \<and>
     (\<forall>j < length hs. length hs \<le> j + 4 \<longrightarrow> info st ! (j mod 4) = hs ! j)"

definition logged :: "preserved_failure_info \<Rightarrow> mmosal_failure_info list \<Rightarrow> preserved_failure_info" where
  "logged st hs = foldl mmosal_log_failure_info st hs"

lemma mod_u32_mod4 [simp]: "n mod 4294967296 mod 4 = n mod (4 :: nat)"
  by (rule mod_mod_cancel) simp

lemma unat_of_nat_mod4: "unat (of_nat n :: u32) mod 4 = n mod 4"
  by (simp add: unat_of_nat)

lemma unat_sum_mod4: "unat (of_nat a + of_nat b :: u32) mod 4 = (a + b) mod 4"
  by (metis of_nat_add unat_of_nat_mod4)

lemma mod4_distinct:
  assumes "j < n" "n \<le> j + 3"
  shows "j mod 4 \<noteq> n mod (4 :: nat)"
proof
  assume "j mod 4 = n mod 4"
  then have "4 dvd n - j" using assms(1) by (metis less_imp_le mod_eq_dvd_iff_nat)
  with assms show False by (auto dest: dvd_imp_le)
qed

lemma log_step:
  assumes "log_rep st hs d"
  shows "log_rep (mmosal_log_failure_info st i) (hs @ [i]) d"
proof -
  let ?n = "length hs"
  have num: "unat (FAST_MOD (failure_count st) MAX_FAILURE_RECORDS) = ?n mod 4"
    using assms by (simp add: unat_FAST_MOD_4 log_rep_def unat_of_nat_mod4)
  have ring: "(info st)[?n mod 4 := i] ! (j mod 4) = (hs @ [i]) ! j"
    if "j < length (hs @ [i])" "length (hs @ [i]) \<le> j + 4" for j
  proof (cases "j = ?n")
    case True
    then show ?thesis using assms by (simp add: log_rep_def)
  next
    case False
    with that have "j < ?n" "?n \<le> j + 3" by auto
    with mod4_distinct [OF this] assms show ?thesis by (simp add: log_rep_def nth_append)
  qed
  show ?thesis
    using assms num ring by (simp add: log_rep_def mmosal_log_failure_info_def Let_def)
qed

lemma log_steps: "log_rep st hs d \<Longrightarrow> log_rep (logged st fs) (hs @ fs) d"
proof (induction fs arbitrary: st hs)
  case (Cons f fs)
  from Cons.IH [OF log_step [OF Cons.prems, of f]] show ?case by (simp add: logged_def)
qed (simp add: logged_def)

text \<open>A log whose magic number is missing (after power-up) starts empty.\<close>

lemma log_first:
  assumes "magic st \<noteq> ASSERT_INFO_MAGIC" "length (info st) = 4"
  shows "log_rep (mmosal_log_failure_info st i) [i] 0"
  using assms by (simp add: log_rep_def mmosal_log_failure_info_def Let_def FAST_MOD_def)

lemma dump_lists:
  assumes rep: "log_rep st hs d" and new: "length hs - d < 4294967296"
  defines "k \<equiv> min 4 (length hs - d)"
  shows "map snd (fst (mmosal_dump_failure_info st)) = drop (length hs - k) hs"
    and "map fst (fst (mmosal_dump_failure_info st))
      = map (\<lambda>o1. of_nat ((if length hs - d < 4 then d else length hs mod 4) + o1)) [0 ..< k]"
    and "log_rep (snd (mmosal_dump_failure_info st)) hs (length hs)"
proof -
  let ?n = "length hs"
  define start where "start = (if ?n - d < 4 then d else ?n mod 4)"
  have d: "d \<le> ?n" using rep by (simp add: log_rep_def)
  have cnt: "unat (failure_count st - displayed_failure_count st) = ?n - d"
  proof -
    have "failure_count st - displayed_failure_count st = of_nat (?n - d)"
      using rep by (simp add: log_rep_def of_nat_diff)
    then show ?thesis using new by simp
  qed
  have disp: "displayed_failure_count st = of_nat d" using rep by (simp add: log_rep_def)
  have fm: "FAST_MOD (failure_count st) MAX_FAILURE_RECORDS = of_nat (?n mod 4)"
    by (rule word_unat_eq_iff [THEN iffD2])
      (use rep in \<open>simp add: unat_FAST_MOD_4 log_rep_def unat_of_nat_mod4 unat_of_nat\<close>)
  have idx: "(start + o1) mod 4 = (?n - k + o1) mod 4" for o1
  proof (cases "?n - d < 4")
    case True
    then have "?n - k = d" using d by (simp add: k_def)
    with True show ?thesis by (simp add: start_def)
  next
    case False
    then have "?n = (?n - k) + 4" using d by (simp add: k_def)
    then have "?n mod 4 = (?n - k) mod 4" by (metis mod_add_self2)
    with False show ?thesis by (simp add: start_def mod_add_left_eq)
  qed
  have out: "fst (mmosal_dump_failure_info st)
      = map (\<lambda>o1. (of_nat (start + o1), info st ! ((start + o1) mod 4))) [0 ..< k]"
  proof (cases "?n - d < 4")
    case True
    then have "\<not> MAX_FAILURE_RECORDS \<le> failure_count st - displayed_failure_count st"
      by (simp add: u32_le_iff cnt MAX_FAILURE_RECORDS_def)
    then show ?thesis
      using True disp by (simp add: mmosal_dump_failure_info_def Let_def cnt [unfolded disp] k_def
          start_def unat_FAST_MOD_4 unat_sum_mod4)
  next
    case False
    then have ge: "MAX_FAILURE_RECORDS \<le> failure_count st - displayed_failure_count st"
      by (simp add: u32_le_iff cnt MAX_FAILURE_RECORDS_def)
    have four: "unat MAX_FAILURE_RECORDS = 4" by (simp add: MAX_FAILURE_RECORDS_def)
    show ?thesis
      using ge False by (simp add: mmosal_dump_failure_info_def Let_def fm four k_def start_def
          unat_FAST_MOD_4 unat_sum_mod4)
  qed
  have "map snd (fst (mmosal_dump_failure_info st)) = map (\<lambda>o1. info st ! ((?n - k + o1) mod 4)) [0 ..< k]"
    by (simp add: out idx)
  also have "\<dots> = map (\<lambda>o1. hs ! (?n - k + o1)) [0 ..< k]"
    using rep by (auto simp: log_rep_def k_def)
  also have "\<dots> = drop (?n - k) hs"
    by (rule nth_equalityI) (simp_all add: k_def)
  finally show "map snd (fst (mmosal_dump_failure_info st)) = drop (?n - k) hs" .
  show "map fst (fst (mmosal_dump_failure_info st))
      = map (\<lambda>o1. of_nat ((if ?n - d < 4 then d else ?n mod 4) + o1)) [0 ..< k]"
    by (simp add: out start_def)
  show "log_rep (snd (mmosal_dump_failure_info st)) hs ?n"
    using rep by (simp add: log_rep_def mmosal_dump_failure_info_def Let_def split_beta)
qed

text \<open>
  However many failures are logged, and across the wrap of the 32-bit counters, the dump at the
  next boot prints the records of the last four failures that were not displayed before (or of all
  of them, when there are fewer), oldest first, and marks all as displayed.
\<close>

theorem failure_log_keeps_last_four:
  assumes "log_rep st hs d" and "length hs + length fs - d < 4294967296"
  shows "let (out, st') = dump_failure_info_init (logged st fs) in
    map snd out = drop (length (hs @ fs) - min 4 (length (hs @ fs) - d)) (hs @ fs) \<and>
    log_rep st' (hs @ fs) (length (hs @ fs))"
proof -
  have rep: "log_rep (logged st fs) (hs @ fs) d" by (rule log_steps [OF assms(1)])
  then have "dump_failure_info_init (logged st fs) = mmosal_dump_failure_info (logged st fs)"
    by (simp add: dump_failure_info_init_def log_rep_def)
  with dump_lists(1,3) [OF rep] assms(2) show ?thesis by (simp add: split_beta)
qed

lemma map_plus_upt: "map ((+) c) [0 ..< k] = [c ..< c + k]"
  by (rule nth_equalityI) simp_all

text \<open>
  The printed failure numbers are the running numbers of the failures as long as fewer than four
  are new; with four or more new failures they restart from the count modulo four.
\<close>

theorem failure_log_numbers:
  assumes "log_rep st hs d" and "length hs - d < 4294967296"
  shows "map fst (fst (mmosal_dump_failure_info st)) =
    (if length hs - d < 4 then map of_nat [d ..< length hs]
     else map of_nat [length hs mod 4 ..< length hs mod 4 + 4])"
proof -
  have "d \<le> length hs" using assms(1) by (simp add: log_rep_def)
  then have new: "d + (length hs - d) = length hs" by simp
  have "map (\<lambda>o1. of_nat (c + o1) :: u32) [0 ..< k] = map of_nat [c ..< c + k]" for c k
    using map_plus_upt [of c k, symmetric] by simp
  from this [of d "length hs - d"] this [of "length hs mod 4" 4] show ?thesis
    using dump_lists(2) [OF assms] unfolding new by (simp add: min_def split: if_splits)
qed

definition sample_failure :: "nat \<Rightarrow> mmosal_failure_info" where
  "sample_failure n = \<lparr>pc = of_nat n, lr = 0, fileid = 1, line = 100 + of_nat n, platform_info = [0, 0, 0, 0]\<rparr>"

definition sample_log :: preserved_failure_info where
  "sample_log = \<lparr>magic = ASSERT_INFO_MAGIC, failure_count = 1, displayed_failure_count = 1,
     info = replicate 4 (sample_failure 0)\<rparr>"

lemma sample_log_rep: "log_rep sample_log [sample_failure 0] 1"
  by (simp add: log_rep_def sample_log_def)

lemma failure_log_keeps_last_four_witness:
  "map snd (fst (dump_failure_info_init (logged sample_log (map sample_failure [1, 2, 3, 4, 5, 6]))))
     = map sample_failure [3, 4, 5, 6]"
  using failure_log_keeps_last_four [OF sample_log_rep, of "map sample_failure [1, 2, 3, 4, 5, 6]"]
  by (simp add: split_beta)

lemma failure_log_numbers_witness:
  "map fst (fst (mmosal_dump_failure_info (logged sample_log (map sample_failure [1 ..< 7])))) = [3, 4, 5, 6] \<and>
   map fst (fst (mmosal_dump_failure_info (logged sample_log (map sample_failure [1 ..< 8])))) = [0, 1, 2, 3]"
  using failure_log_numbers [OF log_steps [OF sample_log_rep, of "map sample_failure [1 ..< 7]"]]
    failure_log_numbers [OF log_steps [OF sample_log_rep, of "map sample_failure [1 ..< 8]"]]
  by (simp add: upt_rec)

end
