(* ===== verification/Mmhal.thy ===== *)
theory Mmhal
  imports Mmosal
begin

text \<open>
  The hardware layer: random numbers, MAC address and version of mmhal.c, the transceiver's pins and
  SPI transfers of wlan_hal.c, and the readers of the firmware and board configuration images of
  mmhal_wlan_binaries.c. What the code asks of the ESP-IDF drivers is a list of events; what a
  driver answers is a parameter.
\<close>

section \<open>mmhal.c\<close>

text \<open>\<open>random_value\<close> is what \<open>esp_random\<close> returns.\<close>

definition mmhal_random_u32 :: "u32 \<Rightarrow> u32 \<Rightarrow> u32 \<Rightarrow> u32 result" where
  "mmhal_random_u32 random_value mn mx =
     (if mn = 0 \<and> mx = 0xFFFFFFFF then Inr random_value
      else if mx - mn + 1 = 0 then Inl Div_by_zero
      else Inr (random_value mod (mx - mn + 1) + mn))"

text \<open>\<open>esp_read_mac\<close> takes the buffer and returns ESP_OK or not with what it left in the buffer.\<close>

definition mmhal_read_mac_addr :: "(u8 list \<Rightarrow> bool \<times> u8 list) \<Rightarrow> u8 list \<Rightarrow> u8 list result" where
  "mmhal_read_mac_addr esp_read_mac mac_addr =
     (let (ok, buf) = esp_read_mac mac_addr
      in if \<not> ok then Inr buf
         else rbind (mem_get buf 0) (\<lambda>b. mem_write buf 0 [b OR 0x02]))"

definition c_literal :: "string \<Rightarrow> u8 list" where
  "c_literal s = map (\<lambda>c. of_nat (of_char c)) s @ [0]"

definition mmhal_get_hardware_version :: "u8 list \<Rightarrow> u32 \<Rightarrow> (bool \<times> u8 list) result" where
  "mmhal_get_hardware_version version_buffer version_buffer_length =
     rbind (mmosal_safer_strcpy version_buffer (c_literal ''MM-ESP32S3 V1.0'') version_buffer_length)
       (\<lambda>(truncated, buf). Inr (\<not> truncated, buf))"

text \<open>The bytes written to the console, in order.\<close>

fun mmhal_log_write :: "u8 list \<Rightarrow> u32 \<Rightarrow> u8 list result" where
  "mmhal_log_write data len =
     (if len = 0 then Inr []
      else case data of
             [] \<Rightarrow> Inl Out_of_bounds
           | c # cs \<Rightarrow> rbind (mmhal_log_write cs (len - 1)) (\<lambda>out. Inr (c # out)))"

section \<open>Driver events\<close>

datatype gpio_mode = GPIO_MODE_INPUT | GPIO_MODE_OUTPUT
datatype gpio_intr = GPIO_INTR_DISABLE | GPIO_INTR_LOW_LEVEL | GPIO_INTR_POSEDGE

record gpio_config_t =
  pin_bit_mask :: "64 word"
  gpio_mode_of :: gpio_mode
  pull_up_en :: bool
  pull_down_en :: bool
  intr_type :: gpio_intr

text \<open>A transfer: what is sent, the area to receive into, and the length in bits.\<close>

record spi_transaction_t =
  tx_buffer :: "u8 list option"
  rx_buffer :: "u8 list option"
  bit_length :: u32

datatype hal_event =
    Gpio_config gpio_config_t
  | Gpio_set_level nat bool
  | Gpio_set_intr_type nat gpio_intr
  | Gpio_install_isr_service
  | Gpio_isr_handler_add nat nat
  | Gpio_isr_handler_remove nat
  | Spi_bus_initialize
  | Spi_bus_add_device nat
  | Spi_bus_remove_device nat
  | Spi_bus_free
  | Spi_polling_transmit nat spi_transaction_t
  | Spi_transmit nat spi_transaction_t
  | Task_sleep u32
  | Print string

text \<open>
  The pins of the board. halow_config.h lists these numbers in a comment only; the board package of the tool chain
  defines them, and main.cpp uses 9, 6 and 7 for reset and the two interrupts.
\<close>

definition CONFIG_MM_RESET_N :: nat where "CONFIG_MM_RESET_N = 9"
definition CONFIG_MM_WAKE :: nat where "CONFIG_MM_WAKE = 8"
definition CONFIG_MM_BUSY :: nat where "CONFIG_MM_BUSY = 7"
definition CONFIG_MM_SPI_CS :: nat where "CONFIG_MM_SPI_CS = 2"
definition CONFIG_MM_SPI_IRQ :: nat where "CONFIG_MM_SPI_IRQ = 6"

lemmas pin_defs = CONFIG_MM_RESET_N_def CONFIG_MM_WAKE_def CONFIG_MM_BUSY_def CONFIG_MM_SPI_CS_def
  CONFIG_MM_SPI_IRQ_def

text \<open>
  What the SPI driver answers: whether the bus and the device come up (with the device's handle),
  whether they can be removed, and for a transfer whether it succeeds and what is then in the
  receive area.
\<close>

record spi_driver =
  bus_initialize_ok :: bool
  add_device :: "nat option"
  remove_device_ok :: bool
  bus_free_ok :: bool
  transmit :: "spi_transaction_t \<Rightarrow> bool \<times> u8 list"

record wlan_hal =
  spi_irq_handler :: "nat option"
  busy_irq_handler :: "nat option"
  spi_handle :: nat
  trace :: "hal_event list"

definition emit :: "hal_event list \<Rightarrow> wlan_hal \<Rightarrow> wlan_hal" where
  "emit es s = s\<lparr>trace := trace s @ es\<rparr>"

definition mmhal_init :: "wlan_hal \<Rightarrow> wlan_hal" where
  "mmhal_init = emit
     [Gpio_config \<lparr>pin_bit_mask = push_bit CONFIG_MM_RESET_N 1, gpio_mode_of = GPIO_MODE_OUTPUT,
        pull_up_en = False, pull_down_en = False, intr_type = GPIO_INTR_DISABLE\<rparr>,
      Gpio_set_level CONFIG_MM_RESET_N False,
      Gpio_install_isr_service]"

section \<open>wlan_hal.c\<close>

definition wlan_hal_gpio_init :: "wlan_hal \<Rightarrow> wlan_hal" where
  "wlan_hal_gpio_init =
     (let outs = \<lparr>pin_bit_mask = push_bit CONFIG_MM_WAKE 1 OR push_bit CONFIG_MM_SPI_CS 1,
            gpio_mode_of = GPIO_MODE_OUTPUT, pull_up_en = False, pull_down_en = False,
            intr_type = GPIO_INTR_DISABLE\<rparr>;
          busy = outs\<lparr>intr_type := GPIO_INTR_DISABLE, gpio_mode_of := GPIO_MODE_INPUT,
            pin_bit_mask := push_bit CONFIG_MM_BUSY 1, pull_down_en := True\<rparr>;
          irq = busy\<lparr>intr_type := GPIO_INTR_DISABLE, gpio_mode_of := GPIO_MODE_INPUT,
            pin_bit_mask := push_bit CONFIG_MM_SPI_IRQ 1, pull_down_en := False\<rparr>
      in emit [Gpio_config outs, Gpio_set_level CONFIG_MM_WAKE False, Gpio_set_level CONFIG_MM_SPI_CS False,
               Gpio_config busy, Gpio_config irq])"

text \<open>A failing call is reported and the next one is made all the same.\<close>

definition wlan_hal_spi_init :: "spi_driver \<Rightarrow> wlan_hal \<Rightarrow> wlan_hal" where
  "wlan_hal_spi_init d s =
     (let s1 = emit [Spi_bus_initialize] s;
          s2 = (if bus_initialize_ok d then s1 else emit [Print ''spi_bus_initialize failed''] s1);
          s3 = emit [Spi_bus_add_device 40000000] s2
      in (case add_device d of
            Some hnd \<Rightarrow> s3\<lparr>spi_handle := hnd\<rparr>
          | None \<Rightarrow> emit [Print ''spi_bus_add_device failed''] s3))"

definition wlan_hal_spi_deinit :: "spi_driver \<Rightarrow> wlan_hal \<Rightarrow> wlan_hal" where
  "wlan_hal_spi_deinit d s =
     (let s1 = emit [Spi_bus_remove_device (spi_handle s)] s;
          s2 = (if remove_device_ok d then s1 else emit [Print ''spi_bus_remove_device failed''] s1);
          s3 = emit [Spi_bus_free] s2
      in if bus_free_ok d then s3 else emit [Print ''spi_bus_initialize failed''] s3)"

definition INTERRUPT_TRANSFER_MIN_LENGTH :: u32 where "INTERRUPT_TRANSFER_MIN_LENGTH = 75"
definition BYTE_TRAIN :: u32 where "BYTE_TRAIN = 16"

text \<open>The result is the receive area after the transfer.\<close>

definition spi_master_rw ::
    "spi_driver \<Rightarrow> u8 list option \<Rightarrow> u8 list option \<Rightarrow> u32 \<Rightarrow> wlan_hal \<Rightarrow> u8 list \<times> wlan_hal" where
  "spi_master_rw d w_data r_data len s =
     (let trans_desc = \<lparr>tx_buffer = w_data, rx_buffer = r_data, bit_length = len * 8\<rparr>;
          (ok, received) = transmit d trans_desc;
          s1 = emit [if len < INTERRUPT_TRANSFER_MIN_LENGTH then Spi_polling_transmit (spi_handle s) trans_desc
                     else Spi_transmit (spi_handle s) trans_desc] s
      in (received, if ok then s1 else emit [Print ''SPI rw error''] s1))"

definition mmhal_wlan_hard_reset :: "wlan_hal \<Rightarrow> wlan_hal" where
  "mmhal_wlan_hard_reset = emit
     [Gpio_set_level CONFIG_MM_RESET_N False, Task_sleep 5, Gpio_set_level CONFIG_MM_RESET_N True, Task_sleep 20]"

definition mmhal_wlan_spi_cs_assert :: "wlan_hal \<Rightarrow> wlan_hal" where
  "mmhal_wlan_spi_cs_assert = emit [Gpio_set_level CONFIG_MM_SPI_CS False]"

definition mmhal_wlan_spi_cs_deassert :: "wlan_hal \<Rightarrow> wlan_hal" where
  "mmhal_wlan_spi_cs_deassert = emit [Gpio_set_level CONFIG_MM_SPI_CS True]"

text \<open>\<open>junk\<close> is what the uninitialised \<open>readval\<close> holds before the transfer.\<close>

definition mmhal_wlan_spi_rw :: "spi_driver \<Rightarrow> u8 \<Rightarrow> u8 \<Rightarrow> wlan_hal \<Rightarrow> u8 result \<times> wlan_hal" where
  "mmhal_wlan_spi_rw d junk data s =
     (let (received, s1) = spi_master_rw d (Some [data]) (Some [junk]) 1 s in (mem_get received 0, s1))"

definition mmhal_wlan_spi_read_buf :: "spi_driver \<Rightarrow> u8 list \<Rightarrow> u32 \<Rightarrow> wlan_hal \<Rightarrow> u8 list \<times> wlan_hal" where
  "mmhal_wlan_spi_read_buf d buf len s = spi_master_rw d None (Some buf) len s"

definition mmhal_wlan_spi_write_buf :: "spi_driver \<Rightarrow> u8 list \<Rightarrow> u32 \<Rightarrow> wlan_hal \<Rightarrow> wlan_hal" where
  "mmhal_wlan_spi_write_buf d buf len s = snd (spi_master_rw d (Some buf) None len s)"

definition mmhal_wlan_send_training_seq :: "spi_driver \<Rightarrow> wlan_hal \<Rightarrow> wlan_hal" where
  "mmhal_wlan_send_training_seq d s =
     snd (spi_master_rw d (Some (replicate (unat BYTE_TRAIN) 0xFF)) None BYTE_TRAIN (mmhal_wlan_spi_cs_deassert s))"

definition mmhal_wlan_register_spi_irq_handler :: "nat \<Rightarrow> wlan_hal \<Rightarrow> wlan_hal" where
  "mmhal_wlan_register_spi_irq_handler handler s =
     emit [Gpio_isr_handler_add CONFIG_MM_SPI_IRQ handler] (s\<lparr>spi_irq_handler := Some handler\<rparr>)"

text \<open>The level of an input pin is an argument.\<close>

definition mmhal_wlan_spi_irq_is_asserted :: "(nat \<Rightarrow> bool) \<Rightarrow> bool" where
  "mmhal_wlan_spi_irq_is_asserted gpio_get_level \<longleftrightarrow> \<not> gpio_get_level CONFIG_MM_SPI_IRQ"

definition mmhal_wlan_busy_is_asserted :: "(nat \<Rightarrow> bool) \<Rightarrow> bool" where
  "mmhal_wlan_busy_is_asserted gpio_get_level \<longleftrightarrow> gpio_get_level CONFIG_MM_BUSY"

definition mmhal_wlan_set_spi_irq_enabled :: "bool \<Rightarrow> wlan_hal \<Rightarrow> wlan_hal" where
  "mmhal_wlan_set_spi_irq_enabled enabled =
     emit [Gpio_set_intr_type CONFIG_MM_SPI_IRQ (if enabled then GPIO_INTR_LOW_LEVEL else GPIO_INTR_DISABLE)]"

definition mmhal_wlan_init :: "spi_driver \<Rightarrow> wlan_hal \<Rightarrow> wlan_hal" where
  "mmhal_wlan_init d s =
     emit [Gpio_set_level CONFIG_MM_RESET_N True] (wlan_hal_spi_init d (wlan_hal_gpio_init s))"

definition mmhal_wlan_deinit :: "spi_driver \<Rightarrow> wlan_hal \<Rightarrow> wlan_hal" where
  "mmhal_wlan_deinit d s =
     emit [Gpio_isr_handler_remove CONFIG_MM_SPI_IRQ, Gpio_isr_handler_remove CONFIG_MM_BUSY]
       (wlan_hal_spi_deinit d (emit [Gpio_set_level CONFIG_MM_RESET_N False] s))"

definition mmhal_wlan_wake_assert :: "wlan_hal \<Rightarrow> wlan_hal" where
  "mmhal_wlan_wake_assert = emit [Gpio_set_level CONFIG_MM_WAKE True]"

definition mmhal_wlan_wake_deassert :: "wlan_hal \<Rightarrow> wlan_hal" where
  "mmhal_wlan_wake_deassert = emit [Gpio_set_level CONFIG_MM_WAKE False]"

definition mmhal_wlan_register_busy_irq_handler :: "nat \<Rightarrow> wlan_hal \<Rightarrow> wlan_hal" where
  "mmhal_wlan_register_busy_irq_handler handler s =
     emit [Gpio_isr_handler_add CONFIG_MM_BUSY handler] (s\<lparr>busy_irq_handler := Some handler\<rparr>)"

definition mmhal_wlan_set_busy_irq_enabled :: "bool \<Rightarrow> wlan_hal \<Rightarrow> wlan_hal" where
  "mmhal_wlan_set_busy_irq_enabled enabled =
     emit [Gpio_set_intr_type CONFIG_MM_BUSY (if enabled then GPIO_INTR_POSEDGE else GPIO_INTR_DISABLE)]"

section \<open>mmhal_wlan_binaries.c\<close>

text \<open>
  A read-only buffer: a position in the image (\<open>None\<close> is NULL) and a length; \<open>free_cb\<close> and
  \<open>free_arg\<close> are numbers with \<open>None\<close> for NULL. The image is the memory between the linker's two
  symbols.
\<close>

record mmhal_robuf =
  robuf_at :: "nat option"
  robuf_len :: u32
  robuf_free_cb :: "nat option"
  robuf_free_arg :: "nat option"

definition mmhal_wlan_read_bcf_file :: "u8 list \<Rightarrow> u32 \<Rightarrow> u32 \<Rightarrow> mmhal_robuf \<Rightarrow> mmhal_robuf" where
  "mmhal_wlan_read_bcf_file bcf_binary off requested_len robuf =
     (let bcf_len = of_nat (length bcf_binary) :: u32;
          r = robuf\<lparr>robuf_at := None, robuf_len := 0, robuf_free_arg := None, robuf_free_cb := None\<rparr>
      in if bcf_len < off then r
         else (let r1 = r\<lparr>robuf_at := Some (unat off), robuf_len := bcf_len - off\<rparr>
               in r1\<lparr>robuf_len := (if robuf_len r1 < requested_len then robuf_len r1 else requested_len)\<rparr>))"

definition mmhal_wlan_read_fw_file :: "u8 list \<Rightarrow> u32 \<Rightarrow> u32 \<Rightarrow> mmhal_robuf \<Rightarrow> mmhal_robuf" where
  "mmhal_wlan_read_fw_file firmware_binary off requested_len robuf =
     (let firmware_len = of_nat (length firmware_binary) :: u32
      in if firmware_len < off then robuf\<lparr>robuf_at := None\<rparr>
         else (let r = robuf\<lparr>robuf_at := Some (unat off)\<rparr>;
                   firmware_len = firmware_len - off
               in r\<lparr>robuf_len := (if firmware_len < requested_len then firmware_len else requested_len)\<rparr>))"

section \<open>Random numbers\<close>

lemma span_no_zero:
  assumes "mn \<le> mx" "\<not> (mn = 0 \<and> mx = 0xFFFFFFFF)"
  shows "unat (mx - mn + 1 :: u32) = unat mx - unat mn + 1"
proof -
  have mx: "unat mx \<le> 4294967295" using unat_u32_lt [of mx] by linarith
  have "unat mx - unat mn + 1 < 4294967296"
  proof (rule ccontr)
    assume "\<not> ?thesis"
    then have "unat mn = 0" "unat mx = 4294967295" using mx by linarith+
    then have "mn = 0" "mx = 4294967295" by (simp_all add: word_unat_eq_iff)
    with assms(2) show False by simp
  qed
  then show ?thesis
    using assms(1) u32_add [of "mx - mn" 1] by (simp add: u32_sub del: add_2_eq_Suc add_2_eq_Suc')
qed

text \<open>
  For \<open>min \<le> max\<close> the result lies between the two for every random value, every number between
  them is the result of some random value, and the remainder never divides by zero; the only
  arguments for which it does are \<open>min = max + 1\<close>.
\<close>

theorem mmhal_random_u32_range:
  assumes "mn \<le> mx"
  shows "(\<exists>r. mmhal_random_u32 v mn mx = Inr r \<and> mn \<le> r \<and> r \<le> mx) \<and>
    (\<forall>r. mn \<le> r \<and> r \<le> mx \<longrightarrow> (\<exists>v. mmhal_random_u32 v mn mx = Inr r)) \<and>
    (\<forall>v a b. mmhal_random_u32 v a b = Inl Div_by_zero \<longleftrightarrow> a = b + 1 \<and> a \<noteq> 0)"
proof -
  have div0: "mmhal_random_u32 v a b = Inl Div_by_zero \<longleftrightarrow> a = b + 1 \<and> a \<noteq> 0" for v a b
  proof -
    have wrap: "b - a + 1 = 0 \<longleftrightarrow> a = b + 1"
    proof -
      have "b - a + 1 = (b + 1) - a" by simp
      then show ?thesis by (metis eq_iff_diff_eq_0)
    qed
    have top: "b = 0xFFFFFFFF" if "b + 1 = 0"
    proof -
      have "b = - 1" using that by (simp only: eq_neg_iff_add_eq_0)
      then show ?thesis by simp
    qed
    show ?thesis
    proof (cases "a = 0 \<and> b = 0xFFFFFFFF")
      case False
      then have "mmhal_random_u32 v a b = Inl Div_by_zero \<longleftrightarrow> a = b + 1"
        unfolding mmhal_random_u32_def if_not_P [OF False] wrap by simp
      with False top show ?thesis by metis
    qed (simp add: mmhal_random_u32_def)
  qed
  show ?thesis
  proof (cases "mn = 0 \<and> mx = 0xFFFFFFFF")
    case True
    then have "mmhal_random_u32 w mn mx = Inr w" for w by (simp add: mmhal_random_u32_def)
    moreover have "w \<le> (0xFFFFFFFF :: u32)" for w
      using unat_u32_lt [of w] by (simp add: u32_le_iff del: unat_u32_lt)
    ultimately show ?thesis using True div0 by auto
  next
    case False
    define n where "n = mx - mn + 1"
    have n: "unat n = unat mx - unat mn + 1" using span_no_zero [OF assms False] by (simp add: n_def)
    have le: "unat mn \<le> unat mx" using assms by (simp add: u32_le_iff)
    have n0: "n \<noteq> 0" using n by auto
    have val: "mmhal_random_u32 w mn mx = Inr (w mod n + mn)" for w
      using n0 unfolding mmhal_random_u32_def n_def [symmetric] if_not_P [OF False] by simp
    have small: "unat (w mod n) \<le> unat mx - unat mn" for w
    proof -
      have "unat (w mod n) < unat n" using n0 by (simp add: unat_mod_distrib unat_gt_0)
      then show ?thesis using n by linarith
    qed
    have sum: "unat (w mod n + mn) = unat (w mod n) + unat mn" for w
      using small [of w] le by (intro u32_add_le [of _ _ mx]) linarith
    have "mn \<le> w mod n + mn \<and> w mod n + mn \<le> mx" for w
      using sum [of w] small [of w] le by (auto simp: u32_le_iff)
    moreover have "\<exists>w. mmhal_random_u32 w mn mx = Inr r" if r: "mn \<le> r" "r \<le> mx" for r
    proof -
      have "unat (r - mn) < unat n"
        using r n le by (simp add: u32_sub) (simp add: u32_le_iff)
      then have "(r - mn) mod n = r - mn"
        by (simp add: word_unat_eq_iff unat_mod_distrib)
      then show ?thesis using val [of "r - mn"] by auto
    qed
    ultimately show ?thesis using val div0 by auto
  qed
qed

lemma mmhal_random_u32_range_witness:
  "\<exists>r. mmhal_random_u32 0xdeadbeef 10 99 = Inr r \<and> 10 \<le> r \<and> r \<le> 99"
  using mmhal_random_u32_range [of 10 99 "0xdeadbeef"] by auto

section \<open>The board\<close>

text \<open>
  What the events do to the board: the levels of the three output lines, how often the transceiver
  has come out of reset, and the handler and trigger of the two interrupt lines.
\<close>

record board =
  reset_high :: bool
  wake_high :: bool
  cs_high :: bool
  boots :: nat
  irq_handler :: "nat option"
  busy_handler :: "nat option"
  irq_trigger :: gpio_intr
  busy_trigger :: gpio_intr

definition raise_reset :: "board \<Rightarrow> board" where
  "raise_reset b = b\<lparr>reset_high := True, boots := boots b + (if reset_high b then 0 else 1)\<rparr>"

text \<open>
  What the board sees of an event. A level that is set counts whatever direction the pin was configured for, and the
  clock that the bus reports at start, which is only printed, is no event.
\<close>

fun observe :: "board \<Rightarrow> hal_event \<Rightarrow> board" where
  "observe b (Gpio_set_level p l) =
     (if p = CONFIG_MM_RESET_N then (if l then raise_reset b else b\<lparr>reset_high := False\<rparr>)
      else if p = CONFIG_MM_WAKE then b\<lparr>wake_high := l\<rparr>
      else if p = CONFIG_MM_SPI_CS then b\<lparr>cs_high := l\<rparr> else b)"
| "observe b (Gpio_config g) =
     (let b1 = (if bit (pin_bit_mask g) CONFIG_MM_SPI_IRQ then b\<lparr>irq_trigger := intr_type g\<rparr> else b)
      in if bit (pin_bit_mask g) CONFIG_MM_BUSY then b1\<lparr>busy_trigger := intr_type g\<rparr> else b1)"
| "observe b (Gpio_set_intr_type p t) =
     (if p = CONFIG_MM_SPI_IRQ then b\<lparr>irq_trigger := t\<rparr>
      else if p = CONFIG_MM_BUSY then b\<lparr>busy_trigger := t\<rparr> else b)"
| "observe b (Gpio_isr_handler_add p h) =
     (if p = CONFIG_MM_SPI_IRQ then b\<lparr>irq_handler := Some h\<rparr>
      else if p = CONFIG_MM_BUSY then b\<lparr>busy_handler := Some h\<rparr> else b)"
| "observe b (Gpio_isr_handler_remove p) =
     (if p = CONFIG_MM_SPI_IRQ then b\<lparr>irq_handler := None\<rparr>
      else if p = CONFIG_MM_BUSY then b\<lparr>busy_handler := None\<rparr> else b)"
| "observe b _ = b"

definition board_of :: "board \<Rightarrow> wlan_hal \<Rightarrow> board" where
  "board_of b s = foldl observe b (trace s)"

datatype hal_call =
    Wlan_init | Wlan_deinit | Hard_reset | Cs_assert | Cs_deassert | Wake_assert | Wake_deassert
  | Spi_rw u8 u8 | Spi_read_buf "u8 list" u32 | Spi_write_buf "u8 list" u32 | Training_seq
  | Register_spi_irq nat | Register_busy_irq nat | Set_spi_irq bool | Set_busy_irq bool

fun hal_call_run :: "spi_driver \<Rightarrow> hal_call \<Rightarrow> wlan_hal \<Rightarrow> wlan_hal" where
  "hal_call_run d Wlan_init = mmhal_wlan_init d"
| "hal_call_run d Wlan_deinit = mmhal_wlan_deinit d"
| "hal_call_run d Hard_reset = mmhal_wlan_hard_reset"
| "hal_call_run d Cs_assert = mmhal_wlan_spi_cs_assert"
| "hal_call_run d Cs_deassert = mmhal_wlan_spi_cs_deassert"
| "hal_call_run d Wake_assert = mmhal_wlan_wake_assert"
| "hal_call_run d Wake_deassert = mmhal_wlan_wake_deassert"
| "hal_call_run d (Spi_rw junk b) = (\<lambda>s. snd (mmhal_wlan_spi_rw d junk b s))"
| "hal_call_run d (Spi_read_buf buf n) = (\<lambda>s. snd (mmhal_wlan_spi_read_buf d buf n s))"
| "hal_call_run d (Spi_write_buf buf n) = mmhal_wlan_spi_write_buf d buf n"
| "hal_call_run d Training_seq = mmhal_wlan_send_training_seq d"
| "hal_call_run d (Register_spi_irq h) = mmhal_wlan_register_spi_irq_handler h"
| "hal_call_run d (Register_busy_irq h) = mmhal_wlan_register_busy_irq_handler h"
| "hal_call_run d (Set_spi_irq e) = mmhal_wlan_set_spi_irq_enabled e"
| "hal_call_run d (Set_busy_irq e) = mmhal_wlan_set_busy_irq_enabled e"

text \<open>What a client of the layer may rely on.\<close>

fun board_step :: "board \<Rightarrow> hal_call \<Rightarrow> board" where
  "board_step b Wlan_init = raise_reset (b\<lparr>wake_high := False, cs_high := False,
     irq_trigger := GPIO_INTR_DISABLE, busy_trigger := GPIO_INTR_DISABLE\<rparr>)"
| "board_step b Wlan_deinit = b\<lparr>reset_high := False, irq_handler := None, busy_handler := None\<rparr>"
| "board_step b Hard_reset = b\<lparr>reset_high := True, boots := boots b + 1\<rparr>"
| "board_step b Cs_assert = b\<lparr>cs_high := False\<rparr>"
| "board_step b Cs_deassert = b\<lparr>cs_high := True\<rparr>"
| "board_step b Wake_assert = b\<lparr>wake_high := True\<rparr>"
| "board_step b Wake_deassert = b\<lparr>wake_high := False\<rparr>"
| "board_step b Training_seq = b\<lparr>cs_high := True\<rparr>"
| "board_step b (Register_spi_irq h) = b\<lparr>irq_handler := Some h\<rparr>"
| "board_step b (Register_busy_irq h) = b\<lparr>busy_handler := Some h\<rparr>"
| "board_step b (Set_spi_irq e) = b\<lparr>irq_trigger := (if e then GPIO_INTR_LOW_LEVEL else GPIO_INTR_DISABLE)\<rparr>"
| "board_step b (Set_busy_irq e) = b\<lparr>busy_trigger := (if e then GPIO_INTR_POSEDGE else GPIO_INTR_DISABLE)\<rparr>"
| "board_step b _ = b"

lemma board_of_emit [simp]: "board_of b (emit es s) = foldl observe (board_of b s) es"
  by (simp add: board_of_def emit_def)

lemma board_of_fields [simp]:
  "board_of b (s\<lparr>spi_irq_handler := h\<rparr>) = board_of b s"
  "board_of b (s\<lparr>busy_irq_handler := h\<rparr>) = board_of b s"
  "board_of b (s\<lparr>spi_handle := n\<rparr>) = board_of b s"
  by (simp_all add: board_of_def)

lemma board_of_gpio_init: "board_of b (wlan_hal_gpio_init s) =
    (board_of b s)\<lparr>wake_high := False, cs_high := False, irq_trigger := GPIO_INTR_DISABLE,
      busy_trigger := GPIO_INTR_DISABLE\<rparr>"
  by (simp add: wlan_hal_gpio_init_def pin_defs Let_def bit_or_iff bit_push_bit_iff bit_1_iff)

lemma board_of_spi [simp]:
  "board_of b (wlan_hal_spi_init d s) = board_of b s"
  "board_of b (wlan_hal_spi_deinit d s) = board_of b s"
  "board_of b (snd (spi_master_rw d w r n s)) = board_of b s"
  by (simp_all add: wlan_hal_spi_init_def wlan_hal_spi_deinit_def spi_master_rw_def Let_def
      split: option.split prod.split)

lemma board_of_call: "board_of b (hal_call_run d c s) = board_step (board_of b s) c"
proof (cases c)
  case Wlan_init
  then show ?thesis by (simp add: mmhal_wlan_init_def board_of_gpio_init)
next
  case (Spi_rw junk x)
  have "snd (mmhal_wlan_spi_rw d junk x s) = snd (spi_master_rw d (Some [x]) (Some [junk]) 1 s)"
    by (simp add: mmhal_wlan_spi_rw_def split: prod.split)
  with Spi_rw show ?thesis by simp
qed (simp_all add: mmhal_wlan_deinit_def mmhal_wlan_hard_reset_def mmhal_wlan_spi_cs_assert_def
    mmhal_wlan_spi_cs_deassert_def mmhal_wlan_wake_assert_def mmhal_wlan_wake_deassert_def
    mmhal_wlan_spi_read_buf_def mmhal_wlan_spi_write_buf_def mmhal_wlan_send_training_seq_def
    mmhal_wlan_register_spi_irq_handler_def mmhal_wlan_register_busy_irq_handler_def
    mmhal_wlan_set_spi_irq_enabled_def mmhal_wlan_set_busy_irq_enabled_def raise_reset_def pin_defs)

text \<open>The reset line is high exactly when the transceiver was started and not shut down since.\<close>

fun started :: "bool \<Rightarrow> hal_call list \<Rightarrow> bool" where
  "started b [] = b"
| "started b (c # cs) = started (if c = Wlan_deinit then False else c = Wlan_init \<or> c = Hard_reset \<or> b) cs"

lemma reset_high_started: "reset_high (foldl board_step b cs) = started (reset_high b) cs"
proof (induction cs arbitrary: b)
  case (Cons c cs)
  have "reset_high (board_step b c) =
      (if c = Wlan_deinit then False else c = Wlan_init \<or> c = Hard_reset \<or> reset_high b)"
    by (cases c) (simp_all add: raise_reset_def)
  with Cons show ?case by simp
qed simp

lemma board_of_calls: "board_of b (fold (hal_call_run d) calls s) = foldl board_step (board_of b s) calls"
  by (induction calls arbitrary: s) (simp_all add: board_of_call)

text \<open>
  C18: After \<open>mmhal_init\<close>, whatever sequence of calls of the transceiver layer follows and whatever the
  SPI driver answers, the levels of the reset, wake and chip select lines, the number of times the
  chip leaves reset, and the interrupt handlers and triggers are those of the abstract board; the
  chip is held in reset from \<open>mmhal_init\<close> until it is started and again from \<open>mmhal_wlan_deinit\<close> on.
\<close>

theorem wlan_hal_refines_board:
  "board_of b (fold (hal_call_run d) calls (mmhal_init s)) =
     foldl board_step ((board_of b s)\<lparr>reset_high := False\<rparr>) calls \<and>
   reset_high (board_of b (fold (hal_call_run d) calls (mmhal_init s))) = started False calls"
proof -
  have "board_of b (mmhal_init s) = (board_of b s)\<lparr>reset_high := False\<rparr>"
    by (simp add: mmhal_init_def pin_defs bit_push_bit_iff bit_1_iff)
  then show ?thesis by (simp add: board_of_calls reset_high_started)
qed

section \<open>Images\<close>

text \<open>The bytes that a buffer gives access to.\<close>

definition robuf_data :: "u8 list \<Rightarrow> mmhal_robuf \<Rightarrow> u8 list" where
  "robuf_data img r = (case robuf_at r of None \<Rightarrow> [] | Some p \<Rightarrow> take (unat (robuf_len r)) (drop p img))"

definition zeroed :: mmhal_robuf where
  "zeroed = \<lparr>robuf_at = None, robuf_len = 0, robuf_free_cb = None, robuf_free_arg = None\<rparr>"

lemma read_fw_eq_bcf: "mmhal_wlan_read_fw_file img off n zeroed = mmhal_wlan_read_bcf_file img off n zeroed"
  by (simp add: mmhal_wlan_read_fw_file_def mmhal_wlan_read_bcf_file_def zeroed_def Let_def)

lemma read_bcf_data:
  assumes "length img < 4294967296" "unat off \<le> length img"
  shows "robuf_data img (mmhal_wlan_read_bcf_file img off n r) = take (unat n) (drop (unat off) img)"
    "unat (robuf_len (mmhal_wlan_read_bcf_file img off n r)) = min (length img - unat off) (unat n)"
    "robuf_at (mmhal_wlan_read_bcf_file img off n r) = Some (unat off)"
proof -
  have len: "unat (of_nat (length img) :: u32) = length img" using assms(1) by simp
  have le: "off \<le> of_nat (length img)" using assms(2) by (simp add: u32_le_iff len)
  have sub: "unat (of_nat (length img) - off) = length img - unat off"
    using u32_sub [OF le] by (simp add: len)
  show l: "unat (robuf_len (mmhal_wlan_read_bcf_file img off n r)) = min (length img - unat off) (unat n)"
    using le by (auto simp: mmhal_wlan_read_bcf_file_def Let_def not_less [symmetric] u32_less_iff sub)
  show a: "robuf_at (mmhal_wlan_read_bcf_file img off n r) = Some (unat off)"
    using le by (auto simp: mmhal_wlan_read_bcf_file_def Let_def not_less [symmetric])
  have "take (min (length img - unat off) (unat n)) (drop (unat off) img) =
      take (unat n) (drop (unat off) img)"
    by (simp add: min_def)
  then show "robuf_data img (mmhal_wlan_read_bcf_file img off n r) = take (unat n) (drop (unat off) img)"
    by (simp only: robuf_data_def l a option.case)
qed

lemma chunks_concat:
  "concat (map (\<lambda>i. take n (drop (i * n) xs)) [0 ..< k]) = take (k * n) xs"
proof (induction k)
  case (Suc k)
  have "take (k * n) xs @ take n (drop (k * n) xs) = take (k * n + n) xs" by (simp add: take_add)
  with Suc show ?case by (simp add: add.commute)
qed simp

text \<open>
  Reading an image piece by piece from a zeroed buffer structure, each piece starting where the
  previous one ended, gives exactly the image: both readers stay inside the image, return what was
  asked for or the rest of the file, and NULL with length 0 beyond its end.
\<close>

theorem read_file_in_pieces:
  assumes len: "length img < 4294967296" and n: "k * unat n < length img + unat n"
    and rd: "rd \<in> {mmhal_wlan_read_bcf_file, mmhal_wlan_read_fw_file}"
  shows "concat (map (\<lambda>i. robuf_data img (rd img (of_nat (i * unat n)) n zeroed)) [0 ..< k]) =
      take (k * unat n) img \<and>
    (\<forall>off. unat off \<le> length img \<longrightarrow>
       unat off + unat (robuf_len (rd img off n zeroed)) \<le> length img \<and>
       unat (robuf_len (rd img off n zeroed)) = min (length img - unat off) (unat n)) \<and>
    (\<forall>off. length img < unat off \<longrightarrow> rd img off n zeroed = zeroed)"
proof -
  have rd': "rd img off m zeroed = mmhal_wlan_read_bcf_file img off m zeroed" for off m
    using rd by (auto simp: read_fw_eq_bcf)
  have "robuf_data img (rd img (of_nat (i * unat n)) n zeroed) = take (unat n) (drop (i * unat n) img)"
    if "i < k" for i
  proof -
    have "i * unat n + unat n \<le> k * unat n"
      using that mult_le_mono1 [of "Suc i" k "unat n"] by simp
    then have "i * unat n \<le> length img" using n by linarith
    moreover from this have "unat (of_nat (i * unat n) :: u32) = i * unat n" using len by (simp del: of_nat_mult)
    ultimately show ?thesis using read_bcf_data(1) [OF len, of "of_nat (i * unat n)" n zeroed] rd' by simp
  qed
  then have "map (\<lambda>i. robuf_data img (rd img (of_nat (i * unat n)) n zeroed)) [0 ..< k] =
      map (\<lambda>i. take (unat n) (drop (i * unat n) img)) [0 ..< k]"
    by (simp del: of_nat_mult)
  then have "concat (map (\<lambda>i. robuf_data img (rd img (of_nat (i * unat n)) n zeroed)) [0 ..< k]) =
      take (k * unat n) img"
    by (simp only: chunks_concat)
  moreover have "rd img off n zeroed = zeroed" if "length img < unat off" for off
    unfolding rd' using that len by (simp add: mmhal_wlan_read_bcf_file_def u32_less_iff zeroed_def Let_def)
  moreover have "unat off + unat (robuf_len (rd img off n zeroed)) \<le> length img \<and>
      unat (robuf_len (rd img off n zeroed)) = min (length img - unat off) (unat n)"
    if "unat off \<le> length img" for off
    using read_bcf_data(2) [OF len that, of n zeroed] that rd' by simp
  ultimately show ?thesis by blast
qed

lemma read_file_in_pieces_witness:
  "concat (map (\<lambda>i. robuf_data [1, 2, 3, 4, 5, 6, 7]
     (mmhal_wlan_read_fw_file [1, 2, 3, 4, 5, 6, 7] (of_nat (i * unat (4 :: u32))) 4 zeroed)) [0 ..< 2]) =
   [1, 2, 3, 4, 5, 6, 7]"
  using read_file_in_pieces [of "[1, 2, 3, 4, 5, 6, 7]" 2 4 mmhal_wlan_read_fw_file] by simp

section \<open>MAC address and version\<close>

text \<open>A derived address has the locally administered bit and is otherwise the eFuse address.\<close>

lemma mmhal_read_mac_addr_local:
  assumes "esp_read_mac buf = (True, b # bs)"
  shows "mmhal_read_mac_addr esp_read_mac buf = Inr ((b OR 2) # bs) \<and> bit (b OR 2) 1 \<and>
    (bit (b OR 2) 0 \<longleftrightarrow> bit b 0)"
  using assms by (auto simp: mmhal_read_mac_addr_def mem_get_def mem_write_def bit_simps bit_numeral_rec)

end
