(* ===== verification/Tcp_Rate_Limit.thy ===== *)
theory Tcp_Rate_Limit
  imports MM_Prelude
begin

text \<open>
  The inbound packet limiter of tcp_rate_limit.cpp: one two-dimensional token bucket (bytes and
  packets) per direction, refilled from the millisecond clock whenever a packet arrives. Token
  counts are \<open>int32_t\<close>, kept as integers with the conversion written out; times and rates are 32-bit
  words and the refill is computed in 64 bits as in the code.
\<close>

section \<open>State\<close>

type_synonym u64 = "64 word"

definition to_i32 :: "u32 \<Rightarrow> int" where "to_i32 w = sint w"

text \<open>The conversion of an \<open>int64_t\<close> to \<open>int32_t\<close>.\<close>

definition i64_to_i32 :: "int \<Rightarrow> int" where "i64_to_i32 x = signed_take_bit 31 x"

record rl_bucket =
  byte_tokens :: int
  byte_last_ms :: u32
  pps_tokens :: int
  pps_last_ms :: u32

record hc33_tcp_limit_counters =
  tcp_passed_pkts :: u32
  tcp_passed_bytes :: u32
  tcp_dropped_pkts :: u32
  tcp_dropped_bytes :: u32
  drop_bytes_full_pkts :: u32
  drop_pps_full_pkts :: u32
  udp_seen_pkts :: u32

record tcp_limit =
  s_rate_bps :: u32
  s_burst :: u32
  s_pps :: u32
  s_pps_burst :: u32
  s_bkt_in :: rl_bucket
  s_bkt_out :: rl_bucket
  s_halow_netif :: "nat option"
  s_softap_netif :: "nat option"
  s_stats :: hc33_tcp_limit_counters

definition tcp_limit_boot :: tcp_limit where
  "tcp_limit_boot = \<lparr>s_rate_bps = 250000, s_burst = 65536, s_pps = 100, s_pps_burst = 50,
     s_bkt_in = \<lparr>byte_tokens = 65536, byte_last_ms = 0, pps_tokens = 50, pps_last_ms = 0\<rparr>,
     s_bkt_out = \<lparr>byte_tokens = 65536, byte_last_ms = 0, pps_tokens = 50, pps_last_ms = 0\<rparr>,
     s_halow_netif = None, s_softap_netif = None,
     s_stats = \<lparr>tcp_passed_pkts = 0, tcp_passed_bytes = 0, tcp_dropped_pkts = 0, tcp_dropped_bytes = 0,
       drop_bytes_full_pkts = 0, drop_pps_full_pkts = 0, udp_seen_pkts = 0\<rparr>\<rparr>"

section \<open>Configuration\<close>

definition hc33_tcp_limit_set_halow_netif :: "nat option \<Rightarrow> tcp_limit \<Rightarrow> tcp_limit" where
  "hc33_tcp_limit_set_halow_netif n s = s\<lparr>s_halow_netif := n\<rparr>"

definition hc33_tcp_limit_set_softap_netif :: "nat option \<Rightarrow> tcp_limit \<Rightarrow> tcp_limit" where
  "hc33_tcp_limit_set_softap_netif n s = s\<lparr>s_softap_netif := n\<rparr>"

definition cap_bytes :: "u32 \<Rightarrow> rl_bucket \<Rightarrow> rl_bucket" where
  "cap_bytes burst b = (if to_i32 burst < byte_tokens b then b\<lparr>byte_tokens := to_i32 burst\<rparr> else b)"

definition cap_pps :: "u32 \<Rightarrow> rl_bucket \<Rightarrow> rl_bucket" where
  "cap_pps burst b = (if to_i32 burst < pps_tokens b then b\<lparr>pps_tokens := to_i32 burst\<rparr> else b)"

definition hc33_tcp_limit_configure :: "u32 \<Rightarrow> u32 \<Rightarrow> tcp_limit \<Rightarrow> tcp_limit" where
  "hc33_tcp_limit_configure rate_bytes_per_sec burst_bytes s =
     s\<lparr>s_rate_bps := rate_bytes_per_sec, s_burst := burst_bytes,
       s_bkt_in := cap_bytes burst_bytes (s_bkt_in s),
       s_bkt_out := cap_bytes burst_bytes (s_bkt_out s)\<rparr>"

definition hc33_tcp_limit_configure_pps :: "u32 \<Rightarrow> u32 \<Rightarrow> tcp_limit \<Rightarrow> tcp_limit" where
  "hc33_tcp_limit_configure_pps pps_rate pps_burst s =
     s\<lparr>s_pps := pps_rate, s_pps_burst := pps_burst,
       s_bkt_in := cap_pps pps_burst (s_bkt_in s),
       s_bkt_out := cap_pps pps_burst (s_bkt_out s)\<rparr>"

record hc33_tcp_limit_stats =
  counters :: hc33_tcp_limit_counters
  tokens_now :: u32
  pps_tokens_now :: u32
  stat_rate_bps :: u32
  stat_burst :: u32
  stat_pps :: u32
  stat_pps_burst :: u32

definition hc33_tcp_limit_get_stats :: "tcp_limit \<Rightarrow> hc33_tcp_limit_stats" where
  "hc33_tcp_limit_get_stats s =
     (let bt = (if byte_tokens (s_bkt_in s) < byte_tokens (s_bkt_out s)
                then byte_tokens (s_bkt_in s) else byte_tokens (s_bkt_out s));
          pt = (if pps_tokens (s_bkt_in s) < pps_tokens (s_bkt_out s)
                then pps_tokens (s_bkt_in s) else pps_tokens (s_bkt_out s))
      in \<lparr>counters = s_stats s,
          tokens_now = (if bt < 0 then 0 else of_int bt),
          pps_tokens_now = (if pt < 0 then 0 else of_int pt),
          stat_rate_bps = s_rate_bps s, stat_burst = s_burst s,
          stat_pps = s_pps s, stat_pps_burst = s_pps_burst s\<rparr>)"

section \<open>Refill\<close>

definition refill_bytes :: "u32 \<Rightarrow> u32 \<Rightarrow> u32 \<Rightarrow> rl_bucket \<Rightarrow> rl_bucket" where
  "refill_bytes rate_bps burst now_ms b =
     (if byte_last_ms b = 0 then b\<lparr>byte_last_ms := now_ms\<rparr>
      else let dt = now_ms - byte_last_ms b in
        if dt = 0 then b
        else let add = (ucast dt * ucast rate_bps :: u64) div 1000 in
          if add = 0 then b
          else let nb = byte_tokens b + sint add;
                   nb = (if uint burst < nb then uint burst else nb);
                   consumed_ms = (if 0 < rate_bps then ucast ((add * 1000) div ucast rate_bps) else dt)
               in b\<lparr>byte_tokens := i64_to_i32 nb, byte_last_ms := byte_last_ms b + consumed_ms\<rparr>)"

definition refill_pps :: "u32 \<Rightarrow> u32 \<Rightarrow> u32 \<Rightarrow> rl_bucket \<Rightarrow> rl_bucket" where
  "refill_pps pps pps_burst now_ms b =
     (if pps_last_ms b = 0 then b\<lparr>pps_last_ms := now_ms\<rparr>
      else let dt = now_ms - pps_last_ms b in
        if dt = 0 then b
        else let add = (ucast dt * ucast pps :: u64) div 1000 in
          if add = 0 then b
          else let np = pps_tokens b + sint add;
                   np = (if uint pps_burst < np then uint pps_burst else np);
                   consumed_ms = (if 0 < pps then ucast ((add * 1000) div ucast pps) else dt)
               in b\<lparr>pps_tokens := i64_to_i32 np, pps_last_ms := pps_last_ms b + consumed_ms\<rparr>)"

section \<open>The hook\<close>

text \<open>
  A packet buffer: the bytes of its first segment (\<open>p->len\<close> of them) and the length of the whole
  chain. The IPv4 header has its version in the high half of byte 0 and the protocol in byte 9.
\<close>

record rl_pbuf =
  rl_payload :: "u8 list"
  rl_len :: u16
  rl_tot_len :: u16

definition ip_hdr_size :: u16 where "ip_hdr_size = 20"
definition IP_PROTO_TCP :: u8 where "IP_PROTO_TCP = 6"
definition IP_PROTO_UDP :: u8 where "IP_PROTO_UDP = 17"

text \<open>
  The last part, with the bucket of the packet's direction: the result is whether the packet passes,
  the bucket, and the counters.
\<close>

definition bucket_decide ::
    "tcp_limit \<Rightarrow> u32 \<Rightarrow> u16 \<Rightarrow> rl_bucket \<Rightarrow> hc33_tcp_limit_counters \<Rightarrow>
     bool \<times> rl_bucket \<times> hc33_tcp_limit_counters" where
  "bucket_decide s now plen b st =
     (let b1 = refill_bytes (s_rate_bps s) (s_burst s) now b;
          b2 = refill_pps (s_pps s) (s_pps_burst s) now b1;
          bytes_ok = (uint plen \<le> byte_tokens b2);
          pps_ok = (s_pps s = 0 \<or> 1 \<le> pps_tokens b2)
      in if bytes_ok \<and> pps_ok then
           (True,
            (let b3 = b2\<lparr>byte_tokens := byte_tokens b2 - uint plen\<rparr>
             in if s_pps s \<noteq> 0 then b3\<lparr>pps_tokens := pps_tokens b3 - 1\<rparr> else b3),
            st\<lparr>tcp_passed_pkts := tcp_passed_pkts st + 1, tcp_passed_bytes := tcp_passed_bytes st + ucast plen\<rparr>)
         else
           (False, b2,
            (let st1 = st\<lparr>tcp_dropped_pkts := tcp_dropped_pkts st + 1,
                          tcp_dropped_bytes := tcp_dropped_bytes st + ucast plen\<rparr>;
                 st2 = (if \<not> bytes_ok then st1\<lparr>drop_bytes_full_pkts := drop_bytes_full_pkts st1 + 1\<rparr> else st1)
             in if \<not> pps_ok then st2\<lparr>drop_pps_full_pkts := drop_pps_full_pkts st2 + 1\<rparr> else st2)))"

datatype direction = Halow_rx | Softap_rx

definition direction_of :: "tcp_limit \<Rightarrow> nat option \<Rightarrow> direction option" where
  "direction_of s inp =
     (if s_halow_netif s \<noteq> None \<and> inp = s_halow_netif s then Some Halow_rx
      else if s_softap_netif s \<noteq> None \<and> inp = s_softap_netif s then Some Softap_rx
      else None)"

text \<open>
  The hook returns 0 to let lwIP go on, or 1 after it has freed the packet; reading the header
  beyond the payload is an error of the model. \<open>now\<close> is what \<open>millis\<close> returns.
\<close>

definition hc33_lwip_ip4_input_hook ::
    "u32 \<Rightarrow> rl_pbuf option \<Rightarrow> nat option \<Rightarrow> tcp_limit \<Rightarrow> (nat \<times> tcp_limit) result" where
  "hc33_lwip_ip4_input_hook now po inp s =
     (case po of
        None \<Rightarrow> Inr (0, s)
      | Some p \<Rightarrow>
          if rl_len p < ip_hdr_size then Inr (0, s)
          else case direction_of s inp of
              None \<Rightarrow> Inr (0, s)
            | Some d \<Rightarrow>
                rbind (mem_get (rl_payload p) 0) (\<lambda>v_hl.
                if drop_bit 4 v_hl \<noteq> 4 then Inr (0, s)
                else rbind (mem_get (rl_payload p) 9) (\<lambda>proto.
                  let st = (if proto = IP_PROTO_UDP
                            then (s_stats s)\<lparr>udp_seen_pkts := udp_seen_pkts (s_stats s) + 1\<rparr>
                            else s_stats s)
                  in if proto = IP_PROTO_UDP \<and> d \<noteq> Halow_rx then Inr (0, s\<lparr>s_stats := st\<rparr>)
                     else if proto \<noteq> IP_PROTO_UDP \<and> proto \<noteq> IP_PROTO_TCP then Inr (0, s)
                     else (case bucket_decide s now (rl_tot_len p)
                               (if d = Halow_rx then s_bkt_in s else s_bkt_out s) st of
                         (pass, b, st1) \<Rightarrow>
                           Inr (if pass then 0 else 1,
                                if d = Halow_rx then s\<lparr>s_bkt_in := b, s_stats := st1\<rparr>
                                else s\<lparr>s_bkt_out := b, s_stats := st1\<rparr>)))))"

section \<open>One dimension of a bucket\<close>

text \<open>
  Both refills are the same function of tokens and last time. It is computed on integers here; the
  64-bit product never wraps.
\<close>

definition refill :: "u32 \<Rightarrow> u32 \<Rightarrow> u32 \<Rightarrow> int \<times> u32 \<Rightarrow> int \<times> u32" where
  "refill rate burst now tk =
     (case tk of (tokens, lst) \<Rightarrow>
       if lst = 0 then (tokens, now)
       else let dt = uint (now - lst); add = dt * uint rate div 1000 in
         if add = 0 then (tokens, lst)
         else (i64_to_i32 (min (uint burst) (tokens + add)), lst + of_int (add * 1000 div uint rate)))"

lemma refill_add:
  fixes dt rate :: u32
  defines "add \<equiv> (ucast dt * ucast rate :: u64) div 1000"
  shows "uint add = uint dt * uint rate div 1000" "sint add = uint dt * uint rate div 1000"
    "uint (add * 1000) = uint add * 1000"
proof -
  have d: "0 \<le> uint dt" "uint dt \<le> 4294967295" and r: "0 \<le> uint rate" "uint rate \<le> 4294967295"
    using unsigned_less [of dt, where ?'a=int] unsigned_less [of rate, where ?'a=int] by simp_all
  have le: "uint dt * uint rate \<le> 4294967295 * 4294967295"
    using d r by (intro mult_mono) simp_all
  have u: "uint (ucast dt * ucast rate :: u64) = uint dt * uint rate"
    using le d r by (simp add: uint_word_ariths unsigned_ucast_eq take_bit_int_eq_self)
  show a: "uint add = uint dt * uint rate div 1000"
    unfolding add_def by (simp add: uint_div_distrib u)
  have bound: "uint add \<le> 18446744065119617"
    unfolding a using zdiv_mono1 [OF le, of 1000] by simp
  have lo: "- (2 ^ 63) \<le> uint add" by (rule order_trans [of _ 0]) simp_all
  have hi: "uint add < 2 ^ 63" by (rule le_less_trans [OF bound]) simp
  from lo hi have "signed_take_bit 63 (uint add) = uint add"
    by (rule signed_take_bit_int_eq_self)
  then have "sint add = uint add" by (simp add: sint_uint)
  then show "sint add = uint dt * uint rate div 1000" by (simp add: a)
  show "uint (add * 1000) = uint add * 1000"
    using bound by (simp add: uint_word_ariths)
qed

lemma refill_consumed:
  fixes dt rate :: u32
  defines "add \<equiv> (ucast dt * ucast rate :: u64) div 1000"
  assumes "add \<noteq> 0"
  shows "(if 0 < rate then ucast ((add * 1000) div ucast rate) else dt) =
    (of_int (uint dt * uint rate div 1000 * 1000 div uint rate) :: u32)"
proof -
  have "rate \<noteq> 0" using assms by auto
  moreover have "uint (ucast rate :: u64) = uint rate"
    using unsigned_less [of rate, where ?'a=int] by (simp add: unsigned_ucast_eq take_bit_int_eq_self)
  moreover have "uint (add * 1000 div ucast rate) = uint dt * uint rate div 1000 * 1000 div uint rate"
    using refill_add [of dt rate] calculation unfolding add_def by (simp add: uint_div_distrib)
  ultimately show ?thesis
    unfolding ucast_eq word_gt_0 by (simp only: if_P not_False_eq_True)
qed

lemma refill_bytes_refill: "refill_bytes rate burst now b =
    (case refill rate burst now (byte_tokens b, byte_last_ms b) of
       (t, l) \<Rightarrow> b\<lparr>byte_tokens := t, byte_last_ms := l\<rparr>)"
proof -
  have zero: "(ucast dt * ucast rate :: u64) div 1000 = 0 \<longleftrightarrow> uint dt * uint rate div 1000 = 0" for dt :: u32
    unfolding refill_add(1) [symmetric] unsigned_eq_0_iff ..
  show ?thesis
    unfolding refill_bytes_def refill_def Let_def prod.case
    using refill_consumed [of "now - byte_last_ms b" rate] zero [of "now - byte_last_ms b"]
    by (auto simp: refill_add min_def)
qed

lemma refill_pps_refill: "refill_pps rate burst now b =
    (case refill rate burst now (pps_tokens b, pps_last_ms b) of
       (t, l) \<Rightarrow> b\<lparr>pps_tokens := t, pps_last_ms := l\<rparr>)"
proof -
  have zero: "(ucast dt * ucast rate :: u64) div 1000 = 0 \<longleftrightarrow> uint dt * uint rate div 1000 = 0" for dt :: u32
    unfolding refill_add(1) [symmetric] unsigned_eq_0_iff ..
  show ?thesis
    unfolding refill_pps_def refill_def Let_def prod.case
    using refill_consumed [of "now - pps_last_ms b" rate] zero [of "now - pps_last_ms b"]
    by (auto simp: refill_add min_def)
qed

text \<open>The rates for which a whole number of tokens always takes a whole number of milliseconds, or the other way round.\<close>

definition exact_rate :: "u32 \<Rightarrow> bool" where
  "exact_rate r \<longleftrightarrow> uint r dvd 1000 \<or> 1000 dvd uint r"

lemma exact_consumed:
  assumes "exact_rate r" "d * uint r div 1000 \<noteq> 0"
  shows "uint r * (d * uint r div 1000 * 1000 div uint r) = 1000 * (d * uint r div 1000)"
proof -
  have r0: "uint r \<noteq> 0" using assms(2) by auto
  from assms(1) consider m where "1000 = uint r * m" | m where "uint r = 1000 * m"
    by (auto simp: exact_rate_def dvd_def)
  then show ?thesis
  proof cases
    case 1
    have "d * uint r div 1000 * 1000 = uint r * (m * (d * uint r div 1000))"
      by (subst (2) 1) simp
    then have "d * uint r div 1000 * 1000 div uint r = m * (d * uint r div 1000)"
      by (simp only: nonzero_mult_div_cancel_left [OF r0])
    then have "uint r * (d * uint r div 1000 * 1000 div uint r) = (uint r * m) * (d * uint r div 1000)" by simp
    then show ?thesis by (simp only: 1 [symmetric])
  next
    case 2
    then show ?thesis using r0 by simp
  qed
qed

text \<open>Token counts that the configured depth allows.\<close>

definition tokens_ok :: "u32 \<Rightarrow> int \<Rightarrow> bool" where
  "tokens_ok burst t \<longleftrightarrow> uint burst < 2147483648 \<and> 0 \<le> t \<and> t \<le> uint burst"

lemma i64_to_i32_id: "0 \<le> x \<Longrightarrow> x < 2147483648 \<Longrightarrow> i64_to_i32 x = x"
  by (simp add: i64_to_i32_def signed_take_bit_int_eq_self)

lemma refill_tokens_ok:
  assumes "tokens_ok burst t"
  shows "tokens_ok burst (fst (refill rate burst now (t, l)))"
proof -
  have "0 \<le> uint (now - l) * uint rate div 1000" by (simp add: pos_imp_zdiv_nonneg_iff)
  then show ?thesis
    using assms by (auto simp: refill_def Let_def tokens_ok_def i64_to_i32_id)
qed

text \<open>
  The level of one dimension at true time \<open>T\<close>, in thousandths of a token: the tokens and the time
  not yet converted.
\<close>

definition fits :: "u32 \<Rightarrow> int \<Rightarrow> int \<times> u32 \<Rightarrow> int \<Rightarrow> bool" where
  "fits rate T x K \<longleftrightarrow> (\<exists>L \<le> T. snd x = of_int L \<and> 1000 * fst x + uint rate * (T - L) \<le> K)"

lemma fits_time:
  assumes "fits rate T x K" "T \<le> T'"
  shows "fits rate T' x (K + uint rate * (T' - T))"
proof -
  from assms obtain L where L: "L \<le> T" "snd x = of_int L" "1000 * fst x + uint rate * (T - L) \<le> K"
    by (auto simp: fits_def)
  have "uint rate * (T' - L) = uint rate * (T - L) + uint rate * (T' - T)" by (simp add: algebra_simps)
  with L assms(2) show ?thesis unfolding fits_def by (intro exI [of _ L]) simp
qed

lemma fits_take: "fits rate T (t, l) K \<Longrightarrow> fits rate T (t - n, l) (K - 1000 * n)"
  by (auto simp: fits_def)

lemma fits_nonneg: "fits rate T (t, l) K \<Longrightarrow> 0 \<le> t \<Longrightarrow> 0 \<le> K"
  by (auto simp: fits_def intro: order_trans [rotated] add_nonneg_nonneg)

text \<open>What a refill does in terms of true times: it never raises the level, and less than one token of time remains.\<close>

lemma refill_level:
  assumes "exact_rate rate" "tokens_ok burst t" "L \<le> T" "l = of_int L"
  shows "\<exists>L' \<le> T. snd (refill rate burst (of_int T) (t, l)) = of_int L' \<and>
    1000 * fst (refill rate burst (of_int T) (t, l)) + uint rate * (T - L') \<le> 1000 * t + uint rate * (T - L) \<and>
    uint rate * (T - L') \<le> 999"
proof (cases "l = 0")
  case True
  have "0 \<le> uint rate * (T - L)" using assms(3) by simp
  with True show ?thesis by (intro exI [of _ T]) (simp add: refill_def)
next
  case False
  define d where "d = uint (of_int T - l)"
  define a where "a = d * uint rate div 1000"
  define c where "c = a * 1000 div uint rate"
  have d: "d = (T - L) mod 4294967296"
    using assms(4) by (simp add: d_def uint_word_of_int flip: of_int_diff)
  have d_le: "0 \<le> d" "d \<le> T - L" using assms(3) by (simp_all add: d zmod_le_nonneg_dividend)
  have base: "of_int (T - d) = l"
  proof -
    have "T - d - L = 4294967296 * ((T - L) div 4294967296)"
      using minus_mod_eq_mult_div [of "T - L" 4294967296] by (simp add: d)
    then have e: "T - d = L + 4294967296 * ((T - L) div 4294967296)" by simp
    have z: "(4294967296 :: u32) = 0" by simp
    show ?thesis
      unfolding e assms(4) of_int_add of_int_mult of_int_numeral z by simp
  qed
  have mono: "uint rate * d \<le> uint rate * (T - L)" using d_le by (intro mult_left_mono) simp_all
  have a1000: "1000 * a \<le> d * uint rate" "d * uint rate < 1000 * a + 1000"
    unfolding a_def by simp_all
  show ?thesis
  proof (cases "a = 0")
    case True
    then have "refill rate burst (of_int T) (t, l) = (t, l)"
      using False by (simp add: refill_def Let_def a_def d_def)
    with base mono d_le a1000 True show ?thesis
      by (intro exI [of _ "T - d"]) (simp add: algebra_simps)
  next
    case False
    then have c: "uint rate * c = 1000 * a" using exact_consumed [OF assms(1), of d] by (simp add: a_def c_def)
    have a0: "0 \<le> a" using d_le by (simp add: a_def pos_imp_zdiv_nonneg_iff)
    have "i64_to_i32 (min (uint burst) (t + a)) = min (uint burst) (t + a)"
      using assms(2) a0 by (intro i64_to_i32_id) (auto simp: tokens_ok_def)
    then have r: "refill rate burst (of_int T) (t, l) = (min (uint burst) (t + a), l + of_int c)"
      using \<open>l \<noteq> 0\<close> False by (simp add: refill_def Let_def flip: a_def d_def c_def)
    have "uint rate \<noteq> 0" using False unfolding a_def by (metis div_0 mult_zero_right)
    then have "0 < uint rate" by (simp add: order_less_le)
    moreover have "uint rate * c \<le> uint rate * d" using c a1000(1) by (simp add: mult.commute)
    ultimately have "c \<le> d" by simp
    moreover have "of_int (T - d + c) = l + of_int c" using base by (simp only: of_int_add)
    moreover have "uint rate * (T - (T - d + c)) = uint rate * d - 1000 * a"
      using c by (simp add: algebra_simps)
    moreover have "1000 * min (uint burst) (t + a) \<le> 1000 * t + 1000 * a" by (simp add: min_def)
    ultimately show ?thesis
      using r mono a1000 by (intro exI [of _ "T - d + c"]) (simp add: mult.commute)
  qed
qed

lemma fits_refill:
  assumes "exact_rate rate" "tokens_ok burst t" "fits rate T (t, l) K"
  shows "fits rate T (refill rate burst (of_int T) (t, l)) K"
proof -
  from assms(3) obtain L where L: "L \<le> T" "l = of_int L" "1000 * t + uint rate * (T - L) \<le> K"
    by (auto simp: fits_def)
  from refill_level [OF assms(1,2) L(1,2)] L(3) show ?thesis unfolding fits_def by fastforce
qed

lemma fits_start:
  assumes "exact_rate rate" "tokens_ok burst t"
  shows "fits rate T (refill rate burst (of_int T) (t, l)) (1000 * uint burst + 999)"
proof -
  have L: "T - uint (of_int T - l) \<le> T" "l = of_int (T - uint (of_int T - l))" by simp_all
  have "fst (refill rate burst (of_int T) (t, l)) \<le> uint burst"
    using refill_tokens_ok [OF assms(2)] by (simp add: tokens_ok_def)
  with refill_level [OF assms L] show ?thesis unfolding fits_def by fastforce
qed

section \<open>The hook\<close>

definition bucket_ok :: "tcp_limit \<Rightarrow> rl_bucket \<Rightarrow> bool" where
  "bucket_ok s b \<longleftrightarrow> tokens_ok (s_burst s) (byte_tokens b) \<and> tokens_ok (s_pps_burst s) (pps_tokens b)"

definition limit_ok :: "tcp_limit \<Rightarrow> bool" where
  "limit_ok s \<longleftrightarrow> bucket_ok s (s_bkt_in s) \<and> bucket_ok s (s_bkt_out s)"

definition bucket :: "direction \<Rightarrow> tcp_limit \<Rightarrow> rl_bucket" where
  "bucket d s = (if d = Halow_rx then s_bkt_in s else s_bkt_out s)"

text \<open>A packet whose first segment is as long as it says.\<close>

definition pbuf_wf :: "rl_pbuf option \<Rightarrow> bool" where
  "pbuf_wf po \<longleftrightarrow> (case po of None \<Rightarrow> True | Some p \<Rightarrow> length (rl_payload p) = unat (rl_len p))"

text \<open>The packets that the limiter is there for: IPv4 TCP in both directions, UDP from HaLow only.\<close>

definition limited :: "tcp_limit \<Rightarrow> direction \<Rightarrow> rl_pbuf option \<Rightarrow> nat option \<Rightarrow> bool" where
  "limited s d po inp \<longleftrightarrow> (case po of None \<Rightarrow> False | Some p \<Rightarrow>
     \<not> rl_len p < ip_hdr_size \<and> direction_of s inp = Some d \<and> drop_bit 4 (rl_payload p ! 0) = 4 \<and>
     (rl_payload p ! 9 = IP_PROTO_TCP \<or> rl_payload p ! 9 = IP_PROTO_UDP \<and> d = Halow_rx))"

text \<open>The part of the state that the hook never changes.\<close>

definition same_setup :: "tcp_limit \<Rightarrow> tcp_limit \<Rightarrow> bool" where
  "same_setup s s' \<longleftrightarrow> s_rate_bps s' = s_rate_bps s \<and> s_burst s' = s_burst s \<and> s_pps s' = s_pps s \<and>
     s_pps_burst s' = s_pps_burst s \<and> s_halow_netif s' = s_halow_netif s \<and> s_softap_netif s' = s_softap_netif s"

lemma hook_cases:
  assumes "pbuf_wf po"
  obtains (unlimited) s' where "hc33_lwip_ip4_input_hook now po inp s = Inr (0, s')" "same_setup s s'"
      "\<And>d. \<not> limited s d po inp" "\<And>d. bucket d s' = bucket d s"
  | (limited) d p b st st1 pass s' where "po = Some p" "limited s d po inp" "\<And>d'. limited s d' po inp \<Longrightarrow> d' = d"
      "bucket_decide s now (rl_tot_len p) (bucket d s) st = (pass, b, st1)"
      "hc33_lwip_ip4_input_hook now po inp s = Inr (if pass then 0 else 1, s')" "same_setup s s'"
      "bucket d s' = b" "\<And>d'. d' \<noteq> d \<Longrightarrow> bucket d' s' = bucket d' s"
proof (cases po)
  case None
  then show thesis
    by (intro unlimited [of s]) (simp_all add: hc33_lwip_ip4_input_hook_def same_setup_def limited_def)
next
  case (Some p)
  let ?v = "rl_payload p ! 0" and ?proto = "rl_payload p ! 9"
  show thesis
  proof (cases "rl_len p < ip_hdr_size \<or> direction_of s inp = None")
    case True
    with Some show thesis
      by (intro unlimited [of s])
        (auto simp: hc33_lwip_ip4_input_hook_def same_setup_def limited_def split: option.split)
  next
    case False
    then obtain d where d: "direction_of s inp = Some d" and len: "\<not> rl_len p < ip_hdr_size" by auto
    have "20 \<le> unat (rl_len p)" using len by (simp add: ip_hdr_size_def word_less_nat_alt not_less)
    then have get: "mem_get (rl_payload p) 0 = Inr ?v" "mem_get (rl_payload p) 9 = Inr ?proto"
      using assms Some by (simp_all add: mem_get_def pbuf_wf_def)
    define st where "st = (if ?proto = IP_PROTO_UDP
      then (s_stats s)\<lparr>udp_seen_pkts := udp_seen_pkts (s_stats s) + 1\<rparr> else s_stats s)"
    consider (other) "drop_bit 4 ?v \<noteq> 4 \<or> ?proto \<noteq> IP_PROTO_UDP \<and> ?proto \<noteq> IP_PROTO_TCP"
      | (udp) "drop_bit 4 ?v = 4" "?proto = IP_PROTO_UDP" "d \<noteq> Halow_rx"
      | (lim) "drop_bit 4 ?v = 4" "?proto = IP_PROTO_TCP \<or> ?proto = IP_PROTO_UDP \<and> d = Halow_rx"
      by blast
    then show thesis
    proof cases
      case other
      with Some d len get show thesis
        by (intro unlimited [of s])
          (auto simp: hc33_lwip_ip4_input_hook_def same_setup_def limited_def)
    next
      case udp
      with Some d len get show thesis
        by (intro unlimited [of "s\<lparr>s_stats := st\<rparr>"])
          (auto simp: hc33_lwip_ip4_input_hook_def same_setup_def limited_def st_def bucket_def
            IP_PROTO_UDP_def IP_PROTO_TCP_def)
    next
      case lim
      obtain pass b st1 where dec: "bucket_decide s now (rl_tot_len p) (bucket d s) st = (pass, b, st1)"
        by (metis prod_cases3)
      let ?s' = "if d = Halow_rx then s\<lparr>s_bkt_in := b, s_stats := st1\<rparr> else s\<lparr>s_bkt_out := b, s_stats := st1\<rparr>"
      show thesis
      proof (rule limited [of p d st pass b st1 ?s'])
        show "hc33_lwip_ip4_input_hook now po inp s = Inr (if pass then 0 else 1, ?s')"
          using lim Some d len get dec
          by (auto simp: hc33_lwip_ip4_input_hook_def st_def bucket_def IP_PROTO_UDP_def IP_PROTO_TCP_def)
        show "bucket d ?s' = b" by (simp add: bucket_def)
        show "bucket d' ?s' = bucket d' s" if "d' \<noteq> d" for d'
          using that by (cases d; cases d') (simp_all add: bucket_def)
      qed (use Some d len lim dec in \<open>auto simp: limited_def same_setup_def\<close>)
    qed
  qed
qed

text \<open>What a decision does to the two dimensions.\<close>

lemma bucket_decide_level:
  fixes plen :: u16
  assumes dec: "bucket_decide s (of_int T) plen b st = (pass, b', st')" and ok: "bucket_ok s b"
  defines "n \<equiv> (if pass then uint plen else 0)" and "k \<equiv> (if pass \<and> s_pps s \<noteq> 0 then 1 else 0 :: int)"
  shows "bucket_ok s b'"
    "\<exists>t l. refill (s_rate_bps s) (s_burst s) (of_int T) (byte_tokens b, byte_last_ms b) = (t, l) \<and>
       byte_tokens b' = t - n \<and> byte_last_ms b' = l"
    "\<exists>t l. refill (s_pps s) (s_pps_burst s) (of_int T) (pps_tokens b, pps_last_ms b) = (t, l) \<and>
       pps_tokens b' = t - k \<and> pps_last_ms b' = l"
proof -
  obtain t l where r: "refill (s_rate_bps s) (s_burst s) (of_int T) (byte_tokens b, byte_last_ms b) = (t, l)" by fastforce
  obtain t2 l2 where r2: "refill (s_pps s) (s_pps_burst s) (of_int T) (pps_tokens b, pps_last_ms b) = (t2, l2)" by fastforce
  have ok1: "tokens_ok (s_burst s) t"
    using refill_tokens_ok [of "s_burst s" "byte_tokens b" "s_rate_bps s" "of_int T" "byte_last_ms b"] ok r
    by (simp add: bucket_ok_def)
  have ok2: "tokens_ok (s_pps_burst s) t2"
    using refill_tokens_ok [of "s_pps_burst s" "pps_tokens b" "s_pps s" "of_int T" "pps_last_ms b"] ok r2
    by (simp add: bucket_ok_def)
  have vals: "byte_tokens b' = t - n" "byte_last_ms b' = l" "pps_tokens b' = t2 - k" "pps_last_ms b' = l2"
    and pass: "pass \<Longrightarrow> uint plen \<le> t" "pass \<Longrightarrow> s_pps s \<noteq> 0 \<Longrightarrow> 1 \<le> t2"
    using dec r r2
    by (auto simp: bucket_decide_def Let_def refill_bytes_refill refill_pps_refill n_def k_def split: if_splits)
  have "0 \<le> n" "n \<le> t" "0 \<le> k" "k \<le> t2"
    using ok1 ok2 pass by (auto simp: tokens_ok_def n_def k_def)
  then show "bucket_ok s b'"
    using ok1 ok2 unfolding bucket_ok_def tokens_ok_def vals by linarith
  show "\<exists>t l. refill (s_rate_bps s) (s_burst s) (of_int T) (byte_tokens b, byte_last_ms b) = (t, l) \<and>
       byte_tokens b' = t - n \<and> byte_last_ms b' = l"
    using r vals by blast
  show "\<exists>t l. refill (s_pps s) (s_pps_burst s) (of_int T) (pps_tokens b, pps_last_ms b) = (t, l) \<and>
       pps_tokens b' = t - k \<and> pps_last_ms b' = l"
    using r2 vals by blast
qed

text \<open>The two dimensions of a bucket, so that each fact is proved once.\<close>

datatype dimension = Bytes | Packets

fun dim_rate :: "dimension \<Rightarrow> tcp_limit \<Rightarrow> u32" where
  "dim_rate Bytes s = s_rate_bps s"
| "dim_rate Packets s = s_pps s"

fun dim_burst :: "dimension \<Rightarrow> tcp_limit \<Rightarrow> u32" where
  "dim_burst Bytes s = s_burst s"
| "dim_burst Packets s = s_pps_burst s"

fun dim_level :: "dimension \<Rightarrow> rl_bucket \<Rightarrow> int \<times> u32" where
  "dim_level Bytes b = (byte_tokens b, byte_last_ms b)"
| "dim_level Packets b = (pps_tokens b, pps_last_ms b)"

text \<open>What a packet costs; with \<open>s_pps = 0\<close> the packet dimension is off.\<close>

fun dim_cost :: "dimension \<Rightarrow> tcp_limit \<Rightarrow> rl_pbuf option \<Rightarrow> int" where
  "dim_cost Bytes s po = (case po of None \<Rightarrow> 0 | Some p \<Rightarrow> uint (rl_tot_len p))"
| "dim_cost Packets s po = (if s_pps s = 0 then 0 else 1)"

lemma same_setup_dims:
  assumes "same_setup s s'"
  shows "dim_rate dm s' = dim_rate dm s" "dim_burst dm s' = dim_burst dm s"
    "dim_cost dm s' po = dim_cost dm s po" "limited s' d po inp = limited s d po inp" "bucket_ok s' = bucket_ok s"
proof -
  show "dim_rate dm s' = dim_rate dm s" "dim_burst dm s' = dim_burst dm s"
    using assms by (cases dm; simp add: same_setup_def)+
  show "dim_cost dm s' po = dim_cost dm s po"
    using assms by (cases dm) (simp_all add: same_setup_def)
  have "direction_of s' inp = direction_of s inp"
    using assms by (simp add: same_setup_def direction_of_def)
  then show "limited s' d po inp = limited s d po inp" by (simp add: limited_def split: option.split)
  show "bucket_ok s' = bucket_ok s"
    by (rule ext) (use assms in \<open>simp add: same_setup_def bucket_ok_def\<close>)
qed

lemma limit_ok_bucket: "limit_ok s \<longleftrightarrow> (\<forall>d. bucket_ok s (bucket d s))"
proof
  assume "\<forall>d. bucket_ok s (bucket d s)"
  from this [THEN spec, of Halow_rx] this [THEN spec, of Softap_rx] show "limit_ok s"
    by (simp add: limit_ok_def bucket_def)
qed (simp add: limit_ok_def bucket_def)

lemma tokens_ok_level: "bucket_ok s b \<Longrightarrow> tokens_ok (dim_burst dm s) (fst (dim_level dm b))"
  by (cases dm) (simp_all add: bucket_ok_def)

text \<open>The hook always returns, and what it does to the bucket of a direction.\<close>

lemma hook_level:
  assumes "pbuf_wf po" "limit_ok s"
  obtains r s' where "hc33_lwip_ip4_input_hook (of_int T) po inp s = Inr (r, s')" "same_setup s s'" "limit_ok s'"
    "\<And>d dm. limited s d po inp \<Longrightarrow>
       dim_level dm (bucket d s') =
         (fst (refill (dim_rate dm s) (dim_burst dm s) (of_int T) (dim_level dm (bucket d s))) -
            (if r = 0 then dim_cost dm s po else 0),
          snd (refill (dim_rate dm s) (dim_burst dm s) (of_int T) (dim_level dm (bucket d s))))"
    "\<And>d. \<not> limited s d po inp \<Longrightarrow> bucket d s' = bucket d s"
  using assms(1)
proof (cases rule: hook_cases [of po "of_int T" inp s])
  case (unlimited s')
  from unlimited(1) show thesis
  proof (rule that)
    show "same_setup s s'" by fact
    show "limit_ok s'"
      using assms(2) unlimited(2,4) by (simp add: limit_ok_bucket same_setup_dims)
  qed (use unlimited in auto)
next
  case (limited d p b st st1 pass s')
  note lv = bucket_decide_level [OF limited(4)]
  have ok: "bucket_ok s (bucket d s)" using assms(2) by (simp add: limit_ok_bucket)
  from limited(5) show thesis
  proof (rule that)
    show "same_setup s s'" by fact
    have "bucket_ok s (bucket d' s')" for d'
      using assms(2) lv(1) [OF ok] limited(7) limited(8) [of d'] by (cases "d' = d") (simp_all add: limit_ok_bucket)
    then show "limit_ok s'" using limited(6) by (simp add: limit_ok_bucket same_setup_dims)
    show "dim_level dm (bucket d' s') =
         (fst (refill (dim_rate dm s) (dim_burst dm s) (of_int T) (dim_level dm (bucket d' s))) -
            (if (if pass then 0 else 1 :: nat) = 0 then dim_cost dm s po else 0),
          snd (refill (dim_rate dm s) (dim_burst dm s) (of_int T) (dim_level dm (bucket d' s))))"
      if "limited s d' po inp" for d' dm
    proof -
      have "d' = d" using limited(3) that by simp
      then show ?thesis
        using lv(2,3) [OF ok] limited(1,7) by (cases dm) (auto split: if_splits)
    qed
    show "bucket d' s' = bucket d' s" if "\<not> limited s d' po inp" for d'
      using that limited(2) limited(8) [of d'] by blast
  qed
qed

text \<open>
  A run of the hook over packets with their true arrival times in milliseconds; the clock shows the
  time modulo 2 to the 32.
\<close>

type_synonym rl_event = "int \<times> rl_pbuf option \<times> nat option"

fun rl_run :: "rl_event list \<Rightarrow> tcp_limit \<Rightarrow> (nat list \<times> tcp_limit) result" where
  "rl_run [] s = Inr ([], s)"
| "rl_run ((T, po, inp) # es) s =
     rbind (hc33_lwip_ip4_input_hook (of_int T) po inp s) (\<lambda>(r, s1).
     rbind (rl_run es s1) (\<lambda>(rs, s2). Inr (r # rs, s2)))"

text \<open>The total cost of the packets of a direction that the limiter let through.\<close>

fun let_through :: "dimension \<Rightarrow> direction \<Rightarrow> tcp_limit \<Rightarrow> rl_event list \<Rightarrow> nat list \<Rightarrow> int" where
  "let_through dm d s ((T, po, inp) # es) (r # rs) =
     (if limited s d po inp \<and> r = 0 then dim_cost dm s po else 0) + let_through dm d s es rs"
| "let_through dm d s _ _ = 0"

lemma let_through_same: "same_setup s s' \<Longrightarrow> let_through dm d s' es rs = let_through dm d s es rs"
  by (induction dm d s es rs rule: let_through.induct) (simp_all add: same_setup_dims)

definition in_order :: "int \<Rightarrow> rl_event list \<Rightarrow> bool" where
  "in_order T es \<longleftrightarrow> sorted (T # map fst es) \<and> (\<forall>(_, po, _) \<in> set es. pbuf_wf po)"

lemma in_order_Cons: "in_order T ((T1, po, inp) # es) \<longleftrightarrow> T \<le> T1 \<and> pbuf_wf po \<and> in_order T1 es"
  unfolding in_order_def by (auto intro: order_trans)

definition end_time :: "int \<Rightarrow> rl_event list \<Rightarrow> int" where
  "end_time T es = last (T # map fst es)"

lemma end_time_simps [simp]:
  "end_time T [] = T" "end_time T ((T1, x) # es) = end_time T1 es"
  by (simp_all add: end_time_def)

lemma end_time_ge: "in_order T es \<Longrightarrow> T \<le> end_time T es"
  by (induction es arbitrary: T) (auto simp: in_order_Cons intro: order_trans)

lemma dim_cost_nonneg: "0 \<le> dim_cost dm s po"
  by (cases dm) (simp_all split: option.split)

lemma rl_run_ok:
  assumes "limit_ok s" "in_order T es"
  obtains rs s' where "rl_run es s = Inr (rs, s')" "limit_ok s'" "same_setup s s'"
  using assms
proof (induction es arbitrary: s T thesis)
  case Nil
  then show ?case by (simp add: same_setup_def)
next
  case (Cons e es)
  obtain T1 po inp where e: "e = (T1, po, inp)" by (cases e)
  from Cons.prems(3) have wf: "pbuf_wf po" and io: "in_order T1 es" by (simp_all add: e in_order_Cons)
  from wf Cons.prems(2) obtain r s1 where h: "hc33_lwip_ip4_input_hook (of_int T1) po inp s = Inr (r, s1)"
    and ss: "same_setup s s1" and ok: "limit_ok s1" by (rule hook_level)
  from Cons.IH [OF _ ok io] obtain rs s2 where "rl_run es s1 = Inr (rs, s2)" "limit_ok s2" "same_setup s1 s2" by blast
  with h ss show ?case by (intro Cons.prems(1) [of "r # rs" s2]) (simp_all add: e same_setup_def)
qed

text \<open>Once the level of a bucket is known to fit under \<open>K\<close>, no more than \<open>K\<close> and the refill can pass.\<close>

lemma let_through_level:
  assumes "exact_rate (dim_rate dm s)" "limit_ok s" "in_order T es"
    and "fits (dim_rate dm s) T (dim_level dm (bucket d s)) K" and "rl_run es s = Inr (rs, s')"
  shows "1000 * let_through dm d s es rs \<le> K + uint (dim_rate dm s) * (end_time T es - T)"
  using assms
proof (induction es arbitrary: s T K rs)
  case Nil
  have "0 \<le> fst (dim_level dm (bucket d s))"
    using tokens_ok_level [of s "bucket d s" dm] Nil.prems(2) by (simp add: limit_ok_bucket tokens_ok_def)
  then have "0 \<le> K" using fits_nonneg [of "dim_rate dm s" T] Nil.prems(4) by (metis prod.collapse)
  then show ?case by simp
next
  case (Cons e es)
  obtain T1 po inp where e: "e = (T1, po, inp)" by (cases e)
  let ?R = "dim_rate dm s" and ?x = "dim_level dm (bucket d s)"
  from Cons.prems(3) have wf: "pbuf_wf po" and io: "in_order T1 es" and le: "T \<le> T1"
    by (simp_all add: e in_order_Cons)
  from wf Cons.prems(2) obtain r s1 where h: "hc33_lwip_ip4_input_hook (of_int T1) po inp s = Inr (r, s1)"
    and ss: "same_setup s s1" and ok: "limit_ok s1"
    and lim: "limited s d po inp \<Longrightarrow> dim_level dm (bucket d s1) =
         (fst (refill ?R (dim_burst dm s) (of_int T1) ?x) - (if r = 0 then dim_cost dm s po else 0),
          snd (refill ?R (dim_burst dm s) (of_int T1) ?x))"
    and unlim: "\<not> limited s d po inp \<Longrightarrow> bucket d s1 = bucket d s" by (rule hook_level) blast
  from Cons.prems(5) h obtain rs1 where run: "rl_run es s1 = Inr (rs1, s')" and rs: "rs = r # rs1"
    by (auto simp: e rbind_eq_Inr)
  define c where "c = (if limited s d po inp \<and> r = 0 then dim_cost dm s po else 0)"
  have f1: "fits ?R T1 ?x (K + uint ?R * (T1 - T))" using fits_time [OF Cons.prems(4) le] .
  have "fits ?R T1 (dim_level dm (bucket d s1)) (K + uint ?R * (T1 - T) - 1000 * c)"
  proof (cases "limited s d po inp")
    case True
    have "tokens_ok (dim_burst dm s) (fst ?x)"
      using Cons.prems(2) by (simp add: limit_ok_bucket tokens_ok_level)
    then have "fits ?R T1 (refill ?R (dim_burst dm s) (of_int T1) ?x) (K + uint ?R * (T1 - T))"
      using fits_refill [OF Cons.prems(1)] f1 by (metis prod.collapse)
    with fits_take [of ?R T1 "fst (refill ?R (dim_burst dm s) (of_int T1) ?x)"] lim [OF True] True show ?thesis
      by (simp add: c_def)
  next
    case False
    with f1 unlim show ?thesis by (simp add: c_def)
  qed
  from Cons.IH [OF _ ok io _ run, of "K + uint ?R * (T1 - T) - 1000 * c"] this Cons.prems(1) ss
  have "1000 * let_through dm d s es rs1 \<le> K + uint ?R * (T1 - T) - 1000 * c + uint ?R * (end_time T1 es - T1)"
    by (simp add: same_setup_dims let_through_same)
  then show ?case by (simp add: e rs algebra_simps flip: c_def)
qed

lemma let_through_window:
  assumes "exact_rate (dim_rate dm s)" "limit_ok s" "in_order T es" "rl_run es s = Inr (rs, s')"
  shows "1000 * let_through dm d s es rs \<le>
    1000 * uint (dim_burst dm s) + 999 + uint (dim_rate dm s) * (end_time T es - T)"
  using assms
proof (induction es arbitrary: s T rs)
  case (Cons e es)
  obtain T1 po inp where e: "e = (T1, po, inp)" by (cases e)
  let ?R = "dim_rate dm s" and ?B = "dim_burst dm s" and ?x = "dim_level dm (bucket d s)"
  from Cons.prems(3) have wf: "pbuf_wf po" and io: "in_order T1 es" and le: "T \<le> T1"
    by (simp_all add: e in_order_Cons)
  from wf Cons.prems(2) obtain r s1 where h: "hc33_lwip_ip4_input_hook (of_int T1) po inp s = Inr (r, s1)"
    and ss: "same_setup s s1" and ok: "limit_ok s1"
    and lim: "limited s d po inp \<Longrightarrow> dim_level dm (bucket d s1) =
         (fst (refill ?R ?B (of_int T1) ?x) - (if r = 0 then dim_cost dm s po else 0),
          snd (refill ?R ?B (of_int T1) ?x))" by (rule hook_level) blast
  from Cons.prems(4) h obtain rs1 where run: "rl_run es s1 = Inr (rs1, s')" and rs: "rs = r # rs1"
    by (auto simp: e rbind_eq_Inr)
  have shift: "uint ?R * (end_time T1 es - T1) \<le> uint ?R * (end_time T1 es - T)"
    using le by (intro mult_left_mono) simp_all
  show ?case
  proof (cases "limited s d po inp")
    case True
    define c where "c = (if r = 0 then dim_cost dm s po else 0)"
    have "tokens_ok ?B (fst ?x)" using Cons.prems(2) by (simp add: limit_ok_bucket tokens_ok_level)
    from fits_start [OF Cons.prems(1) this, of T1 "snd ?x"]
    have "fits ?R T1 (fst (refill ?R ?B (of_int T1) ?x), snd (refill ?R ?B (of_int T1) ?x)) (1000 * uint ?B + 999)"
      by simp
    from fits_take [OF this, of c] lim [OF True]
    have f: "fits ?R T1 (dim_level dm (bucket d s1)) (1000 * uint ?B + 999 - 1000 * c)" by (simp add: c_def)
    have ex: "exact_rate (dim_rate dm s1)" using Cons.prems(1) ss by (simp add: same_setup_dims)
    from let_through_level [OF ex ok io _ run, of d] f ss
    have "1000 * let_through dm d s es rs1 \<le> 1000 * uint ?B + 999 - 1000 * c + uint ?R * (end_time T1 es - T1)"
      by (simp add: same_setup_dims let_through_same)
    with shift True show ?thesis by (simp add: e rs flip: c_def)
  next
    case False
    from Cons.IH [OF _ ok io run] Cons.prems(1) ss
    have "1000 * let_through dm d s es rs1 \<le> 1000 * uint ?B + 999 + uint ?R * (end_time T1 es - T1)"
      by (simp add: same_setup_dims let_through_same)
    with shift False show ?thesis by (simp add: e rs)
  qed
qed simp

section \<open>The rate\<close>

text \<open>
  C19: In any window of packets, whatever came before, each direction lets through at most one burst
  and what the rate allows in the window's time, in bytes and (unless that gate is off) in packets,
  provided the rate divides 1000 or is a multiple of it, as the default rates are; the hook never
  reads outside a packet and keeps the token counts between 0 and the depth. The clock may wrap.
\<close>

theorem tcp_limit_rate:
  assumes "exact_rate (s_rate_bps s)" "exact_rate (s_pps s)" "limit_ok s" "in_order T es"
  shows "\<exists>rs s'. rl_run es s = Inr (rs, s') \<and> limit_ok s' \<and> (\<forall>d.
    1000 * let_through Bytes d s es rs \<le>
      1000 * uint (s_burst s) + 999 + uint (s_rate_bps s) * (end_time T es - T) \<and>
    1000 * let_through Packets d s es rs \<le>
      1000 * uint (s_pps_burst s) + 999 + uint (s_pps s) * (end_time T es - T))"
proof -
  from assms(3,4) obtain rs s' where run: "rl_run es s = Inr (rs, s')" "limit_ok s'" by (rule rl_run_ok)
  with let_through_window [of Bytes s T es rs s'] let_through_window [of Packets s T es rs s'] assms
  show ?thesis by (intro exI [of _ rs] exI [of _ s']) simp
qed

definition sample_tcp :: rl_pbuf where
  "sample_tcp = \<lparr>rl_payload = 0x45 # replicate 8 0 @ [6] @ replicate 10 0, rl_len = 20, rl_tot_len = 1500\<rparr>"

lemma tcp_limit_rate_witness:
  "\<exists>rs s'. rl_run [(5, Some sample_tcp, Some 1), (5, Some sample_tcp, Some 2), (9, Some sample_tcp, Some 1)]
      (hc33_tcp_limit_set_halow_netif (Some 1) tcp_limit_boot) = Inr (rs, s') \<and> limit_ok s'"
proof -
  let ?s = "hc33_tcp_limit_set_halow_netif (Some 1) tcp_limit_boot"
  let ?es = "[(5, Some sample_tcp, Some 1), (5, Some sample_tcp, Some 2), (9, Some sample_tcp, Some 1)] :: rl_event list"
  have "exact_rate (s_rate_bps ?s)" "exact_rate (s_pps ?s)"
    by (simp_all add: exact_rate_def hc33_tcp_limit_set_halow_netif_def tcp_limit_boot_def)
  moreover have "limit_ok ?s"
    by (simp add: limit_ok_def bucket_ok_def tokens_ok_def hc33_tcp_limit_set_halow_netif_def tcp_limit_boot_def)
  moreover have "in_order 5 ?es"
    by (simp add: in_order_def pbuf_wf_def sample_tcp_def)
  ultimately show ?thesis using tcp_limit_rate [of ?s 5 ?es] by blast
qed

text \<open>The configuration calls keep the token counts in range for every depth that an \<open>int32_t\<close> holds.\<close>

lemma configure_limit_ok:
  assumes "limit_ok s" "uint burst < 2147483648"
  shows "limit_ok (hc33_tcp_limit_configure rate burst s)" "limit_ok (hc33_tcp_limit_configure_pps rate burst s)"
proof -
  have "to_i32 burst = uint burst"
  proof -
    have "- (2 ^ 31) \<le> uint burst" by (rule order_trans [of _ 0]) simp_all
    with assms(2) show ?thesis by (simp add: to_i32_def sint_uint signed_take_bit_int_eq_self)
  qed
  with assms show "limit_ok (hc33_tcp_limit_configure rate burst s)" "limit_ok (hc33_tcp_limit_configure_pps rate burst s)"
    by (auto simp: limit_ok_def bucket_ok_def tokens_ok_def hc33_tcp_limit_configure_def
        hc33_tcp_limit_configure_pps_def cap_bytes_def cap_pps_def)
qed

section \<open>Rates that are not exact\<close>

text \<open>
  With a byte rate above 1000 that is not a multiple of it, one millisecond adds \<open>rate div 1000\<close>
  tokens but the time they are said to consume rounds to 0, so the last time does not advance.
\<close>

lemma refill_free:
  assumes "1000 < uint rate" "\<not> 1000 dvd uint rate" "now = l + 1" "l \<noteq> 0" "tokens_ok burst t"
  shows "refill rate burst now (t, l) = (min (uint burst) (t + uint rate div 1000), l)"
proof -
  let ?a = "uint rate div 1000"
  have a: "?a \<noteq> 0" "0 < ?a" using assms(1) by linarith+
  have "?a * 1000 < uint rate"
  proof -
    have "?a * 1000 \<le> uint rate" by simp
    moreover have "?a * 1000 \<noteq> uint rate" using assms(2) by (metis dvd_triv_right)
    ultimately show ?thesis by simp
  qed
  then have c: "?a * 1000 div uint rate = 0" using a by (intro div_pos_pos_trivial) simp_all
  have "i64_to_i32 (min (uint burst) (t + ?a)) = min (uint burst) (t + ?a)"
    using assms(5) a by (intro i64_to_i32_id) (auto simp: tokens_ok_def)
  with a c assms(3,4) show ?thesis by (simp add: refill_def Let_def)
qed

text \<open>\<open>n\<close> packets of length \<open>plen\<close> decided at the same time, and how many of them pass.\<close>

fun decide_many :: "nat \<Rightarrow> tcp_limit \<Rightarrow> u32 \<Rightarrow> u16 \<Rightarrow> rl_bucket \<Rightarrow> nat" where
  "decide_many 0 s now plen b = 0"
| "decide_many (Suc n) s now plen b =
     (case bucket_decide s now plen b (s_stats s) of
        (pass, b1, _) \<Rightarrow> (if pass then 1 else 0) + decide_many n s now plen b1)"

text \<open>
  For a byte rate above 1000 that is not a multiple of 1000 the byte limit does not hold: any
  number of packets of up to \<open>rate div 1000\<close> bytes pass in the same millisecond.
\<close>

theorem tcp_limit_inexact_rate:
  assumes "1000 < uint (s_rate_bps s)" "\<not> 1000 dvd uint (s_rate_bps s)" "s_pps s = 0"
    and "uint plen \<le> uint (s_rate_bps s) div 1000" "uint plen \<le> uint (s_burst s)"
    and "bucket_ok s b" "byte_last_ms b \<noteq> 0" "now = byte_last_ms b + 1"
  shows "decide_many n s now plen b = n"
  using assms(6-8)
proof (induction n arbitrary: b)
  case (Suc n)
  let ?t = "min (uint (s_burst s)) (byte_tokens b + uint (s_rate_bps s) div 1000)"
  obtain pass b1 st1 where dec: "bucket_decide s now plen b (s_stats s) = (pass, b1, st1)" by (metis prod_cases3)
  have tok: "tokens_ok (s_burst s) (byte_tokens b)" using Suc.prems(1) by (simp add: bucket_ok_def)
  have r: "refill (s_rate_bps s) (s_burst s) now (byte_tokens b, byte_last_ms b) = (?t, byte_last_ms b)"
    using refill_free [OF assms(1,2) Suc.prems(3,2) tok] .
  have "uint plen \<le> ?t" using assms(4,5) tok by (simp add: tokens_ok_def)
  then have pass: "pass" using dec r assms(3)
    by (auto simp: bucket_decide_def Let_def refill_bytes_refill refill_pps_refill split: if_splits prod.splits)
  have dec': "bucket_decide s (of_int (uint now)) plen b (s_stats s) = (pass, b1, st1)" using dec by simp
  have "bucket_ok s b1" using bucket_decide_level(1) [OF dec' Suc.prems(1)] .
  moreover have "byte_last_ms b1 = byte_last_ms b"
    using bucket_decide_level(2) [OF dec' Suc.prems(1)] r by auto
  ultimately have "bucket_ok s b1" "byte_last_ms b1 = byte_last_ms b" .
  then have "decide_many n s now plen b1 = n"
    using Suc.prems by (intro Suc.IH) simp_all
  with dec pass show ?case by simp
qed simp

lemma tcp_limit_inexact_rate_witness:
  "decide_many 1000000 (hc33_tcp_limit_configure_pps 0 50 (hc33_tcp_limit_configure 250999 65536 tcp_limit_boot))
     8 250 \<lparr>byte_tokens = 0, byte_last_ms = 7, pps_tokens = 0, pps_last_ms = 7\<rparr> = 1000000"
  by (rule tcp_limit_inexact_rate)
    (simp_all add: hc33_tcp_limit_configure_pps_def hc33_tcp_limit_configure_def tcp_limit_boot_def
      bucket_ok_def tokens_ok_def)

end
