(* ===== verification/Tcp_Proxy.thy ===== *)
theory Tcp_Proxy
  imports MM_Prelude "HOL-Library.Sublist"
begin

text \<open>
  The TCP to BLE proxy of tcp_proxy.cpp: the receive state machine that cuts the TCP byte stream into
  length-prefixed frames and hands each to the mower without ever dropping one, the idle watchdog,
  the life of the BLE link with a client, and the notifications in the other direction. Sockets, the
  BLE link and the clock are functions over one environment state, so that anything may happen to
  them between two calls.
\<close>

section \<open>Environment and state\<close>

text \<open>
  \<open>nc_read n\<close> gives the result and the bytes stored; \<open>server_accept\<close> is true when a waiting client was
  taken and has become the client; \<open>uninit_byte\<close> is what the uninitialised header array holds; \<open>notified\<close> says
  which notifications the BLE host task will push while the queue is drained, one entry for each frame sent
  (entries after the last are empty: in one drain only finitely many arrive).
\<close>

record 'e net_env =
  nc_connected :: "'e \<Rightarrow> bool \<times> 'e"
  nc_available :: "'e \<Rightarrow> int \<times> 'e"
  nc_read :: "nat \<Rightarrow> 'e \<Rightarrow> (int \<times> u8 list) \<times> 'e"
  nc_write :: "u8 list \<Rightarrow> 'e \<Rightarrow> 'e"
  nc_set_no_delay :: "'e \<Rightarrow> 'e"
  nc_stop :: "'e \<Rightarrow> 'e"
  server_accept :: "'e \<Rightarrow> bool \<times> 'e"
  uninit_byte :: u8

record 'e ble_env =
  is_connected :: "'e \<Rightarrow> bool"
  connect_mower :: "'e \<Rightarrow> bool \<times> 'e"
  disconnect_mower :: "'e \<Rightarrow> 'e"
  ble_write :: "u8 list \<Rightarrow> 'e \<Rightarrow> bool \<times> 'e"
  notified :: "'e \<Rightarrow> u8 list list list"

record 'e clock_env =
  millis :: "'e \<Rightarrow> u32 \<times> 'e"
  delay :: "u32 \<Rightarrow> 'e \<Rightarrow> 'e"

datatype rx_state = WAIT_LEN | READ_DATA | WRITE_PENDING

record tcp_proxy =
  ble_open :: bool
  rx_state :: rx_state
  rx_len :: u16
  rx_have :: u16
  rx_buf :: "u8 list"
  last_rx_ms :: u32
  write_pending_since_ms :: u32
  write_stalled :: bool
  notify_mutex :: bool
  notify_queue :: "u8 list list"

definition MAX_FRAME_LEN :: u16 where "MAX_FRAME_LEN = 600"
definition CLIENT_IDLE_TIMEOUT_MS :: u32 where "CLIENT_IDLE_TIMEOUT_MS = 30000"
definition BLE_WRITE_RETRY_BURST :: nat where "BLE_WRITE_RETRY_BURST = 6"
definition BLE_WRITE_RETRY_DELAY_MS :: u32 where "BLE_WRITE_RETRY_DELAY_MS = 3"
definition BLE_WRITE_STALL_LOG_MS :: u32 where "BLE_WRITE_STALL_LOG_MS = 1000"

text \<open>The members' initial values; \<open>made\<close> is whether the mutex could be created.\<close>

definition TcpProxy :: "bool \<Rightarrow> tcp_proxy" where
  "TcpProxy made = \<lparr>ble_open = False, rx_state = WAIT_LEN, rx_len = 0, rx_have = 0, rx_buf = [],
     last_rx_ms = 0, write_pending_since_ms = 0, write_stalled = False, notify_mutex = made,
     notify_queue = []\<rparr>"

text \<open>The callback that the constructor registers; it runs on the BLE host task.\<close>

definition notify_callback :: "u8 list \<Rightarrow> tcp_proxy \<Rightarrow> tcp_proxy" where
  "notify_callback data st =
     (if \<not> notify_mutex st then st else st\<lparr>notify_queue := notify_queue st @ [data]\<rparr>)"

section \<open>Clients come and go\<close>

definition on_client_connected ::
    "'e net_env \<Rightarrow> 'e ble_env \<Rightarrow> 'e clock_env \<Rightarrow> tcp_proxy \<Rightarrow> 'e \<Rightarrow> tcp_proxy \<times> 'e" where
  "on_client_connected net ble clk st e =
     (let st1 = st\<lparr>rx_state := WAIT_LEN, rx_len := 0, rx_have := 0, rx_buf := [], write_stalled := False\<rparr>;
          (now, e1) = millis clk e;
          st2 = st1\<lparr>last_rx_ms := now, ble_open := True\<rparr>;
          (up, e2) = connect_mower ble e1
      in if \<not> up then (st2\<lparr>ble_open := False\<rparr>, nc_stop net (disconnect_mower ble e2))
         else (st2, e2))"

definition on_client_disconnected :: "'e ble_env \<Rightarrow> tcp_proxy \<Rightarrow> 'e \<Rightarrow> tcp_proxy \<times> 'e" where
  "on_client_disconnected ble st e =
     (let e1 = disconnect_mower ble e;
          st1 = st\<lparr>ble_open := False\<rparr>
      in (if notify_mutex st1 then st1\<lparr>notify_queue := []\<rparr> else st1, e1))"

section \<open>From the socket to BLE\<close>

text \<open>
  One burst of attempts. The line that is logged when writing succeeds again after a stall prints how long it took;
  the clock read for it is left out, like the line.
\<close>

fun write_burst ::
    "'e ble_env \<Rightarrow> 'e clock_env \<Rightarrow> nat \<Rightarrow> tcp_proxy \<Rightarrow> 'e \<Rightarrow> bool \<times> tcp_proxy \<times> 'e" where
  "write_burst ble clk 0 st e =
     (let (now, e1) = millis clk e;
          stalled_for = now - write_pending_since_ms st
      in (False,
          if \<not> write_stalled st \<and> BLE_WRITE_STALL_LOG_MS < stalled_for then st\<lparr>write_stalled := True\<rparr> else st,
          e1))"
| "write_burst ble clk (Suc attempts) st e =
     (case ble_write ble (take (unat (rx_len st)) (rx_buf st)) e of
        (True, e1) \<Rightarrow> (True, st\<lparr>write_stalled := False\<rparr>, e1)
      | (False, e1) \<Rightarrow> write_burst ble clk attempts st (delay clk BLE_WRITE_RETRY_DELAY_MS e1))"

definition try_write_pending ::
    "'e net_env \<Rightarrow> 'e ble_env \<Rightarrow> 'e clock_env \<Rightarrow> tcp_proxy \<Rightarrow> 'e \<Rightarrow> bool \<times> tcp_proxy \<times> 'e" where
  "try_write_pending net ble clk st e =
     (if \<not> is_connected ble e then (False, st, nc_stop net e)
      else write_burst ble clk BLE_WRITE_RETRY_BURST st e)"

text \<open>
  One turn of the loop in three parts. A part ends in \<open>Return\<close>, in \<open>Again\<close> (the next turn), or falls
  through to the part below.
\<close>

datatype flow = Return | Again | Fall

definition header_len :: "u8 list \<Rightarrow> u16" where
  "header_len hdr = push_bit 8 (ucast (hdr ! 0)) OR ucast (hdr ! 1)"

definition poll_wait_len :: "'e net_env \<Rightarrow> tcp_proxy \<Rightarrow> 'e \<Rightarrow> flow \<times> tcp_proxy \<times> 'e" where
  "poll_wait_len net st e =
     (if rx_state st \<noteq> WAIT_LEN then (Fall, st, e)
      else let (avail, e1) = nc_available net e
       in if avail < 2 then (Return, st, e1)
          else let ((_, bs), e2) = nc_read net 2 e1;
                   hdr = bs @ replicate (2 - length bs) (uninit_byte net);
                   st1 = st\<lparr>rx_len := header_len hdr\<rparr>
           in if rx_len st1 = 0 then (Again, st1, e2)
              else if MAX_FRAME_LEN < rx_len st1 then (Return, st1, nc_stop net e2)
              else (Fall, st1\<lparr>rx_buf := replicate (unat (rx_len st1)) 0, rx_have := 0, rx_state := READ_DATA\<rparr>, e2))"

definition poll_read_data ::
    "'e net_env \<Rightarrow> 'e clock_env \<Rightarrow> tcp_proxy \<Rightarrow> 'e \<Rightarrow> flow \<times> tcp_proxy \<times> 'e" where
  "poll_read_data net clk st e =
     (if rx_state st \<noteq> READ_DATA then (Fall, st, e)
      else let (flow, st1, e1) =
             (if rx_have st < rx_len st then
                (let (avail, e1) = nc_available net e
                 in if avail \<le> 0 then (Return, st, e1)
                    else let want = uint (rx_len st) - uint (rx_have st);
                             to_read = (if avail < want then avail else want);
                             ((got, bs), e2) = nc_read net (nat to_read) e1
                     in if got \<le> 0 then (Return, st, e2)
                        else (Fall, st\<lparr>rx_buf := take (unat (rx_have st)) (rx_buf st) @ bs @
                                               drop (unat (rx_have st) + length bs) (rx_buf st),
                                      rx_have := rx_have st + of_int got\<rparr>, e2))
              else (Fall, st, e))
       in if flow = Return then (Return, st1, e1)
          else if rx_have st1 < rx_len st1 then (Return, st1, e1)
          else let (now, e2) = millis clk e1
           in (Fall, st1\<lparr>rx_state := WRITE_PENDING, write_pending_since_ms := now\<rparr>, e2))"

definition poll_write_pending ::
    "'e net_env \<Rightarrow> 'e ble_env \<Rightarrow> 'e clock_env \<Rightarrow> tcp_proxy \<Rightarrow> 'e \<Rightarrow> flow \<times> tcp_proxy \<times> 'e" where
  "poll_write_pending net ble clk st e =
     (if rx_state st \<noteq> WRITE_PENDING then (Again, st, e)
      else case try_write_pending net ble clk st e of
          (False, st1, e1) \<Rightarrow> (Return, st1, e1)
        | (True, st1, e1) \<Rightarrow>
            (let (now, e2) = millis clk e1
             in (Again, st1\<lparr>last_rx_ms := now, rx_state := WAIT_LEN, rx_len := 0, rx_have := 0\<rparr>, e2)))"

definition poll_turn ::
    "'e net_env \<Rightarrow> 'e ble_env \<Rightarrow> 'e clock_env \<Rightarrow> tcp_proxy \<Rightarrow> 'e \<Rightarrow> flow \<times> tcp_proxy \<times> 'e" where
  "poll_turn net ble clk st e =
     (case poll_wait_len net st e of
        (Fall, st1, e1) \<Rightarrow>
          (case poll_read_data net clk st1 e1 of
             (Fall, st2, e2) \<Rightarrow> poll_write_pending net ble clk st2 e2
           | r \<Rightarrow> r)
      | r \<Rightarrow> r)"

text \<open>The loop; \<open>None\<close> would be a call that never returns.\<close>

partial_function (option) poll_socket ::
    "'e net_env \<Rightarrow> 'e ble_env \<Rightarrow> 'e clock_env \<Rightarrow> tcp_proxy \<Rightarrow> 'e \<Rightarrow> (tcp_proxy \<times> 'e) option" where
  "poll_socket net ble clk st e =
     (let r = poll_turn net ble clk st e
      in if fst r = Return then Some (snd r)
         else poll_socket net ble clk (fst (snd r)) (snd (snd r)))"

section \<open>From BLE to the socket\<close>

definition send_frame :: "'e net_env \<Rightarrow> u8 list \<Rightarrow> 'e \<Rightarrow> 'e" where
  "send_frame net data e =
     (let (up, e1) = nc_connected net e
      in if \<not> up then e1
         else nc_write net data
                (nc_write net [of_nat (length data div 256 mod 256), of_nat (length data mod 256)] e1))"

text \<open>
  The loop takes one frame at a time and lets go of the mutex while it sends it; \<open>late\<close> are the notifications
  that the BLE host task pushes meanwhile, one entry for each frame sent. It ends when the queue is empty.
\<close>

function drain_queue :: "'e net_env \<Rightarrow> u8 list list list \<Rightarrow> tcp_proxy \<Rightarrow> 'e \<Rightarrow> tcp_proxy \<times> 'e" where
  "drain_queue net late st e =
     (case notify_queue st of
        [] \<Rightarrow> (st, e)
      | frame # q \<Rightarrow>
          (case late of
             [] \<Rightarrow> drain_queue net [] (st\<lparr>notify_queue := q\<rparr>) (send_frame net frame e)
           | pushed # later \<Rightarrow> drain_queue net later (st\<lparr>notify_queue := q @ pushed\<rparr>) (send_frame net frame e)))"
  by pat_completeness auto
termination
  by (relation "measure (\<lambda>(net, late, st, e). length (notify_queue st) + length (concat late))") auto

declare drain_queue.simps [simp del]

definition drain_notify_queue ::
    "'e net_env \<Rightarrow> 'e ble_env \<Rightarrow> tcp_proxy \<Rightarrow> 'e \<Rightarrow> tcp_proxy \<times> 'e" where
  "drain_notify_queue net ble st e =
     (if \<not> notify_mutex st then (st, e) else drain_queue net (notified ble e) st e)"

section \<open>The loop of the program\<close>

definition proxy_loop ::
    "'e net_env \<Rightarrow> 'e ble_env \<Rightarrow> 'e clock_env \<Rightarrow> tcp_proxy \<Rightarrow> 'e \<Rightarrow> (tcp_proxy \<times> 'e) option" where
  "proxy_loop net ble clk st e =
     (let (up, e1) = nc_connected net e
      in if \<not> up then
           (let (st1, e2) = (if ble_open st then on_client_disconnected ble st e1 else (st, e1));
                (incoming, e3) = server_accept net e2
            in Some (if incoming then on_client_connected net ble clk st1 (nc_set_no_delay net e3)
                     else (st1, e3)))
         else
           (let (now, e2) = millis clk e1
            in if CLIENT_IDLE_TIMEOUT_MS < now - last_rx_ms st then Some (st, nc_stop net e2)
               else (case poll_socket net ble clk st e2 of
                       None \<Rightarrow> None
                     | Some (st1, e3) \<Rightarrow> Some (drain_notify_queue net ble st1 e3))))"

section \<open>The wire format\<close>

text \<open>The non-empty frames of a byte stream and the incomplete rest.\<close>

definition frame_len :: "u8 \<Rightarrow> u8 \<Rightarrow> nat" where
  "frame_len h l = 256 * unat h + unat l"

function deframe :: "u8 list \<Rightarrow> u8 list list \<times> u8 list" where
  "deframe (h # l # bs) =
     (if frame_len h l = 0 then deframe bs
      else if frame_len h l \<le> length bs then
        (let (fs, rest) = deframe (drop (frame_len h l) bs) in (take (frame_len h l) bs # fs, rest))
      else ([], h # l # bs))"
| "deframe [] = ([], [])"
| "deframe [b] = ([], [b])"
  by pat_completeness auto
termination by (relation "measure length") auto

lemma deframe_cases:
  "frame_len h l = 0 \<Longrightarrow> deframe (h # l # bs) = deframe bs"
  "length bs < frame_len h l \<Longrightarrow> deframe (h # l # bs) = ([], h # l # bs)"
  "frame_len h l \<noteq> 0 \<Longrightarrow> frame_len h l \<le> length bs \<Longrightarrow>
     deframe (h # l # bs) = (take (frame_len h l) bs # fst (deframe (drop (frame_len h l) bs)),
       snd (deframe (drop (frame_len h l) bs)))"
  by (simp_all split: prod.split)

declare deframe.simps(1) [simp del]

lemma deframe_append:
  "deframe (xs @ ys) = (fst (deframe xs) @ fst (deframe (snd (deframe xs) @ ys)),
     snd (deframe (snd (deframe xs) @ ys)))"
proof (induction xs rule: deframe.induct)
  case (1 h l bs)
  consider "frame_len h l = 0" | "length bs < frame_len h l" | "frame_len h l \<noteq> 0" "frame_len h l \<le> length bs"
    by linarith
  then show ?case
  proof cases
    case 1
    with "1.IH"(1) show ?thesis by (simp add: deframe_cases(1))
  next
    case 2
    then show ?thesis by (simp add: deframe_cases(2))
  next
    case 3
    then have "take (frame_len h l) (bs @ ys) = take (frame_len h l) bs"
      "drop (frame_len h l) (bs @ ys) = drop (frame_len h l) bs @ ys" by simp_all
    with 3 "1.IH"(2) show ?thesis by (simp add: deframe_cases(3))
  qed
qed simp_all

lemma deframe_more: "deframe xs = (fs, []) \<Longrightarrow> deframe (xs @ ys) = (fs @ fst (deframe ys), snd (deframe ys))"
  by (subst deframe_append) simp

lemma deframe_prefix: "prefix (fst (deframe xs)) (fst (deframe (xs @ ys)))"
  by (subst deframe_append) simp

lemma deframe_frame:
  assumes "length bs = frame_len h l" "frame_len h l \<noteq> 0"
  shows "deframe (h # l # bs) = ([bs], [])"
  using assms deframe_cases(3) [of h l bs] by simp

definition frame_bytes :: "u8 list \<Rightarrow> u8 list" where
  "frame_bytes f = of_nat (length f div 256 mod 256) # of_nat (length f mod 256) # f"

lemma frame_bytes_len:
  "length f < 65536 \<Longrightarrow> frame_len (of_nat (length f div 256 mod 256)) (of_nat (length f mod 256)) = length f"
  by (simp add: frame_len_def unat_of_nat)

lemma rx_len_unat: "unat (push_bit 8 (ucast (h :: u8)) OR ucast (l :: u8) :: u16) = frame_len h l"
proof -
  have "push_bit 8 (ucast h) OR ucast l = (push_bit 8 (ucast h) + ucast l :: u16)"
    by (rule disjunctive_add [symmetric]) (simp add: bit_push_bit_iff bit_unsigned_iff u8_bit_ge not_less)
  moreover have "unat (push_bit 8 (ucast h) :: u16) = 256 * unat h"
  proof -
    have "unat h * 256 < 65536" using unat_u8_lt [of h] by linarith
    then show ?thesis by (simp add: push_bit_eq_mult unat_word_ariths unsigned_ucast_eq take_bit_nat_eq_self mult.commute)
  qed
  moreover have "unat (ucast l :: u16) = unat l"
    by (simp add: unsigned_ucast_eq take_bit_nat_eq_self)
  moreover have "256 * unat h + unat l < 65536" using unat_u8_lt [of h] unat_u8_lt [of l] by linarith
  ultimately show ?thesis by (simp add: frame_len_def unat_word_ariths)
qed

lemma frames_bytes_deframe:
  "\<forall>f \<in> set fs. f \<noteq> [] \<and> length f < 65536 \<Longrightarrow> deframe (concat (map frame_bytes fs)) = (fs, [])"
proof (induction fs)
  case (Cons f fs)
  have "deframe (frame_bytes f) = ([f], [])"
    using Cons.prems frame_bytes_len [of f] unfolding frame_bytes_def by (intro deframe_frame) simp_all
  with Cons show ?case by (simp add: deframe_more)
qed simp

text \<open>The frames that one drain sends: those in the queue and those pushed before the loop finds it empty.\<close>

function drained :: "u8 list list list \<Rightarrow> u8 list list \<Rightarrow> u8 list list" where
  "drained late [] = []"
| "drained [] (f # q) = f # drained [] q"
| "drained (pushed # later) (f # q) = f # drained later (q @ pushed)"
  by pat_completeness auto
termination
  by (relation "measure (\<lambda>(late, q). length q + length (concat late))") auto

text \<open>First in, first out: each frame sent uses up one entry of \<open>late\<close>.\<close>

lemma drained_fifo: "drained late q = q @ concat (take (length (drained late q)) late)"
proof (induction late q rule: drained.induct)
  case (3 pushed later f q)
  have "drained (pushed # later) (f # q) = f # drained later (q @ pushed)" by simp
  also have "\<dots> = f # (q @ pushed) @ concat (take (length (drained later (q @ pushed))) later)"
    using 3 by simp
  also have "\<dots> = (f # q) @ concat (take (length (drained (pushed # later) (f # q))) (pushed # later))" by simp
  finally show ?case .
qed simp_all

lemma drain_queue_fold:
  "drain_queue net late st e = (st\<lparr>notify_queue := []\<rparr>, fold (send_frame net) (drained late (notify_queue st)) e)"
proof (induction net late st e rule: drain_queue.induct)
  case (1 net late st e)
  show ?case
  proof (cases "notify_queue st")
    case Nil
    then show ?thesis by (subst drain_queue.simps) simp
  next
    case (Cons f q)
    show ?thesis
    proof (cases late)
      case Nil
      with Cons "1.IH"(1) show ?thesis by (subst drain_queue.simps) simp
    next
      case (Cons pushed later)
      with \<open>notify_queue st = f # q\<close> "1.IH"(2) show ?thesis by (subst drain_queue.simps) simp
    qed
  qed
qed

text \<open>What \<open>send_frame\<close> hands to \<open>write\<close>, call by call.\<close>

definition frame_writes :: "u8 list \<Rightarrow> u8 list list" where
  "frame_writes f = [[of_nat (length f div 256 mod 256), of_nat (length f mod 256)], f]"

lemma frame_writes_concat: "concat (concat (map frame_writes fs)) = concat (map frame_bytes fs)"
  by (induction fs) (simp_all add: frame_writes_def frame_bytes_def)

section \<open>The peers\<close>

text \<open>
  What the state machine relies on. \<open>unread\<close> is everything the client will ever send that was not read
  yet, \<open>accepted\<close> the frames that BLE took, \<open>stopped\<close> that the client was stopped. A count of available
  bytes can be read in full (unless the connection breaks), only \<open>nc_read\<close> takes bytes, and only a
  successful BLE write adds a frame.
\<close>

text \<open>
  The states of one connection: the client was just taken, one more round of the loop found it still
  connected, or the BLE host task delivered a notification.
\<close>

inductive proxy_reach :: "'e net_env \<Rightarrow> 'e ble_env \<Rightarrow> 'e clock_env \<Rightarrow> tcp_proxy \<Rightarrow> 'e \<Rightarrow> tcp_proxy \<Rightarrow> 'e \<Rightarrow> bool"
  for net ble clk st0 e0 where
  reach_start: "on_client_connected net ble clk st0 e0 = (st1, e1) \<Longrightarrow> proxy_reach net ble clk st0 e0 st1 e1"
| reach_loop: "proxy_reach net ble clk st0 e0 st e \<Longrightarrow> fst (nc_connected net e) \<Longrightarrow>
     proxy_loop net ble clk st e = Some (st1, e1) \<Longrightarrow> proxy_reach net ble clk st0 e0 st1 e1"
| reach_notify: "proxy_reach net ble clk st0 e0 st e \<Longrightarrow> proxy_reach net ble clk st0 e0 (notify_callback data st) e"

locale proxy_peers =
  fixes net :: "'e net_env" and ble :: "'e ble_env" and clk :: "'e clock_env"
    and unread :: "'e \<Rightarrow> u8 list" and accepted :: "'e \<Rightarrow> u8 list list" and stopped :: "'e \<Rightarrow> bool"
  assumes connected: "nc_connected net e = (b, e1) \<Longrightarrow>
      accepted e1 = accepted e \<and> stopped e1 = stopped e \<and> unread e1 = unread e \<and> (b \<longrightarrow> \<not> stopped e)"
    and available: "nc_available net e = (a, e1) \<Longrightarrow> accepted e1 = accepted e \<and>
      (stopped e \<longrightarrow> stopped e1 \<and> a \<le> 0) \<and> (\<not> stopped e1 \<longrightarrow> unread e1 = unread e \<and> a \<le> int (length (unread e)))"
    and read: "nc_available net e = (a, e1) \<Longrightarrow> 0 < n \<Longrightarrow> int n \<le> a \<Longrightarrow> nc_read net n e1 = ((r, bs), e2) \<Longrightarrow>
      accepted e2 = accepted e \<and> (stopped e1 \<longrightarrow> stopped e2 \<and> r \<le> 0) \<and> (\<not> stopped e2 \<longrightarrow> r = int n) \<and>
      (0 < r \<longrightarrow> r = int (length bs) \<and> length bs \<le> n \<and>
         (\<exists>rest. unread e1 = bs @ rest \<and> (\<not> stopped e2 \<longrightarrow> unread e2 = rest)))"
    and net_write: "accepted (nc_write net bs e) = accepted e" "stopped e \<Longrightarrow> stopped (nc_write net bs e)"
      "\<not> stopped (nc_write net bs e) \<Longrightarrow> unread (nc_write net bs e) = unread e"
    and stop: "accepted (nc_stop net e) = accepted e" "stopped (nc_stop net e)"
    and clock: "millis clk e = (t, e1) \<Longrightarrow> accepted e1 = accepted e \<and> stopped e1 = stopped e \<and> unread e1 = unread e"
      "accepted (delay clk d e) = accepted e" "stopped (delay clk d e) = stopped e" "unread (delay clk d e) = unread e"
    and ble_write: "ble_write ble f e = (ok, e1) \<Longrightarrow>
      accepted e1 = accepted e @ (if ok then [f] else []) \<and> stopped e1 = stopped e \<and> unread e1 = unread e"
    and ble_connect: "connect_mower ble e = (up, e1) \<Longrightarrow>
      accepted e1 = accepted e \<and> stopped e1 = stopped e \<and> unread e1 = unread e"
    and ble_disconnect: "accepted (disconnect_mower ble e) = accepted e"
begin

text \<open>The frame that is complete but not yet accepted.\<close>

definition held :: "tcp_proxy \<Rightarrow> u8 list list" where
  "held st = (if rx_state st = WRITE_PENDING then [take (unat (rx_len st)) (rx_buf st)] else [])"

text \<open>
  Exact accounting for a connection whose stream is \<open>S\<close> and before which \<open>B\<close> was accepted: what was
  read is the accepted frames, the held one, and the part of the frame being received.
\<close>

definition exact_at :: "u8 list \<Rightarrow> u8 list list \<Rightarrow> tcp_proxy \<Rightarrow> u8 list list \<Rightarrow> u8 list \<Rightarrow> bool" where
  "exact_at S B st acc U \<longleftrightarrow> (\<exists>sent cons part. acc = B @ sent \<and> S = cons @ part @ U \<and>
     deframe cons = (sent @ held st, []) \<and>
     (if rx_state st = READ_DATA then
        \<exists>h l. part = h # l # take (unat (rx_have st)) (rx_buf st) \<and> frame_len h l = unat (rx_len st) \<and>
              length (rx_buf st) = unat (rx_len st) \<and> rx_have st < rx_len st
      else part = []))"

definition exact :: "u8 list \<Rightarrow> u8 list list \<Rightarrow> tcp_proxy \<Rightarrow> 'e \<Rightarrow> bool" where
  exact_at: "exact S B st e = exact_at S B st (accepted e) (unread e)"

lemmas exact_def = exact_at [unfolded exact_at_def]

text \<open>After a stop only this much is kept: what BLE accepted, and may still accept, is a prefix of the frames.\<close>

definition accounted :: "u8 list \<Rightarrow> u8 list list \<Rightarrow> tcp_proxy \<Rightarrow> 'e \<Rightarrow> bool" where
  "accounted S B st e \<longleftrightarrow> (\<exists>sent. accepted e = B @ sent \<and> prefix (sent @ held st) (fst (deframe S))) \<and>
     (rx_state st = READ_DATA \<longrightarrow> rx_have st < rx_len st) \<and> (\<not> stopped e \<longrightarrow> exact S B st e)"

lemma exact_at_accounted:
  assumes "exact_at S B st (accepted e) U" "\<not> stopped e \<Longrightarrow> unread e = U"
  shows "accounted S B st e"
proof -
  have "\<exists>sent. accepted e = B @ sent \<and> prefix (sent @ held st) (fst (deframe S))"
    using assms(1) unfolding exact_at_def using deframe_prefix by (metis fst_conv)
  moreover have "exact S B st e" if "\<not> stopped e" using assms that by (simp add: exact_at)
  ultimately show ?thesis using assms(1) by (auto simp: accounted_def exact_at_def split: if_splits)
qed

lemma exact_same:
  assumes "accepted e1 = accepted e" "unread e1 = unread e" "rx_state st1 = rx_state st" "rx_len st1 = rx_len st"
    "rx_have st1 = rx_have st" "rx_buf st1 = rx_buf st"
  shows "exact S B st1 e1 = exact S B st e" "held st1 = held st"
  using assms by (simp_all add: exact_def held_def)

lemma accounted_same:
  assumes "accounted S B st e" "accepted e1 = accepted e" "stopped e \<longrightarrow> stopped e1"
    "\<not> stopped e1 \<Longrightarrow> unread e1 = unread e" "rx_state st1 = rx_state st" "rx_len st1 = rx_len st"
    "rx_have st1 = rx_have st" "rx_buf st1 = rx_buf st"
  shows "accounted S B st1 e1"
proof -
  have "exact S B st1 e1" if "\<not> stopped e1"
    using assms that exact_same(1) [of e1 e st1 st S B] by (auto simp: accounted_def)
  moreover have "held st1 = held st" using assms(5-8) by (simp add: held_def)
  ultimately show ?thesis using assms by (simp add: accounted_def)
qed

lemma exact_wait_len: "exact S B st e \<Longrightarrow> rx_state st = WAIT_LEN \<Longrightarrow>
    \<exists>sent cons. accepted e = B @ sent \<and> S = cons @ unread e \<and> deframe cons = (sent, [])"
  by (auto simp: exact_def held_def)

lemma poll_wait_len_accounted:
  assumes "accounted S B st e" "poll_wait_len net st e = (fl, st1, e1)"
  shows "accounted S B st1 e1"
proof (cases "rx_state st = WAIT_LEN")
  case False
  with assms show ?thesis by (auto simp: poll_wait_len_def)
next
  case wait: True
  obtain a ea where av: "nc_available net e = (a, ea)" by fastforce
  note A = available [OF av]
  from assms(1) obtain sent where sent: "accepted e = B @ sent" "prefix sent (fst (deframe S))"
    using wait by (auto simp: accounted_def held_def)
  show ?thesis
  proof (cases "a < 2")
    case True
    then have "fl = Return" "st1 = st" "e1 = ea" using assms(2) wait av by (simp_all add: poll_wait_len_def)
    with A assms(1) accounted_same [of S B st e ea st] show ?thesis by auto
  next
    case False
    obtain r bs er where rd: "nc_read net 2 ea = ((r, bs), er)" by (metis prod.collapse)
    have two: "int 2 \<le> a" using False by simp
    note R = read [OF av _ two rd]
    let ?hdr = "bs @ replicate (2 - length bs) (uninit_byte net)"
    define len where "len = header_len ?hdr"
    have len: "unat len = frame_len (?hdr ! 0) (?hdr ! 1)" by (simp only: len_def header_len_def rx_len_unat)
    have good: "\<exists>h l cons. bs = [h, l] \<and> unat len = frame_len h l \<and> S = cons @ h # l # unread er \<and> deframe cons = (sent, [])"
      if "\<not> stopped er"
    proof -
      have "length bs = 2" "unread ea = bs @ unread er" "\<not> stopped ea" using R that by auto
      moreover from this obtain h l where "bs = [h, l]" by (auto simp: length_Suc_conv numeral_2_eq_2)
      moreover have "exact S B st e" using A assms(1) \<open>\<not> stopped ea\<close> by (auto simp: accounted_def)
      from exact_wait_len [OF this wait] sent(1) obtain cons where "S = cons @ unread e" "deframe cons = (sent, [])" by auto
      ultimately show ?thesis using A len by auto
    qed
    have acc: "accepted er = B @ sent" using R sent by simp
    have "2 \<le> a" using False by simp
    then consider (zero) "len = 0" "fl = Again" "st1 = st\<lparr>rx_len := len\<rparr>" "e1 = er"
      | (big) "len \<noteq> 0" "fl = Return" "st1 = st\<lparr>rx_len := len\<rparr>" "e1 = nc_stop net er"
      | (data) "len \<noteq> 0" "fl = Fall" "e1 = er"
          "st1 = st\<lparr>rx_len := len, rx_buf := replicate (unat len) 0, rx_have := 0, rx_state := READ_DATA\<rparr>"
      using assms(2) wait av rd False
      by (auto simp: poll_wait_len_def Let_def simp flip: len_def split: if_splits)
    then show ?thesis
    proof cases
      case zero
      have "exact S B st1 e1" if "\<not> stopped e1"
      proof -
        from good that zero obtain h l cons where "frame_len h l = 0" "S = (cons @ [h, l]) @ unread er"
          "deframe cons = (sent, [])" by auto
        moreover from this have "deframe (cons @ [h, l]) = (sent, [])"
          by (simp add: deframe_more deframe_cases(1))
        ultimately show ?thesis using zero wait acc by (auto simp: exact_def held_def)
      qed
      with zero wait acc sent show ?thesis by (auto simp: accounted_def held_def)
    next
      case big
      with wait acc sent stop show ?thesis by (auto simp: accounted_def held_def)
    next
      case data
      have len0: "0 < len" using data(1) by (simp add: word_gt_0)
      have "exact S B st1 e1" if "\<not> stopped e1"
        using good that data acc len0 by (fastforce simp: exact_def held_def)
      with data acc sent len0 show ?thesis by (auto simp: accounted_def held_def)
    qed
  qed
qed

lemma poll_read_data_accounted:
  assumes acc: "accounted S B st e" and run: "poll_read_data net clk st e = (fl, st1, e1)"
  shows "accounted S B st1 e1"
proof (cases "rx_state st = READ_DATA")
  case False
  with assms show ?thesis by (auto simp: poll_read_data_def)
next
  case data: True
  have lt: "rx_have st < rx_len st" using acc data by (simp add: accounted_def)
  obtain a ea where av: "nc_available net e = (a, ea)" by fastforce
  note A = available [OF av]
  define n where "n = nat (min a (uint (rx_len st) - uint (rx_have st)))"
  obtain r bs er where rd: "nc_read net n ea = ((r, bs), er)" by (metis prod.collapse)
  let ?st = "st\<lparr>rx_buf := take (unat (rx_have st)) (rx_buf st) @ bs @ drop (unat (rx_have st) + length bs) (rx_buf st),
      rx_have := rx_have st + of_int r\<rparr>"
  have res: "if a \<le> 0 then st1 = st \<and> e1 = ea else if r \<le> 0 then st1 = st \<and> e1 = er
    else if rx_have ?st < rx_len st then st1 = ?st \<and> e1 = er
    else (\<exists>now. millis clk er = (now, e1) \<and> st1 = ?st\<lparr>rx_state := WRITE_PENDING, write_pending_since_ms := now\<rparr>)"
    using run data lt av rd
    by (auto simp: poll_read_data_def Let_def n_def min_def simp del: replicate.simps split: if_splits prod.splits)
  show ?thesis
  proof (cases "a \<le> 0")
    case True
    with res A acc accounted_same [of S B st e ea st] show ?thesis by auto
  next
    case a: False
    have "uint (rx_have st) < uint (rx_len st)" using lt by (simp add: word_less_def)
    then have n: "0 < n" "int n \<le> a" "int n \<le> uint (rx_len st) - uint (rx_have st)" using a by (auto simp: n_def)
    note R = read [OF av n(1,2) rd]
    show ?thesis
    proof (cases "r \<le> 0")
      case True
      then have "stopped er" using R n(1) by auto
      with True a res R acc data show ?thesis by (auto simp: accounted_def held_def)
    next
      case False
      then obtain U where r: "r = int (length bs)" "length bs \<le> n" "unread ea = bs @ U" "\<not> stopped ea" "0 < length bs"
        "\<not> stopped er \<longrightarrow> unread er = U" using R by auto
      have "exact S B st e" using acc A r(4) by (auto simp: accounted_def)
      then obtain sent cons h l where x: "accepted e = B @ sent" "deframe cons = (sent, [])"
        "S = cons @ h # l # take (unat (rx_have st)) (rx_buf st) @ unread e"
        "frame_len h l = unat (rx_len st)" "length (rx_buf st) = unat (rx_len st)"
        using data by (auto simp: exact_def held_def)
      have un: "unread e = bs @ U" using A r by auto
      have fit: "unat (rx_have st) + length bs \<le> unat (rx_len st)"
      proof -
        have "int (length bs) \<le> int (unat (rx_len st)) - int (unat (rx_have st))" using n(3) r(2) by simp
        then show ?thesis by linarith
      qed
      have have': "unat (rx_have ?st) = unat (rx_have st) + length bs"
      proof -
        have "unat (rx_have st) + length bs < 65536" by (rule le_less_trans [OF fit unat_u16_lt])
        then show ?thesis using r(1) by (simp add: unat_word_ariths unat_of_nat)
      qed
      have buf: "length (rx_buf ?st) = unat (rx_len st)"
        "take (unat (rx_have ?st)) (rx_buf ?st) = take (unat (rx_have st)) (rx_buf st) @ bs"
      proof -
        have "unat (rx_have st) < unat (rx_len st)" using fit r(5) by linarith
        then show "length (rx_buf ?st) = unat (rx_len st)"
          "take (unat (rx_have ?st)) (rx_buf ?st) = take (unat (rx_have st)) (rx_buf st) @ bs"
          using fit x(5) unfolding have' by simp_all
      qed
      show ?thesis
      proof (cases "rx_have ?st < rx_len st")
        case True
        then have st1: "st1 = ?st" "e1 = er" using res a False by auto
        then have "exact_at S B st1 (accepted e1) U"
          using x un buf True data R unfolding exact_at_def held_def
          by (intro exI [of _ sent] exI [of _ cons] exI [of _ "h # l # take (unat (rx_have ?st)) (rx_buf ?st)"])
            (simp del: append_assoc)
        then show ?thesis using r(6) st1(2) by (auto intro: exact_at_accounted)
      next
        case full: False
        then obtain now where now: "millis clk er = (now, e1)"
          "st1 = ?st\<lparr>rx_state := WRITE_PENDING, write_pending_since_ms := now\<rparr>" using res a False by auto
        have "unat (rx_len st) \<le> unat (rx_have ?st)" using full by (simp add: word_less_nat_alt not_less)
        then have all: "take (unat (rx_len st)) (rx_buf ?st) = take (unat (rx_have st)) (rx_buf st) @ bs"
          using buf fit have' by simp
        have "frame_len h l \<noteq> 0" using x(4) lt by (simp add: word_less_nat_alt)
        then have "deframe (h # l # take (unat (rx_len st)) (rx_buf ?st)) = ([take (unat (rx_len st)) (rx_buf ?st)], [])"
          using x(4) buf(1) by (intro deframe_frame) simp_all
        then have df: "deframe (cons @ h # l # take (unat (rx_len st)) (rx_buf ?st)) =
            (sent @ [take (unat (rx_len st)) (rx_buf ?st)], [])"
          using x(2) by (simp add: deframe_more)
        have "exact_at S B st1 (accepted e1) U"
          unfolding exact_at_def
        proof (intro exI conjI)
          show "deframe (cons @ h # l # take (unat (rx_len st)) (rx_buf ?st)) = (sent @ held st1, [])"
            using df by (simp add: now(2) held_def)
          show "S = (cons @ h # l # take (unat (rx_len st)) (rx_buf ?st)) @ [] @ U"
            using x(3) un clock(1) [OF now(1)] unfolding all by simp
          show "accepted e1 = B @ sent" using R clock(1) [OF now(1)] x(1) by simp
        qed (simp add: now(2))
        then show ?thesis using r(6) clock(1) [OF now(1)] by (auto intro: exact_at_accounted)
      qed
    qed
  qed
qed

lemma write_burst_accounted:
  assumes "exact S B st e \<or> stopped e" "accounted S B st e" "rx_state st = WRITE_PENDING"
    and "write_burst ble clk n st e = (ok, st1, e1)"
  shows "if ok then accounted S B (st1\<lparr>rx_state := WAIT_LEN, rx_len := l, rx_have := h, last_rx_ms := t\<rparr>) e1
    else accounted S B st1 e1"
  using assms
proof (induction n arbitrary: e)
  case 0
  then obtain now ea where m: "millis clk e = (now, ea)" "e1 = ea" "ok = False"
    "rx_state st1 = rx_state st \<and> rx_len st1 = rx_len st \<and> rx_have st1 = rx_have st \<and> rx_buf st1 = rx_buf st"
    by (auto simp: Let_def split: prod.splits)
  with 0(2) clock(1) [OF m(1)] accounted_same [of S B st e ea st1] show ?case by auto
next
  case (Suc n)
  let ?f = "take (unat (rx_len st)) (rx_buf st)"
  obtain w ea where w: "ble_write ble ?f e = (w, ea)" by fastforce
  note W = ble_write [OF w]
  show ?case
  proof (cases w)
    case True
    then have res: "ok" "st1 = st\<lparr>write_stalled := False\<rparr>" "e1 = ea" using Suc.prems(4) w by simp_all
    let ?st = "st1\<lparr>rx_state := WAIT_LEN, rx_len := l, rx_have := h, last_rx_ms := t\<rparr>"
    obtain sent where s: "accepted e = B @ sent" "prefix (sent @ [?f]) (fst (deframe S))"
      using Suc.prems(2,3) by (auto simp: accounted_def held_def)
    have "exact S B ?st e1" if "\<not> stopped e1"
    proof -
      have "exact S B st e" using Suc.prems(1) that W res by auto
      then obtain sent cons where "accepted e = B @ sent" "S = cons @ unread e" "deframe cons = (sent @ [?f], [])"
        using Suc.prems(3) by (auto simp: exact_def held_def)
      with W True res show ?thesis by (auto simp: exact_def held_def)
    qed
    with s W True res show ?thesis by (auto simp: accounted_def held_def)
  next
    case False
    let ?e = "delay clk BLE_WRITE_RETRY_DELAY_MS ea"
    have acc: "accounted S B st ?e"
      using accounted_same [OF Suc.prems(2), of ?e st] W False clock by auto
    have ex: "exact S B st ?e \<or> stopped ?e"
      using Suc.prems(1) exact_same(1) [of ?e e st st S B] W False clock by auto
    show ?thesis using Suc.IH [OF ex acc Suc.prems(3)] Suc.prems(4) w False by simp
  qed
qed

lemma poll_write_pending_accounted:
  assumes "accounted S B st e" "poll_write_pending net ble clk st e = (fl, st1, e1)"
  shows "accounted S B st1 e1"
proof (cases "rx_state st = WRITE_PENDING \<and> is_connected ble e")
  case False
  then consider "rx_state st \<noteq> WRITE_PENDING" | "rx_state st = WRITE_PENDING" "\<not> is_connected ble e" by blast
  then show ?thesis
  proof cases
    case 2
    then have "st1 = st" "e1 = nc_stop net e"
      using assms(2) by (simp_all add: poll_write_pending_def try_write_pending_def)
    with assms(1) stop show ?thesis by (auto simp: accounted_def)
  qed (use assms in \<open>simp add: poll_write_pending_def\<close>)
next
  case True
  obtain ok sta ea where b: "write_burst ble clk BLE_WRITE_RETRY_BURST st e = (ok, sta, ea)" by (metis prod_cases3)
  have ex: "exact S B st e \<or> stopped e" using assms(1) by (auto simp: accounted_def)
  obtain now eb where m: "millis clk ea = (now, eb)" by fastforce
  note W = write_burst_accounted [OF ex assms(1) conjunct1 [OF True] b, where l = 0 and h = 0 and t = now]
  show ?thesis
  proof (cases ok)
    case False
    with W b True assms(2) show ?thesis by (simp add: poll_write_pending_def try_write_pending_def)
  next
    case ok: True
    let ?st = "sta\<lparr>rx_state := WAIT_LEN, rx_len := 0, rx_have := 0, last_rx_ms := now\<rparr>"
    from ok W have "accounted S B ?st ea" by simp
    moreover have "st1 = ?st" "e1 = eb"
      using ok b m True assms(2) by (auto simp: poll_write_pending_def try_write_pending_def)
    ultimately show ?thesis using clock(1) [OF m] accounted_same [of S B ?st ea eb ?st] by auto
  qed
qed

lemma poll_turn_accounted:
  assumes "accounted S B st e" "poll_turn net ble clk st e = (fl, st1, e1)"
  shows "accounted S B st1 e1"
proof -
  obtain f2 s2 e2 where w: "poll_wait_len net st e = (f2, s2, e2)" by (metis prod_cases3)
  obtain f3 s3 e3 where r: "poll_read_data net clk s2 e2 = (f3, s3, e3)" by (metis prod_cases3)
  have a2: "accounted S B s2 e2" by (rule poll_wait_len_accounted [OF assms(1) w])
  have a3: "accounted S B s3 e3" by (rule poll_read_data_accounted [OF a2 r])
  show ?thesis
    using assms(2) w r a2 a3 poll_write_pending_accounted [OF a3]
    by (cases f2; cases f3) (auto simp: poll_turn_def)
qed

text \<open>Each turn that goes on has read something, or has passed on the held frame.\<close>

definition todo :: "'e \<Rightarrow> nat" where
  "todo e = (if stopped e then 0 else length (unread e) + 1)"

lemma read_shorter:
  assumes av: "nc_available net e = (a, e1)" and n: "0 < n" "int n \<le> a" and rd: "nc_read net n e1 = ((r, bs), e2)"
    and "\<not> stopped e2"
  shows "length (unread e) = length (unread e2) + n"
proof -
  have "unread e = bs @ unread e2 \<and> length bs = n"
    using available [OF av] read [OF av n rd] assms(5) n(1) by auto
  then have "length (unread e) = length (bs @ unread e2)" "length bs = n" by simp_all
  then show ?thesis by simp
qed

lemma poll_wait_len_todo:
  assumes "poll_wait_len net st e = (fl, st1, e1)" "fl \<noteq> Return"
  shows "if rx_state st = WAIT_LEN then todo e1 < todo e \<and> (fl = Again \<longrightarrow> rx_state st1 = WAIT_LEN)
    else e1 = e \<and> fl = Fall \<and> st1 = st"
proof (cases "rx_state st = WAIT_LEN")
  case True
  obtain a ea where av: "nc_available net e = (a, ea)" by fastforce
  obtain r bs er where rd: "nc_read net 2 ea = ((r, bs), er)" by (metis prod.collapse)
  have a: "\<not> a < 2" using assms True av by (auto simp: poll_wait_len_def)
  then have two: "int 2 \<le> a" by simp
  have e1: "e1 = er" and again: "fl = Again \<longrightarrow> rx_state st1 = WAIT_LEN"
    using assms True av rd a by (auto simp: poll_wait_len_def Let_def split: if_splits)
  note A = available [OF av] and R = read [OF av _ two rd]
  have "\<not> stopped e" using A a by auto
  moreover have "length (unread er) < length (unread e)" if "\<not> stopped er"
    using read_shorter [OF av _ two rd that] by simp
  ultimately show ?thesis using True e1 again by (simp add: todo_def)
qed (use assms in \<open>simp add: poll_wait_len_def\<close>)

lemma poll_read_data_todo:
  assumes "poll_read_data net clk st e = (fl, st1, e1)"
  shows "todo e1 \<le> todo e"
proof (cases "rx_state st = READ_DATA \<and> rx_have st < rx_len st")
  case False
  then show ?thesis
    using assms clock(1) by (auto simp: poll_read_data_def todo_def Let_def split: if_splits prod.splits)
next
  case True
  obtain a ea where av: "nc_available net e = (a, ea)" by fastforce
  define n where "n = nat (min a (uint (rx_len st) - uint (rx_have st)))"
  obtain r bs er where rd: "nc_read net n ea = ((r, bs), er)" by (metis prod.collapse)
  note A = available [OF av]
  show ?thesis
  proof (cases "a \<le> 0")
    case True
    with assms \<open>rx_state st = READ_DATA \<and> rx_have st < rx_len st\<close> av A show ?thesis
      by (auto simp: poll_read_data_def todo_def)
  next
    case False
    have "uint (rx_have st) < uint (rx_len st)" using True by (simp add: word_less_def)
    then have n: "0 < n" "int n \<le> a" using False by (auto simp: n_def)
    note R = read [OF av n rd]
    have er: "todo er \<le> todo e" using A R read_shorter [OF av n rd] by (auto simp: todo_def)
    have "e1 = er \<or> (\<exists>now. millis clk er = (now, e1))"
      using assms True av rd False
      by (auto simp: poll_read_data_def Let_def n_def min_def split: if_splits prod.splits)
    with er clock(1) show ?thesis by (auto simp: todo_def)
  qed
qed

lemma write_burst_state:
  "write_burst ble clk n st e = (ok, st1, e1) \<Longrightarrow> rx_state st1 = rx_state st"
  by (induction n arbitrary: e) (auto simp: Let_def split: prod.splits bool.splits)

lemma write_burst_todo: "write_burst ble clk n st e = (ok, st1, e1) \<Longrightarrow> todo e1 = todo e"
proof (induction n arbitrary: e)
  case 0
  then show ?case using clock(1) by (auto simp: todo_def Let_def split: prod.splits)
next
  case (Suc n)
  obtain w ea where w: "ble_write ble (take (unat (rx_len st)) (rx_buf st)) e = (w, ea)" by fastforce
  have "todo ea = todo e" using ble_write [OF w] by (simp add: todo_def)
  moreover have "todo (delay clk BLE_WRITE_RETRY_DELAY_MS ea) = todo ea" using clock(2-4) by (simp add: todo_def)
  ultimately show ?case
    using Suc.prems Suc.IH [of "delay clk BLE_WRITE_RETRY_DELAY_MS ea"] w by (cases w) auto
qed

lemma poll_write_pending_todo:
  assumes "poll_write_pending net ble clk st e = (fl, st1, e1)" "fl \<noteq> Return"
  shows "todo e1 = todo e \<and> fl = Again \<and> (rx_state st = WRITE_PENDING \<longrightarrow> rx_state st1 = WAIT_LEN) \<and>
    (rx_state st \<noteq> WRITE_PENDING \<longrightarrow> st1 = st)"
  using assms write_burst_todo [of BLE_WRITE_RETRY_BURST st e] clock(1)
  by (fastforce simp: poll_write_pending_def try_write_pending_def todo_def split: if_splits prod.splits bool.splits)

lemma poll_read_data_falls:
  "poll_read_data net clk st e = (fl, st1, e1) \<Longrightarrow> fl \<noteq> Return \<Longrightarrow>
     fl = Fall \<and> (rx_state st = READ_DATA \<longrightarrow> rx_state st1 = WRITE_PENDING) \<and> (rx_state st \<noteq> READ_DATA \<longrightarrow> st1 = st)"
  by (auto simp: poll_read_data_def Let_def split: if_splits prod.splits)

lemma poll_turn_todo:
  assumes "poll_turn net ble clk st e = (fl, st1, e1)" "fl \<noteq> Return"
  shows "rx_state st1 = WAIT_LEN \<and> (if rx_state st = WAIT_LEN then todo e1 < todo e else todo e1 \<le> todo e)"
proof -
  obtain f2 s2 e2 where w: "poll_wait_len net st e = (f2, s2, e2)" by (metis prod_cases3)
  obtain f3 s3 e3 where r: "poll_read_data net clk s2 e2 = (f3, s3, e3)" by (metis prod_cases3)
  have f2: "f2 \<noteq> Return" using assms w by (auto simp: poll_turn_def)
  note W = poll_wait_len_todo [OF w f2]
  show ?thesis
  proof (cases "f2 = Again")
    case True
    with assms w W show ?thesis by (auto simp: poll_turn_def split: if_splits)
  next
    case False
    with f2 have f2: "f2 = Fall" by (cases f2) auto
    with assms w r have f3: "f3 \<noteq> Return" by (auto simp: poll_turn_def)
    have p: "poll_write_pending net ble clk s3 e3 = (fl, st1, e1)"
      using assms(1) w r f2 poll_read_data_falls [OF r f3] by (simp add: poll_turn_def)
    have data: "rx_state s2 \<noteq> WAIT_LEN"
    proof (cases "rx_state st = WAIT_LEN")
      case True
      with w f2 show ?thesis by (auto simp: poll_wait_len_def Let_def split: if_splits prod.splits)
    qed (use W in simp)
    then have "rx_state s3 = WRITE_PENDING"
      using poll_read_data_falls [OF r f3] by (cases "rx_state s2") auto
    with poll_write_pending_todo [OF p assms(2)] poll_read_data_todo [OF r] W show ?thesis
      by (auto split: if_splits)
  qed
qed

text \<open>The loop ends, and keeps the accounts; the state it ends in comes from a last turn.\<close>

lemma poll_socket_ends:
  assumes "accounted S B st e"
  obtains st1 e1 st2 e2 where "poll_socket net ble clk st e = Some (st2, e2)" "accounted S B st1 e1"
    "poll_turn net ble clk st1 e1 = (Return, st2, e2)" "accounted S B st2 e2"
proof -
  have "\<exists>st1 e1 st2 e2. poll_socket net ble clk st e = Some (st2, e2) \<and> accounted S B st1 e1 \<and>
    poll_turn net ble clk st1 e1 = (Return, st2, e2) \<and> accounted S B st2 e2"
    using assms
  proof (induction "2 * todo e + (if rx_state st = WAIT_LEN then 0 else 1)" arbitrary: st e rule: less_induct)
    case less
    obtain fl s1 e1 where t: "poll_turn net ble clk st e = (fl, s1, e1)" by (metis prod_cases3)
    have a1: "accounted S B s1 e1" by (rule poll_turn_accounted [OF less.prems t])
    show ?case
    proof (cases "fl = Return")
      case True
      then have "poll_socket net ble clk st e = Some (s1, e1)" by (subst poll_socket.simps) (simp add: t)
      with True t a1 less.prems show ?thesis by blast
    next
      case False
      then have same: "poll_socket net ble clk st e = poll_socket net ble clk s1 e1"
        by (subst poll_socket.simps) (simp add: t)
      have "2 * todo e1 + (if rx_state s1 = WAIT_LEN then 0 else 1) < 2 * todo e + (if rx_state st = WAIT_LEN then 0 else 1)"
        using poll_turn_todo [OF t False] by (auto split: if_splits)
      from less.hyps [OF this a1] show ?thesis unfolding same .
    qed
  qed
  then show thesis using that by blast
qed

lemma connected_start:
  assumes "on_client_connected net ble clk st e = (st1, e1)"
  shows "accounted (unread e) (accepted e) st1 e1"
proof -
  obtain now ea where m: "millis clk e = (now, ea)" by fastforce
  obtain up eb where c: "connect_mower ble ea = (up, eb)" by fastforce
  note M = clock(1) [OF m] and C = ble_connect [OF c]
  let ?st = "st\<lparr>rx_state := WAIT_LEN, rx_len := 0, rx_have := 0, rx_buf := [], write_stalled := False,
    last_rx_ms := now, ble_open := up\<rparr>"
  have st1: "st1 = ?st" and e1: "e1 = (if up then eb else nc_stop net (disconnect_mower ble eb))"
    using assms m c by (auto simp: on_client_connected_def Let_def split: if_splits)
  have "accepted e1 = accepted e" using M C stop(1) ble_disconnect by (simp add: e1)
  moreover have "exact (unread e) (accepted e) st1 e1" if "\<not> stopped e1"
  proof -
    have "up" using that stop(2) by (auto simp: e1 split: if_splits)
    with M C show ?thesis by (simp add: exact_def st1 e1 held_def)
  qed
  ultimately show ?thesis by (simp add: accounted_def st1 held_def)
qed

lemma send_frame_keeps:
  "accepted (send_frame net f e) = accepted e" "stopped e \<Longrightarrow> stopped (send_frame net f e)"
  "\<not> stopped (send_frame net f e) \<Longrightarrow> unread (send_frame net f e) = unread e"
proof -
  obtain b e1 where c: "nc_connected net e = (b, e1)" by fastforce
  note K = connected [OF c]
  show "accepted (send_frame net f e) = accepted e" "stopped e \<Longrightarrow> stopped (send_frame net f e)"
    using c K net_write(1,2) by (auto simp: send_frame_def)
  show "unread (send_frame net f e) = unread e" if "\<not> stopped (send_frame net f e)"
  proof (cases b)
    case True
    let ?h = "[of_nat (length f div 256 mod 256), of_nat (length f mod 256)]"
    have s: "send_frame net f e = nc_write net f (nc_write net ?h e1)" using True c by (simp add: send_frame_def)
    have "\<not> stopped (nc_write net ?h e1)" using that net_write(2) unfolding s by blast
    then show ?thesis using K that net_write(3) unfolding s by metis
  qed (use c K in \<open>simp add: send_frame_def\<close>)
qed

lemma send_frames_keep:
  "accepted (fold (send_frame net) q e) = accepted e" "stopped e \<Longrightarrow> stopped (fold (send_frame net) q e)"
  "\<not> stopped (fold (send_frame net) q e) \<Longrightarrow> unread (fold (send_frame net) q e) = unread e"
proof (induction q arbitrary: e)
  case (Cons f q)
  {
    case 1
    then show ?case using Cons(1) send_frame_keeps(1) by simp
  next
    case 2
    then show ?case using Cons(2) send_frame_keeps(2) by simp
  next
    case 3
    then have "\<not> stopped (send_frame net f e)" using Cons(2) by auto
    then show ?case using 3 Cons(3) send_frame_keeps(3) by simp
  }
qed simp_all

lemma proxy_loop_ends:
  assumes acc: "accounted S B st e" and up: "fst (nc_connected net e)"
  obtains st1 e1 where "proxy_loop net ble clk st e = Some (st1, e1)" "accounted S B st1 e1"
proof -
  obtain ea where c: "nc_connected net e = (True, ea)" using up by (metis prod.collapse)
  note K = connected [OF c]
  obtain now eb where m: "millis clk ea = (now, eb)" by fastforce
  note M = clock(1) [OF m]
  have acc2: "accounted S B st eb" using accounted_same [OF acc, of eb st] K M by auto
  show thesis
  proof (cases "CLIENT_IDLE_TIMEOUT_MS < now - last_rx_ms st")
    case True
    show thesis
    proof (rule that)
      show "proxy_loop net ble clk st e = Some (st, nc_stop net eb)" using c m True by (simp add: proxy_loop_def)
      show "accounted S B st (nc_stop net eb)" using acc2 stop by (auto simp: accounted_def)
    qed
  next
    case False
    obtain st2 e2 where p: "poll_socket net ble clk st eb = Some (st2, e2)" and a: "accounted S B st2 e2"
      using poll_socket_ends [OF acc2] by blast
    obtain st3 e3 where d: "drain_notify_queue net ble st2 e2 = (st3, e3)" by fastforce
    show thesis
    proof (rule that)
      show "proxy_loop net ble clk st e = Some (st3, e3)"
        using c m False p d by (simp add: proxy_loop_def)
      show "accounted S B st3 e3"
        using a d accounted_same [OF a, of "fold (send_frame net) (drained (notified ble e2) (notify_queue st2)) e2" st3] send_frames_keep
        by (auto simp: drain_notify_queue_def drain_queue_fold split: if_splits)
    qed
  qed
qed

lemma accounted_notify: "accounted S B (notify_callback data st) e = accounted S B st e"
  by (simp add: notify_callback_def accounted_def exact_at exact_at_def held_def)

lemma reach_accounted:
  assumes "proxy_reach net ble clk st0 e0 st e"
  shows "accounted (unread e0) (accepted e0) st e"
  using assms
proof induction
  case (reach_start st1 e1)
  then show ?case by (rule connected_start)
next
  case (reach_loop st e st1 e1)
  obtain st2 e2 where "proxy_loop net ble clk st e = Some (st2, e2)" "accounted (unread e0) (accepted e0) st2 e2"
    by (rule proxy_loop_ends [OF reach_loop.IH reach_loop.hyps(2)])
  with reach_loop.hyps(3) show ?case by simp
next
  case (reach_notify st e data)
  then show ?case by (simp add: accounted_notify)
qed

text \<open>Nothing is lost, duplicated or reordered, and every round of the loop returns.\<close>

lemma lossless:
  assumes "proxy_reach net ble clk st0 e0 st e"
  shows "(\<exists>sent. accepted e = accepted e0 @ sent \<and> prefix sent (fst (deframe (unread e0)))) \<and>
    (fst (nc_connected net e) \<longrightarrow> (\<exists>r. proxy_loop net ble clk st e = Some r))"
proof -
  have acc: "accounted (unread e0) (accepted e0) st e" by (rule reach_accounted [OF assms])
  then obtain sent where "accepted e = accepted e0 @ sent" "prefix (sent @ held st) (fst (deframe (unread e0)))"
    by (auto simp: accounted_def)
  moreover from this(2) have "prefix sent (fst (deframe (unread e0)))" by (rule append_prefixD)
  moreover have "\<exists>r. proxy_loop net ble clk st e = Some r" if "fst (nc_connected net e)"
    using proxy_loop_ends [OF acc that] by metis
  ultimately show ?thesis by blast
qed

text \<open>
  When all that the client sent has arrived and BLE accepts it, one call of the poll loop passes on
  every complete frame.
\<close>

lemma deframe_short: "length xs < 2 \<Longrightarrow> deframe xs = ([], xs)"
  by (cases xs rule: deframe.cases) simp_all

lemma delivers:
  assumes reach: "proxy_reach net ble clk st0 e0 st e"
    and arrived: "\<And>e a e1. nc_available net e = (a, e1) \<Longrightarrow> \<not> stopped e1 \<Longrightarrow> a = int (length (unread e1))"
    and poll: "poll_socket net ble clk st e = Some (st1, e1)"
    and ok: "\<not> stopped e1" "rx_state st1 \<noteq> WRITE_PENDING"
  shows "accepted e1 = accepted e0 @ fst (deframe (unread e0))"
proof -
  let ?S = "unread e0" and ?B = "accepted e0"
  obtain sa ea where acc: "accounted ?S ?B sa ea" and turn: "poll_turn net ble clk sa ea = (Return, st1, e1)"
    and acc1: "accounted ?S ?B st1 e1"
    using poll_socket_ends [OF reach_accounted [OF reach]] poll by (metis option.inject prod.inject)
  have ex: "exact ?S ?B st1 e1" using acc1 ok(1) by (simp add: accounted_def)
  obtain f2 s2 e2 where w: "poll_wait_len net sa ea = (f2, s2, e2)" by (metis prod_cases3)
  obtain f3 s3 e3 where r: "poll_read_data net clk s2 e2 = (f3, s3, e3)" by (metis prod_cases3)
  have acc2: "accounted ?S ?B s2 e2" by (rule poll_wait_len_accounted [OF acc w])
  consider (len) "f2 = Return" "st1 = s2" "e1 = e2" | (data) "f2 = Fall" "f3 = Return" "st1 = s3" "e1 = e3"
    | (pend) "f2 = Fall" "f3 = Fall" "poll_write_pending net ble clk s3 e3 = (Return, st1, e1)"
    using turn w r poll_read_data_falls [OF r] by (cases f2; cases f3) (auto simp: poll_turn_def)
  then show ?thesis
  proof cases
    case len
    then have "rx_state sa = WAIT_LEN" "st1 = sa" and "\<exists>a. nc_available net ea = (a, e1) \<and> a < 2"
      using w ok(1) stop(2) by (auto simp: poll_wait_len_def Let_def split: if_splits prod.splits)
    moreover from this arrived ok(1) have "length (unread e1) < 2" by fastforce
    ultimately show ?thesis
      using exact_wait_len [OF ex] deframe_short [of "unread e1"] by (auto simp: deframe_more)
  next
    case data
    have rd: "rx_state s2 = READ_DATA" using r data by (auto simp: poll_read_data_def split: if_splits)
    then have lt: "rx_have s2 < rx_len s2" using acc2 by (simp add: accounted_def)
    obtain a eb where av: "nc_available net e2 = (a, eb)" by fastforce
    define n where "n = nat (min a (uint (rx_len s2) - uint (rx_have s2)))"
    obtain rr bs er where rr: "nc_read net n eb = ((rr, bs), er)" by (metis prod.collapse)
    have cs: "rx_state st1 = READ_DATA \<and> (if a \<le> 0 then e1 = eb else e1 = er \<and> (0 < rr \<longrightarrow> rx_have s2 + of_int rr < rx_len s2))"
      using r data rd lt av rr
      by (auto simp: poll_read_data_def Let_def n_def min_def split: if_splits prod.splits)
    have "unread e1 = []"
    proof (cases "a \<le> 0")
      case True
      with cs arrived [OF av] ok(1) show ?thesis by auto
    next
      case False
      have "uint (rx_have s2) < uint (rx_len s2)" using lt by (simp add: word_less_def)
      then have n: "0 < n" "int n \<le> a" using False by (auto simp: n_def)
      note R = read [OF av n rr] and A = available [OF av]
      have ns: "\<not> stopped er" "\<not> stopped eb" using cs False ok(1) R by auto
      have rn: "rr = int n" using R ns by auto
      have "int n \<noteq> uint (rx_len s2) - uint (rx_have s2)"
      proof
        assume "int n = uint (rx_len s2) - uint (rx_have s2)"
        then have "rx_have s2 + of_int rr = rx_len s2" by (simp add: rn)
        then show False using cs False rn n(1) by simp
      qed
      then have "int n = a" using n \<open>uint (rx_have s2) < uint (rx_len s2)\<close> by (auto simp: n_def min_def split: if_splits)
      moreover have "length (unread e2) = length (unread er) + n" by (rule read_shorter [OF av n rr ns(1)])
      moreover have "a = int (length (unread e2))" using arrived [OF av ns(2)] A ns(2) by simp
      ultimately show ?thesis using cs False by simp
    qed
    then obtain sent cons h l where "accepted e1 = ?B @ sent" "deframe cons = (sent, [])"
      "?S = cons @ h # l # take (unat (rx_have st1)) (rx_buf st1)" "frame_len h l = unat (rx_len st1)" "rx_have st1 < rx_len st1"
      using ex cs by (auto simp: exact_def held_def)
    moreover from this have "deframe (h # l # take (unat (rx_have st1)) (rx_buf st1)) =
        ([], h # l # take (unat (rx_have st1)) (rx_buf st1))"
      by (intro deframe_cases(2)) (auto simp: word_less_nat_alt)
    ultimately show ?thesis by (simp add: deframe_more)
  next
    case pend
    have "rx_state s3 = WRITE_PENDING"
      using pend(3) by (auto simp: poll_write_pending_def split: if_splits)
    then have "rx_state st1 = WRITE_PENDING \<or> stopped e1"
      using pend(3) write_burst_state [where st = s3 and e = e3] stop(2)
      by (auto simp: poll_write_pending_def try_write_pending_def split: if_splits prod.splits bool.splits)
    with ok show ?thesis by simp
  qed
qed

end

end
