(* ===== verification/Halow_Client.thy ===== *)
theory Halow_Client
  imports MM_Prelude
begin

text \<open>
  The TCP client of HalowClient.cpp: the receive buffer in front of the socket, reading, writing with
  retries, the connection test, stopping and connecting. The lwIP socket calls are parameters.
\<close>

section \<open>Sockets\<close>

text \<open>
  \<open>errno\<close> as the code tells its values apart: \<open>E_again\<close> is EWOULDBLOCK or EAGAIN, \<open>E_gone\<close> one of
  ENOTCONN, EPIPE, ECONNRESET, ECONNREFUSED, ECONNABORTED.
\<close>

datatype errno = E_again | E_noent | E_gone | E_inprogress | E_other

datatype recv_result = Received "u8 list" | Recv_failed errno
datatype send_result = Sent nat | Send_failed errno

text \<open>
  \<open>so_fionread\<close> is \<open>None\<close> when the ioctl fails; \<open>so_recv n\<close> is a non-blocking \<open>recv\<close> of up to \<open>n\<close>
  bytes; \<open>so_probe\<close> is the \<open>recv\<close> of length 0 with its result and \<open>errno\<close>; \<open>so_select_write\<close> is the
  result of \<open>select\<close> and whether the descriptor is set; \<open>so_malloc_ok\<close> whether the buffer can be allocated.
\<close>

record 's sock_api =
  so_fionread :: "'s \<Rightarrow> nat option \<times> 's"
  so_recv :: "nat \<Rightarrow> 's \<Rightarrow> recv_result \<times> 's"
  so_probe :: "'s \<Rightarrow> (int \<times> errno) \<times> 's"
  so_select_write :: "'s \<Rightarrow> (int \<times> bool) \<times> 's"
  so_send :: "u8 list \<Rightarrow> 's \<Rightarrow> send_result \<times> 's"
  so_set_timeout :: "int \<Rightarrow> 's \<Rightarrow> bool \<times> 's"
  so_close :: "'s \<Rightarrow> 's"
  so_malloc_ok :: "'s \<Rightarrow> bool \<times> 's"

section \<open>The receive buffer\<close>

record rx_buffer =
  rb_size :: nat
  rb_buffer :: "u8 list option"
  rb_pos :: nat
  rb_fill :: nat
  rb_failed :: bool

definition HalowClientRxBuffer :: rx_buffer where
  "HalowClientRxBuffer = \<lparr>rb_size = 1436, rb_buffer = None, rb_pos = 0, rb_fill = 0, rb_failed = False\<rparr>"

definition r_available :: "'s sock_api \<Rightarrow> rx_buffer \<Rightarrow> 's \<Rightarrow> nat \<times> rx_buffer \<times> 's" where
  "r_available so b s =
     (case so_fionread so s of
        (None, s1) \<Rightarrow> (0, b\<lparr>rb_failed := True\<rparr>, s1)
      | (Some count, s1) \<Rightarrow> (count, b, s1))"

text \<open>A buffer that was read to its end starts again at its beginning.\<close>

definition rb_rewind :: "rx_buffer \<Rightarrow> rx_buffer" where
  "rb_rewind b = (if rb_fill b \<noteq> 0 \<and> rb_pos b = rb_fill b then b\<lparr>rb_fill := 0, rb_pos := 0\<rparr> else b)"

text \<open>The part of \<open>fillBuffer\<close> after the buffer was allocated.\<close>

definition fill_recv :: "'s sock_api \<Rightarrow> u8 list \<Rightarrow> rx_buffer \<Rightarrow> 's \<Rightarrow> nat \<times> rx_buffer \<times> 's" where
  "fill_recv so mem b s =
     (let b1 = rb_rewind b
      in if rb_size b1 \<le> rb_fill b1 then (0, b1, s)
         else (case r_available so b1 s of (count, b2, s1) \<Rightarrow>
           if count = 0 then (0, b2, s1)
           else (case so_recv so (rb_size b2 - rb_fill b2) s1 of
                   (Recv_failed err, s2) \<Rightarrow> (0, if err \<noteq> E_again then b2\<lparr>rb_failed := True\<rparr> else b2, s2)
                 | (Received bs, s2) \<Rightarrow>
                     (length bs,
                      b2\<lparr>rb_buffer := Some (take (rb_fill b2) mem @ bs @ drop (rb_fill b2 + length bs) mem),
                         rb_fill := rb_fill b2 + length bs\<rparr>, s2))))"

text \<open>\<open>malloc\<close> leaves the new block's contents open; they are zero here and never read.\<close>

definition fillBuffer :: "'s sock_api \<Rightarrow> rx_buffer \<Rightarrow> 's \<Rightarrow> nat \<times> rx_buffer \<times> 's" where
  "fillBuffer so b s =
     (case rb_buffer b of
        Some mem \<Rightarrow> fill_recv so mem b s
      | None \<Rightarrow>
          (case so_malloc_ok so s of
             (False, s1) \<Rightarrow> (0, b\<lparr>rb_failed := True\<rparr>, s1)
           | (True, s1) \<Rightarrow>
               fill_recv so (replicate (rb_size b) 0) (b\<lparr>rb_buffer := Some (replicate (rb_size b) 0)\<rparr>) s1))"

text \<open>\<open>n\<close> bytes from the read position, which then moves on.\<close>

definition rb_take :: "nat \<Rightarrow> rx_buffer \<Rightarrow> u8 list \<times> rx_buffer" where
  "rb_take n b =
     (take n (drop (rb_pos b) (case rb_buffer b of None \<Rightarrow> [] | Some mem \<Rightarrow> mem)), b\<lparr>rb_pos := rb_pos b + n\<rparr>)"

text \<open>The loop of the slow path: bytes copied so far, what is left to copy; \<open>None\<close> is a loop that does not end.\<close>

partial_function (option) read_loop ::
    "'s sock_api \<Rightarrow> u8 list \<Rightarrow> nat \<Rightarrow> rx_buffer \<Rightarrow> 's \<Rightarrow> (u8 list \<times> rx_buffer \<times> 's) option" where
  "read_loop so got left b s =
     (if left = 0 then Some (got, b, s)
      else let r = fillBuffer so b s; n = fst r; b1 = fst (snd r); s1 = snd (snd r)
       in if n = 0 then Some (got, b1, s1)
          else let t = rb_take (min (rb_fill b1 - rb_pos b1) left) b1
           in read_loop so (got @ fst t) (left - min (rb_fill b1 - rb_pos b1) left) (snd t) s1)"

definition rb_copy :: "'s sock_api \<Rightarrow> nat \<Rightarrow> rx_buffer \<Rightarrow> 's \<Rightarrow> ((int \<times> u8 list) \<times> rx_buffer \<times> 's) option" where
  "rb_copy so len b s =
     (let a = rb_fill b - rb_pos b
      in if len \<le> a then (let (bs, b1) = rb_take len b in Some ((int len, bs), b1, s))
         else (let (n, b1, s1) = (if len - a \<le> rb_size b - rb_fill b then fillBuffer so b s else (0, b, s))
               in if len - a \<le> rb_size b - rb_fill b \<and> len - a \<le> n
                  then (let (bs, b2) = rb_take len b1 in Some ((int len, bs), b2, s1))
                  else (let (bs, b2) = rb_take a b1
                        in (case read_loop so bs (len - a) b2 s1 of
                              None \<Rightarrow> None
                            | Some (got, b3, s3) \<Rightarrow> Some ((int (length got), got), b3, s3)))))"

definition rb_read :: "'s sock_api \<Rightarrow> nat \<Rightarrow> rx_buffer \<Rightarrow> 's \<Rightarrow> ((int \<times> u8 list) \<times> rx_buffer \<times> 's) option" where
  "rb_read so len b s =
     (if len = 0 then Some ((if rb_failed b then -1 else 0, []), b, s)
      else if rb_pos b = rb_fill b then
        (let (n, b1, s1) = fillBuffer so b s
         in if n = 0 then Some ((if rb_failed b1 then -1 else 0, []), b1, s1) else rb_copy so len b1 s1)
      else rb_copy so len b s)"

definition rb_peek :: "'s sock_api \<Rightarrow> rx_buffer \<Rightarrow> 's \<Rightarrow> int \<times> rx_buffer \<times> 's" where
  "rb_peek so b s =
     (let (n, b1, s1) = (if rb_pos b = rb_fill b then fillBuffer so b s else (1, b, s))
      in if n = 0 then (-1, b1, s1)
         else (case rb_buffer b1 of None \<Rightarrow> (-1, b1, s1) | Some mem \<Rightarrow> (uint (mem ! rb_pos b1), b1, s1)))"

definition rb_available :: "'s sock_api \<Rightarrow> rx_buffer \<Rightarrow> 's \<Rightarrow> nat \<times> rx_buffer \<times> 's" where
  "rb_available so b s = (let (n, b1, s1) = r_available so b s in (rb_fill b - rb_pos b + n, b1, s1))"

definition rb_flush :: "'s sock_api \<Rightarrow> rx_buffer \<Rightarrow> 's \<Rightarrow> rx_buffer \<times> 's" where
  "rb_flush so b s =
     (let (n, b1, s1) = r_available so b s;
          (b2, s2) = (if n \<noteq> 0 then snd (fillBuffer so b1 s1) else (b1, s1))
      in (b2\<lparr>rb_pos := rb_fill b2\<rparr>, s2))"

section \<open>The client\<close>

text \<open>\<open>has_socket\<close> is a socket handle that is not NULL.\<close>

record halow_client =
  has_socket :: bool
  rx :: "rx_buffer option"
  is_connected_flag :: bool
  client_timeout :: int
  lastReadTimeout :: int
  lastWriteTimeout :: int

definition Halow_CLIENT_DEF_CONN_TIMEOUT_MS :: int where "Halow_CLIENT_DEF_CONN_TIMEOUT_MS = 3000"
definition Halow_CLIENT_MAX_WRITE_RETRY :: nat where "Halow_CLIENT_MAX_WRITE_RETRY = 10"

text \<open>The constructors leave the two last timeouts uninitialised: \<open>r\<close> and \<open>w\<close>.\<close>

definition HalowClient_fd :: "int \<Rightarrow> int \<Rightarrow> halow_client" where
  "HalowClient_fd r w = \<lparr>has_socket = True, rx = Some HalowClientRxBuffer, is_connected_flag = True,
     client_timeout = Halow_CLIENT_DEF_CONN_TIMEOUT_MS, lastReadTimeout = r, lastWriteTimeout = w\<rparr>"

definition HalowClient :: "int \<Rightarrow> int \<Rightarrow> halow_client" where
  "HalowClient r w = \<lparr>has_socket = False, rx = None, is_connected_flag = False,
     client_timeout = Halow_CLIENT_DEF_CONN_TIMEOUT_MS, lastReadTimeout = r, lastWriteTimeout = w\<rparr>"

text \<open>Dropping the handle closes the socket.\<close>

definition client_stop :: "'s sock_api \<Rightarrow> halow_client \<Rightarrow> 's \<Rightarrow> halow_client \<times> 's" where
  "client_stop so c s =
     (c\<lparr>has_socket := False, rx := None, is_connected_flag := False, lastReadTimeout := 0, lastWriteTimeout := 0\<rparr>,
      if has_socket c then so_close so s else s)"

text \<open>The same three steps after each use of the buffer: keep it, and stop when it failed.\<close>

definition after_buffer :: "'s sock_api \<Rightarrow> halow_client \<Rightarrow> rx_buffer \<Rightarrow> 's \<Rightarrow> halow_client \<times> 's" where
  "after_buffer so c b s =
     (if rb_failed b then client_stop so (c\<lparr>rx := Some b\<rparr>) s else (c\<lparr>rx := Some b\<rparr>, s))"

definition sync_read_timeout :: "'s sock_api \<Rightarrow> halow_client \<Rightarrow> 's \<Rightarrow> halow_client \<times> 's" where
  "sync_read_timeout so c s =
     (if lastReadTimeout c \<noteq> client_timeout c \<and> has_socket c then
        (let (ok, s1) = so_set_timeout so (client_timeout c) s
         in (if ok then c\<lparr>lastReadTimeout := client_timeout c\<rparr> else c, s1))
      else (c, s))"

definition client_read ::
    "'s sock_api \<Rightarrow> nat \<Rightarrow> halow_client \<Rightarrow> 's \<Rightarrow> ((int \<times> u8 list) \<times> halow_client \<times> 's) option" where
  "client_read so len c s =
     (let (c1, s1) = sync_read_timeout so c s
      in case rx c1 of
           None \<Rightarrow> Some ((-1, []), c1, s1)
         | Some b \<Rightarrow>
             (case rb_read so len b s1 of
                None \<Rightarrow> None
              | Some (res, b1, s2) \<Rightarrow> Some (res, after_buffer so c1 b1 s2)))"

definition client_read_byte :: "'s sock_api \<Rightarrow> halow_client \<Rightarrow> 's \<Rightarrow> (int \<times> halow_client \<times> 's) option" where
  "client_read_byte so c s =
     (case client_read so 1 c s of
        None \<Rightarrow> None
      | Some ((res, bs), c1, s1) \<Rightarrow>
          Some (if res < 0 then res else if res = 0 then -1 else (case bs of [] \<Rightarrow> 0 | x # _ \<Rightarrow> uint x), c1, s1))"

definition client_peek :: "'s sock_api \<Rightarrow> halow_client \<Rightarrow> 's \<Rightarrow> int \<times> halow_client \<times> 's" where
  "client_peek so c s =
     (case rx c of
        None \<Rightarrow> (-1, c, s)
      | Some b \<Rightarrow> (let (res, b1, s1) = rb_peek so b s in (res, after_buffer so c b1 s1)))"

definition client_available :: "'s sock_api \<Rightarrow> halow_client \<Rightarrow> 's \<Rightarrow> int \<times> halow_client \<times> 's" where
  "client_available so c s =
     (case rx c of
        None \<Rightarrow> (0, c, s)
      | Some b \<Rightarrow> (let (n, b1, s1) = rb_available so b s in (int n, after_buffer so c b1 s1)))"

definition client_flush :: "'s sock_api \<Rightarrow> halow_client \<Rightarrow> 's \<Rightarrow> halow_client \<times> 's" where
  "client_flush so c s =
     (case rx c of
        None \<Rightarrow> (c, s)
      | Some b \<Rightarrow> (let (b1, s1) = rb_flush so b s in (c\<lparr>rx := Some b1\<rparr>, s1)))"

definition client_connected :: "'s sock_api \<Rightarrow> halow_client \<Rightarrow> 's \<Rightarrow> bool \<times> halow_client \<times> 's" where
  "client_connected so c s =
     (if \<not> is_connected_flag c then (False, c, s)
      else let ((res, err), s1) = so_probe so s;
               c1 = c\<lparr>is_connected_flag := (res > 0 \<or> err \<noteq> E_gone)\<rparr>
           in (is_connected_flag c1, c1, s1))"

section \<open>Writing\<close>

definition sync_write_timeout :: "'s sock_api \<Rightarrow> halow_client \<Rightarrow> 's \<Rightarrow> halow_client \<times> 's" where
  "sync_write_timeout so c s =
     (if lastWriteTimeout c \<noteq> client_timeout c \<and> has_socket c then
        (let (ok, s1) = so_set_timeout so (client_timeout c) s
         in (if ok then c\<lparr>lastWriteTimeout := client_timeout c\<rparr> else c, s1))
      else (c, s))"

text \<open>The loop with \<open>retry\<close> attempts left and \<open>tot\<close> bytes sent; the result is what \<open>write\<close> returns.\<close>

function write_loop ::
    "'s sock_api \<Rightarrow> nat \<Rightarrow> u8 list \<Rightarrow> nat \<Rightarrow> halow_client \<Rightarrow> 's \<Rightarrow> nat \<times> halow_client \<times> 's" where
  "write_loop so retry buf tot c s =
     (if retry = 0 then (tot, c, s)
      else let (c1, s1) = sync_write_timeout so c s;
               ((sel, isset), s2) = so_select_write so s1
       in if sel < 0 then (0, c1, s2)
          else if \<not> isset then write_loop so (retry - 1) buf tot c1 s2
          else (case so_send so (drop tot buf) s2 of
                  (Sent res, s3) \<Rightarrow>
                    if res = 0 then write_loop so (retry - 1) buf tot c1 s3
                    else if length buf \<le> tot + res then (tot + res, c1, s3)
                    else write_loop so Halow_CLIENT_MAX_WRITE_RETRY buf (tot + res) c1 s3
                | (Send_failed err, s3) \<Rightarrow>
                    if err \<noteq> E_again then (let (c2, s4) = client_stop so c1 s3 in (tot, c2, s4))
                    else write_loop so (retry - 1) buf tot c1 s3))"
  by pat_completeness auto
termination
  by (relation "inv_image (less_than <*lex*> less_than) (\<lambda>(so, retry, buf, tot, c, s). (length buf - tot, retry))")
    auto

definition client_write :: "'s sock_api \<Rightarrow> u8 list \<Rightarrow> halow_client \<Rightarrow> 's \<Rightarrow> nat \<times> halow_client \<times> 's" where
  "client_write so buf c s =
     (if \<not> is_connected_flag c \<or> \<not> has_socket c then (0, c, s)
      else write_loop so Halow_CLIENT_MAX_WRITE_RETRY buf 0 c s)"

section \<open>The socket as a stream\<close>

text \<open>
  What TCP promises: \<open>pending\<close> is everything the peer will still send, \<open>arrived\<close> how much of it is
  queued (more may arrive at any time). FIONREAD does not exceed what is queued, \<open>recv\<close> takes a prefix
  and gives all that is queued if it fits, and does not say EWOULDBLOCK when something is queued.
\<close>

locale stream_socket =
  fixes so :: "'s sock_api" and pending :: "'s \<Rightarrow> u8 list" and arrived :: "'s \<Rightarrow> nat"
  assumes arrived_le: "arrived s \<le> length (pending s)"
    and fionread: "so_fionread so s = (r, s1) \<Longrightarrow>
      pending s1 = pending s \<and> arrived s \<le> arrived s1 \<and> (\<forall>c. r = Some c \<longrightarrow> c \<le> arrived s1)"
    and fionread_all: "so_fionread so s = (Some c, s1) \<Longrightarrow> arrived s \<le> c"
    and recv_ok: "so_recv so n s = (Received bs, s1) \<Longrightarrow> pending s = bs @ pending s1 \<and> length bs \<le> n \<and>
      min n (arrived s) \<le> length bs \<and> arrived s \<le> arrived s1 + length bs"
    and recv_err: "so_recv so n s = (Recv_failed err, s1) \<Longrightarrow> pending s1 = pending s \<and> arrived s \<le> arrived s1 \<and>
      (0 < n \<and> 0 < arrived s \<longrightarrow> err \<noteq> E_again)"
    and malloc: "so_malloc_ok so s = (b, s1) \<Longrightarrow> pending s1 = pending s \<and> arrived s \<le> arrived s1"
    and timeout: "so_set_timeout so t s = (b, s1) \<Longrightarrow> pending s1 = pending s \<and> arrived s \<le> arrived s1"
    and probe: "so_probe so s = (pr, s1) \<Longrightarrow> pending s1 = pending s \<and> arrived s \<le> arrived s1"
    and select: "so_select_write so s = (r2, s1) \<Longrightarrow> pending s1 = pending s \<and> arrived s \<le> arrived s1"
    and send: "so_send so bs s = (sr, s1) \<Longrightarrow> pending s1 = pending s \<and> arrived s \<le> arrived s1"

text \<open>The bytes in the buffer that were not read yet, and its shape.\<close>

definition rb_rest :: "rx_buffer \<Rightarrow> u8 list" where
  "rb_rest b = (case rb_buffer b of None \<Rightarrow> [] | Some mem \<Rightarrow> take (rb_fill b - rb_pos b) (drop (rb_pos b) mem))"

definition rb_wf :: "rx_buffer \<Rightarrow> bool" where
  "rb_wf b \<longleftrightarrow> 0 < rb_size b \<and> rb_pos b \<le> rb_fill b \<and> rb_fill b \<le> rb_size b \<and>
     (case rb_buffer b of None \<Rightarrow> rb_fill b = 0 | Some mem \<Rightarrow> length mem = rb_size b)"

lemma rb_rest_length: "rb_wf b \<Longrightarrow> length (rb_rest b) = rb_fill b - rb_pos b"
  by (auto simp: rb_wf_def rb_rest_def split: option.splits)

lemma rb_take_spec:
  assumes "rb_wf b" "n \<le> rb_fill b - rb_pos b"
  shows "fst (rb_take n b) = take n (rb_rest b)" "rb_wf (snd (rb_take n b))"
    "rb_rest (snd (rb_take n b)) = drop n (rb_rest b)" "rb_failed (snd (rb_take n b)) = rb_failed b"
    "rb_fill (snd (rb_take n b)) = rb_fill b" "rb_pos (snd (rb_take n b)) = rb_pos b + n"
    "rb_size (snd (rb_take n b)) = rb_size b"
  using assms
  by (auto simp: rb_take_def rb_wf_def rb_rest_def drop_take min_def add.commute split: option.splits)

lemma rb_new: "rb_wf HalowClientRxBuffer" "rb_rest HalowClientRxBuffer = []"
  by (simp_all add: HalowClientRxBuffer_def rb_wf_def rb_rest_def)

text \<open>A client without a buffer was stopped and is not connected.\<close>

definition client_wf :: "halow_client \<Rightarrow> bool" where
  "client_wf c \<longleftrightarrow> (case rx c of None \<Rightarrow> \<not> is_connected_flag c | Some b \<Rightarrow> rb_wf b)"

definition client_rest :: "halow_client \<Rightarrow> u8 list" where
  "client_rest c = (case rx c of None \<Rightarrow> [] | Some b \<Rightarrow> rb_rest b)"

lemma client_stop_spec:
  "client_wf (fst (client_stop so c s))" "rx (fst (client_stop so c s)) = None"
  by (simp_all add: client_stop_def client_wf_def)

lemma after_buffer_spec:
  assumes "rb_wf b" "after_buffer so c b s = (c1, s1)"
  shows "client_wf c1 \<and> (if rb_failed b then rx c1 = None else c1 = c\<lparr>rx := Some b\<rparr> \<and> s1 = s)"
  using assms client_stop_spec [of so "c\<lparr>rx := Some b\<rparr>" s]
  by (auto simp: after_buffer_def client_wf_def split: if_splits)

context stream_socket
begin

text \<open>How a call may change buffer and socket when \<open>got\<close> was taken from the stream.\<close>

lemma fill_recv_spec:
  assumes wf: "rb_wf b" and mem: "rb_buffer b = Some mem" and run: "fill_recv so mem b s = (n, b1, s1)"
  shows "\<exists>got. rb_wf b1 \<and> rb_rest b1 = rb_rest b @ got \<and> pending s = got @ pending s1 \<and> length got = n \<and>
    rb_size b1 = rb_size b \<and> (rb_failed b \<longrightarrow> rb_failed b1) \<and> arrived s \<le> arrived s1 + n \<and>
    (\<not> rb_failed b1 \<longrightarrow> min (if rb_pos b = rb_fill b then rb_size b else rb_size b - rb_fill b) (arrived s) \<le> n)"
proof -
  define c where "c = rb_rewind b"
  have c: "rb_wf c" "rb_rest c = rb_rest b" "rb_size c = rb_size b" "rb_failed c = rb_failed b" "rb_buffer c = Some mem"
    "rb_size c - rb_fill c = (if rb_pos b = rb_fill b then rb_size b else rb_size b - rb_fill b)"
    using wf mem by (auto simp: c_def rb_rewind_def rb_wf_def rb_rest_def)
  show ?thesis
  proof (cases "rb_size c \<le> rb_fill c")
    case True
    then have "n = 0" "b1 = c" "s1 = s" using run by (simp_all add: fill_recv_def Let_def flip: c_def)
    with c True show ?thesis by auto
  next
    case False
    obtain r sa where io: "so_fionread so s = (r, sa)" by fastforce
    note IO = fionread [OF io]
    show ?thesis
    proof (cases "r = None \<or> r = Some 0")
      case True
      then have "n = 0" "b1 = (if r = None then c\<lparr>rb_failed := True\<rparr> else c)" "s1 = sa"
        using run False io by (auto simp: fill_recv_def r_available_def Let_def simp flip: c_def)
      moreover have "r = None \<or> arrived s = 0" using fionread_all io True by fastforce
      ultimately show ?thesis using c IO by (auto simp: rb_wf_def rb_rest_def)
    next
      case some: False
      then obtain k where r: "r = Some k" "k \<noteq> 0" by auto
      obtain rr sb where rc: "so_recv so (rb_size c - rb_fill c) sa = (rr, sb)" by fastforce
      show ?thesis
      proof (cases rr)
        case (Recv_failed err)
        then have res: "n = 0" "b1 = (if err \<noteq> E_again then c\<lparr>rb_failed := True\<rparr> else c)" "s1 = sb"
          using run False io r rc by (auto simp: fill_recv_def r_available_def Let_def simp flip: c_def)
        have E: "pending sb = pending sa" "arrived sa \<le> arrived sb"
          "0 < arrived sa \<Longrightarrow> err \<noteq> E_again"
          using recv_err rc Recv_failed False by auto
        have "rb_failed b1 \<or> arrived s = 0" using E(3) res(2) IO by (cases "err = E_again") auto
        with res E c IO show ?thesis by (auto simp: rb_wf_def rb_rest_def)
      next
        case (Received bs)
        then have res: "n = length bs" "s1 = sb"
          "b1 = c\<lparr>rb_buffer := Some (take (rb_fill c) mem @ bs @ drop (rb_fill c + length bs) mem),
             rb_fill := rb_fill c + length bs\<rparr>"
          using run False io r rc by (auto simp: fill_recv_def r_available_def Let_def simp flip: c_def)
        have R: "pending sa = bs @ pending sb" "length bs \<le> rb_size c - rb_fill c"
          "min (rb_size c - rb_fill c) (arrived sa) \<le> length bs" "arrived sa \<le> arrived sb + length bs"
          using recv_ok rc Received by auto
        have "rb_wf b1" using c(1,5) R(2) False by (auto simp: res(3) rb_wf_def)
        moreover have "rb_rest b1 = rb_rest c @ bs"
          using c(1,5) R(2) False by (auto simp: res(3) rb_wf_def rb_rest_def drop_take)
        ultimately show ?thesis using R IO c res by (intro exI [of _ bs]) auto
      qed
    qed
  qed
qed

lemma fillBuffer_spec:
  assumes wf: "rb_wf b" and run: "fillBuffer so b s = (n, b1, s1)"
  shows "\<exists>got. rb_wf b1 \<and> rb_rest b1 = rb_rest b @ got \<and> pending s = got @ pending s1 \<and> length got = n \<and>
    rb_size b1 = rb_size b \<and> (rb_failed b \<longrightarrow> rb_failed b1) \<and> arrived s \<le> arrived s1 + n \<and>
    (\<not> rb_failed b1 \<longrightarrow> min (if rb_pos b = rb_fill b then rb_size b else rb_size b - rb_fill b) (arrived s) \<le> n)"
proof (cases "rb_buffer b")
  case (Some mem)
  with run fill_recv_spec [OF wf Some] show ?thesis by (simp add: fillBuffer_def)
next
  case None
  obtain ok sa where m: "so_malloc_ok so s = (ok, sa)" by fastforce
  note M = malloc [OF m]
  have empty: "rb_fill b = 0" "rb_pos b = 0" "rb_rest b = []" using wf None by (auto simp: rb_wf_def rb_rest_def)
  show ?thesis
  proof (cases ok)
    case False
    with run None m M wf empty show ?thesis by (auto simp: fillBuffer_def rb_wf_def rb_rest_def)
  next
    case True
    let ?m = "replicate (rb_size b) 0" and ?b = "b\<lparr>rb_buffer := Some (replicate (rb_size b) 0)\<rparr>"
    have "rb_wf ?b" "rb_rest ?b = []" using wf empty by (auto simp: rb_wf_def rb_rest_def)
    moreover have "fill_recv so ?m ?b sa = (n, b1, s1)" using run None m True by (simp add: fillBuffer_def)
    ultimately obtain got where "rb_wf b1" "rb_rest b1 = got" "pending sa = got @ pending s1" "length got = n"
      "rb_size b1 = rb_size b" "rb_failed b \<longrightarrow> rb_failed b1" "arrived sa \<le> arrived s1 + n"
      "\<not> rb_failed b1 \<longrightarrow> min (rb_size b) (arrived sa) \<le> n"
      using fill_recv_spec [of ?b ?m sa n b1 s1] empty by auto
    then show ?thesis using M empty by (intro exI [of _ got]) auto
  qed
qed

lemma read_loop_spec:
  assumes "rb_wf b"
  shows "\<exists>got' b1 s1. read_loop so got left b s = Some (got @ got', b1, s1) \<and> rb_wf b1 \<and>
    rb_rest b @ pending s = got' @ rb_rest b1 @ pending s1 \<and> length got' \<le> left \<and> (rb_failed b \<longrightarrow> rb_failed b1) \<and>
    (\<not> rb_failed b1 \<and> rb_pos b = rb_fill b \<and> left \<le> arrived s \<longrightarrow> length got' = left)"
  using assms
proof (induction left arbitrary: got b s rule: less_induct)
  case (less left)
  show ?case
  proof (cases "left = 0")
    case True
    with less.prems show ?thesis by (subst read_loop.simps) simp
  next
    case False
    obtain n b1 s1 where f: "fillBuffer so b s = (n, b1, s1)" by (metis prod_cases3)
    from fillBuffer_spec [OF less.prems f] obtain g where g: "rb_wf b1" "rb_rest b1 = rb_rest b @ g"
      "pending s = g @ pending s1" "length g = n" "rb_size b1 = rb_size b" "rb_failed b \<longrightarrow> rb_failed b1"
      "arrived s \<le> arrived s1 + n"
      "\<not> rb_failed b1 \<longrightarrow> min (if rb_pos b = rb_fill b then rb_size b else rb_size b - rb_fill b) (arrived s) \<le> n"
      by blast
    show ?thesis
    proof (cases "n = 0")
      case True
      have "\<not> rb_failed b1 \<and> rb_pos b = rb_fill b \<longrightarrow> arrived s = 0"
        using g(8) True less.prems by (auto simp: rb_wf_def min_def split: if_splits)
      with g True f False show ?thesis by (subst read_loop.simps) auto
    next
      case n: False
      define k where "k = min (rb_fill b1 - rb_pos b1) left"
      have avail: "rb_fill b1 - rb_pos b1 = length (rb_rest b) + n"
        using rb_rest_length [OF g(1)] g(2,4) by simp
      then have k: "0 < k" "k \<le> left" "k \<le> rb_fill b1 - rb_pos b1" using n False by (simp_all add: k_def)
      obtain t b2 where t: "rb_take k b1 = (t, b2)" by fastforce
      note T = rb_take_spec [OF g(1) k(3), unfolded t fst_conv snd_conv]
      have "left - k < left" using k False by simp
      from less.IH [OF this T(2), of "got @ t" s1] obtain g2 b3 s3 where
        r: "read_loop so (got @ t) (left - k) b2 s1 = Some ((got @ t) @ g2, b3, s3)" "rb_wf b3"
          "rb_rest b2 @ pending s1 = g2 @ rb_rest b3 @ pending s3" "length g2 \<le> left - k" "rb_failed b2 \<longrightarrow> rb_failed b3"
          "\<not> rb_failed b3 \<and> rb_pos b2 = rb_fill b2 \<and> left - k \<le> arrived s1 \<longrightarrow> length g2 = left - k"
        by blast
      have tl: "length t = k" using T(1) k(3) rb_rest_length [OF g(1)] by simp
      have eq: "read_loop so got left b s = Some (got @ (t @ g2), b3, s3)"
        using r(1) f n False t by (subst read_loop.simps) (simp add: Let_def flip: k_def)
      have "rb_rest b @ pending s = (t @ g2) @ rb_rest b3 @ pending s3"
        using T(1,3) g(2,3) r(3) by (metis append.assoc append_take_drop_id)
      moreover have "length (t @ g2) = left" if c: "\<not> rb_failed b3" "rb_pos b = rb_fill b" "left \<le> arrived s"
      proof -
        have "length (rb_rest b) = 0" using rb_rest_length [OF less.prems] c(2) by simp
        then have fp: "rb_fill b1 - rb_pos b1 = n" using avail by simp
        show ?thesis
        proof (cases "k = left")
          case True
          with r(4) tl show ?thesis by simp
        next
          case False
          then have "k = n" using fp by (simp add: k_def min_def split: if_splits)
          moreover have "rb_pos b1 \<le> rb_fill b1" using g(1) by (simp add: rb_wf_def)
          moreover from calculation have "rb_pos b2 = rb_fill b2" using T(5,6) fp by linarith
          moreover have "left - n \<le> arrived s1" using c(3) g(7) by linarith
          ultimately show ?thesis using r(6) c(1) tl k(2) by simp
        qed
      qed
      moreover have "rb_failed b \<longrightarrow> rb_failed b3" using g(6) T(4) r(5) by simp
      moreover have "length (t @ g2) \<le> left" using tl r(4) k(2) by simp
      ultimately show ?thesis using eq r(2) by blast
    qed
  qed
qed

lemma rb_copy_spec:
  assumes wf: "rb_wf b" and some: "rb_pos b < rb_fill b" and len: "0 < len"
  shows "\<exists>bs b1 s1. rb_copy so len b s = Some ((int (length bs), bs), b1, s1) \<and> rb_wf b1 \<and>
    rb_rest b @ pending s = bs @ rb_rest b1 @ pending s1 \<and> length bs \<le> len \<and> 0 < length bs \<and>
    (rb_failed b \<longrightarrow> rb_failed b1) \<and>
    (\<not> rb_failed b1 \<and> len \<le> rb_fill b - rb_pos b + arrived s \<longrightarrow> length bs = len)"
proof -
  define a where "a = rb_fill b - rb_pos b"
  have rl: "length (rb_rest b) = a" using rb_rest_length [OF wf] by (simp add: a_def)
  have a0: "0 < a" using some by (simp add: a_def)
  show ?thesis
  proof (cases "len \<le> a")
    case True
    obtain t b1 where t: "rb_take len b = (t, b1)" by fastforce
    note T = rb_take_spec [OF wf, of len, unfolded t fst_conv snd_conv, OF True [unfolded a_def]]
    have "rb_copy so len b s = Some ((int len, t), b1, s)" using True t by (simp add: rb_copy_def Let_def flip: a_def)
    moreover have "length t = len" using T(1) True rl by simp
    ultimately show ?thesis using T len by (intro exI [of _ t] exI [of _ b1] exI [of _ s]) simp
  next
    case big: False
    define room where "room \<longleftrightarrow> len - a \<le> rb_size b - rb_fill b"
    obtain n b1 s1 where f: "(if room then fillBuffer so b s else (0, b, s)) = (n, b1, s1)" by (metis prod_cases3)
    have "\<exists>g. rb_wf b1 \<and> rb_rest b1 = rb_rest b @ g \<and> pending s = g @ pending s1 \<and> length g = n \<and>
        (rb_failed b \<longrightarrow> rb_failed b1) \<and> (\<not> room \<longrightarrow> b1 = b \<and> s1 = s \<and> n = 0) \<and>
        (room \<and> \<not> rb_failed b1 \<longrightarrow> min (rb_size b - rb_fill b) (arrived s) \<le> n)"
    proof (cases room)
      case True
      with f fillBuffer_spec [OF wf, of s n b1 s1] some show ?thesis by auto
    next
      case False
      with f wf show ?thesis by auto
    qed
    then obtain g where g: "rb_wf b1" "rb_rest b1 = rb_rest b @ g" "pending s = g @ pending s1" "length g = n"
      "rb_failed b \<longrightarrow> rb_failed b1" "\<not> room \<longrightarrow> b1 = b \<and> s1 = s \<and> n = 0"
      "room \<and> \<not> rb_failed b1 \<longrightarrow> min (rb_size b - rb_fill b) (arrived s) \<le> n" by blast
    have l1: "rb_fill b1 - rb_pos b1 = a + n" using rb_rest_length [OF g(1)] g(2,4) rl by simp
    show ?thesis
    proof (cases "room \<and> len - a \<le> n")
      case True
      obtain t b2 where t: "rb_take len b1 = (t, b2)" by fastforce
      have "len \<le> rb_fill b1 - rb_pos b1" using True l1 by linarith
      note T = rb_take_spec [OF g(1) this, unfolded t fst_conv snd_conv]
      have "rb_copy so len b s = Some ((int len, t), b2, s1)"
        using big True f t by (simp add: rb_copy_def Let_def room_def flip: a_def)
      moreover have "length t = len" using T(1) rb_rest_length [OF g(1)] \<open>len \<le> rb_fill b1 - rb_pos b1\<close> by simp
      moreover have "rb_rest b @ pending s = t @ rb_rest b2 @ pending s1"
        using T(1,3) g(2,3) by (metis append.assoc append_take_drop_id)
      ultimately show ?thesis using T(2,4) g(5) len by (intro exI [of _ t] exI [of _ b2] exI [of _ s1]) simp
    next
      case slow: False
      obtain t b2 where t: "rb_take a b1 = (t, b2)" by fastforce
      have "a \<le> rb_fill b1 - rb_pos b1" using l1 by simp
      note T = rb_take_spec [OF g(1) this, unfolded t fst_conv snd_conv]
      have tl: "length t = a" using T(1) rb_rest_length [OF g(1)] \<open>a \<le> rb_fill b1 - rb_pos b1\<close> by simp
      from read_loop_spec [OF T(2), of t "len - a" s1] obtain g2 b3 s3 where
        r: "read_loop so t (len - a) b2 s1 = Some (t @ g2, b3, s3)" "rb_wf b3"
          "rb_rest b2 @ pending s1 = g2 @ rb_rest b3 @ pending s3" "length g2 \<le> len - a" "rb_failed b2 \<longrightarrow> rb_failed b3"
          "\<not> rb_failed b3 \<and> rb_pos b2 = rb_fill b2 \<and> len - a \<le> arrived s1 \<longrightarrow> length g2 = len - a" by blast
      have "rb_copy so len b s = Some ((int (length (t @ g2)), t @ g2), b3, s3)"
        using big slow f t r(1) by (auto simp: rb_copy_def Let_def room_def simp flip: a_def)
      moreover have "rb_rest b @ pending s = (t @ g2) @ rb_rest b3 @ pending s3"
        using T(1,3) g(2,3) r(3) by (metis append.assoc append_take_drop_id)
      moreover have "length (t @ g2) = len" if c: "\<not> rb_failed b3" "len \<le> a + arrived s"
      proof -
        have nf: "\<not> rb_failed b1" using c(1) r(5) T(4) by simp
        have "\<not> room"
        proof
          assume room
          then have "min (rb_size b - rb_fill b) (arrived s) \<le> n" using g(7) nf by simp
          moreover have "len - a \<le> rb_size b - rb_fill b" using \<open>room\<close> by (simp add: room_def)
          moreover have "len - a \<le> arrived s" using c(2) by linarith
          ultimately have "len - a \<le> n" by linarith
          with slow \<open>room\<close> show False by simp
        qed
        then have "b1 = b" "s1 = s" using g(6) by simp_all
        moreover have "rb_pos b \<le> rb_fill b" using wf by (simp add: rb_wf_def)
        ultimately have "rb_pos b2 = rb_fill b2" "len - a \<le> arrived s1" using T(5,6) c(2) by (simp_all add: a_def)
        then show ?thesis using r(6) c(1) tl big by simp
      qed
      moreover have "length (t @ g2) \<le> len" "0 < length (t @ g2)" using tl r(4) big a0 by simp_all
      moreover have "rb_failed b \<longrightarrow> rb_failed b3" using g(5) T(4) r(5) by simp
      ultimately show ?thesis using r(2) unfolding a_def by blast
    qed
  qed
qed

text \<open>
  Reading: what is returned is the beginning of the unread stream, the rest stays; as much as has
  arrived is returned unless the socket fails.
\<close>

lemma rb_read_spec:
  assumes wf: "rb_wf b" and len: "0 < len"
  shows "\<exists>r bs b1 s1. rb_read so len b s = Some ((r, bs), b1, s1) \<and> rb_wf b1 \<and>
    rb_rest b @ pending s = bs @ rb_rest b1 @ pending s1 \<and> length bs \<le> len \<and> (0 < r \<longrightarrow> r = int (length bs)) \<and>
    (r \<le> 0 \<longrightarrow> bs = []) \<and> (rb_failed b \<longrightarrow> rb_failed b1) \<and>
    (\<not> rb_failed b1 \<and> len \<le> rb_fill b - rb_pos b + arrived s \<longrightarrow> r = int len)"
proof (cases "rb_pos b = rb_fill b")
  case False
  then have "rb_pos b < rb_fill b" using wf by (simp add: rb_wf_def)
  from rb_copy_spec [OF wf this len, of s] False len show ?thesis by (fastforce simp: rb_read_def)
next
  case True
  obtain n b1 s1 where f: "fillBuffer so b s = (n, b1, s1)" by (metis prod_cases3)
  from fillBuffer_spec [OF wf f] obtain g where g: "rb_wf b1" "rb_rest b1 = rb_rest b @ g"
    "pending s = g @ pending s1" "length g = n" "rb_failed b \<longrightarrow> rb_failed b1" "arrived s \<le> arrived s1 + n"
    "\<not> rb_failed b1 \<longrightarrow> min (rb_size b) (arrived s) \<le> n" using True by auto
  have empty: "rb_rest b = []" using rb_rest_length [OF wf] True by simp
  have l1: "rb_fill b1 - rb_pos b1 = n" using rb_rest_length [OF g(1)] g(2,4) empty by simp
  show ?thesis
  proof (cases "n = 0")
    case zero: True
    have "rb_failed b1 \<or> arrived s = 0" using g(7) zero wf by (auto simp: rb_wf_def min_def split: if_splits)
    with zero g f True len empty show ?thesis by (auto simp: rb_read_def)
  next
    case n: False
    then have "rb_pos b1 < rb_fill b1" using l1 by linarith
    from rb_copy_spec [OF g(1) this len, of s1] obtain bs b2 s2 where
      c: "rb_copy so len b1 s1 = Some ((int (length bs), bs), b2, s2)" "rb_wf b2"
        "rb_rest b1 @ pending s1 = bs @ rb_rest b2 @ pending s2" "length bs \<le> len" "0 < length bs"
        "rb_failed b1 \<longrightarrow> rb_failed b2"
        "\<not> rb_failed b2 \<and> len \<le> rb_fill b1 - rb_pos b1 + arrived s1 \<longrightarrow> length bs = len" by blast
    have "rb_read so len b s = Some ((int (length bs), bs), b2, s2)" using f n True len c(1) by (simp add: rb_read_def)
    moreover have "rb_rest b @ pending s = bs @ rb_rest b2 @ pending s2" using c(3) g(2,3) by simp
    moreover have "len \<le> rb_fill b1 - rb_pos b1 + arrived s1" if "len \<le> rb_fill b - rb_pos b + arrived s"
      using that True l1 g(6) by linarith
    ultimately show ?thesis using c(2,4-7) g(5) by fastforce
  qed
qed

section \<open>The client as a stream\<close>

lemma client_available_spec:
  assumes wf: "client_wf c" and run: "client_available so c s = (a, c1, s1)"
  shows "client_wf c1 \<and> (rx c = None \<longrightarrow> rx c1 = None \<and> a = 0) \<and>
    (rx c1 \<noteq> None \<longrightarrow> client_rest c1 @ pending s1 = client_rest c @ pending s \<and>
       a \<le> int (length (client_rest c1) + arrived s1))"
proof (cases "rx c")
  case None
  with assms show ?thesis by (auto simp: client_available_def)
next
  case (Some b)
  have wfb: "rb_wf b" using wf Some by (simp add: client_wf_def)
  obtain r sa where io: "so_fionread so s = (r, sa)" by fastforce
  note IO = fionread [OF io]
  show ?thesis
  proof (cases r)
    case None
    then have ab: "after_buffer so c (b\<lparr>rb_failed := True\<rparr>) sa = (c1, s1)"
      using run Some io by (simp add: client_available_def rb_available_def r_available_def)
    have "rb_wf (b\<lparr>rb_failed := True\<rparr>)" using wfb by (simp add: rb_wf_def split: option.splits)
    from after_buffer_spec [OF this ab] Some show ?thesis by simp
  next
    case (Some n)
    then have ab: "after_buffer so c b sa = (c1, s1)" and a: "a = int (rb_fill b - rb_pos b + n)"
      using run \<open>rx c = Some b\<close> io by (auto simp: client_available_def rb_available_def r_available_def)
    note A = after_buffer_spec [OF wfb ab]
    have "n \<le> arrived sa" using IO Some by simp
    with A a IO rb_rest_length [OF wfb] \<open>rx c = Some b\<close> show ?thesis
      by (auto simp: client_rest_def split: if_splits)
  qed
qed

lemma sync_read_timeout_spec:
  assumes "sync_read_timeout so c s = (c1, s1)"
  shows "rx c1 = rx c \<and> is_connected_flag c1 = is_connected_flag c \<and> pending s1 = pending s \<and> arrived s \<le> arrived s1"
  using assms timeout by (fastforce simp: sync_read_timeout_def split: if_splits prod.splits)

lemma client_read_spec:
  assumes wf: "client_wf c" and n: "0 < n"
  shows "\<exists>r bs c1 s1. client_read so n c s = Some ((r, bs), c1, s1) \<and> client_wf c1 \<and>
    (rx c = None \<longrightarrow> rx c1 = None \<and> r = -1) \<and>
    (0 < r \<longrightarrow> r = int (length bs) \<and> length bs \<le> n \<and>
       (\<exists>rest. client_rest c @ pending s = bs @ rest \<and> (rx c1 \<noteq> None \<longrightarrow> client_rest c1 @ pending s1 = rest))) \<and>
    (rx c1 \<noteq> None \<and> n \<le> length (client_rest c) + arrived s \<longrightarrow> r = int n)"
proof -
  obtain ca sa where t: "sync_read_timeout so c s = (ca, sa)" by fastforce
  note T = sync_read_timeout_spec [OF t]
  show ?thesis
  proof (cases "rx c")
    case None
    with t T wf show ?thesis by (auto simp: client_read_def client_wf_def)
  next
    case (Some b)
    have wfb: "rb_wf b" using wf Some by (simp add: client_wf_def)
    from rb_read_spec [OF wfb n, of sa] obtain r bs b1 sb where R: "rb_read so n b sa = Some ((r, bs), b1, sb)"
      "rb_wf b1" "rb_rest b @ pending sa = bs @ rb_rest b1 @ pending sb" "length bs \<le> n"
      "0 < r \<longrightarrow> r = int (length bs)"
      "\<not> rb_failed b1 \<and> n \<le> rb_fill b - rb_pos b + arrived sa \<longrightarrow> r = int n" by blast
    obtain c1 s1 where ab: "after_buffer so ca b1 sb = (c1, s1)" by fastforce
    note A = after_buffer_spec [OF R(2) ab]
    have "client_read so n c s = Some ((r, bs), c1, s1)"
      using t T Some R(1) ab by (simp add: client_read_def)
    moreover have "n \<le> rb_fill b - rb_pos b + arrived sa" if "n \<le> length (client_rest c) + arrived s"
      using that T rb_rest_length [OF wfb] Some by (simp add: client_rest_def)
    ultimately show ?thesis
      using A R(3-6) T Some by (auto simp: client_rest_def split: if_splits)
  qed
qed

lemma client_connected_spec:
  assumes "client_wf c" "client_connected so c s = (b, c1, s1)"
  shows "client_wf c1 \<and> rx c1 = rx c \<and> pending s1 = pending s \<and> (b \<longrightarrow> rx c \<noteq> None)"
  using assms probe
  by (fastforce simp: client_connected_def client_wf_def Let_def split: if_splits prod.splits option.splits)

text \<open>Writing never touches what is to be read; it may stop the client.\<close>

definition keeps_unread :: "halow_client \<Rightarrow> 's \<Rightarrow> halow_client \<Rightarrow> 's \<Rightarrow> bool" where
  "keeps_unread c s c1 s1 \<longleftrightarrow> (client_wf c \<longrightarrow> client_wf c1) \<and> (rx c = None \<longrightarrow> rx c1 = None) \<and>
     (rx c1 \<noteq> None \<longrightarrow> rx c1 = rx c \<and> pending s1 = pending s)"

lemma keeps_unread_trans: "keeps_unread c s c1 s1 \<Longrightarrow> keeps_unread c1 s1 c2 s2 \<Longrightarrow> keeps_unread c s c2 s2"
  unfolding keeps_unread_def by metis

lemma sync_write_timeout_keeps: "sync_write_timeout so c s = (c1, s1) \<Longrightarrow> keeps_unread c s c1 s1"
proof -
  obtain ok sa where t: "so_set_timeout so (client_timeout c) s = (ok, sa)" by fastforce
  assume "sync_write_timeout so c s = (c1, s1)"
  then have "rx c1 = rx c \<and> is_connected_flag c1 = is_connected_flag c \<and> (s1 = s \<or> s1 = sa)"
    using t by (auto simp: sync_write_timeout_def split: if_splits)
  with timeout [OF t] show ?thesis by (auto simp: keeps_unread_def client_wf_def split: option.splits)
qed

declare write_loop.simps [simp del]

lemma write_loop_keeps:
  "write_loop so retry buf tot c s = (n, c1, s1) \<Longrightarrow> keeps_unread c s c1 s1"
proof (induction "(length buf - tot, retry)" arbitrary: retry tot c s
    rule: wf_induct_rule [OF wf_lex_prod [OF wf_less_than wf_less_than], case_names less])
  case less
  note IH = less.hyps
  obtain ca sa where t: "sync_write_timeout so c s = (ca, sa)" by fastforce
  obtain sel isset sb where sl: "so_select_write so sa = ((sel, isset), sb)" by (metis prod.collapse)
  obtain r sc where sd: "so_send so (drop tot buf) sb = (r, sc)" by fastforce
  have K: "keeps_unread c s ca sa" by (rule sync_write_timeout_keeps [OF t])
  have same: "keeps_unread ca sa ca sb" "keeps_unread ca sa ca sc"
    using select [OF sl] send [OF sd] by (auto simp: keeps_unread_def)
  note K' = keeps_unread_trans [OF K same(1)] keeps_unread_trans [OF K same(2)]
  show ?case
  proof (cases "retry = 0 \<or> sel < 0")
    case True
    show ?thesis
    proof (cases "retry = 0")
      case True
      with less.prems have "c1 = c" "s1 = s" by (subst (asm) write_loop.simps, simp)+
      then show ?thesis by (simp add: keeps_unread_def)
    next
      case False
      with \<open>retry = 0 \<or> sel < 0\<close> t sl less.prems have "c1 = ca" "s1 = sb" by (subst (asm) write_loop.simps, simp)+
      with K'(1) show ?thesis by simp
    qed
  next
    case go: False
    show ?thesis
    proof (cases isset)
      case False
      with go t sl less.prems have "write_loop so (retry - 1) buf tot ca sb = (n, c1, s1)"
        by (subst (asm) write_loop.simps) simp
      from IH [OF _ this] go K'(1) show ?thesis by (auto intro: keeps_unread_trans)
    next
      case set: True
      show ?thesis
      proof (cases r)
        case (Sent k)
        then consider "k = 0" "write_loop so (retry - 1) buf tot ca sc = (n, c1, s1)"
          | "k \<noteq> 0" "c1 = ca" "s1 = sc"
          | "k \<noteq> 0" "\<not> length buf \<le> tot + k" "write_loop so Halow_CLIENT_MAX_WRITE_RETRY buf (tot + k) ca sc = (n, c1, s1)"
          using less.prems go t sl set sd by (subst (asm) write_loop.simps) (auto split: if_splits)
        then show ?thesis
        proof cases
          case 1
          from IH [OF _ 1(2)] go K'(2) show ?thesis by (auto intro: keeps_unread_trans)
        next
          case 2
          with K'(2) show ?thesis by simp
        next
          case 3
          have "length buf - (tot + k) < length buf - tot" using 3(1,2) by linarith
          then have "keeps_unread ca sc c1 s1" using IH [OF _ 3(3)] by simp
          with K'(2) show ?thesis by (rule keeps_unread_trans)
        qed
      next
        case (Send_failed err)
        show ?thesis
        proof (cases "err = E_again")
          case True
          with Send_failed less.prems go t sl set sd have "write_loop so (retry - 1) buf tot ca sc = (n, c1, s1)"
            by (subst (asm) write_loop.simps) simp
          from IH [OF _ this] go K'(2) show ?thesis by (auto intro: keeps_unread_trans)
        next
          case False
          with Send_failed less.prems go t sl set sd have "(c1, s1) = client_stop so ca sc"
            by (subst (asm) write_loop.simps) (auto split: prod.splits)
          then have "rx c1 = None" "client_wf c1" using client_stop_spec [of so ca sc] by (metis fst_conv)+
          then show ?thesis by (simp add: keeps_unread_def)
        qed
      qed
    qed
  qed
qed

lemma client_write_keeps:
  assumes "client_write so buf c s = (n, c1, s1)"
  shows "keeps_unread c s c1 s1"
proof (cases "\<not> is_connected_flag c \<or> \<not> has_socket c")
  case True
  with assms have "c1 = c" "s1 = s" by (simp_all add: client_write_def)
  then show ?thesis by (simp add: keeps_unread_def)
next
  case False
  with assms have "write_loop so Halow_CLIENT_MAX_WRITE_RETRY buf 0 c s = (n, c1, s1)"
    by (simp add: client_write_def)
  then show ?thesis by (rule write_loop_keeps)
qed

end

section \<open>What a write puts on the wire\<close>

declare write_loop.simps [simp del]

text \<open>
  The other direction: \<open>taken\<close> is what the socket has taken for sending. \<open>send\<close> takes the first bytes it is
  given, as many as it says; nothing else takes any.
\<close>

locale output_socket =
  fixes so :: "'s sock_api" and taken :: "'s \<Rightarrow> u8 list"
  assumes send_takes: "so_send so bs s = (Sent n, s1) \<Longrightarrow> n \<le> length bs \<and> taken s1 = taken s @ take n bs"
    and send_fails: "so_send so bs s = (Send_failed err, s1) \<Longrightarrow> taken s1 = taken s"
    and select_takes: "so_select_write so s = (r, s1) \<Longrightarrow> taken s1 = taken s"
    and timeout_takes: "so_set_timeout so t s = (b, s1) \<Longrightarrow> taken s1 = taken s"
    and probe_takes: "so_probe so s = (pr, s1) \<Longrightarrow> taken s1 = taken s"
    and close_takes: "taken (so_close so s) = taken s"
begin

lemma client_connected_takes:
  assumes "client_connected so c s = (b, c1, s1)"
  shows "taken s1 = taken s"
proof -
  obtain pr sa where "so_probe so s = (pr, sa)" by fastforce
  with assms probe_takes [OF this] show ?thesis
    by (auto simp: client_connected_def Let_def split: if_splits prod.splits)
qed

lemma sync_write_timeout_takes:
  assumes "sync_write_timeout so c s = (c1, s1)"
  shows "taken s1 = taken s"
    "is_connected_flag c1 = is_connected_flag c" "has_socket c1 = has_socket c" "rx c1 = rx c"
proof -
  obtain ok sa where "so_set_timeout so (client_timeout c) s = (ok, sa)" by fastforce
  with assms timeout_takes [OF this] show "taken s1 = taken s"
    "is_connected_flag c1 = is_connected_flag c" "has_socket c1 = has_socket c" "rx c1 = rx c"
    by (auto simp: sync_write_timeout_def split: if_splits)
qed

lemma write_loop_takes:
  assumes "write_loop so retry buf tot c s = (n, c1, s1)" "tot \<le> length buf"
  shows "\<exists>m \<le> length buf - tot. taken s1 = taken s @ take m (drop tot buf) \<and> (n = tot + m \<or> n = 0)"
  using assms
proof (induction "(length buf - tot, retry)" arbitrary: retry tot c s
    rule: wf_induct_rule [OF wf_lex_prod [OF wf_less_than wf_less_than], case_names less])
  case less
  note IH = less.hyps
  show ?case
  proof (cases "retry = 0")
    case True
    with less.prems(1) have "n = tot" "s1 = s" by (subst (asm) write_loop.simps, simp)+
    then show ?thesis by (intro exI [of _ 0]) simp
  next
    case retry: False
    obtain ca sa where t: "sync_write_timeout so c s = (ca, sa)" by fastforce
    obtain sel isset sb where sl: "so_select_write so sa = ((sel, isset), sb)" by (metis prod.collapse)
    obtain r sc where sd: "so_send so (drop tot buf) sb = (r, sc)" by fastforce
    have b: "taken sb = taken s" using sync_write_timeout_takes(1) [OF t] select_takes [OF sl] by simp
    have again: "?thesis" if "write_loop so (retry - 1) buf tot ca s' = (n, c1, s1)" "taken s' = taken s" for s'
      using IH [OF _ that(1)] less.prems(2) retry that(2) by simp
    show ?thesis
    proof (cases "sel < 0 \<or> \<not> isset")
      case True
      show ?thesis
      proof (cases "sel < 0")
        case True
        with less.prems(1) retry t sl have "n = 0" "s1 = sb" by (subst (asm) write_loop.simps, simp)+
        with b show ?thesis by (intro exI [of _ 0]) simp
      next
        case False
        with \<open>sel < 0 \<or> \<not> isset\<close> less.prems(1) retry t sl have "write_loop so (retry - 1) buf tot ca sb = (n, c1, s1)"
          by (subst (asm) write_loop.simps) simp
        then show ?thesis using b by (rule again)
      qed
    next
      case set: False
      show ?thesis
      proof (cases r)
        case (Sent k)
        have k: "k \<le> length (drop tot buf)" "taken sc = taken s @ take k (drop tot buf)"
          using send_takes [OF sd [unfolded Sent]] b by simp_all
        consider "k = 0" "write_loop so (retry - 1) buf tot ca sc = (n, c1, s1)"
          | "k \<noteq> 0" "length buf \<le> tot + k" "n = tot + k" "s1 = sc"
          | "k \<noteq> 0" "\<not> length buf \<le> tot + k" "write_loop so Halow_CLIENT_MAX_WRITE_RETRY buf (tot + k) ca sc = (n, c1, s1)"
          using less.prems(1) retry set t sl sd Sent by (subst (asm) write_loop.simps) (auto split: if_splits)
        then show ?thesis
        proof cases
          case 1
          show ?thesis by (rule again [OF 1(2)]) (simp add: k(2) 1(1))
        next
          case 2
          with k show ?thesis by (intro exI [of _ k]) simp
        next
          case 3
          have "length buf - (tot + k) < length buf - tot" "tot + k \<le> length buf" using 3(1,2) k(1) by auto
          then obtain m where m: "m \<le> length buf - (tot + k)" "taken s1 = taken sc @ take m (drop (tot + k) buf)"
            "n = tot + k + m \<or> n = 0" using IH [OF _ 3(3)] by auto
          have "take (k + m) (drop tot buf) = take k (drop tot buf) @ take m (drop (tot + k) buf)"
            by (simp add: take_add add.commute)
          with m k show ?thesis by (intro exI [of _ "k + m"]) auto
        qed
      next
        case (Send_failed err)
        have c: "taken sc = taken s" using send_fails [OF sd [unfolded Send_failed]] b by simp
        show ?thesis
        proof (cases "err = E_again")
          case True
          with Send_failed less.prems(1) retry set t sl sd have "write_loop so (retry - 1) buf tot ca sc = (n, c1, s1)"
            by (subst (asm) write_loop.simps) simp
          then show ?thesis using c by (rule again)
        next
          case False
          with Send_failed less.prems(1) retry set t sl sd have "n = tot" "(c1, s1) = client_stop so ca sc"
            by (subst (asm) write_loop.simps, auto split: prod.splits)+
          with c close_takes show ?thesis by (intro exI [of _ 0]) (auto simp: client_stop_def split: if_splits)
        qed
      qed
    qed
  qed
qed

text \<open>A write puts a prefix of its buffer on the wire.\<close>

lemma client_write_takes:
  assumes "client_write so buf c s = (n, c1, s1)"
  shows "\<exists>m \<le> length buf. taken s1 = taken s @ take m buf"
proof (cases "\<not> is_connected_flag c \<or> \<not> has_socket c")
  case True
  with assms show ?thesis by (intro exI [of _ 0]) (simp add: client_write_def)
next
  case False
  with assms have "write_loop so Halow_CLIENT_MAX_WRITE_RETRY buf 0 c s = (n, c1, s1)"
    by (simp add: client_write_def)
  from write_loop_takes [OF this] show ?thesis by auto
qed

text \<open>A socket that is always ready and takes some byte of each \<open>send\<close> gets the whole buffer, in however many pieces.\<close>

lemma write_loop_complete:
  assumes ready: "\<And>s. fst (so_select_write so s) = (1, True)"
    and some: "\<And>bs s. bs \<noteq> [] \<Longrightarrow> \<exists>k. fst (so_send so bs s) = Sent (Suc k)"
    and "write_loop so retry buf tot c s = (n, c1, s1)" "tot < length buf" "0 < retry"
  shows "n = length buf \<and> taken s1 = taken s @ drop tot buf \<and>
    is_connected_flag c1 = is_connected_flag c \<and> has_socket c1 = has_socket c"
  using assms(3-5)
proof (induction "length buf - tot" arbitrary: retry tot c s rule: less_induct)
  case less
  obtain ca sa where t: "sync_write_timeout so c s = (ca, sa)" by fastforce
  obtain sb where sl: "so_select_write so sa = ((1, True), sb)" using ready by (metis prod.collapse)
  obtain k sc where sd: "so_send so (drop tot buf) sb = (Sent (Suc k), sc)"
    using some [of "drop tot buf" sb] less.prems(2) by (metis drop_eq_Nil leD prod.collapse)
  note T = sync_write_timeout_takes [OF t]
  have c: "taken sc = taken s @ take (Suc k) (drop tot buf)" "Suc k \<le> length buf - tot"
    using send_takes [OF sd] T(1) select_takes [OF sl] by simp_all
  show ?case
  proof (cases "length buf \<le> tot + Suc k")
    case True
    with less.prems t sl sd have "n = tot + Suc k" "c1 = ca" "s1 = sc" by (subst (asm) write_loop.simps, simp)+
    moreover have "take (Suc k) (drop tot buf) = drop tot buf" using True by simp
    ultimately show ?thesis using c True T less.prems(2) by simp
  next
    case False
    with less.prems t sl sd have "write_loop so Halow_CLIENT_MAX_WRITE_RETRY buf (tot + Suc k) ca sc = (n, c1, s1)"
      by (subst (asm) write_loop.simps) simp
    moreover have "length buf - (tot + Suc k) < length buf - tot" "tot + Suc k < length buf" using False less.prems(2) by auto
    ultimately have "n = length buf \<and> taken s1 = taken sc @ drop (tot + Suc k) buf \<and>
        is_connected_flag c1 = is_connected_flag ca \<and> has_socket c1 = has_socket ca"
      using less.hyps by (simp add: Halow_CLIENT_MAX_WRITE_RETRY_def)
    moreover have "take (Suc k) (drop tot buf) @ drop (tot + Suc k) buf = drop tot buf"
      using append_take_drop_id [of "Suc k" "drop tot buf"] by (simp add: add.commute)
    ultimately show ?thesis using c(1) T by simp
  qed
qed

lemma client_write_complete:
  assumes "\<And>s. fst (so_select_write so s) = (1, True)" "\<And>bs s. bs \<noteq> [] \<Longrightarrow> \<exists>k. fst (so_send so bs s) = Sent (Suc k)"
    and "client_write so buf c s = (n, c1, s1)" "buf \<noteq> []" "is_connected_flag c" "has_socket c"
  shows "taken s1 = taken s @ buf" "is_connected_flag c1" "has_socket c1"
proof -
  have "write_loop so Halow_CLIENT_MAX_WRITE_RETRY buf 0 c s = (n, c1, s1)"
    using assms(3,5,6) by (simp add: client_write_def)
  from write_loop_complete [OF assms(1,2) this] assms(4-6)
  show "taken s1 = taken s @ buf" "is_connected_flag c1" "has_socket c1"
    by (simp_all add: Halow_CLIENT_MAX_WRITE_RETRY_def)
qed

end

end
