(* ===== verification/Proxy_World.thy ===== *)
theory Proxy_World
  imports Tcp_Proxy Halow_Client
begin

text \<open>
  The proxy on top of the TCP client: the functions of Halow_Client over a socket and the proxy of
  Tcp_Proxy over that client. The two interpretations here discharge the laws of \<open>stream_socket\<close>
  and \<open>proxy_peers\<close>, so that the end-to-end properties of the proxy hold with the code's own receive
  buffer between the socket and the state machine. The network, the mower and the clock do whatever
  an arbitrary \<open>behaviour\<close> says at each tick.
\<close>

section \<open>A TCP socket\<close>

text \<open>
  \<open>queued\<close> are the bytes that arrived and \<open>coming\<close> those still on their way, of which \<open>o_arrive\<close> says how
  many arrive at a call; \<open>taken\<close> is what the socket took for sending; ioctl, \<open>recv\<close>, \<open>select\<close>, \<open>send\<close> and \<open>malloc\<close> may fail.
\<close>

record behaviour =
  o_arrive :: "nat \<Rightarrow> nat \<Rightarrow> nat"
  o_ioctl_fails :: "nat \<Rightarrow> bool"
  o_reset :: "nat \<Rightarrow> bool"
  o_fin :: "nat \<Rightarrow> bool"
  o_probe :: "nat \<Rightarrow> int \<times> errno"
  o_select :: "nat \<Rightarrow> int \<times> bool"
  o_send :: "nat \<Rightarrow> send_result"
  o_malloc :: "nat \<Rightarrow> bool"
  o_timeout :: "nat \<Rightarrow> bool"
  o_client :: "nat \<Rightarrow> u8 list option"
  o_ble_up :: "nat \<Rightarrow> bool"
  o_ble_connect :: "nat \<Rightarrow> bool"
  o_ble_write :: "nat \<Rightarrow> bool"
  o_notified :: "nat \<Rightarrow> u8 list list list"
  o_millis :: "nat \<Rightarrow> u32"
  o_stack :: u8

record tcp =
  queued :: "u8 list"
  coming :: "u8 list"
  tick :: nat
  taken :: "u8 list"

definition tcp_pending :: "tcp \<Rightarrow> u8 list" where "tcp_pending s = queued s @ coming s"
definition tcp_arrived :: "tcp \<Rightarrow> nat" where "tcp_arrived s = length (queued s)"

definition tcp_tick :: "behaviour \<Rightarrow> tcp \<Rightarrow> tcp" where
  "tcp_tick o' s = \<lparr>queued = queued s @ take (o_arrive o' (tick s) (length (coming s))) (coming s),
     coming = drop (o_arrive o' (tick s) (length (coming s))) (coming s), tick = Suc (tick s), taken = taken s\<rparr>"

lemma tcp_tick: "tcp_pending (tcp_tick o' s) = tcp_pending s" "tcp_arrived s \<le> tcp_arrived (tcp_tick o' s)"
  "tick (tcp_tick o' s) = Suc (tick s)"
  by (simp_all add: tcp_tick_def tcp_pending_def tcp_arrived_def)

definition tcp_fionread :: "behaviour \<Rightarrow> tcp \<Rightarrow> nat option \<times> tcp" where
  "tcp_fionread o' s = (if o_ioctl_fails o' (tick s) then None else Some (length (queued (tcp_tick o' s))), tcp_tick o' s)"

definition tcp_recv :: "behaviour \<Rightarrow> nat \<Rightarrow> tcp \<Rightarrow> recv_result \<times> tcp" where
  "tcp_recv o' n s =
     (let s1 = tcp_tick o' s
      in if o_reset o' (tick s) then (Recv_failed E_gone, s1)
         else if queued s1 = [] \<and> \<not> o_fin o' (tick s) then (Recv_failed E_again, s1)
         else (Received (take n (queued s1)), s1\<lparr>queued := drop n (queued s1)\<rparr>))"

definition tcp_send :: "behaviour \<Rightarrow> u8 list \<Rightarrow> tcp \<Rightarrow> send_result \<times> tcp" where
  "tcp_send o' bs s =
     (case o_send o' (tick s) of
        Sent n \<Rightarrow> (Sent (min n (length bs)), (tcp_tick o' s)\<lparr>taken := taken s @ take n bs\<rparr>)
      | Send_failed err \<Rightarrow> (Send_failed err, tcp_tick o' s))"

definition tcp_api :: "behaviour \<Rightarrow> tcp sock_api" where
  "tcp_api o' = \<lparr>so_fionread = tcp_fionread o', so_recv = tcp_recv o',
     so_probe = (\<lambda>s. (o_probe o' (tick s), tcp_tick o' s)),
     so_select_write = (\<lambda>s. (o_select o' (tick s), tcp_tick o' s)),
     so_send = tcp_send o',
     so_set_timeout = (\<lambda>t s. (o_timeout o' (tick s), tcp_tick o' s)),
     so_close = (\<lambda>s. s), so_malloc_ok = (\<lambda>s. (o_malloc o' (tick s), tcp_tick o' s))\<rparr>"

interpretation tcp: stream_socket "tcp_api o'" tcp_pending tcp_arrived
proof unfold_locales
  show "tcp_arrived s \<le> length (tcp_pending s)" for s by (simp add: tcp_arrived_def tcp_pending_def)
  show "tcp_pending s1 = tcp_pending s \<and> tcp_arrived s \<le> tcp_arrived s1 \<and> (\<forall>c. r = Some c \<longrightarrow> c \<le> tcp_arrived s1)"
    if "so_fionread (tcp_api o') s = (r, s1)" for s r s1
    using that tcp_tick by (auto simp: tcp_api_def tcp_fionread_def tcp_arrived_def split: if_splits)
  show "tcp_arrived s \<le> c" if "so_fionread (tcp_api o') s = (Some c, s1)" for s c s1
    using that tcp_tick(2) [of s "o'"] by (auto simp: tcp_api_def tcp_fionread_def tcp_arrived_def split: if_splits)
  show "tcp_pending s = bs @ tcp_pending s1 \<and> length bs \<le> n \<and> min n (tcp_arrived s) \<le> length bs \<and>
      tcp_arrived s \<le> tcp_arrived s1 + length bs"
    if "so_recv (tcp_api o') n s = (Received bs, s1)" for s n bs s1
  proof -
    have "bs = take n (queued (tcp_tick o' s))" "s1 = (tcp_tick o' s)\<lparr>queued := drop n (queued (tcp_tick o' s))\<rparr>"
      using that by (auto simp: tcp_api_def tcp_recv_def Let_def split: if_splits)
    with tcp_tick(1) [of "o'" s] tcp_tick(2) [of s "o'"] show ?thesis
      by (auto simp: tcp_pending_def tcp_arrived_def simp del: append_assoc simp flip: append_assoc)
  qed
  show "tcp_pending s1 = tcp_pending s \<and> tcp_arrived s \<le> tcp_arrived s1 \<and> (0 < n \<and> 0 < tcp_arrived s \<longrightarrow> err \<noteq> E_again)"
    if "so_recv (tcp_api o') n s = (Recv_failed err, s1)" for s n err s1
  proof -
    have "s1 = tcp_tick o' s" "err = E_again \<Longrightarrow> queued s1 = []"
      using that by (auto simp: tcp_api_def tcp_recv_def Let_def split: if_splits)
    with tcp_tick(1) [of "o'" s] tcp_tick(2) [of s "o'"] show ?thesis by (auto simp: tcp_arrived_def)
  qed
next
  show "tcp_pending s1 = tcp_pending s \<and> tcp_arrived s \<le> tcp_arrived s1" if "so_send (tcp_api o') bs s = (r, s1)" for s bs r s1
    using that tcp_tick(1) [of "o'" s] tcp_tick(2) [of s "o'"]
    by (auto simp: tcp_api_def tcp_send_def tcp_pending_def tcp_arrived_def split: send_result.splits)
qed (auto simp: tcp_api_def tcp_tick)

lemma tcp_tick_taken: "taken (tcp_tick o' s) = taken s"
  by (simp add: tcp_tick_def)

interpretation tcp_out: output_socket "tcp_api o'" taken
proof unfold_locales
  show "n \<le> length bs \<and> taken s1 = taken s @ take n bs" if "so_send (tcp_api o') bs s = (Sent n, s1)" for bs s n s1
    using that by (auto simp: tcp_api_def tcp_send_def min_def split: send_result.splits)
  show "taken s1 = taken s" if "so_send (tcp_api o') bs s = (Send_failed err, s1)" for bs s err s1
    using that by (auto simp: tcp_api_def tcp_send_def tcp_tick_taken split: send_result.splits)
qed (auto simp: tcp_api_def tcp_tick_taken)

section \<open>The peers of the proxy\<close>

text \<open>
  \<open>w_accepted\<close> records what the mower accepted. A client whose buffer breaks the invariant of
  \<open>client_wf\<close> is no client of the code; it counts as stopped.
\<close>

record world =
  w_client :: halow_client
  w_tcp :: tcp
  w_accepted :: "u8 list list"
  w_tick :: nat

definition w_real :: "world \<Rightarrow> halow_client" where
  "w_real w = (if client_wf (w_client w) then w_client w else (w_client w)\<lparr>rx := None, is_connected_flag := False\<rparr>)"

definition w_unread :: "world \<Rightarrow> u8 list" where
  "w_unread w = client_rest (w_real w) @ tcp_pending (w_tcp w)"

definition w_stopped :: "world \<Rightarrow> bool" where
  "w_stopped w = (rx (w_real w) = None)"

definition w_put :: "world \<Rightarrow> halow_client \<times> tcp \<Rightarrow> world" where
  "w_put w cs = w\<lparr>w_client := fst cs, w_tcp := snd cs\<rparr>"

lemma w_real_wf: "client_wf (w_real w)"
  by (simp add: w_real_def client_wf_def)

lemma w_put:
  assumes "client_wf c"
  shows "w_real (w_put w (c, s)) = c" "w_tcp (w_put w (c, s)) = s" "w_accepted (w_put w (c, s)) = w_accepted w"
    "w_unread (w_put w (c, s)) = client_rest c @ tcp_pending s" "w_stopped (w_put w (c, s)) = (rx c = None)"
  using assms by (simp_all add: w_put_def w_real_def w_unread_def w_stopped_def)

text \<open>The calls of the proxy on its client, which is \<open>HalowClient\<close>; a read that does not end returns nothing.\<close>

definition w_read :: "behaviour \<Rightarrow> nat \<Rightarrow> world \<Rightarrow> (int \<times> u8 list) \<times> world" where
  "w_read o' n w =
     (case client_read (tcp_api o') n (w_real w) (w_tcp w) of
        None \<Rightarrow> ((-1, []), w)
      | Some (res, cs) \<Rightarrow> (res, w_put w cs))"

definition w_net :: "behaviour \<Rightarrow> world net_env" where
  "w_net o' = \<lparr>
     nc_connected = (\<lambda>w. let r = client_connected (tcp_api o') (w_real w) (w_tcp w) in (fst r, w_put w (snd r))),
     nc_available = (\<lambda>w. let r = client_available (tcp_api o') (w_real w) (w_tcp w) in (fst r, w_put w (snd r))),
     nc_read = w_read o',
     nc_write = (\<lambda>bs w. w_put w (snd (client_write (tcp_api o') bs (w_real w) (w_tcp w)))),
     nc_set_no_delay = (\<lambda>w. w),
     nc_stop = (\<lambda>w. w_put w (client_stop (tcp_api o') (w_real w) (w_tcp w))),
     server_accept = (\<lambda>w. case o_client o' (w_tick w) of
        None \<Rightarrow> (False, w\<lparr>w_tick := Suc (w_tick w)\<rparr>)
      | Some bs \<Rightarrow> (True, w\<lparr>w_client := HalowClient_fd 0 0,
                          w_tcp := \<lparr>queued = [], coming = bs, tick = tick (w_tcp w), taken = []\<rparr>, w_tick := Suc (w_tick w)\<rparr>)),
     uninit_byte = o_stack o'\<rparr>"

definition w_ble :: "behaviour \<Rightarrow> world ble_env" where
  "w_ble o' = \<lparr>
     is_connected = (\<lambda>w. o_ble_up o' (w_tick w)),
     connect_mower = (\<lambda>w. (o_ble_connect o' (w_tick w), w\<lparr>w_tick := Suc (w_tick w)\<rparr>)),
     disconnect_mower = (\<lambda>w. w\<lparr>w_tick := Suc (w_tick w)\<rparr>),
     ble_write = (\<lambda>f w. let ok = o_ble_write o' (w_tick w)
        in (ok, w\<lparr>w_accepted := w_accepted w @ (if ok then [f] else []), w_tick := Suc (w_tick w)\<rparr>)),
     notified = (\<lambda>w. o_notified o' (w_tick w))\<rparr>"

definition w_clock :: "behaviour \<Rightarrow> world clock_env" where
  "w_clock o' = \<lparr>
     millis = (\<lambda>w. (o_millis o' (w_tick w), w\<lparr>w_tick := Suc (w_tick w)\<rparr>)),
     delay = (\<lambda>d w. w\<lparr>w_tick := w_tick w + unat d\<rparr>)\<rparr>"

lemma w_tick_keeps:
  "w_accepted (w\<lparr>w_tick := t\<rparr>) = w_accepted w" "w_stopped (w\<lparr>w_tick := t\<rparr>) = w_stopped w"
  "w_unread (w\<lparr>w_tick := t\<rparr>) = w_unread w"
  "w_stopped (w\<lparr>w_accepted := a, w_tick := t\<rparr>) = w_stopped w"
  "w_unread (w\<lparr>w_accepted := a, w_tick := t\<rparr>) = w_unread w"
  by (simp_all add: w_stopped_def w_unread_def w_real_def)


interpretation world: proxy_peers "w_net o'" "w_ble o'" "w_clock o'" w_unread w_accepted w_stopped
proof unfold_locales
  fix w w1 :: world and b
  assume "nc_connected (w_net o') w = (b, w1)"
  moreover obtain c s where r: "client_connected (tcp_api o') (w_real w) (w_tcp w) = (b, c, s)"
    using calculation by (cases "client_connected (tcp_api o') (w_real w) (w_tcp w)") (simp add: w_net_def)
  ultimately have w1: "w1 = w_put w (c, s)" by (simp add: w_net_def)
  from tcp.client_connected_spec [OF w_real_wf r]
  show "w_accepted w1 = w_accepted w \<and> w_stopped w1 = w_stopped w \<and> w_unread w1 = w_unread w \<and> (b \<longrightarrow> \<not> w_stopped w)"
    by (auto simp: w1 w_put w_stopped_def w_unread_def client_rest_def)
next
  fix w w1 :: world and a
  assume "nc_available (w_net o') w = (a, w1)"
  moreover obtain c s where r: "client_available (tcp_api o') (w_real w) (w_tcp w) = (a, c, s)"
    using calculation by (cases "client_available (tcp_api o') (w_real w) (w_tcp w)") (simp add: w_net_def)
  ultimately have w1: "w1 = w_put w (c, s)" by (simp add: w_net_def)
  note A = tcp.client_available_spec [OF w_real_wf r]
  have "a \<le> int (length (w_unread w))" if "rx c \<noteq> None"
  proof -
    from that A have "w_unread w = client_rest c @ tcp_pending s" by (simp add: w_unread_def)
    then have "length (w_unread w) = length (client_rest c) + length (tcp_pending s)" by simp
    with that A tcp.arrived_le [of s] show ?thesis by linarith
  qed
  with A show "w_accepted w1 = w_accepted w \<and> (w_stopped w \<longrightarrow> w_stopped w1 \<and> a \<le> 0) \<and>
      (\<not> w_stopped w1 \<longrightarrow> w_unread w1 = w_unread w \<and> a \<le> int (length (w_unread w)))"
    by (auto simp: w1 w_put w_stopped_def w_unread_def)
next
  fix w w1 w2 :: world and a n r bs
  assume av: "nc_available (w_net o') w = (a, w1)" and n: "0 < n" "int n \<le> a" and rd: "nc_read (w_net o') n w1 = ((r, bs), w2)"
  obtain c s where c: "client_available (tcp_api o') (w_real w) (w_tcp w) = (a, c, s)"
    using av by (cases "client_available (tcp_api o') (w_real w) (w_tcp w)") (simp add: w_net_def)
  with av have w1: "w1 = w_put w (c, s)" by (simp add: w_net_def)
  note A = tcp.client_available_spec [OF w_real_wf c]
  then have wf: "client_wf c" by simp
  obtain c1 s1 where d: "client_read (tcp_api o') n c s = Some ((r, bs), c1, s1)" and w2: "w2 = w_put w1 (c1, s1)"
    using rd tcp.client_read_spec [OF wf n(1), of o' s] by (auto simp: w_net_def w_read_def w1 w_put [OF wf])
  have D: "client_wf c1" "rx c = None \<longrightarrow> rx c1 = None \<and> r = -1"
    "0 < r \<longrightarrow> r = int (length bs) \<and> length bs \<le> n \<and>
       (\<exists>rest. client_rest c @ tcp_pending s = bs @ rest \<and> (rx c1 \<noteq> None \<longrightarrow> client_rest c1 @ tcp_pending s1 = rest))"
    "rx c1 \<noteq> None \<and> n \<le> length (client_rest c) + tcp_arrived s \<longrightarrow> r = int n"
    using tcp.client_read_spec [OF wf n(1), of o' s] d by auto
  have "rx c1 \<noteq> None \<longrightarrow> r = int n" using D(2,4) A n by fastforce
  moreover have le: "rx c = None \<longrightarrow> rx c1 = None \<and> r \<le> 0" using D(2) by auto
  ultimately show "w_accepted w2 = w_accepted w \<and> (w_stopped w1 \<longrightarrow> w_stopped w2 \<and> r \<le> 0) \<and> (\<not> w_stopped w2 \<longrightarrow> r = int n) \<and>
      (0 < r \<longrightarrow> r = int (length bs) \<and> length bs \<le> n \<and>
         (\<exists>rest. w_unread w1 = bs @ rest \<and> (\<not> w_stopped w2 \<longrightarrow> w_unread w2 = rest)))"
    unfolding w2 w1 w_put [OF wf] w_put [OF D(1)] using D(3) le by blast
next
  fix w :: world and bs
  obtain n c s where r: "client_write (tcp_api o') bs (w_real w) (w_tcp w) = (n, c, s)" by (metis prod_cases3)
  have K: "client_wf c" "rx (w_real w) = None \<longrightarrow> rx c = None"
    "rx c \<noteq> None \<longrightarrow> client_rest c @ tcp_pending s = w_unread w"
    using tcp.client_write_keeps [OF r] w_real_wf
    unfolding tcp.keeps_unread_def w_unread_def client_rest_def by metis+
  have w: "nc_write (w_net o') bs w = w_put w (c, s)" by (simp add: w_net_def r)
  show "w_accepted (nc_write (w_net o') bs w) = w_accepted w" by (simp add: w w_put_def)
  show "w_stopped w \<Longrightarrow> w_stopped (nc_write (w_net o') bs w)" using K by (simp add: w w_put) (simp add: w_stopped_def)
  show "\<not> w_stopped (nc_write (w_net o') bs w) \<Longrightarrow> w_unread (nc_write (w_net o') bs w) = w_unread w"
    unfolding w w_put [OF K(1)] using K(3) by blast
next
  fix w :: world
  show "w_accepted (nc_stop (w_net o') w) = w_accepted w" by (simp add: w_net_def w_put_def)
  show "w_stopped (nc_stop (w_net o') w)"
    using client_stop_spec [of "tcp_api o'" "w_real w" "w_tcp w"]
    by (cases "client_stop (tcp_api o') (w_real w) (w_tcp w)") (simp add: w_net_def w_put)
next
  fix w w1 :: world and t
  assume "millis (w_clock o') w = (t, w1)"
  then have "w1 = w\<lparr>w_tick := Suc (w_tick w)\<rparr>" by (simp add: w_clock_def)
  then show "w_accepted w1 = w_accepted w \<and> w_stopped w1 = w_stopped w \<and> w_unread w1 = w_unread w"
    by (simp add: w_tick_keeps)
next
  fix w :: world and d
  have w: "delay (w_clock o') d w = w\<lparr>w_tick := w_tick w + unat d\<rparr>" by (simp add: w_clock_def)
  show "w_accepted (delay (w_clock o') d w) = w_accepted w" "w_stopped (delay (w_clock o') d w) = w_stopped w"
    "w_unread (delay (w_clock o') d w) = w_unread w"
    by (simp_all only: w w_tick_keeps)
next
  fix w w1 :: world and f ok
  assume "ble_write (w_ble o') f w = (ok, w1)"
  then have "ok = o_ble_write o' (w_tick w)"
    "w1 = w\<lparr>w_accepted := w_accepted w @ (if ok then [f] else []), w_tick := Suc (w_tick w)\<rparr>"
    by (auto simp: w_ble_def Let_def)
  then show "w_accepted w1 = w_accepted w @ (if ok then [f] else []) \<and> w_stopped w1 = w_stopped w \<and> w_unread w1 = w_unread w"
    by (simp add: w_stopped_def w_unread_def w_real_def)
next
  fix w w1 :: world and up
  assume "connect_mower (w_ble o') w = (up, w1)"
  then have "w1 = w\<lparr>w_tick := Suc (w_tick w)\<rparr>" by (simp add: w_ble_def)
  then show "w_accepted w1 = w_accepted w \<and> w_stopped w1 = w_stopped w \<and> w_unread w1 = w_unread w"
    by (simp add: w_tick_keeps)
next
  fix w :: world
  show "w_accepted (disconnect_mower (w_ble o') w) = w_accepted w" by (simp add: w_ble_def)
qed

section \<open>The proxy end to end\<close>

text \<open>A client that the server just handed out has read nothing yet.\<close>

lemma w_unread_new: "w_client w = HalowClient_fd r t \<Longrightarrow> w_unread w = tcp_pending (w_tcp w)"
  by (simp add: w_unread_def w_real_def HalowClient_fd_def client_wf_def client_rest_def rb_new)

text \<open>When all that is on its way arrives at once, \<open>available\<close> counts the whole rest of the stream.\<close>

lemma w_available_all:
  assumes all: "\<And>k n. n \<le> o_arrive o' k n"
    and av: "nc_available (w_net o') w = (a, w1)" and on: "\<not> w_stopped w1"
  shows "a = int (length (w_unread w1))"
proof -
  obtain c s where r: "client_available (tcp_api o') (w_real w) (w_tcp w) = (a, c, s)" and w1: "w1 = w_put w (c, s)"
    using av by (cases "client_available (tcp_api o') (w_real w) (w_tcp w)") (auto simp: w_net_def)
  have wf: "client_wf c" using tcp.client_available_spec [OF w_real_wf r] by simp
  have "rx c \<noteq> None" using on by (simp add: w1 w_put [OF wf])
  with r obtain b where b: "rx (w_real w) = Some b" "rb_failed b = False" "rx c = Some b"
      "s = tcp_tick o' (w_tcp w)" "a = int (rb_fill b - rb_pos b + length (queued s))"
    using client_stop_spec(2)
    by (cases "rx (w_real w)")
      (fastforce simp: client_available_def rb_available_def r_available_def after_buffer_def tcp_api_def
        tcp_fionread_def client_stop_def split: if_splits)+
  have "coming s = []" using all by (simp add: b(4) tcp_tick_def)
  moreover have "length (rb_rest b) = rb_fill b - rb_pos b"
    using wf b(3) by (intro rb_rest_length) (simp add: client_wf_def)
  ultimately show ?thesis by (simp add: w1 w_put [OF wf] client_rest_def b(3,5) tcp_pending_def)
qed

section \<open>A calm run\<close>

text \<open>
  One behaviour and one run of it, for the witnesses: everything arrives, every call succeeds, and the
  client sends the frame of the byte 7.
\<close>

definition calm :: behaviour where
  "calm = \<lparr>o_arrive = (\<lambda>k n. n), o_ioctl_fails = (\<lambda>_. False), o_reset = (\<lambda>_. False), o_fin = (\<lambda>_. False),
     o_probe = (\<lambda>_. (-1, E_again)), o_select = (\<lambda>_. (1, True)), o_send = (\<lambda>_. Sent 1), o_malloc = (\<lambda>_. True),
     o_timeout = (\<lambda>_. True), o_client = (\<lambda>_. Some [0, 1, 7]), o_ble_up = (\<lambda>_. True), o_ble_connect = (\<lambda>_. True),
     o_ble_write = (\<lambda>_. True), o_notified = (\<lambda>_. []), o_millis = (\<lambda>_. 0), o_stack = 0\<rparr>"

definition calm_world :: "rx_buffer \<Rightarrow> int \<Rightarrow> u8 list \<Rightarrow> u8 list \<Rightarrow> nat \<Rightarrow> nat \<Rightarrow> u8 list list \<Rightarrow> world" where
  "calm_world b rt q c k t acc =
     \<lparr>w_client = (HalowClient_fd rt 0)\<lparr>rx := Some b\<rparr>, w_tcp = \<lparr>queued = q, coming = c, tick = k, taken = []\<rparr>,
      w_accepted = acc, w_tick = t\<rparr>"

definition filled :: "u8 list \<Rightarrow> nat \<Rightarrow> rx_buffer" where
  "filled bs p = \<lparr>rb_size = 1436, rb_buffer = Some (bs @ replicate (1436 - length bs) 0), rb_pos = p,
     rb_fill = length bs, rb_failed = False\<rparr>"

definition calm_proxy :: "rx_state \<Rightarrow> u16 \<Rightarrow> u16 \<Rightarrow> u8 list \<Rightarrow> tcp_proxy" where
  "calm_proxy r n h bs =
     (TcpProxy True)\<lparr>ble_open := True, rx_state := r, rx_len := n, rx_have := h, rx_buf := bs\<rparr>"

lemma calm_world_simps:
  "rb_wf b \<Longrightarrow> w_real (calm_world b rt q c k t acc) = (HalowClient_fd rt 0)\<lparr>rx := Some b\<rparr>"
  "w_tcp (calm_world b rt q c k t acc) = \<lparr>queued = q, coming = c, tick = k, taken = []\<rparr>"
  "w_put (calm_world b rt q c k t acc) ((HalowClient_fd rt2 0)\<lparr>rx := Some b2\<rparr>, \<lparr>queued = q2, coming = c2, tick = k2, taken = []\<rparr>) =
     calm_world b2 rt2 q2 c2 k2 t acc"
  "(calm_world b rt q c k t acc)\<lparr>w_accepted := acc2\<rparr> = calm_world b rt q c k t acc2"
  "(calm_world b rt q c k t acc)\<lparr>w_tick := t2\<rparr> = calm_world b rt q c k t2 acc"
  "w_tick (calm_world b rt q c k t acc) = t" "w_accepted (calm_world b rt q c k t acc) = acc"
  by (simp_all add: calm_world_def w_real_def client_wf_def w_put_def)

lemma tcp_api_simps: "so_fionread (tcp_api o') = tcp_fionread o'" "so_recv (tcp_api o') = tcp_recv o'"
  "so_set_timeout (tcp_api o') d s = (o_timeout o' (tick s), tcp_tick o' s)"
  "so_malloc_ok (tcp_api o') s = (o_malloc o' (tick s), tcp_tick o' s)"
  "so_probe (tcp_api o') s = (o_probe o' (tick s), tcp_tick o' s)"
  by (simp_all add: tcp_api_def)

lemma calm_simps: "\<not> o_ioctl_fails calm k" "\<not> o_reset calm k" "\<not> o_fin calm k" "o_malloc calm k" "o_timeout calm k"
  "o_probe calm k = (-1, E_again)" "o_arrive calm k n = n"
  "is_connected (w_ble calm) w" "connect_mower (w_ble calm) w = (True, w\<lparr>w_tick := Suc (w_tick w)\<rparr>)"
  "ble_write (w_ble calm) f w = (True, w\<lparr>w_accepted := w_accepted w @ [f], w_tick := Suc (w_tick w)\<rparr>)"
  "millis (w_clock calm) w = (0, w\<lparr>w_tick := Suc (w_tick w)\<rparr>)" "uninit_byte (w_net calm) = 0"
  by (simp_all add: calm_def w_ble_def w_clock_def w_net_def)

lemma rx_buffer_simps:
  "rb_size HalowClientRxBuffer = 1436" "rb_pos HalowClientRxBuffer = 0" "rb_fill HalowClientRxBuffer = 0"
  "rb_failed HalowClientRxBuffer = False" "rb_buffer HalowClientRxBuffer = None"
  "rb_size (filled bs p) = 1436" "rb_pos (filled bs p) = p" "rb_fill (filled bs p) = length bs"
  "rb_failed (filled bs p) = False" "rb_buffer (filled bs p) = Some (bs @ replicate (1436 - length bs) 0)"
  by (simp_all add: HalowClientRxBuffer_def filled_def)

lemma filled_wf: "p \<le> length bs \<Longrightarrow> length bs \<le> 1436 \<Longrightarrow> rb_wf (filled bs p)"
  by (simp add: filled_def rb_wf_def)

lemmas calm_run = calm_world_simps tcp_api_simps calm_simps rx_buffer_simps rb_new filled_wf
  tcp_fionread_def tcp_tick_def tcp_recv_def Let_def

lemma calm_connected:
  "nc_connected (w_net calm) (calm_world HalowClientRxBuffer rt q c k t acc) =
     (True, calm_world HalowClientRxBuffer rt (q @ c) [] (Suc k) t acc)"
  by (simp add: w_net_def calm_run client_connected_def)
     (simp add: HalowClient_fd_def calm_run calm_world_def w_put_def)

lemma calm_available:
  "nc_available (w_net calm) (calm_world HalowClientRxBuffer rt q c k t acc) =
     (int (length q + length c), calm_world HalowClientRxBuffer rt (q @ c) [] (Suc k) t acc)"
  "p \<le> length bs \<Longrightarrow> length bs \<le> 1436 \<Longrightarrow> nc_available (w_net calm) (calm_world (filled bs p) rt q c k t acc) =
     (int (length bs - p + length q + length c), calm_world (filled bs p) rt (q @ c) [] (Suc k) t acc)"
  by (simp_all add: w_net_def calm_run client_available_def rb_available_def r_available_def after_buffer_def)

lemma calm_fill:
  "length q \<le> 1436 \<Longrightarrow> q \<noteq> [] \<Longrightarrow> fillBuffer (tcp_api calm) HalowClientRxBuffer \<lparr>queued = q, coming = [], tick = k, taken = []\<rparr> =
     (length q, filled q 0, \<lparr>queued = [], coming = [], tick = k + 3, taken = []\<rparr>)"
  by (simp add: fillBuffer_def fill_recv_def rb_rewind_def r_available_def calm_run)

lemma calm_rb_read:
  "p + n \<le> length bs \<Longrightarrow> 0 < n \<Longrightarrow>
     rb_read (tcp_api calm) n (filled bs p) s = Some ((int n, take n (drop p bs)), filled bs (p + n), s)"
  by (auto simp: rb_read_def rb_copy_def rb_take_def filled_def Let_def)

lemma calm_rb_read_new:
  assumes "length q \<le> 1436" "0 < n" "n \<le> length q"
  shows "rb_read (tcp_api calm) n HalowClientRxBuffer \<lparr>queued = q, coming = [], tick = k, taken = []\<rparr> =
     Some ((int n, take n q), filled q n, \<lparr>queued = [], coming = [], tick = k + 3, taken = []\<rparr>)"
proof -
  have "q \<noteq> []" using assms by auto
  with assms show ?thesis
    by (simp add: rb_read_def rb_copy_def rb_take_def rx_buffer_simps calm_fill Let_def filled_def)
qed

lemma calm_read:
  "length q \<le> 1436 \<Longrightarrow> 0 < n \<Longrightarrow> n \<le> length q \<Longrightarrow>
     nc_read (w_net calm) n (calm_world HalowClientRxBuffer 0 q [] k t acc) =
     ((int n, take n q), calm_world (filled q n) 3000 [] [] (k + 4) t acc)"
  "length bs \<le> 1436 \<Longrightarrow> p + n \<le> length bs \<Longrightarrow> 0 < n \<Longrightarrow>
     nc_read (w_net calm) n (calm_world (filled bs p) 3000 [] [] k t acc) =
     ((int n, take n (drop p bs)), calm_world (filled bs (p + n)) 3000 [] [] k t acc)"
  by (simp_all add: w_net_def w_read_def client_read_def sync_read_timeout_def calm_run)
     (simp_all add: HalowClient_fd_def Halow_CLIENT_DEF_CONN_TIMEOUT_MS_def calm_run calm_rb_read calm_rb_read_new after_buffer_def
        calm_world_def w_put_def)

lemma calm_first_turn:
  assumes "q @ c = [0, 1, 7]"
  shows "poll_wait_len (w_net calm) (calm_proxy WAIT_LEN 0 0 []) (calm_world HalowClientRxBuffer 0 q c k t acc) =
     (Fall, calm_proxy READ_DATA 1 0 [0], calm_world (filled [0, 1, 7] 2) 3000 [] [] (k + 5) t acc)"
proof -
  have "length (q @ c) = 3" by (simp only: assms) simp
  then have "int (length q) + int (length c) = 3" by simp
  then have "nc_available (w_net calm) (calm_world HalowClientRxBuffer 0 q c k t acc) =
      (3, calm_world HalowClientRxBuffer 0 [0, 1, 7] [] (Suc k) t acc)"
    by (simp add: calm_available assms)
  then show ?thesis
    by (simp add: poll_wait_len_def Let_def calm_read calm_proxy_def TcpProxy_def header_len_def MAX_FRAME_LEN_def)
       (simp add: numeral_eq_Suc)
qed

lemma calm_turns:
  "poll_read_data (w_net calm) (w_clock calm) (calm_proxy READ_DATA 1 0 [0]) (calm_world (filled [0, 1, 7] 2) 3000 [] [] k t acc) =
     (Fall, calm_proxy WRITE_PENDING 1 1 [7], calm_world (filled [0, 1, 7] 3) 3000 [] [] (k + 1) (t + 1) acc)"
  "poll_write_pending (w_net calm) (w_ble calm) (w_clock calm) (calm_proxy WRITE_PENDING 1 1 [7])
       (calm_world (filled [0, 1, 7] 3) 3000 [] [] k t acc) =
     (Again, calm_proxy WAIT_LEN 0 0 [7], calm_world (filled [0, 1, 7] 3) 3000 [] [] k (t + 2) (acc @ [[7]]))"
  "poll_wait_len (w_net calm) (calm_proxy WAIT_LEN 0 0 [7]) (calm_world (filled [0, 1, 7] 3) 3000 [] [] k t acc) =
     (Return, calm_proxy WAIT_LEN 0 0 [7], calm_world (filled [0, 1, 7] 3) 3000 [] [] (k + 1) t acc)"
  by (simp_all add: poll_read_data_def poll_write_pending_def poll_wait_len_def try_write_pending_def
    BLE_WRITE_RETRY_BURST_def calm_available calm_read calm_proxy_def TcpProxy_def calm_run numeral_eq_Suc)

lemma calm_poll:
  assumes "q @ c = [0, 1, 7]"
  shows "poll_socket (w_net calm) (w_ble calm) (w_clock calm) (calm_proxy WAIT_LEN 0 0 []) (calm_world HalowClientRxBuffer 0 q c k t acc) =
    Some (calm_proxy WAIT_LEN 0 0 [7], calm_world (filled [0, 1, 7] 3) 3000 [] [] (7 + k) (Suc (Suc (Suc t))) (acc @ [[7]]))"
  by (subst poll_socket.simps, simp add: poll_turn_def calm_first_turn [OF assms] calm_turns)
     (subst poll_socket.simps, simp add: poll_turn_def calm_turns)

lemma calm_start:
  "proxy_reach (w_net calm) (w_ble calm) (w_clock calm) (TcpProxy True) (calm_world HalowClientRxBuffer 0 [] c k t acc)
     (calm_proxy WAIT_LEN 0 0 []) (calm_world HalowClientRxBuffer 0 [] c k (t + 2) acc)"
  by (rule reach_start) (simp add: on_client_connected_def calm_run calm_proxy_def TcpProxy_def)

lemma calm_loop:
  "proxy_reach (w_net calm) (w_ble calm) (w_clock calm) (TcpProxy True) (calm_world HalowClientRxBuffer 0 [] [0, 1, 7] 0 0 [])
     (calm_proxy WAIT_LEN 0 0 [7]) (calm_world (filled [0, 1, 7] 3) 3000 [] [] 8 6 [[7]])"
proof (rule reach_loop [OF calm_start [of "[0, 1, 7]" 0 0 "[]"]])
  show "proxy_loop (w_net calm) (w_ble calm) (w_clock calm) (calm_proxy WAIT_LEN 0 0 [])
      (calm_world HalowClientRxBuffer 0 [] [0, 1, 7] 0 (0 + 2) []) =
    Some (calm_proxy WAIT_LEN 0 0 [7], calm_world (filled [0, 1, 7] 3) 3000 [] [] 8 6 [[7]])"
    using calm_poll [of "[0, 1, 7]" "[]" "Suc 0" "Suc (Suc (Suc 0))" "[]"]
    by (simp add: proxy_loop_def calm_connected calm_run)
       (simp add: calm_proxy_def TcpProxy_def drain_notify_queue_def drain_queue_fold CLIENT_IDLE_TIMEOUT_MS_def numeral_eq_Suc)
qed (simp add: calm_connected)

section \<open>The properties\<close>

text \<open>
  C2: Whatever the network, the mower and the clock do (bytes in any portions, failing socket calls,
  congested BLE writes, idle stops), at each moment of a connection the mower has accepted exactly
  the first frames of the client's TCP stream: none lost, none twice, none reordered, none cut. Each
  round of the proxy's loop on a connected client returns.
\<close>

theorem proxy_lossless:
  assumes "w_client w0 = HalowClient_fd r t"
    and "proxy_reach (w_net o') (w_ble o') (w_clock o') st0 w0 st w"
  shows "(\<exists>sent. w_accepted w = w_accepted w0 @ sent \<and> prefix sent (fst (deframe (tcp_pending (w_tcp w0))))) \<and>
    (fst (nc_connected (w_net o') w) \<longrightarrow> (\<exists>res. proxy_loop (w_net o') (w_ble o') (w_clock o') st w = Some res))"
  using world.lossless [OF assms(2)] by (simp add: w_unread_new [OF assms(1)])

lemma proxy_lossless_witness:
  "proxy_reach (w_net calm) (w_ble calm) (w_clock calm) (TcpProxy True)
       (calm_world HalowClientRxBuffer 0 [] [0, 1, 7] 0 0 [])
       (calm_proxy WAIT_LEN 0 0 [7]) (calm_world (filled [0, 1, 7] 3) 3000 [] [] 8 6 [[7]]) \<and>
   (\<exists>sent. [[7]] = [] @ sent \<and> prefix sent (fst (deframe [0, 1, 7])))"
proof -
  have "w_client (calm_world HalowClientRxBuffer 0 [] [0, 1, 7] 0 0 []) = HalowClient_fd 0 0"
    by (simp add: calm_world_def HalowClient_fd_def)
  from proxy_lossless [OF this calm_loop] calm_loop show ?thesis
    by (simp only: calm_world_simps tcp_pending_def tcp.select_convs append_Nil)
qed

text \<open>
  C11: When nothing of the client's stream is delayed in the network, a poll of a connection that ends
  without a stop and without a frame waiting for BLE has passed on every complete frame of the stream.
\<close>

theorem proxy_delivers:
  assumes "w_client w0 = HalowClient_fd r t" and "\<And>k n. n \<le> o_arrive o' k n"
    and "proxy_reach (w_net o') (w_ble o') (w_clock o') st0 w0 st w"
    and "poll_socket (w_net o') (w_ble o') (w_clock o') st w = Some (st1, w1)"
    and "\<not> w_stopped w1" and "rx_state st1 \<noteq> WRITE_PENDING"
  shows "w_accepted w1 = w_accepted w0 @ fst (deframe (tcp_pending (w_tcp w0)))"
  using world.delivers [OF assms(3) w_available_all [OF assms(2)] assms(4-6)] by (simp add: w_unread_new [OF assms(1)])

lemma proxy_delivers_witness:
  "poll_socket (w_net calm) (w_ble calm) (w_clock calm) (calm_proxy WAIT_LEN 0 0 [])
       (calm_world HalowClientRxBuffer 0 [] [0, 1, 7] 0 2 []) =
     Some (calm_proxy WAIT_LEN 0 0 [7], calm_world (filled [0, 1, 7] 3) 3000 [] [] 7 5 [[7]]) \<and>
   [[7]] = [] @ fst (deframe [0, 1, 7])"
proof -
  let ?w = "calm_world HalowClientRxBuffer 0 [] [0, 1, 7] 0 0 []" and ?w1 = "calm_world (filled [0, 1, 7] 3) 3000 [] [] 7 5 [[7]]"
  have new: "w_client ?w = HalowClient_fd 0 0" by (simp add: calm_world_def HalowClient_fd_def)
  have all: "n \<le> o_arrive calm k n" for k n by (simp add: calm_simps)
  have reach: "proxy_reach (w_net calm) (w_ble calm) (w_clock calm) (TcpProxy True) ?w
      (calm_proxy WAIT_LEN 0 0 []) (calm_world HalowClientRxBuffer 0 [] [0, 1, 7] 0 2 [])"
    using calm_start [of "[0, 1, 7]" 0 0 "[]"] by (simp add: numeral_2_eq_2)
  have poll: "poll_socket (w_net calm) (w_ble calm) (w_clock calm) (calm_proxy WAIT_LEN 0 0 [])
      (calm_world HalowClientRxBuffer 0 [] [0, 1, 7] 0 2 []) = Some (calm_proxy WAIT_LEN 0 0 [7], ?w1)"
    using calm_poll [of "[]" "[0, 1, 7]" 0 2 "[]"] by simp
  have "\<not> w_stopped ?w1" by (simp add: w_stopped_def calm_world_simps filled_wf)
  from proxy_delivers [OF new all reach poll this] poll show ?thesis
    by (simp add: calm_proxy_def tcp_pending_def calm_world_simps)
qed

section \<open>Notifications\<close>

lemma w_write_takes:
  "\<exists>x. taken (w_tcp (nc_write (w_net o') bs w)) = taken (w_tcp w) @ x \<and> prefix x bs"
proof -
  obtain n c s where "client_write (tcp_api o') bs (w_real w) (w_tcp w) = (n, c, s)" by (metis prod_cases3)
  with tcp_out.client_write_takes [OF this] show ?thesis by (auto simp: w_net_def w_put_def take_is_prefix)
qed

lemma w_connected_takes: "taken (w_tcp (snd (nc_connected (w_net o') w))) = taken (w_tcp w)"
proof -
  obtain b c s where "client_connected (tcp_api o') (w_real w) (w_tcp w) = (b, c, s)" by (metis prod_cases3)
  with tcp_out.client_connected_takes [OF this] show ?thesis by (simp add: w_net_def w_put_def Let_def)
qed

lemma send_frame_takes:
  "\<exists>cs. taken (w_tcp (send_frame (w_net o') f w)) = taken (w_tcp w) @ concat cs \<and> list_all2 prefix cs (frame_writes f)"
proof -
  obtain up w1 where c: "nc_connected (w_net o') w = (up, w1)" by fastforce
  then have w1: "taken (w_tcp w1) = taken (w_tcp w)" using w_connected_takes [of o' w] by simp
  show ?thesis
  proof (cases up)
    case False
    with c w1 show ?thesis by (intro exI [of _ "[[], []]"]) (simp add: send_frame_def frame_writes_def)
  next
    case True
    define h :: "u8 list" where "h = [of_nat (length f div 256 mod 256), of_nat (length f mod 256)]"
    obtain x where x: "taken (w_tcp (nc_write (w_net o') h w1)) = taken (w_tcp w1) @ x" "prefix x h"
      using w_write_takes by blast
    obtain y where "taken (w_tcp (nc_write (w_net o') f (nc_write (w_net o') h w1))) =
        taken (w_tcp (nc_write (w_net o') h w1)) @ y" "prefix y f"
      using w_write_takes by blast
    with x c w1 True show ?thesis
      by (intro exI [of _ "[x, y]"]) (simp add: send_frame_def frame_writes_def flip: h_def)
  qed
qed

lemma send_frames_take:
  "\<exists>cs. taken (w_tcp (fold (send_frame (w_net o')) fs w)) = taken (w_tcp w) @ concat cs \<and>
     list_all2 prefix cs (concat (map frame_writes fs))"
proof (induction fs arbitrary: w)
  case (Cons f fs)
  obtain cs where cs: "taken (w_tcp (send_frame (w_net o') f w)) = taken (w_tcp w) @ concat cs" "list_all2 prefix cs (frame_writes f)"
    using send_frame_takes by blast
  obtain ds where "taken (w_tcp (fold (send_frame (w_net o')) (f # fs) w)) = taken (w_tcp (send_frame (w_net o') f w)) @ concat ds"
    "list_all2 prefix ds (concat (map frame_writes fs))" using Cons.IH [of "send_frame (w_net o') f w"] by auto
  with cs show ?case by (intro exI [of _ "cs @ ds"]) (simp add: list_all2_appendI)
qed simp

text \<open>
  A network that never breaks: \<open>select\<close> finds the socket ready, \<open>send\<close> takes at least one byte, and the
  probe does not find the connection gone.
\<close>

definition open_network :: "behaviour \<Rightarrow> bool" where
  "open_network o' \<longleftrightarrow> (\<forall>k. o_select o' k = (1, True) \<and> (\<exists>n. o_send o' k = Sent (Suc n)) \<and> snd (o_probe o' k) \<noteq> E_gone)"

definition w_open :: "world \<Rightarrow> bool" where
  "w_open w \<longleftrightarrow> client_wf (w_client w) \<and> is_connected_flag (w_client w) \<and> has_socket (w_client w)"

lemma w_open_real: "w_open w \<Longrightarrow> w_real w = w_client w"
  by (simp add: w_open_def w_real_def)

lemma w_connected_open:
  assumes "open_network o'" "w_open w" "nc_connected (w_net o') w = (up, w1)"
  shows "up \<and> w_open w1"
proof -
  obtain res err where p: "o_probe o' (tick (w_tcp w)) = (res, err)" by fastforce
  then have "err \<noteq> E_gone" using assms(1) by (metis open_network_def snd_conv)
  moreover have "client_wf ((w_client w)\<lparr>is_connected_flag := True\<rparr>)"
    using assms(2) by (auto simp: w_open_def client_wf_def split: option.splits)
  ultimately show ?thesis
    using assms(2,3) p
    by (auto simp: w_net_def w_open_real client_connected_def tcp_api_def w_open_def w_put_def)
qed

lemma w_write_open:
  assumes "open_network o'" "w_open w" "bs \<noteq> []"
  shows "taken (w_tcp (nc_write (w_net o') bs w)) = taken (w_tcp w) @ bs \<and> w_open (nc_write (w_net o') bs w)"
proof -
  obtain n c s where wr: "client_write (tcp_api o') bs (w_real w) (w_tcp w) = (n, c, s)" by (metis prod_cases3)
  have ready: "fst (so_select_write (tcp_api o') s) = (1, True)" for s
    using assms(1) by (simp add: open_network_def tcp_api_def)
  have some: "\<exists>k. fst (so_send (tcp_api o') bs s) = Sent (Suc k)" if "bs \<noteq> []" for bs s
  proof -
    obtain n where "o_send o' (tick s) = Sent (Suc n)" using assms(1) by (auto simp: open_network_def)
    then show ?thesis using that by (cases bs) (simp_all add: tcp_api_def tcp_send_def)
  qed
  have r: "w_real w = w_client w" "is_connected_flag (w_real w)" "has_socket (w_real w)"
    using assms(2) by (simp_all add: w_open_real) (simp_all add: w_open_def)
  note C = tcp_out.client_write_complete [OF ready some wr assms(3) r(2,3)]
  have "client_wf c" using tcp.client_write_keeps [OF wr] assms(2) r(1) by (simp add: tcp.keeps_unread_def w_open_def)
  with C wr show ?thesis by (simp add: w_net_def w_put_def w_open_def)
qed

lemma send_frames_open:
  assumes "open_network o'"
  shows "w_open w \<Longrightarrow> list_all (\<lambda>f. f \<noteq> []) fs \<Longrightarrow>
    taken (w_tcp (fold (send_frame (w_net o')) fs w)) = taken (w_tcp w) @ concat (map frame_bytes fs)"
proof (induction fs arbitrary: w)
  case (Cons f fs)
  obtain up w1 where c: "nc_connected (w_net o') w = (up, w1)" by fastforce
  note C = w_connected_open [OF assms Cons.prems(1) c]
  have t: "taken (w_tcp w1) = taken (w_tcp w)" using w_connected_takes [of o' w] c by simp
  define h :: "u8 list" where "h = [of_nat (length f div 256 mod 256), of_nat (length f mod 256)]"
  have "h \<noteq> []" "f \<noteq> []" using Cons.prems(2) by (simp_all add: h_def)
  note H = w_write_open [OF assms conjunct2 [OF C] this(1)]
  note F = w_write_open [OF assms conjunct2 [OF H] \<open>f \<noteq> []\<close>]
  have "send_frame (w_net o') f w = nc_write (w_net o') f (nc_write (w_net o') h w1)"
    using c C by (simp add: send_frame_def h_def)
  with H F t have "taken (w_tcp (send_frame (w_net o') f w)) = taken (w_tcp w) @ frame_bytes f" "w_open (send_frame (w_net o') f w)"
    by (simp_all add: frame_bytes_def h_def)
  with Cons.IH [of "send_frame (w_net o') f w"] Cons.prems(2) show ?case by simp
qed simp

text \<open>Whole frames before the first write that was cut short are found by the framing.\<close>

lemma frames_before_cut:
  assumes "take (2 * k) cs = take (2 * k) (concat (map frame_writes fs))" "\<forall>f \<in> set fs. f \<noteq> [] \<and> length f < 65536"
  shows "prefix (take k fs) (fst (deframe (concat cs)))"
proof -
  have "take (2 * k) (concat (map frame_writes fs)) = concat (map frame_writes (take k fs))"
  proof (induction fs arbitrary: k)
    case (Cons f fs)
    then show ?case by (cases k) (simp_all add: frame_writes_def)
  qed simp
  with assms(1) have "cs = concat (map frame_writes (take k fs)) @ drop (2 * k) cs"
    by (metis append_take_drop_id)
  then have cs: "concat cs = concat (map frame_bytes (take k fs)) @ concat (drop (2 * k) cs)"
    by (metis concat_append frame_writes_concat)
  have "\<forall>f \<in> set (take k fs). f \<noteq> [] \<and> length f < 65536" using assms(2) by (meson in_set_takeD)
  from frames_bytes_deframe [OF this] show ?thesis unfolding cs by (simp add: deframe_more)
qed

text \<open>
  C12: A drain empties the queue and sends the queued notifications and those that the BLE host task pushes
  meanwhile, first in, first out. Whatever the socket does, what it takes is a prefix of each header and each
  payload in turn (nothing while the client is not connected), and the framing of the receive side finds in it
  all frames before the first write that was cut short. If the network stays open, so that every \<open>send\<close>
  takes at least a byte, the framing gives back exactly the frames sent, with nothing left over.
\<close>

theorem notifications_round_trip:
  assumes "notify_mutex st" and "drain_notify_queue (w_net o') (w_ble o') st w = (st1, w1)"
    and "fs = drained (o_notified o' (w_tick w)) (notify_queue st)" and "\<forall>f \<in> set fs. f \<noteq> [] \<and> length f < 65536"
  shows "notify_queue st1 = [] \<and>
    fs = notify_queue st @ concat (take (length fs) (o_notified o' (w_tick w))) \<and>
    (\<exists>cs. taken (w_tcp w1) = taken (w_tcp w) @ concat cs \<and> list_all2 prefix cs (concat (map frame_writes fs)) \<and>
       (\<forall>k. take (2 * k) cs = take (2 * k) (concat (map frame_writes fs)) \<longrightarrow> prefix (take k fs) (fst (deframe (concat cs))))) \<and>
    (open_network o' \<and> w_open w \<longrightarrow>
       (\<exists>sent. taken (w_tcp w1) = taken (w_tcp w) @ sent \<and> deframe sent = (fs, [])))"
proof (intro conjI impI)
  have d: "st1 = st\<lparr>notify_queue := []\<rparr>" "w1 = fold (send_frame (w_net o')) fs w"
    using assms(1-3) by (simp_all add: drain_notify_queue_def drain_queue_fold w_ble_def)
  then show "notify_queue st1 = []" by simp
  show "fs = notify_queue st @ concat (take (length fs) (o_notified o' (w_tick w)))"
    unfolding assms(3) by (rule drained_fifo)
  show "\<exists>cs. taken (w_tcp w1) = taken (w_tcp w) @ concat cs \<and> list_all2 prefix cs (concat (map frame_writes fs)) \<and>
      (\<forall>k. take (2 * k) cs = take (2 * k) (concat (map frame_writes fs)) \<longrightarrow> prefix (take k fs) (fst (deframe (concat cs))))"
    using send_frames_take [of o' fs w] frames_before_cut [OF _ assms(4)] d(2) by blast
  assume "open_network o' \<and> w_open w"
  then have "taken (w_tcp w1) = taken (w_tcp w) @ concat (map frame_bytes fs)"
    using send_frames_open [of o' w fs] assms(4) d(2) by (auto simp: list_all_iff)
  with frames_bytes_deframe [OF assms(4)] show "\<exists>sent. taken (w_tcp w1) = taken (w_tcp w) @ sent \<and> deframe sent = (fs, [])"
    by blast
qed

text \<open>A socket that takes one byte at a time, two notifications queued and a third pushed while the first is sent.\<close>

definition slow_send :: behaviour where
  "slow_send = calm\<lparr>o_notified := (\<lambda>_. [[[9]]])\<rparr>"

lemma notifications_round_trip_witness:
  "\<exists>st1 w1 sent. drain_notify_queue (w_net slow_send) (w_ble slow_send)
      ((TcpProxy True)\<lparr>notify_queue := [[1, 2, 3], replicate 300 7]\<rparr>)
      (calm_world HalowClientRxBuffer 0 [] [] 0 0 []) = (st1, w1) \<and>
    taken (w_tcp w1) = [] @ sent \<and> deframe sent = ([[1, 2, 3], replicate 300 7, [9]], [])"
proof -
  let ?st = "(TcpProxy True)\<lparr>notify_queue := [[1, 2, 3], replicate 300 7]\<rparr>"
  let ?w = "calm_world HalowClientRxBuffer 0 [] [] 0 0 []"
  obtain st1 w1 where r: "drain_notify_queue (w_net slow_send) (w_ble slow_send) ?st ?w = (st1, w1)" by fastforce
  have m: "notify_mutex ?st" by (simp add: TcpProxy_def)
  have fs: "[[1, 2, 3], replicate 300 7, [9]] = drained (o_notified slow_send (w_tick ?w)) (notify_queue ?st)"
    by (simp add: slow_send_def)
  have len: "\<forall>f \<in> set [[1, 2, 3], replicate 300 7, [9 :: u8]]. f \<noteq> [] \<and> length f < 65536" by simp
  have net: "open_network slow_send" by (simp add: open_network_def slow_send_def calm_def)
  have up: "w_open ?w" by (simp add: w_open_def calm_world_def HalowClient_fd_def client_wf_def rb_new)
  from notifications_round_trip [OF m r fs len] net up obtain sent
    where "taken (w_tcp w1) = taken (w_tcp ?w) @ sent" "deframe sent = ([[1, 2, 3], replicate 300 7, [9]], [])" by blast
  then show ?thesis using r by (auto simp: calm_world_def)
qed

end
