(* ===== verification/Text_Format.thy ===== *)
theory Text_Format
  imports MM_Prelude
begin

text \<open>
  The formats of the C library that the code prints with, and the texts of hardware addresses made with them.
\<close>

section \<open>Formats\<close>

definition ascii :: "string \<Rightarrow> u8 list" where
  "ascii s = map (\<lambda>c. of_nat (of_char c)) s"

definition hex_digit :: "nat \<Rightarrow> u8" where
  "hex_digit n = ascii ''0123456789ABCDEF'' ! (n mod 16)"

text \<open>\<open>%02X\<close> of a byte and \<open>%u\<close> of a number.\<close>

definition hex_byte :: "u8 \<Rightarrow> u8 list" where
  "hex_byte b = [hex_digit (unat b div 16), hex_digit (unat b)]"

fun decimal :: "nat \<Rightarrow> u8 list" where
  "decimal n = (if n < 10 then [of_nat (48 + n)] else decimal (n div 10) @ [of_nat (48 + n mod 10)])"

declare decimal.simps [simp del]

text \<open>\<open>snprintf\<close> into an array of \<open>n\<close> bytes: what it leaves there and the length it returns.\<close>

definition snprintf_into :: "u8 list \<Rightarrow> u8 list \<Rightarrow> nat \<times> u8 list" where
  "snprintf_into buf text =
     (let written = take (length buf - 1) text @ [0]
      in (length text, written @ drop (length written) buf))"

section \<open>Lengths\<close>

lemma length_ascii [simp]: "length (ascii s) = length s"
  by (simp add: ascii_def)

lemma decimal_length: "n < 10 ^ Suc k \<Longrightarrow> length (decimal n) \<le> Suc k \<and> decimal n \<noteq> []"
proof (induction k arbitrary: n)
  case 0
  then show ?case by (simp add: decimal.simps)
next
  case (Suc k)
  then have "n div 10 < 10 ^ Suc k" by (simp add: less_mult_imp_div_less mult.commute)
  from Suc.IH [OF this] show ?case by (subst (1 2) decimal.simps) auto
qed

lemma hex_digit_not_zero: "hex_digit n \<noteq> 0"
proof -
  have "n mod 16 < 16" by simp
  then have "n mod 16 \<in> set [0..<16]" by simp
  moreover have "\<forall>m \<in> set [0..<16]. ascii ''0123456789ABCDEF'' ! m \<noteq> 0" by code_simp
  ultimately show ?thesis by (auto simp: hex_digit_def)
qed

lemma snprintf_read:
  assumes "length buf = Suc n" "text \<noteq> []"
  shows "(case snprintf_into buf text of (rn, reply) \<Rightarrow> if 0 < rn then rbind (mem_read reply 0 rn) (\<lambda>d. Inr (Some d)) else Inr None) =
    (if length text \<le> n then Inr (Some text)
     else if length text = Suc n then Inr (Some (take n text @ [0])) else Inl Out_of_bounds)"
  using assms by (auto simp: snprintf_into_def mem_read_def Let_def min_def)

lemma decimal_no_nul: "0 \<notin> set (decimal n)"
proof (induction n rule: decimal.induct)
  case (1 n)
  have "(of_nat (48 + k) :: u8) \<noteq> 0" if "k < 10" for k
  proof -
    have "unat (of_nat (48 + k) :: u8) = 48 + k" using that by (simp add: unat_of_nat del: of_nat_add)
    then show ?thesis by (metis add_is_0 unat_0 zero_neq_numeral)
  qed
  then show ?case using 1 by (subst decimal.simps) (simp del: of_nat_add)
qed

lemma snprintf_fits:
  assumes "length msg < length buf" "0 \<notin> set msg"
  shows "c_string (snd (snprintf_into buf msg)) = msg"
proof -
  have "c_string (msg @ 0 # r) = msg" for r using assms(2) by (induction msg) (auto simp: c_string_def)
  then show ?thesis using assms(1) by (simp add: snprintf_into_def Let_def)
qed

section \<open>Hardware addresses\<close>

text \<open>\<open>sprintf\<close> does not look at the length of its array.\<close>

definition sprintf_into :: "u8 list \<Rightarrow> u8 list \<Rightarrow> u8 list result" where
  "sprintf_into buf msg = mem_write buf 0 (msg @ [0])"

definition mac_format :: "u8 list \<Rightarrow> u8 list" where
  "mac_format mac = hex_byte (mac ! 0) @ ascii '':'' @ hex_byte (mac ! 1) @ ascii '':'' @ hex_byte (mac ! 2) @ ascii '':'' @
     hex_byte (mac ! 3) @ ascii '':'' @ hex_byte (mac ! 4) @ ascii '':'' @ hex_byte (mac ! 5)"

text \<open>The text of an address in an array of 18 zeros, as three classes of the library make it.\<close>

definition mac_string :: "u8 list \<Rightarrow> u8 list result" where
  "mac_string mac = rbind (sprintf_into (replicate 18 0) (mac_format mac)) (\<lambda>text. Inr (c_string text))"

text \<open>Reading such a text back.\<close>

definition hex_value :: "u8 \<Rightarrow> nat" where
  "hex_value c = (if 65 \<le> c then unat c - 55 else unat c - 48)"

definition byte_at :: "nat \<Rightarrow> u8 list \<Rightarrow> u8" where
  "byte_at i text = of_nat (16 * hex_value (text ! i) + hex_value (text ! Suc i))"

definition parse_mac :: "u8 list \<Rightarrow> u8 list" where
  "parse_mac text = map (\<lambda>k. byte_at (3 * k) text) [0..<6]"

lemma hex_value_digit: "hex_value (hex_digit n) = n mod 16"
proof -
  have "\<forall>m \<in> set [0..<16]. hex_value (ascii ''0123456789ABCDEF'' ! m) = m" by code_simp
  moreover have "n mod 16 \<in> set [0..<16]" by simp
  ultimately show ?thesis unfolding hex_digit_def by blast
qed

lemma hex_byte_value: "of_nat (16 * hex_value (hex_byte b ! 0) + hex_value (hex_byte b ! 1)) = b"
proof -
  have "unat b div 16 < 16" using unat_u8_lt [of b] by (simp add: less_mult_imp_div_less del: unat_u8_lt)
  then have "16 * hex_value (hex_byte b ! 0) + hex_value (hex_byte b ! 1) = unat b"
    by (simp add: hex_byte_def hex_value_digit)
  moreover have "of_nat (unat b) = b" by simp
  ultimately show ?thesis by (simp only:)
qed

lemma mac_string_value: "mac_string mac = Inr (mac_format mac)"
proof -
  have "0 \<notin> set (mac_format mac)"
    using hex_digit_not_zero by (auto simp: mac_format_def hex_byte_def ascii_def)
  then have "c_string (mac_format mac @ [0]) = mac_format mac" using c_string_pad [of "mac_format mac" 1] by simp
  then show ?thesis by (simp add: mac_string_def sprintf_into_def mem_write_def mac_format_def hex_byte_def)
qed

lemma parse_mac_format:
  assumes "length mac = 6"
  shows "parse_mac (mac_format mac) = mac"
proof (rule nth_equalityI)
  show "length (parse_mac (mac_format mac)) = length mac" by (simp add: parse_mac_def assms)
next
  fix i assume "i < length (parse_mac (mac_format mac))"
  then have i: "i < 6" by (simp add: parse_mac_def)
  have "mac_format mac ! (3 * i) = hex_byte (mac ! i) ! 0 \<and> mac_format mac ! Suc (3 * i) = hex_byte (mac ! i) ! 1"
  proof -
    have "i = 0 \<or> i = 1 \<or> i = 2 \<or> i = 3 \<or> i = 4 \<or> i = 5" using i by linarith
    then show ?thesis by (elim disjE) (simp_all add: mac_format_def hex_byte_def ascii_def)
  qed
  then show "parse_mac (mac_format mac) ! i = mac ! i"
    using i hex_byte_value [of "mac ! i"] by (simp add: parse_mac_def byte_at_def)
qed

end
