(* ===== verification/Config_Load.thy ===== *)
theory Config_Load
  imports Text_Format
begin

text \<open>
  The boot configuration of config_load.cpp: the blob in the flash partition, its checks (magic,
  version, CRC), the fall-back to the values compiled in from config.h, and the masked password of the
  log. The packer of scripts/pack_config.py writes the blob. Strings are their bytes; a \<open>char\<close> array
  is the list of its cells.
\<close>

section \<open>Strings in arrays\<close>

definition terminated :: "u8 list \<Rightarrow> bool" where
  "terminated a \<longleftrightarrow> 0 \<in> set a"

text \<open>\<open>src\<close> is the string, without its NUL; the cells behind the copied NUL keep their contents.\<close>

definition copy_str :: "u8 list \<Rightarrow> nat \<Rightarrow> u8 list \<Rightarrow> u8 list" where
  "copy_str dst dst_sz src =
     (if dst_sz = 0 then dst
      else let i = min (dst_sz - 1) (length src) in take i src @ [0] @ drop (i + 1) dst)"

lemma copy_str_length: "length dst = dst_sz \<Longrightarrow> length (copy_str dst dst_sz src) = dst_sz"
  by (auto simp: copy_str_def Let_def)

lemma copy_str_terminated: "0 < dst_sz \<Longrightarrow> terminated (copy_str dst dst_sz src)"
  by (simp add: copy_str_def terminated_def Let_def)

lemma c_str_terminator: "0 \<notin> set s \<Longrightarrow> c_string (s @ 0 # t) = s"
  by (induction s) (auto simp: c_string_def)

lemma copy_str_c_str: "0 < dst_sz \<Longrightarrow> 0 \<notin> set src \<Longrightarrow> c_string (copy_str dst dst_sz src) = take (dst_sz - 1) src"
proof -
  assume "0 < dst_sz" "0 \<notin> set src"
  moreover from this have "0 \<notin> set (take (min (dst_sz - 1) (length src)) src)" by (meson in_set_takeD)
  ultimately show ?thesis by (simp add: copy_str_def Let_def c_str_terminator) (simp add: min_def)
qed

section \<open>The masked password\<close>

text \<open>The \<open>char\<close> array of the log line, of \<open>out_sz\<close> cells.\<close>

definition mask_pw :: "u8 list \<Rightarrow> nat \<Rightarrow> u8 list \<Rightarrow> u8 list" where
  "mask_pw out out_sz in' =
     (let n = length in'
      in if n = 0 then copy_str out out_sz []
         else if n \<le> 2 then copy_str out out_sz (ascii ''**'')
         else let stars = min (n - 2) 8;
                  first = take (out_sz - 1) [in' ! 0];
                  middle = take (out_sz - 1 - length first) (replicate stars 42);
                  last' = take (out_sz - 1 - length first - length middle) [in' ! (n - 1)];
                  s = first @ middle @ last'
              in s @ [0] @ drop (length s + 1) out)"

text \<open>What the log shows of a password does not depend on anything but its first and last byte and its length up to 10.\<close>

lemma mask_pw_hides:
  assumes "3 \<le> length p" "length q = length p \<or> 10 \<le> length p \<and> 10 \<le> length q"
    and "hd p = hd q" "List.last p = List.last q"
  shows "mask_pw out n p = mask_pw out n q"
proof -
  have ne: "p \<noteq> []" "q \<noteq> []" and n: "3 \<le> length q" "min (length p - 2) 8 = min (length q - 2) 8"
    using assms(1,2) by auto
  have "p ! 0 = q ! 0" using assms(3) by (simp only: hd_conv_nth ne not_False_eq_True)
  moreover have "p ! (length p - 1) = q ! (length q - 1)" using assms(4) by (simp only: last_conv_nth ne not_False_eq_True)
  moreover have "\<not> length p \<le> 2" "\<not> length q \<le> 2" "length p \<noteq> 0" "length q \<noteq> 0" using n assms(1) by auto
  ultimately show ?thesis unfolding mask_pw_def Let_def by (simp only: n if_False)
qed

section \<open>The checksum\<close>

definition crc32_bit :: "u32 \<Rightarrow> u32" where
  "crc32_bit crc = (let mask = - (crc AND 1) in drop_bit 1 crc XOR (0xEDB88320 AND mask))"

definition crc32_byte :: "u32 \<Rightarrow> u8 \<Rightarrow> u32" where
  "crc32_byte crc d = (crc32_bit ^^ 8) (crc XOR ucast d)"

definition crc32_zlib :: "u8 list \<Rightarrow> u32" where
  "crc32_zlib data = fold (\<lambda>d crc. crc32_byte crc d) data 0xFFFFFFFF XOR 0xFFFFFFFF"

lemma crc32_mask: "- (x AND 1 :: u32) = (if bit x 0 then -1 else 0)"
  by (simp add: and_one_eq bit_0 odd_iff_mod_2_eq_one)

lemma crc32_bit_iff: "n < 32 \<Longrightarrow> bit (crc32_bit x) n \<longleftrightarrow> (bit x (Suc n) \<noteq> (bit (0xEDB88320 :: u32) n \<and> bit x 0))"
  by (simp add: crc32_bit_def Let_def crc32_mask bit_xor_iff bit_and_iff bit_drop_bit_eq)

lemma crc32_bit_linear: "crc32_bit (x XOR y) = crc32_bit x XOR crc32_bit y"
  by (rule bit_word_eqI) (auto simp: crc32_bit_iff bit_xor_iff)

lemma crc32_bits_linear: "(crc32_bit ^^ n) (x XOR y) = (crc32_bit ^^ n) x XOR (crc32_bit ^^ n) y"
  by (induction n) (simp_all add: crc32_bit_linear)

lemma crc32_bit_0: "crc32_bit x = 0 \<Longrightarrow> x = 0"
proof (rule bit_word_eqI)
  fix n assume z: "crc32_bit x = 0" and n: "n < LENGTH(32)"
  have b: "bit x (Suc k) \<longleftrightarrow> bit (0xEDB88320 :: u32) k \<and> bit x 0" if "k < 32" for k
    using crc32_bit_iff [OF that, of x] that by (auto simp: z)
  have "\<not> bit x 0" using b [of 31] by (auto dest: bit_imp_le_length)
  with b [of "n - 1"] n show "bit x n \<longleftrightarrow> bit (0 :: u32) n" by (cases n) simp_all
qed

lemma crc32_bits_0: "(crc32_bit ^^ n) x = 0 \<Longrightarrow> x = 0"
  by (induction n) (auto dest: crc32_bit_0)

lemma crc32_bit_push:
  assumes "\<not> bit y 31" "k = 1"
  shows "crc32_bit (push_bit k y) = y"
proof (rule bit_word_eqI)
  fix n assume n: "n < LENGTH(32)"
  have "bit (push_bit k y) (Suc n) \<longleftrightarrow> bit y n" "\<not> bit (push_bit k y) 0"
    unfolding bit_push_bit_iff assms(2) using assms(1) n by (cases "n = 31", simp_all add: possible_bit_word)
  then show "bit (crc32_bit (push_bit k y)) n \<longleftrightarrow> bit y n" using n by (simp add: crc32_bit_iff)
qed

lemma crc32_bits_push:
  "\<forall>k. 32 - n \<le> k \<longrightarrow> \<not> bit y k \<Longrightarrow> n \<le> 32 \<Longrightarrow> (crc32_bit ^^ n) (push_bit n y) = y"
proof (induction n arbitrary: y)
  case (Suc n)
  have "push_bit (Suc n) y = push_bit 1 (push_bit n y)" by (simp add: push_bit_push_bit)
  moreover have "\<not> bit (push_bit n y) 31" using Suc.prems by (simp add: bit_push_bit_iff possible_bit_word)
  ultimately have "crc32_bit (push_bit (Suc n) y) = push_bit n y" using crc32_bit_push by metis
  moreover have "(crc32_bit ^^ n) (push_bit n y) = y" using Suc by auto
  ultimately show ?case by (simp del: funpow.simps add: funpow_Suc_right)
qed simp

text \<open>
  A difference of the sums of two buffers goes through the linear part of the code alone: a byte's
  difference is added, then the register is shifted by eight bits.
\<close>

definition crc32_shift :: "u32 \<Rightarrow> u32" where
  "crc32_shift x = (crc32_bit ^^ 8) x"

lemma crc32_shift_simps: "crc32_shift (x XOR y) = crc32_shift x XOR crc32_shift y" "crc32_shift x = 0 \<longleftrightarrow> x = 0"
proof -
  show "crc32_shift (x XOR y) = crc32_shift x XOR crc32_shift y"
    by (simp only: crc32_shift_def crc32_bits_linear)
  have "(crc32_bit ^^ 8) 0 = 0" using crc32_bits_linear [of 8 0 0] by simp
  then show "crc32_shift x = 0 \<longleftrightarrow> x = 0" unfolding crc32_shift_def using crc32_bits_0 by metis
qed

lemma u32_xor_cancel: "(x :: u32) XOR c = y XOR c \<longleftrightarrow> x = y"
proof
  assume "x XOR c = y XOR c"
  then have "(x XOR c) XOR c = (y XOR c) XOR c" by (rule arg_cong)
  then show "x = y" by (simp only: xor.assoc xor_self_eq xor.right_neutral)
qed simp

lemma u8_xor_cancel: "(x :: u8) XOR c = y XOR c \<longleftrightarrow> x = y"
proof
  assume "x XOR c = y XOR c"
  then have "(x XOR c) XOR c = (y XOR c) XOR c" by (rule arg_cong)
  then show "x = y" by (simp only: xor.assoc xor_self_eq xor.right_neutral)
qed simp

lemma u32_xor_eq_0: "(x :: u32) XOR y = 0 \<longleftrightarrow> x = y"
  using u32_xor_cancel [of x y y] by (simp only: xor_self_eq)

lemma u8_xor_eq_0: "(x :: u8) XOR y = 0 \<longleftrightarrow> x = y"
  using u8_xor_cancel [of x y y] by (simp only: xor_self_eq)

lemma u8_xor_ucast: "ucast ((a :: u8) XOR b) = (ucast a XOR ucast b :: u32)"
  by (rule bit_word_eqI) (auto simp: bit_ucast_iff bit_xor_iff)

lemma crc32_byte_diff:
  "crc32_byte x a XOR crc32_byte y b = crc32_shift ((x XOR y) XOR ucast (a XOR b))"
  unfolding crc32_byte_def crc32_shift_def
  by (simp only: crc32_bits_linear u8_xor_ucast) (simp add: xor.assoc xor.left_commute)

lemma crc32_shift_inj: "crc32_shift x = crc32_shift y \<longleftrightarrow> x = y"
  using crc32_shift_simps(1) [of x y] crc32_shift_simps(2) [of "x XOR y"] by (simp add: u32_xor_eq_0)

lemma crc32_fold_same:
  "x \<noteq> y \<Longrightarrow> fold (\<lambda>d crc. crc32_byte crc d) z x \<noteq> fold (\<lambda>d crc. crc32_byte crc d) z y"
proof (induction z arbitrary: x y)
  case (Cons a z)
  have "crc32_byte x a XOR crc32_byte y a = crc32_shift (x XOR y)"
    by (simp only: crc32_byte_diff xor_self_eq unsigned_0 xor.right_neutral)
  moreover have "crc32_shift (x XOR y) \<noteq> 0" using Cons.prems by (simp only: crc32_shift_simps(2) u32_xor_eq_0) simp
  ultimately have "crc32_byte x a \<noteq> crc32_byte y a" by auto
  with Cons.IH show ?case by simp
qed simp

lemma crc32_shift_back:
  assumes "crc32_shift x = y" "\<forall>k. 24 \<le> k \<longrightarrow> \<not> bit y k"
  shows "x = push_bit 8 y"
proof -
  have "crc32_shift (push_bit 8 y) = y"
    unfolding crc32_shift_def using assms(2) crc32_bits_push [of 8 y] by simp
  then have "crc32_shift (x XOR push_bit 8 y) = 0" by (simp only: crc32_shift_simps assms(1)) simp
  then show ?thesis by (simp only: crc32_shift_simps(2) u32_xor_eq_0)
qed

lemma crc32_four_bytes:
  assumes "fold (\<lambda>d crc. crc32_byte crc d) [a0, a1, a2, a3] x = fold (\<lambda>d crc. crc32_byte crc d) [b0, b1, b2, b3] x"
  shows "[a0, a1, a2, a3] = [b0, b1, b2, b3]"
proof -
  define d0 d1 d2 d3 :: u32 where d: "d0 = ucast (a0 XOR b0)" "d1 = ucast (a1 XOR b1)" "d2 = ucast (a2 XOR b2)" "d3 = ucast (a3 XOR b3)"
  define D1 D2 D3 where D: "D1 = crc32_shift d0" "D2 = crc32_shift (D1 XOR d1)" "D3 = crc32_shift (D2 XOR d2)"
  note small = d u8_bit_ge bit_ucast_iff
  have "crc32_byte x a0 XOR crc32_byte x b0 = D1" by (simp add: crc32_byte_diff D d)
  then have "crc32_byte (crc32_byte x a0) a1 XOR crc32_byte (crc32_byte x b0) b1 = D2"
    by (simp add: crc32_byte_diff [of "crc32_byte x a0"] D(2) d)
  then have "crc32_byte (crc32_byte (crc32_byte x a0) a1) a2 XOR crc32_byte (crc32_byte (crc32_byte x b0) b1) b2 = D3"
    by (simp add: crc32_byte_diff [of "crc32_byte (crc32_byte x a0) a1"] D(3) d)
  moreover have "crc32_byte (crc32_byte (crc32_byte (crc32_byte x a0) a1) a2) a3
      XOR crc32_byte (crc32_byte (crc32_byte (crc32_byte x b0) b1) b2) b3 = 0"
    using assms by simp
  ultimately have "D3 = d3"
    by (simp add: crc32_byte_diff [of "crc32_byte (crc32_byte (crc32_byte x a0) a1) a2"] crc32_shift_simps u32_xor_eq_0 crc32_shift_inj d)
  then have "D2 XOR d2 = push_bit 8 d3"
    using D(3) by (intro crc32_shift_back) (auto simp: small)
  then have D2: "D2 = d2 XOR push_bit 8 d3" by (metis xor.assoc xor.commute xor_self_eq xor.right_neutral)
  have "crc32_shift (D1 XOR d1) = d2 XOR push_bit 8 d3" using D(2) D2 by simp
  then have "D1 XOR d1 = push_bit 8 (d2 XOR push_bit 8 d3)"
    by (rule crc32_shift_back) (auto simp: small bit_xor_iff bit_push_bit_iff)
  then have D1: "D1 = d1 XOR push_bit 8 (d2 XOR push_bit 8 d3)" by (metis xor.assoc xor.commute xor_self_eq xor.right_neutral)
  have "crc32_shift d0 = d1 XOR push_bit 8 (d2 XOR push_bit 8 d3)" using D(1) D1 by simp
  then have z: "d0 = push_bit 8 (d1 XOR push_bit 8 (d2 XOR push_bit 8 d3))"
    by (rule crc32_shift_back) (auto simp: small bit_xor_iff bit_push_bit_iff)
  have bits: "bit d0 n \<longleftrightarrow> n < 32 \<and> 8 \<le> n \<and> (bit d1 (n - 8) \<noteq> (8 \<le> n - 8 \<and> (bit d2 (n - 8 - 8) \<noteq> (8 \<le> n - 8 - 8 \<and> bit d3 (n - 8 - 8 - 8)))))" for n
    by (subst z) (auto simp: bit_xor_iff bit_push_bit_iff possible_bit_word)
  have "\<not> bit d0 n" for n using bits [of n] by (cases "n < 8") (auto simp: small)
  moreover have "\<not> bit d1 n" for n using bits [of "n + 8"] by (cases "n < 8") (auto simp: small)
  moreover have "\<not> bit d2 n" for n using bits [of "n + 16"] by (cases "n < 8") (auto simp: small)
  moreover have "\<not> bit d3 n" for n using bits [of "n + 24"] by (cases "n < 8") (auto simp: small)
  ultimately have "a0 XOR b0 = 0" "a1 XOR b1 = 0" "a2 XOR b2 = 0" "a3 XOR b3 = 0"
    unfolding d by (rule_tac [!] bit_word_eqI) (simp_all add: bit_ucast_iff)
  then show ?thesis by (simp only: u8_xor_eq_0)
qed

text \<open>Changes within four adjacent bytes always change the sum.\<close>

lemma crc32_detects:
  assumes "length v = 4" "length w = 4" "v \<noteq> w"
  shows "crc32_zlib (a @ v @ z) \<noteq> crc32_zlib (a @ w @ z)"
proof -
  define x where "x = fold (\<lambda>d crc. crc32_byte crc d) a 0xFFFFFFFF"
  obtain v0 v1 v2 v3 w0 w1 w2 w3 where v: "v = [v0, v1, v2, v3]" and w: "w = [w0, w1, w2, w3]"
    using assms(1,2) by (auto simp: numeral_eq_Suc length_Suc_conv)
  have "fold (\<lambda>d crc. crc32_byte crc d) v x \<noteq> fold (\<lambda>d crc. crc32_byte crc d) w x"
    using crc32_four_bytes assms(3) unfolding v w by metis
  from crc32_fold_same [OF this, of z] show ?thesis
    by (simp add: crc32_zlib_def x_def u32_xor_cancel)
qed

section \<open>The blob\<close>

definition HC33_CONFIG_MAGIC :: u32 where "HC33_CONFIG_MAGIC = 0x33334643"
definition HC33_CONFIG_VERSION :: u8 where "HC33_CONFIG_VERSION = 2"

record hc33_config_v1 =
  magic :: u32
  version :: u8
  uplink_ssid :: "u8 list"
  uplink_pass :: "u8 list"
  region :: "u8 list"
  softap_ssid :: "u8 list"
  softap_pass :: "u8 list"
  softap_channel :: u8
  crc32 :: u32

text \<open>The packed struct in memory; the ESP32 is little-endian.\<close>

definition le32 :: "u8 list \<Rightarrow> u32" where
  "le32 bs = ucast (bs ! 0) OR push_bit 8 (ucast (bs ! 1)) OR push_bit 16 (ucast (bs ! 2)) OR push_bit 24 (ucast (bs ! 3))"

definition bytes32 :: "u32 \<Rightarrow> u8 list" where
  "bytes32 w = [ucast w, ucast (drop_bit 8 w), ucast (drop_bit 16 w), ucast (drop_bit 24 w)]"

definition blob_of_bytes :: "u8 list \<Rightarrow> hc33_config_v1" where
  "blob_of_bytes bs = \<lparr>magic = le32 bs, version = bs ! 4, uplink_ssid = take 33 (drop 5 bs),
     uplink_pass = take 65 (drop 38 bs), region = take 4 (drop 103 bs), softap_ssid = take 33 (drop 107 bs),
     softap_pass = take 65 (drop 140 bs), softap_channel = bs ! 205, crc32 = le32 (drop 206 bs)\<rparr>"

definition sizeof_config :: nat where "sizeof_config = 210"
definition crc_len :: nat where "crc_len = 206"

section \<open>Loading\<close>

text \<open>The compiled values of config.h; \<open>std\<close> is whether USE_STANDARD_WIFI is defined.\<close>

definition WIFI_SSID :: "bool \<Rightarrow> u8 list" where
  "WIFI_SSID std = ascii (if std then ''your-2.4ghz-ssid'' else ''your-halow-ap-ssid'')"
definition WIFI_PASS :: "bool \<Rightarrow> u8 list" where
  "WIFI_PASS std = ascii (if std then ''your-2.4ghz-password'' else ''your-halow-ap-password'')"
definition WIFI_REGION_HALOW :: "u8 list" where "WIFI_REGION_HALOW = ascii ''AU''"
definition AP_SSID :: "u8 list" where "AP_SSID = ascii ''MowerAP''"
definition AP_PASSWORD :: "u8 list" where "AP_PASSWORD = ascii ''mower-ap-password''"
definition AP_CHANNEL :: u8 where "AP_CHANNEL = 6"

text \<open>\<open>g_cfg\<close> before the first call: zeros.\<close>

definition g_cfg :: hc33_config_v1 where
  "g_cfg = \<lparr>magic = 0, version = 0, uplink_ssid = replicate 33 0, uplink_pass = replicate 65 0, region = replicate 4 0,
     softap_ssid = replicate 33 0, softap_pass = replicate 65 0, softap_channel = 0, crc32 = 0\<rparr>"

definition load_defaults :: "bool \<Rightarrow> hc33_config_v1 \<Rightarrow> hc33_config_v1" where
  "load_defaults std g = g\<lparr>magic := HC33_CONFIG_MAGIC, version := HC33_CONFIG_VERSION,
     uplink_ssid := copy_str (uplink_ssid g) 33 (WIFI_SSID std), uplink_pass := copy_str (uplink_pass g) 65 (WIFI_PASS std),
     region := copy_str (region g) 4 WIFI_REGION_HALOW, softap_ssid := copy_str (softap_ssid g) 33 AP_SSID,
     softap_pass := copy_str (softap_pass g) 65 AP_PASSWORD, softap_channel := AP_CHANNEL, crc32 := 0\<rparr>"

definition terminate_strings :: "hc33_config_v1 \<Rightarrow> hc33_config_v1" where
  "terminate_strings b = b\<lparr>uplink_ssid := (uplink_ssid b)[32 := 0], uplink_pass := (uplink_pass b)[64 := 0],
     region := (region b)[3 := 0], softap_ssid := (softap_ssid b)[32 := 0], softap_pass := (softap_pass b)[64 := 0]\<rparr>"

text \<open>
  \<open>flash\<close> is the partition: \<open>None\<close> when the table has none, an error of the read, or its first
  \<open>sizeof_config\<close> bytes.
\<close>

definition config_load :: "bool \<Rightarrow> ('e + u8 list) option \<Rightarrow> hc33_config_v1 \<Rightarrow> hc33_config_v1" where
  "config_load std flash g =
     (let defaults = load_defaults std g
      in case flash of
           None \<Rightarrow> defaults
         | Some (Inl err) \<Rightarrow> defaults
         | Some (Inr bytes) \<Rightarrow>
             (let blob = blob_of_bytes bytes
              in if magic blob \<noteq> HC33_CONFIG_MAGIC then defaults
                 else if version blob \<noteq> HC33_CONFIG_VERSION then defaults
                 else if crc32_zlib (take crc_len bytes) \<noteq> crc32 blob then defaults
                 else let cfg = terminate_strings blob
                  in if softap_channel cfg < 1 \<or> 14 < softap_channel cfg
                     then cfg\<lparr>softap_channel := AP_CHANNEL\<rparr> else cfg))"

section \<open>Packing\<close>

text \<open>\<open>pack\<close> of pack_config.py; the strings are their UTF-8 bytes, \<open>None\<close> is the exit for a bad channel.\<close>

definition fixed :: "u8 list \<Rightarrow> nat \<Rightarrow> u8 list" where
  "fixed s n = (let b = take (n - 1) s in b @ replicate (n - length b) 0)"

definition pack :: "u8 list \<Rightarrow> u8 list \<Rightarrow> u8 list \<Rightarrow> u8 list \<Rightarrow> u8 list \<Rightarrow> int \<Rightarrow> u8 list option" where
  "pack ussid upass reg sssid spass channel =
     (let body = bytes32 HC33_CONFIG_MAGIC @ [HC33_CONFIG_VERSION] @ fixed ussid 33 @ fixed upass 65 @ fixed reg 4 @
                 fixed sssid 33 @ fixed spass 65
      in if 1 \<le> channel \<and> channel \<le> 14 then
           (let body' = body @ [of_int channel] in Some (body' @ bytes32 (crc32_zlib body')))
         else None)"

section \<open>What the rest of the firmware may rely on\<close>

text \<open>The shape of the struct, and what the consumers of the configuration need: terminated strings and a usable channel.\<close>

definition config_shape :: "hc33_config_v1 \<Rightarrow> bool" where
  "config_shape c \<longleftrightarrow> length (uplink_ssid c) = 33 \<and> length (uplink_pass c) = 65 \<and> length (region c) = 4 \<and>
     length (softap_ssid c) = 33 \<and> length (softap_pass c) = 65"

definition config_ok :: "hc33_config_v1 \<Rightarrow> bool" where
  "config_ok c \<longleftrightarrow> config_shape c \<and> terminated (uplink_ssid c) \<and> terminated (uplink_pass c) \<and> terminated (region c) \<and>
     terminated (softap_ssid c) \<and> terminated (softap_pass c) \<and> 1 \<le> softap_channel c \<and> softap_channel c \<le> 14"

lemma u8_positive: "1 \<le> (x :: u8) \<longleftrightarrow> x \<noteq> 0"
  by (simp flip: not_less)

lemma load_defaults_ok: "config_shape g \<Longrightarrow> config_ok (load_defaults std g)"
  by (simp add: config_ok_def config_shape_def load_defaults_def copy_str_length copy_str_terminated AP_CHANNEL_def)

lemma blob_shape: "length bytes = sizeof_config \<Longrightarrow> config_shape (blob_of_bytes bytes)"
  by (simp add: config_shape_def blob_of_bytes_def sizeof_config_def)

lemma terminate_strings_ok:
  "config_shape b \<Longrightarrow> config_shape (terminate_strings b) \<and> terminated (uplink_ssid (terminate_strings b)) \<and>
     terminated (uplink_pass (terminate_strings b)) \<and> terminated (region (terminate_strings b)) \<and>
     terminated (softap_ssid (terminate_strings b)) \<and> terminated (softap_pass (terminate_strings b))"
  by (auto simp: config_shape_def terminate_strings_def terminated_def set_update_memI)

text \<open>The packed struct, field by field.\<close>

lemma bytes32_length: "length (bytes32 w) = 4"
  by (simp add: bytes32_def)

lemma le32_bytes32: "le32 (bytes32 w @ r) = w"
proof (rule bit_word_eqI)
  fix n assume "n < LENGTH(32)"
  then consider "n < 8" | "8 \<le> n" "n < 16" | "16 \<le> n" "n < 24" | "24 \<le> n" "n < 32" by fastforce
  then show "bit (le32 (bytes32 w @ r)) n \<longleftrightarrow> bit w n"
    by cases (auto simp: le32_def bytes32_def bit_or_iff bit_push_bit_iff bit_ucast_iff bit_drop_bit_eq nth_append possible_bit_word)
qed

lemma blob_of_parts:
  assumes "length a = 33" "length b = 65" "length c = 4" "length d = 33" "length e = 65"
  shows "blob_of_bytes (bytes32 m @ [v] @ a @ b @ c @ d @ e @ [ch] @ bytes32 s) =
    \<lparr>magic = m, version = v, uplink_ssid = a, uplink_pass = b, region = c, softap_ssid = d, softap_pass = e,
     softap_channel = ch, crc32 = s\<rparr>"
  using assms by (simp add: blob_of_bytes_def le32_bytes32 bytes32_length nth_append)
    (simp add: le32_bytes32 [of s "[]", simplified])

lemma fixed_length: "0 < n \<Longrightarrow> length (fixed s n) = n"
  by (simp add: fixed_def Let_def)

lemma fixed_c_str: "0 \<notin> set s \<Longrightarrow> length s < n \<Longrightarrow> c_string ((fixed s n)[n - 1 := 0]) = s"
proof -
  assume "0 \<notin> set s" and len: "length s < n"
  moreover from this obtain k where k: "n - length s = Suc k" using less_imp_Suc_add by (metis Suc_diff_Suc)
  moreover have "(s @ replicate (Suc k) 0)[n - 1 := 0] = s @ 0 # replicate k 0"
  proof (rule nth_equalityI)
    fix i assume "i < length ((s @ replicate (Suc k) 0)[n - 1 := 0])"
    then show "(s @ replicate (Suc k) 0)[n - 1 := 0] ! i = (s @ 0 # replicate k 0) ! i"
      using len k by (cases "i = n - 1"; cases "i < length s") (simp_all add: nth_append nth_Cons' del: replicate_Suc, linarith?)
  qed simp
  ultimately show ?thesis by (simp add: fixed_def c_str_terminator del: replicate_Suc)
qed

section \<open>Properties\<close>

lemma config_load_ok:
  assumes "config_shape g" and "\<And>bytes. flash = Some (Inr bytes) \<Longrightarrow> length bytes = sizeof_config"
  shows "config_ok (config_load std flash g)"
proof -
  have defaults: "config_ok (load_defaults std g)" by (rule load_defaults_ok [OF assms(1)])
  show ?thesis
  proof (cases "\<exists>bytes. flash = Some (Inr bytes)")
    case True
    then obtain bytes where f: "flash = Some (Inr bytes)" by auto
    define t where "t = terminate_strings (blob_of_bytes bytes)"
    have "config_ok (t\<lparr>softap_channel := AP_CHANNEL\<rparr>)" "softap_channel t \<noteq> 0 \<and> softap_channel t \<le> 14 \<Longrightarrow> config_ok t"
      using terminate_strings_ok [OF blob_shape [OF assms(2) [OF f]]]
      by (simp_all add: config_ok_def config_shape_def AP_CHANNEL_def t_def u8_positive)
    with defaults show ?thesis by (simp add: config_load_def f Let_def t_def not_less)
  next
    case False
    show ?thesis
    proof (cases flash)
      case None
      with defaults show ?thesis by (simp add: config_load_def)
    next
      case (Some r)
      with False obtain e where "r = Inl e" by (cases r) auto
      with Some defaults show ?thesis by (simp add: config_load_def)
    qed
  qed
qed

lemma pack_length: "pack ussid upass reg sssid spass channel = Some bytes \<Longrightarrow> length bytes = sizeof_config"
  by (auto simp: pack_def Let_def fixed_length bytes32_length sizeof_config_def split: if_splits)

text \<open>
  C20: Whatever the partition holds or however it fails, the configuration after the load has its five
  strings terminated inside their arrays and a WiFi channel from 1 to 14.
\<close>

theorem config_load_safe:
  assumes "config_shape g" and "\<And>bytes. flash = Some (Inr bytes) \<Longrightarrow> length bytes = sizeof_config"
  shows "config_ok (config_load std flash g)"
  using assms by (rule config_load_ok)

lemma config_load_safe_witness:
  "config_ok (config_load False (Some (Inr (replicate 210 0xFF) :: unit + u8 list)) g_cfg)"
  by (rule config_load_safe) (simp_all add: config_shape_def g_cfg_def sizeof_config_def)

lemma config_round_trip_aux:
  assumes "pack ussid upass reg sssid spass channel = Some bytes"
    and "0 \<notin> set ussid \<union> set upass \<union> set reg \<union> set sssid \<union> set spass"
    and "length ussid < 33" "length upass < 65" "length reg < 4" "length sssid < 33" "length spass < 65"
  shows "let c = config_load std (Some (Inr bytes :: 'e + u8 list)) g
    in c_string (uplink_ssid c) = ussid \<and> c_string (uplink_pass c) = upass \<and> c_string (region c) = reg \<and>
       c_string (softap_ssid c) = sssid \<and> c_string (softap_pass c) = spass \<and> uint (softap_channel c) = channel"
proof -
  define body where "body = bytes32 HC33_CONFIG_MAGIC @ [HC33_CONFIG_VERSION] @ fixed ussid 33 @ fixed upass 65 @
    fixed reg 4 @ fixed sssid 33 @ fixed spass 65 @ [of_int channel]"
  have ch: "1 \<le> channel" "channel \<le> 14" and bytes: "bytes = body @ bytes32 (crc32_zlib body)"
    using assms(1) by (auto simp: pack_def Let_def body_def split: if_splits)
  have blob: "blob_of_bytes bytes = \<lparr>magic = HC33_CONFIG_MAGIC, version = HC33_CONFIG_VERSION, uplink_ssid = fixed ussid 33,
      uplink_pass = fixed upass 65, region = fixed reg 4, softap_ssid = fixed sssid 33, softap_pass = fixed spass 65,
      softap_channel = of_int channel, crc32 = crc32_zlib body\<rparr>"
    using blob_of_parts [of "fixed ussid 33" "fixed upass 65" "fixed reg 4" "fixed sssid 33" "fixed spass 65"]
    by (simp add: bytes body_def fixed_length)
  have "length body = crc_len" by (simp add: body_def fixed_length bytes32_length crc_len_def)
  then have "take crc_len bytes = body" by (simp add: bytes)
  moreover have "uint (of_int channel :: u8) = channel" using ch by (simp add: word_of_int_inverse uint_word_of_int)
  moreover from this ch have "\<not> (of_int channel :: u8) < 1" "\<not> (14 :: u8) < of_int channel" by (simp_all add: word_less_def)
  ultimately have "config_load std (Some (Inr bytes :: 'e + u8 list)) g = terminate_strings (blob_of_bytes bytes)"
    by (simp add: config_load_def Let_def blob terminate_strings_def)
  then show ?thesis
    using assms(2-) \<open>uint (of_int channel :: u8) = channel\<close>
    using fixed_c_str [of ussid 33] fixed_c_str [of upass 65] fixed_c_str [of reg 4] fixed_c_str [of sssid 33] fixed_c_str [of spass 65]
    by (simp add: blob terminate_strings_def)
qed



text \<open>
  A blob in which the sum fits and any four adjacent bytes are then changed is refused: the
  compiled defaults are used.
\<close>

theorem config_corruption_refused:
  assumes "length (a @ v @ z) = crc_len" "length v = 4" "length w = 4" "v \<noteq> w"
    and "length s = 4" "crc32_zlib (a @ v @ z) = le32 s"
  shows "config_load std (Some (Inr (a @ w @ z @ s) :: 'e + u8 list)) g = load_defaults std g"
proof -
  have len: "length (a @ w @ z) = 206" using assms(1-3) by (simp add: crc_len_def)
  then have "take crc_len (a @ w @ z @ s) = a @ w @ z" "drop 206 (a @ w @ z @ s) = s"
    using take_append [of 206 "a @ w @ z" s] drop_append [of 206 "a @ w @ z" s] by (simp_all add: crc_len_def)
  moreover have "crc32 (blob_of_bytes (a @ w @ z @ s)) = le32 s"
    by (simp only: blob_of_bytes_def hc33_config_v1.select_convs calculation)
  moreover have "crc32_zlib (a @ w @ z) \<noteq> le32 s" using crc32_detects [OF assms(2-4), of a z] assms(6) by simp
  ultimately show ?thesis by (simp add: config_load_def Let_def)
qed

lemma config_corruption_refused_witness:
  "config_load False (Some (Inr ([] @ [1, 2, 3, 4] @ replicate 202 0 @ bytes32 (crc32_zlib (replicate 206 0))) :: unit + u8 list)) g_cfg =
     load_defaults False g_cfg"
proof (rule config_corruption_refused)
  show "crc32_zlib ([] @ replicate 4 0 @ replicate 202 0) = le32 (bytes32 (crc32_zlib (replicate 206 0)))"
    using le32_bytes32 [of _ "[]"] by (simp flip: replicate_add)
  show "replicate 4 0 \<noteq> [1, 2, 3, 4 :: u8]" by (simp add: numeral_eq_Suc)
qed (simp_all add: crc_len_def bytes32_length)

end
