(* ===== verification/Ble_Central.thy ===== *)
theory Ble_Central
  imports MM_Prelude
begin

text \<open>
  The BLE central of ble_central.cpp: the scan that picks the mower, and the life of the NimBLE client
  and of the two characteristic handles. NimBLE is a parameter: what its calls answer is arbitrary.
\<close>

section \<open>The scan\<close>

record ble_adv =
  adv_addr :: u32
  adv_addr_type :: u8
  adv_rssi :: int
  adv_svc :: bool
  adv_name :: string

definition MOWER_RSSI_STRONG_DBM :: int where "MOWER_RSSI_STRONG_DBM = -55"

definition toupper :: "char \<Rightarrow> char" where
  "toupper c = (if 97 \<le> (of_char c :: nat) \<and> (of_char c :: nat) \<le> 122 then char_of ((of_char c :: nat) - 32) else c)"

definition has_prefix_ci :: "string \<Rightarrow> string \<Rightarrow> bool" where
  "has_prefix_ci name p \<longleftrightarrow> length p \<le> length name \<and> map toupper (take (length p) name) = p"

definition ble_name_is_rtk :: "string \<Rightarrow> bool" where
  "ble_name_is_rtk name \<longleftrightarrow> has_prefix_ci name ''RBS'' \<or> has_prefix_ci name ''RTK''"

text \<open>\<open>stop_asked\<close> says whether the callback asked the radio to stop.\<close>

record scan_cb =
  have_candidate :: bool
  best_rssi :: int
  best_addr :: u32
  best_addr_type :: u8
  best_name :: string
  stop_asked :: bool

definition cb_reset :: "scan_cb \<Rightarrow> scan_cb" where
  "cb_reset cb = cb\<lparr>have_candidate := False, best_rssi := -127, best_name := [], stop_asked := False\<rparr>"

definition onResult :: "ble_adv \<Rightarrow> scan_cb \<Rightarrow> scan_cb" where
  "onResult d cb =
     (if \<not> adv_svc d then cb
      else if ble_name_is_rtk (adv_name d) then cb
      else if have_candidate cb \<and> adv_rssi d \<le> best_rssi cb then cb
      else cb\<lparr>best_rssi := adv_rssi d, best_addr := adv_addr d, best_addr_type := adv_addr_type d,
              best_name := adv_name d, have_candidate := True,
              stop_asked := stop_asked cb \<or> MOWER_RSSI_STRONG_DBM \<le> adv_rssi d\<rparr>)"

text \<open>
  The polls of the waiting loop: whether the radio still scans, the clock, and what it reports until
  the next poll. The loop ends when the radio stopped or the deadline passed; a list that ends is a
  radio that stopped.
\<close>

type_synonym scan_polls = "(bool \<times> u32 \<times> ble_adv list) list"

fun scan_wait :: "u32 \<Rightarrow> scan_polls \<Rightarrow> scan_cb \<Rightarrow> scan_cb" where
  "scan_wait deadline [] cb = cb"
| "scan_wait deadline ((scanning, now, ads) # polls) cb =
     (if scanning \<and> 0 < sint (deadline - now) then scan_wait deadline polls (fold onResult ads cb) else cb)"

section \<open>The link\<close>

text \<open>
  A characteristic handle points into the client it was asked from; clients are numbered by NimBLE.
\<close>

datatype characteristic = Write_char nat | Notify_char nat

record 'e nimble =
  nb_connected :: "nat \<Rightarrow> 'e \<Rightarrow> bool"
  nb_delete :: "nat \<Rightarrow> 'e \<Rightarrow> 'e"
  nb_create :: "'e \<Rightarrow> nat \<times> 'e"
  nb_connect :: "nat \<Rightarrow> u32 \<Rightarrow> u8 \<Rightarrow> 'e \<Rightarrow> bool \<times> 'e"
  nb_disconnect :: "nat \<Rightarrow> 'e \<Rightarrow> 'e"
  nb_has_service :: "nat \<Rightarrow> 'e \<Rightarrow> bool \<times> 'e"
  nb_has_char :: "characteristic \<Rightarrow> 'e \<Rightarrow> bool \<times> 'e"
  nb_can_notify :: "characteristic \<Rightarrow> 'e \<Rightarrow> bool"
  nb_can_write_no_response :: "characteristic \<Rightarrow> 'e \<Rightarrow> bool"
  nb_subscribe :: "characteristic \<Rightarrow> 'e \<Rightarrow> bool \<times> 'e"
  nb_unsubscribe :: "characteristic \<Rightarrow> 'e \<Rightarrow> 'e"
  nb_write_value :: "characteristic \<Rightarrow> u8 list \<Rightarrow> bool \<Rightarrow> 'e \<Rightarrow> bool \<times> 'e"
  nb_scan :: "u32 \<Rightarrow> 'e \<Rightarrow> (u32 \<times> scan_polls) \<times> 'e"

record ble_central =
  client :: "nat option"
  write_char :: "characteristic option"
  notify_char :: "characteristic option"
  mower_addr :: u32
  mower_addr_type :: u8
  addr_known :: bool
  bonded_name :: string
  scan_callback :: scan_cb

definition SCAN_TIMEOUT_MS :: u32 where "SCAN_TIMEOUT_MS = 15000"

definition ScanCb :: scan_cb where
  "ScanCb = \<lparr>have_candidate = False, best_rssi = -127, best_addr = 0, best_addr_type = 0, best_name = [], stop_asked = False\<rparr>"

definition BleCentral :: ble_central where
  "BleCentral = \<lparr>client = None, write_char = None, notify_char = None, mower_addr = 0, mower_addr_type = 0,
     addr_known = False, bonded_name = [], scan_callback = ScanCb\<rparr>"

definition scan_for_mower :: "'e nimble \<Rightarrow> u32 \<Rightarrow> ble_central \<Rightarrow> 'e \<Rightarrow> bool \<times> ble_central \<times> 'e" where
  "scan_for_mower nb timeout_ms c e =
     (let ((now, polls), e1) = nb_scan nb timeout_ms e;
          cb = scan_wait (now + timeout_ms) polls (cb_reset (scan_callback c));
          c1 = c\<lparr>scan_callback := cb\<rparr>
      in if have_candidate cb
         then (True, c1\<lparr>mower_addr := best_addr cb, mower_addr_type := best_addr_type cb,
                        bonded_name := best_name cb, addr_known := True\<rparr>, e1)
         else (False, c1, e1))"

definition ble_is_connected :: "'e nimble \<Rightarrow> ble_central \<Rightarrow> 'e \<Rightarrow> bool" where
  "ble_is_connected nb c e = (case client c of None \<Rightarrow> False | Some k \<Rightarrow> nb_connected nb k e)"

text \<open>The first part of \<open>connect_mower\<close>: the old client goes, with the handles into it.\<close>

definition drop_client :: "'e nimble \<Rightarrow> ble_central \<Rightarrow> 'e \<Rightarrow> ble_central \<times> 'e" where
  "drop_client nb c e =
     (case client c of
        None \<Rightarrow> (c, e)
      | Some k \<Rightarrow> (c\<lparr>write_char := None, notify_char := None, client := None\<rparr>, nb_delete nb k e))"

text \<open>The part between the new client and the services: connect, with one fresh scan when that fails.\<close>

definition connect_link :: "'e nimble \<Rightarrow> nat \<Rightarrow> ble_central \<Rightarrow> 'e \<Rightarrow> bool \<times> ble_central \<times> 'e" where
  "connect_link nb k c e =
     (let (ok, e1) = nb_connect nb k (mower_addr c) (mower_addr_type c) e
      in if ok then (True, c, e1)
         else let (found, c1, e2) = scan_for_mower nb SCAN_TIMEOUT_MS (c\<lparr>addr_known := False\<rparr>) e1
          in if \<not> found then (False, c1, e2)
             else let (ok2, e3) = nb_connect nb k (mower_addr c1) (mower_addr_type c1) e2 in (ok2, c1, e3))"

text \<open>The rest: service, characteristics, subscription; each failure disconnects.\<close>

definition open_service :: "'e nimble \<Rightarrow> nat \<Rightarrow> ble_central \<Rightarrow> 'e \<Rightarrow> bool \<times> ble_central \<times> 'e" where
  "open_service nb k c e =
     (let (svc, e1) = nb_has_service nb k e
      in if \<not> svc then (False, c, nb_disconnect nb k e1)
         else let (w, e2) = nb_has_char nb (Write_char k) e1;
                  (n, e3) = nb_has_char nb (Notify_char k) e2;
                  c1 = c\<lparr>write_char := if w then Some (Write_char k) else None,
                         notify_char := if n then Some (Notify_char k) else None\<rparr>
          in if \<not> w \<or> \<not> n then (False, c1, nb_disconnect nb k e3)
             else if \<not> nb_can_notify nb (Notify_char k) e3 then (False, c1, nb_disconnect nb k e3)
             else let (sub, e4) = nb_subscribe nb (Notify_char k) e3
              in if \<not> sub then (False, c1, nb_disconnect nb k e4) else (True, c1, e4))"

definition ble_connect_mower :: "'e nimble \<Rightarrow> ble_central \<Rightarrow> 'e \<Rightarrow> bool \<times> ble_central \<times> 'e" where
  "ble_connect_mower nb c e =
     (if ble_is_connected nb c e then (True, c, e)
      else let (c1, e1) = drop_client nb c e;
               (known, c2, e2) = (if addr_known c1 then (True, c1, e1) else scan_for_mower nb SCAN_TIMEOUT_MS c1 e1)
       in if \<not> known then (False, c2, e2)
          else let (k, e3) = nb_create nb e2;
                   (ok, c3, e4) = connect_link nb k (c2\<lparr>client := Some k\<rparr>) e3
           in if \<not> ok then (False, c3, e4) else open_service nb k c3 e4)"

definition ble_disconnect_mower :: "'e nimble \<Rightarrow> ble_central \<Rightarrow> 'e \<Rightarrow> ble_central \<times> 'e" where
  "ble_disconnect_mower nb c e =
     (let e1 = (case notify_char c of None \<Rightarrow> e | Some h \<Rightarrow> nb_unsubscribe nb h e);
          c1 = c\<lparr>notify_char := None, write_char := None\<rparr>
      in (c1, case client c1 of
                None \<Rightarrow> e1
              | Some k \<Rightarrow> if nb_connected nb k e1 then nb_disconnect nb k e1 else e1))"

definition ble_write_value :: "'e nimble \<Rightarrow> u8 list \<Rightarrow> ble_central \<Rightarrow> 'e \<Rightarrow> bool \<times> 'e" where
  "ble_write_value nb data c e =
     (case write_char c of
        None \<Rightarrow> (False, e)
      | Some h \<Rightarrow> nb_write_value nb h data (\<not> nb_can_write_no_response nb h e) e)"

section \<open>What the scan selects\<close>

text \<open>The advertisements that the loop lets through, and the ones that count: the mower's service and not an RTK base.\<close>

fun heard :: "u32 \<Rightarrow> scan_polls \<Rightarrow> ble_adv list" where
  "heard deadline [] = []"
| "heard deadline ((scanning, now, ads) # polls) =
     (if scanning \<and> 0 < sint (deadline - now) then ads @ heard deadline polls else [])"

definition mower_like :: "ble_adv \<Rightarrow> bool" where
  "mower_like d \<longleftrightarrow> adv_svc d \<and> \<not> ble_name_is_rtk (adv_name d)"

lemma scan_wait_heard: "scan_wait dl polls cb = fold onResult (heard dl polls) cb"
  by (induction dl polls cb rule: scan_wait.induct) (simp_all add: fold_append)

text \<open>The callback holds \<open>d\<close>, the first of the strongest of \<open>ads\<close>.\<close>

definition strongest :: "ble_adv list \<Rightarrow> ble_adv \<Rightarrow> bool" where
  "strongest ads d \<longleftrightarrow> (\<exists>before after. ads = before @ d # after \<and> (\<forall>x \<in> set before. adv_rssi x < adv_rssi d) \<and>
     (\<forall>x \<in> set after. adv_rssi x \<le> adv_rssi d))"

definition holds_candidate :: "scan_cb \<Rightarrow> ble_adv \<Rightarrow> bool" where
  "holds_candidate cb d \<longleftrightarrow> have_candidate cb \<and> best_rssi cb = adv_rssi d \<and> best_addr cb = adv_addr d \<and>
     best_addr_type cb = adv_addr_type d \<and> best_name cb = adv_name d"

lemma strongest_snoc:
  "strongest ads d \<Longrightarrow> adv_rssi x \<le> adv_rssi d \<Longrightarrow> strongest (ads @ [x]) d"
  "strongest ads d \<Longrightarrow> adv_rssi d < adv_rssi x \<Longrightarrow> strongest (ads @ [x]) x"
  unfolding strongest_def by fastforce+

lemma fold_onResult:
  assumes "\<not> have_candidate cb"
  shows "if filter mower_like ads = [] then \<not> have_candidate (fold onResult ads cb)
    else \<exists>d. strongest (filter mower_like ads) d \<and> holds_candidate (fold onResult ads cb) d"
proof (induction ads rule: rev_induct)
  case Nil
  with assms show ?case by simp
next
  case (snoc x ads)
  let ?cb = "fold onResult ads cb"
  show ?case
  proof (cases "mower_like x")
    case False
    then have "onResult x ?cb = ?cb" by (auto simp: onResult_def mower_like_def)
    with snoc False show ?thesis by simp
  next
    case x: True
    show ?thesis
    proof (cases "filter mower_like ads = []")
      case True
      have "strongest [x] x" unfolding strongest_def by (rule exI [of _ "[]"], rule exI [of _ "[]"]) simp
      moreover have "holds_candidate (onResult x ?cb) x"
      proof -
        have "\<not> have_candidate ?cb" using True snoc by simp
        with x show ?thesis by (simp add: onResult_def mower_like_def holds_candidate_def)
      qed
      ultimately show ?thesis using True x by auto
    next
      case False
      then obtain d where d: "strongest (filter mower_like ads) d" "holds_candidate ?cb d" using snoc by auto
      show ?thesis
      proof (cases "adv_rssi x \<le> adv_rssi d")
        case True
        with d(2) x have "onResult x ?cb = ?cb" by (auto simp: onResult_def holds_candidate_def)
        with d strongest_snoc(1) [OF d(1) True] x show ?thesis by auto
      next
        case False
        with d(2) x have "holds_candidate (onResult x ?cb) x"
          by (auto simp: onResult_def holds_candidate_def mower_like_def)
        with strongest_snoc(2) [OF d(1), of x] False x show ?thesis by auto
      qed
    qed
  qed
qed

text \<open>
  C27: The scan succeeds exactly when some advertiser of the service that is no RTK base was heard, and
  selects the first of the strongest of them, by address, type and name.
\<close>

theorem scan_selects_strongest:
  assumes "nb_scan nb timeout_ms e = ((now, polls), e1)"
  defines "mowers \<equiv> filter mower_like (heard (now + timeout_ms) polls)"
  shows "\<exists>ok c1. scan_for_mower nb timeout_ms c e = (ok, c1, e1) \<and> (ok \<longleftrightarrow> mowers \<noteq> []) \<and>
    (if ok then addr_known c1 \<and> (\<exists>d. strongest mowers d \<and> mower_addr c1 = adv_addr d \<and>
                mower_addr_type c1 = adv_addr_type d \<and> bonded_name c1 = adv_name d)
     else addr_known c1 = addr_known c \<and> mower_addr c1 = mower_addr c)"
proof -
  have "\<not> have_candidate (cb_reset (scan_callback c))" by (simp add: cb_reset_def)
  from fold_onResult [OF this, of "heard (now + timeout_ms) polls"] show ?thesis
    unfolding mowers_def
    by (auto simp: scan_for_mower_def assms(1) scan_wait_heard Let_def holds_candidate_def split: if_splits)
qed

section \<open>No dangling handles\<close>

definition handles_ok :: "ble_central \<Rightarrow> bool" where
  "handles_ok c \<longleftrightarrow> (\<forall>h. write_char c = Some h \<longrightarrow> (\<exists>k. client c = Some k \<and> h = Write_char k)) \<and>
     (\<forall>h. notify_char c = Some h \<longrightarrow> (\<exists>k. client c = Some k \<and> h = Notify_char k))"

text \<open>What the proxy may do with the link, at any moment and in any state of NimBLE.\<close>

inductive ble_reach :: "'e nimble \<Rightarrow> ble_central \<Rightarrow> bool" for nb where
  ble_new: "ble_reach nb BleCentral"
| ble_connect: "ble_reach nb c \<Longrightarrow> ble_connect_mower nb c e = (ok, c1, e1) \<Longrightarrow> ble_reach nb c1"
| ble_disconnect: "ble_reach nb c \<Longrightarrow> ble_disconnect_mower nb c e = (c1, e1) \<Longrightarrow> ble_reach nb c1"

lemma scan_for_mower_handles:
  "scan_for_mower nb t c e = (ok, c1, e1) \<Longrightarrow>
     client c1 = client c \<and> write_char c1 = write_char c \<and> notify_char c1 = notify_char c"
  by (auto simp: scan_for_mower_def Let_def split: prod.splits if_splits)

lemma connect_link_handles:
  "connect_link nb k c e = (ok, c1, e1) \<Longrightarrow>
     client c1 = client c \<and> write_char c1 = write_char c \<and> notify_char c1 = notify_char c"
  by (auto simp: connect_link_def Let_def split: prod.splits if_splits dest!: scan_for_mower_handles)

lemma open_service_handles:
  assumes "open_service nb k c e = (ok, c1, e1)" "client c = Some k" "write_char c = None" "notify_char c = None"
  shows "handles_ok c1 \<and> (ok \<longrightarrow> write_char c1 \<noteq> None \<and> notify_char c1 \<noteq> None)"
  using assms by (auto simp: open_service_def handles_ok_def Let_def split: prod.splits if_splits)

lemma connect_mower_handles:
  assumes "ble_connect_mower nb c e = (ok, c1, e1)" "handles_ok c"
  shows "handles_ok c1 \<and> (ok \<longrightarrow> write_char c1 \<noteq> None \<and> notify_char c1 \<noteq> None \<or> ble_is_connected nb c e \<and> c1 = c)"
proof (cases "ble_is_connected nb c e")
  case True
  with assms show ?thesis by (simp add: ble_connect_mower_def)
next
  case False
  obtain ca ea where d: "drop_client nb c e = (ca, ea)" by fastforce
  have ca: "client ca = None" "write_char ca = None" "notify_char ca = None"
    using d assms(2) by (auto simp: drop_client_def handles_ok_def split: option.splits)
  obtain known cb eb where s: "(if addr_known ca then (True, ca, ea) else scan_for_mower nb SCAN_TIMEOUT_MS ca ea) = (known, cb, eb)"
    by (metis prod_cases3)
  have cb: "client cb = None" "write_char cb = None" "notify_char cb = None"
    using s ca scan_for_mower_handles by (fastforce split: if_splits)+
  obtain k ec where k: "nb_create nb eb = (k, ec)" by fastforce
  obtain ok1 cd ed where l: "connect_link nb k (cb\<lparr>client := Some k\<rparr>) ec = (ok1, cd, ed)" by (metis prod_cases3)
  have cd: "client cd = Some k" "write_char cd = None" "notify_char cd = None"
    using connect_link_handles [OF l] cb by simp_all
  have "handles_ok cb" "handles_ok cd" using cb cd by (simp_all add: handles_ok_def)
  then show ?thesis
  proof (cases "known \<and> ok1")
    case True
    then have "open_service nb k cd ed = (ok, c1, e1)" using assms(1) False d s k l by (simp add: ble_connect_mower_def)
    from open_service_handles [OF this cd] show ?thesis by blast
  next
    case not_open: False
    then have "\<not> ok" "c1 = cb \<or> c1 = cd" using assms(1) False d s k l
      by (auto simp: ble_connect_mower_def split: if_splits)
    with \<open>handles_ok cb\<close> \<open>handles_ok cd\<close> show ?thesis by blast
  qed
qed

lemma connect_mower_connected: "ble_is_connected nb c e \<Longrightarrow> ble_connect_mower nb c e = (True, c, e)"
  by (simp add: ble_connect_mower_def)

text \<open>
  C28: Whatever the proxy and NimBLE do, a characteristic handle that is held points into the current
  client. A connect on a link that is down yields, when it succeeds, both handles, of the new client. A connect
  on a link that NimBLE still reports succeeds at once and changes nothing; a disconnect gives both handles
  up, so a connect before the link is really down succeeds with none.
\<close>

theorem ble_handles:
  assumes "ble_reach nb c"
  shows "handles_ok c \<and>
    (\<forall>e ok c1 e1. ble_connect_mower nb c e = (ok, c1, e1) \<longrightarrow>
       (if ble_is_connected nb c e then ok \<and> c1 = c \<and> e1 = e
        else ok \<longrightarrow> (\<exists>k. client c1 = Some k \<and> write_char c1 = Some (Write_char k) \<and> notify_char c1 = Some (Notify_char k)))) \<and>
    (\<forall>e c1 e1. ble_disconnect_mower nb c e = (c1, e1) \<longrightarrow> write_char c1 = None \<and> notify_char c1 = None \<and>
       (ble_is_connected nb c1 e1 \<longrightarrow> ble_connect_mower nb c1 e1 = (True, c1, e1)))"
proof (intro conjI allI impI)
  show h: "handles_ok c"
    using assms
  proof (induction rule: ble_reach.induct)
    case ble_new
    show ?case by (simp add: handles_ok_def BleCentral_def)
  next
    case (ble_connect c e ok c1 e1)
    from connect_mower_handles [OF ble_connect.hyps(2) ble_connect.IH] show ?case by (rule conjunct1)
  next
    case (ble_disconnect c e c1 e1)
    then show ?case by (auto simp: ble_disconnect_mower_def handles_ok_def Let_def)
  qed
  fix e ok c1 e1 assume r: "ble_connect_mower nb c e = (ok, c1, e1)"
  show "if ble_is_connected nb c e then ok \<and> c1 = c \<and> e1 = e
    else ok \<longrightarrow> (\<exists>k. client c1 = Some k \<and> write_char c1 = Some (Write_char k) \<and> notify_char c1 = Some (Notify_char k))"
  proof (cases "ble_is_connected nb c e")
    case True
    with r connect_mower_connected [OF True] show ?thesis by simp
  next
    case False
    with connect_mower_handles [OF r h] show ?thesis by (auto simp: handles_ok_def)
  qed
next
  fix e c1 e1 assume d: "ble_disconnect_mower nb c e = (c1, e1)"
  then show "write_char c1 = None" "notify_char c1 = None" by (auto simp: ble_disconnect_mower_def Let_def)
qed (rule connect_mower_connected)

text \<open>A NimBLE for the witnesses: one mower in range, each call succeeds, the environment counts clients.\<close>

definition near_mower :: "nat nimble" where
  "near_mower = \<lparr>nb_connected = (\<lambda>k e. k + 1 = e), nb_delete = (\<lambda>k e. e), nb_create = (\<lambda>e. (e + 1, e + 1)),
     nb_connect = (\<lambda>k a t e. (True, e + 1)), nb_disconnect = (\<lambda>k e. e + 1), nb_has_service = (\<lambda>k e. (True, e)),
     nb_has_char = (\<lambda>h e. (True, e)), nb_can_notify = (\<lambda>h e. True), nb_can_write_no_response = (\<lambda>h e. True),
     nb_subscribe = (\<lambda>h e. (True, e)), nb_unsubscribe = (\<lambda>h e. e), nb_write_value = (\<lambda>h d r e. (True, e)),
     nb_scan = (\<lambda>t e. ((0, [(True, 0, [\<lparr>adv_addr = 9, adv_addr_type = 0, adv_rssi = -30, adv_svc = True, adv_name = ''RTKB''\<rparr>,
       \<lparr>adv_addr = 7, adv_addr_type = 1, adv_rssi = -40, adv_svc = True, adv_name = ''Luba''\<rparr>])]), e))\<rparr>"

lemma near_scan: "scan_for_mower near_mower SCAN_TIMEOUT_MS BleCentral 0 =
  (True, BleCentral\<lparr>mower_addr := 7, mower_addr_type := 1, addr_known := True, bonded_name := ''Luba'',
     scan_callback := \<lparr>have_candidate = True, best_rssi = -40, best_addr = 7, best_addr_type = 1, best_name = ''Luba'',
       stop_asked = True\<rparr>\<rparr>, 0)"
  by (simp add: scan_for_mower_def near_mower_def SCAN_TIMEOUT_MS_def BleCentral_def ScanCb_def cb_reset_def onResult_def
    ble_name_is_rtk_def has_prefix_ci_def toupper_def MOWER_RSSI_STRONG_DBM_def Let_def)

lemma scan_selects_strongest_witness:
  "\<exists>c1. scan_for_mower near_mower SCAN_TIMEOUT_MS BleCentral 0 = (True, c1, 0) \<and> mower_addr c1 = 7 \<and>
     (\<exists>d. strongest (filter mower_like (heard (0 + SCAN_TIMEOUT_MS)
        [(True, 0, [\<lparr>adv_addr = 9, adv_addr_type = 0, adv_rssi = -30, adv_svc = True, adv_name = ''RTKB''\<rparr>,
           \<lparr>adv_addr = 7, adv_addr_type = 1, adv_rssi = -40, adv_svc = True, adv_name = ''Luba''\<rparr>])])) d \<and> adv_addr d = 7)"
proof -
  have "nb_scan near_mower SCAN_TIMEOUT_MS 0 =
      ((0, [(True, 0, [\<lparr>adv_addr = 9, adv_addr_type = 0, adv_rssi = -30, adv_svc = True, adv_name = ''RTKB''\<rparr>,
         \<lparr>adv_addr = 7, adv_addr_type = 1, adv_rssi = -40, adv_svc = True, adv_name = ''Luba''\<rparr>])]), 0)"
    by (simp add: near_mower_def)
  from scan_selects_strongest [OF this, of BleCentral] obtain ok c1 d where s: "scan_for_mower near_mower SCAN_TIMEOUT_MS BleCentral 0 = (ok, c1, 0)"
    "ok \<longrightarrow> strongest (filter mower_like (heard (0 + SCAN_TIMEOUT_MS)
        [(True, 0, [\<lparr>adv_addr = 9, adv_addr_type = 0, adv_rssi = -30, adv_svc = True, adv_name = ''RTKB''\<rparr>,
           \<lparr>adv_addr = 7, adv_addr_type = 1, adv_rssi = -40, adv_svc = True, adv_name = ''Luba''\<rparr>])])) d \<and> mower_addr c1 = adv_addr d"
    by (auto split: if_splits)
  have o: "ok" "mower_addr c1 = 7" using s(1) near_scan by auto
  then have "scan_for_mower near_mower SCAN_TIMEOUT_MS BleCentral 0 = (True, c1, 0)" "adv_addr d = 7"
    using s by (simp_all only: simp_thms)
  with s(2) o show ?thesis by blast
qed

text \<open>The first connect of the near mower.\<close>

lemma near_connect:
  "\<exists>c1. ble_connect_mower near_mower BleCentral 0 = (True, c1, 2) \<and> client c1 = Some 1 \<and> write_char c1 = Some (Write_char 1)"
proof -
  have "nb_create near_mower e = (e + 1, e + 1)" "nb_connect near_mower k a t e = (True, e + 1)"
    "nb_has_service near_mower k e = (True, e)" "nb_has_char near_mower h e = (True, e)" "nb_can_notify near_mower h e"
    "nb_subscribe near_mower h e = (True, e)" for e k a t h
    by (simp_all add: near_mower_def)
  moreover have "client BleCentral = None" "\<not> addr_known BleCentral" by (simp_all add: BleCentral_def)
  ultimately show ?thesis
    by (simp add: ble_connect_mower_def ble_is_connected_def drop_client_def connect_link_def open_service_def near_scan
      numeral_2_eq_2)
qed

lemma ble_handles_witness:
  "\<exists>c. ble_reach near_mower c \<and> client c = Some 1 \<and> handles_ok c \<and> write_char c = Some (Write_char 1)"
proof -
  obtain c1 where c: "ble_connect_mower near_mower BleCentral 0 = (True, c1, 2)" "client c1 = Some 1"
    "write_char c1 = Some (Write_char 1)"
    using near_connect by blast
  have "ble_reach near_mower c1" by (rule ble_connect [OF ble_new c(1)])
  with ble_handles [OF this] c show ?thesis by blast
qed

text \<open>
  A client that comes while the disconnect of the link before it is still under way gets a
  connect that succeeds without handles; all its writes fail.
\<close>

theorem ble_early_reconnect:
  assumes "ble_disconnect_mower nb c e = (c1, e1)" and "client c1 = Some k" and "nb_connected nb k e1"
  shows "ble_connect_mower nb c1 e1 = (True, c1, e1) \<and> (\<forall>data e2. ble_write_value nb data c1 e2 = (False, e2))"
proof -
  have "write_char c1 = None" using assms(1) by (auto simp: ble_disconnect_mower_def Let_def)
  with assms(2,3) show ?thesis by (simp add: ble_connect_mower_def ble_is_connected_def ble_write_value_def)
qed

lemma ble_early_reconnect_witness:
  "\<exists>c1. ble_disconnect_mower (near_mower\<lparr>nb_disconnect := \<lambda>k e. e\<rparr>)
       (BleCentral\<lparr>client := Some 1, write_char := Some (Write_char 1)\<rparr>) 2 = (c1, 2) \<and>
     ble_connect_mower (near_mower\<lparr>nb_disconnect := \<lambda>k e. e\<rparr>) c1 2 = (True, c1, 2)"
proof -
  let ?nb = "near_mower\<lparr>nb_disconnect := \<lambda>k e. e\<rparr>" and ?c = "BleCentral\<lparr>client := Some 1\<rparr>"
  have "ble_disconnect_mower ?nb (BleCentral\<lparr>client := Some 1, write_char := Some (Write_char 1)\<rparr>) 2 = (?c, 2)"
    by (simp add: ble_disconnect_mower_def near_mower_def BleCentral_def)
  with ble_early_reconnect [OF this] show ?thesis by (simp add: near_mower_def)
qed

section \<open>How long a connect may take\<close>

definition BLE_CONNECT_TIMEOUT_MS :: nat where "BLE_CONNECT_TIMEOUT_MS = 10000"

text \<open>The timeout of the task watchdog that \<open>setup\<close> configures and \<open>loop\<close> feeds once per round.\<close>

definition wdt_timeout_ms :: nat where "wdt_timeout_ms = 30000"

text \<open>
  The bounds of NimBLE's calls on a clock in milliseconds: the scan loop ends at most one poll of 50 ms after
  its window and a connect attempt after its timeout, both with a slack of \<open>P\<close> for starting and stopping them;
  every other call that blocks takes at most \<open>G\<close> (service discovery and the subscription wait for the mower).
\<close>

definition timed :: "'e nimble \<Rightarrow> ('e \<Rightarrow> nat) \<Rightarrow> nat \<Rightarrow> nat \<Rightarrow> bool" where
  "timed nb clk P G \<longleftrightarrow>
     (\<forall>t e. clk (snd (nb_scan nb t e)) \<le> clk e + unat t + 50 + P) \<and>
     (\<forall>k a ty e. clk (snd (nb_connect nb k a ty e)) \<le> clk e + BLE_CONNECT_TIMEOUT_MS + P) \<and>
     (\<forall>k e. clk (nb_delete nb k e) \<le> clk e + G) \<and> (\<forall>e. clk (snd (nb_create nb e)) \<le> clk e + G) \<and>
     (\<forall>k e. clk (nb_disconnect nb k e) \<le> clk e + G) \<and> (\<forall>k e. clk (snd (nb_has_service nb k e)) \<le> clk e + G) \<and>
     (\<forall>h e. clk (snd (nb_has_char nb h e)) \<le> clk e + G) \<and> (\<forall>h e. clk (snd (nb_subscribe nb h e)) \<le> clk e + G)"

lemma timedD:
  assumes "timed nb clk P G"
  shows "nb_scan nb t e = (r, e1) \<Longrightarrow> clk e1 \<le> clk e + unat t + 50 + P"
    and "nb_connect nb k a ty e = (b, e1) \<Longrightarrow> clk e1 \<le> clk e + BLE_CONNECT_TIMEOUT_MS + P"
    and "nb_create nb e = (k, e1) \<Longrightarrow> clk e1 \<le> clk e + G"
    and "nb_has_service nb k e = (b, e1) \<Longrightarrow> clk e1 \<le> clk e + G"
    and "nb_has_char nb h e = (b, e1) \<Longrightarrow> clk e1 \<le> clk e + G"
    and "nb_subscribe nb h e = (b, e1) \<Longrightarrow> clk e1 \<le> clk e + G"
    and "clk (nb_disconnect nb k e) \<le> clk e + G"
    and "clk (nb_delete nb k e) \<le> clk e + G"
  using assms unfolding timed_def by (metis snd_conv)+

lemma scan_time:
  assumes "timed nb clk P G" "scan_for_mower nb t c e = (ok, c1, e1)"
  shows "clk e1 \<le> clk e + unat t + 50 + P"
proof -
  obtain now polls e2 where s: "nb_scan nb t e = ((now, polls), e2)" by (metis prod.exhaust)
  with assms(2) have "e1 = e2" by (auto simp: scan_for_mower_def Let_def split: if_splits)
  with timedD(1) [OF assms(1) s] show ?thesis by simp
qed

lemma open_service_time:
  assumes "timed nb clk P G" "open_service nb k c e = (ok, c1, e1)"
  shows "clk e1 \<le> clk e + 5 * G"
proof -
  note T = timedD [OF assms(1)]
  obtain svc ea where a: "nb_has_service nb k e = (svc, ea)" by fastforce
  obtain w eb where b: "nb_has_char nb (Write_char k) ea = (w, eb)" by fastforce
  obtain n ec where c: "nb_has_char nb (Notify_char k) eb = (n, ec)" by fastforce
  obtain sub ed where d: "nb_subscribe nb (Notify_char k) ec = (sub, ed)" by fastforce
  have "e1 \<in> {nb_disconnect nb k ea, nb_disconnect nb k ec, nb_disconnect nb k ed, ed}"
    using assms(2) by (auto simp: open_service_def a b c d Let_def split: if_splits)
  moreover have "clk (nb_disconnect nb k ea) \<le> clk ea + G" "clk (nb_disconnect nb k ec) \<le> clk ec + G"
    "clk (nb_disconnect nb k ed) \<le> clk ed + G" by (rule T(7))+
  ultimately show ?thesis using T(4) [OF a] T(5) [OF b] T(5) [OF c] T(6) [OF d] by auto
qed

lemma connect_link_time:
  assumes "timed nb clk P G" "connect_link nb k c e = (ok, c1, e1)"
  shows "clk e1 \<le> clk e + 35050 + 3 * P"
    and "fst (nb_connect nb k (mower_addr c) (mower_addr_type c) e) \<Longrightarrow> clk e1 \<le> clk e + 10000 + P"
  using assms(2)
  by (auto simp: connect_link_def Let_def BLE_CONNECT_TIMEOUT_MS_def SCAN_TIMEOUT_MS_def split: prod.splits if_splits
      dest!: timedD(2) [OF assms(1)] scan_time [OF assms(1)])

lemma drop_client_time:
  assumes "timed nb clk P G" "drop_client nb c e = (c1, e1)"
  shows "clk e1 \<le> clk e + G"
  using assms(2) timedD(8) [OF assms(1)] by (auto simp: drop_client_def split: option.splits)

text \<open>A mower that advertises and never accepts: both scans and both connects take their full time.\<close>

definition deaf_mower :: "nat nimble" where
  "deaf_mower = near_mower\<lparr>nb_connected := (\<lambda>k e. False), nb_create := (\<lambda>e. (e, e)), nb_connect := (\<lambda>k a t e. (False, e + 10000)),
     nb_disconnect := (\<lambda>k e. e), nb_scan := (\<lambda>t e. (fst (nb_scan near_mower t 0), e + unat t))\<rparr>"

lemma deaf_mower_timed: "timed deaf_mower (\<lambda>e. e) 0 0"
  by (simp add: timed_def deaf_mower_def near_mower_def BLE_CONNECT_TIMEOUT_MS_def)

lemma deaf_scan: "\<exists>c1. scan_for_mower deaf_mower SCAN_TIMEOUT_MS c e = (True, c1, e + 15000)"
  by (simp add: scan_for_mower_def deaf_mower_def near_mower_def SCAN_TIMEOUT_MS_def cb_reset_def onResult_def
    ble_name_is_rtk_def has_prefix_ci_def toupper_def MOWER_RSSI_STRONG_DBM_def Let_def)

lemma deaf_connect: "\<exists>c1. ble_connect_mower deaf_mower BleCentral 0 = (False, c1, 50000)"
proof -
  obtain ca where a: "scan_for_mower deaf_mower SCAN_TIMEOUT_MS BleCentral 0 = (True, ca, 15000)"
    using deaf_scan [of BleCentral 0] by auto
  obtain cb where b: "scan_for_mower deaf_mower SCAN_TIMEOUT_MS (ca\<lparr>client := Some 15000, addr_known := False\<rparr>) 25000 = (True, cb, 40000)"
    using deaf_scan [of "ca\<lparr>client := Some 15000, addr_known := False\<rparr>" 25000] by auto
  have n: "nb_create deaf_mower e = (e, e)" "nb_connect deaf_mower k ad ty e = (False, e + 10000)" for e k ad ty
    by (simp_all add: deaf_mower_def)
  have l: "connect_link deaf_mower 15000 (ca\<lparr>client := Some 15000\<rparr>) 15000 = (False, cb, 50000)"
    by (simp add: connect_link_def n b)
  have i: "client BleCentral = None" "\<not> addr_known BleCentral" by (simp_all add: BleCentral_def)
  show ?thesis
    by (simp add: ble_connect_mower_def ble_is_connected_def drop_client_def i a n l)
qed



end
