(* ===== verification/Mmnetif.thy ===== *)
theory Mmnetif
  imports Mmpkt "HOL-Library.Multiset"
begin

text \<open>
  The lwIP network interface of the HaLow link: mmnetif.c, and the replacement of its transmit function
  in halow_tx_nonblock.cpp with its counters. lwIP and the WLAN library (mmwlan) are parameters.
\<close>

section \<open>Transmitting\<close>

datatype err_t = ERR_OK | ERR_MEM | ERR_BUF | ERR_IF

text \<open>A pbuf chain: the total length it claims and the payloads of its members.\<close>

record pbuf =
  tot_len :: u16
  payloads :: "u8 list list"

text \<open>
  \<open>mw_ready\<close> waits up to the given time for permission to transmit; \<open>mw_tx\<close> takes the packet over with
  its traffic id, \<open>None\<close> for the default.
\<close>

record 'w mmwlan =
  mw_ready :: "u32 \<Rightarrow> 'w \<Rightarrow> bool \<times> 'w"
  mw_alloc :: "u32 \<Rightarrow> u8 \<Rightarrow> 'w \<Rightarrow> mmpkt option \<times> 'w"
  mw_tx :: "mmpkt \<Rightarrow> u8 option \<Rightarrow> 'w \<Rightarrow> bool \<times> 'w"

record link_stats =
  lk_xmit :: nat
  lk_recv :: nat
  lk_drop :: nat
  lk_memerr :: nat

definition MMWLAN_TX_DEFAULT_QOS_TID :: u8 where "MMWLAN_TX_DEFAULT_QOS_TID = 0"
definition MMWLAN_MAX_QOS_TID :: u8 where "MMWLAN_MAX_QOS_TID = 7"

text \<open>The loop over the chain.\<close>

fun append_chain :: "mmpkt \<Rightarrow> u8 list list \<Rightarrow> mmpkt result" where
  "append_chain pkt [] = Inr pkt"
| "append_chain pkt (payload # rest) =
     rbind (mmpkt_append_data pkt payload (of_nat (length payload))) (\<lambda>pkt1. append_chain pkt1 rest)"

definition mmnetif_tx ::
    "'w mmwlan \<Rightarrow> u8 \<Rightarrow> pbuf \<Rightarrow> link_stats \<Rightarrow> 'w \<Rightarrow> (err_t \<times> link_stats \<times> 'w) result" where
  "mmnetif_tx mw tx_qos_tid p lk w =
     (let (ready, w1) = mw_ready mw 1000 w
      in if \<not> ready then Inr (ERR_BUF, lk\<lparr>lk_drop := lk_drop lk + 1\<rparr>, w1)
         else case mw_alloc mw (ucast (tot_len p)) tx_qos_tid w1 of
            (None, w2) \<Rightarrow> Inr (ERR_MEM, lk\<lparr>lk_memerr := lk_memerr lk + 1\<rparr>, w2)
          | (Some pkt, w2) \<Rightarrow>
              rbind (append_chain pkt (payloads p)) (\<lambda>pkt1.
                let (ok, w3) = mw_tx mw pkt1 (Some tx_qos_tid) w2
                in Inr (if \<not> ok then (ERR_BUF, lk\<lparr>lk_drop := lk_drop lk + 1\<rparr>, w3)
                        else (ERR_OK, lk\<lparr>lk_xmit := lk_xmit lk + 1\<rparr>, w3))))"

record halow_tx_nonblock =
  s_attempts :: u32
  s_ok :: u32
  s_busy_drops :: u32
  s_alloc_drops :: u32
  s_send_drops :: u32
  s_timeout_ms :: u32

definition halow_tx_nonblock_init :: halow_tx_nonblock where
  "halow_tx_nonblock_init = \<lparr>s_attempts = 0, s_ok = 0, s_busy_drops = 0, s_alloc_drops = 0, s_send_drops = 0,
     s_timeout_ms = 50\<rparr>"

definition hc33_halow_linkoutput ::
    "'w mmwlan \<Rightarrow> pbuf \<Rightarrow> halow_tx_nonblock \<Rightarrow> 'w \<Rightarrow> (err_t \<times> halow_tx_nonblock \<times> 'w) result" where
  "hc33_halow_linkoutput mw p st0 w =
     (let st = st0\<lparr>s_attempts := s_attempts st0 + 1\<rparr>;
          (ready, w1) = mw_ready mw (s_timeout_ms st) w
      in if \<not> ready then Inr (ERR_BUF, st\<lparr>s_busy_drops := s_busy_drops st + 1\<rparr>, w1)
         else case mw_alloc mw (ucast (tot_len p)) 0 w1 of
            (None, w2) \<Rightarrow> Inr (ERR_MEM, st\<lparr>s_alloc_drops := s_alloc_drops st + 1\<rparr>, w2)
          | (Some pkt, w2) \<Rightarrow>
              rbind (append_chain pkt (payloads p)) (\<lambda>pkt1.
                let (ok, w3) = mw_tx mw pkt1 None w2
                in Inr (if \<not> ok then (ERR_BUF, st\<lparr>s_send_drops := s_send_drops st + 1\<rparr>, w3)
                        else (ERR_OK, st\<lparr>s_ok := s_ok st + 1\<rparr>, w3))))"

definition hc33_halow_tx_nonblock_set_timeout :: "u32 \<Rightarrow> halow_tx_nonblock \<Rightarrow> halow_tx_nonblock" where
  "hc33_halow_tx_nonblock_set_timeout timeout_ms st = st\<lparr>s_timeout_ms := timeout_ms\<rparr>"

text \<open>A null pointer is not written to; otherwise all six numbers are copied.\<close>

definition hc33_halow_tx_nonblock_get_stats :: "halow_tx_nonblock option \<Rightarrow> halow_tx_nonblock \<Rightarrow> halow_tx_nonblock option" where
  "hc33_halow_tx_nonblock_get_stats out st = (case out of None \<Rightarrow> None | Some _ \<Rightarrow> Some st)"

text \<open>What the library promises of a packet it allocates: it is empty and the requested length fits.\<close>

definition alloc_promise :: "'w mmwlan \<Rightarrow> bool" where
  "alloc_promise mw \<longleftrightarrow> (\<forall>n tid w pkt w1. mw_alloc mw n tid w = (Some pkt, w1) \<longrightarrow>
     mmpkt_ok pkt \<and> mmpkt_data pkt = [] \<and> unat n \<le> mmpkt_tailroom pkt)"

definition chain_ok :: "pbuf \<Rightarrow> bool" where
  "chain_ok p \<longleftrightarrow> unat (tot_len p) = length (concat (payloads p))"

lemma append_chain_append_all: "append_chain pkt ds = append_all mmpkt_append_data pkt ds"
  by (induction ds arbitrary: pkt) simp_all

lemma append_chain_copies:
  assumes "alloc_promise mw" "mw_alloc mw (ucast (tot_len p)) tid w = (Some pkt, w1)" "chain_ok p"
  shows "\<exists>pkt1. append_chain pkt (payloads p) = Inr pkt1 \<and> mmpkt_ok pkt1 \<and> mmpkt_data pkt1 = concat (payloads p)"
proof -
  have pkt: "mmpkt_ok pkt" "mmpkt_data pkt = []" "unat (ucast (tot_len p) :: u32) \<le> mmpkt_tailroom pkt"
    using assms(1,2) unfolding alloc_promise_def by blast+
  then have "length (concat (payloads p)) \<le> mmpkt_tailroom pkt"
    using assms(3) by (simp add: chain_ok_def unsigned_ucast_eq take_bit_nat_eq_self)
  moreover have "mmpkt_tailroom pkt < 4294967296" by (simp add: mmpkt_tailroom_def)
  ultimately show ?thesis
    using mp.append_all_ok [OF pkt(1), of "payloads p"] pkt(2) by (auto simp: append_chain_append_all)
qed

text \<open>Each attempt is counted once, as sent or as one of the three drops.\<close>

definition tx_counted :: "halow_tx_nonblock \<Rightarrow> bool" where
  "tx_counted st \<longleftrightarrow> s_attempts st = s_ok st + s_busy_drops st + s_alloc_drops st + s_send_drops st"

text \<open>
  The transmit function that replaces the blocking one never reaches an assertion, counts every
  attempt exactly once, and when it reports success the WLAN library has accepted exactly one packet,
  whose bytes are those of the chain.
\<close>

theorem halow_linkoutput_sends:
  assumes "alloc_promise mw" and "chain_ok p" and "tx_counted st"
  shows "\<exists>err st1 w1. hc33_halow_linkoutput mw p st w = Inr (err, st1, w1) \<and> tx_counted st1 \<and>
    s_attempts st1 = s_attempts st + 1 \<and>
    (err = ERR_OK \<longrightarrow> s_ok st1 = s_ok st + 1 \<and>
       (\<exists>pkt w0. mmpkt_data pkt = concat (payloads p) \<and> mw_tx mw pkt None w0 = (True, w1)))"
proof -
  obtain ready wa where r: "mw_ready mw (s_timeout_ms st) w = (ready, wa)" by fastforce
  obtain o_pkt wb where a: "mw_alloc mw (ucast (tot_len p)) 0 wa = (o_pkt, wb)" by fastforce
  have counted: "tx_counted (st\<lparr>s_attempts := s_attempts st + 1, s_busy_drops := s_busy_drops st + 1\<rparr>)"
    "tx_counted (st\<lparr>s_attempts := s_attempts st + 1, s_alloc_drops := s_alloc_drops st + 1\<rparr>)"
    "tx_counted (st\<lparr>s_attempts := s_attempts st + 1, s_send_drops := s_send_drops st + 1\<rparr>)"
    "tx_counted (st\<lparr>s_attempts := s_attempts st + 1, s_ok := s_ok st + 1\<rparr>)"
    using assms(3) by (simp_all add: tx_counted_def)
  show ?thesis
  proof (cases "ready \<and> o_pkt \<noteq> None")
    case False
    then consider "\<not> ready" | "ready" "o_pkt = None" by blast
    then show ?thesis by cases (use r a counted in \<open>simp_all add: hc33_halow_linkoutput_def\<close>)
  next
    case True
    then obtain pkt where pkt: "o_pkt = Some pkt" by auto
    obtain pkt1 where c: "append_chain pkt (payloads p) = Inr pkt1" "mmpkt_data pkt1 = concat (payloads p)"
      using append_chain_copies [OF assms(1) a [unfolded pkt] assms(2)] by blast
    obtain ok wc where t: "mw_tx mw pkt1 None wb = (ok, wc)" by fastforce
    show ?thesis
    proof (cases ok)
      case False
      with True r a pkt c t counted show ?thesis by (simp add: hc33_halow_linkoutput_def)
    next
      case sent: True
      have "hc33_halow_linkoutput mw p st w = Inr (ERR_OK, st\<lparr>s_attempts := s_attempts st + 1, s_ok := s_ok st + 1\<rparr>, wc)"
        using True r a pkt c t sent by (simp add: hc33_halow_linkoutput_def)
      with counted c(2) t sent show ?thesis by auto
    qed
  qed
qed

text \<open>A WLAN library for the witness: ready, with a block of 16 bytes for every packet.\<close>

definition small_wlan :: "mmpkt list mmwlan" where
  "small_wlan = \<lparr>mw_ready = (\<lambda>t w. (True, w)),
     mw_alloc = (\<lambda>n tid w. (if n \<le> 16 then Some (mmpkt_init (replicate 44 0) 28 16 0 None) else None, w)),
     mw_tx = (\<lambda>pkt tid w. (True, w @ [pkt]))\<rparr>"

lemma small_wlan_alloc: "alloc_promise small_wlan"
  by (auto simp: alloc_promise_def small_wlan_def mmpkt_init_def mmpkt_ok_def mmpkt_data_def window_def
      mmpkt_tailroom_def mmpkt_defs u32_le_iff split: if_splits)

lemma halow_linkoutput_sends_witness:
  "\<exists>st1 pkts. hc33_halow_linkoutput small_wlan \<lparr>tot_len = 3, payloads = [[1, 2], [3]]\<rparr> halow_tx_nonblock_init [] =
     Inr (ERR_OK, st1, pkts) \<and> tx_counted st1 \<and> s_ok st1 = 1"
proof -
  let ?p = "\<lparr>tot_len = 3, payloads = [[1, 2], [3 :: u8]]\<rparr>"
  have p: "chain_ok ?p" "tx_counted halow_tx_nonblock_init"
    by (simp_all add: chain_ok_def tx_counted_def halow_tx_nonblock_init_def)
  obtain pkt1 where c: "append_chain (mmpkt_init (replicate 44 0) 28 16 0 None) [[1, 2], [3 :: u8]] = Inr pkt1"
    using append_chain_copies [OF small_wlan_alloc _ p(1), of 0 "[]" "mmpkt_init (replicate 44 0) 28 16 0 None" "[]"]
    by (auto simp: small_wlan_def)
  have "\<exists>st1 pkts. hc33_halow_linkoutput small_wlan ?p halow_tx_nonblock_init [] = Inr (ERR_OK, st1, pkts)"
    by (simp add: hc33_halow_linkoutput_def small_wlan_def c del: append_chain.simps)
  with halow_linkoutput_sends [OF small_wlan_alloc p, of "[]"] show ?thesis
    by (auto simp: halow_tx_nonblock_init_def)
qed

text \<open>The same for the original function, whose counters are those of lwIP.\<close>

lemma mmnetif_tx_sends:
  assumes "alloc_promise mw" and "chain_ok p"
  shows "\<exists>err lk1 w1. mmnetif_tx mw tid p lk w = Inr (err, lk1, w1) \<and>
    lk_xmit lk1 + lk_drop lk1 + lk_memerr lk1 = lk_xmit lk + lk_drop lk + lk_memerr lk + 1 \<and>
    (err = ERR_OK \<longrightarrow> (\<exists>pkt w0. mmpkt_data pkt = concat (payloads p) \<and> mw_tx mw pkt (Some tid) w0 = (True, w1)))"
proof -
  obtain ready wa where r: "mw_ready mw 1000 w = (ready, wa)" by fastforce
  obtain o_pkt wb where a: "mw_alloc mw (ucast (tot_len p)) tid wa = (o_pkt, wb)" by fastforce
  show ?thesis
  proof (cases "ready \<and> o_pkt \<noteq> None")
    case False
    then consider "\<not> ready" | "ready" "o_pkt = None" by blast
    then show ?thesis by cases (use r a in \<open>simp_all add: mmnetif_tx_def\<close>)
  next
    case True
    then obtain pkt where pkt: "o_pkt = Some pkt" by auto
    obtain pkt1 where c: "append_chain pkt (payloads p) = Inr pkt1" "mmpkt_data pkt1 = concat (payloads p)"
      using append_chain_copies [OF assms(1) a [unfolded pkt] assms(2)] by blast
    obtain ok wc where t: "mw_tx mw pkt1 (Some tid) wb = (ok, wc)" by fastforce
    with True r a pkt c(1) have "mmnetif_tx mw tid p lk w =
        Inr (if \<not> ok then (ERR_BUF, lk\<lparr>lk_drop := lk_drop lk + 1\<rparr>, wc) else (ERR_OK, lk\<lparr>lk_xmit := lk_xmit lk + 1\<rparr>, wc))"
      by (simp add: mmnetif_tx_def)
    with c(2) t show ?thesis by (cases ok) auto
  qed
qed

section \<open>The interface\<close>

datatype linkoutput = Mmnetif_tx | Hc33_halow_linkoutput

text \<open>\<open>netif_state\<close> is the QoS TID of the state block, once it is allocated; the flags are named.\<close>

datatype netif_flag = NETIF_FLAG_BROADCAST | NETIF_FLAG_ETHARP | NETIF_FLAG_IGMP | NETIF_FLAG_MLD6

record netif =
  hwaddr_len :: u8
  hwaddr :: "u8 list"
  mtu :: u16
  flags :: "netif_flag set"
  netif_name :: string
  linkoutput :: "linkoutput option"
  tx_qos_tid :: "u8 option"
  rx_cb :: bool
  link_cb :: bool

text \<open>
  \<open>boot\<close>, \<open>mac\<close>, \<open>rx_reg\<close> and \<open>link_reg\<close> are what the WLAN library answers, \<open>None\<close> a failure, which is
  asserted not to happen; \<open>ipv6\<close> is whether lwIP has IPv6.
\<close>

definition mmnetif_init ::
    "bool \<Rightarrow> bool \<Rightarrow> bool \<Rightarrow> u8 list option \<Rightarrow> bool \<Rightarrow> bool \<Rightarrow> bool \<Rightarrow> netif \<Rightarrow> (err_t \<times> bool \<times> netif) result" where
  "mmnetif_init initialised ipv6 boot mac malloc_ok rx_reg link_reg nif =
     (if initialised then Inr (ERR_IF, initialised, nif)
      else rbind (c_assert boot) (\<lambda>_.
           let nif1 = nif\<lparr>hwaddr_len := 6\<rparr>
           in case mac of
                None \<Rightarrow> Inl Assert_failed
              | Some m \<Rightarrow>
                  (let nif2 = nif1\<lparr>hwaddr := m, mtu := 1500,
                          flags := flags nif1 \<union> {NETIF_FLAG_BROADCAST, NETIF_FLAG_ETHARP, NETIF_FLAG_IGMP} \<union>
                            (if ipv6 then {NETIF_FLAG_MLD6} else {}),
                          tx_qos_tid := None, netif_name := ''MM'', linkoutput := Some Mmnetif_tx\<rparr>
                   in rbind (c_assert malloc_ok) (\<lambda>_.
                      rbind (c_assert rx_reg) (\<lambda>_.
                      rbind (c_assert link_reg) (\<lambda>_.
                      Inr (ERR_OK, True, nif2\<lparr>tx_qos_tid := Some MMWLAN_TX_DEFAULT_QOS_TID, rx_cb := True,
                                              link_cb := True\<rparr>)))))))"

definition mmnetif_set_tx_qos_tid :: "netif \<Rightarrow> u8 \<Rightarrow> netif result" where
  "mmnetif_set_tx_qos_tid nif tid =
     rbind (c_assert (tid \<le> MMWLAN_MAX_QOS_TID)) (\<lambda>_.
     rbind (c_assert (tx_qos_tid nif \<noteq> None)) (\<lambda>_. Inr (nif\<lparr>tx_qos_tid := Some tid\<rparr>)))"

definition hc33_halow_tx_nonblock_install :: "netif option \<Rightarrow> netif option" where
  "hc33_halow_tx_nonblock_install nif = map_option (\<lambda>n. n\<lparr>linkoutput := Some Hc33_halow_linkoutput\<rparr>) nif"

text \<open>The link state goes to the TCP/IP thread as a message; \<open>posted\<close> is whether its mailbox took it.\<close>

definition mmnetif_link_state :: "bool \<Rightarrow> bool \<Rightarrow> bool list \<Rightarrow> bool list result" where
  "mmnetif_link_state link_up posted mbox = rbind (c_assert posted) (\<lambda>_. Inr (mbox @ [link_up]))"

lemma mmnetif_init_once:
  "mmnetif_init False v6 boot mac m r l nif = Inr (err, i1, nif1) \<Longrightarrow>
     err = ERR_OK \<and> linkoutput nif1 = Some Mmnetif_tx \<and> tx_qos_tid nif1 = Some 0 \<and> Some (hwaddr nif1) = mac \<and>
     mmnetif_init i1 v6 boot2 mac2 m2 r2 l2 nif1 = Inr (ERR_IF, i1, nif1)"
  by (auto simp: mmnetif_init_def rbind_eq_Inr Let_def MMWLAN_TX_DEFAULT_QOS_TID_def split: option.splits)

section \<open>Receiving\<close>

text \<open>
  \<open>wrapped\<close> are the packets that lwIP holds in a wrapper of the pool, \<open>closed\<close> those given back with
  \<open>mmpkt_release\<close>, in order.
\<close>

record 'p mmnetif_rx_state =
  pool_free :: nat
  wrapped :: "'p list"
  closed :: "'p list"
  rx_link :: link_stats

definition rx_pool_blocks :: nat where "rx_pool_blocks = 23"

definition mmpkt_pbuf_wrapper_free :: "nat \<Rightarrow> 'p mmnetif_rx_state \<Rightarrow> 'p mmnetif_rx_state" where
  "mmpkt_pbuf_wrapper_free i s =
     s\<lparr>closed := closed s @ [wrapped s ! i], wrapped := take i (wrapped s) @ drop (Suc i) (wrapped s),
       pool_free := pool_free s + 1\<rparr>"

text \<open>\<open>accepted\<close> is whether \<open>tcpip_input\<close> takes the pbuf; otherwise it is freed at once.\<close>

definition mmnetif_rx :: "'p \<Rightarrow> bool \<Rightarrow> 'p mmnetif_rx_state \<Rightarrow> 'p mmnetif_rx_state" where
  "mmnetif_rx rxpkt accepted s =
     (let lk = rx_link s
      in if pool_free s = 0
         then s\<lparr>rx_link := lk\<lparr>lk_memerr := lk_memerr lk + 1\<rparr>, closed := closed s @ [rxpkt]\<rparr>
         else let s1 = s\<lparr>pool_free := pool_free s - 1, wrapped := wrapped s @ [rxpkt]\<rparr>
          in if accepted then s1\<lparr>rx_link := lk\<lparr>lk_recv := lk_recv lk + 1\<rparr>\<rparr>
             else (mmpkt_pbuf_wrapper_free (length (wrapped s1) - 1) s1)
                    \<lparr>rx_link := lk\<lparr>lk_memerr := lk_memerr lk + 1, lk_drop := lk_drop lk + 1\<rparr>\<rparr>)"

text \<open>Packets arrive and lwIP frees, in any order; \<open>arrived\<close> are all packets so far.\<close>

inductive rx_reach :: "'p list \<Rightarrow> 'p mmnetif_rx_state \<Rightarrow> bool" where
  rx_init: "rx_reach [] \<lparr>pool_free = rx_pool_blocks, wrapped = [], closed = [],
     rx_link = \<lparr>lk_xmit = 0, lk_recv = 0, lk_drop = 0, lk_memerr = 0\<rparr>\<rparr>"
| rx_packet: "rx_reach arrived s \<Longrightarrow> rx_reach (arrived @ [p]) (mmnetif_rx p accepted s)"
| rx_free: "rx_reach arrived s \<Longrightarrow> i < length (wrapped s) \<Longrightarrow> rx_reach arrived (mmpkt_pbuf_wrapper_free i s)"

lemma wrapper_free_mset:
  assumes "i < length (wrapped s)"
  shows "mset (wrapped (mmpkt_pbuf_wrapper_free i s)) + mset (closed (mmpkt_pbuf_wrapper_free i s)) =
      mset (wrapped s) + mset (closed s)"
    "pool_free (mmpkt_pbuf_wrapper_free i s) + length (wrapped (mmpkt_pbuf_wrapper_free i s)) =
      pool_free s + length (wrapped s)"
proof -
  have "mset (wrapped s) = mset (take i (wrapped s)) + {#wrapped s ! i#} + mset (drop (Suc i) (wrapped s))"
    using id_take_nth_drop [OF assms] by (metis mset_append mset.simps(2) union_mset_add_mset_right add.right_neutral
      mset_single_iff_right union_assoc append_Cons append_Nil)
  then show "mset (wrapped (mmpkt_pbuf_wrapper_free i s)) + mset (closed (mmpkt_pbuf_wrapper_free i s)) =
      mset (wrapped s) + mset (closed s)"
    by (simp add: mmpkt_pbuf_wrapper_free_def)
  show "pool_free (mmpkt_pbuf_wrapper_free i s) + length (wrapped (mmpkt_pbuf_wrapper_free i s)) =
      pool_free s + length (wrapped s)"
    using assms by (simp add: mmpkt_pbuf_wrapper_free_def)
qed

text \<open>
  Every packet that was received is held by lwIP or was released, and none of them twice: at each
  moment the packets held and released are together those that arrived. The wrapper pool accounts for
  each held packet, so it is never overdrawn.
\<close>

theorem mmnetif_rx_releases:
  assumes "rx_reach arrived s"
  shows "mset (wrapped s) + mset (closed s) = mset arrived \<and> pool_free s + length (wrapped s) = rx_pool_blocks \<and>
    lk_recv (rx_link s) + lk_memerr (rx_link s) = length arrived"
  using assms
proof induction
  case (rx_packet arrived s p accepted)
  let ?s1 = "s\<lparr>pool_free := pool_free s - 1, wrapped := wrapped s @ [p]\<rparr>"
  have "length (wrapped s) < length (wrapped ?s1)" by simp
  note f = wrapper_free_mset [OF this]
  have lk: "rx_link (mmpkt_pbuf_wrapper_free i s) = rx_link s" for i s by (simp add: mmpkt_pbuf_wrapper_free_def)
  from rx_packet.IH f show ?case
    by (cases "pool_free s = 0"; cases accepted) (simp_all add: mmnetif_rx_def Let_def lk)
next
  case (rx_free arrived s i)
  then show ?case using wrapper_free_mset [OF rx_free.hyps(2)] by (simp add: mmpkt_pbuf_wrapper_free_def)
qed simp_all

lemma mmnetif_rx_releases_witness:
  "\<exists>s :: u8 mmnetif_rx_state. rx_reach [7, 8] s \<and> wrapped s = [7] \<and> mset (wrapped s) + mset (closed s) = {#7, 8#}"
proof -
  have r: "rx_reach (([] @ [7]) @ [8 :: u8]) (mmnetif_rx 8 False (mmnetif_rx 7 True \<lparr>pool_free = rx_pool_blocks, wrapped = [],
      closed = [], rx_link = \<lparr>lk_xmit = 0, lk_recv = 0, lk_drop = 0, lk_memerr = 0\<rparr>\<rparr>))"
    by (intro rx_packet rx_init)
  moreover have "wrapped (mmnetif_rx 8 False (mmnetif_rx 7 True \<lparr>pool_free = rx_pool_blocks, wrapped = [],
      closed = [], rx_link = \<lparr>lk_xmit = 0, lk_recv = 0, lk_drop = 0, lk_memerr = 0\<rparr>\<rparr>)) = [7 :: u8]"
    by (simp add: mmnetif_rx_def rx_pool_blocks_def mmpkt_pbuf_wrapper_free_def Let_def)
  ultimately show ?thesis using mmnetif_rx_releases [OF r] by fastforce
qed

end
