(* ===== verification/Mmwlan_Inline.thy ===== *)
theory Mmwlan_Inline
  imports Mmnetif
begin

text \<open>
  The code that headers of the vendor library give inline: the packet lists of mmpkt_list.h, and the sending
  of a byte array and the switch of the WNM sleep in mmwlan.h. The heap maps addresses to packets.
\<close>

section \<open>Packet lists (mmpkt_list.h)\<close>

type_synonym mmpkt_heap = "nat \<Rightarrow> mmpkt option"

record mmpkt_list =
  pl_head :: "nat option"
  pl_tail :: "nat option"
  pl_len :: u32

definition MMPKT_LIST_INIT :: mmpkt_list where
  "MMPKT_LIST_INIT = \<lparr>pl_head = None, pl_tail = None, pl_len = 0\<rparr>"

definition mmpkt_list_init :: "mmpkt_list \<Rightarrow> mmpkt_list" where
  "mmpkt_list_init l = l\<lparr>pl_head := None, pl_tail := None, pl_len := 0\<rparr>"

definition mmpkt_list_length :: "mmpkt_list \<Rightarrow> u32" where
  "mmpkt_list_length l = pl_len l"

definition mmpkt_list_dequeue_all :: "mmpkt_list \<Rightarrow> nat option \<times> mmpkt_list" where
  "mmpkt_list_dequeue_all l = (pl_head l, l\<lparr>pl_head := None, pl_tail := None, pl_len := 0\<rparr>)"

definition mmpkt_list_is_empty :: "mmpkt_list \<Rightarrow> bool" where
  "mmpkt_list_is_empty l = (pl_head l = None)"

definition mmpkt_list_peek :: "mmpkt_list \<Rightarrow> nat option" where
  "mmpkt_list_peek l = pl_head l"

definition mmpkt_list_peek_tail :: "mmpkt_list \<Rightarrow> nat option" where
  "mmpkt_list_peek_tail l = pl_tail l"

text \<open>
  The loop of the macro: \<open>body\<close> is its statement, which may free the packet; the next one was read before,
  the one after it is read afterwards. A cyclic list is walked for ever.
\<close>

partial_function (option) walk_loop :: "(nat \<Rightarrow> mmpkt_heap \<Rightarrow> mmpkt_heap) \<Rightarrow> mmpkt_heap \<Rightarrow> nat option \<Rightarrow> nat option \<Rightarrow> mmpkt_heap result option" where
  "walk_loop body h wlk nxt =
     (case wlk of
        None \<Rightarrow> Some (Inr h)
      | Some w \<Rightarrow>
          (case nxt of
             None \<Rightarrow> walk_loop body (body w h) None None
           | Some n \<Rightarrow>
               (case body w h n of
                  None \<Rightarrow> Some (Inl Dangling)
                | Some p \<Rightarrow> walk_loop body (body w h) nxt (mmpkt_get_next p))))"

definition MMPKT_LIST_WALK :: "(nat \<Rightarrow> mmpkt_heap \<Rightarrow> mmpkt_heap) \<Rightarrow> mmpkt_heap \<Rightarrow> mmpkt_list \<Rightarrow> mmpkt_heap result option" where
  "MMPKT_LIST_WALK body h l =
     (case pl_head l of
        None \<Rightarrow> Some (Inr h)
      | Some w \<Rightarrow> (case h w of None \<Rightarrow> Some (Inl Dangling) | Some p \<Rightarrow> walk_loop body h (Some w) (mmpkt_get_next p)))"

section \<open>Sending a byte array (mmwlan.h)\<close>

datatype mmwlan_tx_status = Tx_success | Tx_wait_failed | Tx_no_mem | Tx_rejected

definition MMWLAN_TX_DEFAULT_TIMEOUT_MS :: u32 where "MMWLAN_TX_DEFAULT_TIMEOUT_MS = 1000"

definition mmwlan_tx_tid :: "'w mmwlan \<Rightarrow> u8 list \<Rightarrow> u32 \<Rightarrow> u8 \<Rightarrow> 'w \<Rightarrow> (mmwlan_tx_status \<times> 'w) result" where
  "mmwlan_tx_tid mw data len tid w =
     (let (ready, w1) = mw_ready mw MMWLAN_TX_DEFAULT_TIMEOUT_MS w
      in if \<not> ready then Inr (Tx_wait_failed, w1)
         else case mw_alloc mw len tid w1 of
            (None, w2) \<Rightarrow> Inr (Tx_no_mem, w2)
          | (Some pkt, w2) \<Rightarrow>
              rbind (mmpkt_append_data pkt data len) (\<lambda>pkt1.
                let (ok, w3) = mw_tx mw pkt1 (Some tid) w2
                in Inr (if ok then Tx_success else Tx_rejected, w3)))"

definition mmwlan_tx :: "'w mmwlan \<Rightarrow> u8 list \<Rightarrow> u32 \<Rightarrow> 'w \<Rightarrow> (mmwlan_tx_status \<times> 'w) result" where
  "mmwlan_tx mw data len w = mmwlan_tx_tid mw data len MMWLAN_TX_DEFAULT_QOS_TID w"

section \<open>WNM sleep (mmwlan.h)\<close>

record wnm_sleep_args =
  wnm_sleep_enabled :: bool
  chip_powerdown_enabled :: bool

definition MMWLAN_SET_WNM_SLEEP_ENABLED_ARGS_INIT :: wnm_sleep_args where
  "MMWLAN_SET_WNM_SLEEP_ENABLED_ARGS_INIT = \<lparr>wnm_sleep_enabled = False, chip_powerdown_enabled = False\<rparr>"

definition mmwlan_set_wnm_sleep_enabled :: "(wnm_sleep_args \<Rightarrow> 'w \<Rightarrow> 's \<times> 'w) \<Rightarrow> bool \<Rightarrow> 'w \<Rightarrow> 's \<times> 'w" where
  "mmwlan_set_wnm_sleep_enabled ext enabled w =
     ext (MMWLAN_SET_WNM_SLEEP_ENABLED_ARGS_INIT\<lparr>wnm_sleep_enabled := enabled\<rparr>) w"

section \<open>Lemmas\<close>

fun chain :: "mmpkt_heap \<Rightarrow> nat option \<Rightarrow> nat list \<Rightarrow> bool" where
  "chain h p [] \<longleftrightarrow> p = None"
| "chain h p (x # xs) \<longleftrightarrow> p = Some x \<and> (\<exists>b. h x = Some b \<and> chain h (next_pkt b) xs)"

definition pkt_list_rep :: "mmpkt_heap \<Rightarrow> mmpkt_list \<Rightarrow> nat list \<Rightarrow> bool" where
  "pkt_list_rep h l xs \<longleftrightarrow> chain h (pl_head l) xs \<and> distinct xs \<and> pl_tail l = (if xs = [] then None else Some (last xs)) \<and>
     pl_len l = of_nat (length xs)"

lemma chain_cong: "(\<And>x. x \<in> set xs \<Longrightarrow> h x = h' x) \<Longrightarrow> chain h p xs = chain h' p xs"
  by (induction xs arbitrary: p) auto

text \<open>A body that changes only the packet it is given.\<close>

definition local_body :: "(nat \<Rightarrow> mmpkt_heap \<Rightarrow> mmpkt_heap) \<Rightarrow> bool" where
  "local_body body \<longleftrightarrow> (\<forall>w h a. a \<noteq> w \<longrightarrow> body w h a = h a)"

lemma walk_loop_visits:
  assumes "local_body body" "chain h nxt xs" "distinct (w # xs)"
  shows "walk_loop body h (Some w) nxt = Some (Inr (fold body (w # xs) h))"
  using assms(2,3)
proof (induction xs arbitrary: h w nxt)
  case Nil
  then show ?case by (subst walk_loop.simps, simp) (subst walk_loop.simps, simp)
next
  case (Cons x xs)
  then obtain b where b: "nxt = Some x" "h x = Some b" "chain h (next_pkt b) xs" by auto
  have same: "body w h a = h a" if "a \<in> set (x # xs)" for a
  proof -
    have "a \<noteq> w" using that Cons.prems(2) by auto
    then show ?thesis using assms(1) by (simp add: local_body_def)
  qed
  have "chain (body w h) (next_pkt b) xs" using b(3) chain_cong [of xs h "body w h"] same by simp
  then have ih: "walk_loop body (body w h) (Some x) (next_pkt b) = Some (Inr (fold body (x # xs) (body w h)))"
    using Cons.IH [of "body w h" "next_pkt b" x] Cons.prems(2) by simp
  have "body w h x = Some b" using same [of x] b(2) by simp
  then show ?case using ih by (subst walk_loop.simps) (simp add: b(1) mmpkt_get_next_def)
qed

text \<open>
  On a well-formed list of packets, walking it visits every packet once and in order, also when the
  statement frees or changes the packet it is at; taking all packets hands over the unchanged chain and
  leaves a well-formed empty list; and the head, the tail, the count and the test for emptiness are those of
  the packets in the list.
\<close>

theorem packet_list_walk:
  assumes "pkt_list_rep h l xs" "local_body body"
  shows "MMPKT_LIST_WALK body h l = Some (Inr (fold body xs h)) \<and>
    (case mmpkt_list_dequeue_all l of (p, l1) \<Rightarrow> chain h p xs \<and> pkt_list_rep h l1 [] \<and> l1 = mmpkt_list_init l) \<and>
    mmpkt_list_peek l = (case xs of [] \<Rightarrow> None | x # _ \<Rightarrow> Some x) \<and>
    mmpkt_list_peek_tail l = (case xs of [] \<Rightarrow> None | _ \<Rightarrow> Some (last xs)) \<and>
    mmpkt_list_length l = of_nat (length xs) \<and> (mmpkt_list_is_empty l = (xs = []))"
proof -
  have r: "chain h (pl_head l) xs" "distinct xs" "pl_tail l = (if xs = [] then None else Some (last xs))"
    "pl_len l = of_nat (length xs)" using assms(1) by (simp_all add: pkt_list_rep_def)
  have "MMPKT_LIST_WALK body h l = Some (Inr (fold body xs h))"
  proof (cases xs)
    case Nil
    then show ?thesis using r(1) by (simp add: MMPKT_LIST_WALK_def)
  next
    case (Cons x ys)
    then obtain b where b: "pl_head l = Some x" "h x = Some b" "chain h (next_pkt b) ys" using r(1) by auto
    show ?thesis using walk_loop_visits [OF assms(2) b(3), of x] r(2) b(1,2)
      by (simp add: MMPKT_LIST_WALK_def mmpkt_get_next_def Cons)
  qed
  then show ?thesis using r
    by (cases xs) (auto simp: mmpkt_list_dequeue_all_def mmpkt_list_init_def pkt_list_rep_def mmpkt_list_peek_def
      mmpkt_list_peek_tail_def mmpkt_list_length_def mmpkt_list_is_empty_def)
qed

text \<open>Two packets, each freed by the walk.\<close>

lemma packet_list_walk_witness:
  "\<exists>h l. pkt_list_rep h l [8, 4] \<and> MMPKT_LIST_WALK (\<lambda>w h. h(w := None)) h l = Some (Inr (\<lambda>a. None))"
proof -
  let ?p = "\<lambda>n. (mmpkt_init (replicate 44 0) 28 16 0 None)\<lparr>next_pkt := n\<rparr>"
  define h :: mmpkt_heap where "h = (\<lambda>a. None)(8 \<mapsto> ?p (Some 4), 4 \<mapsto> ?p None)"
  define l where "l = \<lparr>pl_head = Some 8, pl_tail = Some 4, pl_len = 2\<rparr>"
  have r: "pkt_list_rep h l [8, 4]" by (simp add: pkt_list_rep_def h_def l_def)
  have b: "local_body (\<lambda>w h. h(w := None))" by (simp add: local_body_def)
  have e: "fold (\<lambda>w h. h(w := None)) [8, 4] h = (\<lambda>a. None)" by (auto simp: h_def fun_eq_iff)
  have "MMPKT_LIST_WALK (\<lambda>w h. h(w := None)) h l = Some (Inr (\<lambda>a. None))"
    using conjunct1 [OF packet_list_walk [OF r b]] unfolding e .
  with r show ?thesis by (intro exI conjI)
qed

text \<open>What is sent is the array, whole, with the given traffic id.\<close>

lemma mmwlan_tx_sends:
  assumes "alloc_promise mw" "len = of_nat (length data)" "length data < 4294967296"
  shows "\<exists>st w1. mmwlan_tx_tid mw data len tid w = Inr (st, w1) \<and>
    (st = Tx_success \<longrightarrow> (\<exists>pkt w0. mmpkt_data pkt = data \<and> mw_tx mw pkt (Some tid) w0 = (True, w1)))"
proof -
  obtain ready wa where r: "mw_ready mw MMWLAN_TX_DEFAULT_TIMEOUT_MS w = (ready, wa)" by fastforce
  obtain o_pkt wb where a: "mw_alloc mw len tid wa = (o_pkt, wb)" by fastforce
  show ?thesis
  proof (cases "ready \<and> o_pkt \<noteq> None")
    case False
    then consider "\<not> ready" | "ready" "o_pkt = None" by blast
    then show ?thesis by cases (use r a in \<open>simp_all add: mmwlan_tx_tid_def\<close>)
  next
    case True
    then obtain pkt where pkt: "o_pkt = Some pkt" by auto
    have ok: "mmpkt_ok pkt" "mmpkt_data pkt = []" "unat len \<le> mmpkt_tailroom pkt"
      using assms(1) a pkt unfolding alloc_promise_def by blast+
    have "length data \<le> mmpkt_tailroom pkt" "mmpkt_tailroom pkt < 4294967296"
      using ok(3) assms(2,3) by (simp_all add: mmpkt_tailroom_def)
    then obtain pkt1 where c: "mmpkt_append_data pkt data len = Inr pkt1" "mmpkt_data pkt1 = data"
      using mp.append_all_ok [OF ok(1), of "[data]"] ok(2) assms(2) by (auto simp: rbind_eq_Inr)
    obtain ok wc where t: "mw_tx mw pkt1 (Some tid) wb = (ok, wc)" by fastforce
    with True r a pkt c(1) have "mmwlan_tx_tid mw data len tid w = Inr (if ok then Tx_success else Tx_rejected, wc)"
      by (simp add: mmwlan_tx_tid_def)
    with c(2) t show ?thesis by (cases ok) auto
  qed
qed

end
