(* ===== verification/Halow_Scan.thy ===== *)
theory Halow_Scan
  imports Mmutils_Wlan Mmosal Text_Format
begin

text \<open>
  Scanning for HaLow access points, HalowScan.cpp: its own parser of the RSN element, the callback that
  fills the table of access points, and the state of a scan in the status bits of HalowGeneric.cpp.
\<close>

section \<open>The parser\<close>

text \<open>
  \<open>struct rsn_information\<close> has the fields of \<open>mm_rsn_information\<close>, so that record stands for it. The
  function returns -1, 0 or 1. Offsets are natural numbers: a \<open>size_t\<close> does not wrap on buffers that
  fit the memory.
\<close>

definition RSN_INFORMATION_MAX_PAIRWISE_CIPHER_SUITES :: u16 where "RSN_INFORMATION_MAX_PAIRWISE_CIPHER_SUITES = 2"
definition RSN_INFORMATION_MAX_AKM_SUITES :: u16 where "RSN_INFORMATION_MAX_AKM_SUITES = 2"
definition RSN_INFORMATION_IE_TYPE :: u8 where "RSN_INFORMATION_IE_TYPE = 48"

definition scan_rsn_akm ::
    "u8 list \<Rightarrow> mm_rsn_information \<Rightarrow> nat \<Rightarrow> u8 \<Rightarrow> (int \<times> mm_rsn_information) result" where
  "scan_rsn_akm ies out offset len =
     rbind (read_le16 ies offset) (\<lambda>num.
       let offset = offset + 2; len = len - 2;
           out = out\<lparr>num_akm_suites := if RSN_INFORMATION_MAX_AKM_SUITES < num then RSN_INFORMATION_MAX_AKM_SUITES else num\<rparr>
       in if unat len < 4 * unat num + 2 then Inr (-1, out)
          else rbind (suite_loop (unat num) ies (num_akm_suites out) 0 (akm_suites out) offset len)
                 (\<lambda>(arr, offset, len).
                 rbind (read_le16 ies offset) (\<lambda>caps.
                   Inr (1, out\<lparr>akm_suites := arr, rsn_capabilities := caps\<rparr>))))"

definition scan_rsn_body ::
    "u8 list \<Rightarrow> mm_rsn_information \<Rightarrow> nat \<Rightarrow> u8 \<Rightarrow> (int \<times> mm_rsn_information) result" where
  "scan_rsn_body ies out offset len =
     rbind (read_le16 ies offset) (\<lambda>ver.
       let out = out\<lparr>version := ver\<rparr>; offset = offset + 2; len = len - 2
       in rbind (read_be32 ies offset) (\<lambda>grp.
          let out = out\<lparr>group_cipher_suite := grp\<rparr>; offset = offset + 4; len = len - 4
          in rbind (read_le16 ies offset) (\<lambda>num.
             let offset = offset + 2; len = len - 2;
                 out = out\<lparr>num_pairwise_cipher_suites :=
                   if RSN_INFORMATION_MAX_PAIRWISE_CIPHER_SUITES < num then RSN_INFORMATION_MAX_PAIRWISE_CIPHER_SUITES else num\<rparr>
             in if unat len < 4 * unat num + 2 then Inr (-1, out)
                else rbind (suite_loop (unat num) ies (num_pairwise_cipher_suites out) 0
                              (pairwise_cipher_suites out) offset len) (\<lambda>(arr, offset, len).
                       scan_rsn_akm ies (out\<lparr>pairwise_cipher_suites := arr\<rparr>) offset len))))"

function parse_rsn_from :: "u8 list \<Rightarrow> nat \<Rightarrow> nat \<Rightarrow> (int \<times> mm_rsn_information) result" where
  "parse_rsn_from ies ies_len offset =
     (if \<not> offset < ies_len then Inr (0, rsn_zero)
      else case mem_get ies offset of
          Inl e \<Rightarrow> Inl e
        | Inr type \<Rightarrow>
            (case mem_get ies (offset + 1) of
               Inl e \<Rightarrow> Inl e
             | Inr len \<Rightarrow>
                 if type = RSN_INFORMATION_IE_TYPE then
                   (if ies_len < offset + 2 + unat len then Inr (-1, rsn_zero)
                    else if len < 8 then Inr (-1, rsn_zero)
                    else scan_rsn_body ies rsn_zero (offset + 2) len)
                 else parse_rsn_from ies ies_len (offset + 2 + unat len)))"
  by pat_completeness auto
termination
  by (relation "measure (\<lambda>(ies, ies_len, offset). ies_len - offset)") auto

declare parse_rsn_from.simps [simp del]

definition parse_rsn_information :: "u8 list \<Rightarrow> u32 \<Rightarrow> (int \<times> mm_rsn_information) result" where
  "parse_rsn_information ies ies_len = parse_rsn_from ies (unat ies_len) 0"

text \<open>Its results are those of the parser of mmutils_wlan.c, which returns 0, and -2 for a malformed element.\<close>

definition scan_code :: "int \<times> mm_rsn_information \<Rightarrow> int \<times> mm_rsn_information" where
  "scan_code r = (if fst r = 0 then 1 else -1, snd r)"

lemma scan_rsn_akm_eq:
  "scan_rsn_akm m out off len = rbind (parse_rsn_akm m out off len) (\<lambda>r. Inr (scan_code r))"
  by (simp add: scan_rsn_akm_def parse_rsn_akm_def rbind_assoc Let_def clamp_suites_def MAX_AKM_def
    RSN_INFORMATION_MAX_AKM_SUITES_def scan_code_def case_prod_unfold if_distrib [of "\<lambda>x. rbind x _"] cong: if_cong)

lemma scan_rsn_body_eq:
  "scan_rsn_body m out off len = rbind (parse_rsn_body m out off len) (\<lambda>r. Inr (scan_code r))"
  by (simp add: scan_rsn_body_def parse_rsn_body_def rbind_assoc Let_def clamp_suites_def MAX_PAIRWISE_def
    RSN_INFORMATION_MAX_PAIRWISE_CIPHER_SUITES_def scan_code_def case_prod_unfold scan_rsn_akm_eq
    if_distrib [of "\<lambda>x. rbind x _"] cong: if_cong)

text \<open>Whether a byte string ends in a type byte without its length byte.\<close>

fun lone_tail :: "u8 list \<Rightarrow> bool" where
  "lone_tail (t # l # rest) = lone_tail (drop (unat l) rest)"
| "lone_tail [t] = True"
| "lone_tail [] = False"

lemma lone_tail_at:
  assumes "off + 2 \<le> n" "n \<le> length m"
  shows "lone_tail (drop off (take n m)) = lone_tail (drop (off + 2 + unat (m ! (off + 1))) (take n m))"
proof -
  have "drop off (take n m) = m ! off # m ! (off + 1) # drop (off + 2) (take n m)"
    using assms by (simp add: Cons_nth_drop_Suc [symmetric] numeral_2_eq_2)
  then show ?thesis by (simp add: ac_simps)
qed

lemma parse_rsn_loop:
  "parse_rsn_from ies (length ies) off =
     (case first_of_type RSN_INFORMATION_IE_TYPE (elements off (drop off ies)) of
        Some (o1, l) \<Rightarrow> if length ies < o1 + 2 + l \<or> l < 8 then Inr (-1, rsn_zero)
                       else scan_rsn_body ies rsn_zero (o1 + 2) (ies ! (o1 + 1))
      | None \<Rightarrow> if lone_tail (drop off ies) then Inl Out_of_bounds else Inr (0, rsn_zero))"
proof (induction "length ies - off" arbitrary: off rule: less_induct)
  case less
  consider "length ies \<le> off" | "length ies = off + 1" | "off + 2 \<le> length ies" by linarith
  then show ?case
  proof cases
    case 1
    then show ?thesis by (subst parse_rsn_from.simps) simp
  next
    case 2
    then have "drop off ies = [ies ! off]" by (metis Cons_nth_drop_Suc Suc_eq_plus1 drop_all lessI order_refl)
    with 2 show ?thesis by (subst parse_rsn_from.simps) (simp add: mem_get_def)
  next
    case 3
    let ?l = "ies ! (off + 1)"
    have el: "elements off (drop off ies) =
        (off, ies ! off, unat ?l) # elements (off + 2 + unat ?l) (drop (off + 2 + unat ?l) ies)"
      using elements_at [OF 3 order_refl] by simp
    have lone: "lone_tail (drop off ies) = lone_tail (drop (off + 2 + unat ?l) ies)"
      using lone_tail_at [OF 3 order_refl] by simp
    have step: "parse_rsn_from ies (length ies) off =
        (if ies ! off = RSN_INFORMATION_IE_TYPE then
           (if length ies < off + 2 + unat ?l \<or> ?l < 8 then Inr (-1, rsn_zero) else scan_rsn_body ies rsn_zero (off + 2) ?l)
         else parse_rsn_from ies (length ies) (off + 2 + unat ?l))"
      using 3 by (subst parse_rsn_from.simps) simp
    show ?thesis
    proof (cases "ies ! off = RSN_INFORMATION_IE_TYPE")
      case True
      then show ?thesis unfolding step el by (simp add: word_less_nat_alt)
    next
      case False
      have "length ies - (off + 2 + unat ?l) < length ies - off" using 3 by linarith
      from less [OF this] False show ?thesis unfolding step el lone by simp
    qed
  qed
qed

lemma scan_parser_as_mm:
  assumes "ies_valid ies ies_len" and "unat ies_len = length ies"
  shows "\<exists>code out. mm_parse_rsn_information ies ies_len = Some (Inr (code, out)) \<and>
    (if code = 0 then parse_rsn_information ies ies_len = Inr (1, out)
     else if code = -1 then parse_rsn_information ies ies_len =
            (if lone_tail ies then Inl Out_of_bounds else Inr (0, rsn_zero))
     else \<exists>out2. parse_rsn_information ies ies_len = Inr (-1, out2))"
proof -
  have ty: "MM_RSN_INFORMATION_IE_TYPE = RSN_INFORMATION_IE_TYPE"
    by (simp add: MM_RSN_INFORMATION_IE_TYPE_def RSN_INFORMATION_IE_TYPE_def)
  have scan: "parse_rsn_information ies ies_len =
      (case first_of_type RSN_INFORMATION_IE_TYPE (elements 0 ies) of
        Some (o1, l) \<Rightarrow> if length ies < o1 + 2 + l \<or> l < 8 then Inr (-1, rsn_zero)
                       else scan_rsn_body ies rsn_zero (o1 + 2) (ies ! (o1 + 1))
      | None \<Rightarrow> if lone_tail ies then Inl Out_of_bounds else Inr (0, rsn_zero))"
    using parse_rsn_loop [of ies 0] by (simp add: parse_rsn_information_def assms(2))
  have find: "mm_find_ie ies ies_len MM_RSN_INFORMATION_IE_TYPE =
      Some (Inr (find_result (length ies) (first_of_type RSN_INFORMATION_IE_TYPE (elements 0 ies))))"
    using find_ie_loop [OF assms(1), of 0 MM_RSN_INFORMATION_IE_TYPE] by (simp add: mm_find_ie_def assms(2) ty)
  show ?thesis
  proof (cases "first_of_type RSN_INFORMATION_IE_TYPE (elements 0 ies)")
    case None
    with scan find show ?thesis by (simp add: mm_parse_rsn_information_def find_result_def)
  next
    case (Some p)
    then obtain off l where p: "first_of_type RSN_INFORMATION_IE_TYPE (elements 0 ies) = Some (off, l)" by (cases p) simp
    have l: "l = unat (ies ! (off + 1))" and off: "off + 2 \<le> length ies"
      using first_of_type_elements [of "length ies" ies RSN_INFORMATION_IE_TYPE 0] p by simp_all
    show ?thesis
    proof (cases "off + 2 + l \<le> length ies")
      case False
      with scan find p show ?thesis by (simp add: mm_parse_rsn_information_def find_result_def)
    next
      case fits: True
      have get: "mem_get ies (off + 1) = Inr (ies ! (off + 1))" using off by simp
      have mm: "mm_parse_rsn_information ies ies_len = Some (if l < 8 then Inr (-2, rsn_zero)
          else parse_rsn_body ies rsn_zero (off + 2) (ies ! (off + 1)))"
        using find p fits get by (simp add: mm_parse_rsn_information_def find_result_def l word_less_nat_alt)
      show ?thesis
      proof (cases "l < 8")
        case True
        with mm scan p show ?thesis by simp
      next
        case False
        have "off + 2 + unat (ies ! (off + 1)) \<le> length ies" "8 \<le> unat (ies ! (off + 1))" using fits False l by auto
        from parse_rsn_body_eq [OF this] obtain out where
          "parse_rsn_body ies rsn_zero (off + 2) (ies ! (off + 1)) = Inr (if rsn_ok ies (off + 2) l then 0 else -2, out)"
          unfolding l by blast
        with mm scan p fits False show ?thesis by (auto simp: scan_rsn_body_eq scan_code_def)
      qed
    qed
  qed
qed

text \<open>
  C29: On any bytes the parser of the scan agrees with the one of mmutils_wlan.c: 1 with the same fields
  where that one returns 0, 0 where it finds no RSN element, -1 where it reports a malformed one. The
  one exception are bytes without an RSN element that end in a type byte: there the parser of the scan
  reads the length byte behind the end of the buffer.
\<close>

theorem scan_parser_agrees:
  assumes "ies_valid ies ies_len" and "unat ies_len = length ies"
  shows "\<exists>code out. mm_parse_rsn_information ies ies_len = Some (Inr (code, out)) \<and>
    (if code = 0 then parse_rsn_information ies ies_len = Inr (1, out)
     else if code = -1 then parse_rsn_information ies ies_len =
            (if lone_tail ies then Inl Out_of_bounds else Inr (0, rsn_zero))
     else \<exists>out2. parse_rsn_information ies ies_len = Inr (-1, out2))"
  by (rule scan_parser_as_mm [OF assms])

lemma scan_parser_agrees_witness:
  "mm_parse_rsn_information [0, 1, 7] 3 = Some (Inr (-1, rsn_zero)) \<and> parse_rsn_information [0, 1, 7] 3 = Inr (0, rsn_zero) \<and>
   mm_parse_rsn_information [0, 1, 7, 48] 4 = Some (Inr (-1, rsn_zero)) \<and> parse_rsn_information [0, 1, 7, 48] 4 = Inl Out_of_bounds"
proof -
  have a: "ies_valid [0, 1, 7] 3" "unat (3 :: u32) = length [0, 1, 7 :: u8]" by (simp_all add: ies_valid_def)
  have b: "ies_valid [0, 1, 7, 48] 4" "unat (4 :: u32) = length [0, 1, 7, 48 :: u8]" by (simp_all add: ies_valid_def)
  have "mm_parse_rsn_information [0, 1, 7] 3 = Some (Inr (-1, rsn_zero))"
    "mm_parse_rsn_information [0, 1, 7, 48] 4 = Some (Inr (-1, rsn_zero))"
    using find_ie_loop [OF a(1), of 0 MM_RSN_INFORMATION_IE_TYPE] find_ie_loop [OF b(1), of 0 MM_RSN_INFORMATION_IE_TYPE]
    by (simp_all add: mm_parse_rsn_information_def mm_find_ie_def MM_RSN_INFORMATION_IE_TYPE_def find_result_def)
  with scan_parser_agrees [OF a] scan_parser_agrees [OF b] show ?thesis by simp
qed

section \<open>The table of access points\<close>

datatype mmwlan_security_type = MMWLAN_OPEN | MMWLAN_OWE | MMWLAN_SAE | MMWLAN_OTHER

definition MAX_SCAN_RECORD_NUM :: nat where "MAX_SCAN_RECORD_NUM = 10"

definition AKM_SUITE_NONE :: u32 where "AKM_SUITE_NONE = 0"
definition AKM_SUITE_PSK :: u32 where "AKM_SUITE_PSK = 0x506f9a02"
definition AKM_SUITE_SAE :: u32 where "AKM_SUITE_SAE = 0x000fac08"
definition AKM_SUITE_OWE :: u32 where "AKM_SUITE_OWE = 0x000fac12"

definition akm_suite_to_string :: "u32 \<Rightarrow> string" where
  "akm_suite_to_string oui =
     (if oui = AKM_SUITE_NONE then ''None'' else if oui = AKM_SUITE_PSK then ''PSK''
      else if oui = AKM_SUITE_SAE then ''SAE'' else if oui = AKM_SUITE_OWE then ''OWE'' else ''Other'')"

text \<open>
  A result of the WLAN library. \<open>sr_ssid\<close> and \<open>sr_ies\<close> are the memory from the pointers on: both
  point into the received frame.
\<close>

record mmwlan_scan_result =
  sr_rssi :: "16 word"
  sr_bssid :: "u8 list"
  sr_ssid :: "u8 list"
  sr_ies :: "u8 list"
  sr_beacon_interval :: u16
  sr_capability_info :: u16
  sr_ies_len :: u16
  sr_ssid_len :: u8
  sr_op_bw_mhz :: u8

record halow_scan_result =
  ap_rssi :: "16 word"
  ap_bssid :: "u8 list"
  ap_ssid :: "u8 list"
  ap_beacon_interval :: u16
  ap_capability_info :: u16
  ap_ssid_len :: u8
  ap_op_bw_mhz :: u8
  ap_security_type :: mmwlan_security_type

text \<open>The security type of a parse; the last line keeps the entry's old value, as the code does.\<close>

definition scan_security ::
    "int \<Rightarrow> mm_rsn_information \<Rightarrow> mmwlan_security_type \<Rightarrow> mmwlan_security_type" where
  "scan_security ret rsn old =
     (if ret < 0 then MMWLAN_OTHER
      else if num_akm_suites rsn = 0 then MMWLAN_OPEN
      else if 0 < ret then
        (let akm = akm_suites rsn ! 0
         in if akm = AKM_SUITE_SAE then MMWLAN_SAE else if akm = AKM_SUITE_OWE then MMWLAN_OWE
            else if akm = AKM_SUITE_NONE then MMWLAN_OPEN else MMWLAN_OTHER)
      else old)"

definition fill_record :: "mmwlan_scan_result \<Rightarrow> halow_scan_result \<Rightarrow> halow_scan_result result" where
  "fill_record r a =
     rbind (mmosal_safer_strcpy (ap_ssid a) (sr_ssid r) 33) (\<lambda>(cut, ssid).
     rbind (parse_rsn_information (sr_ies r) (ucast (sr_ies_len r))) (\<lambda>(ret, rsn).
       Inr \<lparr>ap_rssi = sr_rssi r, ap_bssid = sr_bssid r,
            ap_ssid = (if unat (sr_ssid_len r) < 33 then ssid[unat (sr_ssid_len r) := 0] else ssid),
            ap_beacon_interval = sr_beacon_interval r, ap_capability_info = sr_capability_info r,
            ap_ssid_len = sr_ssid_len r, ap_op_bw_mhz = sr_op_bw_mhz r,
            ap_security_type = scan_security ret rsn (ap_security_type a)\<rparr>))"

text \<open>\<open>halow_ap_record\<close> and \<open>num_scan_results\<close>.\<close>

record scan_table =
  halow_ap_record :: "halow_scan_result list"
  num_scan_results :: nat

definition scan_rx_callback :: "mmwlan_scan_result \<Rightarrow> scan_table \<Rightarrow> scan_table result" where
  "scan_rx_callback r t =
     (let n = num_scan_results t
      in if n = MAX_SCAN_RECORD_NUM - 1 then Inr t
         else if \<exists>k < n. ap_bssid (halow_ap_record t ! k) = sr_bssid r then Inr t
         else if length (halow_ap_record t) \<le> n then Inl Out_of_bounds
         else rbind (fill_record r (halow_ap_record t ! n)) (\<lambda>a.
              Inr \<lparr>halow_ap_record = (halow_ap_record t)[n := a], num_scan_results = n + 1\<rparr>))"

fun scan_results :: "mmwlan_scan_result list \<Rightarrow> scan_table \<Rightarrow> scan_table result" where
  "scan_results [] t = Inr t"
| "scan_results (r # rs) t = rbind (scan_rx_callback r t) (scan_results rs)"

text \<open>The first result of each BSSID.\<close>

fun first_of_bssid :: "mmwlan_scan_result list \<Rightarrow> mmwlan_scan_result list" where
  "first_of_bssid [] = []"
| "first_of_bssid (r # rs) = r # filter (\<lambda>x. sr_bssid x \<noteq> sr_bssid r) (first_of_bssid rs)"

lemma first_of_bssid_set: "sr_bssid ` set (first_of_bssid rs) = sr_bssid ` set rs"
proof (induction rs)
  case (Cons r rs)
  have "sr_bssid ` {x \<in> set (first_of_bssid rs). sr_bssid x \<noteq> sr_bssid r} = sr_bssid ` set (first_of_bssid rs) - {sr_bssid r}"
    by auto
  with Cons show ?case by simp
qed simp

lemma first_of_bssid_snoc:
  "first_of_bssid (rs @ [r]) =
     (if sr_bssid r \<in> sr_bssid ` set rs then first_of_bssid rs else first_of_bssid rs @ [r])"
  by (induction rs) auto

text \<open>What the parser and the string copy need of a result: a readable SSID and information elements that end at an element.\<close>

definition scan_result_ok :: "mmwlan_scan_result \<Rightarrow> bool" where
  "scan_result_ok r \<longleftrightarrow> 33 \<le> length (sr_ssid r) \<and> unat (sr_ies_len r) = length (sr_ies r) \<and> \<not> lone_tail (sr_ies r)"

text \<open>An entry shows a result: its BSSID, numbers and, up to a NUL in it, its SSID.\<close>

definition shows_result :: "halow_scan_result \<Rightarrow> mmwlan_scan_result \<Rightarrow> bool" where
  "shows_result a r \<longleftrightarrow> ap_bssid a = sr_bssid r \<and> ap_rssi a = sr_rssi r \<and> ap_ssid_len a = sr_ssid_len r \<and>
     ap_op_bw_mhz a = sr_op_bw_mhz r \<and> length (ap_ssid a) = 33 \<and>
     (unat (sr_ssid_len r) \<le> 32 \<longrightarrow>
        takeWhile (\<lambda>c. c \<noteq> 0) (ap_ssid a) = takeWhile (\<lambda>c. c \<noteq> 0) (take (unat (sr_ssid_len r)) (sr_ssid r)))"

lemma strncpy_bytes_long:
  "n \<le> length src \<Longrightarrow> strncpy_bytes n src =
     Inr (takeWhile (\<lambda>c. c \<noteq> 0) (take n src) @ replicate (n - length (takeWhile (\<lambda>c. c \<noteq> 0) (take n src))) 0)"
  by (induction n arbitrary: src) (auto simp: neq_Nil_conv Suc_le_length_iff)

lemma takeWhile_update_0:
  "k < length xs \<Longrightarrow> takeWhile (\<lambda>c. c \<noteq> 0) (xs[k := (0 :: u8)]) = takeWhile (\<lambda>c. c \<noteq> 0) (take k xs)"
  by (induction xs arbitrary: k) (auto split: nat.split)

lemma takeWhile_cut:
  "n < m \<Longrightarrow> m \<le> length src \<Longrightarrow>
   takeWhile (\<lambda>c. c \<noteq> 0) ((takeWhile (\<lambda>c. c \<noteq> 0) (take m src) @ replicate (m - length (takeWhile (\<lambda>c. c \<noteq> 0) (take m src))) 0)[n := (0 :: u8)])
     = takeWhile (\<lambda>c. c \<noteq> 0) (take n src)"
proof (induction n arbitrary: m src)
  case 0
  then obtain k c cs where "m = Suc k" "src = c # cs" by (metis Suc_le_length_iff less_imp_Suc_add plus_nat.add_0)
  then show ?case by simp
next
  case (Suc n)
  then obtain k c cs where k: "m = Suc k" "src = c # cs" by (metis Suc_le_length_iff less_imp_Suc_add plus_nat.simps(2))
  with Suc.prems have "n < k" "k \<le> length cs" by auto
  from Suc.IH [OF this] show ?case by (simp add: k)
qed

lemma parse_rsn_returns:
  assumes "\<not> lone_tail ies" "unat (n :: u32) = length ies" "length ies < 65536"
  shows "\<exists>ret rsn. parse_rsn_information ies n = Inr (ret, rsn)"
proof -
  have "ies_valid ies n" using assms(2,3) by (simp add: ies_valid_def)
  from scan_parser_as_mm [OF this assms(2)] obtain code out where "mm_parse_rsn_information ies n = Some (Inr (code, out))"
      "if code = 0 then parse_rsn_information ies n = Inr (1, out)
      else if code = -1 then parse_rsn_information ies n = (if lone_tail ies then Inl Out_of_bounds else Inr (0, rsn_zero))
      else \<exists>out2. parse_rsn_information ies n = Inr (-1, out2)"
    by (elim exE conjE) (rule that)
  with assms(1) show ?thesis by (auto split: if_splits)
qed

lemma fill_record_shows:
  assumes "scan_result_ok r" "length (ap_ssid a) = 33"
  shows "\<exists>b. fill_record r a = Inr b \<and> shows_result b r"
proof -
  let ?w = "takeWhile (\<lambda>c. c \<noteq> 0) (take 33 (sr_ssid r))"
  define bytes where "bytes = ?w @ replicate (33 - length ?w) (0 :: u8)"
  have l33: "33 \<le> length (sr_ssid r)" using assms(1) by (simp add: scan_result_ok_def)
  have len: "length bytes = 33"
    using length_takeWhile_le [of "\<lambda>c. c \<noteq> 0" "take 33 (sr_ssid r)"] l33 by (simp add: bytes_def)
  have "\<exists>cut. mmosal_safer_strcpy (ap_ssid a) (sr_ssid r) 33 = Inr (cut, bytes[32 := 0])"
    using strncpy_bytes_long [OF l33] assms(2) len
    by (simp add: mmosal_safer_strcpy_def mem_write_def mem_get_def flip: bytes_def) (simp add: upd_conv_take_nth_drop)
  then obtain cut where copy: "mmosal_safer_strcpy (ap_ssid a) (sr_ssid r) 33 = Inr (cut, bytes[32 := 0])" by blast
  have n: "length (sr_ies r) < 65536" "unat (ucast (sr_ies_len r) :: u32) = length (sr_ies r)"
    using assms(1) unat_u16_lt [of "sr_ies_len r"] by (simp_all add: scan_result_ok_def unsigned_ucast_eq take_bit_nat_eq_self)
  then obtain ret rsn where parse: "parse_rsn_information (sr_ies r) (ucast (sr_ies_len r)) = Inr (ret, rsn)"
    using parse_rsn_returns assms(1) unfolding scan_result_ok_def by blast
  have cut_n: "takeWhile (\<lambda>c. c \<noteq> 0) (bytes[32 := 0, k := 0]) = takeWhile (\<lambda>c. c \<noteq> 0) (take k (sr_ssid r))" if "k \<le> 32" for k
  proof -
    have "takeWhile (\<lambda>c. c \<noteq> 0) (bytes[32 := 0, k := 0]) = takeWhile (\<lambda>c. c \<noteq> 0) (bytes[k := 0])"
      using that len by (simp add: takeWhile_update_0)
    with takeWhile_cut [of k 33 "sr_ssid r"] that l33 show ?thesis by (simp add: bytes_def)
  qed
  show ?thesis
    using copy parse len cut_n by (simp add: fill_record_def shows_result_def)
qed

definition empty_table :: scan_table where
  "empty_table = \<lparr>halow_ap_record = replicate MAX_SCAN_RECORD_NUM \<lparr>ap_rssi = 0, ap_bssid = replicate 6 0,
     ap_ssid = replicate 33 0, ap_beacon_interval = 0, ap_capability_info = 0, ap_ssid_len = 0, ap_op_bw_mhz = 0,
     ap_security_type = MMWLAN_OPEN\<rparr>, num_scan_results = 0\<rparr>"

definition table_shape :: "scan_table \<Rightarrow> bool" where
  "table_shape t \<longleftrightarrow> length (halow_ap_record t) = 10 \<and> (\<forall>a \<in> set (halow_ap_record t). length (ap_ssid a) = 33)"

text \<open>The table shows exactly the results \<open>kept\<close>, in order.\<close>

definition table_shows :: "scan_table \<Rightarrow> mmwlan_scan_result list \<Rightarrow> bool" where
  "table_shows t kept \<longleftrightarrow> table_shape t \<and> num_scan_results t = length kept \<and> length kept \<le> 9 \<and>
     list_all2 shows_result (take (length kept) (halow_ap_record t)) kept"

lemma table_bssids:
  assumes "table_shows t kept"
  shows "(\<exists>k < length kept. ap_bssid (halow_ap_record t ! k) = x) \<longleftrightarrow> x \<in> sr_bssid ` set kept"
proof -
  have "ap_bssid (halow_ap_record t ! k) = sr_bssid (kept ! k)" if "k < length kept" for k
    using assms that by (auto simp: table_shows_def table_shape_def shows_result_def dest: list_all2_nthD2)
  then have "(\<exists>k < length kept. ap_bssid (halow_ap_record t ! k) = x) \<longleftrightarrow> (\<exists>k < length kept. sr_bssid (kept ! k) = x)"
    by auto
  also have "\<dots> \<longleftrightarrow> x \<in> sr_bssid ` set kept" by (metis imageE image_eqI in_set_conv_nth)
  finally show ?thesis .
qed

lemma callback_step:
  assumes t: "table_shows t kept" and r: "scan_result_ok r"
  shows "\<exists>t1. scan_rx_callback r t = Inr t1 \<and>
    table_shows t1 (if length kept = 9 \<or> sr_bssid r \<in> sr_bssid ` set kept then kept else kept @ [r])"
proof (cases "length kept = 9 \<or> sr_bssid r \<in> sr_bssid ` set kept")
  case True
  have n: "num_scan_results t = length kept" using t by (simp add: table_shows_def)
  have "scan_rx_callback r t = Inr t"
    using True table_bssids [OF t, of "sr_bssid r"] by (auto simp: scan_rx_callback_def Let_def n MAX_SCAN_RECORD_NUM_def)
  with t True show ?thesis by simp
next
  case False
  have n: "num_scan_results t = length kept" "length (halow_ap_record t) = 10" "length kept < 9"
    "length (ap_ssid (halow_ap_record t ! length kept)) = 33"
    using t False by (auto simp: table_shows_def table_shape_def)
  obtain b where b: "fill_record r (halow_ap_record t ! length kept) = Inr b" "shows_result b r"
    using fill_record_shows [OF r n(4)] by blast
  let ?t1 = "\<lparr>halow_ap_record = (halow_ap_record t)[length kept := b], num_scan_results = length kept + 1\<rparr>"
  have "scan_rx_callback r t = Inr ?t1"
    using False table_bssids [OF t, of "sr_bssid r"] n b(1) by (auto simp: scan_rx_callback_def Let_def MAX_SCAN_RECORD_NUM_def)
  moreover have "take (Suc (length kept)) ((halow_ap_record t)[length kept := b]) = take (length kept) (halow_ap_record t) @ [b]"
    using n by (simp add: take_Suc_conv_app_nth)
  then have "table_shows ?t1 (kept @ [r])"
    using t n b(2) by (auto simp: table_shows_def table_shape_def list_all2_appendI shows_result_def dest!: set_update_subset_insert [THEN subsetD])
  ultimately show ?thesis using False by auto
qed

text \<open>
  After any sequence of results the table shows the first nine access points heard, by BSSID and in
  order, each as in its first result; no entry is written outside the table.
\<close>

theorem scan_table_first_nine:
  assumes "\<forall>r \<in> set rs. scan_result_ok r"
  shows "\<exists>t. scan_results rs empty_table = Inr t \<and> table_shows t (take 9 (first_of_bssid rs))"
  using assms
proof (induction rs rule: rev_induct)
  case Nil
  show ?case by (simp add: table_shows_def table_shape_def empty_table_def MAX_SCAN_RECORD_NUM_def)
next
  case (snoc r rs)
  have app: "scan_results (rs @ [r]) t = rbind (scan_results rs t) (scan_rx_callback r)" for t
    by (induction rs arbitrary: t) (auto simp: rbind_def split: sum.split)
  obtain t where t: "scan_results rs empty_table = Inr t" "table_shows t (take 9 (first_of_bssid rs))"
    using snoc by auto
  let ?k = "take 9 (first_of_bssid rs)"
  obtain t1 where t1: "scan_rx_callback r t = Inr t1"
      "table_shows t1 (if length ?k = 9 \<or> sr_bssid r \<in> sr_bssid ` set ?k then ?k else ?k @ [r])"
    using callback_step [OF t(2), of r] snoc.prems by auto
  have "take 9 (first_of_bssid (rs @ [r])) = (if length ?k = 9 \<or> sr_bssid r \<in> sr_bssid ` set ?k then ?k else ?k @ [r])"
  proof (cases "9 \<le> length (first_of_bssid rs)")
    case True
    then show ?thesis by (simp add: first_of_bssid_snoc)
  next
    case False
    then have "?k = first_of_bssid rs" by simp
    with False show ?thesis by (auto simp: first_of_bssid_snoc first_of_bssid_set)
  qed
  with t1 t(1) show ?case by (simp add: app)
qed

definition example_result :: mmwlan_scan_result where
  "example_result = \<lparr>sr_rssi = 0, sr_bssid = [2, 0, 0, 0, 0, 1], sr_ssid = [72, 68] @ replicate 40 1, sr_ies = [0, 2, 72, 68],
     sr_beacon_interval = 100, sr_capability_info = 0, sr_ies_len = 4, sr_ssid_len = 2, sr_op_bw_mhz = 8\<rparr>"

lemma scan_table_first_nine_witness:
  "\<exists>t. scan_results [example_result, example_result] empty_table = Inr t \<and> table_shows t [example_result]"
proof -
  have "\<forall>r \<in> set [example_result, example_result]. scan_result_ok r"
    by (simp add: example_result_def scan_result_ok_def)
  from scan_table_first_nine [OF this] show ?thesis by simp
qed

section \<open>The state of a scan\<close>

definition HALOW_SCANNING_BIT :: u32 where "HALOW_SCANNING_BIT = 4"
definition HALOW_SCAN_DONE_BIT :: u32 where "HALOW_SCAN_DONE_BIT = 8"
definition HALOW_SCAN_RUNNING :: int where "HALOW_SCAN_RUNNING = -1"
definition HALOW_SCAN_FAILED :: int where "HALOW_SCAN_FAILED = -2"

record halow_scan =
  status_bits :: u32
  table :: scan_table
  scanAsync :: bool
  scanStarted :: u32
  scanTimeout :: u32
  scanCount :: u16
  scanResult :: bool

definition halow_scan_init :: halow_scan where
  "halow_scan_init = \<lparr>status_bits = 0, table = empty_table, scanAsync = False, scanStarted = 0, scanTimeout = 10000,
     scanCount = 0, scanResult = False\<rparr>"

definition getStatusBits :: "halow_scan \<Rightarrow> u32" where "getStatusBits s = status_bits s"
definition setStatusBits :: "u32 \<Rightarrow> halow_scan \<Rightarrow> halow_scan" where
  "setStatusBits b s = s\<lparr>status_bits := status_bits s OR b\<rparr>"
definition clearStatusBits :: "u32 \<Rightarrow> halow_scan \<Rightarrow> halow_scan" where
  "clearStatusBits b s = s\<lparr>status_bits := status_bits s AND NOT b\<rparr>"

definition scanDone :: "halow_scan \<Rightarrow> halow_scan" where
  "scanDone s = clearStatusBits HALOW_SCANNING_BIT (setStatusBits HALOW_SCAN_DONE_BIT
     (s\<lparr>scanCount := of_nat (num_scan_results (table s)), scanStarted := 0\<rparr>))"

text \<open>What happens while a caller waits: results come in, or \<open>_scanDone\<close> runs.\<close>

datatype scan_event = Result mmwlan_scan_result | Done

definition scan_event :: "scan_event \<Rightarrow> halow_scan \<Rightarrow> halow_scan result" where
  "scan_event ev s =
     (case ev of
        Result r \<Rightarrow> rbind (scan_rx_callback r (table s)) (\<lambda>t. Inr (s\<lparr>table := t\<rparr>))
      | Done \<Rightarrow> Inr (scanDone s))"

text \<open>\<open>xEventGroupWaitBits\<close> returns the bits when one of those awaited is set, and the bits as they are at the timeout.\<close>

fun waitStatusBits :: "u32 \<Rightarrow> scan_event list \<Rightarrow> halow_scan \<Rightarrow> (u32 \<times> halow_scan) result" where
  "waitStatusBits b [] s = Inr (status_bits s, s)"
| "waitStatusBits b (ev # evs) s =
     (if status_bits s AND b \<noteq> 0 then Inr (status_bits s, s)
      else rbind (scan_event ev s) (waitStatusBits b evs))"

text \<open>\<open>requested\<close> is whether the WLAN library took the request, \<open>now\<close> the clock, \<open>during\<close> the events of the wait.\<close>

definition scanNetworks :: "bool \<Rightarrow> u32 \<Rightarrow> scan_event list \<Rightarrow> halow_scan \<Rightarrow> (int \<times> halow_scan) result" where
  "scanNetworks requested now during s =
     (if getStatusBits s AND HALOW_SCANNING_BIT \<noteq> 0 then Inr (HALOW_SCAN_RUNNING, s)
      else let s1 = s\<lparr>table := (table s)\<lparr>num_scan_results := 0\<rparr>, scanStarted := 0\<rparr>
       in rbind (c_assert requested) (\<lambda>_.
          if requested then
            (let s2 = s1\<lparr>scanStarted := if now = 0 then 1 else now\<rparr>;
                 s3 = setStatusBits HALOW_SCANNING_BIT (clearStatusBits HALOW_SCAN_DONE_BIT s2)
             in if scanAsync s3 then Inr (HALOW_SCAN_RUNNING, s3)
                else rbind (waitStatusBits HALOW_SCAN_DONE_BIT during s3) (\<lambda>(bits, s4).
                     if bits \<noteq> 0 then Inr (sint (scanCount s4), s4) else Inr (HALOW_SCAN_FAILED, s4)))
          else Inr (HALOW_SCAN_FAILED, s1)))"

definition scanComplete :: "u32 \<Rightarrow> halow_scan \<Rightarrow> int \<times> halow_scan" where
  "scanComplete now s =
     (if getStatusBits s AND HALOW_SCAN_DONE_BIT \<noteq> 0 then (sint (scanCount s), s)
      else if getStatusBits s AND HALOW_SCANNING_BIT \<noteq> 0 then (HALOW_SCAN_RUNNING, s)
      else if scanStarted s \<noteq> 0 \<and> scanTimeout s < now - scanStarted s
           then (HALOW_SCAN_FAILED, clearStatusBits HALOW_SCANNING_BIT s)
      else (HALOW_SCAN_FAILED, s))"

definition scanDelete :: "halow_scan \<Rightarrow> halow_scan" where
  "scanDelete s =
     (let s1 = clearStatusBits HALOW_SCAN_DONE_BIT s
      in if scanResult s1 then s1\<lparr>table := (table s1)\<lparr>num_scan_results := 0\<rparr>, scanResult := False, scanCount := 0\<rparr> else s1)"

text \<open>The accessors by index; a bad index gives the empty value.\<close>

definition scan_entry :: "nat \<Rightarrow> halow_scan \<Rightarrow> halow_scan_result option" where
  "scan_entry i s = (if i < unat (scanCount s) then Some (halow_ap_record (table s) ! i) else None)"

definition scan_SSID :: "u8 \<Rightarrow> halow_scan \<Rightarrow> u8 list" where
  "scan_SSID i s = (case scan_entry (unat i) s of Some a \<Rightarrow> takeWhile (\<lambda>c. c \<noteq> 0) (ap_ssid a) | None \<Rightarrow> [])"
definition encryptionType :: "u8 \<Rightarrow> halow_scan \<Rightarrow> mmwlan_security_type" where
  "encryptionType i s = (case scan_entry (unat i) s of Some a \<Rightarrow> ap_security_type a | None \<Rightarrow> MMWLAN_OTHER)"
definition encryptionTypeStr :: "u8 \<Rightarrow> halow_scan \<Rightarrow> string" where
  "encryptionTypeStr i s =
     (case encryptionType i s of MMWLAN_OPEN \<Rightarrow> ''OPEN'' | MMWLAN_OWE \<Rightarrow> ''OWE'' | MMWLAN_SAE \<Rightarrow> ''SAE''
      | MMWLAN_OTHER \<Rightarrow> ''UNKNOWN'')"
definition scan_RSSI :: "u8 \<Rightarrow> halow_scan \<Rightarrow> int" where
  "scan_RSSI i s = (case scan_entry (unat i) s of Some a \<Rightarrow> sint (ap_rssi a) | None \<Rightarrow> 0)"
definition scan_BSSID :: "u8 \<Rightarrow> bool \<Rightarrow> halow_scan \<Rightarrow> u8 list option" where
  "scan_BSSID i has_buff s =
     (case scan_entry (unat i) s of Some a \<Rightarrow> Some (ap_bssid a) | None \<Rightarrow> if has_buff then Some (replicate 6 0) else None)"

definition scan_BSSIDstr :: "u8 \<Rightarrow> halow_scan \<Rightarrow> u8 list result" where
  "scan_BSSIDstr i s = (case scan_BSSID i False s of None \<Rightarrow> Inr [] | Some b \<Rightarrow> mac_string b)"

lemma scan_BSSIDstr_ok:
  "scan_BSSIDstr i s = Inr (case scan_entry (unat i) s of None \<Rightarrow> [] | Some a \<Rightarrow> mac_format (ap_bssid a))"
  by (simp add: scan_BSSIDstr_def scan_BSSID_def mac_string_value split: option.splits)

text \<open>
  The calls of this firmware: \<open>_scanDone\<close> is called by nothing, so no wait sees it.
\<close>

inductive scan_reach :: "halow_scan \<Rightarrow> bool" where
  scan_start: "scan_reach halow_scan_init"
| scan_networks: "scan_reach s \<Longrightarrow> Done \<notin> set during \<Longrightarrow> scanNetworks requested now during s = Inr (v, s1) \<Longrightarrow> scan_reach s1"
| scan_complete: "scan_reach s \<Longrightarrow> scan_reach (snd (scanComplete now s))"
| scan_delete: "scan_reach s \<Longrightarrow> scan_reach (scanDelete s)"
| scan_result: "scan_reach s \<Longrightarrow> scan_event (Result r) s = Inr s1 \<Longrightarrow> scan_reach s1"

text \<open>Only the two scan bits matter, and a scan that runs is not done.\<close>

definition undone :: "halow_scan \<Rightarrow> bool" where
  "undone s \<longleftrightarrow> status_bits s \<in> {0, HALOW_SCANNING_BIT} \<and> scanCount s = 0 \<and> \<not> scanAsync s"

lemma undone_bits:
  assumes "undone s"
  shows "status_bits s AND HALOW_SCAN_DONE_BIT = 0"
    "status_bits s AND HALOW_SCANNING_BIT \<noteq> 0 \<longleftrightarrow> status_bits s = HALOW_SCANNING_BIT"
    "status_bits (clearStatusBits HALOW_SCAN_DONE_BIT s) = status_bits s"
    "status_bits (clearStatusBits HALOW_SCANNING_BIT s) = 0"
    "status_bits s OR HALOW_SCANNING_BIT = HALOW_SCANNING_BIT"
  using assms by (auto simp: undone_def HALOW_SCAN_DONE_BIT_def HALOW_SCANNING_BIT_def clearStatusBits_def)

lemma undone_event:
  "undone s \<Longrightarrow> scan_event (Result r) s = Inr s1 \<Longrightarrow> undone s1 \<and> status_bits s1 = status_bits s"
  by (auto simp: scan_event_def undone_def rbind_eq_Inr)

lemma undone_wait:
  "undone s \<Longrightarrow> Done \<notin> set during \<Longrightarrow> waitStatusBits HALOW_SCAN_DONE_BIT during s = Inr (bits, s1) \<Longrightarrow>
     undone s1 \<and> status_bits s1 = status_bits s \<and> bits = status_bits s"
proof (induction during arbitrary: s)
  case (Cons ev during)
  obtain r where "ev = Result r" using Cons.prems(2) by (cases ev) auto
  with Cons show ?case by (auto simp: undone_bits rbind_eq_Inr dest: undone_event)
qed simp

lemma undone_networks:
  assumes "undone s" "Done \<notin> set during" "scanNetworks requested now during s = Inr (v, s1)"
  shows "undone s1 \<and> (if status_bits s = HALOW_SCANNING_BIT then v = HALOW_SCAN_RUNNING \<and> s1 = s
    else v = 0 \<and> status_bits s1 = HALOW_SCANNING_BIT)"
proof (cases "status_bits s = HALOW_SCANNING_BIT")
  case True
  then have "getStatusBits s AND HALOW_SCANNING_BIT \<noteq> 0" by (simp add: getStatusBits_def HALOW_SCANNING_BIT_def)
  with assms True show ?thesis by (simp add: scanNetworks_def)
next
  case False
  define s3 where "s3 = setStatusBits HALOW_SCANNING_BIT (clearStatusBits HALOW_SCAN_DONE_BIT
    (s\<lparr>table := (table s)\<lparr>num_scan_results := 0\<rparr>, scanStarted := if now = 0 then 1 else now\<rparr>))"
  have s3: "undone s3" "status_bits s3 = HALOW_SCANNING_BIT"
    using assms(1) by (auto simp: s3_def undone_def setStatusBits_def clearStatusBits_def HALOW_SCANNING_BIT_def HALOW_SCAN_DONE_BIT_def)
  then obtain bits s4 where w: "waitStatusBits HALOW_SCAN_DONE_BIT during s3 = Inr (bits, s4)"
    "(v, s1) = (if bits \<noteq> 0 then sint (scanCount s4) else HALOW_SCAN_FAILED, s4)"
    using assms False undone_bits(2) [OF assms(1)]
    by (auto simp: scanNetworks_def getStatusBits_def rbind_eq_Inr Let_def undone_def split: if_splits simp flip: s3_def)
  from undone_wait [OF s3(1) assms(2) w(1)] s3(2) w(2) False show ?thesis
    by (simp add: undone_def HALOW_SCANNING_BIT_def)
qed

text \<open>
  C40: In this firmware no scan ever completes. The first \<open>scanNetworks\<close> reports 0 networks after its
  wait, whatever was heard; from then on it and \<open>scanComplete\<close> report a running scan at every time, the
  time-out of \<open>scanComplete\<close> included, and no entry can be read.
\<close>

theorem scan_never_completes:
  assumes "scan_reach s"
  shows "(\<forall>i. scan_entry i s = None) \<and>
    (\<forall>requested now during v s1. Done \<notin> set during \<and> scanNetworks requested now during s = Inr (v, s1) \<longrightarrow>
       v = (if status_bits s = HALOW_SCANNING_BIT then HALOW_SCAN_RUNNING else 0) \<and>
       (\<forall>now. scanComplete now s1 = (HALOW_SCAN_RUNNING, s1)))"
proof -
  have u: "undone s"
    using assms
  proof induction
    case scan_start
    show ?case by (simp add: undone_def halow_scan_init_def)
  next
    case (scan_networks s during requested now v s1)
    from undone_networks [OF scan_networks.IH scan_networks.hyps(2,3)] show ?case by (rule conjunct1)
  next
    case (scan_complete s now)
    have "undone (clearStatusBits HALOW_SCANNING_BIT s)"
      using scan_complete.IH by (auto simp: undone_def clearStatusBits_def HALOW_SCANNING_BIT_def)
    with scan_complete.IH show ?case by (simp add: scanComplete_def)
  next
    case (scan_delete s)
    then show ?case using undone_bits(3) [OF scan_delete.IH]
      by (simp add: scanDelete_def undone_def clearStatusBits_def Let_def)
  next
    case (scan_result s r s1)
    from undone_event [OF scan_result.IH scan_result.hyps(2)] show ?case by (rule conjunct1)
  qed
  moreover have "scan_entry i s = None" for i using u by (simp add: scan_entry_def undone_def)
  moreover have "v = (if status_bits s = HALOW_SCANNING_BIT then HALOW_SCAN_RUNNING else 0) \<and>
      (\<forall>now. scanComplete now s1 = (HALOW_SCAN_RUNNING, s1))"
    if "Done \<notin> set during" "scanNetworks requested now during s = Inr (v, s1)" for requested now during v s1
  proof -
    note n = undone_networks [OF u that]
    then have "undone s1" "status_bits s1 = HALOW_SCANNING_BIT" by (auto split: if_splits)
    then have "scanComplete now s1 = (HALOW_SCAN_RUNNING, s1)" for now
      by (simp add: scanComplete_def getStatusBits_def HALOW_SCANNING_BIT_def HALOW_SCAN_DONE_BIT_def)
    with n show ?thesis by (auto split: if_splits)
  qed
  ultimately show ?thesis by blast
qed

lemma scan_never_completes_witness:
  "\<exists>s1. scan_reach s1 \<and> status_bits s1 = HALOW_SCANNING_BIT \<and> scanComplete 50000 s1 = (HALOW_SCAN_RUNNING, s1)"
proof -
  obtain t where t: "scan_rx_callback example_result empty_table = Inr t"
    using callback_step [of empty_table "[]" example_result]
    by (auto simp: table_shows_def table_shape_def empty_table_def MAX_SCAN_RECORD_NUM_def scan_result_ok_def example_result_def)
  have "empty_table\<lparr>num_scan_results := 0\<rparr> = empty_table" by (simp add: empty_table_def)
  then obtain v s1 where s1: "scanNetworks True 7 [Result example_result] halow_scan_init = Inr (v, s1)"
      "status_bits s1 = HALOW_SCANNING_BIT"
    by (auto simp: scanNetworks_def halow_scan_init_def getStatusBits_def setStatusBits_def clearStatusBits_def
      HALOW_SCANNING_BIT_def HALOW_SCAN_DONE_BIT_def scan_event_def t)
  have "Done \<notin> set [Result example_result]" by simp
  with scan_never_completes [OF scan_start] s1 scan_networks [OF scan_start this s1(1)] show ?thesis by blast
qed

end
