(* ===== verification/Soft_Ap.thy ===== *)
theory Soft_Ap
  imports MM_Prelude
begin

text \<open>
  The WiFi access point for the mower: soft_ap.cpp, and halow_softap_sync of main.cpp that puts it up and
  down with the HaLow link. The WiFi driver and the DHCP server are modelled as far as the code's
  comments document them; each call's outcome is an answer of the environment.
\<close>

section \<open>State\<close>

datatype mmwlan_sta_state = MMWLAN_STA_DISABLED | MMWLAN_STA_CONNECTING | MMWLAN_STA_CONNECTED

text \<open>
  What the calls answer: \<open>a_netif\<close> whether the AP interface exists, \<open>a_dns\<close> the DNS server that the uplink
  learned, \<open>a_mode_dhcps\<close> and \<open>a_autostart\<close> whether the DHCP server of the AP interface is found running after
  \<open>WiFi.mode\<close> and after \<open>WiFi.softAP\<close> (the driver may start it by itself at both), \<open>a_config\<close> whether the
  driver's configuration can be read and written back.
\<close>

record ap_answers =
  a_mode :: bool
  a_mode_dhcps :: bool
  a_netif :: bool
  a_set_ip :: bool
  a_dns :: "u32 option"
  a_softap :: bool
  a_autostart :: bool
  a_config :: bool
  a_dhcps_start :: bool
  a_napt :: bool

record soft_ap =
  s_softap_up :: bool
  s_event_registered :: bool
  tx_nonblocking :: bool
  wifi_mode_ap :: bool
  ap_ip :: "u32 option"
  dhcps_running :: bool
  offer_dns :: bool
  dhcps_dns :: u32
  radio_up :: bool
  pmf_off :: bool
  napt_on :: bool
  default_route_halow :: bool

definition soft_ap_init :: soft_ap where
  "soft_ap_init = \<lparr>s_softap_up = False, s_event_registered = False, tx_nonblocking = False, wifi_mode_ap = False,
     ap_ip = None, dhcps_running = False, offer_dns = False, dhcps_dns = 0, radio_up = False, pmf_off = False,
     napt_on = False, default_route_halow = False\<rparr>"

text \<open>Addresses in network byte order, as \<open>ipaddr_addr\<close> returns them on the little-endian ESP32.\<close>

definition AP_IP :: u32 where "AP_IP = 0x0104A8C0"
definition AP_DNS_SERVER :: u32 where "AP_DNS_SERVER = 0x0101A8C0"

section \<open>Driver calls\<close>

text \<open>The DHCP server refuses the option while it runs; it then keeps offering its own address.\<close>

definition dhcps_option_offer_dns :: "soft_ap \<Rightarrow> soft_ap" where
  "dhcps_option_offer_dns s = (if dhcps_running s then s else s\<lparr>offer_dns := True\<rparr>)"

definition offered_dns :: "soft_ap \<Rightarrow> u32 option" where
  "offered_dns s = (if offer_dns s then Some (dhcps_dns s) else ap_ip s)"

definition soft_ap_is_up :: "soft_ap \<Rightarrow> bool" where
  "soft_ap_is_up s = s_softap_up s"

text \<open>
  \<open>WiFi.softAPdisconnect\<close> deletes the AP interface: its address, the DHCP options set on it and its NAPT are
  gone, and the next start begins with a fresh interface.
\<close>

definition soft_ap_stop :: "soft_ap \<Rightarrow> soft_ap" where
  "soft_ap_stop s =
     (if \<not> s_softap_up s then s
      else s\<lparr>dhcps_running := False, offer_dns := False, dhcps_dns := 0, ap_ip := None, radio_up := False,
        pmf_off := False, napt_on := False, wifi_mode_ap := False, s_softap_up := False\<rparr>)"

text \<open>The address, DNS and DHCP settings made while the DHCP server is stopped.\<close>

definition preconfigure :: "ap_answers \<Rightarrow> soft_ap \<Rightarrow> soft_ap option" where
  "preconfigure a s =
     (let s1 = s\<lparr>dhcps_running := False\<rparr>
      in if \<not> a_set_ip a then None
         else let s2 = dhcps_option_offer_dns (s1\<lparr>ap_ip := Some AP_IP\<rparr>)
          in Some (s2\<lparr>dhcps_dns := (case a_dns a of Some d \<Rightarrow> d | None \<Rightarrow> AP_DNS_SERVER)\<rparr>))"

text \<open>The part after the radio is up: authentication, DHCP server, NAPT, default route.\<close>

definition bring_up :: "ap_answers \<Rightarrow> soft_ap \<Rightarrow> bool \<times> soft_ap" where
  "bring_up a s =
     (let s1 = (if a_config a then s\<lparr>pmf_off := True\<rparr> else s)
      in if \<not> dhcps_running s1 \<and> \<not> a_dhcps_start a then (False, s1)
         else let s2 = s1\<lparr>dhcps_running := True\<rparr>
          in if \<not> a_napt a then (False, s2)
             else (True, s2\<lparr>napt_on := True, default_route_halow := True, s_softap_up := True\<rparr>))"

definition soft_ap_begin :: "ap_answers \<Rightarrow> soft_ap \<Rightarrow> bool \<times> soft_ap" where
  "soft_ap_begin a s =
     (if s_softap_up s then (True, s)
      else let s1 = s\<lparr>tx_nonblocking := True\<rparr>
       in if \<not> a_mode a then (False, s1)
          else let s2 = s1\<lparr>wifi_mode_ap := True, s_event_registered := True,
              dhcps_running := dhcps_running s1 \<or> a_mode_dhcps a\<rparr>
           in if \<not> a_netif a then (False, s2)
              else case preconfigure a s2 of
                 None \<Rightarrow> (False, s2\<lparr>dhcps_running := False\<rparr>)
               | Some s3 \<Rightarrow>
                   if \<not> a_softap a then (False, s3)
                   else bring_up a (s3\<lparr>radio_up := True, dhcps_running := dhcps_running s3 \<or> a_autostart a\<rparr>))"

section \<open>Following the link\<close>

text \<open>\<open>last\<close> is the static \<open>last_state\<close>; the value of \<open>soft_ap_begin\<close> is not looked at.\<close>

definition halow_softap_sync ::
    "ap_answers \<Rightarrow> mmwlan_sta_state \<Rightarrow> mmwlan_sta_state \<times> soft_ap \<Rightarrow> mmwlan_sta_state \<times> soft_ap" where
  "halow_softap_sync a state ls =
     (case ls of (last_state, s) \<Rightarrow>
        if state = last_state then (last_state, s)
        else (state,
          if state = MMWLAN_STA_CONNECTED then (if \<not> soft_ap_is_up s then snd (soft_ap_begin a s) else s)
          else (if soft_ap_is_up s then soft_ap_stop s else s)))"

text \<open>Boot: \<open>setup\<close> brings the access point up once, whatever comes of it; then the loop follows the link.\<close>

inductive ap_reach :: "mmwlan_sta_state \<times> soft_ap \<Rightarrow> bool" where
  ap_setup: "ap_reach (MMWLAN_STA_DISABLED, snd (soft_ap_begin a soft_ap_init))"
| ap_loop: "ap_reach ls \<Longrightarrow> ap_reach (halow_softap_sync a state ls)"

section \<open>Lemmas\<close>

text \<open>A working access point: radio, DHCP with the right DNS, NAPT and the route through HaLow.\<close>

definition ap_works :: "soft_ap \<Rightarrow> bool" where
  "ap_works s \<longleftrightarrow> radio_up s \<and> dhcps_running s \<and> ap_ip s = Some AP_IP \<and> offer_dns s \<and> napt_on s \<and>
     default_route_halow s \<and> tx_nonblocking s"

lemma soft_ap_begin_works:
  assumes "soft_ap_begin a s = (ok, s1)" "\<not> s_softap_up s"
  shows "(ok \<longleftrightarrow> s_softap_up s1) \<and> (ok \<longrightarrow> ap_works s1 \<and>
    offered_dns s1 = Some (case a_dns a of Some d \<Rightarrow> d | None \<Rightarrow> AP_DNS_SERVER))"
  using assms
  by (auto simp: soft_ap_begin_def bring_up_def preconfigure_def dhcps_option_offer_dns_def ap_works_def offered_dns_def
      Let_def split: if_splits)

lemma soft_ap_begin_idle:
  "s_softap_up s \<Longrightarrow> soft_ap_begin a s = (True, s)"
  by (simp add: soft_ap_begin_def)

lemma sync_up_works:
  assumes "s_softap_up (snd ls) \<longrightarrow> ap_works (snd ls)"
  shows "s_softap_up (snd (halow_softap_sync a state ls)) \<longrightarrow> ap_works (snd (halow_softap_sync a state ls))"
proof -
  obtain l s where ls: "ls = (l, s)" by fastforce
  obtain ok s1 where b: "soft_ap_begin a s = (ok, s1)" by fastforce
  show ?thesis
    using assms soft_ap_begin_works [OF b] b
    by (auto simp: ls halow_softap_sync_def soft_ap_is_up_def soft_ap_stop_def split: if_splits)
qed

text \<open>
  C25: Whenever the firmware counts the access point as up it works: radio on, DHCP server running and
  offering an explicit DNS server, NAPT on, default route through HaLow, transmit function replaced. A
  successful start offers the DNS server that the uplink learned, or the compiled one, also when the DHCP
  server was already running on the interface after \<open>WiFi.mode\<close> (it refuses the option while it runs).
\<close>

theorem soft_ap_up_works:
  assumes "ap_reach ls"
  shows "(s_softap_up (snd ls) \<longrightarrow> ap_works (snd ls)) \<and>
    (\<forall>a s1. \<not> s_softap_up (snd ls) \<and> soft_ap_begin a (snd ls) = (True, s1) \<longrightarrow>
       ap_works s1 \<and> offered_dns s1 = Some (case a_dns a of Some d \<Rightarrow> d | None \<Rightarrow> AP_DNS_SERVER))"
proof -
  have "s_softap_up (snd ls) \<longrightarrow> ap_works (snd ls)"
    using assms
  proof induction
    case (ap_setup a)
    obtain ok s1 where "soft_ap_begin a soft_ap_init = (ok, s1)" by fastforce
    with soft_ap_begin_works [OF this] show ?case by (simp add: soft_ap_init_def)
  next
    case (ap_loop ls a state)
    from ap_loop.IH show ?case by (rule sync_up_works)
  qed
  then show ?thesis using soft_ap_begin_works by blast
qed

definition all_well :: ap_answers where
  "all_well = \<lparr>a_mode = True, a_mode_dhcps = True, a_netif = True, a_set_ip = True, a_dns = None, a_softap = True, a_autostart = True,
     a_config = True, a_dhcps_start = True, a_napt = True\<rparr>"

lemma soft_ap_up_works_witness:
  "ap_reach (MMWLAN_STA_DISABLED, snd (soft_ap_begin all_well soft_ap_init)) \<and>
   s_softap_up (snd (soft_ap_begin all_well soft_ap_init)) \<and> ap_works (snd (soft_ap_begin all_well soft_ap_init))"
proof -
  have "s_softap_up (snd (soft_ap_begin all_well soft_ap_init))"
    by (simp add: soft_ap_begin_def soft_ap_init_def all_well_def preconfigure_def bring_up_def dhcps_option_offer_dns_def)
  with soft_ap_up_works [OF ap_setup [of all_well]] ap_setup [of all_well] show ?thesis by simp
qed

text \<open>
  A start that fails after the link came up is not tried again while the link stays up. A start that
  fails after the radio is on (DHCP server or NAPT) leaves the radio on, and no later loss of the link
  turns it off: the SSID is broadcast without an uplink.
\<close>

theorem softap_failure_sticks:
  assumes "l \<noteq> MMWLAN_STA_CONNECTED" and "\<not> s_softap_up s"
    and "soft_ap_begin a s = (False, s1)"
  shows "fold (\<lambda>a. halow_softap_sync a MMWLAN_STA_CONNECTED) (a # as) (l, s) = (MMWLAN_STA_CONNECTED, s1) \<and>
    (radio_up s1 \<longrightarrow> (\<forall>a2 state. state \<noteq> MMWLAN_STA_CONNECTED \<longrightarrow>
       radio_up (snd (halow_softap_sync a2 state (MMWLAN_STA_CONNECTED, s1)))))"
proof -
  have first: "halow_softap_sync a MMWLAN_STA_CONNECTED (l, s) = (MMWLAN_STA_CONNECTED, s1)"
    using assms by (simp add: halow_softap_sync_def soft_ap_is_up_def)
  have again: "fold (\<lambda>a. halow_softap_sync a MMWLAN_STA_CONNECTED) as (MMWLAN_STA_CONNECTED, s1) = (MMWLAN_STA_CONNECTED, s1)"
    by (induction as) (simp_all add: halow_softap_sync_def)
  have "\<not> s_softap_up s1" using soft_ap_begin_works [OF assms(3,2)] by simp
  with first again show ?thesis by (simp add: halow_softap_sync_def soft_ap_is_up_def)
qed

lemma softap_failure_sticks_witness:
  "\<exists>s1. soft_ap_begin (all_well\<lparr>a_napt := False\<rparr>) soft_ap_init = (False, s1) \<and> radio_up s1 \<and>
     halow_softap_sync all_well MMWLAN_STA_CONNECTED
       (halow_softap_sync (all_well\<lparr>a_napt := False\<rparr>) MMWLAN_STA_CONNECTED (MMWLAN_STA_DISABLED, soft_ap_init)) =
       (MMWLAN_STA_CONNECTED, s1) \<and>
     radio_up (snd (halow_softap_sync all_well MMWLAN_STA_CONNECTING (MMWLAN_STA_CONNECTED, s1)))"
proof -
  have init: "\<not> s_softap_up soft_ap_init" by (simp add: soft_ap_init_def)
  obtain s1 where s1: "soft_ap_begin (all_well\<lparr>a_napt := False\<rparr>) soft_ap_init = (False, s1)" "radio_up s1"
    by (simp add: soft_ap_begin_def soft_ap_init_def all_well_def preconfigure_def bring_up_def dhcps_option_offer_dns_def)
  from softap_failure_sticks [OF _ init s1(1), of MMWLAN_STA_DISABLED "[all_well]"] s1 show ?thesis by simp
qed

end
