(* ===== verification/Regdb.thy ===== *)
theory Regdb
  imports MM_Prelude
begin

text \<open>
  The regulatory database of mmwlan_regdb.h and its lookup (mmwlan.h): the channel lists of the eight
  domains, and the S1G channelisation that they follow.
\<close>

section \<open>Channels\<close>

record mmwlan_s1g_channel =
  centre_freq_hz :: u32
  duty_cycle_sta :: u16
  duty_cycle_omit_ctrl_resp :: bool
  global_operating_class :: int
  s1g_operating_class :: int
  s1g_chan_num :: u8
  bw_mhz :: u8
  max_tx_eirp_dbm :: int
  pkt_spacing_us :: u32
  airtime_min_us :: u32
  airtime_max_us :: u32

record mmwlan_s1g_channel_list =
  country_code :: "u8 list"
  channels :: "mmwlan_s1g_channel list"

text \<open>One row of a table, in the order of the struct.\<close>

definition s1g_channel ::
    "u32 \<Rightarrow> u16 \<Rightarrow> bool \<Rightarrow> int \<Rightarrow> int \<Rightarrow> u8 \<Rightarrow> u8 \<Rightarrow> int \<Rightarrow> u32 \<Rightarrow> u32 \<Rightarrow> u32 \<Rightarrow> mmwlan_s1g_channel" where
  "s1g_channel f d om g c n b e sp mn mx = \<lparr>centre_freq_hz = f, duty_cycle_sta = d, duty_cycle_omit_ctrl_resp = om,
     global_operating_class = g, s1g_operating_class = c, s1g_chan_num = n, bw_mhz = b, max_tx_eirp_dbm = e,
     pkt_spacing_us = sp, airtime_min_us = mn, airtime_max_us = mx\<rparr>"

section \<open>The tables\<close>

definition s1g_channels_AU :: "mmwlan_s1g_channel list" where
  "s1g_channels_AU = [
     s1g_channel 915500000 10000 False 68 22 27 1 30 0 0 0,
     s1g_channel 916500000 10000 False 68 22 29 1 30 0 0 0,
     s1g_channel 917500000 10000 False 68 22 31 1 30 0 0 0,
     s1g_channel 918500000 10000 False 68 22 33 1 30 0 0 0,
     s1g_channel 919500000 10000 False 68 22 35 1 30 0 0 0,
     s1g_channel 920500000 10000 False 68 22 37 1 30 0 0 0,
     s1g_channel 921500000 10000 False 68 22 39 1 30 0 0 0,
     s1g_channel 922500000 10000 False 68 22 41 1 30 0 0 0,
     s1g_channel 923500000 10000 False 68 22 43 1 30 0 0 0,
     s1g_channel 924500000 10000 False 68 22 45 1 30 0 0 0,
     s1g_channel 925500000 10000 False 68 22 47 1 30 0 0 0,
     s1g_channel 926500000 10000 False 68 22 49 1 30 0 0 0,
     s1g_channel 927500000 10000 False 68 22 51 1 30 0 0 0,
     s1g_channel 917000000 10000 False 69 23 30 2 30 0 0 0,
     s1g_channel 919000000 10000 False 69 23 34 2 30 0 0 0,
     s1g_channel 921000000 10000 False 69 23 38 2 30 0 0 0,
     s1g_channel 923000000 10000 False 69 23 42 2 30 0 0 0,
     s1g_channel 925000000 10000 False 69 23 46 2 30 0 0 0,
     s1g_channel 927000000 10000 False 69 23 50 2 30 0 0 0,
     s1g_channel 918000000 10000 False 70 24 32 4 30 0 0 0,
     s1g_channel 922000000 10000 False 70 24 40 4 30 0 0 0,
     s1g_channel 926000000 10000 False 70 24 48 4 30 0 0 0,
     s1g_channel 924000000 10000 False 71 25 44 8 30 0 0 0]"

definition s1g_channels_CA :: "mmwlan_s1g_channel list" where
  "s1g_channels_CA = [
     s1g_channel 902500000 10000 False 68 1 1 1 36 0 0 0,
     s1g_channel 903500000 10000 False 68 1 3 1 36 0 0 0,
     s1g_channel 904500000 10000 False 68 1 5 1 36 0 0 0,
     s1g_channel 905500000 10000 False 68 1 7 1 36 0 0 0,
     s1g_channel 906500000 10000 False 68 1 9 1 36 0 0 0,
     s1g_channel 907500000 10000 False 68 1 11 1 36 0 0 0,
     s1g_channel 908500000 10000 False 68 1 13 1 36 0 0 0,
     s1g_channel 909500000 10000 False 68 1 15 1 36 0 0 0,
     s1g_channel 910500000 10000 False 68 1 17 1 36 0 0 0,
     s1g_channel 911500000 10000 False 68 1 19 1 36 0 0 0,
     s1g_channel 912500000 10000 False 68 1 21 1 36 0 0 0,
     s1g_channel 913500000 10000 False 68 1 23 1 36 0 0 0,
     s1g_channel 914500000 10000 False 68 1 25 1 36 0 0 0,
     s1g_channel 915500000 10000 False 68 1 27 1 36 0 0 0,
     s1g_channel 916500000 10000 False 68 1 29 1 36 0 0 0,
     s1g_channel 917500000 10000 False 68 1 31 1 36 0 0 0,
     s1g_channel 918500000 10000 False 68 1 33 1 36 0 0 0,
     s1g_channel 919500000 10000 False 68 1 35 1 36 0 0 0,
     s1g_channel 920500000 10000 False 68 1 37 1 36 0 0 0,
     s1g_channel 921500000 10000 False 68 1 39 1 36 0 0 0,
     s1g_channel 922500000 10000 False 68 1 41 1 36 0 0 0,
     s1g_channel 923500000 10000 False 68 1 43 1 36 0 0 0,
     s1g_channel 924500000 10000 False 68 1 45 1 36 0 0 0,
     s1g_channel 925500000 10000 False 68 1 47 1 36 0 0 0,
     s1g_channel 926500000 10000 False 68 1 49 1 36 0 0 0,
     s1g_channel 927500000 10000 False 68 1 51 1 36 0 0 0,
     s1g_channel 903000000 10000 False 69 2 2 2 36 0 0 0,
     s1g_channel 905000000 10000 False 69 2 6 2 36 0 0 0,
     s1g_channel 907000000 10000 False 69 2 10 2 36 0 0 0,
     s1g_channel 909000000 10000 False 69 2 14 2 36 0 0 0,
     s1g_channel 911000000 10000 False 69 2 18 2 36 0 0 0,
     s1g_channel 913000000 10000 False 69 2 22 2 36 0 0 0,
     s1g_channel 915000000 10000 False 69 2 26 2 36 0 0 0,
     s1g_channel 917000000 10000 False 69 2 30 2 36 0 0 0,
     s1g_channel 919000000 10000 False 69 2 34 2 36 0 0 0,
     s1g_channel 921000000 10000 False 69 2 38 2 36 0 0 0,
     s1g_channel 923000000 10000 False 69 2 42 2 36 0 0 0,
     s1g_channel 925000000 10000 False 69 2 46 2 36 0 0 0,
     s1g_channel 927000000 10000 False 69 2 50 2 36 0 0 0,
     s1g_channel 906000000 10000 False 70 3 8 4 36 0 0 0,
     s1g_channel 910000000 10000 False 70 3 16 4 36 0 0 0,
     s1g_channel 914000000 10000 False 70 3 24 4 36 0 0 0,
     s1g_channel 918000000 10000 False 70 3 32 4 36 0 0 0,
     s1g_channel 922000000 10000 False 70 3 40 4 36 0 0 0,
     s1g_channel 926000000 10000 False 70 3 48 4 36 0 0 0,
     s1g_channel 908000000 10000 False 71 4 12 8 36 0 0 0,
     s1g_channel 916000000 10000 False 71 4 28 8 36 0 0 0,
     s1g_channel 924000000 10000 False 71 4 44 8 36 0 0 0]"

definition s1g_channels_EU :: "mmwlan_s1g_channel list" where
  "s1g_channels_EU = [
     s1g_channel 863500000 10000 False 66 6 1 1 16 0 0 0,
     s1g_channel 864500000 10000 False 66 6 3 1 16 0 0 0,
     s1g_channel 865500000 10000 False 66 6 5 1 16 0 0 0,
     s1g_channel 866500000 10000 False 66 6 7 1 16 0 0 0,
     s1g_channel 867500000 10000 False 66 6 9 1 16 0 0 0]"

definition s1g_channels_IN :: "mmwlan_s1g_channel list" where
  "s1g_channels_IN = [
     s1g_channel 865500000 280 False 66 6 5 1 16 0 0 0,
     s1g_channel 866500000 280 False 66 6 7 1 16 0 0 0,
     s1g_channel 867500000 280 False 66 6 9 1 16 0 0 0]"

definition s1g_channels_JP :: "mmwlan_s1g_channel list" where
  "s1g_channels_JP = [
     s1g_channel 921000000 1000 True 73 8 9 1 16 2000 2000 100000,
     s1g_channel 923000000 1000 True 73 8 13 1 16 2000 2000 100000,
     s1g_channel 924000000 1000 True 73 8 15 1 16 2000 2000 100000,
     s1g_channel 925000000 1000 True 73 8 17 1 16 2000 2000 100000,
     s1g_channel 926000000 1000 True 73 8 19 1 16 2000 2000 100000,
     s1g_channel 927000000 1000 True 73 8 21 1 16 2000 2000 100000,
     s1g_channel 923500000 1000 True 64 9 2 2 16 2000 2000 100000,
     s1g_channel 924500000 1000 True 64 10 4 2 16 2000 2000 100000,
     s1g_channel 925500000 1000 True 64 9 6 2 16 2000 2000 100000,
     s1g_channel 926500000 1000 True 64 10 8 2 16 2000 2000 100000,
     s1g_channel 924500000 1000 True 65 11 36 4 16 2000 2000 100000,
     s1g_channel 925500000 1000 True 65 12 38 4 16 2000 2000 100000]"

definition s1g_channels_KR :: "mmwlan_s1g_channel list" where
  "s1g_channels_KR = [
     s1g_channel 918000000 10000 False 74 14 1 1 4 50000 0 4000000,
     s1g_channel 919000000 10000 False 74 14 3 1 4 50000 0 4000000,
     s1g_channel 920000000 10000 False 74 14 5 1 4 50000 0 4000000,
     s1g_channel 921000000 10000 False 74 14 7 1 4 50000 0 4000000,
     s1g_channel 922000000 10000 False 74 14 9 1 10 50000 0 4000000,
     s1g_channel 923000000 10000 False 74 14 11 1 10 50000 0 4000000,
     s1g_channel 918500000 10000 False 75 15 2 2 4 50000 0 4000000,
     s1g_channel 920500000 10000 False 75 15 6 2 4 50000 0 4000000,
     s1g_channel 922500000 10000 False 75 15 10 2 10 50000 0 4000000,
     s1g_channel 921500000 10000 False 76 16 8 4 4 50000 0 4000000,
     s1g_channel 926500000 10000 False 74 14 18 1 17 264 0 220000,
     s1g_channel 927500000 10000 False 74 14 20 1 17 264 0 220000,
     s1g_channel 928500000 10000 False 74 14 22 1 17 264 0 220000,
     s1g_channel 929500000 10000 False 74 14 24 1 17 264 0 220000,
     s1g_channel 927000000 10000 False 75 15 19 2 20 264 0 220000,
     s1g_channel 929000000 10000 False 75 15 23 2 20 264 0 220000]"

definition s1g_channels_NZ :: "mmwlan_s1g_channel list" where
  "s1g_channels_NZ = [
     s1g_channel 915500000 10000 False 68 26 27 1 30 0 0 0,
     s1g_channel 916500000 10000 False 68 26 29 1 30 0 0 0,
     s1g_channel 917500000 10000 False 68 26 31 1 30 0 0 0,
     s1g_channel 918500000 10000 False 68 26 33 1 30 0 0 0,
     s1g_channel 919500000 10000 False 68 26 35 1 30 0 0 0,
     s1g_channel 920500000 10000 False 68 26 37 1 36 0 0 0,
     s1g_channel 921500000 10000 False 68 26 39 1 36 0 0 0,
     s1g_channel 922500000 10000 False 68 26 41 1 36 0 0 0,
     s1g_channel 923500000 10000 False 68 26 43 1 36 0 0 0,
     s1g_channel 924500000 10000 False 68 26 45 1 36 0 0 0,
     s1g_channel 925500000 10000 False 68 26 47 1 36 0 0 0,
     s1g_channel 926500000 10000 False 68 26 49 1 36 0 0 0,
     s1g_channel 927500000 10000 False 68 26 51 1 36 0 0 0,
     s1g_channel 917000000 10000 False 69 27 30 2 30 0 0 0,
     s1g_channel 919000000 10000 False 69 27 34 2 30 0 0 0,
     s1g_channel 921000000 10000 False 69 27 38 2 36 0 0 0,
     s1g_channel 923000000 10000 False 69 27 42 2 36 0 0 0,
     s1g_channel 925000000 10000 False 69 27 46 2 36 0 0 0,
     s1g_channel 927000000 10000 False 69 27 50 2 36 0 0 0,
     s1g_channel 918000000 10000 False 70 28 32 4 30 0 0 0,
     s1g_channel 922000000 10000 False 70 28 40 4 36 0 0 0,
     s1g_channel 926000000 10000 False 70 28 48 4 36 0 0 0,
     s1g_channel 924000000 10000 False 71 29 44 8 36 0 0 0]"

definition s1g_channels_US :: "mmwlan_s1g_channel list" where
  "s1g_channels_US = [
     s1g_channel 902500000 10000 False 68 1 1 1 36 0 0 0,
     s1g_channel 903500000 10000 False 68 1 3 1 36 0 0 0,
     s1g_channel 904500000 10000 False 68 1 5 1 36 0 0 0,
     s1g_channel 905500000 10000 False 68 1 7 1 36 0 0 0,
     s1g_channel 906500000 10000 False 68 1 9 1 36 0 0 0,
     s1g_channel 907500000 10000 False 68 1 11 1 36 0 0 0,
     s1g_channel 908500000 10000 False 68 1 13 1 36 0 0 0,
     s1g_channel 909500000 10000 False 68 1 15 1 36 0 0 0,
     s1g_channel 910500000 10000 False 68 1 17 1 36 0 0 0,
     s1g_channel 911500000 10000 False 68 1 19 1 36 0 0 0,
     s1g_channel 912500000 10000 False 68 1 21 1 36 0 0 0,
     s1g_channel 913500000 10000 False 68 1 23 1 36 0 0 0,
     s1g_channel 914500000 10000 False 68 1 25 1 36 0 0 0,
     s1g_channel 915500000 10000 False 68 1 27 1 36 0 0 0,
     s1g_channel 916500000 10000 False 68 1 29 1 36 0 0 0,
     s1g_channel 917500000 10000 False 68 1 31 1 36 0 0 0,
     s1g_channel 918500000 10000 False 68 1 33 1 36 0 0 0,
     s1g_channel 919500000 10000 False 68 1 35 1 36 0 0 0,
     s1g_channel 920500000 10000 False 68 1 37 1 36 0 0 0,
     s1g_channel 921500000 10000 False 68 1 39 1 36 0 0 0,
     s1g_channel 922500000 10000 False 68 1 41 1 36 0 0 0,
     s1g_channel 923500000 10000 False 68 1 43 1 36 0 0 0,
     s1g_channel 924500000 10000 False 68 1 45 1 36 0 0 0,
     s1g_channel 925500000 10000 False 68 1 47 1 36 0 0 0,
     s1g_channel 926500000 10000 False 68 1 49 1 36 0 0 0,
     s1g_channel 927500000 10000 False 68 1 51 1 36 0 0 0,
     s1g_channel 903000000 10000 False 69 2 2 2 36 0 0 0,
     s1g_channel 905000000 10000 False 69 2 6 2 36 0 0 0,
     s1g_channel 907000000 10000 False 69 2 10 2 36 0 0 0,
     s1g_channel 909000000 10000 False 69 2 14 2 36 0 0 0,
     s1g_channel 911000000 10000 False 69 2 18 2 36 0 0 0,
     s1g_channel 913000000 10000 False 69 2 22 2 36 0 0 0,
     s1g_channel 915000000 10000 False 69 2 26 2 36 0 0 0,
     s1g_channel 917000000 10000 False 69 2 30 2 36 0 0 0,
     s1g_channel 919000000 10000 False 69 2 34 2 36 0 0 0,
     s1g_channel 921000000 10000 False 69 2 38 2 36 0 0 0,
     s1g_channel 923000000 10000 False 69 2 42 2 36 0 0 0,
     s1g_channel 925000000 10000 False 69 2 46 2 36 0 0 0,
     s1g_channel 927000000 10000 False 69 2 50 2 36 0 0 0,
     s1g_channel 906000000 10000 False 70 3 8 4 36 0 0 0,
     s1g_channel 910000000 10000 False 70 3 16 4 36 0 0 0,
     s1g_channel 914000000 10000 False 70 3 24 4 36 0 0 0,
     s1g_channel 918000000 10000 False 70 3 32 4 36 0 0 0,
     s1g_channel 922000000 10000 False 70 3 40 4 36 0 0 0,
     s1g_channel 926000000 10000 False 70 3 48 4 36 0 0 0,
     s1g_channel 908000000 10000 False 71 4 12 8 36 0 0 0,
     s1g_channel 916000000 10000 False 71 4 28 8 36 0 0 0,
     s1g_channel 924000000 10000 False 71 4 44 8 36 0 0 0]"

text \<open>The country codes are the two characters and a NUL.\<close>

definition s1g_channel_list_AU :: mmwlan_s1g_channel_list where
  "s1g_channel_list_AU = \<lparr>country_code = [65, 85, 0], channels = s1g_channels_AU\<rparr>"

definition s1g_channel_list_CA :: mmwlan_s1g_channel_list where
  "s1g_channel_list_CA = \<lparr>country_code = [67, 65, 0], channels = s1g_channels_CA\<rparr>"

definition s1g_channel_list_EU :: mmwlan_s1g_channel_list where
  "s1g_channel_list_EU = \<lparr>country_code = [69, 85, 0], channels = s1g_channels_EU\<rparr>"

definition s1g_channel_list_IN :: mmwlan_s1g_channel_list where
  "s1g_channel_list_IN = \<lparr>country_code = [73, 78, 0], channels = s1g_channels_IN\<rparr>"

definition s1g_channel_list_JP :: mmwlan_s1g_channel_list where
  "s1g_channel_list_JP = \<lparr>country_code = [74, 80, 0], channels = s1g_channels_JP\<rparr>"

definition s1g_channel_list_KR :: mmwlan_s1g_channel_list where
  "s1g_channel_list_KR = \<lparr>country_code = [75, 82, 0], channels = s1g_channels_KR\<rparr>"

definition s1g_channel_list_NZ :: mmwlan_s1g_channel_list where
  "s1g_channel_list_NZ = \<lparr>country_code = [78, 90, 0], channels = s1g_channels_NZ\<rparr>"

definition s1g_channel_list_US :: mmwlan_s1g_channel_list where
  "s1g_channel_list_US = \<lparr>country_code = [85, 83, 0], channels = s1g_channels_US\<rparr>"

definition regulatory_db_domains :: "mmwlan_s1g_channel_list list" where
  "regulatory_db_domains = [s1g_channel_list_AU, s1g_channel_list_CA, s1g_channel_list_EU, s1g_channel_list_IN,
     s1g_channel_list_JP, s1g_channel_list_KR, s1g_channel_list_NZ, s1g_channel_list_US]"

definition get_regulatory_db :: "mmwlan_s1g_channel_list list" where
  "get_regulatory_db = regulatory_db_domains"

text \<open>\<open>ii\<close> goes through the domains; \<open>region\<close> is read at its first two characters.\<close>

fun lookup_from :: "mmwlan_s1g_channel_list list \<Rightarrow> u8 list \<Rightarrow> mmwlan_s1g_channel_list option" where
  "lookup_from [] region = None"
| "lookup_from (cl # rest) region =
     (if country_code cl ! 0 = region ! 0 \<and> country_code cl ! 1 = region ! 1 then Some cl else lookup_from rest region)"

text \<open>A NULL database is \<open>None\<close>.\<close>

definition mmwlan_lookup_regulatory_domain ::
    "mmwlan_s1g_channel_list list option \<Rightarrow> u8 list \<Rightarrow> mmwlan_s1g_channel_list option" where
  "mmwlan_lookup_regulatory_domain db region = (case db of None \<Rightarrow> None | Some domains \<Rightarrow> lookup_from domains region)"

section \<open>The channelisation\<close>

text \<open>
  What an S1G operating class fixes: the global operating class, the bandwidth in MHz and the frequency
  from which channels are counted in steps of 500 kHz.
\<close>

fun operating_class :: "int \<Rightarrow> (int \<times> int \<times> int) option" where
  "operating_class c =
     (if c \<in> {1, 22, 26} then Some (68, 1, 902000000)
      else if c \<in> {2, 23, 27} then Some (69, 2, 902000000)
      else if c \<in> {3, 24, 28} then Some (70, 4, 902000000)
      else if c \<in> {4, 25, 29} then Some (71, 8, 902000000)
      else if c = 6 then Some (66, 1, 863000000)
      else if c = 8 then Some (73, 1, 916500000)
      else if c \<in> {9, 10} then Some (64, 2, 922500000)
      else if c \<in> {11, 12} then Some (65, 4, 906500000)
      else if c = 14 then Some (74, 1, 917500000)
      else if c = 15 then Some (75, 2, 917500000)
      else if c = 16 then Some (76, 4, 917500000)
      else None)"

text \<open>
  The licence-exempt band of a domain, in Hz. This is specification: the bands are stated nowhere in the source.
  That of Korea is the smallest interval that holds the channels of its table, so there the check on
  the band says little; it says that the channels lie inside known bands for the other domains.
\<close>

definition band :: "u8 list \<Rightarrow> int \<times> int" where
  "band code =
     (if code = [65, 85, 0] \<or> code = [78, 90, 0] then (915000000, 928000000)
      else if code = [67, 65, 0] \<or> code = [85, 83, 0] then (902000000, 928000000)
      else if code = [69, 85, 0] then (863000000, 868000000)
      else if code = [73, 78, 0] then (865000000, 868000000)
      else if code = [74, 80, 0] then (920500000, 928000000)
      else (917500000, 930000000))"

definition channel_ok :: "int \<times> int \<Rightarrow> mmwlan_s1g_channel \<Rightarrow> bool" where
  "channel_ok lohi c \<longleftrightarrow>
     (case operating_class (s1g_operating_class c) of
        None \<Rightarrow> False
      | Some (g, bw, start) \<Rightarrow>
          global_operating_class c = g \<and> uint (bw_mhz c) = bw \<and>
          uint (centre_freq_hz c) = start + 500000 * uint (s1g_chan_num c)) \<and>
     fst lohi \<le> uint (centre_freq_hz c) - 500000 * uint (bw_mhz c) \<and>
     uint (centre_freq_hz c) + 500000 * uint (bw_mhz c) \<le> snd lohi"

lemma channel_ok_row [simp]:
  "channel_ok lohi (s1g_channel f d om g c n b e sp mn mx) \<longleftrightarrow>
     operating_class c = Some (g, uint b, uint f - 500000 * uint n) \<and>
     fst lohi \<le> uint f - 500000 * uint b \<and> uint f + 500000 * uint b \<le> snd lohi"
  by (auto simp: channel_ok_def s1g_channel_def split: option.splits)

lemma s1g_channel_num [simp]: "s1g_chan_num (s1g_channel f d om g c n b e sp mn mx) = n"
  by (simp add: s1g_channel_def)

definition list_ok :: "mmwlan_s1g_channel_list \<Rightarrow> bool" where
  "list_ok cl \<longleftrightarrow> list_all (channel_ok (band (country_code cl))) (channels cl) \<and> distinct (map s1g_chan_num (channels cl))"

lemma list_ok_AU: "list_ok s1g_channel_list_AU"
  by (simp add: list_ok_def s1g_channel_list_AU_def s1g_channels_AU_def band_def)

lemma list_ok_CA: "list_ok s1g_channel_list_CA"
  by (simp add: list_ok_def s1g_channel_list_CA_def s1g_channels_CA_def band_def)

lemma list_ok_EU: "list_ok s1g_channel_list_EU"
  by (simp add: list_ok_def s1g_channel_list_EU_def s1g_channels_EU_def band_def)

lemma list_ok_IN: "list_ok s1g_channel_list_IN"
  by (simp add: list_ok_def s1g_channel_list_IN_def s1g_channels_IN_def band_def)

lemma list_ok_JP: "list_ok s1g_channel_list_JP"
  by (simp add: list_ok_def s1g_channel_list_JP_def s1g_channels_JP_def band_def)

lemma list_ok_KR: "list_ok s1g_channel_list_KR"
  by (simp add: list_ok_def s1g_channel_list_KR_def s1g_channels_KR_def band_def)

lemma list_ok_NZ: "list_ok s1g_channel_list_NZ"
  by (simp add: list_ok_def s1g_channel_list_NZ_def s1g_channels_NZ_def band_def)

lemma list_ok_US: "list_ok s1g_channel_list_US"
  by (simp add: list_ok_def s1g_channel_list_US_def s1g_channels_US_def band_def)

section \<open>Lookup\<close>

lemma lookup_from_first:
  "(lookup_from db region = None \<longleftrightarrow> (\<forall>cl \<in> set db. \<not> (country_code cl ! 0 = region ! 0 \<and> country_code cl ! 1 = region ! 1))) \<and>
   (\<forall>cl. lookup_from db region = Some cl \<longrightarrow> cl \<in> set db \<and> country_code cl ! 0 = region ! 0 \<and> country_code cl ! 1 = region ! 1)"
  by (induction db) auto

lemma domains_ok: "cl \<in> set get_regulatory_db \<Longrightarrow> list_ok cl"
  unfolding get_regulatory_db_def regulatory_db_domains_def
  using list_ok_AU list_ok_CA list_ok_EU list_ok_IN list_ok_JP list_ok_KR list_ok_NZ list_ok_US by auto

lemma domain_codes:
  "map country_code get_regulatory_db =
     [[65, 85, 0], [67, 65, 0], [69, 85, 0], [73, 78, 0], [74, 80, 0], [75, 82, 0], [78, 90, 0], [85, 83, 0]]"
  by (simp add: get_regulatory_db_def regulatory_db_domains_def s1g_channel_list_AU_def s1g_channel_list_CA_def
    s1g_channel_list_EU_def s1g_channel_list_IN_def s1g_channel_list_JP_def s1g_channel_list_KR_def
    s1g_channel_list_NZ_def s1g_channel_list_US_def)

lemma lookup_sound:
  assumes "length region = 4"
  shows "case mmwlan_lookup_regulatory_domain (Some get_regulatory_db) region of
      None \<Rightarrow> take 2 region \<notin> {[65, 85], [67, 65], [69, 85], [73, 78], [74, 80], [75, 82], [78, 90], [85, 83]}
    | Some cl \<Rightarrow> cl \<in> set get_regulatory_db \<and> take 2 (country_code cl) = take 2 region \<and>
        (\<forall>c \<in> set (channels cl). channel_ok (band (country_code cl)) c) \<and> distinct (map s1g_chan_num (channels cl))"
proof -
  obtain a b c d where r: "region = [a, b, c, d]" using assms by (auto simp: numeral_eq_Suc length_Suc_conv)
  have codes: "country_code ` set get_regulatory_db =
      {[65, 85, 0], [67, 65, 0], [69, 85, 0], [73, 78, 0], [74, 80, 0], [75, 82, 0], [78, 90, 0], [85, 83, 0]}"
    by (simp only: set_map [symmetric] domain_codes list.set)
  show ?thesis
  proof (cases "lookup_from get_regulatory_db region")
    case None
    then have "\<forall>k \<in> country_code ` set get_regulatory_db. \<not> (k ! 0 = a \<and> k ! 1 = b)"
      using lookup_from_first [of get_regulatory_db region] by (simp add: r)
    with None show ?thesis unfolding codes by (auto simp: mmwlan_lookup_regulatory_domain_def r)
  next
    case (Some cl)
    then have cl: "cl \<in> set get_regulatory_db" "country_code cl ! 0 = a" "country_code cl ! 1 = b"
      using lookup_from_first [of get_regulatory_db region] by (simp_all add: r)
    then have "country_code cl \<in> country_code ` set get_regulatory_db" by (intro imageI)
    then have "take 2 (country_code cl) = [a, b]" using cl(2,3) unfolding codes by auto
    with Some cl(1) domains_ok [OF cl(1)] show ?thesis
      by (simp add: mmwlan_lookup_regulatory_domain_def list_ok_def list_all_iff r)
  qed
qed

lemma lookup_unknown:
  assumes "length region = 4" "take 2 region \<notin> {[65, 85], [67, 65], [69, 85], [73, 78], [74, 80], [75, 82], [78, 90], [85, 83]}"
  shows "mmwlan_lookup_regulatory_domain (Some get_regulatory_db) region = None"
proof (cases "mmwlan_lookup_regulatory_domain (Some get_regulatory_db) region")
  case (Some cl)
  with lookup_sound [OF assms(1)] have cl: "cl \<in> set get_regulatory_db" "take 2 (country_code cl) = take 2 region" by auto
  then have "country_code cl \<in> set (map country_code get_regulatory_db)" by auto
  with cl(2) assms(2) show ?thesis unfolding domain_codes by auto
qed simp

text \<open>
  C38: The lookup finds the domain of the first two characters of the region, and finds none exactly when
  they are not one of the eight codes. Every channel of the list found has the bandwidth and global class
  of its S1G class and the frequency that the class and the channel number fix, lies with its whole
  bandwidth inside the band of the domain, and shares its number with no other.
\<close>

theorem regdb_lookup_sound:
  assumes "length region = 4"
  shows "case mmwlan_lookup_regulatory_domain (Some get_regulatory_db) region of
      None \<Rightarrow> take 2 region \<notin> {[65, 85], [67, 65], [69, 85], [73, 78], [74, 80], [75, 82], [78, 90], [85, 83]}
    | Some cl \<Rightarrow> cl \<in> set get_regulatory_db \<and> take 2 (country_code cl) = take 2 region \<and>
        (\<forall>c \<in> set (channels cl). channel_ok (band (country_code cl)) c) \<and> distinct (map s1g_chan_num (channels cl))"
  by (rule lookup_sound [OF assms])

lemma regdb_lookup_sound_witness:
  "case mmwlan_lookup_regulatory_domain (Some get_regulatory_db) [65, 85, 0, 0] of None \<Rightarrow> False | Some cl \<Rightarrow> take 2 (country_code cl) = [65, 85]"
  using regdb_lookup_sound [of "[65, 85, 0, 0]"] by (auto split: option.splits)

end
