(* ===== verification/Halow_Link.thy ===== *)
theory Halow_Link
  imports Config_Load Regdb Soft_Ap Halow_Scan
begin

text \<open>
  Bringing up the HaLow uplink: halow_init.cpp and the association and address parts of main.cpp
  (\<open>halow_associate_with_retry\<close>, \<open>net_connect\<close>). The vendor library, the clock and the radio are an
  environment whose calls may answer anything. HALOW_USE_STATIC_IP is 0, as config.h has it.
\<close>

section \<open>The environment\<close>

text \<open>Only the fields that the firmware sets; the others keep their MMWLAN_STA_ARGS_INIT values.\<close>

record mmwlan_sta_args =
  sa_ssid :: "u8 list"
  sa_ssid_len :: u16
  sa_security_type :: mmwlan_security_type
  sa_passphrase :: "u8 list"
  sa_passphrase_len :: u16
  sa_pmf_required :: bool

definition MMWLAN_STA_ARGS_INIT :: mmwlan_sta_args where
  "MMWLAN_STA_ARGS_INIT = \<lparr>sa_ssid = replicate 32 0, sa_ssid_len = 0, sa_security_type = MMWLAN_OPEN,
     sa_passphrase = replicate 101 0, sa_passphrase_len = 0, sa_pmf_required = True\<rparr>"

text \<open>
  \<open>he_state\<close> is \<open>mmwlan_get_sta_state\<close>; the calls with a truth value tell whether they succeeded;
  \<open>he_get_ip\<close> is \<open>mmipal_get_ip_config\<close> with the text of the address, \<open>None\<close> when it fails.
\<close>

record 'w halow_env =
  he_mmhal_init :: "'w \<Rightarrow> 'w"
  he_hard_reset :: "'w \<Rightarrow> 'w"
  he_mmwlan_init :: "'w \<Rightarrow> 'w"
  he_set_ampdu :: "bool \<Rightarrow> 'w \<Rightarrow> 'w"
  he_set_rts :: "u32 \<Rightarrow> 'w \<Rightarrow> 'w"
  he_ps_disable :: "'w \<Rightarrow> 'w"
  he_set_channel_list :: "mmwlan_s1g_channel_list \<Rightarrow> 'w \<Rightarrow> bool \<times> 'w"
  he_mmipal_init :: "'w \<Rightarrow> bool \<times> 'w"
  he_sta_enable :: "mmwlan_sta_args \<Rightarrow> 'w \<Rightarrow> bool \<times> 'w"
  he_sta_disable :: "'w \<Rightarrow> 'w"
  he_state :: "'w \<Rightarrow> mmwlan_sta_state \<times> 'w"
  he_millis :: "'w \<Rightarrow> u32 \<times> 'w"
  he_delay :: "u32 \<Rightarrow> 'w \<Rightarrow> 'w"
  he_get_ip :: "'w \<Rightarrow> u8 list option \<times> 'w"

section \<open>halow_init.cpp\<close>

definition halow_init :: "'w halow_env \<Rightarrow> u8 list \<Rightarrow> 'w \<Rightarrow> bool \<times> 'w" where
  "halow_init he code w =
     (let w1 = he_mmwlan_init he (he_hard_reset he (he_mmhal_init he w));
          w2 = he_ps_disable he (he_set_rts he 1000 (he_set_ampdu he True w1))
      in case mmwlan_lookup_regulatory_domain (Some get_regulatory_db) code of
           None \<Rightarrow> (False, w2)
         | Some cl \<Rightarrow>
             (let (ok, w3) = he_set_channel_list he cl w2
              in if \<not> ok then (False, w3)
                 else let (up, w4) = he_mmipal_init he w3 in if \<not> up then (False, w4) else (True, w4)))"

definition zero_ip :: "u8 list" where "zero_ip = ascii ''0.0.0.0''"

text \<open>The address bound to the netif, as text in \<open>ip_buf\<close>; the buffer keeps its contents on failure.\<close>

definition halow_get_ip :: "'w halow_env \<Rightarrow> u8 list \<Rightarrow> 'w \<Rightarrow> (bool \<times> u8 list) result \<times> 'w" where
  "halow_get_ip he ip_buf w =
     (case he_get_ip he w of
        (None, w1) \<Rightarrow> (Inr (False, ip_buf), w1)
      | (Some ip, w1) \<Rightarrow>
          (if c_string ip = [] \<or> c_string ip = zero_ip then (Inr (False, ip_buf), w1)
           else (rbind (strncpy_bytes (length ip_buf - 1) ip) (\<lambda>b. Inr (True, b @ [0])), w1)))"

section \<open>Association (main.cpp)\<close>

definition halow_sta_args :: "hc33_config_v1 \<Rightarrow> mmwlan_sta_args result" where
  "halow_sta_args cfg =
     rbind (strncpy_bytes (length (sa_ssid MMWLAN_STA_ARGS_INIT) - 1) (uplink_ssid cfg)) (\<lambda>s.
     rbind (mem_write (sa_ssid MMWLAN_STA_ARGS_INIT) 0 s) (\<lambda>ssid.
     rbind (c_strlen ssid) (\<lambda>n.
     rbind (strncpy_bytes (length (sa_passphrase MMWLAN_STA_ARGS_INIT) - 1) (uplink_pass cfg)) (\<lambda>p.
     rbind (mem_write (sa_passphrase MMWLAN_STA_ARGS_INIT) 0 p) (\<lambda>pass.
     rbind (c_strlen pass) (\<lambda>k.
       let security = MMWLAN_SAE
       in Inr (MMWLAN_STA_ARGS_INIT\<lparr>sa_ssid := ssid, sa_ssid_len := of_nat n, sa_passphrase := pass,
                 sa_passphrase_len := of_nat k, sa_security_type := security,
                 sa_pmf_required := (security \<noteq> MMWLAN_OPEN)\<rparr>)))))))"

text \<open>
  The wait for the link after a successful enable at time \<open>t\<close>; when it takes too long the code reads the
  state for its log line, disables the station and waits.
\<close>

partial_function (option) await_connected :: "'w halow_env \<Rightarrow> u32 \<Rightarrow> 'w \<Rightarrow> 'w option" where
  "await_connected he t w =
     (let sw = he_state he w; nw = he_millis he (snd sw)
      in if fst sw = MMWLAN_STA_CONNECTED then Some (snd sw)
         else if 15000 < fst nw - t
              then Some (he_delay he 500 (he_sta_disable he (snd (he_state he (snd nw)))))
              else await_connected he t (he_delay he 200 (snd nw)))"

text \<open>The attempts that are left.\<close>

fun associate_attempts :: "'w halow_env \<Rightarrow> mmwlan_sta_args \<Rightarrow> nat \<Rightarrow> 'w \<Rightarrow> (bool \<times> 'w) option" where
  "associate_attempts he args 0 w = Some (False, w)"
| "associate_attempts he args (Suc n) w =
     (let (ok, w1) = he_sta_enable he args w
      in if \<not> ok then associate_attempts he args n (he_delay he 500 (he_sta_disable he w1))
         else let (t, w2) = he_millis he w1
          in case await_connected he t w2 of
               None \<Rightarrow> None
             | Some w3 \<Rightarrow>
                 (let (st, w4) = he_state he w3
                  in if st = MMWLAN_STA_CONNECTED then Some (True, w4) else associate_attempts he args n w4))"

definition halow_associate_with_retry :: "'w halow_env \<Rightarrow> mmwlan_sta_args \<Rightarrow> 'w \<Rightarrow> (bool \<times> 'w) option" where
  "halow_associate_with_retry he args w = associate_attempts he args 8 w"

section \<open>Connecting\<close>

text \<open>\<open>ESP.restart\<close> does not return.\<close>

datatype net_outcome = Connected "u8 list" | Restarted | Undefined c_error

partial_function (option) init_until :: "'w halow_env \<Rightarrow> u8 list \<Rightarrow> 'w \<Rightarrow> 'w option" where
  "init_until he code w =
     (let r = halow_init he code w
      in if fst r then Some (snd r) else init_until he code (he_delay he 5000 (snd r)))"

partial_function (option) await_ip :: "'w halow_env \<Rightarrow> u32 \<Rightarrow> u8 list \<Rightarrow> 'w \<Rightarrow> (net_outcome \<times> 'w) option" where
  "await_ip he t ip_str w =
     (let r = halow_get_ip he ip_str w
      in case fst r of
           Inl e \<Rightarrow> Some (Undefined e, snd r)
         | Inr bound \<Rightarrow>
             (if fst bound then Some (Connected (snd bound), snd r)
              else let nw = he_millis he (snd r)
               in if 30000 < fst nw - t then Some (Restarted, snd nw)
                  else await_ip he t ip_str (he_delay he 500 (snd nw))))"

definition net_connect :: "'w halow_env \<Rightarrow> hc33_config_v1 \<Rightarrow> 'w \<Rightarrow> (net_outcome \<times> 'w) option" where
  "net_connect he cfg w =
     (case init_until he (region cfg) w of
        None \<Rightarrow> None
      | Some w1 \<Rightarrow>
          (case halow_sta_args cfg of
             Inl e \<Rightarrow> Some (Undefined e, w1)
           | Inr args \<Rightarrow>
               (case halow_associate_with_retry he args w1 of
                  None \<Rightarrow> None
                | Some (False, w2) \<Rightarrow> Some (Restarted, he_delay he 500 w2)
                | Some (True, w2) \<Rightarrow>
                    (let (t, w3) = he_millis he (he_ps_disable he w2)
                     in await_ip he t (replicate 48 0) w3))))"

section \<open>The station arguments\<close>

lemma strncpy_into_zeros:
  assumes "0 \<in> set src" and "n < k"
  shows "\<exists>a. rbind (strncpy_bytes n src) (\<lambda>s. mem_write (replicate k 0) 0 s) = Inr a \<and> length a = k \<and>
    c_string a = take n (c_string src) \<and> 0 \<in> set a"
proof -
  let ?b = "take n (c_string src @ replicate n 0)"
  let ?a = "?b @ replicate (k - n) 0"
  have nz: "0 \<notin> set (take n (c_string src))" using c_string_no_nul by (meson in_set_takeD)
  have "?a = take n (c_string src) @ replicate (n - length (c_string src)) 0 @ replicate (k - n) 0"
    by (simp add: min_def)
  then have a: "?a = take n (c_string src) @ replicate (n - length (c_string src) + (k - n)) 0"
    by (simp only: replicate_add [symmetric])
  have mw: "mem_write (replicate k 0) 0 ?b = Inr ?a" using assms(2) by (simp add: mem_write_def min_def)
  have "rbind (strncpy_bytes n src) (\<lambda>s. mem_write (replicate k 0) 0 s) = Inr ?a"
    by (simp only: strncpy_bytes_ok [OF assms(1)] rbind_simps mw)
  moreover have "c_string ?a = take n (c_string src)" unfolding a using nz by (rule c_string_pad)
  moreover have "length ?a = k" "0 \<in> set ?a" using assms(2) by simp_all
  ultimately show ?thesis by blast
qed

text \<open>What the arguments hold, for a configuration with terminated strings.\<close>

lemma halow_sta_args_fields:
  assumes "0 \<in> set (uplink_ssid cfg)" "0 \<in> set (uplink_pass cfg)"
  shows "\<exists>a. halow_sta_args cfg = Inr a \<and> c_string (sa_ssid a) = take 31 (c_string (uplink_ssid cfg)) \<and>
    sa_ssid_len a = of_nat (min 31 (length (c_string (uplink_ssid cfg)))) \<and>
    c_string (sa_passphrase a) = take 100 (c_string (uplink_pass cfg)) \<and>
    sa_security_type a = MMWLAN_SAE \<and> sa_pmf_required a"
proof -
  obtain s where s: "rbind (strncpy_bytes 31 (uplink_ssid cfg)) (\<lambda>s. mem_write (replicate 32 0) 0 s) = Inr s"
      "c_string s = take 31 (c_string (uplink_ssid cfg))" "0 \<in> set s"
    using strncpy_into_zeros [OF assms(1), of 31 32] by auto
  obtain p where p: "rbind (strncpy_bytes 100 (uplink_pass cfg)) (\<lambda>s. mem_write (replicate 101 0) 0 s) = Inr p"
      "c_string p = take 100 (c_string (uplink_pass cfg))" "0 \<in> set p"
    using strncpy_into_zeros [OF assms(2), of 100 101] by auto
  obtain sb where sb: "strncpy_bytes 31 (uplink_ssid cfg) = Inr sb" "mem_write (replicate 32 0) 0 sb = Inr s"
    using s(1) by (auto simp: rbind_eq_Inr)
  obtain pb where pb: "strncpy_bytes 100 (uplink_pass cfg) = Inr pb" "mem_write (replicate 101 0) 0 pb = Inr p"
    using p(1) by (auto simp: rbind_eq_Inr)
  have "c_strlen s = Inr (min 31 (length (c_string (uplink_ssid cfg))))" using s by (simp add: c_strlen_def min.commute)
  moreover have "\<exists>k. c_strlen p = Inr k" using p by (simp add: c_strlen_def)
  ultimately show ?thesis
    using sb pb s(2) p(2) by (auto simp: halow_sta_args_def MMWLAN_STA_ARGS_INIT_def Let_def)
qed

text \<open>
  The network that the firmware asks for is the one packed into the configuration partition, with its
  whole passphrase, exactly when the SSID has at most 31 bytes; of an SSID of 32 bytes, which the packer
  and the loader accept, the last byte is lost.
\<close>

theorem uplink_ssid_truncated:
  assumes "pack ussid upass reg sssid spass channel = Some bytes"
    and "0 \<notin> set ussid \<union> set upass \<union> set reg \<union> set sssid \<union> set spass"
    and "length ussid < 33" "length upass < 65" "length reg < 4" "length sssid < 33" "length spass < 65"
    and "config_shape g"
  shows "\<exists>a. halow_sta_args (config_load False (Some (Inr bytes :: 'e + u8 list)) g) = Inr a \<and>
    c_string (sa_ssid a) = take 31 ussid \<and> (c_string (sa_ssid a) = ussid \<longleftrightarrow> length ussid \<noteq> 32) \<and>
    c_string (sa_passphrase a) = upass \<and> sa_security_type a = MMWLAN_SAE \<and> sa_pmf_required a"
proof -
  let ?c = "config_load False (Some (Inr bytes :: 'e + u8 list)) g"
  have str: "c_string (uplink_ssid ?c) = ussid" "c_string (uplink_pass ?c) = upass"
    using config_round_trip_aux [OF assms(1-7), where std = False and g = g and 'e = 'e] unfolding Let_def by blast+
  have "config_ok ?c" using pack_length [OF assms(1)] assms(8) by (intro config_load_ok) auto
  then have "0 \<in> set (uplink_ssid ?c)" "0 \<in> set (uplink_pass ?c)" by (simp_all add: config_ok_def terminated_def)
  from halow_sta_args_fields [OF this] str assms(3,4) show ?thesis by (auto simp: take_all_iff)
qed

lemma uplink_ssid_truncated_witness:
  "\<exists>bytes a. pack (replicate 32 65) (ascii ''secret'') (ascii ''AU'') (ascii ''Mower'') (ascii ''password'') 6 = Some bytes \<and>
     halow_sta_args (config_load False (Some (Inr bytes) :: (unit + u8 list) option) g_cfg) = Inr a \<and>
     c_string (sa_ssid a) = replicate 31 65"
proof -
  obtain bytes where p: "pack (replicate 32 65) (ascii ''secret'') (ascii ''AU'') (ascii ''Mower'') (ascii ''password'') 6 = Some bytes"
    by (simp add: pack_def Let_def)
  have "0 \<notin> set (replicate 32 (65 :: u8)) \<union> set (ascii ''secret'') \<union> set (ascii ''AU'') \<union> set (ascii ''Mower'') \<union> set (ascii ''password'')"
    by (simp add: ascii_def)
  moreover have "length (replicate 32 (65 :: u8)) < 33" "length (ascii ''secret'') < 65" "length (ascii ''AU'') < 4"
    "length (ascii ''Mower'') < 33" "length (ascii ''password'') < 65" "config_shape g_cfg"
    by (simp_all add: ascii_def config_shape_def g_cfg_def)
  ultimately obtain a where "halow_sta_args (config_load False (Some (Inr bytes) :: (unit + u8 list) option) g_cfg) = Inr a"
    "c_string (sa_ssid a) = take 31 (replicate 32 65)"
    using uplink_ssid_truncated [OF p, where g = g_cfg and 'e = unit] by blast
  moreover from this(2) have "c_string (sa_ssid a) = replicate 31 65" by simp
  ultimately show ?thesis using p by blast
qed

section \<open>The association ends\<close>

text \<open>
  The clock: \<open>millis\<close> reads it, \<open>delay\<close> lets exactly its time pass, enabling and disabling the station
  take at most \<open>E\<close> and \<open>D\<close> milliseconds, the other calls no time.
\<close>

definition clocked :: "'w halow_env \<Rightarrow> ('w \<Rightarrow> nat) \<Rightarrow> nat \<Rightarrow> nat \<Rightarrow> bool" where
  "clocked he clk E D \<longleftrightarrow>
     (\<forall>w. fst (he_millis he w) = of_nat (clk w) \<and> clk (snd (he_millis he w)) = clk w) \<and>
     (\<forall>n w. clk (he_delay he n w) = clk w + unat n) \<and> (\<forall>w. clk (snd (he_state he w)) = clk w) \<and>
     (\<forall>a w. clk w \<le> clk (snd (he_sta_enable he a w)) \<and> clk (snd (he_sta_enable he a w)) \<le> clk w + E) \<and>
     (\<forall>w. clk w \<le> clk (he_sta_disable he w) \<and> clk (he_sta_disable he w) \<le> clk w + D)"

lemma clockedD:
  assumes "clocked he clk E D"
  shows "fst (he_millis he w) = of_nat (clk w)" "clk (snd (he_millis he w)) = clk w"
    and "clk (he_delay he n w) = clk w + unat n" and "clk (snd (he_state he w)) = clk w"
    and "clk w \<le> clk (snd (he_sta_enable he a w))" "clk (snd (he_sta_enable he a w)) \<le> clk w + E"
    and "clk w \<le> clk (he_sta_disable he w)" "clk (he_sta_disable he w) \<le> clk w + D"
  using assms unfolding clocked_def by blast+

lemma of_nat_diff_u32: "t \<le> n \<Longrightarrow> (of_nat n :: u32) - of_nat t = of_nat (n - t)"
  by (rule of_nat_diff [symmetric])

text \<open>Between two polls less than the wrap of the clock passes.\<close>

lemma elapsed_u32:
  assumes "t \<le> n" "n - t < 4294967296" "k < 4294967296"
  shows "(of_nat k :: u32) < of_nat n - of_nat t \<longleftrightarrow> k < n - t"
  unfolding of_nat_diff_u32 [OF assms(1)] u32_less_iff
  by (simp only: unat_of_nat_u32 [OF assms(2)] unat_of_nat_u32 [OF assms(3)])

lemma await_connected_ends:
  assumes "clocked he clk E D" "t \<le> clk w" "clk w \<le> t + 15200"
  shows "\<exists>w1. await_connected he (of_nat t) w = Some w1 \<and> clk w \<le> clk w1 \<and> clk w1 \<le> t + 15700 + D"
  using assms(2,3)
proof (induction "t + 15200 - clk w" arbitrary: w rule: less_induct)
  case less
  define w1 where "w1 = snd (he_state he w)"
  define w2 where "w2 = snd (he_millis he w1)"
  have c: "clk w1 = clk w" "clk w2 = clk w" "fst (he_millis he w1) = of_nat (clk w)"
    by (simp_all add: clockedD [OF assms(1)] w1_def w2_def)
  have unfold: "await_connected he (of_nat t) w =
      (if fst (he_state he w) = MMWLAN_STA_CONNECTED then Some w1
       else if 15000 < (of_nat (clk w) :: u32) - of_nat t
            then Some (he_delay he 500 (he_sta_disable he (snd (he_state he w2))))
            else await_connected he (of_nat t) (he_delay he 200 w2))"
    by (subst await_connected.simps) (simp add: Let_def w1_def w2_def c(3) [unfolded w1_def])
  have late: "15000 < (of_nat (clk w) :: u32) - of_nat t \<longleftrightarrow> 15000 < clk w - t"
    using elapsed_u32 [of t "clk w" 15000] less.prems by simp
  show ?case
  proof (cases "fst (he_state he w) = MMWLAN_STA_CONNECTED \<or> 15000 < clk w - t")
    case True
    have "clk w \<le> clk (he_delay he 500 (he_sta_disable he (snd (he_state he w2))))"
      "clk (he_delay he 500 (he_sta_disable he (snd (he_state he w2)))) \<le> clk w + D + 500"
      using clockedD(7,8) [OF assms(1), of "snd (he_state he w2)"] c(2) clockedD(4) [OF assms(1), of w2]
      by (simp_all add: clockedD(3) [OF assms(1)])
    with True less.prems c show ?thesis unfolding unfold late by auto
  next
    case False
    let ?w = "he_delay he 200 w2"
    have cw: "clk ?w = clk w + 200" using c by (simp add: clockedD(3) [OF assms(1)])
    have "\<exists>w1. await_connected he (of_nat t) ?w = Some w1 \<and> clk ?w \<le> clk w1 \<and> clk w1 \<le> t + 15700 + D"
      using False less.prems by (intro less.hyps) (auto simp: cw)
    with False cw show ?thesis unfolding unfold late by auto
  qed
qed

lemma associate_attempts_ends:
  assumes "clocked he clk E D"
  shows "\<exists>r w1. associate_attempts he args n w = Some (r, w1) \<and> clk w1 \<le> clk w + n * (15700 + E + D) \<and>
    (r \<longrightarrow> (\<exists>w0. he_state he w0 = (MMWLAN_STA_CONNECTED, w1)))"
proof (induction n arbitrary: w)
  case (Suc n)
  obtain ok wa where en: "he_sta_enable he args w = (ok, wa)" by fastforce
  have wa: "clk w \<le> clk wa" "clk wa \<le> clk w + E"
    using clockedD(5,6) [OF assms, where w = w and a = args] en by simp_all
  show ?case
  proof (cases ok)
    case False
    let ?w = "he_delay he 500 (he_sta_disable he wa)"
    have "clk ?w \<le> clk w + 500 + E + D" 
      using clockedD(8) [OF assms, of wa] wa by (simp add: clockedD(3) [OF assms])
    moreover obtain r w1 where "associate_attempts he args n ?w = Some (r, w1)" "clk w1 \<le> clk ?w + n * (15700 + E + D)"
      "r \<longrightarrow> (\<exists>w0. he_state he w0 = (MMWLAN_STA_CONNECTED, w1))" using Suc by blast
    ultimately show ?thesis using False by (simp add: en)
  next
    case True
    obtain t wb where m: "he_millis he wa = (t, wb)" by fastforce
    have t: "t = of_nat (clk wa)" "clk wb = clk wa" using clockedD(1,2) [OF assms, of wa] m by simp_all
    obtain wc where a: "await_connected he t wb = Some wc" "clk wc \<le> clk wa + 15700 + D"
      using await_connected_ends [OF assms, of "clk wa" wb] t by auto
    obtain st wd where s: "he_state he wc = (st, wd)" by fastforce
    have wd: "clk wd = clk wc" using clockedD(4) [OF assms, of wc] s by simp
    show ?thesis
    proof (cases "st = MMWLAN_STA_CONNECTED")
      case c: True
      then show ?thesis using True a s wa wd by (auto simp: en m intro!: exI [of _ wc])
    next
      case c: False
      obtain r w1 where "associate_attempts he args n wd = Some (r, w1)" "clk w1 \<le> clk wd + n * (15700 + E + D)"
        "r \<longrightarrow> (\<exists>w0. he_state he w0 = (MMWLAN_STA_CONNECTED, w1))" using Suc by blast
      then show ?thesis using c True a s wa wd by (simp add: en m)
    qed
  qed
next
  case 0
  show ?case by (intro exI [of _ False] exI [of _ w]) simp
qed

text \<open>
  C24: The association ends: within eight times the 15.2 s of waiting, the half second after it and the time
  of the library's calls; and it reports success only when the station's state, read last, was connected.
\<close>

theorem halow_associate_ends:
  assumes "clocked he clk E D"
  shows "\<exists>r w1. halow_associate_with_retry he args w = Some (r, w1) \<and> clk w1 \<le> clk w + 8 * (15700 + E + D) \<and>
    (r \<longrightarrow> (\<exists>w0. he_state he w0 = (MMWLAN_STA_CONNECTED, w1)))"
  using associate_attempts_ends [OF assms, of args 8 w] by (simp add: halow_associate_with_retry_def)

text \<open>An environment in which everything works and the state never leaves connecting; its world is the clock.\<close>

definition deaf_uplink :: "nat halow_env" where
  "deaf_uplink = \<lparr>he_mmhal_init = (\<lambda>w. w), he_hard_reset = (\<lambda>w. w), he_mmwlan_init = (\<lambda>w. w), he_set_ampdu = (\<lambda>b w. w),
     he_set_rts = (\<lambda>r w. w), he_ps_disable = (\<lambda>w. w), he_set_channel_list = (\<lambda>c w. (True, w)),
     he_mmipal_init = (\<lambda>w. (True, w)), he_sta_enable = (\<lambda>a w. (True, w)), he_sta_disable = (\<lambda>w. w),
     he_state = (\<lambda>w. (MMWLAN_STA_CONNECTING, w)), he_millis = (\<lambda>w. (of_nat w, w)), he_delay = (\<lambda>n w. w + unat n),
     he_get_ip = (\<lambda>w. (None, w))\<rparr>"

lemma deaf_uplink_clocked: "clocked deaf_uplink (\<lambda>w. w) 0 0"
  by (simp add: clocked_def deaf_uplink_def)

lemma halow_associate_ends_witness:
  "\<exists>w1. halow_associate_with_retry deaf_uplink MMWLAN_STA_ARGS_INIT 4294967290 = Some (False, w1) \<and> w1 \<le> 4294967290 + 8 * 15700"
  using halow_associate_ends [OF deaf_uplink_clocked, of MMWLAN_STA_ARGS_INIT 4294967290]
  by (auto simp: deaf_uplink_def)

section \<open>The order of the calls\<close>

text \<open>The environment with a record of the calls whose order the vendor library documents.\<close>

datatype link_op =
    Mmwlan_init
  | Set_channel_list mmwlan_s1g_channel_list bool
  | Mmipal_init bool
  | Sta_enable mmwlan_sta_args bool
  | Sta_disable

definition traced :: "'w halow_env \<Rightarrow> ('w \<times> link_op list) halow_env" where
  "traced he = \<lparr>he_mmhal_init = (\<lambda>(w, tr). (he_mmhal_init he w, tr)), he_hard_reset = (\<lambda>(w, tr). (he_hard_reset he w, tr)),
     he_mmwlan_init = (\<lambda>(w, tr). (he_mmwlan_init he w, tr @ [Mmwlan_init])),
     he_set_ampdu = (\<lambda>b (w, tr). (he_set_ampdu he b w, tr)), he_set_rts = (\<lambda>r (w, tr). (he_set_rts he r w, tr)),
     he_ps_disable = (\<lambda>(w, tr). (he_ps_disable he w, tr)),
     he_set_channel_list = (\<lambda>c (w, tr). case he_set_channel_list he c w of (ok, w1) \<Rightarrow> (ok, w1, tr @ [Set_channel_list c ok])),
     he_mmipal_init = (\<lambda>(w, tr). case he_mmipal_init he w of (ok, w1) \<Rightarrow> (ok, w1, tr @ [Mmipal_init ok])),
     he_sta_enable = (\<lambda>a (w, tr). case he_sta_enable he a w of (ok, w1) \<Rightarrow> (ok, w1, tr @ [Sta_enable a ok])),
     he_sta_disable = (\<lambda>(w, tr). (he_sta_disable he w, tr @ [Sta_disable])),
     he_state = (\<lambda>(w, tr). case he_state he w of (x, w1) \<Rightarrow> (x, w1, tr)),
     he_millis = (\<lambda>(w, tr). case he_millis he w of (x, w1) \<Rightarrow> (x, w1, tr)),
     he_delay = (\<lambda>n (w, tr). (he_delay he n w, tr)),
     he_get_ip = (\<lambda>(w, tr). case he_get_ip he w of (x, w1) \<Rightarrow> (x, w1, tr))\<rparr>"

text \<open>What each call adds to the record.\<close>

lemma traced_simps [simp]:
  "snd (he_mmhal_init (traced he) s) = snd s" "snd (he_hard_reset (traced he) s) = snd s"
  "snd (he_mmwlan_init (traced he) s) = snd s @ [Mmwlan_init]" "snd (he_set_ampdu (traced he) b s) = snd s"
  "snd (he_set_rts (traced he) r s) = snd s" "snd (he_ps_disable (traced he) s) = snd s"
  "snd (snd (he_set_channel_list (traced he) c s)) = snd s @ [Set_channel_list c (fst (he_set_channel_list (traced he) c s))]"
  "snd (snd (he_mmipal_init (traced he) s)) = snd s @ [Mmipal_init (fst (he_mmipal_init (traced he) s))]"
  "snd (snd (he_sta_enable (traced he) a s)) = snd s @ [Sta_enable a (fst (he_sta_enable (traced he) a s))]"
  "snd (he_sta_disable (traced he) s) = snd s @ [Sta_disable]" "snd (snd (he_state (traced he) s)) = snd s"
  "snd (snd (he_millis (traced he) s)) = snd s" "snd (he_delay (traced he) n s) = snd s"
  "snd (snd (he_get_ip (traced he) s)) = snd s"
  by (simp_all add: traced_def split: prod.split)

lemma halow_init_value:
  "fst (halow_init he code w) \<Longrightarrow> \<exists>cl. mmwlan_lookup_regulatory_domain (Some get_regulatory_db) code = Some cl"
  by (auto simp: halow_init_def Let_def split: option.splits prod.splits if_splits)

definition init_ops :: "mmwlan_s1g_channel_list \<Rightarrow> link_op list" where
  "init_ops cl = [Mmwlan_init, Set_channel_list cl True, Mmipal_init True]"

definition no_enable :: "link_op list \<Rightarrow> bool" where
  "no_enable tr \<longleftrightarrow> (\<forall>a b. Sta_enable a b \<notin> set tr)"

lemma halow_init_traced:
  "\<exists>mid. snd (snd (halow_init (traced he) code s)) = snd s @ mid \<and> no_enable mid \<and>
     (fst (halow_init (traced he) code s) \<longrightarrow>
        (\<exists>cl. mmwlan_lookup_regulatory_domain (Some get_regulatory_db) code = Some cl \<and> mid = init_ops cl))"
proof (cases "mmwlan_lookup_regulatory_domain (Some get_regulatory_db) code")
  case None
  then show ?thesis by (simp add: halow_init_def Let_def no_enable_def)
next
  case (Some cl)
  define w2 where "w2 = he_ps_disable (traced he) (he_set_rts (traced he) 1000 (he_set_ampdu (traced he) True
      (he_mmwlan_init (traced he) (he_hard_reset (traced he) (he_mmhal_init (traced he) s)))))"
  obtain ok w3 where c: "he_set_channel_list (traced he) cl w2 = (ok, w3)" by (rule prod.exhaust)
  obtain up w4 where m: "he_mmipal_init (traced he) w3 = (up, w4)" by (rule prod.exhaust)
  have "snd w2 = snd s @ [Mmwlan_init]" by (simp add: w2_def)
  moreover have "snd w3 = snd w2 @ [Set_channel_list cl ok]"
    using traced_simps(7) [of he cl w2] unfolding c by simp
  moreover have "snd w4 = snd w3 @ [Mmipal_init up]" using traced_simps(8) [of he w3] unfolding m by simp
  moreover have "halow_init (traced he) code s = (ok \<and> up, if ok then w4 else w3)"
    by (simp add: halow_init_def Let_def Some c m flip: w2_def)
  ultimately show ?thesis using Some by (simp add: no_enable_def init_ops_def)
qed

lemma init_until_traced:
  assumes "init_until (traced he) code s = Some s1"
  shows "\<exists>cl mid. mmwlan_lookup_regulatory_domain (Some get_regulatory_db) code = Some cl \<and>
    snd s1 = snd s @ mid @ init_ops cl \<and> no_enable mid"
proof -
  let ?P = "\<lambda>h c s s1. h = traced he \<longrightarrow> (\<exists>cl mid. mmwlan_lookup_regulatory_domain (Some get_regulatory_db) c = Some cl \<and>
    snd s1 = snd s @ mid @ init_ops cl \<and> no_enable mid)"
  have "?P (traced he) code s s1"
  proof (rule init_until.raw_induct [where P = ?P, OF _ assms])
    fix f h c s s1
    assume IH: "\<And>h c s s1. f h c s = Some s1 \<Longrightarrow> ?P h c s s1"
      and eq: "(let r = halow_init h c s in if fst r then Some (snd r) else f h c (he_delay h 5000 (snd r))) = Some s1"
    show "?P h c s s1"
    proof
      assume h: "h = traced he"
      obtain mid where mid: "snd (snd (halow_init h c s)) = snd s @ mid" "no_enable mid"
        "fst (halow_init h c s) \<longrightarrow> (\<exists>cl. mmwlan_lookup_regulatory_domain (Some get_regulatory_db) c = Some cl \<and> mid = init_ops cl)"
        using halow_init_traced unfolding h by blast
      show "\<exists>cl mid. mmwlan_lookup_regulatory_domain (Some get_regulatory_db) c = Some cl \<and>
        snd s1 = snd s @ mid @ init_ops cl \<and> no_enable mid"
      proof (cases "fst (halow_init h c s)")
        case True
        with eq mid show ?thesis by (force simp: Let_def no_enable_def)
      next
        case False
        with eq have "f h c (he_delay h 5000 (snd (halow_init h c s))) = Some s1" by (simp add: Let_def)
        from IH [OF this] h mid show ?thesis by (fastforce simp: no_enable_def)
      qed
    qed
  qed
  then show ?thesis by simp
qed

lemma init_until_region:
  assumes "init_until he code w = Some w1"
  shows "mmwlan_lookup_regulatory_domain (Some get_regulatory_db) code \<noteq> None"
proof (rule init_until.raw_induct
    [where P = "\<lambda>h c w w1. mmwlan_lookup_regulatory_domain (Some get_regulatory_db) c \<noteq> None", OF _ assms])
  fix f h c w w1
  assume IH: "\<And>h c w w1. f h c w = Some w1 \<Longrightarrow> mmwlan_lookup_regulatory_domain (Some get_regulatory_db) c \<noteq> None"
    and eq: "(let r = halow_init h c w in if fst r then Some (snd r) else f h c (he_delay h 5000 (snd r))) = Some w1"
  show "mmwlan_lookup_regulatory_domain (Some get_regulatory_db) c \<noteq> None"
  proof (cases "fst (halow_init h c w)")
    case True
    from halow_init_value [OF this] show ?thesis by auto
  next
    case False
    with eq have "f h c (he_delay h 5000 (snd (halow_init h c w))) = Some w1" by (simp add: Let_def)
    then show ?thesis by (rule IH)
  qed
qed

text \<open>The operations of an association with fixed arguments.\<close>

definition assoc_ops :: "mmwlan_sta_args \<Rightarrow> link_op list \<Rightarrow> bool" where
  "assoc_ops a tr \<longleftrightarrow> set tr \<subseteq> {Sta_enable a True, Sta_enable a False, Sta_disable}"

lemma await_connected_traced:
  assumes "await_connected (traced he) t s = Some s1"
  shows "\<exists>ops. snd s1 = snd s @ ops \<and> set ops \<subseteq> {Sta_disable}"
proof -
  let ?P = "\<lambda>h t s s1. h = traced he \<longrightarrow> (\<exists>ops. snd s1 = snd s @ ops \<and> set ops \<subseteq> {Sta_disable})"
  have "?P (traced he) t s s1"
  proof (rule await_connected.raw_induct [where P = ?P, OF _ assms], rule impI)
    fix f h t s s1
    assume IH: "\<And>h t s s1. f h t s = Some s1 \<Longrightarrow> ?P h t s s1" and h: "h = traced he"
      and eq: "(let sw = he_state h s; nw = he_millis h (snd sw)
        in if fst sw = MMWLAN_STA_CONNECTED then Some (snd sw)
           else if 15000 < fst nw - t then Some (he_delay h 500 (he_sta_disable h (snd (he_state h (snd nw)))))
           else f h t (he_delay h 200 (snd nw))) = Some s1"
    consider "s1 = snd (he_state h s)" | "s1 = he_delay h 500 (he_sta_disable h (snd (he_state h (snd (he_millis h (snd (he_state h s)))))))"
      | "f h t (he_delay h 200 (snd (he_millis h (snd (he_state h s))))) = Some s1"
      using eq unfolding Let_def by (metis option.inject)
    then show "\<exists>ops. snd s1 = snd s @ ops \<and> set ops \<subseteq> {Sta_disable}"
    proof cases
      case 3
      from IH [OF this] h show ?thesis by simp
    qed (simp_all add: h)
  qed
  then show ?thesis by simp
qed

lemma associate_attempts_traced:
  "associate_attempts (traced he) a n s = Some (r, s1) \<Longrightarrow>
     \<exists>ops. snd s1 = snd s @ ops \<and> assoc_ops a ops \<and> (r \<longrightarrow> Sta_enable a True \<in> set ops)"
proof (induction n arbitrary: s)
  case 0
  then show ?case by (simp add: assoc_ops_def)
next
  case (Suc n)
  obtain ok sa where en: "he_sta_enable (traced he) a s = (ok, sa)" by (rule prod.exhaust)
  have sa: "snd sa = snd s @ [Sta_enable a ok]" using traced_simps(9) [of he a s] unfolding en by simp
  have more: "\<exists>ops. snd s1 = snd s @ ops \<and> assoc_ops a ops \<and> (r \<longrightarrow> Sta_enable a True \<in> set ops)"
    if "associate_attempts (traced he) a n sb = Some (r, s1)" "snd sb = snd s @ Sta_enable a ok # mid" "set mid \<subseteq> {Sta_disable}" for sb mid
  proof -
    from Suc.IH [OF that(1)] obtain ops where "snd s1 = snd sb @ ops" "assoc_ops a ops" "r \<longrightarrow> Sta_enable a True \<in> set ops" by blast
    with that(2,3) show ?thesis by (intro exI [of _ "Sta_enable a ok # mid @ ops"]) (cases ok; auto simp: assoc_ops_def)
  qed
  show ?case
  proof (cases ok)
    case False
    with Suc.prems have "associate_attempts (traced he) a n (he_delay (traced he) 500 (he_sta_disable (traced he) sa)) = Some (r, s1)"
      by (simp add: en)
    from more [OF this, of "[Sta_disable]"] show ?thesis by (simp add: sa)
  next
    case True
    obtain t sb where m: "he_millis (traced he) sa = (t, sb)" by (rule prod.exhaust)
    have sb: "snd sb = snd sa" using traced_simps(12) [of he sa] unfolding m by simp
    obtain sc where a: "await_connected (traced he) t sb = Some sc"
      using Suc.prems True by (auto simp: en m split: option.splits)
    obtain mid where sc: "snd sc = snd sb @ mid" "set mid \<subseteq> {Sta_disable}" using await_connected_traced [OF a] by blast
    obtain st sd where st: "he_state (traced he) sc = (st, sd)" by (rule prod.exhaust)
    have sd: "snd sd = snd s @ Sta_enable a ok # mid" using traced_simps(11) [of he sc] sa sb sc unfolding st by simp
    show ?thesis
    proof (cases "st = MMWLAN_STA_CONNECTED")
      case c: True
      with Suc.prems True a st m en have "s1 = sd" by simp
      with sd sc(2) True show ?thesis by (auto simp: assoc_ops_def)
    next
      case c: False
      with Suc.prems True a st m en have "associate_attempts (traced he) a n sd = Some (r, s1)" by simp
      from more [OF this sd sc(2)] show ?thesis .
    qed
  qed
qed

text \<open>A usable address, as the netif gives it.\<close>

definition usable_ip :: "u8 list \<Rightarrow> bool" where
  "usable_ip ip \<longleftrightarrow> c_string ip \<noteq> [] \<and> c_string ip \<noteq> zero_ip"

lemma halow_get_ip_value:
  assumes "fst (halow_get_ip he ip_buf w) = Inr (True, ip)"
  shows "\<exists>src. fst (he_get_ip he w) = Some src \<and> usable_ip src \<and>
    (0 \<in> set src \<longrightarrow> c_string ip = take (length ip_buf - 1) (c_string src))"
proof -
  obtain src b where src: "fst (he_get_ip he w) = Some src" "usable_ip src"
    "strncpy_bytes (length ip_buf - 1) src = Inr b" "ip = b @ [0]"
    using assms by (auto simp: halow_get_ip_def usable_ip_def rbind_eq_Inr split: prod.splits option.splits if_splits)
  have "c_string ip = take (length ip_buf - 1) (c_string src)" if "0 \<in> set src"
    using strncpy_terminated [OF that src(3)] src(4) by simp
  with src(1,2) show ?thesis by blast
qed

lemma await_ip_traced:
  assumes "await_ip (traced he) t buf s = Some (out, s1)"
  shows "snd s1 = snd s \<and> (\<forall>ip. out = Connected ip \<longrightarrow>
    (\<exists>s0 src. fst (he_get_ip (traced he) s0) = Some src \<and> usable_ip src \<and>
       (0 \<in> set src \<longrightarrow> c_string ip = take (length buf - 1) (c_string src))))"
proof -
  let ?R = "\<lambda>b out. \<forall>ip. out = Connected ip \<longrightarrow>
    (\<exists>s0 src. fst (he_get_ip (traced he) s0) = Some src \<and> usable_ip src \<and>
       (0 \<in> set src \<longrightarrow> c_string ip = take (length b - 1) (c_string src)))"
  let ?P = "\<lambda>h t b s r. h = traced he \<longrightarrow> snd (snd r) = snd s \<and> ?R b (fst r)"
  have get: "snd (snd (halow_get_ip (traced he) b s)) = snd s" for b s
  proof -
    obtain i si where i: "he_get_ip (traced he) s = (i, si)" by (rule prod.exhaust)
    have "snd si = snd s" using traced_simps(14) [of he s] unfolding i by simp
    then show ?thesis by (simp add: halow_get_ip_def i split: option.split)
  qed
  have "?P (traced he) t buf s (out, s1)"
  proof (rule await_ip.raw_induct [where P = ?P, OF _ assms], rule impI)
    fix f h t b s r
    assume IH: "\<And>h t b s r. f h t b s = Some r \<Longrightarrow> ?P h t b s r" and h: "h = traced he"
      and eq: "(let r = halow_get_ip h b s
        in case fst r of Inl e \<Rightarrow> Some (Undefined e, snd r)
           | Inr bound \<Rightarrow> if fst bound then Some (Connected (snd bound), snd r)
              else let nw = he_millis h (snd r)
               in if 30000 < fst nw - t then Some (Restarted, snd nw) else f h t b (he_delay h 500 (snd nw))) = Some r"
    show "snd (snd r) = snd s \<and> ?R b (fst r)"
    proof (cases "fst (halow_get_ip h b s)")
      case (Inl e)
      with eq have "r = (Undefined e, snd (halow_get_ip h b s))" by (simp add: Let_def)
      then show ?thesis using h get [of b s] by simp
    next
      case (Inr bound)
      obtain ok ip where bound: "bound = (ok, ip)" by (rule prod.exhaust)
      show ?thesis
      proof (cases ok)
        case True
        with eq Inr bound have "r = (Connected ip, snd (halow_get_ip h b s))" by (simp add: Let_def)
        moreover have "fst (halow_get_ip (traced he) b s) = Inr (True, ip)" using Inr bound True h by simp
        from halow_get_ip_value [OF this] have "?R b (Connected ip)" by blast
        ultimately show ?thesis using get h by simp
      next
        case False
        let ?n = "he_millis h (snd (halow_get_ip h b s))"
        have n: "snd (snd ?n) = snd s" by (simp add: h get)
        have "(if 30000 < fst ?n - t then Some (Restarted, snd ?n) else f h t b (he_delay h 500 (snd ?n))) = Some r"
          using eq False unfolding Inr bound Let_def by (simp only: sum.case fst_conv if_False)
        then consider "r = (Restarted, snd ?n)" | "f h t b (he_delay h 500 (snd ?n)) = Some r"
          by (metis option.inject)
        then show ?thesis
        proof cases
          case 1
          then show ?thesis by (simp add: n)
        next
          case 2
          from IH [OF 2] h have r: "snd (snd r) = snd (he_delay h 500 (snd ?n))" "?R b (fst r)" by blast+
          from r(1) have "snd (snd r) = snd s" by (simp only: h traced_simps get)
          with r(2) show ?thesis by blast
        qed
      qed
    qed
  qed
  then show ?thesis by simp
qed

section \<open>Runs that do not end\<close>

text \<open>The state before the \<open>n\<close>th further try of the initialisation, when the ones before failed.\<close>

definition init_tries :: "'w halow_env \<Rightarrow> u8 list \<Rightarrow> nat \<Rightarrow> 'w \<Rightarrow> 'w" where
  "init_tries he code n = (\<lambda>w. he_delay he 5000 (snd (halow_init he code w))) ^^ n"

lemma init_tries_simps:
  "init_tries he code 0 w = w"
  "init_tries he code (Suc n) w = init_tries he code n (he_delay he 5000 (snd (halow_init he code w)))"
  "init_tries he code (Suc n) w = he_delay he 5000 (snd (halow_init he code (init_tries he code n w)))"
  by (simp add: init_tries_def, simp only: init_tries_def funpow_Suc_right comp_apply, simp add: init_tries_def)

lemma init_until_some:
  "fst (halow_init he code (init_tries he code n w)) \<Longrightarrow> \<exists>w1. init_until he code w = Some w1"
proof (induction n arbitrary: w)
  case 0
  then show ?case by (subst init_until.simps) (simp add: init_tries_simps(1))
next
  case (Suc n)
  then have "\<exists>w1. init_until he code (he_delay he 5000 (snd (halow_init he code w))) = Some w1"
    unfolding init_tries_simps(2) by blast
  then show ?case by (subst init_until.simps) (simp add: Let_def)
qed

lemma init_tries_no_enable: "no_enable (snd s) \<Longrightarrow> no_enable (snd (init_tries (traced he) code n s))"
proof (induction n)
  case (Suc n)
  let ?t = "init_tries (traced he) code n s"
  obtain mid where "snd (snd (halow_init (traced he) code ?t)) = snd ?t @ mid" "no_enable mid"
    using halow_init_traced by blast
  with Suc show ?case by (simp add: init_tries_simps(3) no_enable_def)
qed (simp add: init_tries_simps(1))

lemma await_ip_ends:
  assumes "clocked he clk E D" "\<And>w. clk (snd (he_get_ip he w)) = clk w" "t \<le> clk w" "clk w \<le> t + 30500"
  shows "\<exists>r. await_ip he (of_nat t) buf w = Some r"
  using assms(3,4)
proof (induction "t + 30500 - clk w" arbitrary: w rule: less_induct)
  case less
  have get: "clk (snd (halow_get_ip he buf w)) = clk w"
    using assms(2) [of w] by (cases "he_get_ip he w") (auto simp: halow_get_ip_def split: option.split)
  define w1 where "w1 = snd (halow_get_ip he buf w)"
  define w2 where "w2 = snd (he_millis he w1)"
  have c: "clk w1 = clk w" "clk w2 = clk w" "fst (he_millis he w1) = of_nat (clk w)"
    using get by (simp_all add: clockedD [OF assms(1)] w1_def w2_def)
  show ?case
  proof (cases "fst (halow_get_ip he buf w)")
    case (Inl e)
    then show ?thesis by (subst await_ip.simps) (simp add: Let_def)
  next
    case (Inr bound)
    have unfold: "await_ip he (of_nat t) buf w =
        (if fst bound then Some (Connected (snd bound), w1)
         else if 30000 < (of_nat (clk w) :: u32) - of_nat t then Some (Restarted, w2)
         else await_ip he (of_nat t) buf (he_delay he 500 w2))"
      by (subst await_ip.simps) (simp add: Let_def Inr w1_def w2_def c(3) [unfolded w1_def])
    have late: "30000 < (of_nat (clk w) :: u32) - of_nat t \<longleftrightarrow> 30000 < clk w - t"
      using elapsed_u32 [of t "clk w" 30000] less.prems by simp
    show ?thesis
    proof (cases "fst bound \<or> 30000 < clk w - t")
      case True
      then show ?thesis unfolding unfold late by auto
    next
      case False
      have cw: "clk (he_delay he 500 w2) = clk w + 500" using c by (simp add: clockedD(3) [OF assms(1)])
      have "\<exists>r. await_ip he (of_nat t) buf (he_delay he 500 w2) = Some r"
        using False less.prems by (intro less.hyps) (auto simp: cw)
      with False show ?thesis unfolding unfold late by auto
    qed
  qed
qed

lemma clocked_traced: "clocked he clk E D \<Longrightarrow> clocked (traced he) (\<lambda>s. clk (fst s)) E D"
  by (auto simp: clocked_def traced_def split: prod.splits) (metis snd_conv fst_conv)+

text \<open>With a clock that runs, only an initialisation that fails for ever keeps \<open>net_connect\<close> from ending.\<close>

lemma net_connect_stuck:
  assumes "clocked he clk E D" "\<And>w. clk (snd (he_get_ip he w)) = clk w"
    and "halow_sta_args cfg = Inr args" "net_connect he cfg w = None"
  shows "init_until he (region cfg) w = None"
proof (rule ccontr)
  assume "init_until he (region cfg) w \<noteq> None"
  then obtain w1 where i: "init_until he (region cfg) w = Some w1" by blast
  obtain b w2 where a: "halow_associate_with_retry he args w1 = Some (b, w2)"
    using halow_associate_ends [OF assms(1)] by blast
  have "b" using assms(3,4) i a by (cases b) (simp_all add: net_connect_def)
  obtain t w3 where m: "he_millis he (he_ps_disable he w2) = (t, w3)" by fastforce
  then have t: "t = of_nat (clk w3)"
    using clockedD(1,2) [OF assms(1), of "he_ps_disable he w2"] by (metis fst_conv snd_conv)
  obtain r where "await_ip he t (replicate 48 0) w3 = Some r"
    unfolding t using await_ip_ends [OF assms(1,2), of "clk w3" w3 "replicate 48 0"] by auto
  with assms(3,4) i a \<open>b\<close> m show False by (simp add: net_connect_def)
qed

text \<open>
  C23: In every run that ends, the station is enabled only after the library was initialised, given the
  channel list of the configured region and the IP layer was up, in this order; it is enabled only with the
  configured arguments; and a run that ends connected had a successful enable, and hands out the text of
  an address that the network interface has and that is not 0.0.0.0. A run that does not end, under a clock
  that runs, tries the initialisation for ever, and the station is not enabled before any of its tries.
\<close>

theorem net_connect_order:
  assumes "halow_sta_args cfg = Inr args"
  shows "(\<forall>out s1. net_connect (traced he) cfg (w, []) = Some (out, s1) \<longrightarrow>
      (\<exists>cl pre post. mmwlan_lookup_regulatory_domain (Some get_regulatory_db) (region cfg) = Some cl \<and>
        snd s1 = pre @ init_ops cl @ post \<and> no_enable pre \<and> assoc_ops args post \<and>
        (\<forall>ip. out = Connected ip \<longrightarrow> Sta_enable args True \<in> set post \<and>
           (\<exists>s0 src. fst (he_get_ip (traced he) s0) = Some src \<and> usable_ip src \<and>
              (0 \<in> set src \<longrightarrow> c_string ip = take 47 (c_string src)))))) \<and>
    (clocked he clk E D \<and> (\<forall>w. clk (snd (he_get_ip he w)) = clk w) \<and> net_connect (traced he) cfg (w, []) = None \<longrightarrow>
      (\<forall>n. let s = init_tries (traced he) (region cfg) n (w, [])
           in \<not> fst (halow_init (traced he) (region cfg) s) \<and> no_enable (snd s)))"
proof (intro conjI allI impI)
  fix out s1 assume run: "net_connect (traced he) cfg (w, []) = Some (out, s1)"
  obtain sa where i: "init_until (traced he) (region cfg) (w, []) = Some sa"
    using run by (auto simp: net_connect_def split: option.splits)
  obtain cl pre where cl: "mmwlan_lookup_regulatory_domain (Some get_regulatory_db) (region cfg) = Some cl"
    "snd sa = pre @ init_ops cl" "no_enable pre"
    using init_until_traced [OF i] by auto
  obtain r sb where a: "associate_attempts (traced he) args 8 sa = Some (r, sb)"
    using run assms i by (auto simp: net_connect_def halow_associate_with_retry_def split: option.splits)
  obtain post where post: "snd sb = snd sa @ post" "assoc_ops args post" "r \<longrightarrow> Sta_enable args True \<in> set post"
    using associate_attempts_traced [OF a] by blast
  have sb: "snd sb = pre @ init_ops cl @ post" using post(1) cl(2) by simp
  show "\<exists>cl pre post. mmwlan_lookup_regulatory_domain (Some get_regulatory_db) (region cfg) = Some cl \<and>
      snd s1 = pre @ init_ops cl @ post \<and> no_enable pre \<and> assoc_ops args post \<and>
      (\<forall>ip. out = Connected ip \<longrightarrow> Sta_enable args True \<in> set post \<and>
         (\<exists>s0 src. fst (he_get_ip (traced he) s0) = Some src \<and> usable_ip src \<and>
            (0 \<in> set src \<longrightarrow> c_string ip = take 47 (c_string src))))"
  proof (cases r)
    case False
    with run assms i a have "out = Restarted" "s1 = he_delay (traced he) 500 sb"
      by (simp_all add: net_connect_def halow_associate_with_retry_def)
    with cl sb post(2) show ?thesis by auto
  next
    case True
    obtain t sc where m: "he_millis (traced he) (he_ps_disable (traced he) sb) = (t, sc)" by (rule prod.exhaust)
    have sc: "snd sc = snd sb" using traced_simps(12) [of he "he_ps_disable (traced he) sb"] unfolding m by simp
    have "await_ip (traced he) t (replicate 48 0) sc = Some (out, s1)"
      using run assms i a True m by (simp add: net_connect_def halow_associate_with_retry_def)
    from await_ip_traced [OF this] have ip: "snd s1 = snd sc" "\<forall>ip. out = Connected ip \<longrightarrow>
      (\<exists>s0 src. fst (he_get_ip (traced he) s0) = Some src \<and> usable_ip src \<and>
         (0 \<in> set src \<longrightarrow> c_string ip = take 47 (c_string src)))"
      by simp_all
    have "snd s1 = pre @ init_ops cl @ post" using ip(1) sc sb by simp
    with cl(1,3) post(2,3) True ip(2) show ?thesis by blast
  qed
next
  fix n
  assume h: "clocked he clk E D \<and> (\<forall>w. clk (snd (he_get_ip he w)) = clk w) \<and> net_connect (traced he) cfg (w, []) = None"
  have g: "clk (fst (snd (he_get_ip (traced he) s))) = clk (fst s)" for s
    using h by (cases s) (simp add: traced_def split: prod.split, metis snd_conv)
  have "init_until (traced he) (region cfg) (w, []) = None"
    by (rule net_connect_stuck [OF clocked_traced g assms]) (use h in blast)+
  then have "\<not> fst (halow_init (traced he) (region cfg) (init_tries (traced he) (region cfg) n (w, [])))"
    using init_until_some [of "traced he" "region cfg" n "(w, [])"] by auto
  moreover have "no_enable (snd (init_tries (traced he) (region cfg) n (w, [])))"
    by (rule init_tries_no_enable) (simp add: no_enable_def)
  ultimately show "let s = init_tries (traced he) (region cfg) n (w, [])
    in \<not> fst (halow_init (traced he) (region cfg) s) \<and> no_enable (snd s)" by (simp add: Let_def)
qed

definition near_uplink :: "nat halow_env" where
  "near_uplink = deaf_uplink\<lparr>he_state := (\<lambda>w. (MMWLAN_STA_CONNECTED, w)), he_get_ip := (\<lambda>w. (Some [49, 48, 46, 49, 0], w))\<rparr>"

lemma near_uplink_connects:
  assumes "mmwlan_lookup_regulatory_domain (Some get_regulatory_db) (region cfg) = Some cl" "halow_sta_args cfg = Inr args"
  shows "\<exists>ip s1. net_connect (traced near_uplink) cfg (0, []) = Some (Connected ip, s1)"
proof -
  have "halow_init (traced near_uplink) (region cfg) (0, []) = (True, 0, init_ops cl)"
    by (simp add: halow_init_def assms(1) Let_def traced_def near_uplink_def deaf_uplink_def init_ops_def)
  then have i: "init_until (traced near_uplink) (region cfg) (0, []) = Some (0, init_ops cl)"
    by (subst init_until.simps) (simp add: Let_def)
  have w: "await_connected (traced near_uplink) t s = Some s" for t s
    by (subst await_connected.simps, cases s) (simp add: Let_def traced_def near_uplink_def deaf_uplink_def)
  have a: "halow_associate_with_retry (traced near_uplink) args (0, init_ops cl) = Some (True, 0, init_ops cl @ [Sta_enable args True])"
  proof -
    have "he_sta_enable (traced near_uplink) args s = (True, fst s, snd s @ [Sta_enable args True])"
      "he_millis (traced near_uplink) s = (of_nat (fst s), s)" "he_state (traced near_uplink) s = (MMWLAN_STA_CONNECTED, s)" for s
      by (cases s, simp add: traced_def near_uplink_def deaf_uplink_def)+
    then have "associate_attempts (traced near_uplink) args (Suc n) (0, init_ops cl) =
        Some (True, 0, init_ops cl @ [Sta_enable args True])" for n
      by (simp add: w)
    from this [of 7] show ?thesis by (simp add: halow_associate_with_retry_def)
  qed
  have "halow_get_ip (traced near_uplink) (replicate 48 0) s = (Inr (True, [49, 48, 46, 49] @ replicate (Suc 43) 0), s)" for s
  proof -
    have "strncpy_bytes 47 [49, 48, 46, 49, 0] = Inr ([49, 48, 46, 49] @ replicate 43 0)"
      by (subst strncpy_bytes_ok) (simp_all add: c_string_def)
    then show ?thesis
      by (cases s) (simp add: halow_get_ip_def traced_def near_uplink_def deaf_uplink_def c_string_def zero_ip_def ascii_def
        replicate_append_same del: Suc_numeral)
  qed
  then have "await_ip (traced near_uplink) t (replicate 48 0) s = Some (Connected ([49, 48, 46, 49] @ replicate (Suc 43) 0), s)" for t s
    by (subst await_ip.simps) (simp add: Let_def)
  with i a assms(2) show ?thesis by (auto simp: net_connect_def split: prod.split)
qed

lemma default_uplink: "\<exists>ip s1. net_connect (traced near_uplink) (load_defaults False g_cfg) (0, []) = Some (Connected ip, s1)"
proof -
  let ?c = "load_defaults False g_cfg"
  have r: "region ?c = [65, 85, 0, 0]"
    by (simp add: load_defaults_def copy_str_def WIFI_REGION_HALOW_def ascii_def g_cfg_def)
  have l: "mmwlan_lookup_regulatory_domain (Some get_regulatory_db) (region ?c) = Some s1g_channel_list_AU"
    by (simp add: r mmwlan_lookup_regulatory_domain_def get_regulatory_db_def regulatory_db_domains_def s1g_channel_list_AU_def)
  have "config_ok ?c" by (rule load_defaults_ok) (simp add: config_shape_def g_cfg_def)
  then obtain args where "halow_sta_args ?c = Inr args"
    using halow_sta_args_fields [of ?c] by (auto simp: config_ok_def terminated_def)
  from near_uplink_connects [OF l this] show ?thesis .
qed

text \<open>An uplink whose IP layer never comes up.\<close>

definition mute_uplink :: "nat halow_env" where
  "mute_uplink = deaf_uplink\<lparr>he_mmipal_init := (\<lambda>w. (False, w))\<rparr>"

lemma mute_uplink_stuck: "net_connect (traced mute_uplink) cfg s = None"
proof -
  have never: "\<not> fst (halow_init (traced mute_uplink) code s)" for code s
    by (cases s) (simp add: halow_init_def traced_def mute_uplink_def Let_def split: option.split prod.split)
  have "init_until h c s = None" if "h = traced mute_uplink" for h c s
  proof (rule ccontr)
    assume "init_until h c s \<noteq> None"
    then obtain s1 where some: "init_until h c s = Some s1" by blast
    have "h \<noteq> traced mute_uplink"
    proof (rule init_until.raw_induct [where P = "\<lambda>h c s s1. h \<noteq> traced mute_uplink", OF _ some])
      fix f h c s s1
      assume "\<And>h c s s1. f h c s = Some s1 \<Longrightarrow> h \<noteq> traced mute_uplink"
        and "(let r = halow_init h c s in if fst r then Some (snd r) else f h c (he_delay h 5000 (snd r))) = Some s1"
      with never [of c s] show "h \<noteq> traced mute_uplink" by (auto simp: Let_def split: if_splits)
    qed
    with that show False by simp
  qed
  then show ?thesis by (simp add: net_connect_def)
qed

lemma net_connect_order_witness:
  "(\<exists>out s1 cl pre post. net_connect (traced near_uplink) (load_defaults False g_cfg) (0, []) = Some (out, s1) \<and>
     snd s1 = pre @ init_ops cl @ post \<and> country_code cl = [65, 85, 0]) \<and>
   no_enable (snd (init_tries (traced mute_uplink) (region (load_defaults False g_cfg)) 100 (0, [])))"
proof -
  let ?c = "load_defaults False g_cfg"
  have r: "region ?c = [65, 85, 0, 0]"
    by (simp add: load_defaults_def copy_str_def WIFI_REGION_HALOW_def ascii_def g_cfg_def)
  have l: "mmwlan_lookup_regulatory_domain (Some get_regulatory_db) (region ?c) = Some s1g_channel_list_AU"
    by (simp add: r mmwlan_lookup_regulatory_domain_def get_regulatory_db_def regulatory_db_domains_def s1g_channel_list_AU_def)
  have "config_ok ?c" by (rule load_defaults_ok) (simp add: config_shape_def g_cfg_def)
  then obtain args where a: "halow_sta_args ?c = Inr args"
    using halow_sta_args_fields [of ?c] by (auto simp: config_ok_def terminated_def)
  obtain out s1 where n: "net_connect (traced near_uplink) ?c (0, []) = Some (out, s1)" using near_uplink_connects [OF l a] by blast
  from net_connect_order [OF a, of near_uplink 0] n obtain cl pre post where
    "mmwlan_lookup_regulatory_domain (Some get_regulatory_db) (region ?c) = Some cl" "snd s1 = pre @ init_ops cl @ post" by blast
  moreover from this(1) l have "cl = s1g_channel_list_AU" by simp
  then have "country_code cl = [65, 85, 0]" by (simp add: s1g_channel_list_AU_def)
  moreover have "clocked mute_uplink (\<lambda>w. w) 0 0 \<and> (\<forall>w. snd (he_get_ip mute_uplink w) = w) \<and>
      net_connect (traced mute_uplink) ?c (0, []) = None"
    using deaf_uplink_clocked mute_uplink_stuck by (simp add: clocked_def mute_uplink_def) (simp add: deaf_uplink_def)
  from conjunct2 [OF net_connect_order [OF a], rule_format, OF this]
  have "no_enable (snd (init_tries (traced mute_uplink) (region ?c) 100 (0, [])))" unfolding Let_def by blast
  ultimately show ?thesis using n by blast
qed

text \<open>
  With a region that the database does not know, as a configuration blob may carry, the firmware does
  not get past the first step, does not restart and does not fall back: it initialises again and again.
\<close>

theorem unknown_region_never_connects:
  assumes "take 2 (region cfg) \<notin> {[65, 85], [67, 65], [69, 85], [73, 78], [74, 80], [75, 82], [78, 90], [85, 83]}"
    and "length (region cfg) = 4"
  shows "net_connect he cfg w = None"
proof -
  have "mmwlan_lookup_regulatory_domain (Some get_regulatory_db) (region cfg) = None"
    by (rule lookup_unknown [OF assms(2,1)])
  then have "init_until he (region cfg) w = None" using init_until_region [of he "region cfg" w] by (cases "init_until he (region cfg) w") auto
  then show ?thesis by (simp add: net_connect_def)
qed

lemma unknown_region_never_connects_witness:
  "net_connect deaf_uplink (g_cfg\<lparr>region := [71, 66, 0, 0]\<rparr>) 0 = None"
  by (rule unknown_region_never_connects) simp_all

end
