(* ===== verification/Halow_Sockets.thy ===== *)
theory Halow_Sockets
  imports MM_Prelude
begin

text \<open>
  Who owns which socket: the server of HalowServer.cpp, \<open>HalowClient::connect\<close> and the shared socket
  handle of HalowClient.cpp. Descriptors are numbers; what lwIP's calls answer is part of the operation.
  What a client does with the bytes of its socket is in Halow_Client.
\<close>

section \<open>State\<close>

text \<open>Descriptors are \<open>None\<close> where the code has -1.\<close>

record halow_server =
  srv_sockfd :: "nat option"
  accepted_sockfd :: "nat option"
  srv_port :: u16
  srv_max_clients :: u8
  listening :: bool
  noDelay :: bool

definition HalowServer :: "u16 \<Rightarrow> u8 \<Rightarrow> halow_server" where
  "HalowServer port max_clients = \<lparr>srv_sockfd = None, accepted_sockfd = None, srv_port = port, srv_max_clients = max_clients,
     listening = False, noDelay = False\<rparr>"

text \<open>
  The open descriptors, the server, and the \<open>HalowClient\<close> objects, each with the descriptor behind its
  \<open>clientSocketHandle\<close>: objects that share a handle hold the same one.
\<close>

record sock_world =
  open_fds :: "nat list"
  srv :: halow_server
  objs :: "nat option list"

section \<open>Handles\<close>

text \<open>\<open>close\<close> of a descriptor that is not open does nothing; that it never happens is a property below.\<close>

definition close_fd :: "nat \<Rightarrow> sock_world \<Rightarrow> sock_world" where
  "close_fd fd w = w\<lparr>open_fds := remove1 fd (open_fds w)\<rparr>"

text \<open>
  Object \<open>i\<close> gets the handle \<open>h\<close>; its old one is released, and the destructor of the last handle object
  closes the socket.
\<close>

definition set_handle :: "nat \<Rightarrow> nat option \<Rightarrow> sock_world \<Rightarrow> sock_world" where
  "set_handle i h w =
     (let w1 = w\<lparr>objs := (objs w)[i := h]\<rparr>
      in case objs w ! i of
           None \<Rightarrow> w1
         | Some old \<Rightarrow> if Some old \<in> set (objs w1) then w1 else close_fd old w1)"

definition socket_stop :: "nat \<Rightarrow> sock_world \<Rightarrow> sock_world" where
  "socket_stop i w = set_handle i None w"

section \<open>HalowServer.cpp\<close>

text \<open>\<open>fd\<close> is what \<open>socket\<close> returns, the other arguments whether the calls succeed.\<close>

definition server_begin :: "u16 \<Rightarrow> nat option \<Rightarrow> bool \<Rightarrow> bool \<Rightarrow> sock_world \<Rightarrow> sock_world" where
  "server_begin port fd bind_ok listen_ok w =
     (if listening (srv w) then w
      else let s1 = (if port \<noteq> 0 then (srv w)\<lparr>srv_port := port\<rparr> else srv w);
               s2 = s1\<lparr>srv_sockfd := fd\<rparr>
       in case fd of
            None \<Rightarrow> w\<lparr>srv := s2\<rparr>
          | Some d \<Rightarrow>
              (let w1 = w\<lparr>open_fds := d # open_fds w, srv := s2\<rparr>
               in if \<not> bind_ok then w1 else if \<not> listen_ok then w1
                  else w1\<lparr>srv := s2\<lparr>listening := True, noDelay := False, accepted_sockfd := None\<rparr>\<rparr>))"

text \<open>\<open>lwip_accept\<close> on the server's socket, which fails when there is none.\<close>

definition lwip_accept :: "nat option \<Rightarrow> sock_world \<Rightarrow> nat option \<times> sock_world" where
  "lwip_accept conn w =
     (case (srv_sockfd (srv w), conn) of
        (Some l, Some d) \<Rightarrow> (Some d, w\<lparr>open_fds := d # open_fds w\<rparr>)
      | _ \<Rightarrow> (None, w))"

definition server_hasClient :: "nat option \<Rightarrow> sock_world \<Rightarrow> bool \<times> sock_world" where
  "server_hasClient conn w =
     (if accepted_sockfd (srv w) \<noteq> None then (True, w)
      else let (r, w1) = lwip_accept conn w in (r \<noteq> None, w1\<lparr>srv := (srv w1)\<lparr>accepted_sockfd := r\<rparr>\<rparr>))"

text \<open>The descriptor of the client that is returned; \<open>None\<close> is the empty client.\<close>

definition server_accept :: "nat option \<Rightarrow> bool \<Rightarrow> bool \<Rightarrow> sock_world \<Rightarrow> nat option \<times> sock_world" where
  "server_accept conn keepalive_ok nodelay_ok w =
     (if \<not> listening (srv w) then (None, w)
      else let (client_sock, w1) =
                 (case accepted_sockfd (srv w) of
                    Some d \<Rightarrow> (Some d, w\<lparr>srv := (srv w)\<lparr>accepted_sockfd := None\<rparr>\<rparr>)
                  | None \<Rightarrow> lwip_accept conn w)
       in if client_sock \<noteq> None \<and> keepalive_ok \<and> nodelay_ok then (client_sock, w1) else (None, w1))"

definition server_end :: "sock_world \<Rightarrow> sock_world" where
  "server_end w =
     (let w1 = (case srv_sockfd (srv w) of None \<Rightarrow> w | Some d \<Rightarrow> close_fd d w)
      in w1\<lparr>srv := (srv w1)\<lparr>srv_sockfd := None, listening := False\<rparr>\<rparr>)"

section \<open>HalowClient::connect\<close>

text \<open>
  \<open>ca_connect\<close> is true when \<open>connect\<close> succeeds or is in progress, \<open>ca_select\<close> the value of \<open>select\<close>,
  \<open>ca_sockerr\<close> the pending error of the socket, \<open>None\<close> when it cannot be read.
\<close>

record connect_answers =
  ca_socket :: "nat option"
  ca_connect :: bool
  ca_select :: int
  ca_sockerr :: "int option"
  ca_sndtimeo :: bool
  ca_rcvtimeo :: bool

definition client_connect :: "connect_answers \<Rightarrow> nat \<Rightarrow> sock_world \<Rightarrow> int \<times> sock_world" where
  "client_connect a i w =
     (case ca_socket a of
        None \<Rightarrow> (0, w)
      | Some d \<Rightarrow>
          (let w1 = w\<lparr>open_fds := d # open_fds w\<rparr>
           in if \<not> ca_connect a then (0, close_fd d w1)
              else if ca_select a < 0 then (0, close_fd d w1)
              else if ca_select a = 0 then (0, close_fd d w1)
              else (case ca_sockerr a of
                      None \<Rightarrow> (0, close_fd d w1)
                    | Some err \<Rightarrow>
                        if err \<noteq> 0 then (0, close_fd d w1)
                        else if \<not> ca_sndtimeo a then (0, w1)
                        else if \<not> ca_rcvtimeo a then (0, w1)
                        else (1, set_handle i (Some d) w1))))"

section \<open>Steps\<close>

text \<open>Any sequence of calls; \<open>Accept\<close> stores the client in object \<open>i\<close>, \<open>Copy\<close> assigns object \<open>j\<close> to \<open>i\<close>.\<close>

datatype sock_op =
    Begin u16 "nat option" bool bool
  | HasClient "nat option"
  | Accept "nat option" bool bool nat
  | End_server
  | Connect connect_answers nat
  | Stop nat
  | Copy nat nat

fun sock_step :: "sock_op \<Rightarrow> sock_world \<Rightarrow> sock_world" where
  "sock_step (Begin port fd b l) w = server_begin port fd b l w"
| "sock_step (HasClient c) w = snd (server_hasClient c w)"
| "sock_step (Accept c k n i) w = (case server_accept c k n w of (r, w1) \<Rightarrow> set_handle i r w1)"
| "sock_step End_server w = server_end w"
| "sock_step (Connect a i) w = snd (client_connect a i w)"
| "sock_step (Stop i) w = socket_stop i w"
| "sock_step (Copy i j) w = set_handle i (objs w ! j) w"

text \<open>What lwIP and the caller promise: a new descriptor is not open, and objects exist.\<close>

fun op_fd :: "sock_op \<Rightarrow> nat option" where
  "op_fd (Begin port fd b l) = fd"
| "op_fd (HasClient c) = c"
| "op_fd (Accept c k n i) = c"
| "op_fd (Connect a i) = ca_socket a"
| "op_fd _ = None"

fun op_objs :: "sock_op \<Rightarrow> nat set" where
  "op_objs (Accept c k n i) = {i}"
| "op_objs (Connect a i) = {i}"
| "op_objs (Stop i) = {i}"
| "op_objs (Copy i j) = {i, j}"
| "op_objs _ = {}"

definition op_ok :: "sock_op \<Rightarrow> sock_world \<Rightarrow> bool" where
  "op_ok p w \<longleftrightarrow> (\<forall>d. op_fd p = Some d \<longrightarrow> d \<notin> set (open_fds w)) \<and> (\<forall>i \<in> op_objs p. i < length (objs w))"

inductive sock_reach :: "u16 \<Rightarrow> u8 \<Rightarrow> nat \<Rightarrow> sock_world \<Rightarrow> bool" for port mx n where
  sock_init: "sock_reach port mx n \<lparr>open_fds = [], srv = HalowServer port mx, objs = replicate n None\<rparr>"
| sock_call: "sock_reach port mx n w \<Longrightarrow> op_ok p w \<Longrightarrow> sock_reach port mx n (sock_step p w)"

section \<open>Ownership\<close>

definition obj_fds :: "sock_world \<Rightarrow> nat set" where
  "obj_fds w = {d. Some d \<in> set (objs w)}"

definition srv_fds :: "sock_world \<Rightarrow> nat set" where
  "srv_fds w = set_option (srv_sockfd (srv w)) \<union> set_option (accepted_sockfd (srv w))"

text \<open>The descriptors that are open and that nothing in the program can close any more.\<close>

definition lost :: "sock_world \<Rightarrow> nat set" where
  "lost w = set (open_fds w) - obj_fds w - srv_fds w"

text \<open>The ledger: held descriptors are open, and server, pending connection and clients hold different ones.\<close>

definition ledger :: "sock_world \<Rightarrow> bool" where
  "ledger w \<longleftrightarrow> distinct (open_fds w) \<and> obj_fds w \<subseteq> set (open_fds w) \<and> srv_fds w \<subseteq> set (open_fds w) \<and>
     obj_fds w \<inter> srv_fds w = {} \<and>
     (srv_sockfd (srv w) \<noteq> None \<longrightarrow> srv_sockfd (srv w) \<noteq> accepted_sockfd (srv w)) \<and>
     (listening (srv w) \<longrightarrow> srv_sockfd (srv w) \<noteq> None)"

text \<open>What an operation loses.\<close>

fun leaks :: "sock_op \<Rightarrow> sock_world \<Rightarrow> nat set" where
  "leaks (Begin port fd b l) w =
     (if listening (srv w) then {}
      else set_option (srv_sockfd (srv w)) \<union>
        (if fd \<noteq> None \<and> b \<and> l then set_option (accepted_sockfd (srv w)) else {}))"
| "leaks (Accept c k n i) w =
     (if listening (srv w) \<and> \<not> (k \<and> n)
      then set_option (if accepted_sockfd (srv w) \<noteq> None then accepted_sockfd (srv w) else c) else {})"
| "leaks (Connect a i) w =
     (if ca_connect a \<and> 0 < ca_select a \<and> ca_sockerr a = Some 0 \<and> \<not> (ca_sndtimeo a \<and> ca_rcvtimeo a)
      then set_option (ca_socket a) else {})"
| "leaks _ w = {}"

lemma ledger_init: "ledger \<lparr>open_fds = [], srv = HalowServer port mx, objs = replicate n None\<rparr>"
  by (auto simp: ledger_def obj_fds_def srv_fds_def HalowServer_def)

section \<open>One step\<close>

text \<open>A handle assignment closes exactly the descriptors that no object holds after it.\<close>

lemma set_handle_facts:
  assumes "i < length (objs w)" "distinct (open_fds w)"
  shows "srv (set_handle i h w) = srv w" and "length (objs (set_handle i h w)) = length (objs w)"
    and "distinct (open_fds (set_handle i h w))"
    and "set (open_fds (set_handle i h w)) = set (open_fds w) - (obj_fds w - obj_fds (set_handle i h w))"
    and "obj_fds (set_handle i h w) \<subseteq> obj_fds w \<union> set_option h"
    and "set_option h \<subseteq> obj_fds (set_handle i h w)"
proof -
  let ?w = "set_handle i h w"
  have o: "objs ?w = (objs w)[i := h]" by (simp add: set_handle_def Let_def close_fd_def split: option.split)
  show "srv ?w = srv w" by (simp add: set_handle_def Let_def close_fd_def split: option.split)
  show "length (objs ?w) = length (objs w)" by (simp add: o)
  show "distinct (open_fds ?w)" using assms(2) by (simp add: set_handle_def Let_def close_fd_def split: option.split)
  show "obj_fds ?w \<subseteq> obj_fds w \<union> set_option h" by (auto simp: obj_fds_def o dest: set_update_subset_insert [THEN subsetD])
  show "set_option h \<subseteq> obj_fds ?w" using assms(1) by (auto simp: obj_fds_def o set_update_memI)
  have gone: "obj_fds w - obj_fds ?w = {d. objs w ! i = Some d \<and> Some d \<notin> set ((objs w)[i := h])}"
  proof -
    have "Some d \<in> set ((objs w)[i := h])" if "Some d \<in> set (objs w)" "objs w ! i \<noteq> Some d" for d
    proof -
      from that(1) obtain k where k: "k < length (objs w)" "objs w ! k = Some d" by (auto simp: in_set_conv_nth)
      with that(2) have "k \<noteq> i" by auto
      with k show ?thesis by (metis length_list_update nth_list_update_neq nth_mem)
    qed
    then show ?thesis using nth_mem [OF assms(1)] by (auto simp: obj_fds_def o)
  qed
  show "set (open_fds ?w) = set (open_fds w) - (obj_fds w - obj_fds ?w)"
    unfolding gone using assms(2) by (auto simp: set_handle_def Let_def close_fd_def split: option.splits if_splits)
qed

lemma set_handle_ledger:
  assumes "ledger w" "i < length (objs w)" "\<And>d. h = Some d \<Longrightarrow> d \<in> set (open_fds w) \<and> d \<notin> srv_fds w"
  shows "ledger (set_handle i h w) \<and> lost (set_handle i h w) = lost w - set_option h"
proof -
  have d: "distinct (open_fds w)" using assms(1) by (simp add: ledger_def)
  note f = set_handle_facts [OF assms(2) d, of h]
  have s: "srv_fds (set_handle i h w) = srv_fds w" by (simp add: srv_fds_def f(1))
  have "lost (set_handle i h w) = lost w - set_option h"
    unfolding lost_def s f(4) using f(5,6) assms(1) by (auto simp: ledger_def)
  moreover have "ledger (set_handle i h w)"
  proof -
    have "obj_fds (set_handle i h w) \<subseteq> set (open_fds (set_handle i h w))"
      unfolding f(4) using f(5) assms(1,3) by (auto simp: ledger_def)
    moreover have "srv_fds w \<subseteq> set (open_fds (set_handle i h w))"
      unfolding f(4) using assms(1) by (auto simp: ledger_def)
    moreover have "obj_fds (set_handle i h w) \<inter> srv_fds w = {}"
      using f(5) assms(1,3) by (auto simp: ledger_def)
    ultimately show ?thesis using assms(1) f(3) by (simp add: ledger_def s f(1))
  qed
  ultimately show ?thesis by blast
qed

text \<open>A descriptor that comes and goes within a call leaves no trace.\<close>

lemma close_new: "d \<notin> set (open_fds w) \<Longrightarrow> close_fd d (w\<lparr>open_fds := d # open_fds w\<rparr>) = w"
  by (simp add: close_fd_def)

lemma begin_ledger:
  assumes "ledger w" "\<forall>d. fd = Some d \<longrightarrow> d \<notin> set (open_fds w)"
  shows "ledger (server_begin port fd b l w) \<and> lost (server_begin port fd b l w) = lost w \<union> leaks (Begin port fd b l) w"
proof (cases "listening (srv w)")
  case True
  with assms(1) show ?thesis by (simp add: server_begin_def)
next
  case False
  let ?w = "server_begin port fd b l w"
  have o: "objs ?w = objs w" "set (open_fds ?w) = set (open_fds w) \<union> set_option fd" "srv_sockfd (srv ?w) = fd"
    "accepted_sockfd (srv ?w) = (if fd \<noteq> None \<and> b \<and> l then None else accepted_sockfd (srv w))"
    "listening (srv ?w) \<longleftrightarrow> fd \<noteq> None \<and> b \<and> l" "distinct (open_fds ?w)"
    using False assms by (auto simp: server_begin_def Let_def ledger_def split: option.split)
  have new: "set_option fd \<inter> (set (open_fds w) \<union> obj_fds w \<union> srv_fds w) = {}"
    using assms by (auto simp: ledger_def)
  have sub: "obj_fds w \<subseteq> set (open_fds w)" "srv_fds w \<subseteq> set (open_fds w)" "obj_fds w \<inter> srv_fds w = {}"
    "set_option (srv_sockfd (srv w)) \<inter> set_option (accepted_sockfd (srv w)) = {}"
    using assms(1) by (auto simp: ledger_def)
  have ob: "obj_fds ?w = obj_fds w" by (simp add: obj_fds_def o)
  have "ledger ?w"
  proof -
    have "srv_fds ?w \<subseteq> set_option fd \<union> set_option (accepted_sockfd (srv w))" by (auto simp: srv_fds_def o split: if_splits)
    moreover have "set_option (accepted_sockfd (srv w)) \<subseteq> srv_fds w" by (simp add: srv_fds_def)
    moreover have "set_option fd \<inter> set_option (accepted_sockfd (srv ?w)) = {}"
      using new by (auto simp: o srv_fds_def split: if_splits)
    moreover have "fd \<noteq> None \<longrightarrow> fd \<noteq> accepted_sockfd (srv ?w)" using calculation(3) by auto
    ultimately show ?thesis using new sub unfolding ledger_def ob o(2,3,5) by (intro conjI o(6)) blast+
  qed
  moreover have "lost ?w = lost w \<union> leaks (Begin port fd b l) w"
    using new sub False unfolding lost_def ob srv_fds_def o leaks.simps by (simp split: if_splits) blast
  ultimately show ?thesis ..
qed

lemma accept_ledger:
  assumes "ledger w" "\<forall>d. c = Some d \<longrightarrow> d \<notin> set (open_fds w)"
  shows "ledger (snd (lwip_accept c w)) \<and> srv (snd (lwip_accept c w)) = srv w \<and> objs (snd (lwip_accept c w)) = objs w \<and>
    (\<forall>d. fst (lwip_accept c w) = Some d \<longrightarrow> d \<in> set (open_fds (snd (lwip_accept c w))) \<and> d \<notin> srv_fds w \<and> d \<notin> obj_fds w \<and> c = Some d) \<and>
    lost (snd (lwip_accept c w)) = lost w \<union> set_option (fst (lwip_accept c w))"
  using assms
  by (auto simp: lwip_accept_def ledger_def lost_def obj_fds_def srv_fds_def split: option.splits)

lemma hasClient_ledger:
  assumes "ledger w" "\<forall>d. c = Some d \<longrightarrow> d \<notin> set (open_fds w)"
  shows "ledger (snd (server_hasClient c w)) \<and> lost (snd (server_hasClient c w)) = lost w"
  using assms
  by (auto simp: server_hasClient_def lwip_accept_def ledger_def lost_def obj_fds_def srv_fds_def split: option.splits)

lemma end_ledger: "ledger w \<Longrightarrow> ledger (server_end w) \<and> lost (server_end w) = lost w"
  by (auto simp: server_end_def close_fd_def Let_def ledger_def lost_def obj_fds_def srv_fds_def split: option.splits)

text \<open>A new descriptor given to an object, and a new descriptor given to nobody.\<close>

lemma new_fd_ledger:
  assumes "ledger w" "d \<notin> set (open_fds w)"
  shows "ledger (w\<lparr>open_fds := d # open_fds w\<rparr>)" "lost (w\<lparr>open_fds := d # open_fds w\<rparr>) = lost w \<union> {d}" "d \<notin> lost w" "d \<notin> srv_fds w"
  using assms by (auto simp: ledger_def lost_def obj_fds_def srv_fds_def)

lemma connect_ledger:
  assumes "ledger w" "\<forall>d. ca_socket a = Some d \<longrightarrow> d \<notin> set (open_fds w)" "i < length (objs w)"
  shows "ledger (snd (client_connect a i w)) \<and> lost (snd (client_connect a i w)) = lost w \<union> leaks (Connect a i) w"
proof (cases "ca_socket a")
  case None
  with assms(1) show ?thesis by (simp add: client_connect_def)
next
  case (Some d)
  let ?w = "w\<lparr>open_fds := d # open_fds w\<rparr>"
  have d: "d \<notin> set (open_fds w)" using assms(2) Some by simp
  note n = new_fd_ledger [OF assms(1) d]
  have "(snd (client_connect a i w) = w \<and> leaks (Connect a i) w = {}) \<or>
    (snd (client_connect a i w) = ?w \<and> leaks (Connect a i) w = {d}) \<or>
    (snd (client_connect a i w) = set_handle i (Some d) ?w \<and> leaks (Connect a i) w = {})"
    by (cases "ca_sockerr a"; cases "ca_select a" "0 :: int" rule: linorder_cases)
      (auto simp: client_connect_def Some Let_def close_new [OF d])
  then consider (fails) "snd (client_connect a i w) = w" "leaks (Connect a i) w = {}"
    | (lost) "snd (client_connect a i w) = ?w" "leaks (Connect a i) w = {d}"
    | (ok) "snd (client_connect a i w) = set_handle i (Some d) ?w" "leaks (Connect a i) w = {}"
    by blast
  then show ?thesis
  proof cases
    case ok
    have "ledger (set_handle i (Some d) ?w) \<and> lost (set_handle i (Some d) ?w) = lost ?w - set_option (Some d)"
      using n(4) assms(3) by (intro set_handle_ledger n(1)) (auto simp: srv_fds_def)
    with ok n(2,3) show ?thesis by simp
  qed (use assms(1) n in simp_all)
qed

lemma server_accept_cases:
  assumes "ledger w" "\<forall>d. c = Some d \<longrightarrow> d \<notin> set (open_fds w)"
  obtains r w1 where "server_accept c k n w = (r, w1)" "ledger w1" "objs w1 = objs w"
    "\<And>d. r = Some d \<Longrightarrow> d \<in> set (open_fds w1) \<and> d \<notin> srv_fds w1 \<and> d \<notin> lost w"
    "lost w1 = lost w \<union> leaks (Accept c k n i) w \<union> set_option r" "leaks (Accept c k n i) w \<inter> set_option r = {}"
proof (cases "listening (srv w)")
  case False
  with assms(1) that [of None w] show ?thesis by (simp add: server_accept_def)
next
  case True
  then have l: "srv_sockfd (srv w) \<noteq> None" using assms(1) by (simp add: ledger_def)
  define taken where "taken = (case accepted_sockfd (srv w) of
      Some d \<Rightarrow> (Some d, w\<lparr>srv := (srv w)\<lparr>accepted_sockfd := None\<rparr>\<rparr>) | None \<Rightarrow> lwip_accept c w)"
  obtain cs w1 where t: "taken = (cs, w1)" by (rule prod.exhaust)
  have cs: "cs = (if accepted_sockfd (srv w) \<noteq> None then accepted_sockfd (srv w) else c)"
    using t l by (auto simp: taken_def lwip_accept_def split: option.splits)
  have w1: "ledger w1 \<and> objs w1 = objs w \<and> lost w1 = lost w \<union> set_option cs \<and>
      (\<forall>d. cs = Some d \<longrightarrow> d \<in> set (open_fds w1) \<and> d \<notin> srv_fds w1 \<and> d \<notin> lost w)"
  proof (cases "accepted_sockfd (srv w)")
    case None
    then have "taken = lwip_accept c w" by (simp add: taken_def)
    then have "lwip_accept c w = (cs, w1)" using t by simp
    with accept_ledger [OF assms] assms(2) show ?thesis by (auto simp: srv_fds_def lost_def)
  next
    case (Some d)
    then have "cs = Some d" "w1 = w\<lparr>srv := (srv w)\<lparr>accepted_sockfd := None\<rparr>\<rparr>" using t by (simp_all add: taken_def)
    with Some assms(1) show ?thesis by (auto simp: ledger_def lost_def obj_fds_def srv_fds_def)
  qed
  have a: "server_accept c k n w = (if cs \<noteq> None \<and> k \<and> n then (cs, w1) else (None, w1))"
    using True t by (simp add: server_accept_def taken_def)
  show ?thesis
  proof (cases "k \<and> n")
    case kn: True
    have "server_accept c k n w = (cs, w1)" using a kn by (cases cs) simp_all
    then show ?thesis using w1 kn by (intro that [of cs w1]) auto
  next
    case kn: False
    have "server_accept c k n w = (None, w1)" using a kn by auto
    moreover have "leaks (Accept c k n i) w = set_option cs" using True kn by (simp add: cs)
    ultimately show ?thesis using w1 by (intro that [of None w1]) simp_all
  qed
qed

lemma step_ledger:
  assumes "ledger w" "op_ok p w"
  shows "ledger (sock_step p w) \<and> lost (sock_step p w) = lost w \<union> leaks p w"
proof (cases p)
  case (Begin port fd b l)
  with begin_ledger [OF assms(1), of fd port b l] assms(2) show ?thesis by (simp add: op_ok_def)
next
  case (HasClient c)
  with hasClient_ledger [OF assms(1), of c] assms(2) show ?thesis by (simp add: op_ok_def)
next
  case (Accept c k n i)
  with assms(2) have c: "\<forall>d. c = Some d \<longrightarrow> d \<notin> set (open_fds w)" and i: "i < length (objs w)" by (simp_all add: op_ok_def)
  from server_accept_cases [OF assms(1) c, of k n i] obtain r w1 where r: "server_accept c k n w = (r, w1)" "ledger w1" "objs w1 = objs w"
    "\<And>d. r = Some d \<Longrightarrow> d \<in> set (open_fds w1) \<and> d \<notin> srv_fds w1 \<and> d \<notin> lost w"
    "lost w1 = lost w \<union> leaks (Accept c k n i) w \<union> set_option r" "leaks (Accept c k n i) w \<inter> set_option r = {}" by blast
  have "ledger (set_handle i r w1) \<and> lost (set_handle i r w1) = lost w1 - set_option r"
    using r(3,4) i by (intro set_handle_ledger r(2)) auto
  moreover have "lost w1 - set_option r = lost w \<union> leaks (Accept c k n i) w"
    using r(4,6) unfolding r(5) by auto
  moreover have "sock_step p w = set_handle i r w1" by (simp add: Accept r(1))
  ultimately show ?thesis using Accept by simp
next
  case End_server
  with end_ledger [OF assms(1)] show ?thesis by simp
next
  case (Connect a i)
  with connect_ledger [OF assms(1), of a i] assms(2) show ?thesis by (simp add: op_ok_def)
next
  case (Stop i)
  with set_handle_ledger [OF assms(1), of i None] assms(2) show ?thesis by (simp add: op_ok_def socket_stop_def)
next
  case (Copy i j)
  with assms(2) have ij: "i < length (objs w)" "j < length (objs w)" by (simp_all add: op_ok_def)
  have h: "d \<in> obj_fds w" if "objs w ! j = Some d" for d using nth_mem [OF ij(2)] that by (simp add: obj_fds_def)
  then have "d \<in> set (open_fds w) \<and> d \<notin> srv_fds w \<and> d \<notin> lost w" if "objs w ! j = Some d" for d
    using assms(1) that by (auto simp: ledger_def lost_def)
  moreover from this have "ledger (set_handle i (objs w ! j) w) \<and> lost (set_handle i (objs w ! j) w) = lost w - set_option (objs w ! j)"
    by (intro set_handle_ledger assms(1) ij(1)) blast
  ultimately show ?thesis using Copy by (cases "objs w ! j") auto
qed

text \<open>
  C22: Whatever the server and its clients do and lwIP answers: every descriptor that the server, the pending
  connection or a client object holds is open, they hold different ones, and only stopping the last object of
  a socket closes it. A call loses a descriptor (open and held by nobody) exactly when a start of the server
  throws away the socket of a failed start or a pending connection, when an option of an accepted socket
  cannot be set, or when a timeout of a connected socket cannot be set.
\<close>

theorem socket_ledger:
  assumes "sock_reach port mx n w"
  shows "ledger w \<and> (\<forall>p. op_ok p w \<longrightarrow> lost (sock_step p w) = lost w \<union> leaks p w) \<and>
    (\<forall>i d. i < length (objs w) \<and> objs w ! i = Some d \<longrightarrow>
       (d \<in> set (open_fds (socket_stop i w)) \<longleftrightarrow> Some d \<in> set ((objs w)[i := None])))"
proof -
  have l: "ledger w"
    using assms
  proof induction
    case sock_init
    show ?case by (rule ledger_init)
  next
    case (sock_call w p)
    from step_ledger [OF sock_call.IH sock_call.hyps(2)] show ?case ..
  qed
  have "d \<in> set (open_fds (socket_stop i w)) \<longleftrightarrow> Some d \<in> set ((objs w)[i := None])"
    if i: "i < length (objs w)" "objs w ! i = Some d" for i d
  proof -
    have "d \<in> set (open_fds w)" "distinct (open_fds w)" using l nth_mem [OF i(1)] i(2) by (auto simp: ledger_def obj_fds_def)
    then show ?thesis using i by (auto simp: socket_stop_def set_handle_def Let_def close_fd_def)
  qed
  with l step_ledger show ?thesis by blast
qed

text \<open>Two failed starts: the socket of the first is lost.\<close>

lemma socket_ledger_witness:
  "\<exists>w. sock_reach 80 4 1 w \<and> lost (sock_step (Begin 0 (Some 4) True True) w) = lost w \<union> {3}"
proof -
  let ?w = "sock_step (Begin 0 (Some 3) False True) \<lparr>open_fds = [], srv = HalowServer 80 4, objs = replicate 1 None\<rparr>"
  have r: "sock_reach 80 4 1 ?w" by (rule sock_call [OF sock_init]) (simp add: op_ok_def)
  have "op_ok (Begin 0 (Some 4) True True) ?w" "leaks (Begin 0 (Some 4) True True) ?w = {3}"
    by (simp_all add: op_ok_def server_begin_def HalowServer_def)
  with socket_ledger [OF r] r show ?thesis by blast
qed

end
