(* ===== verification/Halow_Sta.thy ===== *)
theory Halow_Sta
  imports Halow_Link Text_Format
begin

text \<open>
  The station class of the vendor's library (HalowSTA.cpp) and the generic class that the firmware
  supplies in place of the closed archive (HalowGeneric.cpp): status, arguments of the association,
  addresses of the interface, and the arithmetic on addresses and masks.
\<close>

section \<open>Address arithmetic (HalowGeneric.cpp)\<close>

text \<open>An \<open>IPAddress\<close> is its four bytes in the order in which they are written.\<close>

type_synonym ip_address = "u8 list"

definition calculateNetworkID :: "ip_address \<Rightarrow> ip_address \<Rightarrow> ip_address" where
  "calculateNetworkID ip subnet = map (\<lambda>i. ip ! i AND subnet ! i) [0..<4]"

text \<open>\<open>~\<close> is computed in \<open>int\<close> and cut to a byte by the assignment.\<close>

definition calculateBroadcast :: "ip_address \<Rightarrow> ip_address \<Rightarrow> ip_address" where
  "calculateBroadcast ip subnet = map (\<lambda>i. ip ! i OR NOT (subnet ! i)) [0..<4]"

text \<open>A fact about all bytes is checked on the 256 numbers.\<close>

lemma u8_all:
  assumes "\<forall>n \<in> set [0..<256]. P (of_nat n :: u8)"
  shows "P b"
proof -
  have "unat b \<in> set [0..<256]" by simp
  then have "P (of_nat (unat b))" using assms by blast
  then show ?thesis by simp
qed

lemma high_bit: "(b :: u8) AND 0x80 \<noteq> 0 \<longleftrightarrow> 128 \<le> unat b"
  by (rule u8_all [of "\<lambda>b. (b AND 0x80 \<noteq> 0) = (128 \<le> unat b)"]) code_simp

function leading_ones :: "u8 \<Rightarrow> u8 \<Rightarrow> u8" where
  "leading_ones b cidr = (if b AND 0x80 \<noteq> 0 then leading_ones (push_bit 1 b) (cidr + 1) else cidr)"
  by pat_completeness auto

text \<open>A byte with its top bit set gets smaller by the shift, so the loop ends.\<close>

termination
proof (relation "measure (\<lambda>(b, cidr). unat b)")
  fix b cidr :: u8
  assume "b AND 0x80 \<noteq> 0"
  then have "128 \<le> unat b" by (simp only: high_bit)
  moreover have "unat (push_bit 1 b) = 2 * unat b mod 256" by (simp add: push_bit_eq_mult unat_word_ariths mult.commute)
  moreover have "2 * unat b mod 256 < unat b" if "128 \<le> unat b"
  proof -
    have "2 * unat b - 256 < 256" using unat_u8_lt [of b] by linarith
    then have "2 * unat b mod 256 = 2 * unat b - 256" using that le_mod_geq [of 256 "2 * unat b"] by simp
    then show ?thesis using that unat_u8_lt [of b] by linarith
  qed
  ultimately show "((push_bit 1 b, cidr + 1), b, cidr) \<in> measure (\<lambda>(b, cidr). unat b)" by simp
qed simp

declare leading_ones.simps [simp del]

definition calculateSubnetCIDR :: "ip_address \<Rightarrow> u8" where
  "calculateSubnetCIDR subnetMask = fold (\<lambda>i cidr. leading_ones (subnetMask ! i) cidr) [0..<4] 0"

section \<open>What the arithmetic computes\<close>

text \<open>The address as a number, most significant byte first, and the mask of a prefix length.\<close>

definition ip_word :: "ip_address \<Rightarrow> u32" where
  "ip_word a = push_bit 24 (ucast (a ! 0)) OR push_bit 16 (ucast (a ! 1)) OR push_bit 8 (ucast (a ! 2)) OR ucast (a ! 3)"

definition prefix_mask :: "nat \<Rightarrow> u32" where
  "prefix_mask n = NOT (mask (32 - n))"

lemma bit_ip_word:
  assumes "n < 8"
  shows "bit (ip_word a) n \<longleftrightarrow> bit (a ! 3) n" "bit (ip_word a) (8 + n) \<longleftrightarrow> bit (a ! 2) n"
    "bit (ip_word a) (16 + n) \<longleftrightarrow> bit (a ! 1) n" "bit (ip_word a) (24 + n) \<longleftrightarrow> bit (a ! 0) n"
  using assms u8_bit_ge
  by (auto simp: ip_word_def bit_or_iff bit_push_bit_iff bit_ucast_iff possible_bit_word)

lemma ip_word_eqI:
  assumes "\<And>n. n < 8 \<Longrightarrow> bit (w :: u32) n \<longleftrightarrow> bit (a ! 3) n" "\<And>n. n < 8 \<Longrightarrow> bit w (8 + n) \<longleftrightarrow> bit (a ! 2) n"
    "\<And>n. n < 8 \<Longrightarrow> bit w (16 + n) \<longleftrightarrow> bit (a ! 1) n" "\<And>n. n < 8 \<Longrightarrow> bit w (24 + n) \<longleftrightarrow> bit (a ! 0) n"
  shows "ip_word a = w"
proof (rule bit_word_eqI)
  fix n assume "n < LENGTH(32)"
  then have "n < 32" by simp
  then consider "n < 8" | "8 \<le> n" "n - 8 < 8" | "16 \<le> n" "n - 16 < 8" | "24 \<le> n" "n - 24 < 8" by linarith
  then show "bit (ip_word a) n \<longleftrightarrow> bit w n"
  proof cases
    case 1
    then show ?thesis by (simp add: bit_ip_word assms)
  next
    case 2
    with bit_ip_word(2) [OF 2(2), of a] assms(2) [OF 2(2)] show ?thesis by simp
  next
    case 3
    with bit_ip_word(3) [OF 3(2), of a] assms(3) [OF 3(2)] show ?thesis by simp
  next
    case 4
    with bit_ip_word(4) [OF 4(2), of a] assms(4) [OF 4(2)] show ?thesis by simp
  qed
qed

lemma nth_bytes:
  "length a = 4 \<Longrightarrow> a = [a ! 0, a ! 1, a ! 2, a ! 3]"
  by (rule nth_equalityI) (auto simp: less_Suc_eq numeral_eq_Suc)

lemma network_word: "ip_word (calculateNetworkID ip m) = ip_word ip AND ip_word m"
  by (rule ip_word_eqI) (simp_all add: bit_and_iff bit_ip_word calculateNetworkID_def numeral_2_eq_2)

lemma broadcast_word: "ip_word (calculateBroadcast ip m) = ip_word ip OR NOT (ip_word m)"
  by (rule ip_word_eqI) (simp_all add: bit_or_iff bit_not_iff bit_ip_word calculateBroadcast_def possible_bit_word numeral_2_eq_2)

lemma bytes_of_ip_word:
  assumes "length a = 4"
  shows "a = map (\<lambda>i. ucast (drop_bit (24 - 8 * i) (ip_word a))) [0..<4]"
proof -
  have byte: "ucast (drop_bit k (ip_word a)) = (b :: u8)" if "\<And>n. n < 8 \<Longrightarrow> bit (ip_word a) (k + n) \<longleftrightarrow> bit b n" for k b
    by (rule bit_word_eqI) (simp add: bit_ucast_iff bit_drop_bit_eq that possible_bit_word)
  have "ucast (drop_bit 24 (ip_word a)) = a ! 0" "ucast (drop_bit 16 (ip_word a)) = a ! 1"
    "ucast (drop_bit 8 (ip_word a)) = a ! 2" "ucast (drop_bit 0 (ip_word a)) = a ! 3"
    by (rule byte, simp add: bit_ip_word)+
  then show ?thesis using nth_bytes [OF assms] by (simp add: upt_rec)
qed

lemma cidr_of_prefix:
  assumes "length m = 4" "n \<le> 32" "ip_word m = prefix_mask n"
  shows "calculateSubnetCIDR m = of_nat n"
proof -
  have all: "\<forall>n \<in> set [0..<33]. calculateSubnetCIDR (map (\<lambda>i. ucast (drop_bit (24 - 8 * i) (prefix_mask n))) [0..<4]) = of_nat n"
    by code_simp
  have "m = map (\<lambda>i. ucast (drop_bit (24 - 8 * i) (prefix_mask n))) [0..<4]" using bytes_of_ip_word [OF assms(1)] assms(3) by simp
  moreover have "n \<in> set [0..<33]" using assms(2) by simp
  ultimately show ?thesis using all by metis
qed

text \<open>
  C39: on the address and the mask as 32-bit numbers, the byte-wise loops compute the network by AND and
  the broadcast address by OR with the complement, the first and last address of the subnet; and the
  CIDR of the mask of a prefix is its length.
\<close>

theorem address_arithmetic:
  assumes "length m = 4" and "n \<le> 32" and "ip_word m = prefix_mask n"
  shows "ip_word (calculateNetworkID ip m) = ip_word ip AND ip_word m \<and>
    ip_word (calculateBroadcast ip m) = ip_word ip OR NOT (ip_word m) \<and>
    ip_word (calculateNetworkID ip m) \<le> ip_word ip \<and> ip_word ip \<le> ip_word (calculateBroadcast ip m) \<and>
    (\<forall>ip'. ip_word (calculateNetworkID ip m) = ip_word (calculateNetworkID ip' m) \<longleftrightarrow>
      drop_bit (32 - n) (ip_word ip) = drop_bit (32 - n) (ip_word ip')) \<and>
    calculateSubnetCIDR m = of_nat n"
proof -
  have eq: "ip_word ip AND ip_word m = ip_word ip' AND ip_word m \<longleftrightarrow>
      drop_bit (32 - n) (ip_word ip) = drop_bit (32 - n) (ip_word ip')" for ip'
  proof -
    have "x AND prefix_mask n = push_bit (32 - n) (drop_bit (32 - n) x)" for x :: u32
      by (rule bit_word_eqI) (auto simp: prefix_mask_def bit_simps)
    moreover have "drop_bit (32 - n) (push_bit (32 - n) (drop_bit (32 - n) x)) = drop_bit (32 - n) x" for x :: u32
      by (rule bit_word_eqI) (auto simp: bit_simps dest: bit_imp_le_length)
    ultimately show ?thesis unfolding assms(3) by metis
  qed
  show ?thesis using cidr_of_prefix [OF assms] eq
    by (simp add: network_word broadcast_word word_and_le2 le_word_or2)
qed

lemma address_arithmetic_witness:
  "ip_word (calculateBroadcast [192, 168, 4, 17] [255, 255, 255, 0]) = ip_word [192, 168, 4, 17] OR NOT (ip_word [255, 255, 255, 0]) \<and>
   calculateSubnetCIDR [255, 255, 255, 0] = 24"
proof -
  have "ip_word [255, 255, 255, 0] = prefix_mask 24" by code_simp
  with address_arithmetic [of "[255, 255, 255, 0]" 24 "[192, 168, 4, 17]"] show ?thesis by simp
qed

section \<open>The generic class\<close>

text \<open>
  An event group is a 32-bit value of which FreeRTOS keeps 24 bits for the application; the first use
  creates the group of the class.
\<close>

definition event_bits :: "u32 \<Rightarrow> u32" where
  "event_bits b = b AND 0x00FFFFFF"

type_synonym event_group = "u32 option"

definition status_eg :: "event_group \<Rightarrow> u32" where
  "status_eg eg = (case eg of None \<Rightarrow> 0 | Some b \<Rightarrow> b)"

definition getStatusBits :: "event_group \<Rightarrow> u32 \<times> event_group" where
  "getStatusBits eg = (status_eg eg, Some (status_eg eg))"

text \<open>\<open>xEventGroupSetBits\<close> returns the bits afterwards, \<open>xEventGroupClearBits\<close> those before.\<close>

definition setStatusBits :: "u32 \<Rightarrow> event_group \<Rightarrow> u32 \<times> event_group" where
  "setStatusBits bits eg = (status_eg eg OR event_bits bits, Some (status_eg eg OR event_bits bits))"

definition clearStatusBits :: "u32 \<Rightarrow> event_group \<Rightarrow> u32 \<times> event_group" where
  "clearStatusBits bits eg = (status_eg eg, Some (status_eg eg AND NOT (event_bits bits)))"

text \<open>
  Name resolution: \<open>aton\<close> is \<open>ipaddr_aton\<close>, \<open>getaddrinfo\<close> gives \<open>None\<close> for an error or the list of
  answers with their families; \<open>freed\<close> counts the lists given back. The result keeps the address that
  the caller passed in when there is none.
\<close>

datatype ai_family = AF_INET | AF_other

fun first_inet :: "(ai_family \<times> u32) list \<Rightarrow> u32 option" where
  "first_inet [] = None"
| "first_inet ((fam, addr) # ps) = (if fam = AF_INET then Some addr else first_inet ps)"

definition hostByName ::
  "(u8 list \<Rightarrow> u32 option) \<Rightarrow> (u8 list \<Rightarrow> (ai_family \<times> u32) list option) \<Rightarrow> u8 list option \<Rightarrow> u32 \<Rightarrow> int \<times> u32 \<times> nat" where
  "hostByName aton getaddrinfo aHostname aResult =
     (case aHostname of
        None \<Rightarrow> (0, aResult, 0)
      | Some name \<Rightarrow>
          (case aton name of
             Some ip \<Rightarrow> (1, ip, 0)
           | None \<Rightarrow>
               (case getaddrinfo name of
                  None \<Rightarrow> (0, aResult, 0)
                | Some res \<Rightarrow>
                    if res = [] then (0, aResult, 0)
                    else case first_inet res of
                           None \<Rightarrow> (0, aResult, 1)
                         | Some a \<Rightarrow> (1, a, 1))))"

lemma hostByName_answers:
  "hostByName aton gai name r = (rc, ip, freed) \<Longrightarrow>
    (rc = 1 \<and> (\<exists>n. name = Some n \<and> (aton n = Some ip \<or> aton n = None \<and> (\<exists>res. gai n = Some res \<and> (AF_INET, ip) \<in> set res))) \<or>
     rc = 0 \<and> ip = r) \<and>
    freed = (case name of None \<Rightarrow> 0 | Some n \<Rightarrow>
      if aton n = None \<and> gai n \<notin> {None, Some []} then 1 else 0)"
proof -
  have "first_inet res = Some a \<Longrightarrow> (AF_INET, a) \<in> set res" for res a
    by (induction res rule: first_inet.induct) (auto split: if_splits)
  then show "hostByName aton gai name r = (rc, ip, freed) \<Longrightarrow> ?thesis"
    by (auto simp: hostByName_def split: option.splits if_splits)
qed

section \<open>The station class (HalowSTA.cpp)\<close>

text \<open>The values of \<open>wl_status_t\<close> are small integers; the code only tests for WL_CONNECTED.\<close>

definition WL_STOPPED :: u32 where "WL_STOPPED = 254"
definition WL_CONNECTED :: u32 where "WL_CONNECTED = 3"

text \<open>\<open>sta_status\<close> and \<open>sta_group\<close> are the file's static variables, \<open>sta_args\<close> the object's.\<close>

record halow_sta =
  sta_status :: u32
  sta_group :: event_group
  sta_args :: mmwlan_sta_args

definition halow_sta_start :: halow_sta where
  "halow_sta_start = \<lparr>sta_status = WL_STOPPED, sta_group = None, sta_args = MMWLAN_STA_ARGS_INIT\<rparr>"

text \<open>\<open>created\<close> tells whether \<open>xEventGroupCreate\<close> finds memory.\<close>

definition setStatus :: "bool \<Rightarrow> u32 \<Rightarrow> halow_sta \<Rightarrow> halow_sta" where
  "setStatus created st s =
     (case sta_group s of
        None \<Rightarrow> if created then s\<lparr>sta_group := Some (0 AND NOT (event_bits 0x00FFFFFF) OR event_bits st)\<rparr>
                else s\<lparr>sta_status := st\<rparr>
      | Some b \<Rightarrow> s\<lparr>sta_group := Some (b AND NOT (event_bits 0x00FFFFFF) OR event_bits st)\<rparr>)"

definition status :: "halow_sta \<Rightarrow> u32" where
  "status s = (case sta_group s of None \<Rightarrow> sta_status s | Some b \<Rightarrow> b)"

definition isConnected :: "halow_sta \<Rightarrow> bool" where
  "isConnected s \<longleftrightarrow> status s = WL_CONNECTED"

text \<open>\<open>enable\<close> is \<open>mmwlan_sta_enable\<close>; its failure fires the assertion.\<close>

definition sta_begin :: "(mmwlan_sta_args \<Rightarrow> bool) \<Rightarrow> u8 list \<Rightarrow> u8 list \<Rightarrow> mmwlan_security_type \<Rightarrow> halow_sta \<Rightarrow> (u32 \<times> halow_sta) result" where
  "sta_begin enable ssid passphrase security_type s =
     (let a = sta_args s
      in rbind (mmosal_safer_strcpy (sa_ssid a) ssid (of_nat (length (sa_ssid a)))) (\<lambda>(cut, ssid).
         rbind (c_strlen ssid) (\<lambda>n.
         rbind (mmosal_safer_strcpy (sa_passphrase a) passphrase (of_nat (length (sa_passphrase a)))) (\<lambda>(cut, pass).
         rbind (c_strlen pass) (\<lambda>k.
           let s = s\<lparr>sta_args := a\<lparr>sa_ssid := ssid, sa_ssid_len := of_nat n, sa_passphrase := pass,
                                  sa_passphrase_len := of_nat k, sa_security_type := security_type\<rparr>\<rparr>
           in rbind (c_assert (enable (sta_args s))) (\<lambda>u. Inr (status s, s)))))))"

text \<open>The addresses that the getters read from the lwIP interface.\<close>

record sta_netif =
  nif_ip :: ip_address
  nif_netmask :: ip_address
  nif_gw :: ip_address
  nif_dns :: "u8 \<Rightarrow> ip_address"
  nif_rssi :: int

definition no_address :: ip_address where
  "no_address = [0, 0, 0, 0]"

definition localIP :: "sta_netif \<Rightarrow> halow_sta \<Rightarrow> ip_address" where
  "localIP nif s = (if status s \<noteq> WL_CONNECTED then no_address else nif_ip nif)"

definition subnetMask :: "sta_netif \<Rightarrow> halow_sta \<Rightarrow> ip_address" where
  "subnetMask nif s = (if status s \<noteq> WL_CONNECTED then no_address else nif_netmask nif)"

definition gatewayIP :: "sta_netif \<Rightarrow> halow_sta \<Rightarrow> ip_address" where
  "gatewayIP nif s = (if status s \<noteq> WL_CONNECTED then no_address else nif_gw nif)"

definition dnsIP :: "sta_netif \<Rightarrow> u8 \<Rightarrow> halow_sta \<Rightarrow> ip_address" where
  "dnsIP nif dns_no s = (if status s \<noteq> WL_CONNECTED then no_address else nif_dns nif dns_no)"

definition broadcastIP :: "sta_netif \<Rightarrow> halow_sta \<Rightarrow> ip_address" where
  "broadcastIP nif s =
     (if status s \<noteq> WL_CONNECTED then no_address else calculateBroadcast (gatewayIP nif s) (subnetMask nif s))"

definition networkID :: "sta_netif \<Rightarrow> halow_sta \<Rightarrow> ip_address" where
  "networkID nif s =
     (if status s \<noteq> WL_CONNECTED then no_address else calculateNetworkID (gatewayIP nif s) (subnetMask nif s))"

definition subnetCIDR :: "sta_netif \<Rightarrow> halow_sta \<Rightarrow> u8" where
  "subnetCIDR nif s = (if status s \<noteq> WL_CONNECTED then 0 else calculateSubnetCIDR (subnetMask nif s))"

text \<open>\<open>int8_t\<close> of the received value.\<close>

definition rssi :: "sta_netif \<Rightarrow> halow_sta \<Rightarrow> int" where
  "rssi nif s = (if status s \<noteq> WL_CONNECTED then - 127 else sint (word_of_int (nif_rssi nif) :: 8 word))"

text \<open>
  The other calls of the class: setting a name server changes lwIP only; \<open>mac_ok\<close> and \<open>bssid\<close> are
  what \<open>mmwlan_get_bssid\<close> returns. The static \<open>bssid\<close> keeps the last answer.
\<close>

definition BSSID :: "bool \<Rightarrow> u8 list \<Rightarrow> bool \<Rightarrow> u8 list option" where
  "BSSID ok bssid buff_given =
     (if buff_given then Some (if \<not> ok then replicate 6 0 else bssid)
      else if ok then Some bssid else None)"

text \<open>The texts of the interface's own address and of the access point's; \<open>mac\<close> is what the library answers.\<close>

definition macAddress :: "u8 list \<Rightarrow> u8 list result" where
  "macAddress mac = mac_string mac"

definition sta_BSSIDstr :: "bool \<Rightarrow> u8 list \<Rightarrow> u8 list result" where
  "sta_BSSIDstr ok bssid = (case BSSID ok bssid False of None \<Rightarrow> Inr [] | Some b \<Rightarrow> mac_string b)"

text \<open>Name servers are lwIP's table; the call answers 1.\<close>

definition setDNS :: "ip_address \<Rightarrow> ip_address \<Rightarrow> sta_netif \<Rightarrow> bool \<times> sta_netif" where
  "setDNS dns1 dns2 nif = (True, nif\<lparr>nif_dns := (nif_dns nif)(0 := dns1, 1 := dns2)\<rparr>)"

text \<open>The driver's states become events of the event loop.\<close>

datatype halow_event = HALOW_EVENT_STA_DISCONNECTED | HALOW_EVENT_STA_CONNECTING | HALOW_EVENT_STA_CONNECTED

definition sta_status_callback :: "mmwlan_sta_state \<Rightarrow> halow_event list \<Rightarrow> halow_event list" where
  "sta_status_callback sta_state posted = posted @
     [case sta_state of MMWLAN_STA_DISABLED \<Rightarrow> HALOW_EVENT_STA_DISCONNECTED
      | MMWLAN_STA_CONNECTING \<Rightarrow> HALOW_EVENT_STA_CONNECTING
      | MMWLAN_STA_CONNECTED \<Rightarrow> HALOW_EVENT_STA_CONNECTED]"

definition sta_SSID :: "halow_sta \<Rightarrow> u8 list" where
  "sta_SSID s = c_string (sa_ssid (sta_args s))"

definition sta_psk :: "halow_sta \<Rightarrow> u8 list" where
  "sta_psk s = c_string (sa_passphrase (sta_args s))"

section \<open>What the station reports\<close>

type_synonym begin_call = "(mmwlan_sta_args \<Rightarrow> bool) \<times> u8 list \<times> u8 list \<times> mmwlan_security_type"

fun begin_all :: "begin_call list \<Rightarrow> halow_sta \<Rightarrow> halow_sta result" where
  "begin_all [] s = Inr s"
| "begin_all ((en, ssid, pass, sec) # cs) s = rbind (sta_begin en ssid pass sec s) (\<lambda>(st, s). begin_all cs s)"

definition sta_shape :: "halow_sta \<Rightarrow> bool" where
  "sta_shape s \<longleftrightarrow> sta_status s = WL_STOPPED \<and> sta_group s = None \<and>
     length (sa_ssid (sta_args s)) = 32 \<and> length (sa_passphrase (sta_args s)) = 101"

lemma strcpy_into:
  assumes "0 \<in> set src" "length dst = n" "0 < n" "n < 4294967296"
  shows "\<exists>cut b. mmosal_safer_strcpy dst src (of_nat n) = Inr (cut, b) \<and> length b = n \<and>
    c_string b = take (n - 1) (c_string src) \<and> 0 \<in> set b"
proof -
  have n: "unat (of_nat n :: u32) = n" by (rule unat_of_nat_u32 [OF assms(4)])
  from mmosal_safer_strcpy_ok [OF assms(1), of "of_nat n" dst] assms(2,3) obtain b where
    b: "mmosal_safer_strcpy dst src (of_nat n) = Inr (n \<le> length (c_string src), b)"
    "length b = n" "c_string b = take (n - 1) (c_string src)" "last b = 0"
    by (auto simp: n)
  moreover have "b \<noteq> []" using b(2) assms(3) by auto
  then have "0 \<in> set b" using b(4) last_in_set by fastforce
  ultimately show ?thesis by blast
qed

lemma sta_begin_runs:
  assumes "sta_shape s" "0 \<in> set ssid" "0 \<in> set pass" "sta_begin en ssid pass sec s = Inr (st, s')"
  shows "sta_shape s' \<and> st = WL_STOPPED \<and> sta_SSID s' = take 31 (c_string ssid) \<and> sta_psk s' = take 100 (c_string pass) \<and>
    sa_ssid_len (sta_args s') = of_nat (length (sta_SSID s')) \<and> sa_security_type (sta_args s') = sec \<and> en (sta_args s')"
proof -
  let ?a = "sta_args s"
  obtain c1 b1 where 1: "mmosal_safer_strcpy (sa_ssid ?a) ssid (of_nat (length (sa_ssid ?a))) = Inr (c1, b1)"
    "length b1 = 32" "c_string b1 = take 31 (c_string ssid)" "0 \<in> set b1"
    using strcpy_into [OF assms(2), of "sa_ssid ?a" 32] assms(1) by (auto simp: sta_shape_def)
  obtain c2 b2 where 2: "mmosal_safer_strcpy (sa_passphrase ?a) pass (of_nat (length (sa_passphrase ?a))) = Inr (c2, b2)"
    "length b2 = 101" "c_string b2 = take 100 (c_string pass)" "0 \<in> set b2"
    using strcpy_into [OF assms(3), of "sa_passphrase ?a" 101] assms(1) by (auto simp: sta_shape_def)
  show ?thesis using assms(1,4) 1 2
    by (auto simp: sta_begin_def Let_def c_strlen_def rbind_eq_Inr sta_shape_def status_def sta_SSID_def sta_psk_def)
qed

text \<open>
  nothing in the firmware reports the connection to the class, so after any successful \<open>begin\<close>
  calls the status is still WL_STOPPED: the station is never connected, every address it gives is 0.0.0.0, the CIDR 0
  and the RSSI -127, whatever the interface has. The network asked for last is the given SSID cut to 31
  bytes and the passphrase cut to 100.
\<close>

theorem station_stays_stopped:
  assumes "begin_all cs halow_sta_start = Inr s" and "\<forall>(en, ssid, pass, sec) \<in> set cs. 0 \<in> set ssid \<and> 0 \<in> set pass"
  shows "status s = WL_STOPPED \<and> \<not> isConnected s \<and>
    localIP nif s = no_address \<and> subnetMask nif s = no_address \<and> gatewayIP nif s = no_address \<and> dnsIP nif d s = no_address \<and>
    broadcastIP nif s = no_address \<and> networkID nif s = no_address \<and> subnetCIDR nif s = 0 \<and> rssi nif s = - 127 \<and>
    (cs \<noteq> [] \<longrightarrow> (case last cs of (en, ssid, pass, sec) \<Rightarrow>
      sta_SSID s = take 31 (c_string ssid) \<and> sta_psk s = take 100 (c_string pass) \<and> en (sta_args s)))"
proof -
  have run: "sta_shape s' \<Longrightarrow> begin_all cs s' = Inr s \<Longrightarrow> \<forall>(en, ssid, pass, sec) \<in> set cs. 0 \<in> set ssid \<and> 0 \<in> set pass \<Longrightarrow>
    sta_shape s \<and> (cs \<noteq> [] \<longrightarrow> (case last cs of (en, ssid, pass, sec) \<Rightarrow>
      sta_SSID s = take 31 (c_string ssid) \<and> sta_psk s = take 100 (c_string pass) \<and> en (sta_args s)))" for s'
  proof (induction cs arbitrary: s')
    case (Cons c cs)
    obtain en ssid pass sec where c: "c = (en, ssid, pass, sec)" by (rule prod_cases4)
    obtain st s1 where b: "sta_begin en ssid pass sec s' = Inr (st, s1)" "begin_all cs s1 = Inr s"
      using Cons.prems(2) c by (auto simp: rbind_eq_Inr)
    have z: "0 \<in> set ssid" "0 \<in> set pass" using Cons.prems(3) c by auto
    note r = sta_begin_runs [OF Cons.prems(1) z b(1)]
    then show ?case using Cons.IH [OF _ b(2)] b(2) Cons.prems(3) c by (cases "cs = []") auto
  qed simp
  have "sta_shape halow_sta_start" by (simp add: sta_shape_def halow_sta_start_def MMWLAN_STA_ARGS_INIT_def)
  from run [OF this assms] have sh: "sta_shape s" and l: "cs \<noteq> [] \<longrightarrow> (case last cs of (en, ssid, pass, sec) \<Rightarrow>
      sta_SSID s = take 31 (c_string ssid) \<and> sta_psk s = take 100 (c_string pass) \<and> en (sta_args s))" by auto
  then have "status s = WL_STOPPED" by (simp add: status_def sta_shape_def)
  then show ?thesis using l
    by (simp add: isConnected_def localIP_def subnetMask_def gatewayIP_def dnsIP_def broadcastIP_def networkID_def
      subnetCIDR_def rssi_def WL_STOPPED_def WL_CONNECTED_def)
qed

lemma station_stays_stopped_witness:
  "\<exists>s. begin_all [(\<lambda>a. True, [65, 66, 0], [99, 0], MMWLAN_SAE)] halow_sta_start = Inr s \<and> \<not> isConnected s \<and> sta_SSID s = [65, 66]"
proof -
  let ?cs = "[(\<lambda>a :: mmwlan_sta_args. True, [65, 66, 0 :: u8], [99, 0 :: u8], MMWLAN_SAE)]"
  have sh: "sta_shape halow_sta_start" by (simp add: sta_shape_def halow_sta_start_def MMWLAN_STA_ARGS_INIT_def)
  let ?a = "sta_args halow_sta_start"
  obtain c1 b1 where 1: "mmosal_safer_strcpy (sa_ssid ?a) [65, 66, 0] (of_nat (length (sa_ssid ?a))) = Inr (c1, b1)" "0 \<in> set b1"
    using strcpy_into [of "[65, 66, 0]" "sa_ssid ?a" 32] sh by (auto simp: sta_shape_def)
  obtain c2 b2 where 2: "mmosal_safer_strcpy (sa_passphrase ?a) [99, 0] (of_nat (length (sa_passphrase ?a))) = Inr (c2, b2)" "0 \<in> set b2"
    using strcpy_into [of "[99, 0]" "sa_passphrase ?a" 101] sh by (auto simp: sta_shape_def)
  have "\<exists>s. begin_all ?cs halow_sta_start = Inr s"
    by (simp add: sta_begin_def Let_def 1 2 c_strlen_def del: of_nat_numeral)
  then obtain s where s: "begin_all ?cs halow_sta_start = Inr s" by blast
  from station_stays_stopped [OF s, of undefined undefined] s show ?thesis by (auto simp: c_string_def)
qed

text \<open>
  The text that the station class makes of a six-byte hardware address never overruns its 18-byte
  array, has 17 characters and reads back to the same address, so two addresses never have one text; a
  BSSID that the library does not know is the empty text.
\<close>

theorem address_text_round_trip:
  assumes "length mac = 6"
  shows "\<exists>text. macAddress mac = Inr text \<and> sta_BSSIDstr True mac = Inr text \<and> length text = 17 \<and> parse_mac text = mac \<and>
    sta_BSSIDstr False mac = Inr []"
  using parse_mac_format [OF assms]
  by (simp add: macAddress_def sta_BSSIDstr_def BSSID_def mac_string_value)
    (simp add: mac_format_def hex_byte_def)

lemma address_text_round_trip_witness:
  "macAddress [0xA4, 0x9D, 0xF4, 0, 0x0B, 0xFF] = Inr (ascii ''A4:9D:F4:00:0B:FF'') \<and>
   parse_mac (ascii ''A4:9D:F4:00:0B:FF'') = [0xA4, 0x9D, 0xF4, 0, 0x0B, 0xFF]"
proof -
  have 1: "macAddress [0xA4, 0x9D, 0xF4, 0, 0x0B, 0xFF] = Inr (ascii ''A4:9D:F4:00:0B:FF'')" by code_simp
  have "length [0xA4, 0x9D, 0xF4, 0, 0x0B, 0xFF :: u8] = 6" by simp
  from address_text_round_trip [OF this] 1 show ?thesis by auto
qed

end
