(* ===== verification/Halow_Client_Api.thy ===== *)
theory Halow_Client_Api
  imports Halow_Client Halow_Sta
begin

text \<open>
  The calls of HalowClient.cpp around the byte stream: connecting by name, socket options, writing from a
  stream, and the addresses of the two ends. Option calls and addresses of lwIP are parameters.
\<close>

section \<open>Connecting by name\<close>

text \<open>\<open>conn\<close> is \<open>connect\<close> of an address, port and timeout; a host that is not found is not tried.\<close>

definition connect_host ::
  "(u8 list \<Rightarrow> u32 option) \<Rightarrow> (u8 list \<Rightarrow> (ai_family \<times> u32) list option) \<Rightarrow> u8 list option \<Rightarrow> u16 \<Rightarrow> int \<Rightarrow>
   (u32 \<Rightarrow> u16 \<Rightarrow> int \<Rightarrow> 'w \<Rightarrow> int \<times> 'w) \<Rightarrow> 'w \<Rightarrow> int \<times> 'w" where
  "connect_host aton gai host port timeout_ms conn w =
     (let (found, srv, freed) = hostByName aton gai host 0
      in if found = 0 then (0, w) else conn srv port timeout_ms w)"

text \<open>The forms without a timeout take the one of the object.\<close>

definition connect_default :: "(u32 \<Rightarrow> u16 \<Rightarrow> int \<Rightarrow> 'w \<Rightarrow> int \<times> 'w) \<Rightarrow> u32 \<Rightarrow> u16 \<Rightarrow> halow_client \<Rightarrow> 'w \<Rightarrow> int \<times> 'w" where
  "connect_default conn ip port c w = conn ip port (client_timeout c) w"

definition connect_host_default ::
  "(u8 list \<Rightarrow> u32 option) \<Rightarrow> (u8 list \<Rightarrow> (ai_family \<times> u32) list option) \<Rightarrow> u8 list option \<Rightarrow> u16 \<Rightarrow>
   (u32 \<Rightarrow> u16 \<Rightarrow> int \<Rightarrow> 'w \<Rightarrow> int \<times> 'w) \<Rightarrow> halow_client \<Rightarrow> 'w \<Rightarrow> int \<times> 'w" where
  "connect_host_default aton gai host port conn c w = connect_host aton gai host port (client_timeout c) conn w"

section \<open>Options\<close>

text \<open>
  \<open>op_set fd level option value\<close> and \<open>op_get fd level option\<close> are the calls of lwIP: the first answers a
  negative number when it fails, the second nothing.
\<close>

record 'o opt_api =
  op_set :: "int \<Rightarrow> int \<Rightarrow> int \<Rightarrow> int \<Rightarrow> 'o \<Rightarrow> int \<times> 'o"
  op_get :: "int \<Rightarrow> int \<Rightarrow> int \<Rightarrow> 'o \<Rightarrow> int option"

definition client_fd :: "int option \<Rightarrow> int" where
  "client_fd handle = (case handle of None \<Rightarrow> - 1 | Some fd \<Rightarrow> fd)"

definition SOL_SOCKET :: int where "SOL_SOCKET = 0xfff"
definition IPPROTO_TCP :: int where "IPPROTO_TCP = 6"
definition TCP_NODELAY :: int where "TCP_NODELAY = 1"

definition setSocketOptionLevel :: "'o opt_api \<Rightarrow> int option \<Rightarrow> int \<Rightarrow> int \<Rightarrow> int \<Rightarrow> 'o \<Rightarrow> int \<times> 'o" where
  "setSocketOptionLevel op handle level opt value w = op_set op (client_fd handle) level opt value w"

definition setSocketOption :: "'o opt_api \<Rightarrow> int option \<Rightarrow> int \<Rightarrow> int \<Rightarrow> 'o \<Rightarrow> int \<times> 'o" where
  "setSocketOption op handle opt value w = setSocketOptionLevel op handle SOL_SOCKET opt value w"

text \<open>The value is left alone when the call fails.\<close>

definition getSocketOption :: "'o opt_api \<Rightarrow> int option \<Rightarrow> int \<Rightarrow> int \<Rightarrow> int \<Rightarrow> 'o \<Rightarrow> int \<times> int" where
  "getSocketOption op handle level opt value w =
     (case op_get op (client_fd handle) level opt w of None \<Rightarrow> (- 1, value) | Some v \<Rightarrow> (0, v))"

definition setOption :: "'o opt_api \<Rightarrow> int option \<Rightarrow> int \<Rightarrow> int \<Rightarrow> 'o \<Rightarrow> int \<times> 'o" where
  "setOption op handle opt value w = setSocketOptionLevel op handle IPPROTO_TCP opt value w"

definition getOption :: "'o opt_api \<Rightarrow> int option \<Rightarrow> int \<Rightarrow> int \<Rightarrow> 'o \<Rightarrow> int \<times> int" where
  "getOption op handle opt value w =
     (case op_get op (client_fd handle) IPPROTO_TCP opt w of None \<Rightarrow> (- 1, value) | Some v \<Rightarrow> (0, v))"

definition setNoDelay :: "'o opt_api \<Rightarrow> int option \<Rightarrow> bool \<Rightarrow> 'o \<Rightarrow> int \<times> 'o" where
  "setNoDelay op handle nodelay w = (let flag = (if nodelay then 1 else 0) in setOption op handle TCP_NODELAY flag w)"

definition getNoDelay :: "'o opt_api \<Rightarrow> int option \<Rightarrow> 'o \<Rightarrow> bool" where
  "getNoDelay op handle w = (let flag = 0; flag = snd (getOption op handle TCP_NODELAY flag w) in flag \<noteq> 0)"

definition setConnectionTimeout :: "u32 \<Rightarrow> halow_client \<Rightarrow> halow_client" where
  "setConnectionTimeout milliseconds c = c\<lparr>client_timeout := sint milliseconds\<rparr>"

section \<open>Writing\<close>

definition client_write_byte :: "'s sock_api \<Rightarrow> u8 \<Rightarrow> halow_client \<Rightarrow> 's \<Rightarrow> nat \<times> halow_client \<times> 's" where
  "client_write_byte so data c s = client_write so [data] c s"

definition client_write_P :: "'s sock_api \<Rightarrow> u8 list \<Rightarrow> halow_client \<Rightarrow> 's \<Rightarrow> nat \<times> halow_client \<times> 's" where
  "client_write_P so buf c s = client_write so buf c s"

text \<open>\<open>st_read n\<close> is \<open>readBytes\<close>: at most \<open>n\<close> bytes, fewer when its own timeout passes.\<close>

record 'x stream_api =
  st_available :: "'x \<Rightarrow> nat \<times> 'x"
  st_read :: "nat \<Rightarrow> 'x \<Rightarrow> u8 list \<times> 'x"

partial_function (option) write_stream_loop ::
    "'x stream_api \<Rightarrow> 's sock_api \<Rightarrow> nat \<Rightarrow> nat \<Rightarrow> halow_client \<Rightarrow> 's \<Rightarrow> 'x \<Rightarrow> (nat \<times> halow_client \<times> 's \<times> 'x) option" where
  "write_stream_loop st so avail written c s x =
     (if avail = 0 then Some (written, c, s, x)
      else let toRead = (if 1360 < avail then 1360 else avail);
               r = st_read st toRead x;
               w = client_write so (fst r) c s;
               a = st_available st (snd r)
           in write_stream_loop st so (fst a) (written + fst w) (fst (snd w)) (snd (snd w)) (snd a))"

text \<open>\<open>allocated\<close> is whether \<open>malloc\<close> has the buffer.\<close>

definition client_write_stream ::
    "'x stream_api \<Rightarrow> 's sock_api \<Rightarrow> bool \<Rightarrow> halow_client \<Rightarrow> 's \<Rightarrow> 'x \<Rightarrow> (nat \<times> halow_client \<times> 's \<times> 'x) option" where
  "client_write_stream st so allocated c s x =
     (if \<not> allocated then Some (0, c, s, x)
      else let a = st_available st x in write_stream_loop st so (fst a) 0 c s (snd a))"

section \<open>Addresses\<close>

text \<open>A socket address by family; an IPv6 address is its 16 bytes, a port is in network order.\<close>

datatype sockaddr = Sock_in u32 u16 | Sock_in6 "u8 list" u16 u8 | Sock_other

datatype ip_addr = IPv4 "u8 list" | IPv6 "u8 list" u8

definition ntohs :: "u16 \<Rightarrow> u16" where
  "ntohs p = push_bit 8 p OR drop_bit 8 p"

text \<open>The three words are read from memory, least significant byte first.\<close>

definition IN6_IS_ADDR_V4MAPPED :: "u8 list \<Rightarrow> bool" where
  "IN6_IS_ADDR_V4MAPPED a \<longleftrightarrow> le32 a = 0 \<and> le32 (drop 4 a) = 0 \<and> le32 (drop 8 a) = 0xffff0000"

definition remoteIP :: "sockaddr \<Rightarrow> ip_addr" where
  "remoteIP addr =
     (case addr of
        Sock_in s_addr port \<Rightarrow> IPv4 (bytes32 s_addr)
      | Sock_in6 a port scope \<Rightarrow> if IN6_IS_ADDR_V4MAPPED a then IPv4 (take 4 (drop 12 a)) else IPv6 a scope
      | Sock_other \<Rightarrow> IPv4 [0, 0, 0, 0])"

text \<open>Both families have the port in the same place; another family has none.\<close>

definition remotePort :: "sockaddr \<Rightarrow> u16 result" where
  "remotePort addr = (case addr of Sock_in a port \<Rightarrow> Inr (ntohs port) | Sock_in6 a port sc \<Rightarrow> Inr (ntohs port) | Sock_other \<Rightarrow> Inl Out_of_bounds)"

text \<open>
  The address of the near end: the code reads the address field of an IPv4 socket whatever the family, and for an
  IPv6 socket that field is \<open>flow\<close>, the flow information of lwIP's structure.
\<close>

definition localIP :: "u32 \<Rightarrow> sockaddr \<Rightarrow> ip_addr result" where
  "localIP flow addr =
     (case addr of
        Sock_in s_addr port \<Rightarrow> Inr (IPv4 (bytes32 s_addr))
      | Sock_in6 a port scope \<Rightarrow> Inr (IPv4 (bytes32 flow))
      | Sock_other \<Rightarrow> Inl Out_of_bounds)"

definition localPort :: "sockaddr \<Rightarrow> u16 result" where
  "localPort addr = (case addr of Sock_in a port \<Rightarrow> Inr (ntohs port) | Sock_in6 a port sc \<Rightarrow> Inr (ntohs port) | Sock_other \<Rightarrow> Inl Out_of_bounds)"

text \<open>The forms without a descriptor ask for the one of the client; \<open>names\<close> is \<open>getpeername\<close> or \<open>getsockname\<close>.\<close>

definition remoteIP_of :: "(int \<Rightarrow> sockaddr) \<Rightarrow> int option \<Rightarrow> ip_addr" where
  "remoteIP_of names handle = remoteIP (names (client_fd handle))"

definition remotePort_of :: "(int \<Rightarrow> sockaddr) \<Rightarrow> int option \<Rightarrow> u16 result" where
  "remotePort_of names handle = remotePort (names (client_fd handle))"

definition localIP_of :: "u32 \<Rightarrow> (int \<Rightarrow> sockaddr) \<Rightarrow> int option \<Rightarrow> ip_addr result" where
  "localIP_of flow names handle = localIP flow (names (client_fd handle))"

definition localPort_of :: "(int \<Rightarrow> sockaddr) \<Rightarrow> int option \<Rightarrow> u16 result" where
  "localPort_of names handle = localPort (names (client_fd handle))"

text \<open>\<open>operator==\<close> compares the handles (an index into the shared ones) and the peers.\<close>

definition same_client :: "nat option \<Rightarrow> nat option \<Rightarrow> sockaddr \<Rightarrow> sockaddr \<Rightarrow> bool result" where
  "same_client h1 h2 a1 a2 =
     (if h1 \<noteq> h2 then Inr False
      else rbind (remotePort a1) (\<lambda>p1. rbind (remotePort a2) (\<lambda>p2. Inr (p1 = p2 \<and> remoteIP a1 = remoteIP a2))))"

text \<open>
  \<open>operator==(bool)\<close> of HalowClient.h writes \<open>bool() == value\<close>: that is the value \<open>false\<close> of the type, and
  not the connection state of the client, which \<open>operator bool\<close> gives.
\<close>

definition client_eq_bool :: "bool \<Rightarrow> bool" where
  "client_eq_bool value = (False = value)"

section \<open>Lemmas\<close>

text \<open>The pieces of a text.\<close>

function pieces :: "nat \<Rightarrow> u8 list \<Rightarrow> u8 list list" where
  "pieces n xs = (if xs = [] \<or> n = 0 then [] else take n xs # pieces n (drop n xs))"
  by auto
termination by (relation "measure (\<lambda>(n, xs). length xs)") auto

declare pieces.simps [simp del]

lemma pieces_concat: "0 < n \<Longrightarrow> concat (pieces n xs) = xs"
  by (induction n xs rule: pieces.induct) (subst pieces.simps, simp)

lemma pieces_length: "p \<in> set (pieces n xs) \<Longrightarrow> p \<noteq> [] \<and> length p \<le> n"
proof (induction n xs rule: pieces.induct)
  case (1 n xs)
  then show ?case by (subst (asm) (2) pieces.simps) (auto split: if_splits)
qed

text \<open>Writing pieces one after the other.\<close>

fun write_pieces :: "'s sock_api \<Rightarrow> u8 list list \<Rightarrow> nat \<Rightarrow> halow_client \<Rightarrow> 's \<Rightarrow> nat \<times> halow_client \<times> 's" where
  "write_pieces so [] written c s = (written, c, s)"
| "write_pieces so (p # ps) written c s =
     (let w = client_write so p c s in write_pieces so ps (written + fst w) (fst (snd w)) (snd (snd w)))"

text \<open>
  What a stream whose whole content is at hand promises: \<open>content\<close> is what it still has, all of it is
  available, and a read takes the next bytes.
\<close>

locale memory_stream =
  fixes st :: "'x stream_api" and content :: "'x \<Rightarrow> u8 list"
  assumes available: "st_available st x = (n, y) \<Longrightarrow> n = length (content x) \<and> content y = content x"
    and read: "st_read st n x = (bs, y) \<Longrightarrow> bs = take n (content x) \<and> content y = drop n (content x)"
begin

lemma stream_loop_writes:
  "\<exists>y. write_stream_loop st so (length (content x)) written c s x =
     (case write_pieces so (pieces 1360 (content x)) written c s of (n, c1, s1) \<Rightarrow> Some (n, c1, s1, y)) \<and> content y = []"
proof (induction "length (content x)" arbitrary: x written c s rule: less_induct)
  case less
  show ?case
  proof (cases "content x = []")
    case True
    then show ?thesis by (subst write_stream_loop.simps) (simp add: pieces.simps)
  next
    case False
    define k where "k = (if 1360 < length (content x) then 1360 else length (content x))"
    obtain bs x1 where r: "st_read st k x = (bs, x1)" by fastforce
    obtain a x2 where a: "st_available st x1 = (a, x2)" by fastforce
    obtain n c1 s1 where w: "client_write so bs c s = (n, c1, s1)" by (metis prod_cases3)
    have bs: "bs = take 1360 (content x)" and c2: "content x2 = drop 1360 (content x)" and len: "a = length (content x2)"
      using read [OF r] available [OF a] by (auto simp: k_def)
    have "length (content x2) < length (content x)" using False c2 by simp
    from less [OF this, of "written + n" c1 s1] obtain y where y: "content y = []"
      and l: "write_stream_loop st so (length (content x2)) (written + n) c1 s1 x2 =
        (case write_pieces so (pieces 1360 (content x2)) (written + n) c1 s1 of (n, c1, s1) \<Rightarrow> Some (n, c1, s1, y))" by blast
    have "pieces 1360 (content x) = bs # pieces 1360 (content x2)" using False by (subst pieces.simps) (simp add: bs c2)
    moreover have "write_stream_loop st so (length (content x)) written c s x =
        write_stream_loop st so (length (content x2)) (written + n) c1 s1 x2"
      using False by (subst write_stream_loop.simps) (simp add: k_def [symmetric] r a w len Let_def)
    ultimately show ?thesis using l y w by (intro exI [of _ y]) simp
  qed
qed

lemma stream_writes:
  "\<exists>y. client_write_stream st so True c s x =
     (case write_pieces so (pieces 1360 (content x)) 0 c s of (n, c1, s1) \<Rightarrow> Some (n, c1, s1, y)) \<and> content y = []"
proof -
  obtain a x1 where a: "st_available st x = (a, x1)" by fastforce
  show ?thesis using stream_loop_writes [of so x1 0 c s] available [OF a] by (simp add: client_write_stream_def a)
qed

end

text \<open>A stream over bytes in memory.\<close>

definition bytes_stream :: "u8 list stream_api" where
  "bytes_stream = \<lparr>st_available = (\<lambda>x. (length x, x)), st_read = (\<lambda>n x. (take n x, drop n x))\<rparr>"

interpretation bytes: memory_stream bytes_stream "\<lambda>x. x"
  by unfold_locales (auto simp: bytes_stream_def)

section \<open>The properties\<close>

text \<open>
  C36: Writing a stream whose content is at hand returns, whatever the socket does, and is the same as
  writing its content in consecutive pieces of at most 1360 bytes, none empty, each given to the socket once
  and in order; the value is the sum of what the writes accepted, and nothing is left in the stream. Without
  memory for the buffer nothing is read.
\<close>

theorem stream_written_in_pieces:
  assumes "memory_stream st content"
  shows "(\<exists>y. client_write_stream st so True c s x =
      (case write_pieces so (pieces 1360 (content x)) 0 c s of (n, c1, s1) \<Rightarrow> Some (n, c1, s1, y)) \<and> content y = []) \<and>
    concat (pieces 1360 (content x)) = content x \<and> (\<forall>p \<in> set (pieces 1360 (content x)). p \<noteq> [] \<and> length p \<le> 1360) \<and>
    client_write_stream st so False c s x = Some (0, c, s, x)"
  using memory_stream.stream_writes [OF assms] pieces_concat [of 1360] pieces_length [of _ 1360]
  by (simp add: client_write_stream_def)

definition open_socket :: "u8 list sock_api" where
  "open_socket = \<lparr>so_fionread = (\<lambda>s. (Some 0, s)), so_recv = (\<lambda>n s. (Recv_failed E_again, s)), so_probe = (\<lambda>s. ((-1, E_again), s)),
     so_select_write = (\<lambda>s. ((1, True), s)), so_send = (\<lambda>bs s. (Sent (length bs), s @ bs)), so_set_timeout = (\<lambda>t s. (True, s)),
     so_close = (\<lambda>s. s), so_malloc_ok = (\<lambda>s. (True, s))\<rparr>"

lemma stream_written_in_pieces_witness:
  "\<exists>y. client_write_stream bytes_stream open_socket True (HalowClient_fd 0 0) [] (replicate 3000 1) =
     (case write_pieces open_socket (pieces 1360 (replicate 3000 1)) 0 (HalowClient_fd 0 0) [] of (n, c1, s1) \<Rightarrow> Some (n, c1, s1, y)) \<and> y = []"
  using stream_written_in_pieces [OF bytes.memory_stream_axioms, of open_socket "HalowClient_fd 0 0" "[]" "replicate 3000 1"] by blast

text \<open>The peer of a mapped address is its IPv4 address.\<close>

lemma mapped_peer: "remoteIP (Sock_in6 [0, 0, 0, 0, 0, 0, 0, 0, 0, 0, 0xff, 0xff, a, b, c, d] p sc) = IPv4 [a, b, c, d]"
proof -
  have "le32 [0, 0, 0xff, 0xff, a, b, c, d] = 0xffff0000" by (simp add: le32_def)
  then show ?thesis by (simp add: remoteIP_def IN6_IS_ADDR_V4MAPPED_def) (simp add: le32_def)
qed

text \<open>The near address of such a socket is not read at all: lwIP leaves the flow information zero.\<close>

lemma mapped_local:
  "localIP flow (Sock_in6 a port scope) = Inr (IPv4 (bytes32 flow)) \<and> localIP 0 (Sock_in6 a port scope) = Inr (IPv4 [0, 0, 0, 0])"
  by (simp add: localIP_def bytes32_def)

text \<open>A set option is read back when lwIP keeps it.\<close>

lemma no_delay_read_back:
  assumes "op_set op (client_fd h) IPPROTO_TCP TCP_NODELAY (if b then 1 else 0) w = (0, w1)"
    and "op_get op (client_fd h) IPPROTO_TCP TCP_NODELAY w1 = Some (if b then 1 else 0)"
  shows "setNoDelay op h b w = (0, w1) \<and> getNoDelay op h w1 = b"
  using assms by (simp add: setNoDelay_def setOption_def setSocketOptionLevel_def getNoDelay_def getOption_def)

text \<open>The comparison with a truth value knows nothing of the connection.\<close>

lemma client_never_true: "client_eq_bool True = False \<and> client_eq_bool False = True"
  by (simp add: client_eq_bool_def)

end
