(* ===== verification/Mmipal.thy ===== *)
theory Mmipal
  imports MM_Prelude
begin

text \<open>
  The IP adaptation layer of mmipal_lwip.c: initialisation, address modes, the link monitor with its
  notifications and ARP offload, IPv6 settings and name servers. lwIP is a parameter: the parsing of
  address texts, what its DHCP client does to the interface, and when it calls the status callback.
  LWIP_IPV4, LWIP_IPV6, LWIP_DHCP and the IPv6 autoconfiguration are 1, LWIP_IPV6_DHCP6 is 1.
\<close>

section \<open>State\<close>

datatype mmipal_status = MMIPAL_SUCCESS | MMIPAL_INVALID_ARGUMENT | MMIPAL_NO_LINK | MMIPAL_NO_MEM | MMIPAL_NOT_SUPPORTED
datatype mmipal_link_state = MMIPAL_LINK_DOWN | MMIPAL_LINK_UP
datatype mmipal_addr_mode = MMIPAL_DISABLED | MMIPAL_STATIC | MMIPAL_DHCP | MMIPAL_AUTOIP | MMIPAL_DHCP_OFFLOAD
datatype mmipal_ip6_addr_mode =
  MMIPAL_IP6_DISABLED | MMIPAL_IP6_STATIC | MMIPAL_IP6_AUTOCONFIG | MMIPAL_IP6_DHCP6_STATELESS

datatype ip6_state = IP6_ADDR_INVALID | IP6_ADDR_TENTATIVE | IP6_ADDR_VALID

type_synonym u128 = "128 word"

text \<open>
  The part of lwIP's \<open>struct netif\<close> that the code reads or sets; \<open>nf_dhcp\<close> and \<open>nf_dhcp6\<close> say whether
  lwIP's clients run, \<open>nf_linklocal\<close> whether lwIP made a link-local address.
\<close>

record netif =
  nf_ip :: u32
  nf_netmask :: u32
  nf_gw :: u32
  nf_link_up :: bool
  nf_dhcp :: bool
  nf_ip6 :: "(u128 \<times> ip6_state) list"
  nf_autoconfig :: bool
  nf_linklocal :: bool
  nf_dhcp6 :: bool

record mmipal_link_status =
  ls_state :: mmipal_link_state
  ls_ip :: u32
  ls_netmask :: u32
  ls_gateway :: u32

text \<open>
  \<open>mmipal_data\<close> with the effects outside: the notifications delivered and what the transceiver was told
  (\<open>arp_response\<close>, \<open>arp_refresh\<close>, \<open>dhcp_offload\<close>). Callbacks are registered or not.
\<close>

record mmipal_data =
  mm_netif :: netif
  ip_link_state :: mmipal_link_state
  offload_arp_response :: bool
  offload_arp_refresh_s :: u32
  dhcp_offload_init_complete :: bool
  link_status_callback :: bool
  ext_link_status_callback :: bool
  ip4_mode :: mmipal_addr_mode
  ip6_mode :: mmipal_ip6_addr_mode
  notified :: "mmipal_link_status list"
  arp_response :: "u32 option"
  arp_refresh :: "(u32 \<times> u32) option"
  dhcp_offload :: bool
  dns_servers :: "u32 list"
  tcpip_init_done :: bool

text \<open>
  lwIP: \<open>lw_aton\<close> and \<open>lw_aton6\<close> are \<open>ipaddr_aton\<close>, \<open>lw_notifies\<close> whether a change of the interface calls the
  status callback, \<open>lw_dhcp_start\<close> whether the client starts.
\<close>

record lwip =
  lw_aton :: "u8 list \<Rightarrow> u32 option"
  lw_aton6 :: "u8 list \<Rightarrow> u128 option"
  lw_notifies :: "netif \<Rightarrow> netif \<Rightarrow> bool"
  lw_dhcp_stop :: "netif \<Rightarrow> netif"
  lw_dhcp_start :: "netif \<Rightarrow> netif option"

section \<open>The link monitor\<close>

definition mmipal_link_status_check :: "netif \<Rightarrow> bool" where
  "mmipal_link_status_check n \<longleftrightarrow> nf_ip n \<noteq> 0 \<and> nf_link_up n"

text \<open>The part for a changed link state: offload when the link is up, then the callbacks.\<close>

definition report_link :: "mmipal_data \<Rightarrow> mmipal_data" where
  "report_link d =
     (let n = mm_netif d;
          status = \<lparr>ls_state = ip_link_state d, ls_ip = nf_ip n, ls_netmask = nf_netmask n, ls_gateway = nf_gw n\<rparr>;
          d1 = (if ip_link_state d = MMIPAL_LINK_UP \<and> offload_arp_response d then d\<lparr>arp_response := Some (nf_ip n)\<rparr> else d);
          d2 = (if ip_link_state d = MMIPAL_LINK_UP \<and> 0 < offload_arp_refresh_s d
                then d1\<lparr>arp_refresh := Some (offload_arp_refresh_s d, nf_gw n)\<rparr> else d1)
      in d2\<lparr>notified := notified d2 @ replicate (of_bool (link_status_callback d) + of_bool (ext_link_status_callback d)) status\<rparr>)"

definition netif_status_callback :: "mmipal_data \<Rightarrow> mmipal_data" where
  "netif_status_callback d0 =
     (let d = (if ip4_mode d0 = MMIPAL_DHCP_OFFLOAD then d0\<lparr>dhcp_offload := True\<rparr> else d0)
      in if ip4_mode d0 = MMIPAL_DHCP_OFFLOAD \<and> \<not> dhcp_offload_init_complete d0 then d
         else let new_link_state = (if mmipal_link_status_check (mm_netif d) then MMIPAL_LINK_UP else MMIPAL_LINK_DOWN)
          in if ip_link_state d = new_link_state then d
             else let d1 = d\<lparr>ip_link_state := new_link_state\<rparr>
              in if link_status_callback d1 \<or> ext_link_status_callback d1 then report_link d1 else d1)"

text \<open>A change of the interface by lwIP, with the status callback when lwIP makes one.\<close>

definition change_netif :: "lwip \<Rightarrow> netif \<Rightarrow> mmipal_data \<Rightarrow> mmipal_data" where
  "change_netif lw n d =
     (let d1 = d\<lparr>mm_netif := n\<rparr> in if lw_notifies lw (mm_netif d) n then netif_status_callback d1 else d1)"

definition netif_set_addr :: "lwip \<Rightarrow> u32 \<Rightarrow> u32 \<Rightarrow> u32 \<Rightarrow> mmipal_data \<Rightarrow> mmipal_data" where
  "netif_set_addr lw ip nm gw d = change_netif lw ((mm_netif d)\<lparr>nf_ip := ip, nf_netmask := nm, nf_gw := gw\<rparr>) d"

text \<open>
  The offloaded DHCP client reports a lease. The address and the name server are set under the lock of lwIP; the
  status callback that follows runs outside it. The model takes the two as one step, so a change of the
  interface by another task between them, and two status callbacks at once, are not covered.
\<close>

definition mmipal_dhcp_lease_updated :: "lwip \<Rightarrow> u32 \<Rightarrow> u32 \<Rightarrow> u32 \<Rightarrow> u32 \<Rightarrow> mmipal_data \<Rightarrow> mmipal_data" where
  "mmipal_dhcp_lease_updated lw ip nm gw dns d =
     (let d1 = netif_set_addr lw ip nm gw (d\<lparr>dhcp_offload_init_complete := True\<rparr>)
      in netif_status_callback (d1\<lparr>dns_servers := (dns_servers d1)[0 := dns]\<rparr>))"

definition mmipal_set_link_status_callback :: "bool \<Rightarrow> mmipal_data \<Rightarrow> mmipal_data" where
  "mmipal_set_link_status_callback fn d = d\<lparr>link_status_callback := fn\<rparr>"

definition mmipal_set_ext_link_status_callback :: "bool \<Rightarrow> mmipal_data \<Rightarrow> mmipal_data" where
  "mmipal_set_ext_link_status_callback fn d = d\<lparr>ext_link_status_callback := fn\<rparr>"

definition mmipal_get_link_state :: "mmipal_data \<Rightarrow> mmipal_link_state" where
  "mmipal_get_link_state d = ip_link_state d"

section \<open>IPv4 configuration\<close>

record mmipal_ip_config =
  cfg_mode :: mmipal_addr_mode
  cfg_ip_addr :: "u8 list"
  cfg_netmask :: "u8 list"
  cfg_gateway_addr :: "u8 list"

text \<open>The three texts of an address, all of which must parse.\<close>

definition parse_addrs :: "lwip \<Rightarrow> u8 list \<Rightarrow> u8 list \<Rightarrow> u8 list \<Rightarrow> (u32 \<times> u32 \<times> u32) option" where
  "parse_addrs lw ip nm gw =
     (case lw_aton lw ip of None \<Rightarrow> None
      | Some a \<Rightarrow> (case lw_aton lw nm of None \<Rightarrow> None
        | Some m \<Rightarrow> (case lw_aton lw gw of None \<Rightarrow> None | Some g \<Rightarrow> Some (a, m, g))))"

definition mmipal_set_ip_config :: "lwip \<Rightarrow> mmipal_ip_config \<Rightarrow> mmipal_data \<Rightarrow> (mmipal_status \<times> mmipal_data) result" where
  "mmipal_set_ip_config lw c d =
     (if cfg_mode c \<noteq> MMIPAL_DHCP_OFFLOAD \<and> ip4_mode d = MMIPAL_DHCP_OFFLOAD then Inr (MMIPAL_NOT_SUPPORTED, d)
      else case (case cfg_mode c of
                   MMIPAL_STATIC \<Rightarrow> parse_addrs lw (cfg_ip_addr c) (cfg_netmask c) (cfg_gateway_addr c)
                 | MMIPAL_DHCP \<Rightarrow> Some (0, 0, 0)
                 | _ \<Rightarrow> None) of
             None \<Rightarrow> Inr (MMIPAL_INVALID_ARGUMENT, d)
           | Some (ip, nm, gw) \<Rightarrow>
               (let d1 = (if cfg_mode c \<noteq> MMIPAL_DHCP \<and> ip4_mode d = MMIPAL_DHCP
                          then change_netif lw (lw_dhcp_stop lw (mm_netif d)) d else d);
                    d2 = netif_set_addr lw ip nm gw (d1\<lparr>ip4_mode := cfg_mode c\<rparr>)
                in if ip4_mode d2 = MMIPAL_DHCP
                   then (case lw_dhcp_start lw (mm_netif d2) of
                           None \<Rightarrow> Inl Assert_failed
                         | Some n \<Rightarrow> Inr (MMIPAL_SUCCESS, change_netif lw n d2))
                   else Inr (MMIPAL_SUCCESS, d2)))"

text \<open>The broadcast address of the interface.\<close>

definition mmipal_get_ip_broadcast_addr :: "mmipal_data \<Rightarrow> u32" where
  "mmipal_get_ip_broadcast_addr d =
     (nf_ip (mm_netif d) AND nf_netmask (mm_netif d)) OR (0xffffffff AND NOT (nf_netmask (mm_netif d)))"

section \<open>Initialisation\<close>

record mmipal_init_args =
  ia_mode :: mmipal_addr_mode
  ia_ip_addr :: "u8 list"
  ia_netmask :: "u8 list"
  ia_gateway_addr :: "u8 list"
  ia_ip6_mode :: mmipal_ip6_addr_mode
  ia_ip6_addr :: "u8 list"
  ia_offload_arp_response :: bool
  ia_offload_arp_refresh_s :: u32

text \<open>What \<open>netif_add_noaddr\<close> leaves: no address, link down; \<open>k\<close> is LWIP_IPV6_NUM_ADDRESSES.\<close>

definition netif_added :: "nat \<Rightarrow> netif" where
  "netif_added k = \<lparr>nf_ip = 0, nf_netmask = 0, nf_gw = 0, nf_link_up = False, nf_dhcp = False,
     nf_ip6 = replicate k (0, IP6_ADDR_INVALID), nf_autoconfig = False, nf_linklocal = False, nf_dhcp6 = False\<rparr>"

text \<open>The arguments that pass: the IPv4 address, netmask, gateway and the IPv6 address to use; \<open>None\<close> is \<open>goto exit\<close>.\<close>

definition valid_ip4_args :: "lwip \<Rightarrow> mmipal_init_args \<Rightarrow> (u32 \<times> u32 \<times> u32) option" where
  "valid_ip4_args lw a =
     (case ia_mode a of
        MMIPAL_DISABLED \<Rightarrow> None
      | MMIPAL_DHCP \<Rightarrow> Some (0, 0, 0)
      | MMIPAL_AUTOIP \<Rightarrow> Some (0, 0, 0)
      | _ \<Rightarrow> (case parse_addrs lw (ia_ip_addr a) (ia_netmask a) (ia_gateway_addr a) of
               None \<Rightarrow> None | Some (ip, nm, gw) \<Rightarrow> if ip = 0 then None else Some (ip, nm, gw)))"

definition valid_ip6_args :: "lwip \<Rightarrow> mmipal_init_args \<Rightarrow> u128 option" where
  "valid_ip6_args lw a =
     (case ia_ip6_mode a of
        MMIPAL_IP6_STATIC \<Rightarrow>
          (case lw_aton6 lw (ia_ip6_addr a) of None \<Rightarrow> None | Some ip6 \<Rightarrow> if ip6 = 0 then None else Some ip6)
      | _ \<Rightarrow> Some 0)"

text \<open>
  The handler on lwIP's thread. The status callback is registered after the IPv4 address is set, so none
  of these changes is reported.
\<close>

definition tcpip_init_done_handler ::
    "lwip \<Rightarrow> nat \<Rightarrow> mmipal_init_args \<Rightarrow> u32 \<times> u32 \<times> u32 \<Rightarrow> u128 \<Rightarrow> mmipal_data \<Rightarrow> mmipal_data result" where
  "tcpip_init_done_handler lw k a addrs ip6 d =
     (let n = netif_added k
      in rbind (case ia_mode a of
             MMIPAL_DHCP \<Rightarrow> (case lw_dhcp_start lw n of None \<Rightarrow> Inl Assert_failed | Some n1 \<Rightarrow> Inr n1)
           | MMIPAL_STATIC \<Rightarrow> (case addrs of (ip, nm, gw) \<Rightarrow> Inr (n\<lparr>nf_ip := ip, nf_netmask := nm, nf_gw := gw\<rparr>))
           | _ \<Rightarrow> Inr n) (\<lambda>n1.
         let n2 = (case ia_ip6_mode a of
                 MMIPAL_IP6_STATIC \<Rightarrow> n1\<lparr>nf_ip6 := (nf_ip6 n1)[0 := (ip6, IP6_ADDR_TENTATIVE)]\<rparr>
               | MMIPAL_IP6_AUTOCONFIG \<Rightarrow> n1\<lparr>nf_autoconfig := True, nf_linklocal := True\<rparr>
               | MMIPAL_IP6_DHCP6_STATELESS \<Rightarrow> n1\<lparr>nf_dhcp6 := True\<rparr>
               | MMIPAL_IP6_DISABLED \<Rightarrow> n1)
         in Inr (d\<lparr>mm_netif := n2, ip4_mode := ia_mode a, ip6_mode := ia_ip6_mode a, tcpip_init_done := True\<rparr>)))"

definition mmipal_init ::
    "lwip \<Rightarrow> nat \<Rightarrow> bool \<Rightarrow> mmipal_init_args \<Rightarrow> mmipal_data \<Rightarrow> (mmipal_status \<times> mmipal_data) result" where
  "mmipal_init lw k malloc_ok a d =
     (if \<not> malloc_ok then Inr (MMIPAL_NO_MEM, d)
      else let d1 = d\<lparr>link_status_callback := False, offload_arp_response := ia_offload_arp_response a,
                      offload_arp_refresh_s := ia_offload_arp_refresh_s a\<rparr>
       in case valid_ip4_args lw a of
            None \<Rightarrow> Inr (MMIPAL_INVALID_ARGUMENT, d1)
          | Some addrs \<Rightarrow>
              (case valid_ip6_args lw a of
                 None \<Rightarrow> Inr (MMIPAL_INVALID_ARGUMENT, d1)
               | Some ip6 \<Rightarrow> rbind (tcpip_init_done_handler lw k a addrs ip6 d1) (\<lambda>d2. Inr (MMIPAL_SUCCESS, d2))))"

text \<open>The zero-initialised static structure.\<close>

definition mmipal_data0 :: "nat \<Rightarrow> mmipal_data" where
  "mmipal_data0 dns_max = \<lparr>mm_netif = netif_added 0, ip_link_state = MMIPAL_LINK_DOWN, offload_arp_response = False,
     offload_arp_refresh_s = 0, dhcp_offload_init_complete = False, link_status_callback = False,
     ext_link_status_callback = False, ip4_mode = MMIPAL_DISABLED, ip6_mode = MMIPAL_IP6_DISABLED, notified = [],
     arp_response = None, arp_refresh = None, dhcp_offload = False, dns_servers = replicate dns_max 0, tcpip_init_done = False\<rparr>"

section \<open>IPv6 configuration\<close>

record mmipal_ip6_config =
  c6_mode :: mmipal_ip6_addr_mode
  c6_addrs :: "u8 list list"

text \<open>All address texts must parse, whatever the mode; \<open>link_local\<close> is lwIP's test, whose failure is only printed.\<close>

fun parse_ip6 :: "lwip \<Rightarrow> u8 list list \<Rightarrow> u128 list option" where
  "parse_ip6 lw [] = Some []"
| "parse_ip6 lw (t # ts) =
     (case lw_aton6 lw t of None \<Rightarrow> None
      | Some a \<Rightarrow> (case parse_ip6 lw ts of None \<Rightarrow> None | Some as \<Rightarrow> Some (a # as)))"

definition static_ip6 :: "u128 list \<Rightarrow> (u128 \<times> ip6_state) list" where
  "static_ip6 as = map (\<lambda>a. if a = 0 then (0, IP6_ADDR_INVALID) else (a, IP6_ADDR_TENTATIVE)) as"

definition mmipal_set_ip6_config :: "lwip \<Rightarrow> mmipal_ip6_config \<Rightarrow> mmipal_data \<Rightarrow> mmipal_status \<times> mmipal_data" where
  "mmipal_set_ip6_config lw c d =
     (case parse_ip6 lw (c6_addrs c) of
        None \<Rightarrow> (MMIPAL_INVALID_ARGUMENT, d)
      | Some as \<Rightarrow>
          (let n = mm_netif d;
               (n1, mode1) =
                 (if c6_mode c = MMIPAL_IP6_STATIC
                  then ((if ip6_mode d \<noteq> MMIPAL_IP6_STATIC then n\<lparr>nf_dhcp6 := False, nf_autoconfig := False\<rparr> else n)
                          \<lparr>nf_ip6 := static_ip6 as\<rparr>, MMIPAL_IP6_STATIC)
                  else ((if ip6_mode d = MMIPAL_IP6_STATIC then n\<lparr>nf_ip6 := map (\<lambda>_. (0, IP6_ADDR_INVALID)) (nf_ip6 n)\<rparr> else n)
                          \<lparr>nf_autoconfig := True, nf_linklocal := True\<rparr>, MMIPAL_IP6_AUTOCONFIG));
               (n2, mode2) =
                 (if c6_mode c = MMIPAL_IP6_DHCP6_STATELESS then (n1\<lparr>nf_dhcp6 := True\<rparr>, MMIPAL_IP6_DHCP6_STATELESS)
                  else (n1\<lparr>nf_dhcp6 := False\<rparr>, mode1))
           in (MMIPAL_SUCCESS, d\<lparr>mm_netif := n2, ip6_mode := mode2\<rparr>)))"

text \<open>The addresses that are shown: those that lwIP holds valid, else the unspecified address.\<close>

definition mmipal_get_ip6_config :: "mmipal_data \<Rightarrow> mmipal_ip6_addr_mode \<times> u128 list" where
  "mmipal_get_ip6_config d =
     (ip6_mode d, map (\<lambda>(a, st). if st = IP6_ADDR_VALID then a else 0) (nf_ip6 (mm_netif d)))"

section \<open>Name servers\<close>

definition mmipal_set_dns_server :: "lwip \<Rightarrow> nat \<Rightarrow> u8 list \<Rightarrow> mmipal_data \<Rightarrow> mmipal_status \<times> mmipal_data" where
  "mmipal_set_dns_server lw i t d =
     (if length (dns_servers d) \<le> i then (MMIPAL_INVALID_ARGUMENT, d)
      else case lw_aton lw t of
             None \<Rightarrow> (MMIPAL_INVALID_ARGUMENT, d)
           | Some a \<Rightarrow> (MMIPAL_SUCCESS, d\<lparr>dns_servers := (dns_servers d)[i := a]\<rparr>))"

text \<open>\<open>Some 0\<close> stands for the empty text that an unset server gives.\<close>

definition mmipal_get_dns_server :: "nat \<Rightarrow> mmipal_data \<Rightarrow> mmipal_status \<times> u32 option" where
  "mmipal_get_dns_server i d =
     (if length (dns_servers d) \<le> i then (MMIPAL_INVALID_ARGUMENT, None) else (MMIPAL_SUCCESS, Some (dns_servers d ! i)))"

section \<open>Runs\<close>

text \<open>
  What happens after the initialisation: the driver reports the link, lwIP's DHCP client sets an address or
  calls the callback again, the transceiver reports a lease, the application configures.
\<close>

datatype ip_event =
    Link_changed bool
  | Lwip_addr u32 u32 u32
  | Status_again
  | Lease u32 u32 u32 u32
  | Set_ip_config mmipal_ip_config
  | Set_callback bool
  | Set_ext_callback bool

fun ip_step :: "lwip \<Rightarrow> ip_event \<Rightarrow> mmipal_data \<Rightarrow> mmipal_data result" where
  "ip_step lw (Link_changed b) d = Inr (netif_status_callback (d\<lparr>mm_netif := (mm_netif d)\<lparr>nf_link_up := b\<rparr>\<rparr>))"
| "ip_step lw (Lwip_addr ip nm gw) d = Inr (netif_set_addr lw ip nm gw d)"
| "ip_step lw Status_again d = Inr (netif_status_callback d)"
| "ip_step lw (Lease ip nm gw dns) d = Inr (mmipal_dhcp_lease_updated lw ip nm gw dns d)"
| "ip_step lw (Set_ip_config c) d = rbind (mmipal_set_ip_config lw c d) (\<lambda>(st, d1). Inr d1)"
| "ip_step lw (Set_callback b) d = Inr (mmipal_set_link_status_callback b d)"
| "ip_step lw (Set_ext_callback b) d = Inr (mmipal_set_ext_link_status_callback b d)"

text \<open>What lwIP documents of its DHCP client: stopping and starting do that, and neither touches the link.\<close>

definition lwip_ok :: "lwip \<Rightarrow> bool" where
  "lwip_ok lw \<longleftrightarrow> (\<forall>n. \<not> nf_dhcp (lw_dhcp_stop lw n) \<and> nf_link_up (lw_dhcp_stop lw n) = nf_link_up n) \<and>
     (\<forall>n n1. lw_dhcp_start lw n = Some n1 \<longrightarrow> nf_dhcp n1 \<and> nf_link_up n1 = nf_link_up n)"

inductive ip_reach :: "lwip \<Rightarrow> nat \<Rightarrow> nat \<Rightarrow> mmipal_data \<Rightarrow> bool" for lw k dm where
  ip_up: "mmipal_init lw k True a (mmipal_data0 dm) = Inr (MMIPAL_SUCCESS, d) \<Longrightarrow> ip_reach lw k dm d"
| ip_event: "ip_reach lw k dm d \<Longrightarrow> ip_step lw ev d = Inr d1 \<Longrightarrow> ip_reach lw k dm d1"

section \<open>The callback\<close>

lemma report_link_fields [simp]:
  "mm_netif (report_link d) = mm_netif d" "ip_link_state (report_link d) = ip_link_state d" "ip4_mode (report_link d) = ip4_mode d"
  "link_status_callback (report_link d) = link_status_callback d" "ext_link_status_callback (report_link d) = ext_link_status_callback d"
  "dhcp_offload_init_complete (report_link d) = dhcp_offload_init_complete d"
  "offload_arp_response (report_link d) = offload_arp_response d" "offload_arp_refresh_s (report_link d) = offload_arp_refresh_s d"
  by (simp_all add: report_link_def Let_def)

lemma callback_fields [simp]:
  "mm_netif (netif_status_callback d) = mm_netif d" "ip4_mode (netif_status_callback d) = ip4_mode d"
  "link_status_callback (netif_status_callback d) = link_status_callback d"
  "ext_link_status_callback (netif_status_callback d) = ext_link_status_callback d"
  "dhcp_offload_init_complete (netif_status_callback d) = dhcp_offload_init_complete d"
  "offload_arp_response (netif_status_callback d) = offload_arp_response d"
  "offload_arp_refresh_s (netif_status_callback d) = offload_arp_refresh_s d"
  by (simp_all add: netif_status_callback_def Let_def)

lemma change_netif_fields [simp]:
  "mm_netif (change_netif lw n d) = n" "ip4_mode (change_netif lw n d) = ip4_mode d"
  "link_status_callback (change_netif lw n d) = link_status_callback d"
  "ext_link_status_callback (change_netif lw n d) = ext_link_status_callback d"
  by (simp_all add: change_netif_def Let_def)

lemma netif_set_addr_fields [simp]:
  "mm_netif (netif_set_addr lw ip nm gw d) = (mm_netif d)\<lparr>nf_ip := ip, nf_netmask := nm, nf_gw := gw\<rparr>"
  "ip4_mode (netif_set_addr lw ip nm gw d) = ip4_mode d"
  "link_status_callback (netif_set_addr lw ip nm gw d) = link_status_callback d"
  "ext_link_status_callback (netif_set_addr lw ip nm gw d) = ext_link_status_callback d"
  by (simp_all add: netif_set_addr_def)

section \<open>Address modes\<close>

definition modes_ok :: "mmipal_data \<Rightarrow> bool" where
  "modes_ok d \<longleftrightarrow> (nf_dhcp (mm_netif d) \<longleftrightarrow> ip4_mode d = MMIPAL_DHCP) \<and> ip4_mode d \<noteq> MMIPAL_DISABLED"

lemma init_success:
  assumes "mmipal_init lw k m a d0 = Inr (MMIPAL_SUCCESS, d)"
  obtains addrs ip6 where "valid_ip4_args lw a = Some addrs" "valid_ip6_args lw a = Some ip6"
    "tcpip_init_done_handler lw k a addrs ip6 (d0\<lparr>link_status_callback := False,
       offload_arp_response := ia_offload_arp_response a, offload_arp_refresh_s := ia_offload_arp_refresh_s a\<rparr>) = Inr d"
  using assms unfolding mmipal_init_def Let_def by (auto simp: rbind_eq_Inr split: if_splits option.splits)

lemma handler_result:
  assumes "tcpip_init_done_handler lw k a addrs ip6 d1 = Inr d"
  obtains n2 where "d = d1\<lparr>mm_netif := n2, ip4_mode := ia_mode a, ip6_mode := ia_ip6_mode a, tcpip_init_done := True\<rparr>"
    "\<not> nf_dhcp n2 \<and> ia_mode a \<noteq> MMIPAL_DHCP \<or> ia_mode a = MMIPAL_DHCP \<and> (\<exists>n n1. lw_dhcp_start lw n = Some n1 \<and> nf_dhcp n2 = nf_dhcp n1)"
proof -
  define n where "n = (netif_added k)"
  obtain n1 where n1: "(case ia_mode a of
             MMIPAL_DHCP \<Rightarrow> (case lw_dhcp_start lw n of None \<Rightarrow> Inl Assert_failed | Some n1 \<Rightarrow> Inr n1)
           | MMIPAL_STATIC \<Rightarrow> (case addrs of (ip, nm, gw) \<Rightarrow> Inr (n\<lparr>nf_ip := ip, nf_netmask := nm, nf_gw := gw\<rparr>))
           | _ \<Rightarrow> Inr n) = Inr n1"
    using assms unfolding tcpip_init_done_handler_def Let_def n_def by (auto simp: rbind_eq_Inr)
  define n2 where "n2 = (case ia_ip6_mode a of
                 MMIPAL_IP6_STATIC \<Rightarrow> n1\<lparr>nf_ip6 := (nf_ip6 n1)[0 := (ip6, IP6_ADDR_TENTATIVE)]\<rparr>
               | MMIPAL_IP6_AUTOCONFIG \<Rightarrow> n1\<lparr>nf_autoconfig := True, nf_linklocal := True\<rparr>
               | MMIPAL_IP6_DHCP6_STATELESS \<Rightarrow> n1\<lparr>nf_dhcp6 := True\<rparr>
               | MMIPAL_IP6_DISABLED \<Rightarrow> n1)"
  have "d = d1\<lparr>mm_netif := n2, ip4_mode := ia_mode a, ip6_mode := ia_ip6_mode a, tcpip_init_done := True\<rparr>"
    using assms n1 unfolding tcpip_init_done_handler_def Let_def n_def [symmetric] by (simp add: n2_def)
  moreover have "nf_dhcp n2 = nf_dhcp n1" unfolding n2_def by (cases "ia_ip6_mode a") simp_all
  moreover have "\<not> nf_dhcp n1 \<and> ia_mode a \<noteq> MMIPAL_DHCP \<or> ia_mode a = MMIPAL_DHCP \<and> lw_dhcp_start lw n = Some n1"
    using n1 by (cases "ia_mode a") (auto simp: n_def netif_added_def split: option.splits prod.splits)
  ultimately show ?thesis using that by blast
qed

lemma init_modes:
  assumes "lwip_ok lw" "mmipal_init lw k m a d0 = Inr (MMIPAL_SUCCESS, d)"
  shows "modes_ok d \<and> ip4_mode d = ia_mode a"
proof -
  obtain addrs ip6 where v: "valid_ip4_args lw a = Some addrs"
    "tcpip_init_done_handler lw k a addrs ip6 (d0\<lparr>link_status_callback := False,
       offload_arp_response := ia_offload_arp_response a, offload_arp_refresh_s := ia_offload_arp_refresh_s a\<rparr>) = Inr d"
    using init_success [OF assms(2)] by metis
  have "ia_mode a \<noteq> MMIPAL_DISABLED" using v(1) by (auto simp: valid_ip4_args_def)
  moreover from v(2) obtain n2 where "mm_netif d = n2" "ip4_mode d = ia_mode a"
    "\<not> nf_dhcp n2 \<and> ia_mode a \<noteq> MMIPAL_DHCP \<or> ia_mode a = MMIPAL_DHCP \<and> (\<exists>n n1. lw_dhcp_start lw n = Some n1 \<and> nf_dhcp n2 = nf_dhcp n1)"
    by (rule handler_result) simp
  ultimately show ?thesis using assms(1) unfolding modes_ok_def lwip_ok_def by metis
qed

text \<open>A configuration either is refused with nothing changed or becomes the mode of the interface.\<close>

lemma set_ip_config_cases:
  assumes "mmipal_set_ip_config lw c d = Inr (st, d1)"
  shows "(st \<noteq> MMIPAL_SUCCESS \<and> d1 = d) \<or>
    (st = MMIPAL_SUCCESS \<and> cfg_mode c \<in> {MMIPAL_STATIC, MMIPAL_DHCP} \<and> ip4_mode d \<noteq> MMIPAL_DHCP_OFFLOAD \<and> ip4_mode d1 = cfg_mode c)"
  using assms
  by (cases "cfg_mode c") (auto simp: mmipal_set_ip_config_def Let_def split: if_splits option.splits)

lemma set_ip_config_modes:
  assumes "lwip_ok lw" "modes_ok d" "mmipal_set_ip_config lw c d = Inr (st, d1)"
  shows "modes_ok d1"
  using assms
  by (cases "cfg_mode c")
    (auto simp: mmipal_set_ip_config_def modes_ok_def lwip_ok_def Let_def split: if_splits option.splits)

lemma ip_reach_modes:
  assumes "ip_reach lw k dm d" "lwip_ok lw"
  shows "modes_ok d"
  using assms(1)
proof induction
  case (ip_up a d)
  from init_modes [OF assms(2) ip_up.hyps] show ?case ..
next
  case (ip_event d ev d1)
  show ?case
  proof (cases ev)
    case (Set_ip_config c)
    with ip_event.hyps(2) obtain st where "mmipal_set_ip_config lw c d = Inr (st, d1)" by (auto simp: rbind_eq_Inr)
    from set_ip_config_modes [OF assms(2) ip_event.IH this] show ?thesis .
  qed (use ip_event.hyps(2) ip_event.IH in \<open>auto simp: modes_ok_def mmipal_dhcp_lease_updated_def mmipal_set_link_status_callback_def
      mmipal_set_ext_link_status_callback_def Let_def\<close>)
qed

text \<open>
  lwIP's DHCP client runs exactly when the mode is DHCP, in every state after the initialisation; a
  configuration is refused with nothing changed, or becomes the mode; and DHCP offload is never left.
\<close>

theorem mmipal_dhcp_follows_mode:
  assumes "ip_reach lw k dm d" and "lwip_ok lw"
  shows "(nf_dhcp (mm_netif d) \<longleftrightarrow> ip4_mode d = MMIPAL_DHCP) \<and>
    (\<forall>c st d1. mmipal_set_ip_config lw c d = Inr (st, d1) \<longrightarrow>
       (st \<noteq> MMIPAL_SUCCESS \<and> d1 = d) \<or>
       (st = MMIPAL_SUCCESS \<and> cfg_mode c \<in> {MMIPAL_STATIC, MMIPAL_DHCP} \<and> ip4_mode d \<noteq> MMIPAL_DHCP_OFFLOAD \<and>
        ip4_mode d1 = cfg_mode c))"
  using ip_reach_modes [OF assms] set_ip_config_cases by (simp add: modes_ok_def)

text \<open>A parameter for the witnesses: addresses parse to their length, every change is notified, DHCP starts.\<close>

definition plain_lwip :: lwip where
  "plain_lwip = \<lparr>lw_aton = (\<lambda>t. if t = [] then None else Some (of_nat (length t))),
     lw_aton6 = (\<lambda>t. if t = [] then None else Some (of_nat (length t))), lw_notifies = (\<lambda>n n1. n \<noteq> n1),
     lw_dhcp_stop = (\<lambda>n. n\<lparr>nf_dhcp := False\<rparr>), lw_dhcp_start = (\<lambda>n. Some (n\<lparr>nf_dhcp := True\<rparr>))\<rparr>"

lemma plain_lwip_ok: "lwip_ok plain_lwip"
  by (auto simp: lwip_ok_def plain_lwip_def)

definition dhcp_args :: mmipal_init_args where
  "dhcp_args = \<lparr>ia_mode = MMIPAL_DHCP, ia_ip_addr = [], ia_netmask = [], ia_gateway_addr = [], ia_ip6_mode = MMIPAL_IP6_DISABLED,
     ia_ip6_addr = [], ia_offload_arp_response = True, ia_offload_arp_refresh_s = 60\<rparr>"

definition dhcp_up :: mmipal_data where
  "dhcp_up = (mmipal_data0 3)\<lparr>offload_arp_response := True, offload_arp_refresh_s := 60,
     mm_netif := (netif_added 3)\<lparr>nf_dhcp := True\<rparr>, ip4_mode := MMIPAL_DHCP, tcpip_init_done := True\<rparr>"

lemma dhcp_up_reach: "ip_reach plain_lwip 3 3 dhcp_up"
proof (rule ip_up)
  show "mmipal_init plain_lwip 3 True dhcp_args (mmipal_data0 3) = Inr (MMIPAL_SUCCESS, dhcp_up)"
    by (simp add: mmipal_init_def dhcp_args_def valid_ip4_args_def valid_ip6_args_def tcpip_init_done_handler_def plain_lwip_def
      dhcp_up_def mmipal_data0_def netif_added_def Let_def)
qed

lemma mmipal_dhcp_follows_mode_witness: "nf_dhcp (mm_netif dhcp_up) \<and> ip4_mode dhcp_up = MMIPAL_DHCP"
  using mmipal_dhcp_follows_mode [OF dhcp_up_reach plain_lwip_ok] by (simp add: dhcp_up_def)

section \<open>Notifications\<close>

fun ip_run :: "lwip \<Rightarrow> ip_event list \<Rightarrow> mmipal_data \<Rightarrow> mmipal_data result" where
  "ip_run lw [] d = Inr d"
| "ip_run lw (e # es) d = rbind (ip_step lw e d) (ip_run lw es)"

fun registers :: "ip_event \<Rightarrow> bool" where
  "registers (Set_callback b) \<longleftrightarrow> True"
| "registers (Set_ext_callback b) \<longleftrightarrow> True"
| "registers _ \<longleftrightarrow> False"

text \<open>Up and down in turn, beginning with up, each up with an address.\<close>

definition in_turn :: "mmipal_link_status list \<Rightarrow> bool" where
  "in_turn xs \<longleftrightarrow> (\<forall>i < length xs. ls_state (xs ! i) = (if even i then MMIPAL_LINK_UP else MMIPAL_LINK_DOWN)) \<and>
     (\<forall>x \<in> set xs. ls_state x = MMIPAL_LINK_UP \<longrightarrow> ls_ip x \<noteq> 0)"

definition monitor_ok :: "mmipal_data \<Rightarrow> bool" where
  "monitor_ok d \<longleftrightarrow> link_status_callback d \<and> \<not> ext_link_status_callback d \<and> in_turn (notified d) \<and>
     (ip_link_state d = MMIPAL_LINK_UP \<longleftrightarrow> odd (length (notified d)))"

lemma in_turn_snoc:
  "in_turn xs \<Longrightarrow> ls_state x = (if even (length xs) then MMIPAL_LINK_UP else MMIPAL_LINK_DOWN) \<Longrightarrow>
   (ls_state x = MMIPAL_LINK_UP \<longrightarrow> ls_ip x \<noteq> 0) \<Longrightarrow> in_turn (xs @ [x])"
  by (auto simp: in_turn_def nth_append less_Suc_eq)

text \<open>The callback in one view: the state and the notification follow the check.\<close>

lemma callback_state:
  assumes "ip4_mode d \<noteq> MMIPAL_DHCP_OFFLOAD \<or> dhcp_offload_init_complete d"
  shows "ip_link_state (netif_status_callback d) =
    (if mmipal_link_status_check (mm_netif d) then MMIPAL_LINK_UP else MMIPAL_LINK_DOWN)"
  using assms by (auto simp: netif_status_callback_def Let_def)

lemma callback_notified:
  assumes "link_status_callback d" "\<not> ext_link_status_callback d"
  shows "notified (netif_status_callback d) = notified d @
    (if ip_link_state (netif_status_callback d) = ip_link_state d then []
     else [\<lparr>ls_state = ip_link_state (netif_status_callback d), ls_ip = nf_ip (mm_netif d),
            ls_netmask = nf_netmask (mm_netif d), ls_gateway = nf_gw (mm_netif d)\<rparr>])"
  using assms by (auto simp: netif_status_callback_def report_link_def Let_def)

lemma callback_up:
  "ip_link_state (netif_status_callback d) \<noteq> ip_link_state d \<Longrightarrow>
   (ip_link_state (netif_status_callback d) = MMIPAL_LINK_UP \<longleftrightarrow> mmipal_link_status_check (mm_netif d))"
  by (auto simp: netif_status_callback_def Let_def split: if_splits)

lemma callback_monitor:
  assumes "monitor_ok d"
  shows "monitor_ok (netif_status_callback d)"
proof -
  let ?d = "netif_status_callback d"
  have cb: "link_status_callback d" "\<not> ext_link_status_callback d" and t: "in_turn (notified d)"
    and par: "ip_link_state d = MMIPAL_LINK_UP \<longleftrightarrow> odd (length (notified d))"
    using assms by (simp_all add: monitor_ok_def)
  show ?thesis
  proof (cases "ip_link_state ?d = ip_link_state d")
    case True
    with callback_notified [OF cb] cb t par show ?thesis by (simp add: monitor_ok_def)
  next
    case False
    define x where "x = \<lparr>ls_state = ip_link_state ?d, ls_ip = nf_ip (mm_netif d), ls_netmask = nf_netmask (mm_netif d), ls_gateway = nf_gw (mm_netif d)\<rparr>"
    have n: "notified ?d = notified d @ [x]" using callback_notified [OF cb] False by (simp add: x_def)
    have flip: "ip_link_state ?d = MMIPAL_LINK_UP \<longleftrightarrow> even (length (notified d))"
      using False par by (metis mmipal_link_state.exhaust)
    have "ls_state x = (if even (length (notified d)) then MMIPAL_LINK_UP else MMIPAL_LINK_DOWN)"
      using flip by (auto simp: x_def intro: mmipal_link_state.exhaust)
    moreover have "ls_state x = MMIPAL_LINK_UP \<longrightarrow> ls_ip x \<noteq> 0"
      using callback_up [OF False] by (auto simp: x_def mmipal_link_status_check_def)
    ultimately have "in_turn (notified ?d)" unfolding n by (intro in_turn_snoc [OF t])
    with cb flip n show ?thesis by (simp add: monitor_ok_def)
  qed
qed

lemma monitor_same:
  assumes "monitor_ok d" "link_status_callback d1 = link_status_callback d" "ext_link_status_callback d1 = ext_link_status_callback d"
    "notified d1 = notified d" "ip_link_state d1 = ip_link_state d"
  shows "monitor_ok d1"
  using assms by (simp add: monitor_ok_def)

lemma change_netif_monitor: "monitor_ok d \<Longrightarrow> monitor_ok (change_netif lw n d)"
  by (simp add: change_netif_def Let_def callback_monitor monitor_same [of d])

lemma set_addr_monitor: "monitor_ok d \<Longrightarrow> monitor_ok (netif_set_addr lw ip nm gw d)"
  by (simp add: netif_set_addr_def change_netif_monitor)

lemma set_ip_config_monitor:
  assumes "monitor_ok d" "mmipal_set_ip_config lw c d = Inr (st, d1)"
  shows "monitor_ok d1"
proof (cases "st = MMIPAL_SUCCESS")
  case False
  with set_ip_config_cases [OF assms(2)] assms(1) show ?thesis by simp
next
  case True
  define da where "da = (if cfg_mode c \<noteq> MMIPAL_DHCP \<and> ip4_mode d = MMIPAL_DHCP
    then change_netif lw (lw_dhcp_stop lw (mm_netif d)) d else d)"
  have "monitor_ok da" using assms(1) by (simp add: da_def change_netif_monitor)
  then have db: "monitor_ok (netif_set_addr lw ip nm gw (da\<lparr>ip4_mode := m\<rparr>))" for ip nm gw m
    by (intro set_addr_monitor) (simp add: monitor_same [of da])
  show ?thesis
    using assms(2) True unfolding mmipal_set_ip_config_def Let_def da_def [symmetric]
    by (auto simp: db db [THEN change_netif_monitor] split: if_splits option.splits)
qed

lemma ip_step_monitor:
  assumes "monitor_ok d" "ip_step lw e d = Inr d1" "\<not> registers e"
  shows "monitor_ok d1"
proof (cases e)
  case (Set_ip_config c)
  with assms(2) obtain st where "mmipal_set_ip_config lw c d = Inr (st, d1)" by (auto simp: rbind_eq_Inr)
  from set_ip_config_monitor [OF assms(1) this] show ?thesis .
next
  case (Lease ip nm gw dns)
  have "monitor_ok (netif_set_addr lw ip nm gw (d\<lparr>dhcp_offload_init_complete := True\<rparr>))"
    by (intro set_addr_monitor) (simp add: monitor_same [OF assms(1)])
  from callback_monitor [OF monitor_same [OF this]] Lease assms(2) show ?thesis
    by (auto simp: mmipal_dhcp_lease_updated_def Let_def)
qed (use assms in \<open>auto simp: set_addr_monitor callback_monitor monitor_same [OF assms(1)]\<close>)

lemma ip_run_monitor:
  "monitor_ok d \<Longrightarrow> ip_run lw es d = Inr d1 \<Longrightarrow> \<forall>e \<in> set es. \<not> registers e \<Longrightarrow> monitor_ok d1"
proof (induction es arbitrary: d)
  case (Cons e es)
  then obtain d2 where d2: "ip_step lw e d = Inr d2" "ip_run lw es d2 = Inr d1" by (auto simp: rbind_eq_Inr)
  from Cons.prems(3) have "\<not> registers e" by simp
  from ip_step_monitor [OF Cons.prems(1) d2(1) this] d2(2) Cons show ?case by simp
qed simp

text \<open>
  C32: With a callback registered after the initialisation, the application is told of the link in turn, up
  first, and of every up with an address, whatever lwIP, the driver, the transceiver and the configuration
  do; the recorded state is that of the last notification, and after every callback it is up exactly when
  the interface has an address and a link (with DHCP offload, from the first lease on).
\<close>

theorem mmipal_link_notifications:
  assumes "mmipal_init lw k True a (mmipal_data0 dm) = Inr (MMIPAL_SUCCESS, d0)"
    and "ip_run lw es (mmipal_set_link_status_callback True d0) = Inr d" and "\<forall>e \<in> set es. \<not> registers e"
  shows "in_turn (notified d) \<and>
    (mmipal_get_link_state d = MMIPAL_LINK_UP \<longleftrightarrow> notified d \<noteq> [] \<and> ls_state (List.last (notified d)) = MMIPAL_LINK_UP) \<and>
    (ip4_mode d \<noteq> MMIPAL_DHCP_OFFLOAD \<or> dhcp_offload_init_complete d \<longrightarrow>
       (mmipal_get_link_state (netif_status_callback d) = MMIPAL_LINK_UP \<longleftrightarrow> nf_ip (mm_netif d) \<noteq> 0 \<and> nf_link_up (mm_netif d)))"
proof -
  obtain addrs ip6 where h: "tcpip_init_done_handler lw k a addrs ip6 ((mmipal_data0 dm)\<lparr>link_status_callback := False,
       offload_arp_response := ia_offload_arp_response a, offload_arp_refresh_s := ia_offload_arp_refresh_s a\<rparr>) = Inr d0"
    using init_success [OF assms(1)] by metis
  then have "monitor_ok (mmipal_set_link_status_callback True d0)"
    by (rule handler_result) (simp add: monitor_ok_def mmipal_set_link_status_callback_def in_turn_def mmipal_data0_def)
  from ip_run_monitor [OF this assms(2,3)] have m: "in_turn (notified d)" "ip_link_state d = MMIPAL_LINK_UP \<longleftrightarrow> odd (length (notified d))"
    by (simp_all add: monitor_ok_def)
  have "notified d \<noteq> [] \<Longrightarrow> ls_state (List.last (notified d)) = (if odd (length (notified d)) then MMIPAL_LINK_UP else MMIPAL_LINK_DOWN)"
    using m(1) by (simp add: in_turn_def last_conv_nth)
  with m have "mmipal_get_link_state d = MMIPAL_LINK_UP \<longleftrightarrow> notified d \<noteq> [] \<and> ls_state (List.last (notified d)) = MMIPAL_LINK_UP"
    by (cases "notified d = []") (auto simp: mmipal_get_link_state_def)
  with m(1) callback_state [of d] show ?thesis by (auto simp: mmipal_get_link_state_def mmipal_link_status_check_def)
qed

lemma mmipal_link_notifications_witness:
  "\<exists>d. ip_run plain_lwip [Link_changed True, Lwip_addr 5 6 7, Link_changed False] (mmipal_set_link_status_callback True dhcp_up) = Inr d \<and>
     map ls_state (notified d) = [MMIPAL_LINK_UP, MMIPAL_LINK_DOWN] \<and> in_turn (notified d)"
proof -
  have i: "mmipal_init plain_lwip 3 True dhcp_args (mmipal_data0 3) = Inr (MMIPAL_SUCCESS, dhcp_up)"
    by (simp add: mmipal_init_def dhcp_args_def valid_ip4_args_def valid_ip6_args_def tcpip_init_done_handler_def plain_lwip_def
      dhcp_up_def mmipal_data0_def netif_added_def Let_def)
  obtain d where d: "ip_run plain_lwip [Link_changed True, Lwip_addr 5 6 7, Link_changed False] (mmipal_set_link_status_callback True dhcp_up) = Inr d"
    "map ls_state (notified d) = [MMIPAL_LINK_UP, MMIPAL_LINK_DOWN]"
    by (simp add: netif_status_callback_def netif_set_addr_def change_netif_def report_link_def plain_lwip_def dhcp_up_def
      mmipal_set_link_status_callback_def mmipal_data0_def netif_added_def mmipal_link_status_check_def Let_def)
  from mmipal_link_notifications [OF i d(1)] d show ?thesis by simp
qed

section \<open>ARP offload\<close>

text \<open>No callback, no offload.\<close>

definition silent :: "mmipal_data \<Rightarrow> bool" where
  "silent d \<longleftrightarrow> \<not> link_status_callback d \<and> \<not> ext_link_status_callback d \<and> arp_response d = None \<and> arp_refresh d = None"

lemma callback_silent: "silent d \<Longrightarrow> silent (netif_status_callback d)"
  by (simp add: silent_def netif_status_callback_def Let_def)

lemma silent_same:
  assumes "silent d" "link_status_callback d1 = link_status_callback d" "ext_link_status_callback d1 = ext_link_status_callback d"
    "arp_response d1 = arp_response d" "arp_refresh d1 = arp_refresh d"
  shows "silent d1"
  using assms by (simp add: silent_def)

lemma change_netif_silent: "silent d \<Longrightarrow> silent (change_netif lw n d)"
  by (simp add: change_netif_def Let_def callback_silent silent_same [of d])

lemma set_addr_silent: "silent d \<Longrightarrow> silent (netif_set_addr lw ip nm gw d)"
  by (simp add: netif_set_addr_def change_netif_silent)

lemma set_ip_config_silent:
  assumes "silent d" "mmipal_set_ip_config lw c d = Inr (st, d1)"
  shows "silent d1"
proof -
  define da where "da = (if cfg_mode c \<noteq> MMIPAL_DHCP \<and> ip4_mode d = MMIPAL_DHCP
    then change_netif lw (lw_dhcp_stop lw (mm_netif d)) d else d)"
  have "silent da" using assms(1) by (simp add: da_def change_netif_silent)
  then have db: "silent (netif_set_addr lw ip nm gw (da\<lparr>ip4_mode := m\<rparr>))" for ip nm gw m
    by (intro set_addr_silent) (simp add: silent_same [of da])
  show ?thesis
    using assms unfolding mmipal_set_ip_config_def Let_def da_def [symmetric]
    by (auto simp: db db [THEN change_netif_silent] split: if_splits option.splits)
qed

lemma ip_step_silent:
  assumes "silent d" "ip_step lw e d = Inr d1" "\<not> registers e"
  shows "silent d1"
proof (cases e)
  case (Set_ip_config c)
  with assms(2) obtain st where "mmipal_set_ip_config lw c d = Inr (st, d1)" by (auto simp: rbind_eq_Inr)
  from set_ip_config_silent [OF assms(1) this] show ?thesis .
next
  case (Lease ip nm gw dns)
  have "silent (netif_set_addr lw ip nm gw (d\<lparr>dhcp_offload_init_complete := True\<rparr>))"
    by (intro set_addr_silent) (simp add: silent_same [OF assms(1)])
  from callback_silent [OF silent_same [OF this]] Lease assms(2) show ?thesis
    by (auto simp: mmipal_dhcp_lease_updated_def Let_def)
qed (use assms in \<open>auto simp: set_addr_silent callback_silent silent_same [OF assms(1)]\<close>)

lemma ip_run_silent:
  "silent d \<Longrightarrow> ip_run lw es d = Inr d1 \<Longrightarrow> \<forall>e \<in> set es. \<not> registers e \<Longrightarrow> silent d1"
proof (induction es arbitrary: d)
  case (Cons e es)
  then obtain d2 where d2: "ip_step lw e d = Inr d2" "ip_run lw es d2 = Inr d1" by (auto simp: rbind_eq_Inr)
  from Cons.prems(3) have "\<not> registers e" by simp
  from ip_step_silent [OF Cons.prems(1) d2(1) this] d2(2) Cons show ?case by simp
qed simp

text \<open>
  The ARP offload that the arguments ask for is never switched on in an application that registers no
  link callback, as this firmware; and an address that lwIP changes while the link stays up is not passed
  on: the transceiver keeps answering for the old one.
\<close>

theorem mmipal_arp_offload_missed:
  assumes "mmipal_init lw k True a (mmipal_data0 dm) = Inr (MMIPAL_SUCCESS, d0)"
    and "ip_run lw es d0 = Inr d" and "\<forall>e \<in> set es. \<not> registers e"
  shows "arp_response d = None \<and> arp_refresh d = None \<and>
    (\<forall>d2 ip nm gw. ip_link_state d2 = MMIPAL_LINK_UP \<and> nf_link_up (mm_netif d2) \<and> ip \<noteq> 0 \<longrightarrow>
       nf_ip (mm_netif (netif_set_addr lw ip nm gw d2)) = ip \<and> arp_response (netif_set_addr lw ip nm gw d2) = arp_response d2)"
proof -
  obtain addrs ip6 where h: "tcpip_init_done_handler lw k a addrs ip6 ((mmipal_data0 dm)\<lparr>link_status_callback := False,
       offload_arp_response := ia_offload_arp_response a, offload_arp_refresh_s := ia_offload_arp_refresh_s a\<rparr>) = Inr d0"
    using init_success [OF assms(1)] by metis
  then have "silent d0" by (rule handler_result) (simp add: silent_def mmipal_data0_def)
  from ip_run_silent [OF this assms(2,3)] have "arp_response d = None \<and> arp_refresh d = None" by (simp add: silent_def)
  moreover have "arp_response (netif_set_addr lw ip nm gw d2) = arp_response d2"
    if "ip_link_state d2 = MMIPAL_LINK_UP" "nf_link_up (mm_netif d2)" "ip \<noteq> 0" for d2 ip nm gw
    using that by (simp add: netif_set_addr_def change_netif_def netif_status_callback_def mmipal_link_status_check_def Let_def)
  ultimately show ?thesis by simp
qed

lemma mmipal_arp_offload_missed_witness:
  "\<exists>d. ip_run plain_lwip [Link_changed True, Lwip_addr 5 6 7] dhcp_up = Inr d \<and> offload_arp_response d \<and>
     ip_link_state d = MMIPAL_LINK_UP \<and> arp_response d = None"
proof -
  have i: "mmipal_init plain_lwip 3 True dhcp_args (mmipal_data0 3) = Inr (MMIPAL_SUCCESS, dhcp_up)"
    by (simp add: mmipal_init_def dhcp_args_def valid_ip4_args_def valid_ip6_args_def tcpip_init_done_handler_def plain_lwip_def
      dhcp_up_def mmipal_data0_def netif_added_def Let_def)
  obtain d where d: "ip_run plain_lwip [Link_changed True, Lwip_addr 5 6 7] dhcp_up = Inr d" "offload_arp_response d"
    "ip_link_state d = MMIPAL_LINK_UP"
    by (simp add: netif_status_callback_def netif_set_addr_def change_netif_def report_link_def plain_lwip_def dhcp_up_def
      mmipal_data0_def netif_added_def mmipal_link_status_check_def Let_def)
  from mmipal_arp_offload_missed [OF i d(1)] d show ?thesis by simp
qed

section \<open>IPv6 modes\<close>

lemma parse_ip6_all: "parse_ip6 lw ts = Some as \<longleftrightarrow> map (lw_aton6 lw) ts = map Some as"
proof (induction ts arbitrary: as)
  case (Cons t ts)
  show ?case by (cases as) (auto simp flip: Cons.IH split: option.splits)
qed auto

lemma parse_ip6_none: "parse_ip6 lw ts = None \<longleftrightarrow> (\<exists>t \<in> set ts. lw_aton6 lw t = None)"
  by (induction ts) (auto split: option.splits)

text \<open>
  An IPv6 configuration is refused, with nothing changed, exactly when one of its texts does not parse,
  in every mode; static addresses are set as given and lwIP's two automatic mechanisms are off; DHCPv6 runs
  exactly in its mode. But the request to disable IPv6 succeeds and switches autoconfiguration on.
\<close>

theorem mmipal_ip6_modes:
  shows "case mmipal_set_ip6_config lw c d of (st, d1) \<Rightarrow>
    (st = MMIPAL_INVALID_ARGUMENT \<and> d1 = d \<and> (\<exists>t \<in> set (c6_addrs c). lw_aton6 lw t = None)) \<or>
    (st = MMIPAL_SUCCESS \<and>
     (\<exists>as. map (lw_aton6 lw) (c6_addrs c) = map Some as \<and>
        (c6_mode c = MMIPAL_IP6_STATIC \<longrightarrow> ip6_mode d1 = MMIPAL_IP6_STATIC \<and> nf_ip6 (mm_netif d1) = static_ip6 as \<and>
           (ip6_mode d \<noteq> MMIPAL_IP6_STATIC \<longrightarrow> \<not> nf_autoconfig (mm_netif d1)))) \<and>
     (nf_dhcp6 (mm_netif d1) \<longleftrightarrow> c6_mode c = MMIPAL_IP6_DHCP6_STATELESS) \<and>
     (c6_mode c \<in> {MMIPAL_IP6_DISABLED, MMIPAL_IP6_AUTOCONFIG} \<longrightarrow>
        ip6_mode d1 = MMIPAL_IP6_AUTOCONFIG \<and> nf_autoconfig (mm_netif d1) \<and> nf_linklocal (mm_netif d1)))"
proof (cases "parse_ip6 lw (c6_addrs c)")
  case None
  with parse_ip6_none [of lw "c6_addrs c"] show ?thesis by (simp add: mmipal_set_ip6_config_def)
next
  case (Some as)
  with parse_ip6_all [of lw "c6_addrs c" as] show ?thesis
    by (cases "c6_mode c") (auto simp: mmipal_set_ip6_config_def Let_def)
qed

lemma mmipal_ip6_modes_witness:
  "\<exists>d1. mmipal_set_ip6_config plain_lwip \<lparr>c6_mode = MMIPAL_IP6_DISABLED, c6_addrs = replicate 3 [58, 58]\<rparr> dhcp_up = (MMIPAL_SUCCESS, d1) \<and>
     ip6_mode d1 = MMIPAL_IP6_AUTOCONFIG \<and> nf_autoconfig (mm_netif d1)"
proof -
  let ?c = "\<lparr>c6_mode = MMIPAL_IP6_DISABLED, c6_addrs = replicate 3 [58, 58 :: u8]\<rparr>"
  obtain st d1 where r: "mmipal_set_ip6_config plain_lwip ?c dhcp_up = (st, d1)" by (rule prod.exhaust)
  have "\<forall>t \<in> set (c6_addrs ?c). lw_aton6 plain_lwip t \<noteq> None" by (simp add: plain_lwip_def)
  with mmipal_ip6_modes [where lw = plain_lwip and c = ?c and d = dhcp_up] r show ?thesis by auto
qed

end
