(* ===== verification/Crypto_Hash.thy ===== *)
theory Crypto_Hash
  imports Mmhal
begin

text \<open>
  The keyed hashes of crypto_mbedtls_mm.c, from which the keys of a WPA2 or WPA3 association are
  derived: the HMAC and SHA vectors, the two pseudo-random functions (\<open>hmac_prf_bits\<close>, the key
  derivation function of IEEE 802.11, and \<open>sha1_prf\<close>), PBKDF2, AES and CMAC, and the life of the
  random generator. The Mbed TLS contexts and functions are parameters, with their documented
  behaviour as hypotheses.
\<close>

type_synonym bytes = "u8 list"

section \<open>The library\<close>

datatype mbedtls_md_type_t = MBEDTLS_MD_SHA1 | MBEDTLS_MD_SHA256 | MBEDTLS_MD_SHA384 | MBEDTLS_MD_SHA512

text \<open>
  A digest context is a value of \<open>'c\<close>; \<open>'w\<close> is the heap and everything else a call may change.
  \<open>md_setup\<close> stands for \<open>mbedtls_md_init\<close>, \<open>mbedtls_md_info_from_type\<close> and \<open>mbedtls_md_setup\<close>,
  and \<open>sha_starts\<close> for the \<open>init\<close> and \<open>starts\<close> calls of the plain hashes, whose
  contexts are on the stack.
\<close>

record ('c, 'w) md_lib =
  md_setup :: "mbedtls_md_type_t \<Rightarrow> 'w \<Rightarrow> 'c option \<times> 'w"
  md_free :: "'c \<Rightarrow> 'w \<Rightarrow> 'w"
  md_get_size :: "mbedtls_md_type_t \<Rightarrow> u32"
  md_hmac_starts :: "'c \<Rightarrow> bytes \<Rightarrow> 'c"
  md_hmac_update :: "'c \<Rightarrow> bytes \<Rightarrow> 'c"
  md_hmac_finish :: "'c \<Rightarrow> bytes \<times> 'c"
  md_hmac_reset :: "'c \<Rightarrow> 'c"
  sha_starts :: "mbedtls_md_type_t \<Rightarrow> 'c"
  sha_update :: "'c \<Rightarrow> bytes \<Rightarrow> 'c"
  sha_finish :: "'c \<Rightarrow> bytes"

text \<open>
  What the library documents: a context holds the type, the key and the bytes fed so far (\<open>view\<close>);
  finishing gives the HMAC of these bytes, and a reset starts anew with the same key. The plain
  hashes are the hash of what was fed (\<open>fed\<close>).
\<close>

definition md_ok ::
  "('c, 'w) md_lib \<Rightarrow> (mbedtls_md_type_t \<Rightarrow> bytes \<Rightarrow> bytes \<Rightarrow> bytes) \<Rightarrow> ('c \<Rightarrow> mbedtls_md_type_t \<times> bytes \<times> bytes) \<Rightarrow> bool" where
  "md_ok lib hmac view \<longleftrightarrow>
     (\<forall>t w c w'. md_setup lib t w = (Some c, w') \<longrightarrow> fst (view c) = t) \<and>
     (\<forall>c k. view (md_hmac_starts lib c k) = (fst (view c), k, [])) \<and>
     (\<forall>c x. view (md_hmac_update lib c x) = (fst (view c), fst (snd (view c)), snd (snd (view c)) @ x)) \<and>
     (\<forall>c. fst (md_hmac_finish lib c) = hmac (fst (view c)) (fst (snd (view c))) (snd (snd (view c)))) \<and>
     (\<forall>c. view (md_hmac_reset lib (snd (md_hmac_finish lib c))) = (fst (view c), fst (snd (view c)), [])) \<and>
     (\<forall>t k m. length (hmac t k m) = unat (md_get_size lib t)) \<and>
     (\<forall>t. 0 < unat (md_get_size lib t)) \<and> unat (md_get_size lib MBEDTLS_MD_SHA1) = 20"

definition sha_ok ::
  "('c, 'w) md_lib \<Rightarrow> (mbedtls_md_type_t \<Rightarrow> bytes \<Rightarrow> bytes) \<Rightarrow> ('c \<Rightarrow> mbedtls_md_type_t \<times> bytes) \<Rightarrow> bool" where
  "sha_ok lib hash fed \<longleftrightarrow>
     (\<forall>t. fed (sha_starts lib t) = (t, [])) \<and>
     (\<forall>c x. fed (sha_update lib c x) = (fst (fed c), snd (fed c) @ x)) \<and>
     (\<forall>c. sha_finish lib c = hash (fst (fed c)) (snd (fed c)))"

section \<open>Vectors\<close>

text \<open>A vector of \<open>num_elem\<close> addresses and lengths is the list of the byte strings they name.\<close>

definition sha384_512_vector :: "('c, 'w) md_lib \<Rightarrow> bytes list \<Rightarrow> bool \<Rightarrow> int \<times> bytes" where
  "sha384_512_vector lib elems is384 =
     (let ctx = sha_starts lib (if is384 then MBEDTLS_MD_SHA384 else MBEDTLS_MD_SHA512);
          ctx = fold (\<lambda>x c. sha_update lib c x) elems ctx
      in (0, sha_finish lib ctx))"

definition sha512_vector :: "('c, 'w) md_lib \<Rightarrow> bytes list \<Rightarrow> int \<times> bytes" where
  "sha512_vector lib elems = sha384_512_vector lib elems False"

definition sha384_vector :: "('c, 'w) md_lib \<Rightarrow> bytes list \<Rightarrow> int \<times> bytes" where
  "sha384_vector lib elems = sha384_512_vector lib elems True"

definition sha256_vector :: "('c, 'w) md_lib \<Rightarrow> bytes list \<Rightarrow> int \<times> bytes" where
  "sha256_vector lib elems =
     (let ctx = sha_starts lib MBEDTLS_MD_SHA256;
          ctx = fold (\<lambda>x c. sha_update lib c x) elems ctx
      in (0, sha_finish lib ctx))"

definition sha1_vector :: "('c, 'w) md_lib \<Rightarrow> bytes list \<Rightarrow> int \<times> bytes" where
  "sha1_vector lib elems =
     (let ctx = sha_starts lib MBEDTLS_MD_SHA1;
          ctx = fold (\<lambda>x c. sha_update lib c x) elems ctx
      in (0, sha_finish lib ctx))"

text \<open>The result is the return code, the bytes written from \<open>mac\<close> on, and the world.\<close>

definition hmac_vector ::
  "('c, 'w) md_lib \<Rightarrow> bytes \<Rightarrow> bytes list \<Rightarrow> mbedtls_md_type_t \<Rightarrow> 'w \<Rightarrow> int \<times> bytes \<times> 'w" where
  "hmac_vector lib key elems md_type w =
     (case md_setup lib md_type w of
        (None, w) \<Rightarrow> (- 1, [], w)
      | (Some ctx, w) \<Rightarrow>
          let ctx = md_hmac_starts lib ctx key;
              ctx = fold (\<lambda>x c. md_hmac_update lib c x) elems ctx;
              (mac, ctx) = md_hmac_finish lib ctx
          in (0, mac, md_free lib ctx w))"

definition hmac_sha512_vector :: "('c, 'w) md_lib \<Rightarrow> bytes \<Rightarrow> bytes list \<Rightarrow> 'w \<Rightarrow> int \<times> bytes \<times> 'w" where
  "hmac_sha512_vector lib key elems w = hmac_vector lib key elems MBEDTLS_MD_SHA512 w"

definition hmac_sha512 :: "('c, 'w) md_lib \<Rightarrow> bytes \<Rightarrow> bytes \<Rightarrow> 'w \<Rightarrow> int \<times> bytes \<times> 'w" where
  "hmac_sha512 lib key data w = hmac_vector lib key [data] MBEDTLS_MD_SHA512 w"

definition hmac_sha384_vector :: "('c, 'w) md_lib \<Rightarrow> bytes \<Rightarrow> bytes list \<Rightarrow> 'w \<Rightarrow> int \<times> bytes \<times> 'w" where
  "hmac_sha384_vector lib key elems w = hmac_vector lib key elems MBEDTLS_MD_SHA384 w"

definition hmac_sha384 :: "('c, 'w) md_lib \<Rightarrow> bytes \<Rightarrow> bytes \<Rightarrow> 'w \<Rightarrow> int \<times> bytes \<times> 'w" where
  "hmac_sha384 lib key data w = hmac_vector lib key [data] MBEDTLS_MD_SHA384 w"

definition hmac_sha256_vector :: "('c, 'w) md_lib \<Rightarrow> bytes \<Rightarrow> bytes list \<Rightarrow> 'w \<Rightarrow> int \<times> bytes \<times> 'w" where
  "hmac_sha256_vector lib key elems w = hmac_vector lib key elems MBEDTLS_MD_SHA256 w"

definition hmac_sha256 :: "('c, 'w) md_lib \<Rightarrow> bytes \<Rightarrow> bytes \<Rightarrow> 'w \<Rightarrow> int \<times> bytes \<times> 'w" where
  "hmac_sha256 lib key data w = hmac_vector lib key [data] MBEDTLS_MD_SHA256 w"

definition hmac_sha1_vector :: "('c, 'w) md_lib \<Rightarrow> bytes \<Rightarrow> bytes list \<Rightarrow> 'w \<Rightarrow> int \<times> bytes \<times> 'w" where
  "hmac_sha1_vector lib key elems w = hmac_vector lib key elems MBEDTLS_MD_SHA1 w"

definition hmac_sha1 :: "('c, 'w) md_lib \<Rightarrow> bytes \<Rightarrow> bytes \<Rightarrow> 'w \<Rightarrow> int \<times> bytes \<times> 'w" where
  "hmac_sha1 lib key data w = hmac_vector lib key [data] MBEDTLS_MD_SHA1 w"

definition hmac_md5 :: "bytes \<Rightarrow> bytes \<Rightarrow> int" where
  "hmac_md5 key data = - 1"

section \<open>The key derivation function\<close>

text \<open>\<open>htole16\<close> on the little-endian target, seen through a byte pointer.\<close>

definition u16_le :: "u16 \<Rightarrow> bytes" where
  "u16_le x = [ucast x, ucast (drop_bit 8 x)]"

text \<open>
  \<open>addr\<close> points at \<open>ctr\<close>, so every round reads the counter's present value. One round feeds the
  four fields and finishes.
\<close>

definition prf_fields :: "bytes \<Rightarrow> bytes \<Rightarrow> u16 \<Rightarrow> u16 \<Rightarrow> bytes list" where
  "prf_fields label data n_le ctr = [u16_le ctr, c_string label, data, u16_le n_le]"

definition prf_round :: "('c, 'w) md_lib \<Rightarrow> bytes list \<Rightarrow> 'c \<Rightarrow> bytes \<times> 'c" where
  "prf_round lib elems ctx = md_hmac_finish lib (fold (\<lambda>x c. md_hmac_update lib c x) elems ctx)"

text \<open>
  The loop over whole digests. It ends only because digests are not empty, so that is proved and
  not built in.
\<close>

partial_function (option) prf_loop ::
  "('c, 'w) md_lib \<Rightarrow> (u16 \<Rightarrow> bytes list) \<Rightarrow> u32 \<Rightarrow> u16 \<Rightarrow> u32 \<Rightarrow> 'c \<Rightarrow> bytes \<Rightarrow> (u16 \<times> u32 \<times> 'c \<times> bytes) option" where
  "prf_loop lib addr mac_len ctr buf_len ctx buf =
     (if mac_len \<le> buf_len
      then prf_loop lib addr mac_len (ctr + 1) (buf_len - mac_len)
             (md_hmac_reset lib (snd (prf_round lib (addr ctr) ctx)))
             (buf @ fst (prf_round lib (addr ctr) ctx))
      else Some (ctr, buf_len, ctx, buf))"

definition prf_mask :: "u32 \<Rightarrow> bytes \<Rightarrow> bytes" where
  "prf_mask buf_len_bits buf =
     (let r = buf_len_bits AND 7
      in if r \<noteq> 0
         then buf[length buf - 1 := buf ! (length buf - 1) AND ucast (push_bit (8 - unat r) (0xFF :: u32))]
         else buf)"

definition hmac_prf_bits ::
  "('c, 'w) md_lib \<Rightarrow> bytes \<Rightarrow> bytes \<Rightarrow> bytes \<Rightarrow> u32 \<Rightarrow> mbedtls_md_type_t \<Rightarrow> 'w \<Rightarrow> (int \<times> bytes \<times> 'w) option" where
  "hmac_prf_bits lib key label data buf_len_bits md_type w =
     (case md_setup lib md_type w of
        (None, w) \<Rightarrow> Some (- 1, [], w)
      | (Some ctx, w) \<Rightarrow>
          let ctx = md_hmac_starts lib ctx key;
              addr = prf_fields label data (ucast buf_len_bits);
              mac_len = md_get_size lib md_type;
              buf_len = (buf_len_bits + 7) div 8
          in case prf_loop lib addr mac_len 1 buf_len ctx [] of
               None \<Rightarrow> None
             | Some (ctr, buf_len, ctx, buf) \<Rightarrow>
                 let (hash, ctx') = prf_round lib (addr ctr) ctx;
                     (buf, ctx) = (if buf_len \<noteq> 0 then (buf @ take (unat buf_len) hash, ctx') else (buf, ctx))
                 in Some (0, prf_mask buf_len_bits buf, md_free lib ctx w))"

definition sha512_prf where
  "sha512_prf lib key label data buf_len w = hmac_prf_bits lib key label data (buf_len * 8) MBEDTLS_MD_SHA512 w"

definition sha384_prf where
  "sha384_prf lib key label data buf_len w = hmac_prf_bits lib key label data (buf_len * 8) MBEDTLS_MD_SHA384 w"

definition sha256_prf where
  "sha256_prf lib key label data buf_len w = hmac_prf_bits lib key label data (buf_len * 8) MBEDTLS_MD_SHA256 w"

definition sha256_prf_bits where
  "sha256_prf_bits lib key label data buf_len_bits w = hmac_prf_bits lib key label data buf_len_bits MBEDTLS_MD_SHA256 w"

section \<open>The SHA-1 pseudo-random function\<close>

definition sha1_mac_len :: nat where
  "sha1_mac_len = 20"

definition sha1_fields :: "bytes \<Rightarrow> bytes \<Rightarrow> u8 \<Rightarrow> bytes list" where
  "sha1_fields label data counter = [c_string label @ [0], data, [counter]]"

text \<open>\<open>buf_len\<close> counts down in whole digests; a failure returns at once with what is written so far.\<close>

function sha1_prf_loop ::
  "('c, 'w) md_lib \<Rightarrow> bytes \<Rightarrow> bytes \<Rightarrow> bytes \<Rightarrow> u8 \<Rightarrow> nat \<Rightarrow> bytes \<Rightarrow> 'w \<Rightarrow> int \<times> bytes \<times> 'w" where
  "sha1_prf_loop lib key label data counter buf_len buf w =
     (if sha1_mac_len \<le> buf_len
      then let (rc, mac, w) = hmac_sha1_vector lib key (sha1_fields label data counter) w
           in if rc \<noteq> 0 then (- 1, buf, w)
              else sha1_prf_loop lib key label data (counter + 1) (buf_len - sha1_mac_len) (buf @ mac) w
      else if buf_len \<noteq> 0
      then let (rc, hash, w) = hmac_sha1_vector lib key (sha1_fields label data counter) w
           in if rc \<noteq> 0 then (- 1, buf, w) else (0, buf @ take buf_len hash, w)
      else (0, buf, w))"
  by pat_completeness auto

termination
  by (relation "measure (\<lambda>(lib, key, label, data, counter, buf_len, buf, w). buf_len)") (auto simp: sha1_mac_len_def)

declare sha1_prf_loop.simps [simp del]

definition sha1_prf ::
  "('c, 'w) md_lib \<Rightarrow> bytes \<Rightarrow> bytes \<Rightarrow> bytes \<Rightarrow> u32 \<Rightarrow> 'w \<Rightarrow> int \<times> bytes \<times> 'w" where
  "sha1_prf lib key label data buf_len w = sha1_prf_loop lib key label data 0 (unat buf_len) [] w"

section \<open>What the vectors compute\<close>

lemma md_updates:
  assumes "md_ok lib hmac view"
  shows "view (fold (\<lambda>x c. md_hmac_update lib c x) elems c) =
    (fst (view c), fst (snd (view c)), snd (snd (view c)) @ concat elems)"
  using assms by (induction elems arbitrary: c) (auto simp: md_ok_def prod_eq_iff)

lemma sha_updates:
  assumes "sha_ok lib hash fed"
  shows "fed (fold (\<lambda>x c. sha_update lib c x) elems c) = (fst (fed c), snd (fed c) @ concat elems)"
  using assms by (induction elems arbitrary: c) (auto simp: sha_ok_def prod_eq_iff)

lemma sha_vectors:
  assumes "sha_ok lib hash fed"
  shows "sha512_vector lib elems = (0, hash MBEDTLS_MD_SHA512 (concat elems))"
    and "sha384_vector lib elems = (0, hash MBEDTLS_MD_SHA384 (concat elems))"
    and "sha256_vector lib elems = (0, hash MBEDTLS_MD_SHA256 (concat elems))"
    and "sha1_vector lib elems = (0, hash MBEDTLS_MD_SHA1 (concat elems))"
  using sha_updates [OF assms] assms
  by (simp_all add: sha_ok_def sha512_vector_def sha384_vector_def sha384_512_vector_def sha256_vector_def sha1_vector_def)

lemma hmac_vector_cases:
  assumes "md_ok lib hmac view"
  obtains (failed) w' where "md_setup lib t w = (None, w')" "hmac_vector lib key elems t w = (- 1, [], w')"
  | (computed) c w' where "md_setup lib t w = (Some c, w')"
      "fst (hmac_vector lib key elems t w) = 0" "fst (snd (hmac_vector lib key elems t w)) = hmac t key (concat elems)"
proof (cases "fst (md_setup lib t w)")
  case None
  then obtain w' where "md_setup lib t w = (None, w')" by (metis prod.collapse)
  then show ?thesis using failed by (simp add: hmac_vector_def)
next
  case (Some c)
  then obtain w' where s: "md_setup lib t w = (Some c, w')" by (metis prod.collapse)
  moreover have "fst (view c) = t" using assms s by (auto simp: md_ok_def)
  ultimately show ?thesis using computed [OF s] assms md_updates [OF assms, of elems "md_hmac_starts lib c key"]
    by (auto simp: hmac_vector_def Let_def split_beta md_ok_def)
qed

section \<open>The key derivation function of IEEE 802.11\<close>

text \<open>Bit \<open>i\<close> of a string of octets, most significant bit of the first octet first.\<close>

definition stream_bit :: "bytes \<Rightarrow> nat \<Rightarrow> bool" where
  "stream_bit bs i \<longleftrightarrow> bit (bs ! (i div 8)) (7 - i mod 8)"

text \<open>
  The standard's KDF: the first \<open>Length\<close> bits of \<open>K(1) || K(2) || ...\<close> with
  \<open>K(i) = HMAC(key, i || label || context || Length)\<close>; here the first \<open>n\<close> of these blocks.
\<close>

definition kdf_block ::
  "(mbedtls_md_type_t \<Rightarrow> bytes \<Rightarrow> bytes \<Rightarrow> bytes) \<Rightarrow> mbedtls_md_type_t \<Rightarrow> bytes \<Rightarrow> bytes \<Rightarrow> bytes \<Rightarrow> u32 \<Rightarrow> nat \<Rightarrow> bytes" where
  "kdf_block hmac t key label data bits i =
     hmac t key (u16_le (of_nat i) @ c_string label @ data @ u16_le (ucast bits))"

definition kdf_stream ::
  "(mbedtls_md_type_t \<Rightarrow> bytes \<Rightarrow> bytes \<Rightarrow> bytes) \<Rightarrow> mbedtls_md_type_t \<Rightarrow> bytes \<Rightarrow> bytes \<Rightarrow> bytes \<Rightarrow> u32 \<Rightarrow> nat \<Rightarrow> bytes" where
  "kdf_stream hmac t key label data bits n = concat (map (\<lambda>i. kdf_block hmac t key label data bits (Suc i)) [0..<n])"

lemma length_blocks: "(\<And>i. length (K i) = s) \<Longrightarrow> length (concat (map K [0..<n])) = n * s"
  by (induction n) simp_all

lemma take_blocks:
  assumes "\<And>i. length (K i) = s" "B \<le> m * s" "m \<le> n"
  shows "take B (concat (map K [0..<n])) = take B (concat (map K [0..<m]))"
proof -
  have "[0..<n] = [0..<m] @ [m..<n]" using assms(3) by (metis le_add_diff_inverse upt_add_eq_append zero_le)
  then show ?thesis using assms(2) length_blocks [of K s m, OF assms(1)] by simp
qed

lemma take_blocks_any:
  assumes "\<And>i. length (K i) = s" "B \<le> m * s" "B \<le> n * s"
  shows "take B (concat (map K [0..<n])) = take B (concat (map K [0..<m]))"
  using take_blocks [OF assms(1) assms(2), of n] take_blocks [OF assms(1) assms(3), of m] by (cases "m \<le> n") simp_all

lemma prf_round_spec:
  assumes "md_ok lib hmac view" "view c = (t, k, [])"
  shows "fst (prf_round lib elems c) = hmac t k (concat elems)"
    and "view (md_hmac_reset lib (snd (prf_round lib elems c))) = (t, k, [])"
  using md_updates [OF assms(1), of elems c] assms by (auto simp: prf_round_def md_ok_def)

lemma prf_loop_runs:
  assumes ok: "md_ok lib hmac view" and pos: "0 < unat mac_len" and "view c = (t, k, [])"
  shows "\<exists>c'. prf_loop lib addr mac_len ctr buf_len c buf =
      Some (ctr + of_nat (unat buf_len div unat mac_len), of_nat (unat buf_len mod unat mac_len), c',
        buf @ concat (map (\<lambda>i. hmac t k (concat (addr (ctr + of_nat i)))) [0..<unat buf_len div unat mac_len])) \<and>
    view c' = (t, k, [])"
  using assms(3)
proof (induction "unat buf_len" arbitrary: buf_len ctr c buf rule: less_induct)
  case less
  show ?case
  proof (cases "mac_len \<le> buf_len")
    case True
    let ?c = "md_hmac_reset lib (snd (prf_round lib (addr ctr) c))"
    have sub: "unat (buf_len - mac_len) = unat buf_len - unat mac_len" by (rule u32_sub [OF True])
    have le: "unat mac_len \<le> unat buf_len" using True by (simp add: u32_le_iff)
    have q: "unat buf_len div unat mac_len = Suc ((unat buf_len - unat mac_len) div unat mac_len)"
      using le pos by (simp add: le_div_geq)
    have r: "(unat buf_len - unat mac_len) mod unat mac_len = unat buf_len mod unat mac_len"
      using le by (simp add: le_mod_geq)
    from less.hyps [of "buf_len - mac_len" ?c "ctr + 1" "buf @ fst (prf_round lib (addr ctr) c)"]
      prf_round_spec [OF ok less.prems, of "addr ctr"] le pos
    show ?thesis
      by (subst prf_loop.simps)
        (simp add: True sub q r upt_conv_Cons map_Suc_upt [symmetric] comp_def add_ac del: upt_Suc)
  next
    case False
    then have "unat buf_len < unat mac_len" by (simp add: u32_le_iff)
    then show ?thesis using less.prems False by (subst prf_loop.simps) simp
  qed
qed

lemma octets_up:
  assumes "(n :: nat) mod 8 \<noteq> 0"
  shows "(n + 7) div 8 = n div 8 + 1"
proof -
  define q r where "q = n div 8" and "r = n mod 8"
  then have n: "n = 8 * q + r" and r: "0 < r" "r < 8" using assms by simp_all
  have "n + 7 = 8 * (q + 1) + (r - 1)" using n r by simp
  moreover have "(8 * (q + 1) + (r - 1)) div 8 = q + 1" using r by (intro div_nat_eqI) simp_all
  ultimately show ?thesis by (simp only: q_def)
qed

lemma bit_before: "(i :: nat) < n \<longleftrightarrow> i div 8 < n div 8 \<or> i div 8 = n div 8 \<and> i mod 8 < n mod 8"
  using div_mult_mod_eq [of n 8] div_mult_mod_eq [of i 8] mod_less_divisor [of 8 n, OF zero_less_numeral] mod_less_divisor [of 8 i, OF zero_less_numeral]
  by (cases "i div 8" "n div 8" rule: linorder_cases) linarith+

lemma mask_position: "a < 8 \<Longrightarrow> b < 8 \<Longrightarrow> 8 - a \<le> 7 - b \<longleftrightarrow> b < (a :: nat)"
  by linarith

lemma prf_mask_bits:
  assumes "length buf = (unat bits + 7) div 8" "i < 8 * length buf"
  shows "stream_bit (prf_mask bits buf) i \<longleftrightarrow> i < unat bits \<and> stream_bit buf i"
proof -
  have r: "unat (bits AND 7) = unat bits mod 8"
  proof -
    have "bits AND 7 = take_bit 3 bits" by (simp add: take_bit_eq_mask mask_eq_exp_minus_1)
    then have "unat (bits AND 7) = take_bit 3 (unat bits)" by (simp only: unsigned_take_bit_eq)
    then show ?thesis by (simp add: take_bit_eq_mod)
  qed
  show ?thesis
  proof (cases "unat bits mod 8 = 0")
    case True
    then have "bits AND 7 = 0" using r by (simp add: unat_eq_0)
    moreover have "8 * length buf = unat bits" using assms(1) True by auto
    ultimately show ?thesis using assms(2) by (simp add: prf_mask_def)
  next
    case False
    then have "bits AND 7 \<noteq> 0" using r by auto
    then have m: "prf_mask bits buf =
        buf[length buf - 1 := buf ! (length buf - 1) AND ucast (push_bit (8 - unat bits mod 8) (0xFF :: u32))]"
      by (simp add: prf_mask_def r)
    have l: "length buf = unat bits div 8 + 1" using assms(1) False by (simp add: octets_up)
    then have last: "i div 8 = length buf - 1 \<longleftrightarrow> unat bits div 8 \<le> i div 8" using assms(2) by auto
    have byte: "bit (ucast (push_bit k (0xFF :: u32)) :: u8) j \<longleftrightarrow> k \<le> j" if "j < 8" for j k
    proof -
      have eq: "(0xFF :: u32) = mask 8" by (simp add: mask_eq_exp_minus_1)
      have "bit (0xFF :: u32) i \<longleftrightarrow> i < 8" if "i < 8" for i using that unfolding eq bit_mask_iff by (simp add: possible_bit_word)
      then have "bit (push_bit k (0xFF :: u32)) j \<longleftrightarrow> k \<le> j"
        unfolding bit_push_bit_iff using that by (simp add: possible_bit_word less_imp_diff_less)
      then show ?thesis using that by (simp only: bit_ucast_iff possible_bit_word len_num1 len_bit0 mult_1_right) simp
    qed
    have iff: "i < unat bits \<longleftrightarrow> i div 8 < unat bits div 8 \<or> i div 8 = unat bits div 8 \<and> i mod 8 < unat bits mod 8"
      by (rule bit_before)
    show ?thesis
    proof (cases "i div 8 = length buf - 1")
      case True
      then have "stream_bit (prf_mask bits buf) i \<longleftrightarrow> stream_bit buf i \<and> 8 - unat bits mod 8 \<le> 7 - i mod 8"
        using l byte [of "7 - i mod 8" "8 - unat bits mod 8"] by (simp add: stream_bit_def m bit_and_iff)
      moreover have "8 - unat bits mod 8 \<le> 7 - i mod 8 \<longleftrightarrow> i mod 8 < unat bits mod 8" by (simp add: not_less [symmetric]) arith
      ultimately show ?thesis using True l iff by auto
    next
      case False
      then have "i < unat bits" using last iff l by auto
      with False show ?thesis by (simp add: stream_bit_def m)
    qed
  qed
qed

lemma hmac_prf_bits_value:
  assumes ok: "md_ok lib hmac view" and small: "unat bits < 65536" and s: "md_setup lib t w = (Some c, w1)"
    and n: "unat bits \<le> 8 * unat (md_get_size lib t) * n"
  shows "\<exists>w'. hmac_prf_bits lib key label data bits t w =
    Some (0, prf_mask bits (take ((unat bits + 7) div 8) (kdf_stream hmac t key label data bits n)), w')"
proof -
  let ?m = "unat (md_get_size lib t)" and ?B = "(unat bits + 7) div 8"
  let ?K = "\<lambda>i. kdf_block hmac t key label data bits (Suc i)"
  have pos: "0 < ?m" and len: "length (?K i) = ?m" for i using ok by (simp_all add: md_ok_def kdf_block_def)
  have B: "unat ((bits + 7) div 8) = ?B" using small by (simp add: unat_div_distrib u32_add)
  have v: "view (md_hmac_starts lib c key) = (t, key, [])" using ok s by (auto simp: md_ok_def)
  obtain c' where run: "prf_loop lib (prf_fields label data (ucast bits)) (md_get_size lib t) 1 ((bits + 7) div 8) (md_hmac_starts lib c key) [] =
      Some (1 + of_nat (?B div ?m), of_nat (?B mod ?m), c', concat (map ?K [0..<?B div ?m]))"
    and v': "view c' = (t, key, [])"
    using prf_loop_runs [OF ok pos v, of "prf_fields label data (ucast bits)" 1 "(bits + 7) div 8" "[]"]
    by (auto simp: B prf_fields_def kdf_block_def)
  have rest: "fst (prf_round lib (prf_fields label data (ucast bits) (1 + of_nat (?B div ?m))) c') = ?K (?B div ?m)"
    using prf_round_spec(1) [OF ok v'] by (simp add: prf_fields_def kdf_block_def)
  have small_rest: "unat (of_nat (?B mod ?m) :: u32) = ?B mod ?m"
    by (rule unat_of_nat_u32) (use pos in \<open>meson less_trans mod_less_divisor unat_u32_lt\<close>)
  have len0: "length (concat (map ?K [0..<k])) = k * ?m" for k by (rule length_blocks) (rule len)
  have "concat (map ?K [0..<?B div ?m]) @ take (?B mod ?m) (?K (?B div ?m)) = take ?B (concat (map ?K [0..<Suc (?B div ?m)]))"
    using len0 [of "?B div ?m"] len [of "?B div ?m"] by (simp add: modulo_nat_def mult.commute)
  also have "\<dots> = take ?B (concat (map ?K [0..<n]))"
  proof (rule take_blocks_any [of ?K ?m])
    show "?B \<le> n * ?m" using n by (simp add: mult.assoc mult.commute [of n])
    show "?B \<le> Suc (?B div ?m) * ?m" unfolding mult_Suc
      using div_mult_mod_eq [of ?B ?m] mod_less_divisor [OF pos, of ?B] by linarith
  qed (rule len)
  finally have all: "concat (map ?K [0..<?B div ?m]) @ take (?B mod ?m) (?K (?B div ?m)) = take ?B (kdf_stream hmac t key label data bits n)"
    by (simp add: kdf_stream_def)
  show ?thesis
  proof (cases "?B mod ?m = 0")
    case True
    then show ?thesis using all s run by (simp add: hmac_prf_bits_def split_beta)
  next
    case False
    then have "(of_nat (?B mod ?m) :: u32) \<noteq> 0" using small_rest by (metis unat_0)
    then show ?thesis using all s run small_rest rest by (simp add: hmac_prf_bits_def split_beta Let_def)
  qed
qed

lemma length_kdf_stream: "md_ok lib hmac view \<Longrightarrow> length (kdf_stream hmac t key label data bits n) = n * unat (md_get_size lib t)"
  unfolding kdf_stream_def by (rule length_blocks) (simp add: kdf_block_def md_ok_def)

lemma length_prf_mask [simp]: "length (prf_mask bits buf) = length buf"
  by (simp add: prf_mask_def Let_def)

text \<open>
  C17: the derived key is what IEEE 802.11 asks for. For fewer than 65536 bits the function returns:
  it fails with -1 and writes nothing exactly when there is no memory for the digest context, and
  otherwise writes as many octets as hold the requested bits, the first \<open>Length\<close> bits being those of
  \<open>K(1) || K(2) || ...\<close> and the unused bits of the last octet zero.
\<close>

theorem hmac_prf_is_kdf:
  assumes "md_ok lib hmac view" and "unat bits < 65536" and "unat bits \<le> 8 * unat (md_get_size lib t) * n"
  shows "case hmac_prf_bits lib key label data bits t w of
      None \<Rightarrow> False
    | Some (rc, out, w') \<Rightarrow>
        if fst (md_setup lib t w) = None then rc = - 1 \<and> out = []
        else rc = 0 \<and> length out = (unat bits + 7) div 8 \<and>
          (\<forall>i. i < 8 * length out \<longrightarrow>
            (stream_bit out i \<longleftrightarrow> i < unat bits \<and> stream_bit (kdf_stream hmac t key label data bits n) i))"
proof (cases "md_setup lib t w")
  case (Pair r w1)
  show ?thesis
  proof (cases r)
    case None
    then show ?thesis using Pair by (simp add: hmac_prf_bits_def)
  next
    case (Some c)
    let ?B = "(unat bits + 7) div 8" and ?S = "kdf_stream hmac t key label data bits n"
    from hmac_prf_bits_value [OF assms(1,2) _ assms(3), of w c w1 key label data] Pair Some obtain w' where
      r: "hmac_prf_bits lib key label data bits t w = Some (0, prf_mask bits (take ?B ?S), w')" by auto
    have "?B \<le> n * unat (md_get_size lib t)" using assms(3) by (simp add: mult.assoc mult.commute [of n])
    then have len: "length (take ?B ?S) = ?B" by (simp add: length_kdf_stream [OF assms(1)])
    have "stream_bit (prf_mask bits (take ?B ?S)) i \<longleftrightarrow> i < unat bits \<and> stream_bit ?S i" if "i < 8 * ?B" for i
      using prf_mask_bits [OF len] that len by (auto simp: stream_bit_def)
    then show ?thesis using r len Pair Some by simp
  qed
qed

text \<open>A stand-in for the library whose contexts are what they were fed, to evaluate the model on.\<close>

definition plain_size :: "mbedtls_md_type_t \<Rightarrow> nat" where
  "plain_size t = (case t of MBEDTLS_MD_SHA1 \<Rightarrow> 20 | MBEDTLS_MD_SHA256 \<Rightarrow> 32 | MBEDTLS_MD_SHA384 \<Rightarrow> 48 | MBEDTLS_MD_SHA512 \<Rightarrow> 64)"

definition plain_hmac :: "mbedtls_md_type_t \<Rightarrow> bytes \<Rightarrow> bytes \<Rightarrow> bytes" where
  "plain_hmac t k m = take (plain_size t) (m @ k @ replicate (plain_size t) 0xFF)"

definition plain_md :: "(mbedtls_md_type_t \<times> bytes \<times> bytes, nat) md_lib" where
  "plain_md = \<lparr>md_setup = \<lambda>t w. if w = 0 then (None, 0) else (Some (t, [], []), w - 1), md_free = \<lambda>c w. w,
     md_get_size = \<lambda>t. of_nat (plain_size t),
     md_hmac_starts = \<lambda>c k. (fst c, k, []), md_hmac_update = \<lambda>c x. (fst c, fst (snd c), snd (snd c) @ x),
     md_hmac_finish = \<lambda>c. (plain_hmac (fst c) (fst (snd c)) (snd (snd c)), c), md_hmac_reset = \<lambda>c. (fst c, fst (snd c), []),
     sha_starts = \<lambda>t. (t, [], []), sha_update = \<lambda>c x. (fst c, fst (snd c), snd (snd c) @ x),
     sha_finish = \<lambda>c. plain_hmac (fst c) [] (snd (snd c))\<rparr>"

lemma plain_md_ok: "md_ok plain_md plain_hmac id"
  by (auto simp: md_ok_def plain_md_def plain_hmac_def plain_size_def split: mbedtls_md_type_t.splits if_splits)

lemma hmac_prf_is_kdf_witness:
  "\<exists>out w'. hmac_prf_bits plain_md [1] [75, 0] [2] 12 MBEDTLS_MD_SHA256 3 = Some (0, out, w') \<and> length out = 2 \<and> \<not> stream_bit out 12"
proof -
  let ?r = "hmac_prf_bits plain_md [1] [75, 0] [2] 12 MBEDTLS_MD_SHA256 3"
  have "case ?r of None \<Rightarrow> False | Some (rc, out, w') \<Rightarrow> rc = 0 \<and> length out = 2 \<and> \<not> stream_bit out 12"
    using hmac_prf_is_kdf [OF plain_md_ok, where bits = 12 and t = MBEDTLS_MD_SHA256 and n = 1 and key = "[1]" and label = "[75, 0]" and data = "[2]" and w = 3]
    by (auto simp: plain_md_def plain_size_def split: option.splits)
  then show ?thesis by (auto split: option.splits)
qed

section \<open>The SHA-1 function\<close>

text \<open>The standard's PRF: HMAC-SHA-1 of label, a zero octet, data and a counter of one octet from 0.\<close>

definition prf_block :: "(mbedtls_md_type_t \<Rightarrow> bytes \<Rightarrow> bytes \<Rightarrow> bytes) \<Rightarrow> bytes \<Rightarrow> bytes \<Rightarrow> bytes \<Rightarrow> u8 \<Rightarrow> bytes" where
  "prf_block hmac key label data c = hmac MBEDTLS_MD_SHA1 key (c_string label @ [0] @ data @ [c])"

definition prf_stream :: "(mbedtls_md_type_t \<Rightarrow> bytes \<Rightarrow> bytes \<Rightarrow> bytes) \<Rightarrow> bytes \<Rightarrow> bytes \<Rightarrow> bytes \<Rightarrow> u8 \<Rightarrow> nat \<Rightarrow> bytes" where
  "prf_stream hmac key label data c n = concat (map (\<lambda>i. prf_block hmac key label data (c + of_nat i)) [0..<n])"

lemma prf_stream_Suc:
  "prf_stream hmac key label data c (Suc n) = prf_block hmac key label data c @ prf_stream hmac key label data (c + 1) n"
  by (simp add: prf_stream_def upt_conv_Cons map_Suc_upt [symmetric] comp_def add_ac del: upt_Suc)

lemma prf_block_length: "md_ok lib hmac view \<Longrightarrow> length (prf_block hmac key label data c) = sha1_mac_len"
  by (simp add: prf_block_def md_ok_def sha1_mac_len_def)

lemma prf_stream_take:
  assumes "md_ok lib hmac view" "k \<le> sha1_mac_len * m" "k \<le> sha1_mac_len * n"
  shows "take k (prf_stream hmac key label data c n) = take k (prf_stream hmac key label data c m)"
  unfolding prf_stream_def
  by (rule take_blocks_any [of _ sha1_mac_len]) (use assms prf_block_length [OF assms(1)] in \<open>simp_all add: mult.commute\<close>)

lemma hmac_sha1_round:
  assumes "md_ok lib hmac view" "hmac_sha1_vector lib key (sha1_fields label data c) w = (rc, mac, w')"
  shows "rc = 0 \<and> mac = prf_block hmac key label data c \<or> rc = - 1 \<and> fst (md_setup lib MBEDTLS_MD_SHA1 w) = None"
  using assms by (cases rule: hmac_vector_cases [OF assms(1), of MBEDTLS_MD_SHA1 w key "sha1_fields label data c"])
    (auto simp: hmac_sha1_vector_def sha1_fields_def prf_block_def)

lemma sha1_prf_loop_runs:
  assumes ok: "md_ok lib hmac view"
  shows "sha1_prf_loop lib key label data c n buf w = (rc, out, w') \<Longrightarrow>
    \<exists>m \<le> n. out = buf @ take m (prf_stream hmac key label data c n) \<and>
      (rc = 0 \<and> m = n \<or> rc = - 1 \<and> m < n \<and> sha1_mac_len dvd m \<and> (\<exists>w. fst (md_setup lib MBEDTLS_MD_SHA1 w) = None))"
proof (induction n arbitrary: c buf w rule: less_induct)
  case (less n)
  let ?B = "prf_block hmac key label data c" and ?S = "prf_stream hmac key label data"
  obtain rc1 mac w1 where h: "hmac_sha1_vector lib key (sha1_fields label data c) w = (rc1, mac, w1)" by (rule prod_cases3)
  have B: "length ?B = sha1_mac_len" by (rule prf_block_length [OF ok])
  consider (failed) "rc1 = - 1" "n \<noteq> 0" "\<exists>w. fst (md_setup lib MBEDTLS_MD_SHA1 w) = None"
    | (block) "rc1 = 0" "mac = ?B" "sha1_mac_len \<le> n" | (tail) "rc1 = 0" "mac = ?B" "n < sha1_mac_len" "n \<noteq> 0" | (over) "n = 0"
    using hmac_sha1_round [OF ok h] by fastforce
  then show ?case
  proof cases
    case failed
    then have "rc = - 1" "out = buf" using less.prems h
      by (subst (asm) sha1_prf_loop.simps, simp split: if_splits)+
    with failed show ?thesis by (intro exI [of _ 0]) simp
  next
    case block
    then have n: "n = Suc (n - 1)" "n - sha1_mac_len < n" by (simp_all add: sha1_mac_len_def)
    from block have "sha1_prf_loop lib key label data (c + 1) (n - sha1_mac_len) (buf @ ?B) w1 = (rc, out, w')"
      using less.prems h by (subst (asm) sha1_prf_loop.simps) simp
    from less.IH [OF n(2) this] obtain m where m: "m \<le> n - sha1_mac_len" "out = (buf @ ?B) @ take m (?S (c + 1) (n - sha1_mac_len))"
      "rc = 0 \<and> m = n - sha1_mac_len \<or> rc = - 1 \<and> m < n - sha1_mac_len \<and> sha1_mac_len dvd m \<and> (\<exists>w. fst (md_setup lib MBEDTLS_MD_SHA1 w) = None)"
      by blast
    have "take m (?S (c + 1) (n - 1)) = take m (?S (c + 1) (n - sha1_mac_len))"
      by (rule prf_stream_take [OF ok]) (use m(1) in \<open>simp_all add: sha1_mac_len_def\<close>)
    moreover have "?S c n = ?B @ ?S (c + 1) (n - 1)" using prf_stream_Suc [of hmac key label data c "n - 1"] n(1) by simp
    ultimately have "out = buf @ take (sha1_mac_len + m) (?S c n)" using m(2) B by simp
    with m(1,3) block(3) show ?thesis by (intro exI [of _ "sha1_mac_len + m"]) auto
  next
    case tail
    then have "rc = 0" "out = buf @ take n ?B" using less.prems h
      by (subst (asm) sha1_prf_loop.simps, simp split: if_splits)+
    moreover have "?S c n = ?B @ ?S (c + 1) (n - 1)" using prf_stream_Suc [of hmac key label data c "n - 1"] tail(4) by simp
    ultimately show ?thesis using tail B by (intro exI [of _ n]) simp
  next
    case over
    then show ?thesis using less.prems by (subst (asm) sha1_prf_loop.simps) (simp add: sha1_mac_len_def)
  qed
qed

text \<open>
  \<open>sha1_prf\<close> writes the standard's PRF, each block under its counter. Either it returns 0 and
  all \<open>buf_len\<close> octets are there, or it returns -1 because a digest context could not be allocated;
  then the buffer holds a correct prefix of whole digests, so a caller that ignores the code uses a
  partly derived key. It never writes more than \<open>buf_len\<close> octets.
\<close>

theorem sha1_prf_prefix:
  assumes "md_ok lib hmac view" and "sha1_prf lib key label data buf_len w = (rc, out, w')"
  shows "out = take (length out) (prf_stream hmac key label data 0 (unat buf_len)) \<and>
    (rc = 0 \<and> length out = unat buf_len \<or>
     rc = - 1 \<and> length out < unat buf_len \<and> 20 dvd length out \<and> (\<exists>w. fst (md_setup lib MBEDTLS_MD_SHA1 w) = None))"
proof -
  let ?S = "prf_stream hmac key label data 0 (unat buf_len)"
  have "length ?S = unat buf_len * 20"
    unfolding prf_stream_def by (rule length_blocks) (simp add: prf_block_length [OF assms(1)] sha1_mac_len_def)
  moreover obtain m where "m \<le> unat buf_len" "out = take m ?S"
    "rc = 0 \<and> m = unat buf_len \<or> rc = - 1 \<and> m < unat buf_len \<and> sha1_mac_len dvd m \<and> (\<exists>w. fst (md_setup lib MBEDTLS_MD_SHA1 w) = None)"
    using sha1_prf_loop_runs [OF assms(1) assms(2) [unfolded sha1_prf_def]] by auto
  ultimately show ?thesis by (auto simp: sha1_mac_len_def)
qed

text \<open>With memory for one digest context, 50 octets end after the first 20; with plenty, all are written.\<close>

lemma sha1_prf_prefix_witness:
  "(\<exists>out w'. sha1_prf plain_md [1] [75, 0] [2] 50 1 = (- 1, out, w') \<and> length out = 20 \<and> out = take 20 (prf_stream plain_hmac [1] [75, 0] [2] 0 50)) \<and>
   (\<exists>out w'. sha1_prf plain_md [1] [75, 0] [2] 50 9 = (0, out, w') \<and> length out = 50)"
proof -
  note p = sha1_prf_prefix [OF plain_md_ok, of "[1]" "[75, 0]" "[2]" 50]
  obtain rc out w' where r: "sha1_prf plain_md [1] [75, 0] [2] 50 1 = (rc, out, w')" by (rule prod_cases3)
  obtain rc2 out2 w2 where r2: "sha1_prf plain_md [1] [75, 0] [2] 50 9 = (rc2, out2, w2)" by (rule prod_cases3)
  note run = sha1_prf_def sha1_prf_loop.simps sha1_mac_len_def hmac_sha1_vector_def hmac_vector_def plain_md_def
    plain_hmac_def plain_size_def sha1_fields_def c_string_def
  have "rc = - 1" "length out = 20" using r by (auto simp: run)
  moreover have "rc2 = 0" using r2 by (simp add: run)
  ultimately show ?thesis using p [OF r] p [OF r2] r r2 by auto
qed

section \<open>PBKDF2\<close>

text \<open>
  \<open>pkcs5\<close> is \<open>mbedtls_pkcs5_pbkdf2_hmac\<close> (with the context) or its \<open>_ext\<close> form: password, salt,
  iterations and the wanted number of octets, to a return code, the octets and the world. The code
  always asks for 32 octets; \<open>buf\<close> is the caller's buffer of \<open>buflen\<close> bytes.
\<close>

definition pbkdf2_sha1 ::
  "nat \<Rightarrow> ('c, 'w) md_lib \<Rightarrow> (mbedtls_md_type_t \<Rightarrow> bytes \<Rightarrow> bytes \<Rightarrow> int \<Rightarrow> nat \<Rightarrow> 'w \<Rightarrow> int \<times> bytes \<times> 'w) \<Rightarrow>
   bytes \<Rightarrow> bytes \<Rightarrow> int \<Rightarrow> bytes \<Rightarrow> 'w \<Rightarrow> (int \<times> bytes \<times> 'w) result" where
  "pbkdf2_sha1 mbedtls_version lib pkcs5 passphrase ssid iterations buf w =
     (if 0x03030000 \<le> mbedtls_version
      then let (rc, key, w) = pkcs5 MBEDTLS_MD_SHA1 (c_string passphrase) ssid iterations 32 w
           in rbind (mem_write buf 0 key) (\<lambda>buf. Inr (if rc \<noteq> 0 then - 1 else 0, buf, w))
      else case md_setup lib MBEDTLS_MD_SHA1 w of
             (None, w) \<Rightarrow> Inr (- 1, buf, w)
           | (Some ctx, w) \<Rightarrow>
               let (rc, key, w) = pkcs5 MBEDTLS_MD_SHA1 (c_string passphrase) ssid iterations 32 w
               in rbind (mem_write buf 0 key) (\<lambda>buf. Inr (if rc \<noteq> 0 then - 1 else 0, buf, md_free lib ctx w)))"

text \<open>
  Documented: the requested number of octets is written on success. \<open>buflen\<close> plays no part, so a
  smaller buffer is overrun and a larger one keeps its old tail.
\<close>

definition pkcs5_ok :: "(mbedtls_md_type_t \<Rightarrow> bytes \<Rightarrow> bytes \<Rightarrow> int \<Rightarrow> nat \<Rightarrow> 'w \<Rightarrow> int \<times> bytes \<times> 'w) \<Rightarrow> bool" where
  "pkcs5_ok pkcs5 \<longleftrightarrow> (\<forall>t p s i n w. length (fst (snd (pkcs5 t p s i n w))) = (if fst (pkcs5 t p s i n w) = 0 then n else 0))"

lemma pbkdf2_ignores_buflen:
  assumes "pkcs5_ok pkcs5" "pkcs5 MBEDTLS_MD_SHA1 (c_string pw) ssid it 32 w = (0, key, w1)" "0x03030000 \<le> v"
  shows "pbkdf2_sha1 v lib pkcs5 pw ssid it buf w =
    (if length buf < 32 then Inl Out_of_bounds else Inr (0, key @ drop 32 buf, w1))"
proof -
  have "length (fst (snd (pkcs5 MBEDTLS_MD_SHA1 (c_string pw) ssid it 32 w))) = 32"
    using assms(1,2) unfolding pkcs5_ok_def by (metis fst_conv)
  then have "length key = 32" using assms(2) by simp
  then show ?thesis using assms(2,3) by (simp add: pbkdf2_sha1_def mem_write_def)
qed

section \<open>AES and CMAC\<close>

text \<open>\<open>'k\<close> is a cipher context. \<open>cipher_setup\<close> is \<open>mbedtls_cipher_init\<close> and \<open>mbedtls_cipher_setup\<close>.\<close>

record ('k, 'w) cipher_lib =
  cipher_known :: "nat \<Rightarrow> bool"
  cipher_setup :: "nat \<Rightarrow> 'w \<Rightarrow> 'k option \<times> 'w"
  cmac_starts :: "'k \<Rightarrow> bytes \<Rightarrow> nat \<Rightarrow> int \<times> 'k"
  cmac_update :: "'k \<Rightarrow> bytes \<Rightarrow> int \<times> 'k"
  cmac_finish :: "'k \<Rightarrow> int \<times> bytes"
  cipher_free :: "'k \<Rightarrow> 'w \<Rightarrow> 'w"
  aes_new :: "'w \<Rightarrow> 'k option \<times> 'w"
  aes_setkey_dec :: "'k \<Rightarrow> bytes \<Rightarrow> nat \<Rightarrow> int \<times> 'k"
  aes_crypt_ecb :: "'k \<Rightarrow> bytes \<Rightarrow> int \<times> bytes"

definition aes_decrypt_init :: "('k, 'w) cipher_lib \<Rightarrow> bytes \<Rightarrow> 'w \<Rightarrow> 'k option \<times> 'w" where
  "aes_decrypt_init lib key w =
     (case aes_new lib w of
        (None, w) \<Rightarrow> (None, w)
      | (Some aes, w) \<Rightarrow>
          let (rc, aes) = aes_setkey_dec lib aes key (length key * 8)
          in if rc = 0 then (Some aes, w) else (None, cipher_free lib aes w))"

definition aes_decrypt :: "('k, 'w) cipher_lib \<Rightarrow> 'k \<Rightarrow> bytes \<Rightarrow> int \<times> bytes" where
  "aes_decrypt lib ctx crypt = aes_crypt_ecb lib ctx crypt"

definition aes_decrypt_deinit :: "('k, 'w) cipher_lib \<Rightarrow> 'k \<Rightarrow> 'w \<Rightarrow> 'w" where
  "aes_decrypt_deinit lib ctx w = cipher_free lib ctx w"

fun cmac_updates :: "('k, 'w) cipher_lib \<Rightarrow> bytes list \<Rightarrow> 'k \<Rightarrow> int \<times> 'k" where
  "cmac_updates lib [] ctx = (0, ctx)"
| "cmac_updates lib (x # xs) ctx =
     (let (ret, ctx) = cmac_update lib ctx x in if ret = 0 then cmac_updates lib xs ctx else (ret, ctx))"

definition omac1_aes_vector :: "('k, 'w) cipher_lib \<Rightarrow> bytes \<Rightarrow> bytes list \<Rightarrow> 'w \<Rightarrow> int \<times> bytes \<times> 'w" where
  "omac1_aes_vector lib key elems w =
     (if length key \<notin> {16, 24, 32} then (- 1, [], w)
      else if \<not> cipher_known lib (length key * 8) then (- 1, [], w)
      else case cipher_setup lib (length key * 8) w of
             (None, w) \<Rightarrow> (- 1, [], w)
           | (Some ctx, w) \<Rightarrow>
               let (rc, ctx) = cmac_starts lib ctx key (length key * 8);
                   (ret, ctx) = (if rc = 0 then cmac_updates lib elems ctx else (- 1, ctx));
                   (ret, mac) = (if ret = 0 then cmac_finish lib ctx else (ret, []))
               in (if ret \<noteq> 0 then - 1 else 0, mac, cipher_free lib ctx w))"

definition omac1_aes_128 :: "('k, 'w) cipher_lib \<Rightarrow> bytes \<Rightarrow> bytes \<Rightarrow> 'w \<Rightarrow> int \<times> bytes \<times> 'w" where
  "omac1_aes_128 lib key data w = omac1_aes_vector lib (take 16 key) [data] w"

text \<open>Documented: a started context computes the CMAC of what was fed; a failing finish writes nothing.\<close>

definition cmac_ok :: "('k, 'w) cipher_lib \<Rightarrow> (bytes \<Rightarrow> bytes \<Rightarrow> bytes) \<Rightarrow> ('k \<Rightarrow> bytes \<times> bytes) \<Rightarrow> bool" where
  "cmac_ok lib cmac view \<longleftrightarrow>
     (\<forall>c k n. fst (cmac_starts lib c k n) = 0 \<longrightarrow> view (snd (cmac_starts lib c k n)) = (k, [])) \<and>
     (\<forall>c x. fst (cmac_update lib c x) = 0 \<longrightarrow> view (snd (cmac_update lib c x)) = (fst (view c), snd (view c) @ x)) \<and>
     (\<forall>c. snd (cmac_finish lib c) = (if fst (cmac_finish lib c) = 0 then cmac (fst (view c)) (snd (view c)) else []))"

lemma cmac_updates_view:
  assumes "cmac_ok lib cmac view" "cmac_updates lib xs c = (0, c')"
  shows "view c' = (fst (view c), snd (view c) @ concat xs)"
  using assms(2)
proof (induction xs arbitrary: c)
  case (Cons x xs)
  then show ?case using assms(1) by (auto simp: cmac_ok_def split_beta Let_def split: if_splits)
qed simp

lemma omac1_all_or_nothing:
  assumes "cmac_ok lib cmac view" "omac1_aes_vector lib key elems w = (rc, mac, w')"
  shows "rc = 0 \<and> length key \<in> {16, 24, 32} \<and> mac = cmac key (concat elems) \<or> rc = - 1 \<and> mac = []"
proof -
  let ?n = "length key * 8"
  show ?thesis
  proof (cases "length key \<in> {16, 24, 32} \<and> cipher_known lib ?n \<and> fst (cipher_setup lib ?n w) \<noteq> None")
    case False
    then show ?thesis using assms(2) by (auto simp: omac1_aes_vector_def split: if_splits prod.splits)
  next
    case True
    then obtain ctx w1 where s: "cipher_setup lib ?n w = (Some ctx, w1)" by (metis option.exhaust prod.collapse)
    obtain r1 c1 where st: "cmac_starts lib ctx key ?n = (r1, c1)" by (rule prod.exhaust)
    obtain r2 c2 where up: "cmac_updates lib elems c1 = (r2, c2)" by (rule prod.exhaust)
    obtain r3 m where fin: "cmac_finish lib c2 = (r3, m)" by (rule prod.exhaust)
    have v1: "view c1 = (key, [])" if "r1 = 0" using assms(1) st that unfolding cmac_ok_def by (metis fst_conv snd_conv)
    have v2: "view c2 = (fst (view c1), snd (view c1) @ concat elems)" if "r2 = 0"
      using cmac_updates_view [OF assms(1)] up that by simp
    have v3: "m = (if r3 = 0 then cmac (fst (view c2)) (snd (view c2)) else [])"
      using assms(1) fin unfolding cmac_ok_def by (metis fst_conv snd_conv)
    from True s st up fin assms(2) have "rc = (if r1 = 0 \<and> r2 = 0 \<and> r3 = 0 then 0 else - 1)"
      "mac = (if r1 = 0 \<and> r2 = 0 then m else [])"
      by (auto simp: omac1_aes_vector_def split: if_splits)
    with v1 v2 v3 True show ?thesis by auto
  qed
qed

section \<open>The random generator\<close>

text \<open>
  \<open>entropy_poll\<close> fills the library's buffer from the hardware generator, a word at a time;
  \<open>random i\<close> is what \<open>esp_random\<close> returns the \<open>i\<close>-th time.
\<close>

definition u32_le :: "u32 \<Rightarrow> bytes" where
  "u32_le r = map (\<lambda>i. ucast (drop_bit (8 * i) r)) [0..<4]"

function entropy_poll :: "(nat \<Rightarrow> u32) \<Rightarrow> nat \<Rightarrow> nat \<Rightarrow> bytes \<Rightarrow> bytes result" where
  "entropy_poll random i len out =
     (if len \<noteq> 0
      then let cpylen = (if len < 4 then len else 4)
           in rbind (mmhal_random_u32 (random i) 0 0xFFFFFFFF) (\<lambda>r.
                entropy_poll random (i + 1) (len - cpylen) (out @ take cpylen (u32_le r)))
      else Inr out)"
  by pat_completeness auto

termination
  by (relation "measure (\<lambda>(random, i, len, out). len)") auto

declare entropy_poll.simps [simp del]

lemma entropy_poll_fills:
  "entropy_poll random i len out = Inr (out @ take len (concat (map (\<lambda>j. u32_le (random (i + j))) [0..<len])))"
proof (induction len arbitrary: i out rule: less_induct)
  case (less len)
  let ?B = "\<lambda>j. u32_le (random (i + j))"
  have l: "length (?B j) = 4" for j by (simp add: u32_le_def)
  show ?case
  proof (cases "len = 0")
    case True
    then show ?thesis by (simp add: entropy_poll.simps)
  next
    case False
    then have split: "concat (map ?B [0..<len]) = ?B 0 @ concat (map (\<lambda>j. ?B (Suc j)) [0..<len - 1])"
      by (cases len) (simp_all add: upt_conv_Cons map_Suc_upt [symmetric] comp_def del: upt_Suc)
    show ?thesis
    proof (cases "len < 4")
      case True
      then have "entropy_poll random i len out = Inr (out @ take len (?B 0))"
        using False by (subst entropy_poll.simps) (simp add: mmhal_random_u32_def, subst entropy_poll.simps, simp)
      then show ?thesis using True l [of 0] by (simp add: split)
    next
      case big: False
      have "take (len - 4) (concat (map (\<lambda>j. ?B (Suc j)) [0..<len - 4])) = take (len - 4) (concat (map (\<lambda>j. ?B (Suc j)) [0..<len - 1]))"
        by (rule take_blocks_any [of _ 4]) (simp_all add: u32_le_def)
      then show ?thesis using big less.IH [of "len - 4" "i + 1" "out @ ?B 0"] l [of 0] False
        by (subst entropy_poll.simps) (simp add: mmhal_random_u32_def split)
    qed
  qed
qed

text \<open>
  The generator's static state is the flag; the log holds the library calls. Whether seeding works
  is the environment's choice at each call.
\<close>

datatype rng_event = Rng_init | Rng_seed bool | Rng_draw nat | Rng_free

record rng_state =
  ctr_drbg_init_state :: bool
  rng_log :: "rng_event list"

definition ctr_drbg_init :: "bool \<Rightarrow> rng_state \<Rightarrow> rng_state" where
  "ctr_drbg_init seed_ok s =
     (let s = s\<lparr>rng_log := rng_log s @ [Rng_init, Rng_seed seed_ok]\<rparr>
      in if \<not> seed_ok then s else s\<lparr>ctr_drbg_init_state := True\<rparr>)"

definition crypto_mbedtls_ctr_drbg :: "bool \<Rightarrow> rng_state \<Rightarrow> rng_state" where
  "crypto_mbedtls_ctr_drbg seed_ok s = (if ctr_drbg_init_state s then s else ctr_drbg_init seed_ok s)"

definition crypto_get_random :: "bool \<Rightarrow> int \<Rightarrow> nat \<Rightarrow> rng_state \<Rightarrow> int \<times> rng_state" where
  "crypto_get_random seed_ok drawn len s =
     (let s = crypto_mbedtls_ctr_drbg seed_ok s
      in (if drawn \<noteq> 0 then - 1 else 0, s\<lparr>rng_log := rng_log s @ [Rng_draw len]\<rparr>))"

definition crypto_unload :: "rng_state \<Rightarrow> rng_state" where
  "crypto_unload s =
     (if ctr_drbg_init_state s then s\<lparr>ctr_drbg_init_state := False, rng_log := rng_log s @ [Rng_free]\<rparr> else s)"

datatype rng_call = Get_random bool int nat | Unload

fun rng_step :: "rng_call \<Rightarrow> rng_state \<Rightarrow> rng_state" where
  "rng_step (Get_random seed_ok drawn n) s = snd (crypto_get_random seed_ok drawn n s)"
| "rng_step Unload s = crypto_unload s"

definition rng_run :: "rng_call list \<Rightarrow> rng_state" where
  "rng_run calls = fold rng_step calls \<lparr>ctr_drbg_init_state = False, rng_log = []\<rparr>"

text \<open>The generator is seeded after a log; every draw of a log is from a seeded generator; contexts not freed.\<close>

fun rng_scan :: "rng_event \<Rightarrow> bool \<times> bool \<times> int \<Rightarrow> bool \<times> bool \<times> int" where
  "rng_scan Rng_init (seeded, good, live) = (False, good, live + 1)"
| "rng_scan (Rng_seed ok) (seeded, good, live) = (ok, good, live)"
| "rng_scan (Rng_draw n) (seeded, good, live) = (seeded, good \<and> seeded, live)"
| "rng_scan Rng_free (seeded, good, live) = (False, good, live - 1)"

definition rng_ledger :: "rng_event list \<Rightarrow> bool \<times> bool \<times> int" where
  "rng_ledger log = fold rng_scan log (False, True, 0)"

definition seeds_ok :: "rng_call list \<Rightarrow> bool" where
  "seeds_ok calls \<longleftrightarrow> (\<forall>ok d n. Get_random ok d n \<in> set calls \<longrightarrow> ok)"

lemma rng_run_snoc: "rng_run (calls @ [x]) = rng_step x (rng_run calls)"
  by (simp add: rng_run_def)

lemma rng_ledger_snoc: "rng_ledger (l @ [e]) = rng_scan e (rng_ledger l)"
  by (simp add: rng_ledger_def)

lemma rng_flag:
  "fst (rng_ledger (rng_log (rng_run calls))) = ctr_drbg_init_state (rng_run calls)"
proof (induction calls rule: rev_induct)
  case Nil
  then show ?case by (simp add: rng_run_def rng_ledger_def)
next
  case (snoc x calls)
  obtain a b c where "rng_ledger (rng_log (rng_run calls)) = (a, b, c)" by (rule prod_cases3)
  with snoc show ?case
    by (cases x) (auto simp: rng_run_snoc crypto_get_random_def crypto_mbedtls_ctr_drbg_def ctr_drbg_init_def
      crypto_unload_def rng_ledger_def Let_def)
qed

lemma rng_good:
  assumes "seeds_ok calls"
  shows "snd (rng_ledger (rng_log (rng_run calls))) = (True, if ctr_drbg_init_state (rng_run calls) then 1 else 0)"
  using assms
proof (induction calls rule: rev_induct)
  case Nil
  then show ?case by (simp add: rng_run_def rng_ledger_def)
next
  case (snoc x calls)
  obtain a b c where l: "rng_ledger (rng_log (rng_run calls)) = (a, b, c)" by (rule prod_cases3)
  have "seeds_ok calls" and x: "\<And>ok d n. x = Get_random ok d n \<Longrightarrow> ok" using snoc.prems by (auto simp: seeds_ok_def)
  with snoc.IH l rng_flag [of calls] show ?case
    by (cases x) (auto simp: rng_run_snoc crypto_get_random_def crypto_mbedtls_ctr_drbg_def ctr_drbg_init_def
      crypto_unload_def rng_ledger_def Let_def)
qed

text \<open>
  whatever is called in whatever order, the flag says whether the generator is seeded. As long as
  seeding works, every number is drawn from a seeded generator, and there is one context while the
  flag is set and none otherwise. When seeding fails, the number is drawn from the unseeded
  generator all the same, and its contexts are initialised over again without being freed.
\<close>

theorem rng_seeded:
  "fst (rng_ledger (rng_log (rng_run calls))) = ctr_drbg_init_state (rng_run calls) \<and>
   (seeds_ok calls \<longrightarrow>
     snd (rng_ledger (rng_log (rng_run calls))) = (True, if ctr_drbg_init_state (rng_run calls) then 1 else 0)) \<and>
   (\<not> ctr_drbg_init_state (rng_run calls) \<longrightarrow>
     (let s = rng_run (calls @ [Get_random False 0 n])
      in fst (crypto_get_random False 0 n (rng_run calls)) = 0 \<and> \<not> ctr_drbg_init_state s \<and>
         rng_log s = rng_log (rng_run calls) @ [Rng_init, Rng_seed False, Rng_draw n] \<and>
         \<not> fst (snd (rng_ledger (rng_log s))) \<and> crypto_unload s = s))"
proof -
  obtain a b c where l: "rng_ledger (rng_log (rng_run calls)) = (a, b, c)" by (rule prod_cases3)
  then show ?thesis using rng_flag [of calls] rng_good [of calls]
    by (auto simp: rng_run_snoc crypto_get_random_def crypto_mbedtls_ctr_drbg_def ctr_drbg_init_def
      crypto_unload_def rng_ledger_def Let_def)
qed

lemma rng_seeded_witness:
  "snd (rng_ledger (rng_log (rng_run [Get_random True 0 4, Unload, Get_random True 0 8]))) = (True, 1) \<and>
   \<not> fst (snd (rng_ledger (rng_log (rng_run ([] @ [Get_random False 0 32])))))"
proof -
  have "ctr_drbg_init_state (rng_run [Get_random True 0 4, Unload, Get_random True 0 8])" "\<not> ctr_drbg_init_state (rng_run [])"
    by (simp_all add: rng_run_def crypto_get_random_def crypto_mbedtls_ctr_drbg_def ctr_drbg_init_def crypto_unload_def)
  then show ?thesis
    using rng_seeded [of "[Get_random True 0 4, Unload, Get_random True 0 8]" 0] rng_seeded [of "[]" 32]
    by (auto simp: seeds_ok_def Let_def)
qed

end
