(* ===== verification/Modular.thy ===== *)
theory Modular
  imports Main
begin

text \<open>
  The number theory that the elliptic curve code relies on, for a prime modulus: Euclid's lemma,
  Fermat's little theorem, and the square root by exponentiation for a modulus that is 3 modulo 4.
\<close>

definition prime_int :: "int \<Rightarrow> bool" where
  "prime_int p \<longleftrightarrow> 1 < p \<and> (\<forall>d. 0 < d \<longrightarrow> d dvd p \<longrightarrow> d = 1 \<or> d = p)"

lemma prime_int_coprime:
  assumes "prime_int p" "\<not> p dvd x"
  shows "coprime p x"
proof -
  have "gcd p x dvd p" "0 < gcd p x" using assms by (auto simp: prime_int_def)
  then have "gcd p x = 1 \<or> gcd p x = p" using assms(1) unfolding prime_int_def by blast
  moreover have "gcd p x dvd x" by simp
  ultimately show ?thesis using assms(2) by (metis coprime_iff_gcd_eq_1)
qed

lemma prime_int_dvd_mult: "prime_int p \<Longrightarrow> p dvd x * y \<longleftrightarrow> p dvd x \<or> p dvd y"
  using prime_int_coprime [of p x] by (cases "p dvd x") (auto simp: coprime_dvd_mult_right_iff)

lemma prime_int_dvd_power: "prime_int p \<Longrightarrow> p dvd x ^ n \<longleftrightarrow> p dvd x \<and> 0 < n"
  by (induction n) (auto simp: prime_int_dvd_mult prime_int_def zdvd1_eq)

lemma prime_int_dvd_prod:
  assumes "prime_int p" "finite A" "p dvd prod f A"
  shows "\<exists>i \<in> A. p dvd f i"
  using assms(2,3)
proof (induction A)
  case empty
  then show ?case using assms(1) by (auto simp: prime_int_def zdvd1_eq)
next
  case (insert x A)
  then show ?case using prime_int_dvd_mult [OF assms(1)] by auto
qed

text \<open>Multiplication by a number that is no multiple of \<open>p\<close> permutes the residues \<open>1, ..., p - 1\<close>.\<close>

lemma residues_permuted:
  assumes "prime_int p" "\<not> p dvd a"
  shows "bij_betw (\<lambda>x. a * x mod p) {1..p - 1} {1..p - 1}"
proof -
  have p: "1 < p" using assms(1) by (simp add: prime_int_def)
  have inj: "inj_on (\<lambda>x. a * x mod p) {1..p - 1}"
  proof (rule inj_onI)
    fix x y assume xy: "x \<in> {1..p - 1}" "y \<in> {1..p - 1}" "a * x mod p = a * y mod p"
    then have "p dvd a * (x - y)" by (simp add: mod_eq_dvd_iff right_diff_distrib)
    then have "p dvd x - y" using assms prime_int_dvd_mult by blast
    then have "x mod p = y mod p" by (simp add: mod_eq_dvd_iff)
    with xy p show "x = y" by simp
  qed
  have "(\<lambda>x. a * x mod p) ` {1..p - 1} \<subseteq> {1..p - 1}"
  proof clarify
    fix x assume x: "x \<in> {1..p - 1}"
    then have "\<not> p dvd x" using zdvd_not_zless by auto
    then have "a * x mod p \<noteq> 0" using assms prime_int_dvd_mult by (metis dvd_eq_mod_eq_0)
    moreover have "0 \<le> a * x mod p" "a * x mod p < p" using p by simp_all
    ultimately show "a * x mod p \<in> {1..p - 1}" by simp
  qed
  moreover have "card ((\<lambda>x. a * x mod p) ` {1..p - 1}) = card {1..p - 1}" by (rule card_image [OF inj])
  ultimately have "(\<lambda>x. a * x mod p) ` {1..p - 1} = {1..p - 1}" by (intro card_subset_eq) simp_all
  with inj show ?thesis by (simp add: bij_betw_def)
qed

theorem fermat_little:
  assumes "prime_int p" "\<not> p dvd a"
  shows "a ^ nat (p - 1) mod p = 1"
proof -
  let ?S = "{1..p - 1}" and ?P = "\<Prod>{1..p - 1} :: int"
  have p: "1 < p" using assms(1) by (simp add: prime_int_def)
  have "(\<Prod>x \<in> ?S. a * x mod p) = ?P"
    by (rule prod.reindex_bij_betw [OF residues_permuted [OF assms], of "\<lambda>x. x"])
  moreover have "(\<Prod>x \<in> ?S. a * x mod p) mod p = (\<Prod>x \<in> ?S. a * x) mod p" by (rule mod_prod_eq)
  moreover have "(\<Prod>x \<in> ?S. a * x) = a ^ nat (p - 1) * ?P" by (simp add: prod.distrib)
  ultimately have "(a ^ nat (p - 1) * ?P) mod p = ?P mod p" by simp
  then have "p dvd (a ^ nat (p - 1) - 1) * ?P" by (simp add: mod_eq_dvd_iff left_diff_distrib)
  moreover have "\<not> p dvd ?P"
  proof
    assume "p dvd ?P"
    then obtain i where "i \<in> ?S" "p dvd i" using prime_int_dvd_prod [OF assms(1), of ?S "\<lambda>x. x"] by auto
    then show False using zdvd_imp_le [of p i] by auto
  qed
  ultimately have "p dvd a ^ nat (p - 1) - 1" using assms(1) prime_int_dvd_mult by blast
  then have "a ^ nat (p - 1) mod p = 1 mod p" by (simp add: mod_eq_dvd_iff)
  with p show ?thesis by simp
qed

text \<open>For \<open>p\<close> = 3 modulo 4, \<open>a\<close> to the power \<open>(p + 1) / 4\<close> is a square root of \<open>a\<close> if \<open>a\<close> satisfies Euler's criterion.\<close>

lemma root_3_mod_4:
  assumes "p mod 4 = 3" "0 < p" "a ^ nat ((p - 1) div 2) mod p = (1 :: int)"
  shows "(a ^ nat ((p + 1) div 4)) ^ 2 mod p = a mod p"
proof -
  obtain k where k: "p = 4 * int k + 3"
  proof
    show "p = 4 * int (nat (p div 4)) + 3" using assms(1,2) div_mult_mod_eq [of p 4] by (simp add: pos_imp_zdiv_nonneg_iff)
  qed
  have e: "nat ((p - 1) div 2) = 2 * k + 1" "nat ((p + 1) div 4) = k + 1" using k by simp_all
  have "(a ^ (k + 1)) ^ 2 = a * a ^ (2 * k + 1)" by (simp only: power_mult [symmetric] power_Suc [symmetric]) (simp add: mult.commute)
  moreover have "a * a ^ (2 * k + 1) mod p = a * (a ^ (2 * k + 1) mod p) mod p" by (simp add: mod_mult_right_eq)
  ultimately show ?thesis using assms(3) by (simp add: e)
qed

lemma euler_of_square:
  assumes "prime_int p" "odd p" "\<not> p dvd a" "y ^ 2 mod p = a mod p"
  shows "a ^ nat ((p - 1) div 2) mod p = 1"
proof -
  have y: "\<not> p dvd y"
  proof
    assume "p dvd y"
    then have "y ^ 2 mod p = 0" by (simp add: power2_eq_square)
    with assms(3,4) show False by (simp add: dvd_eq_mod_eq_0)
  qed
  have "1 < p" using assms(1) by (simp add: prime_int_def)
  then have "2 * nat ((p - 1) div 2) = nat (p - 1)" using assms(2) by (auto elim!: oddE simp: nat_mult_distrib)
  then have "(y ^ 2) ^ nat ((p - 1) div 2) mod p = 1"
    using fermat_little [OF assms(1) y] by (simp flip: power_mult)
  then show ?thesis using assms(4) by (metis power_mod)
qed

text \<open>Euler's criterion for such a modulus.\<close>

theorem euler_3_mod_4:
  assumes "prime_int p" "p mod 4 = 3" "\<not> p dvd a"
  shows "a ^ nat ((p - 1) div 2) mod p = 1 \<longleftrightarrow> (\<exists>y. y ^ 2 mod p = a mod p)"
proof -
  have "odd p" using assms(2) by presburger
  moreover have "0 < p" using assms(1) by (simp add: prime_int_def)
  ultimately show ?thesis using root_3_mod_4 [OF assms(2)] euler_of_square [OF assms(1) _ assms(3)] by blast
qed

text \<open>For a non-square the same power is a root of \<open>- a\<close>.\<close>

lemma root_of_minus:
  assumes p: "prime_int p" "p mod 4 = 3" and no: "\<not> (\<exists>y. y ^ 2 mod p = a mod p)"
  shows "(a ^ nat ((p + 1) div 4)) ^ 2 mod p = (- a) mod p"
proof -
  have a: "\<not> p dvd a"
  proof
    assume "p dvd a"
    then have "0 ^ 2 mod p = a mod p" by simp
    with no show False by blast
  qed
  have p1: "1 < p" using p(1) by (simp add: prime_int_def)
  obtain k where k: "p = 4 * int k + 3"
  proof
    show "p = 4 * int (nat (p div 4)) + 3" using p(2) p1 div_mult_mod_eq [of p 4] by (simp add: pos_imp_zdiv_nonneg_iff)
  qed
  have e: "nat ((p - 1) div 2) = 2 * k + 1" "nat ((p + 1) div 4) = k + 1" "nat (p - 1) = 2 * (2 * k + 1)" using k by simp_all
  let ?h = "a ^ (2 * k + 1)"
  have "(?h - 1) * (?h + 1) = a ^ nat (p - 1) - 1"
    unfolding e(3) by (simp add: algebra_simps flip: power_add power_Suc power_mult)
  moreover have "p dvd a ^ nat (p - 1) - 1" using fermat_little [OF p(1) a] p1 by (simp add: mod_eq_dvd_iff flip: mod_eq_dvd_iff)
  ultimately have "p dvd ?h - 1 \<or> p dvd ?h + 1" using prime_int_dvd_mult [OF p(1)] by metis
  moreover have "\<not> p dvd ?h - 1"
  proof
    assume "p dvd ?h - 1"
    then have "?h mod p = 1 mod p" by (simp add: mod_eq_dvd_iff)
    then have "?h mod p = 1" using p1 by simp
    with euler_3_mod_4 [OF p a] no e(1) show False by simp
  qed
  ultimately have "p dvd a * (?h + 1)" by simp
  moreover have "a * (?h + 1) = (a ^ (k + 1)) ^ 2 - (- a)"
    by (simp add: algebra_simps flip: power_mult power_Suc)
  ultimately show ?thesis unfolding e(2) by (simp add: mod_eq_dvd_iff)
qed

end
