(* ===== verification/Crypto_Bignum.thy ===== *)
theory Crypto_Bignum
  imports MM_Prelude Modular
begin

text \<open>
  The big number interface of crypto_mbedtls_mm.c that the SAE handshake computes with, and its
  constant-time selectors. Numbers are objects in a store, because the functions take pointers that
  may be equal; the Mbed TLS functions are parameters that act on the store, with their documented
  behaviour as hypotheses.
\<close>

section \<open>Constant-time selection\<close>

definition const_time_fill_msb :: "u32 \<Rightarrow> u32" where
  "const_time_fill_msb v = drop_bit 31 v * NOT 0"

definition const_time_is_zero :: "u32 \<Rightarrow> u32" where
  "const_time_is_zero v = const_time_fill_msb (NOT v AND (v - 1))"

definition const_time_eq :: "u32 \<Rightarrow> u32 \<Rightarrow> u32" where
  "const_time_eq a b = const_time_is_zero (a XOR b)"

definition const_time_eq_u8 :: "u32 \<Rightarrow> u32 \<Rightarrow> u8" where
  "const_time_eq_u8 a b = ucast (const_time_eq a b)"

definition const_time_select :: "u32 \<Rightarrow> u32 \<Rightarrow> u32 \<Rightarrow> u32" where
  "const_time_select m true_val false_val = (m AND true_val) OR (NOT m AND false_val)"

text \<open>\<open>int\<close> is 32 bits wide; the casts between \<open>int\<close> and \<open>unsigned int\<close> keep the bits.\<close>

definition const_time_select_int :: "u32 \<Rightarrow> int \<Rightarrow> int \<Rightarrow> int" where
  "const_time_select_int m true_val false_val = sint (const_time_select m (of_int true_val) (of_int false_val))"

lemma const_time_fill_msb: "const_time_fill_msb v = (if bit v 31 then - 1 else 0)"
proof -
  have "unat (drop_bit 31 v) = unat v div 2147483648" by (simp add: drop_bit_eq_div unat_div_distrib)
  moreover have "unat v div 2147483648 = (if bit v 31 then 1 else 0)"
    using unat_u32_lt [of v] by (auto simp: bit_31_iff intro!: div_nat_eqI)
  ultimately have "drop_bit 31 v = (if bit v 31 then 1 else 0)" by (simp add: word_unat_eq_iff)
  then show ?thesis by (simp add: const_time_fill_msb_def)
qed

lemma const_time_is_zero: "const_time_is_zero v = (if v = 0 then - 1 else 0)"
proof (cases "v = 0")
  case False
  then have "unat (v - 1) = unat v - 1" "0 < unat v" by (simp_all add: unat_minus_one unat_gt_0)
  then have "bit (v - 1) 31 \<Longrightarrow> bit v 31" by (simp add: bit_31_iff)
  then show ?thesis using False by (auto simp: const_time_is_zero_def const_time_fill_msb bit_and_iff bit_not_iff)
qed (simp add: const_time_is_zero_def const_time_fill_msb bit_and_iff bit_not_iff bit_minus_1_iff possible_bit_word)

lemma const_time_eq: "const_time_eq a b = (if a = b then - 1 else 0)"
proof -
  have "a = (a XOR b) XOR b" by (simp add: xor.assoc)
  then have "a XOR b = 0 \<longleftrightarrow> a = b" by fastforce
  then show ?thesis by (simp add: const_time_eq_def const_time_is_zero)
qed

lemma const_time_select: "const_time_select (- 1) x y = x" "const_time_select 0 x y = y"
  by (simp_all add: const_time_select_def)

lemma const_time_select_int:
  assumes "- 2147483648 \<le> x" "x < 2147483648" "- 2147483648 \<le> y" "y < 2147483648"
  shows "const_time_select_int (- 1) x y = x" "const_time_select_int 0 x y = y"
  using assms by (simp_all add: const_time_select_int_def const_time_select sint_sbintrunc' signed_take_bit_int_eq_self)

section \<open>The store and the library\<close>

text \<open>
  \<open>Obj\<close> is a number on the heap or in file scope, \<open>Tmp\<close> one that is a local variable of the running
  function. \<open>mpis\<close> holds the initialised numbers with their values; \<open>outside\<close> is the rest of the
  world, which decides for instance whether an allocation succeeds.
\<close>

datatype bn_ptr = Obj nat | Tmp nat

record 'm bn_world =
  mpis :: "bn_ptr \<Rightarrow> int option"
  outside :: 'm

definition mpi_val :: "'m bn_world \<Rightarrow> bn_ptr \<Rightarrow> int" where
  "mpi_val st p = the (mpis st p)"

text \<open>\<open>mbedtls_mpi_init\<close>, and \<open>mbedtls_mpi_free\<close> of a local or followed by \<open>free\<close>.\<close>

definition mbedtls_mpi_init :: "bn_ptr \<Rightarrow> 'm bn_world \<Rightarrow> 'm bn_world" where
  "mbedtls_mpi_init p st = st\<lparr>mpis := (mpis st)(p \<mapsto> 0)\<rparr>"

definition mbedtls_mpi_free :: "bn_ptr \<Rightarrow> 'm bn_world \<Rightarrow> 'm bn_world" where
  "mbedtls_mpi_free p st = st\<lparr>mpis := (mpis st)(p := None)\<rparr>"

text \<open>
  The library calls on the store: the result first where there is one. \<open>mpi_limbs\<close> are the 32-bit
  limbs of a number, least significant first.
\<close>

record 'm mpi_lib =
  bn_malloc :: "'m bn_world \<Rightarrow> bn_ptr option \<times> 'm bn_world"
  mpi_read_binary :: "bn_ptr \<Rightarrow> u8 list \<Rightarrow> 'm bn_world \<Rightarrow> int \<times> 'm bn_world"
  mpi_lset :: "bn_ptr \<Rightarrow> int \<Rightarrow> 'm bn_world \<Rightarrow> int \<times> 'm bn_world"
  mpi_copy :: "bn_ptr \<Rightarrow> bn_ptr \<Rightarrow> 'm bn_world \<Rightarrow> int \<times> 'm bn_world"
  mpi_add_mpi :: "bn_ptr \<Rightarrow> bn_ptr \<Rightarrow> bn_ptr \<Rightarrow> 'm bn_world \<Rightarrow> int \<times> 'm bn_world"
  mpi_sub_mpi :: "bn_ptr \<Rightarrow> bn_ptr \<Rightarrow> bn_ptr \<Rightarrow> 'm bn_world \<Rightarrow> int \<times> 'm bn_world"
  mpi_sub_abs :: "bn_ptr \<Rightarrow> bn_ptr \<Rightarrow> bn_ptr \<Rightarrow> 'm bn_world \<Rightarrow> int \<times> 'm bn_world"
  mpi_mul_mpi :: "bn_ptr \<Rightarrow> bn_ptr \<Rightarrow> bn_ptr \<Rightarrow> 'm bn_world \<Rightarrow> int \<times> 'm bn_world"
  mpi_mod_mpi :: "bn_ptr \<Rightarrow> bn_ptr \<Rightarrow> bn_ptr \<Rightarrow> 'm bn_world \<Rightarrow> int \<times> 'm bn_world"
  mpi_div_mpi :: "bn_ptr \<Rightarrow> bn_ptr \<Rightarrow> bn_ptr \<Rightarrow> 'm bn_world \<Rightarrow> int \<times> 'm bn_world"
  mpi_inv_mod :: "bn_ptr \<Rightarrow> bn_ptr \<Rightarrow> bn_ptr \<Rightarrow> 'm bn_world \<Rightarrow> int \<times> 'm bn_world"
  mpi_exp_mod :: "bn_ptr \<Rightarrow> bn_ptr \<Rightarrow> bn_ptr \<Rightarrow> bn_ptr \<Rightarrow> 'm bn_world \<Rightarrow> int \<times> 'm bn_world"
  mpi_add_int :: "bn_ptr \<Rightarrow> bn_ptr \<Rightarrow> int \<Rightarrow> 'm bn_world \<Rightarrow> int \<times> 'm bn_world"
  mpi_sub_int :: "bn_ptr \<Rightarrow> bn_ptr \<Rightarrow> int \<Rightarrow> 'm bn_world \<Rightarrow> int \<times> 'm bn_world"
  mpi_shift_r :: "bn_ptr \<Rightarrow> nat \<Rightarrow> 'm bn_world \<Rightarrow> int \<times> 'm bn_world"
  mpi_random :: "bn_ptr \<Rightarrow> int \<Rightarrow> bn_ptr \<Rightarrow> 'm bn_world \<Rightarrow> int \<times> 'm bn_world"
  mpi_size :: "int \<Rightarrow> nat"
  mpi_write_binary :: "int \<Rightarrow> nat \<Rightarrow> int \<times> u8 list"
  mpi_limbs :: "'m bn_world \<Rightarrow> bn_ptr \<Rightarrow> u32 list"

definition os2ip :: "u8 list \<Rightarrow> int" where
  "os2ip bs = foldl (\<lambda>a b. 256 * a + uint b) 0 bs"

primrec limbs_value :: "u32 list \<Rightarrow> int" where
  "limbs_value [] = 0"
| "limbs_value (l # ls) = uint l + 4294967296 * limbs_value ls"

text \<open>
  A call that sets \<open>X\<close>: with code 0 the value is the documented one (\<open>None\<close> when the arguments are
  refused), with another code \<open>X\<close> holds some number; no other object changes.
\<close>

definition mpi_sets :: "bn_ptr \<Rightarrow> int option \<Rightarrow> 'm bn_world \<Rightarrow> int \<times> 'm bn_world \<Rightarrow> bool" where
  "mpi_sets X v st r \<longleftrightarrow>
     (fst r = 0 \<longrightarrow> v \<noteq> None \<and> mpis (snd r) = (mpis st)(X := v)) \<and>
     (fst r \<noteq> 0 \<longrightarrow> (\<exists>y. mpis (snd r) = (mpis st)(X \<mapsto> y)))"

definition exp_mod_value :: "int \<Rightarrow> int \<Rightarrow> int \<Rightarrow> int option" where
  "exp_mod_value a e n = (if 0 < n \<and> odd n \<and> 0 \<le> e then Some (a ^ nat e mod n) else None)"

definition mod_value :: "int \<Rightarrow> int \<Rightarrow> int option" where
  "mod_value a n = (if 0 < n then Some (a mod n) else None)"

definition mpi_ok :: "'m mpi_lib \<Rightarrow> bool" where
  "mpi_ok lib \<longleftrightarrow>
     (\<forall>st p st'. bn_malloc lib st = (p, st') \<longrightarrow> mpis st' = mpis st \<and> (\<forall>q. p = Some q \<longrightarrow> mpis st q = None \<and> (\<exists>n. q = Obj n))) \<and>
     (\<forall>st X b. mpi_sets X (Some (os2ip b)) st (mpi_read_binary lib X b st)) \<and>
     (\<forall>st X z. mpi_sets X (Some z) st (mpi_lset lib X z st)) \<and>
     (\<forall>st X A. mpi_sets X (Some (mpi_val st A)) st (mpi_copy lib X A st)) \<and>
     (\<forall>st X A B. mpi_sets X (Some (mpi_val st A + mpi_val st B)) st (mpi_add_mpi lib X A B st)) \<and>
     (\<forall>st X A B. mpi_sets X (Some (mpi_val st A - mpi_val st B)) st (mpi_sub_mpi lib X A B st)) \<and>
     (\<forall>st X A B. mpi_sets X (if \<bar>mpi_val st B\<bar> \<le> \<bar>mpi_val st A\<bar> then Some (\<bar>mpi_val st A\<bar> - \<bar>mpi_val st B\<bar>) else None) st
        (mpi_sub_abs lib X A B st)) \<and>
     (\<forall>st X A B. mpi_sets X (Some (mpi_val st A * mpi_val st B)) st (mpi_mul_mpi lib X A B st)) \<and>
     (\<forall>st X A B. X \<noteq> B \<longrightarrow> mpi_sets X (mod_value (mpi_val st A) (mpi_val st B)) st (mpi_mod_mpi lib X A B st)) \<and>
     (\<forall>st X A B. X \<noteq> A \<and> X \<noteq> B \<and> 0 \<le> mpi_val st A \<and> 0 \<le> mpi_val st B \<longrightarrow>
        mpi_sets X (if mpi_val st B = 0 then None else Some (mpi_val st A div mpi_val st B)) st (mpi_div_mpi lib X A B st)) \<and>
     (\<forall>st X A N. \<exists>v. mpi_sets X v st (mpi_inv_mod lib X A N st) \<and>
        (\<forall>x. v = Some x \<longrightarrow> 0 \<le> x \<and> x < mpi_val st N \<and> mpi_val st A * x mod mpi_val st N = 1)) \<and>
     (\<forall>st X A E N. X \<noteq> E \<and> X \<noteq> N \<longrightarrow>
        mpi_sets X (exp_mod_value (mpi_val st A) (mpi_val st E) (mpi_val st N)) st (mpi_exp_mod lib X A E N st)) \<and>
     (\<forall>st X A b. mpi_sets X (Some (mpi_val st A + b)) st (mpi_add_int lib X A b st)) \<and>
     (\<forall>st X A b. mpi_sets X (Some (mpi_val st A - b)) st (mpi_sub_int lib X A b st)) \<and>
     (\<forall>st X n. 0 \<le> mpi_val st X \<longrightarrow> mpi_sets X (Some (mpi_val st X div 2 ^ n)) st (mpi_shift_r lib X n st)) \<and>
     (\<forall>st X m N. \<exists>v. mpi_sets X v st (mpi_random lib X m N st) \<and> (\<forall>x. v = Some x \<longrightarrow> m \<le> x \<and> x < mpi_val st N)) \<and>
     (\<forall>a. 0 \<le> a \<longrightarrow> a < 256 ^ mpi_size lib a \<and> (0 < mpi_size lib a \<longrightarrow> 256 ^ (mpi_size lib a - 1) \<le> a)) \<and>
     (\<forall>a n. 0 \<le> a \<longrightarrow> (if a < 256 ^ n then fst (mpi_write_binary lib a n) = 0 \<and>
           length (snd (mpi_write_binary lib a n)) = n \<and> os2ip (snd (mpi_write_binary lib a n)) = a
         else fst (mpi_write_binary lib a n) \<noteq> 0)) \<and>
     (\<forall>st A. limbs_value (mpi_limbs lib st A) = \<bar>mpi_val st A\<bar>)"

section \<open>The operations\<close>

definition crypto_bignum_init :: "'m mpi_lib \<Rightarrow> 'm bn_world \<Rightarrow> bn_ptr option \<times> 'm bn_world" where
  "crypto_bignum_init lib st =
     (let (bn, st) = bn_malloc lib st
      in case bn of None \<Rightarrow> (None, st) | Some p \<Rightarrow> (Some p, mbedtls_mpi_init p st))"

definition crypto_bignum_init_set :: "'m mpi_lib \<Rightarrow> u8 list \<Rightarrow> 'm bn_world \<Rightarrow> bn_ptr option \<times> 'm bn_world" where
  "crypto_bignum_init_set lib buf st =
     (let (bn, st) = bn_malloc lib st
      in case bn of
           None \<Rightarrow> (None, st)
         | Some p \<Rightarrow> let (rc, st) = mpi_read_binary lib p buf (mbedtls_mpi_init p st)
                     in if rc = 0 then (Some p, st) else (None, mbedtls_mpi_free p st))"

text \<open>\<open>(int) val\<close> is the two's complement reading of the 32 bits.\<close>

definition crypto_bignum_init_uint :: "'m mpi_lib \<Rightarrow> u32 \<Rightarrow> 'm bn_world \<Rightarrow> bn_ptr option \<times> 'm bn_world" where
  "crypto_bignum_init_uint lib v st =
     (let (bn, st) = bn_malloc lib st
      in case bn of
           None \<Rightarrow> (None, st)
         | Some p \<Rightarrow> let (rc, st) = mpi_lset lib p (sint v) (mbedtls_mpi_init p st)
                     in if rc = 0 then (Some p, st) else (None, mbedtls_mpi_free p st))"

definition crypto_bignum_deinit :: "bn_ptr \<Rightarrow> 'm bn_world \<Rightarrow> 'm bn_world" where
  "crypto_bignum_deinit n st = mbedtls_mpi_free n st"

text \<open>The number written, and the octets written from the start of the buffer.\<close>

definition crypto_bignum_to_bin :: "'m mpi_lib \<Rightarrow> bn_ptr \<Rightarrow> nat \<Rightarrow> nat \<Rightarrow> 'm bn_world \<Rightarrow> int \<times> u8 list" where
  "crypto_bignum_to_bin lib a buflen padlen st =
     (let n = mpi_size lib (mpi_val st a);
          n = (if n < padlen then padlen else n)
      in if n > buflen then (- 1, [])
         else let (rc, out) = mpi_write_binary lib (mpi_val st a) n
              in (if rc \<noteq> 0 then - 1 else int n, out))"

definition minus1_if :: "int \<times> 'm bn_world \<Rightarrow> int \<times> 'm bn_world" where
  "minus1_if r = (if fst r \<noteq> 0 then - 1 else 0, snd r)"

text \<open>\<open>f || g\<close> on library calls: the second runs only when the first returned 0.\<close>

definition or_else :: "int \<times> 'm bn_world \<Rightarrow> ('m bn_world \<Rightarrow> int \<times> 'm bn_world) \<Rightarrow> int \<times> 'm bn_world" where
  "or_else r g = (if fst r \<noteq> 0 then r else g (snd r))"

definition crypto_bignum_rand :: "'m mpi_lib \<Rightarrow> bn_ptr \<Rightarrow> bn_ptr \<Rightarrow> 'm bn_world \<Rightarrow> int \<times> 'm bn_world" where
  "crypto_bignum_rand lib r m st = minus1_if (mpi_random lib r 0 m st)"

definition crypto_bignum_add :: "'m mpi_lib \<Rightarrow> bn_ptr \<Rightarrow> bn_ptr \<Rightarrow> bn_ptr \<Rightarrow> 'm bn_world \<Rightarrow> int \<times> 'm bn_world" where
  "crypto_bignum_add lib a b c st = minus1_if (mpi_add_mpi lib c a b st)"

definition crypto_bignum_mod :: "'m mpi_lib \<Rightarrow> bn_ptr \<Rightarrow> bn_ptr \<Rightarrow> bn_ptr \<Rightarrow> 'm bn_world \<Rightarrow> int \<times> 'm bn_world" where
  "crypto_bignum_mod lib a b c st = minus1_if (mpi_mod_mpi lib c a b st)"

definition crypto_bignum_exptmod ::
  "'m mpi_lib \<Rightarrow> bn_ptr \<Rightarrow> bn_ptr \<Rightarrow> bn_ptr \<Rightarrow> bn_ptr \<Rightarrow> 'm bn_world \<Rightarrow> int \<times> 'm bn_world" where
  "crypto_bignum_exptmod lib a b c d st =
     (if b = d \<or> c = d
      then let R = Tmp 0;
               st = mbedtls_mpi_init R st;
               (rc, st) = minus1_if (or_else (mpi_exp_mod lib R a b c st) (mpi_copy lib d R))
           in (rc, mbedtls_mpi_free R st)
      else minus1_if (mpi_exp_mod lib d a b c st))"

definition crypto_bignum_inverse :: "'m mpi_lib \<Rightarrow> bn_ptr \<Rightarrow> bn_ptr \<Rightarrow> bn_ptr \<Rightarrow> 'm bn_world \<Rightarrow> int \<times> 'm bn_world" where
  "crypto_bignum_inverse lib a b c st = minus1_if (mpi_inv_mod lib c a b st)"

definition crypto_bignum_sub :: "'m mpi_lib \<Rightarrow> bn_ptr \<Rightarrow> bn_ptr \<Rightarrow> bn_ptr \<Rightarrow> 'm bn_world \<Rightarrow> int \<times> 'm bn_world" where
  "crypto_bignum_sub lib a b c st = minus1_if (mpi_sub_mpi lib c a b st)"

definition crypto_bignum_div :: "'m mpi_lib \<Rightarrow> bn_ptr \<Rightarrow> bn_ptr \<Rightarrow> bn_ptr \<Rightarrow> 'm bn_world \<Rightarrow> int \<times> 'm bn_world" where
  "crypto_bignum_div lib a b c st =
     (let R = Tmp 0;
          st = mbedtls_mpi_init R st;
          (rc, st) = minus1_if (or_else (mpi_div_mpi lib R a b st) (mpi_copy lib c R))
      in (rc, mbedtls_mpi_free R st))"

definition crypto_bignum_addmod ::
  "'m mpi_lib \<Rightarrow> bn_ptr \<Rightarrow> bn_ptr \<Rightarrow> bn_ptr \<Rightarrow> bn_ptr \<Rightarrow> 'm bn_world \<Rightarrow> int \<times> 'm bn_world" where
  "crypto_bignum_addmod lib a b c d st =
     minus1_if (or_else (mpi_add_mpi lib d a b st) (mpi_mod_mpi lib d d c))"

definition crypto_bignum_mulmod ::
  "'m mpi_lib \<Rightarrow> bn_ptr \<Rightarrow> bn_ptr \<Rightarrow> bn_ptr \<Rightarrow> bn_ptr \<Rightarrow> 'm bn_world \<Rightarrow> int \<times> 'm bn_world" where
  "crypto_bignum_mulmod lib a b c d st =
     minus1_if (or_else (mpi_mul_mpi lib d a b st) (mpi_mod_mpi lib d d c))"

definition crypto_bignum_sqrmod :: "'m mpi_lib \<Rightarrow> bn_ptr \<Rightarrow> bn_ptr \<Rightarrow> bn_ptr \<Rightarrow> 'm bn_world \<Rightarrow> int \<times> 'm bn_world" where
  "crypto_bignum_sqrmod lib a b c st = crypto_bignum_mulmod lib a a b c st"

definition crypto_bignum_rshift :: "'m mpi_lib \<Rightarrow> bn_ptr \<Rightarrow> nat \<Rightarrow> bn_ptr \<Rightarrow> 'm bn_world \<Rightarrow> int \<times> 'm bn_world" where
  "crypto_bignum_rshift lib a n r st = minus1_if (or_else (mpi_copy lib r a st) (mpi_shift_r lib r n))"

text \<open>\<open>mbedtls_mpi_cmp_mpi\<close> returns -1, 0 or 1; \<open>mbedtls_mpi_get_bit\<close> of bit 0 is the parity.\<close>

definition crypto_bignum_cmp :: "bn_ptr \<Rightarrow> bn_ptr \<Rightarrow> 'm bn_world \<Rightarrow> int" where
  "crypto_bignum_cmp a b st = sgn (mpi_val st a - mpi_val st b)"

definition crypto_bignum_is_zero :: "'m mpi_lib \<Rightarrow> bn_ptr \<Rightarrow> 'm bn_world \<Rightarrow> u32" where
  "crypto_bignum_is_zero lib a st = (if fold (OR) (mpi_limbs lib st a) 0 = 0 then 1 else 0)"

definition crypto_bignum_is_one :: "'m mpi_lib \<Rightarrow> bn_ptr \<Rightarrow> 'm bn_world \<Rightarrow> u32" where
  "crypto_bignum_is_one lib a st =
     (case mpi_limbs lib st a of
        [] \<Rightarrow> 0
      | p0 # ps \<Rightarrow> (if p0 = 1 then 1 else 0) AND (if fold (OR) ps 0 = 0 then 1 else 0))"

definition crypto_bignum_is_odd :: "bn_ptr \<Rightarrow> 'm bn_world \<Rightarrow> int" where
  "crypto_bignum_is_odd a st = \<bar>mpi_val st a\<bar> mod 2"

definition crypto_bignum_legendre :: "'m mpi_lib \<Rightarrow> bn_ptr \<Rightarrow> bn_ptr \<Rightarrow> 'm bn_world \<Rightarrow> int \<times> 'm bn_world" where
  "crypto_bignum_legendre lib a p st =
     (let ex = Tmp 0; tmp = Tmp 1;
          st = mbedtls_mpi_init tmp (mbedtls_mpi_init ex st);
          (rc, st) = or_else (or_else (mpi_sub_int lib ex p 1 st) (mpi_shift_r lib ex 1)) (mpi_exp_mod lib tmp a ex p);
          res = (if rc = 0
                 then let res = - 1;
                          m = const_time_eq (crypto_bignum_is_one lib tmp st) 1;
                          res = const_time_select_int m 1 res;
                          m = const_time_eq (crypto_bignum_is_zero lib tmp st) 1
                      in const_time_select_int m 0 res
                 else - 2)
      in (res, mbedtls_mpi_free ex (mbedtls_mpi_free tmp st)))"

section \<open>What the operations compute\<close>

lemma mpi_setsD:
  assumes "mpi_sets X v st r"
  shows "fst r = 0 \<Longrightarrow> v \<noteq> None \<and> mpis (snd r) = (mpis st)(X := v)"
    and "fst r \<noteq> 0 \<Longrightarrow> \<exists>y. mpis (snd r) = (mpis st)(X \<mapsto> y)"
  using assms by (auto simp: mpi_sets_def)

lemma mpi_val_upd [simp]:
  "mpis st' = (mpis st)(X \<mapsto> v) \<Longrightarrow> mpi_val st' X = v"
  "mpis st' = (mpis st)(X \<mapsto> v) \<Longrightarrow> q \<noteq> X \<Longrightarrow> mpi_val st' q = mpi_val st q"
  by (simp_all add: mpi_val_def)

lemma minus1_if_simps [simp]:
  "snd (minus1_if r) = snd r" "fst (minus1_if r) = 0 \<longleftrightarrow> fst r = 0" "fst (minus1_if r) \<in> {0, - 1}"
  "fst (minus1_if r) = - 1 \<longleftrightarrow> fst r \<noteq> 0"
  by (simp_all add: minus1_if_def)

lemma or_else_simps:
  "rc \<noteq> 0 \<Longrightarrow> or_else (rc, st) g = (rc, st)"
  "or_else (0, st) g = g st"
  by (simp_all add: or_else_def)

text \<open>Two calls on the same destination: the value of the second, given that of the first.\<close>

lemma mpi_sets_then:
  assumes "mpi_sets X (Some u) st r"
    and "\<And>st1. mpis st1 = (mpis st)(X \<mapsto> u) \<Longrightarrow> mpi_sets X v st1 (g st1)"
  shows "mpi_sets X v st (or_else r g)"
proof (cases "fst r = 0")
  case True
  then have "mpis (snd r) = (mpis st)(X \<mapsto> u)" using mpi_setsD(1) [OF assms(1)] by simp
  with assms(2) [OF this] True show ?thesis by (simp add: mpi_sets_def or_else_def)
next
  case False
  with assms(1) show ?thesis by (simp add: mpi_sets_def or_else_def)
qed

lemma mpi_sets_minus1 [simp]: "mpi_sets X v st (minus1_if r) \<longleftrightarrow> mpi_sets X v st r"
  by (simp add: mpi_sets_def)

text \<open>A result computed in a fresh local and copied to its place; the local is gone afterwards.\<close>

lemma mpi_sets_local:
  assumes R: "mpis st R = None" "R \<noteq> d"
    and f: "mpi_sets R v (mbedtls_mpi_init R st) r"
    and copy: "\<And>st. mpi_sets d (Some (mpi_val st R)) st (copy st)"
    and d: "mpis st d \<noteq> None"
  shows "mpi_sets d v st (fst (or_else r copy), mbedtls_mpi_free R (snd (or_else r copy)))"
proof (cases "fst r = 0")
  case False
  then obtain y where "mpis (snd r) = (mpis st)(R \<mapsto> y)"
    using mpi_setsD(2) [OF f] by (auto simp: mbedtls_mpi_init_def)
  then have "mpis (mbedtls_mpi_free R (snd r)) = (mpis st)(d := mpis st d)" using R by (auto simp: mbedtls_mpi_free_def)
  moreover obtain z where "mpis st d = Some z" using d by auto
  then have "(mpis st)(d := mpis st d) = (mpis st)(d \<mapsto> z)" by simp
  ultimately show ?thesis using False by (auto simp: mpi_sets_def or_else_def)
next
  case True
  then obtain x where x: "v = Some x" and m: "mpis (snd r) = (mpis st)(R \<mapsto> x)"
    using mpi_setsD(1) [OF f] by (auto simp: mbedtls_mpi_init_def)
  then have "mpi_sets d (Some x) (snd r) (copy (snd r))" using copy [of "snd r"] by simp
  then have "\<exists>y. mpis (snd (copy (snd r))) = (mpis st)(R \<mapsto> x, d \<mapsto> y) \<and> (fst (copy (snd r)) = 0 \<longrightarrow> y = x)"
    unfolding mpi_sets_def m by (cases "fst (copy (snd r)) = 0") auto
  then obtain y where y: "mpis (snd (copy (snd r))) = (mpis st)(R \<mapsto> x, d \<mapsto> y)" "fst (copy (snd r)) = 0 \<Longrightarrow> y = x" by blast
  have "((mpis st)(R \<mapsto> x, d \<mapsto> y))(R := None) = (mpis st)(d \<mapsto> y)" using R by auto
  then show ?thesis using y x True by (auto simp: mpi_sets_def or_else_def mbedtls_mpi_free_def)
qed

text \<open>The laws one by one, in the form the proofs use.\<close>

lemma mpi_laws:
  assumes "mpi_ok lib"
  shows "mpi_sets X (Some (os2ip b)) st (mpi_read_binary lib X b st)"
    and "mpi_sets X (Some z) st (mpi_lset lib X z st)"
    and "mpi_sets X (Some (mpi_val st A)) st (mpi_copy lib X A st)"
    and "mpi_sets X (Some (mpi_val st A + mpi_val st B)) st (mpi_add_mpi lib X A B st)"
    and "mpi_sets X (Some (mpi_val st A - mpi_val st B)) st (mpi_sub_mpi lib X A B st)"
    and "mpi_sets X (Some (mpi_val st A * mpi_val st B)) st (mpi_mul_mpi lib X A B st)"
    and "X \<noteq> B \<Longrightarrow> mpi_sets X (mod_value (mpi_val st A) (mpi_val st B)) st (mpi_mod_mpi lib X A B st)"
    and "X \<noteq> A \<Longrightarrow> X \<noteq> B \<Longrightarrow> 0 \<le> mpi_val st A \<Longrightarrow> 0 \<le> mpi_val st B \<Longrightarrow>
      mpi_sets X (if mpi_val st B = 0 then None else Some (mpi_val st A div mpi_val st B)) st (mpi_div_mpi lib X A B st)"
    and "X \<noteq> E \<Longrightarrow> X \<noteq> N \<Longrightarrow>
      mpi_sets X (exp_mod_value (mpi_val st A) (mpi_val st E) (mpi_val st N)) st (mpi_exp_mod lib X A E N st)"
    and "mpi_sets X (Some (mpi_val st A + i)) st (mpi_add_int lib X A i st)"
    and "mpi_sets X (Some (mpi_val st A - i)) st (mpi_sub_int lib X A i st)"
    and "0 \<le> mpi_val st X \<Longrightarrow> mpi_sets X (Some (mpi_val st X div 2 ^ n)) st (mpi_shift_r lib X n st)"
    and "limbs_value (mpi_limbs lib st A) = \<bar>mpi_val st A\<bar>"
    and "0 \<le> a \<Longrightarrow> a < 256 ^ mpi_size lib a"
    and "0 \<le> a \<Longrightarrow> 0 < mpi_size lib a \<Longrightarrow> 256 ^ (mpi_size lib a - 1) \<le> a"
    and "0 \<le> a \<Longrightarrow> a < 256 ^ n \<Longrightarrow> fst (mpi_write_binary lib a n) = 0 \<and>
      length (snd (mpi_write_binary lib a n)) = n \<and> os2ip (snd (mpi_write_binary lib a n)) = a"
    and "bn_malloc lib st = (p, st') \<Longrightarrow> mpis st' = mpis st"
    and "bn_malloc lib st = (Some q, st') \<Longrightarrow> mpis st q = None"
    and "bn_malloc lib st = (Some q, st') \<Longrightarrow> \<exists>n. q = Obj n"
    and "mpi_sets X (if \<bar>mpi_val st B\<bar> \<le> \<bar>mpi_val st A\<bar> then Some (\<bar>mpi_val st A\<bar> - \<bar>mpi_val st B\<bar>) else None) st
      (mpi_sub_abs lib X A B st)"
    and "0 \<le> a \<Longrightarrow> fst (mpi_write_binary lib a n) = 0 \<Longrightarrow> a < 256 ^ n"
  by (insert assms, unfold mpi_ok_def) (elim conjE, blast | elim conjE, metis)+

lemma bignum_ring_ops:
  fixes st :: "'m bn_world"
  assumes "mpi_ok lib"
  shows "mpi_sets c (Some (mpi_val st a + mpi_val st b)) st (crypto_bignum_add lib a b c st)"
    and "mpi_sets c (Some (mpi_val st a - mpi_val st b)) st (crypto_bignum_sub lib a b c st)"
    and "c \<noteq> b \<Longrightarrow> mpi_sets c (mod_value (mpi_val st a) (mpi_val st b)) st (crypto_bignum_mod lib a b c st)"
    and "0 \<le> mpi_val st a \<Longrightarrow> mpi_sets c (Some (mpi_val st a div 2 ^ n)) st (crypto_bignum_rshift lib a n c st)"
proof -
  show "mpi_sets c (Some (mpi_val st a div 2 ^ n)) st (crypto_bignum_rshift lib a n c st)" if "0 \<le> mpi_val st a"
    unfolding crypto_bignum_rshift_def mpi_sets_minus1
  proof (rule mpi_sets_then [OF mpi_laws(3) [OF assms]])
    fix st1 :: "'m bn_world" assume st1: "mpis st1 = (mpis st)(c \<mapsto> mpi_val st a)"
    then have "mpi_val st1 c = mpi_val st a" by simp
    with mpi_laws(12) [OF assms, of st1 c n] that st1
    show "mpi_sets c (Some (mpi_val st a div 2 ^ n)) st1 (mpi_shift_r lib c n st1)" by simp
  qed
qed (simp_all add: crypto_bignum_add_def crypto_bignum_sub_def crypto_bignum_mod_def mpi_laws [OF assms])

section \<open>Modular arithmetic and aliasing\<close>

text \<open>The caller's numbers: not the local of the function, and the destination is initialised.\<close>

definition callers :: "'m bn_world \<Rightarrow> bn_ptr list \<Rightarrow> bn_ptr \<Rightarrow> bool" where
  "callers st args d \<longleftrightarrow> mpis st (Tmp 0) = None \<and> Tmp 0 \<notin> set args \<and> d \<noteq> Tmp 0 \<and> mpis st d \<noteq> None"

lemma callersD:
  assumes "callers st args d"
  shows "mpis st (Tmp 0) = None" "Tmp 0 \<noteq> d" "mpis st d \<noteq> None"
  using assms by (auto simp: callers_def)

lemma in_local:
  assumes "mpis st R = None" "R \<noteq> d" "mpis st d \<noteq> None" "mpi_ok lib" "mpi_sets R v (mbedtls_mpi_init R st) r"
  shows "mpi_sets d v st (let (rc, st) = minus1_if (or_else r (mpi_copy lib d R)) in (rc, mbedtls_mpi_free R st))"
proof -
  have "mpi_sets d v st (fst (or_else r (mpi_copy lib d R)), mbedtls_mpi_free R (snd (or_else r (mpi_copy lib d R))))"
    by (rule mpi_sets_local [OF assms(1,2,5) _ assms(3)]) (rule mpi_laws(3) [OF assms(4)])
  then show ?thesis by (simp add: mpi_sets_def split_beta)
qed

lemma mpi_val_init [simp]: "R \<noteq> a \<Longrightarrow> mpi_val (mbedtls_mpi_init R st) a = mpi_val st a"
  by (simp add: mpi_val_def mbedtls_mpi_init_def)

lemma exptmod_sets:
  assumes "mpi_ok lib" "callers st [a, b, c] d"
  shows "mpi_sets d (exp_mod_value (mpi_val st a) (mpi_val st b) (mpi_val st c)) st (crypto_bignum_exptmod lib a b c d st)"
proof (cases "b = d \<or> c = d")
  case True
  have ne: "Tmp 0 \<noteq> a" "Tmp 0 \<noteq> b" "Tmp 0 \<noteq> c" "Tmp 0 \<noteq> d" using assms(2) by (auto simp: callers_def)
  have "mpi_sets (Tmp 0) (exp_mod_value (mpi_val st a) (mpi_val st b) (mpi_val st c)) (mbedtls_mpi_init (Tmp 0) st)
      (mpi_exp_mod lib (Tmp 0) a b c (mbedtls_mpi_init (Tmp 0) st))"
    using mpi_laws(9) [OF assms(1) ne(2,3), of "mbedtls_mpi_init (Tmp 0) st" a] ne by simp
  from in_local [OF callersD [OF assms(2)] assms(1) this] True show ?thesis
    by (simp add: crypto_bignum_exptmod_def Let_def)
next
  case False
  then show ?thesis using mpi_laws(9) [OF assms(1), of d b c st a] by (auto simp: crypto_bignum_exptmod_def)
qed

lemma div_sets:
  assumes "mpi_ok lib" "callers st [a, b] c" "0 \<le> mpi_val st a" "0 \<le> mpi_val st b"
  shows "mpi_sets c (if mpi_val st b = 0 then None else Some (mpi_val st a div mpi_val st b)) st (crypto_bignum_div lib a b c st)"
proof -
  have ne: "Tmp 0 \<noteq> a" "Tmp 0 \<noteq> b" using assms(2) by (auto simp: callers_def)
  have "mpi_sets (Tmp 0) (if mpi_val st b = 0 then None else Some (mpi_val st a div mpi_val st b)) (mbedtls_mpi_init (Tmp 0) st)
      (mpi_div_mpi lib (Tmp 0) a b (mbedtls_mpi_init (Tmp 0) st))"
    using mpi_laws(8) [OF assms(1) ne, of "mbedtls_mpi_init (Tmp 0) st"] assms(3,4)
    unfolding mpi_val_init [OF ne(1)] mpi_val_init [OF ne(2)] by simp
  from in_local [OF callersD [OF assms(2)] assms(1) this] show ?thesis
    by (simp add: crypto_bignum_div_def Let_def)
qed

text \<open>The modulus is read after the sum or product is stored, so it must be another number than the destination.\<close>

lemma modulus_after:
  fixes st :: "'m bn_world"
  assumes "mpi_ok lib" "mpi_sets d (Some x) st r" "c \<noteq> d"
  shows "mpi_sets d (mod_value x (mpi_val st c)) st (minus1_if (or_else r (mpi_mod_mpi lib d d c)))"
  unfolding mpi_sets_minus1
proof (rule mpi_sets_then [OF assms(2)])
  fix st1 :: "'m bn_world" assume st1: "mpis st1 = (mpis st)(d \<mapsto> x)"
  then have v: "mpi_val st1 d = x" "mpi_val st1 c = mpi_val st c" using assms(3) by simp_all
  show "mpi_sets d (mod_value x (mpi_val st c)) st1 (mpi_mod_mpi lib d d c st1)"
    using mpi_laws(7) [OF assms(1) assms(3) [symmetric], where st = st1 and A = d] unfolding v .
qed

text \<open>
  C15: the modular operations write the right number for every way in which the result may be one of
  the arguments, change no other number, and leave none of their locals behind: \<open>exptmod\<close> and
  \<open>div\<close> also when the result is the exponent, the modulus or the divisor, for which Mbed TLS promises nothing
  and the code takes a local; \<open>addmod\<close>, \<open>mulmod\<close> and \<open>sqrmod\<close>, which take none, as long as the result is
  another number than the modulus.
\<close>

theorem bignum_modular_ops:
  assumes "mpi_ok lib" and "callers st [a, b, c] d"
  shows "mpi_sets d (exp_mod_value (mpi_val st a) (mpi_val st b) (mpi_val st c)) st (crypto_bignum_exptmod lib a b c d st) \<and>
    (0 \<le> mpi_val st a \<and> 0 \<le> mpi_val st b \<longrightarrow>
      mpi_sets d (if mpi_val st b = 0 then None else Some (mpi_val st a div mpi_val st b)) st (crypto_bignum_div lib a b d st)) \<and>
    (c \<noteq> d \<longrightarrow>
      mpi_sets d (mod_value (mpi_val st a + mpi_val st b) (mpi_val st c)) st (crypto_bignum_addmod lib a b c d st) \<and>
      mpi_sets d (mod_value (mpi_val st a * mpi_val st b) (mpi_val st c)) st (crypto_bignum_mulmod lib a b c d st) \<and>
      mpi_sets d (mod_value ((mpi_val st a)\<^sup>2) (mpi_val st c)) st (crypto_bignum_sqrmod lib a c d st))"
proof -
  note ring = modulus_after [OF assms(1) mpi_laws(4) [OF assms(1), of d st a b], of c]
    modulus_after [OF assms(1) mpi_laws(6) [OF assms(1), of d st a b], of c]
    modulus_after [OF assms(1) mpi_laws(6) [OF assms(1), of d st a a], of c]
  show ?thesis
    using exptmod_sets [OF assms] div_sets [OF assms(1), of st a b d] assms(2) ring
    by (auto simp: callers_def crypto_bignum_addmod_def crypto_bignum_mulmod_def crypto_bignum_sqrmod_def power2_eq_square)
qed

section \<open>Numbers and octets\<close>

lemma os2ip_snoc: "os2ip (bs @ [b]) = 256 * os2ip bs + uint b"
  by (simp add: os2ip_def)

lemma os2ip_Nil [simp]: "os2ip [] = 0"
  by (simp add: os2ip_def)

lemma uint_u8_bounds: "0 \<le> uint (b :: u8)" "uint (b :: u8) < 256"
  using unsigned_less [of b, where ?'a=int] by simp_all

lemma os2ip_bounds: "0 \<le> os2ip bs" "os2ip bs < 256 ^ length bs"
proof (induction bs rule: rev_induct)
  case (snoc b bs)
  { case 1
    from snoc(1) uint_u8_bounds [of b] show ?case by (simp add: os2ip_snoc) }
  { case 2
    from snoc(2) uint_u8_bounds [of b] show ?case by (simp add: os2ip_snoc) }
qed simp_all

lemma os2ip_zeros: "os2ip (replicate k 0 @ bs) = os2ip bs"
proof (induction bs rule: rev_induct)
  case Nil
  have "os2ip (replicate k 0) = 0"
  proof (induction k)
    case (Suc k)
    then show ?case using os2ip_snoc [of "replicate k 0" 0] by (simp add: replicate_append_same)
  qed simp
  then show ?case by simp
next
  case (snoc b bs)
  then show ?case by (simp add: os2ip_snoc flip: append_assoc)
qed

lemma os2ip_inject: "length xs = length ys \<Longrightarrow> os2ip xs = os2ip ys \<Longrightarrow> xs = ys"
proof (induction xs arbitrary: ys rule: rev_induct)
  case (snoc x xs)
  then obtain zs z where ys: "ys = zs @ [z]" by (metis append_is_Nil_conv length_0_conv not_Cons_self2 rev_exhaust)
  have e: "256 * os2ip xs + uint x = 256 * os2ip zs + uint z" using snoc.prems ys by (simp add: os2ip_snoc)
  have "(256 * os2ip xs + uint x) mod 256 = uint x" "(256 * os2ip zs + uint z) mod 256 = uint z"
    using uint_u8_bounds [of x] uint_u8_bounds [of z] by simp_all
  with e have "uint x = uint z" by simp
  moreover from this e have "os2ip xs = os2ip zs" by simp
  ultimately show ?case using snoc ys by (simp add: word_uint_eq_iff)
qed simp

lemma to_bin_value:
  assumes "mpi_ok lib" "0 \<le> mpi_val st a" "mpi_val st a < 256 ^ padlen"
  shows "crypto_bignum_to_bin lib a buflen padlen st =
    (if buflen < padlen then (- 1, []) else (int padlen, snd (mpi_write_binary lib (mpi_val st a) padlen))) \<and>
    length (snd (mpi_write_binary lib (mpi_val st a) padlen)) = padlen \<and>
    os2ip (snd (mpi_write_binary lib (mpi_val st a) padlen)) = mpi_val st a"
proof -
  have "mpi_size lib (mpi_val st a) \<le> padlen"
  proof (rule ccontr)
    assume big: "\<not> mpi_size lib (mpi_val st a) \<le> padlen"
    then have "(256 :: int) ^ padlen \<le> 256 ^ (mpi_size lib (mpi_val st a) - 1)" by (intro power_increasing) simp_all
    also have "\<dots> \<le> mpi_val st a" using mpi_laws(15) [OF assms(1,2)] big by simp
    finally show False using assms(3) by simp
  qed
  with mpi_laws(16) [OF assms] show ?thesis by (auto simp: crypto_bignum_to_bin_def Let_def split_beta)
qed

text \<open>
  a number made from octets is written back as these octets, padded with zeros in front up to
  \<open>padlen\<close>, and nothing is written when the buffer is shorter than that; a failed construction leaves
  no object behind. A number made from an \<open>unsigned int\<close> is that number only below 2^31: from there
  on the cast to \<open>int\<close> makes it negative.
\<close>

theorem bignum_octets_round_trip:
  assumes "mpi_ok lib"
  shows "(case crypto_bignum_init_set lib buf st of
      (None, st') \<Rightarrow> mpis st' = mpis st
    | (Some p, st') \<Rightarrow> mpis st p = None \<and> mpis st' = (mpis st)(p \<mapsto> os2ip buf) \<and>
        (\<forall>padlen buflen. length buf \<le> padlen \<longrightarrow> crypto_bignum_to_bin lib p buflen padlen st' =
          (if buflen < padlen then (- 1, []) else (int padlen, replicate (padlen - length buf) 0 @ buf)))) \<and>
   (case crypto_bignum_init_uint lib v st of
      (None, st') \<Rightarrow> mpis st' = mpis st
    | (Some p, st') \<Rightarrow> mpis st p = None \<and>
        mpis st' = (mpis st)(p \<mapsto> (if v < 0x80000000 then uint v else uint v - 4294967296)))"
proof -
  obtain q st0 where al: "bn_malloc lib st = (q, st0)" by (rule prod.exhaust)
  have m0: "mpis st0 = mpis st" by (rule mpi_laws(17) [OF assms al])
  have set: "\<exists>r st1. f (mbedtls_mpi_init p st0) = (r, st1) \<and>
      (r = 0 \<longrightarrow> mpis st1 = (mpis st)(p \<mapsto> x)) \<and> (r \<noteq> 0 \<longrightarrow> mpis (mbedtls_mpi_free p st1) = mpis st)"
    if "mpi_sets p (Some x) (mbedtls_mpi_init p st0) (f (mbedtls_mpi_init p st0))" "mpis st p = None" for p x f
    using that mpi_setsD [OF that(1)] m0
    by (cases "f (mbedtls_mpi_init p st0)") (auto simp: mbedtls_mpi_init_def mbedtls_mpi_free_def fun_upd_idem)
  show ?thesis
  proof (cases q)
    case None
    then show ?thesis using al m0 by (simp add: crypto_bignum_init_set_def crypto_bignum_init_uint_def)
  next
    case (Some p)
    have fresh: "mpis st p = None" using mpi_laws(18) [OF assms] al Some by simp
    obtain r st1 where rd: "mpi_read_binary lib p buf (mbedtls_mpi_init p st0) = (r, st1)"
      "r = 0 \<Longrightarrow> mpis st1 = (mpis st)(p \<mapsto> os2ip buf)" "r \<noteq> 0 \<Longrightarrow> mpis (mbedtls_mpi_free p st1) = mpis st"
      using set [where f = "mpi_read_binary lib p buf", OF mpi_laws(1) [OF assms] fresh] by blast
    obtain r' st2 where ls: "mpi_lset lib p (sint v) (mbedtls_mpi_init p st0) = (r', st2)"
      "r' = 0 \<Longrightarrow> mpis st2 = (mpis st)(p \<mapsto> sint v)" "r' \<noteq> 0 \<Longrightarrow> mpis (mbedtls_mpi_free p st2) = mpis st"
      using set [where f = "mpi_lset lib p (sint v)", OF mpi_laws(2) [OF assms] fresh] by blast
    have written: "crypto_bignum_to_bin lib p buflen padlen st1 =
        (if buflen < padlen then (- 1, []) else (int padlen, replicate (padlen - length buf) 0 @ buf))"
      if "r = 0" "length buf \<le> padlen" for buflen padlen
    proof -
      have v: "mpi_val st1 p = os2ip buf" using rd(2) [OF that(1)] by (simp add: mpi_val_def)
      have "os2ip buf < 256 ^ padlen"
        by (rule less_le_trans [OF os2ip_bounds(2)]) (rule power_increasing [OF that(2)], simp)
      with to_bin_value [OF assms, of st1 p padlen buflen] v os2ip_bounds(1) [of buf]
      have w: "crypto_bignum_to_bin lib p buflen padlen st1 =
          (if buflen < padlen then (- 1, []) else (int padlen, snd (mpi_write_binary lib (os2ip buf) padlen)))"
        "length (snd (mpi_write_binary lib (os2ip buf) padlen)) = padlen"
        "os2ip (snd (mpi_write_binary lib (os2ip buf) padlen)) = os2ip buf" by simp_all
      have "snd (mpi_write_binary lib (os2ip buf) padlen) = replicate (padlen - length buf) 0 @ buf"
        by (rule os2ip_inject) (use w(2,3) that(2) in \<open>simp_all add: os2ip_zeros\<close>)
      with w(1) show ?thesis by simp
    qed
    have "v < 0x80000000 \<longleftrightarrow> unat v < 2147483648" by (simp add: u32_less_iff)
    then have s: "sint v = (if v < 0x80000000 then uint v else uint v - 4294967296)" by (simp add: sint_u32 flip: uint_nat)
    show ?thesis using al Some rd ls fresh written s
      by (cases "r = 0"; cases "r' = 0") (simp_all add: crypto_bignum_init_set_def crypto_bignum_init_uint_def)
  qed
qed

section \<open>The Legendre symbol\<close>

lemma limbs_value_nonneg: "0 \<le> limbs_value ls"
  by (induction ls) simp_all

lemma fold_or_zero: "fold (OR) ls (a :: u32) = 0 \<longleftrightarrow> a = 0 \<and> (\<forall>l \<in> set ls. l = 0)"
proof (induction ls arbitrary: a)
  case (Cons l ls)
  have "l OR a = 0 \<longleftrightarrow> l = 0 \<and> a = 0" by (auto simp: or_eq_0_iff)
  with Cons show ?case by auto
qed simp

lemma limbs_zero: "limbs_value ls = 0 \<longleftrightarrow> (\<forall>l \<in> set ls. l = 0)"
proof (induction ls)
  case (Cons l ls)
  have "uint l + 4294967296 * limbs_value ls = 0 \<longleftrightarrow> uint l = 0 \<and> limbs_value ls = 0"
    using limbs_value_nonneg [of ls] by (auto simp: add_nonneg_eq_0_iff)
  with Cons show ?case by (auto simp: word_uint_eq_iff)
qed simp

lemma is_zero_value:
  assumes "mpi_ok lib"
  shows "crypto_bignum_is_zero lib a st = (if mpi_val st a = 0 then 1 else 0)"
proof -
  have "fold (OR) (mpi_limbs lib st a) 0 = 0 \<longleftrightarrow> mpi_val st a = 0"
    unfolding fold_or_zero limbs_zero [symmetric] mpi_laws(13) [OF assms] by simp
  then show ?thesis by (simp add: crypto_bignum_is_zero_def)
qed

lemma is_one_value:
  assumes "mpi_ok lib" "0 \<le> mpi_val st a"
  shows "crypto_bignum_is_one lib a st = (if mpi_val st a = 1 then 1 else 0)"
proof -
  have v: "limbs_value (mpi_limbs lib st a) = mpi_val st a" using mpi_laws(13) [OF assms(1)] assms(2) by simp
  show ?thesis
  proof (cases "mpi_limbs lib st a")
    case Nil
    then show ?thesis using v by (simp add: crypto_bignum_is_one_def)
  next
    case (Cons p0 ps)
    then have s: "mpi_val st a = uint p0 + 4294967296 * limbs_value ps" using v by simp
    have "mpi_val st a = 1 \<longleftrightarrow> uint p0 = 1 \<and> limbs_value ps = 0"
    proof (cases "limbs_value ps = 0")
      case False
      then have "1 \<le> limbs_value ps" using limbs_value_nonneg [of ps] by linarith
      then have "mpi_val st a \<noteq> 1" using s unsigned_greater_eq [of p0, where ?'a=int] by linarith
      with False show ?thesis by simp
    qed (simp add: s)
    moreover have "uint p0 = 1 \<longleftrightarrow> p0 = 1" by (simp add: word_uint_eq_iff)
    moreover have "limbs_value ps = 0 \<longleftrightarrow> fold (OR) ps 0 = 0" by (simp add: fold_or_zero limbs_zero)
    ultimately show ?thesis using Cons by (simp add: crypto_bignum_is_one_def)
  qed
qed

definition legendre_value :: "int \<Rightarrow> int \<Rightarrow> int" where
  "legendre_value a p =
     (let t = a ^ nat ((p - 1) div 2) mod p in if t = 0 then 0 else if t = 1 then 1 else - 1)"

lemma legendre_runs:
  fixes st :: "'m bn_world"
  assumes ok: "mpi_ok lib" and loc: "mpis st (Tmp 0) = None" "mpis st (Tmp 1) = None"
    and ptr: "a \<notin> {Tmp 0, Tmp 1}" "p \<notin> {Tmp 0, Tmp 1}" and pos: "0 < mpi_val st p"
  shows "\<exists>res st'. crypto_bignum_legendre lib a p st = (res, st') \<and> mpis st' = mpis st \<and>
    (res = - 2 \<or> odd (mpi_val st p) \<and> res = legendre_value (mpi_val st a) (mpi_val st p))"
proof -
  let ?s0 = "mbedtls_mpi_init (Tmp 1) (mbedtls_mpi_init (Tmp 0) st)" and ?p = "mpi_val st p"
  have s0: "mpis ?s0 = (mpis st)(Tmp 0 \<mapsto> 0, Tmp 1 \<mapsto> 0)" by (simp add: mbedtls_mpi_init_def)
  have pv: "mpi_val ?s0 p = ?p" "mpi_val ?s0 a = mpi_val st a" using ptr by (simp_all add: mpi_val_def s0 del: One_nat_def)
  have half: "mpi_sets (Tmp 0) (Some ((?p - 1) div 2)) ?s0 (or_else (mpi_sub_int lib (Tmp 0) p 1 ?s0) (mpi_shift_r lib (Tmp 0) 1))"
  proof (rule mpi_sets_then)
    show "mpi_sets (Tmp 0) (Some (?p - 1)) ?s0 (mpi_sub_int lib (Tmp 0) p 1 ?s0)"
      using mpi_laws(11) [OF ok, of "Tmp 0" ?s0 p 1] pv by simp
    fix st1 :: "'m bn_world" assume "mpis st1 = (mpis ?s0)(Tmp 0 \<mapsto> ?p - 1)"
    then have "mpi_val st1 (Tmp 0) = ?p - 1" by (simp add: mpi_val_def)
    then show "mpi_sets (Tmp 0) (Some ((?p - 1) div 2)) st1 (mpi_shift_r lib (Tmp 0) 1 st1)"
      using mpi_laws(12) [OF ok, of st1 "Tmp 0" 1] pos by simp
  qed
  obtain rc1 st1 where h: "or_else (mpi_sub_int lib (Tmp 0) p 1 ?s0) (mpi_shift_r lib (Tmp 0) 1) = (rc1, st1)" by (rule prod.exhaust)
  have clean: "mpis (mbedtls_mpi_free (Tmp 0) (mbedtls_mpi_free (Tmp 1) s)) = mpis st"
    if "mpis s = (mpis st)(Tmp 0 \<mapsto> x, Tmp 1 \<mapsto> y)" for s :: "'m bn_world" and x y
    using that loc by (auto simp: mbedtls_mpi_free_def)
  show ?thesis
  proof (cases "rc1 = 0")
    case False
    then obtain y where "mpis st1 = (mpis st)(Tmp 0 \<mapsto> y, Tmp 1 \<mapsto> 0)"
      using mpi_setsD(2) [OF half] h s0 by (auto simp: fun_upd_twist)
    from clean [OF this] False show ?thesis by (simp add: crypto_bignum_legendre_def Let_def h or_else_simps del: One_nat_def)
  next
    case True
    then have m1: "mpis st1 = (mpis st)(Tmp 0 \<mapsto> (?p - 1) div 2, Tmp 1 \<mapsto> 0)"
      using mpi_setsD(1) [OF half] h s0 by (auto simp: fun_upd_twist)
    have v1: "mpi_val st1 (Tmp 0) = (?p - 1) div 2" "mpi_val st1 p = ?p" "mpi_val st1 a = mpi_val st a"
      using m1 ptr by (simp_all add: mpi_val_def)
    obtain rc2 st2 where e: "mpi_exp_mod lib (Tmp 1) a (Tmp 0) p st1 = (rc2, st2)" by (rule prod.exhaust)
    have pw: "mpi_sets (Tmp 1) (exp_mod_value (mpi_val st a) ((?p - 1) div 2) ?p) st1 (rc2, st2)"
      using mpi_laws(9) [OF ok, of "Tmp 1" "Tmp 0" p st1 a] ptr v1 e by auto
    have run: "crypto_bignum_legendre lib a p st =
        (if rc2 = 0
         then const_time_select_int (const_time_eq (crypto_bignum_is_zero lib (Tmp 1) st2) 1) 0
                (const_time_select_int (const_time_eq (crypto_bignum_is_one lib (Tmp 1) st2) 1) 1 (- 1))
         else - 2, mbedtls_mpi_free (Tmp 0) (mbedtls_mpi_free (Tmp 1) st2))"
      using True by (simp add: crypto_bignum_legendre_def Let_def h e or_else_simps del: One_nat_def)
    show ?thesis
    proof (cases "rc2 = 0")
      case False
      then obtain y where "mpis st2 = (mpis st)(Tmp 0 \<mapsto> (?p - 1) div 2, Tmp 1 \<mapsto> y)"
        using mpi_setsD(2) [OF pw] m1 by auto
      from clean [OF this] False show ?thesis by (simp add: run)
    next
      case z: True
      then have o: "odd ?p" and m2: "mpis st2 = (mpis st)(Tmp 0 \<mapsto> (?p - 1) div 2, Tmp 1 \<mapsto> mpi_val st a ^ nat ((?p - 1) div 2) mod ?p)"
        using mpi_setsD(1) [OF pw] m1 by (auto simp: exp_mod_value_def split: if_splits)
      then have v2: "mpi_val st2 (Tmp 1) = mpi_val st a ^ nat ((?p - 1) div 2) mod ?p" by (simp add: mpi_val_def)
      then have "0 \<le> mpi_val st2 (Tmp 1)" using pos by simp
      then have "fst (crypto_bignum_legendre lib a p st) = legendre_value (mpi_val st a) ?p"
        using is_one_value [OF ok] is_zero_value [OF ok] v2 z
        by (simp add: run const_time_eq const_time_select_int legendre_value_def)
      with o clean [OF m2] show ?thesis by (simp add: run)
    qed
  qed
qed

lemma legendre_value_residue:
  assumes "prime_int p" "p mod 4 = 3"
  shows "legendre_value a p = (if p dvd a then 0 else if \<exists>y. y ^ 2 mod p = a mod p then 1 else - 1)"
proof -
  have "1 < p" using assms(1) by (simp add: prime_int_def)
  then have "3 \<le> p" using zmod_le_nonneg_dividend [of p 4] assms(2) by simp
  then have "1 \<le> (p - 1) div 2" using zdiv_mono1 [of 2 "p - 1" 2] by simp
  then have half: "0 < nat ((p - 1) div 2)" by simp
  have "a ^ n mod p = 0 \<longleftrightarrow> p dvd a" if "0 < n" for n
    unfolding dvd_eq_mod_eq_0 [of p "a ^ n", symmetric] prime_int_dvd_power [OF assms(1)] using that by blast
  from this [OF half] have "a ^ nat ((p - 1) div 2) mod p = 0 \<longleftrightarrow> p dvd a" .
  then show ?thesis using euler_3_mod_4 [OF assms, of a] by (auto simp: legendre_value_def Let_def)
qed

text \<open>
  C14: for a prime modulus that is 3 modulo 4, as those of the curves P-256, P-384 and P-521 are,
  \<open>crypto_bignum_legendre\<close> decides whether a number is a square, without a branch on it: it returns 0
  for a multiple of the modulus, 1 for a square and -1 for a non-square. The only other answer is -2, when the library
  runs out of memory. The arguments and all other numbers stay as they were, and no local is left.
\<close>

theorem legendre_decides_squares:
  fixes st :: "'m bn_world"
  assumes "mpi_ok lib" and "mpis st (Tmp 0) = None" "mpis st (Tmp 1) = None"
    and "a \<notin> {Tmp 0, Tmp 1}" "p \<notin> {Tmp 0, Tmp 1}"
    and "prime_int (mpi_val st p)" "mpi_val st p mod 4 = 3"
  shows "\<exists>res st'. crypto_bignum_legendre lib a p st = (res, st') \<and> mpis st' = mpis st \<and>
    (res = - 2 \<or>
     res = (if mpi_val st p dvd mpi_val st a then 0
            else if \<exists>y. y ^ 2 mod mpi_val st p = mpi_val st a mod mpi_val st p then 1 else - 1))"
proof -
  have "0 < mpi_val st p" using assms(6) by (simp add: prime_int_def)
  from legendre_runs [OF assms(1-5) this] legendre_value_residue [OF assms(6,7), of "mpi_val st a"]
  show ?thesis by auto
qed

section \<open>An exact library\<close>

text \<open>A stand-in that computes exactly and never runs out of memory, to evaluate the model on.\<close>

primrec i2osp :: "nat \<Rightarrow> int \<Rightarrow> u8 list" where
  "i2osp 0 a = []"
| "i2osp (Suc n) a = i2osp n (a div 256) @ [of_int a]"

fun octet_count :: "nat \<Rightarrow> nat" where
  "octet_count n = (if n = 0 then 0 else Suc (octet_count (n div 256)))"

fun limbs_of :: "nat \<Rightarrow> u32 list" where
  "limbs_of n = (if n = 0 then [] else of_nat n # limbs_of (n div 4294967296))"

declare octet_count.simps [simp del] limbs_of.simps [simp del]

definition mpi_put :: "bn_ptr \<Rightarrow> int option \<Rightarrow> 'm bn_world \<Rightarrow> int \<times> 'm bn_world" where
  "mpi_put X v st = (case v of None \<Rightarrow> (1, st\<lparr>mpis := (mpis st)(X \<mapsto> 0)\<rparr>) | Some x \<Rightarrow> (0, st\<lparr>mpis := (mpis st)(X \<mapsto> x)\<rparr>))"

definition plain_mpi :: "nat mpi_lib" where
  "plain_mpi = \<lparr>
     bn_malloc = \<lambda>st. if mpis st (Obj (outside st)) = None then (Some (Obj (outside st)), st\<lparr>outside := Suc (outside st)\<rparr>) else (None, st),
     mpi_read_binary = \<lambda>X b. mpi_put X (Some (os2ip b)),
     mpi_lset = \<lambda>X z. mpi_put X (Some z),
     mpi_copy = \<lambda>X A st. mpi_put X (Some (mpi_val st A)) st,
     mpi_add_mpi = \<lambda>X A B st. mpi_put X (Some (mpi_val st A + mpi_val st B)) st,
     mpi_sub_mpi = \<lambda>X A B st. mpi_put X (Some (mpi_val st A - mpi_val st B)) st,
     mpi_sub_abs = \<lambda>X A B st. mpi_put X (if \<bar>mpi_val st B\<bar> \<le> \<bar>mpi_val st A\<bar> then Some (\<bar>mpi_val st A\<bar> - \<bar>mpi_val st B\<bar>) else None) st,
     mpi_mul_mpi = \<lambda>X A B st. mpi_put X (Some (mpi_val st A * mpi_val st B)) st,
     mpi_mod_mpi = \<lambda>X A B st. mpi_put X (mod_value (mpi_val st A) (mpi_val st B)) st,
     mpi_div_mpi = \<lambda>X A B st. mpi_put X (if mpi_val st B = 0 then None else Some (mpi_val st A div mpi_val st B)) st,
     mpi_inv_mod = \<lambda>X A N. mpi_put X None,
     mpi_exp_mod = \<lambda>X A E N st. mpi_put X (exp_mod_value (mpi_val st A) (mpi_val st E) (mpi_val st N)) st,
     mpi_add_int = \<lambda>X A b st. mpi_put X (Some (mpi_val st A + b)) st,
     mpi_sub_int = \<lambda>X A b st. mpi_put X (Some (mpi_val st A - b)) st,
     mpi_shift_r = \<lambda>X n st. mpi_put X (Some (mpi_val st X div 2 ^ n)) st,
     mpi_random = \<lambda>X m N st. mpi_put X (if m < mpi_val st N then Some m else None) st,
     mpi_size = \<lambda>a. octet_count (nat a),
     mpi_write_binary = \<lambda>a n. if a < 256 ^ n then (0, i2osp n a) else (1, []),
     mpi_limbs = \<lambda>st A. limbs_of (nat \<bar>mpi_val st A\<bar>)\<rparr>"

lemma mpi_put_sets: "mpi_sets X v st (mpi_put X v st)"
  by (cases v) (auto simp: mpi_put_def mpi_sets_def)

lemma i2osp_value: "0 \<le> a \<Longrightarrow> a < 256 ^ n \<Longrightarrow> length (i2osp n a) = n \<and> os2ip (i2osp n a) = a"
proof (induction n arbitrary: a)
  case (Suc n)
  have "a div 256 < 256 ^ n" using Suc.prems(2) unfolding power_Suc by linarith
  moreover have "0 \<le> a div 256" using Suc.prems(1) by (simp add: pos_imp_zdiv_nonneg_iff)
  ultimately show ?case using Suc.IH [of "a div 256"]
    by (simp add: os2ip_snoc unsigned_of_int take_bit_eq_mod)
qed simp

lemma octet_count_bounds: "n < 256 ^ octet_count n \<and> (0 < n \<longrightarrow> 256 ^ (octet_count n - 1) \<le> n)"
proof (induction n rule: octet_count.induct)
  case (1 n)
  show ?case
  proof (cases "n = 0")
    case False
    let ?k = "octet_count (n div 256)"
    have c: "octet_count n = Suc ?k" using False by (simp add: octet_count.simps [of n])
    have up: "n < 256 ^ Suc ?k" using 1 [OF False] by (simp add: less_mult_imp_div_less div_less_iff_less_mult mult.commute)
    moreover have "256 ^ ?k \<le> n"
    proof (cases "n div 256 = 0")
      case True
      then show ?thesis using False by (simp add: octet_count.simps)
    next
      case d: False
      then have "?k = Suc (?k - 1)" by (simp add: octet_count.simps [of "n div 256"])
      then have "(256 :: nat) ^ ?k = 256 * 256 ^ (?k - 1)" by (metis power_Suc)
      also have "\<dots> \<le> 256 * (n div 256)" using 1 [OF False] d by simp
      also have "\<dots> \<le> n" by simp
      finally show ?thesis .
    qed
    ultimately show ?thesis using c by simp
  qed (simp add: octet_count.simps)
qed

lemma limbs_of_value: "limbs_value (limbs_of n) = int n"
proof (induction n rule: limbs_of.induct)
  case (1 n)
  show ?case
  proof (cases "n = 0")
    case False
    have "uint (of_nat n :: u32) = int (n mod 4294967296)" by (simp add: unsigned_of_nat take_bit_eq_mod zmod_int)
    moreover have "int n = int (n mod 4294967296) + 4294967296 * int (n div 4294967296)"
      by (metis mod_mult_div_eq of_nat_add of_nat_mult of_nat_numeral)
    ultimately show ?thesis using 1 [OF False] False by (simp add: limbs_of.simps [of n])
  qed (simp add: limbs_of.simps)
qed

lemma plain_mpi_ok: "mpi_ok plain_mpi"
proof -
  have size: "a < 256 ^ octet_count (nat a) \<and> (0 < octet_count (nat a) \<longrightarrow> 256 ^ (octet_count (nat a) - 1) \<le> a)" if "0 \<le> a" for a
  proof -
    have "int (nat a) < int (256 ^ octet_count (nat a))" using octet_count_bounds [of "nat a"] by (simp only: of_nat_less_iff)
    moreover have "256 ^ (octet_count (nat a) - 1) \<le> a" if "0 < octet_count (nat a)"
    proof -
      have "0 < nat a" using that by (cases "nat a = 0") (simp_all add: octet_count.simps)
      then have "int (256 ^ (octet_count (nat a) - 1)) \<le> int (nat a)" using octet_count_bounds [of "nat a"] by (simp only: of_nat_le_iff)
      then show ?thesis using \<open>0 \<le> a\<close> by simp
    qed
    ultimately show ?thesis using that by simp
  qed
  have inv: "\<exists>v. mpi_sets X v st (mpi_put X None st) \<and> (\<forall>x. v = Some x \<longrightarrow> P x)" for X st and P :: "int \<Rightarrow> bool"
    by (intro exI [of _ None] conjI mpi_put_sets) simp
  have rnd: "\<exists>v. mpi_sets X v st (mpi_put X (if m < n then Some m else None) st) \<and> (\<forall>x. v = Some x \<longrightarrow> m \<le> x \<and> x < n)" for X st m n
    by (intro exI [of _ "if m < n then Some m else None"] conjI mpi_put_sets) simp
  show ?thesis unfolding mpi_ok_def plain_mpi_def
    by (simp add: mpi_put_sets inv rnd size i2osp_value limbs_of_value del: One_nat_def)
qed

definition some_numbers :: "nat bn_world" where
  "some_numbers = \<lparr>mpis = [Obj 2 \<mapsto> 3, Obj 3 \<mapsto> 5, Obj 4 \<mapsto> 7], outside = 5\<rparr>"

lemma bignum_modular_ops_witness:
  "mpi_sets (Obj 4) (Some 5) some_numbers (crypto_bignum_exptmod plain_mpi (Obj 2) (Obj 3) (Obj 4) (Obj 4) some_numbers) \<and>
   mpi_sets (Obj 2) (Some 1) some_numbers (crypto_bignum_addmod plain_mpi (Obj 2) (Obj 3) (Obj 4) (Obj 2) some_numbers)"
proof -
  have c: "callers some_numbers [Obj 2, Obj 3, Obj 4] d" if "d \<in> {Obj 2, Obj 4}" for d
    using that by (auto simp: callers_def some_numbers_def)
  have v: "mpi_val some_numbers (Obj 2) = 3" "mpi_val some_numbers (Obj 3) = 5" "mpi_val some_numbers (Obj 4) = 7"
    by (simp_all add: mpi_val_def some_numbers_def)
  have e: "exp_mod_value 3 5 7 = Some 5" "mod_value 8 7 = Some 1" by (simp_all add: exp_mod_value_def mod_value_def)
  show ?thesis using bignum_modular_ops [OF plain_mpi_ok c, of "Obj 2"] bignum_modular_ops [OF plain_mpi_ok c, of "Obj 4"]
    by (simp add: v e)
qed

lemma bignum_octets_round_trip_witness:
  "\<exists>p st'. crypto_bignum_init_set plain_mpi [1, 2] some_numbers = (Some p, st') \<and> mpi_val st' p = 258 \<and>
     crypto_bignum_to_bin plain_mpi p 4 3 st' = (3, [0, 1, 2])"
proof -
  obtain q st' where r: "crypto_bignum_init_set plain_mpi [1, 2] some_numbers = (q, st')" by (rule prod.exhaust)
  have "q = Some (Obj 5)" using r by (auto simp: crypto_bignum_init_set_def plain_mpi_def mpi_put_def some_numbers_def)
  with bignum_octets_round_trip [OF plain_mpi_ok, where buf = "[1, 2]" and st = some_numbers] r show ?thesis
    by (auto simp: mpi_val_def os2ip_def numeral_3_eq_3)
qed

lemma seven_is_prime: "prime_int 7"
proof -
  have "d \<in> {1, 7}" if "0 < d" "d dvd 7" for d :: int
  proof -
    have "d \<le> 7" using that(2) by (rule zdvd_imp_le) simp
    then have "d \<in> {1, 2, 3, 4, 5, 6, 7}" using that(1) by auto
    then show ?thesis using that(2) by auto
  qed
  then show ?thesis by (auto simp: prime_int_def)
qed

text \<open>Modulo 7, 3 is no square.\<close>

lemma legendre_decides_squares_witness:
  "\<exists>res st'. crypto_bignum_legendre plain_mpi (Obj 2) (Obj 4) some_numbers = (res, st') \<and> mpis st' = mpis some_numbers \<and> res = - 1 \<and>
     (\<nexists>y. y ^ 2 mod 7 = (3 :: int))"
proof -
  have v: "mpi_val some_numbers (Obj 2) = 3" "mpi_val some_numbers (Obj 4) = 7" by (simp_all add: mpi_val_def some_numbers_def)
  have "\<not> (\<exists>y. y ^ 2 mod 7 = (3 :: int) mod 7)" using euler_3_mod_4 [OF seven_is_prime, of 3] by simp
  moreover have "fst (crypto_bignum_legendre plain_mpi (Obj 2) (Obj 4) some_numbers) \<noteq> - 2"
    by (simp add: crypto_bignum_legendre_def plain_mpi_def mpi_put_def or_else_def mbedtls_mpi_init_def mpi_val_def
      some_numbers_def exp_mod_value_def const_time_eq const_time_select_int crypto_bignum_is_one_def crypto_bignum_is_zero_def Let_def)
  ultimately show ?thesis
    using legendre_decides_squares [OF plain_mpi_ok, of some_numbers "Obj 2" "Obj 4"] v seven_is_prime
    by (auto simp: some_numbers_def)
qed

end
