(* ===== verification/Crypto_Ec.thy ===== *)
theory Crypto_Ec
  imports Crypto_Bignum
begin

text \<open>
  The elliptic curve part of crypto_mbedtls_mm.c: curves by their IKE group, the curve equation and
  the recovery of y from x, the inversion of a point, points and octets, and the framing of the
  peer's public key in a Diffie-Hellman exchange. The Mbed TLS calls are parameters.
\<close>

section \<open>Groups\<close>

datatype ecp_group_id =
    MBEDTLS_ECP_DP_NONE | MBEDTLS_ECP_DP_SECP192R1 | MBEDTLS_ECP_DP_SECP224R1 | MBEDTLS_ECP_DP_SECP256R1
  | MBEDTLS_ECP_DP_SECP384R1 | MBEDTLS_ECP_DP_SECP521R1 | MBEDTLS_ECP_DP_BP256R1 | MBEDTLS_ECP_DP_BP384R1
  | MBEDTLS_ECP_DP_BP512R1 | MBEDTLS_ECP_DP_CURVE25519 | MBEDTLS_ECP_DP_CURVE448

text \<open>\<open>enabled\<close> are the curves of the Mbed TLS configuration; a disabled one has no case.\<close>

definition crypto_mbedtls_ecp_group_id_from_ike_id :: "ecp_group_id set \<Rightarrow> int \<Rightarrow> ecp_group_id" where
  "crypto_mbedtls_ecp_group_id_from_ike_id enabled ike =
     (let grp_id = (if ike = 19 then MBEDTLS_ECP_DP_SECP256R1
                    else if ike = 20 then MBEDTLS_ECP_DP_SECP384R1
                    else if ike = 21 then MBEDTLS_ECP_DP_SECP521R1
                    else if ike = 25 then MBEDTLS_ECP_DP_SECP192R1
                    else if ike = 26 then MBEDTLS_ECP_DP_SECP224R1
                    else if ike = 28 then MBEDTLS_ECP_DP_BP256R1
                    else if ike = 29 then MBEDTLS_ECP_DP_BP384R1
                    else if ike = 30 then MBEDTLS_ECP_DP_BP512R1
                    else if ike = 31 then MBEDTLS_ECP_DP_CURVE25519
                    else if ike = 32 then MBEDTLS_ECP_DP_CURVE448
                    else MBEDTLS_ECP_DP_NONE)
      in if grp_id \<in> enabled then grp_id else MBEDTLS_ECP_DP_NONE)"

datatype ecp_type = MBEDTLS_ECP_TYPE_SHORT_WEIERSTRASS | MBEDTLS_ECP_TYPE_MONTGOMERY

text \<open>
  A group holds its numbers; for the NIST curves the library leaves \<open>A\<close> without limbs
  (\<open>ecp_A_set\<close> false), which stands for -3.
\<close>

record ecp_group =
  ecp_id :: ecp_group_id
  ecp_type :: ecp_type
  ecp_pbits :: nat
  ecp_P :: bn_ptr
  ecp_A :: bn_ptr
  ecp_A_set :: bool
  ecp_B :: bn_ptr
  ecp_N :: bn_ptr

record ecp_point =
  pt_X :: bn_ptr
  pt_Y :: bn_ptr
  pt_Z :: bn_ptr

definition crypto_ec_prime_len :: "ecp_group \<Rightarrow> nat" where
  "crypto_ec_prime_len e = (ecp_pbits e + 7) div 8"

definition crypto_ecdh_prime_len :: "ecp_group \<Rightarrow> nat" where
  "crypto_ecdh_prime_len grp = (ecp_pbits grp + 7) div 8"

definition crypto_ec_prime_len_bits :: "ecp_group \<Rightarrow> nat" where
  "crypto_ec_prime_len_bits e = ecp_pbits e"

definition crypto_ec_get_prime :: "ecp_group \<Rightarrow> bn_ptr" where
  "crypto_ec_get_prime e = ecp_P e"

definition crypto_ec_get_order :: "ecp_group \<Rightarrow> bn_ptr" where
  "crypto_ec_get_order e = ecp_N e"

definition crypto_ec_get_b :: "ecp_group \<Rightarrow> bn_ptr" where
  "crypto_ec_get_b e = ecp_B e"

subsection \<open>The coefficient a\<close>

definition secp256r1_a :: "u8 list" where
  "secp256r1_a =
    [0xff, 0xff, 0xff, 0xff, 0x00, 0x00, 0x00, 0x01,
     0x00, 0x00, 0x00, 0x00, 0x00, 0x00, 0x00, 0x00,
     0x00, 0x00, 0x00, 0x00, 0xff, 0xff, 0xff, 0xff,
     0xff, 0xff, 0xff, 0xff, 0xff, 0xff, 0xff, 0xfc]"

definition secp384r1_a :: "u8 list" where
  "secp384r1_a =
    [0xff, 0xff, 0xff, 0xff, 0xff, 0xff, 0xff, 0xff,
     0xff, 0xff, 0xff, 0xff, 0xff, 0xff, 0xff, 0xff,
     0xff, 0xff, 0xff, 0xff, 0xff, 0xff, 0xff, 0xff,
     0xff, 0xff, 0xff, 0xff, 0xff, 0xff, 0xff, 0xfe,
     0xff, 0xff, 0xff, 0xff, 0x00, 0x00, 0x00, 0x00,
     0x00, 0x00, 0x00, 0x00, 0xff, 0xff, 0xff, 0xfc]"

definition secp521r1_a :: "u8 list" where
  "secp521r1_a =
    [0x01, 0xff, 0xff, 0xff, 0xff, 0xff, 0xff, 0xff,
     0xff, 0xff, 0xff, 0xff, 0xff, 0xff, 0xff, 0xff,
     0xff, 0xff, 0xff, 0xff, 0xff, 0xff, 0xff, 0xff,
     0xff, 0xff, 0xff, 0xff, 0xff, 0xff, 0xff, 0xff,
     0xff, 0xff, 0xff, 0xff, 0xff, 0xff, 0xff, 0xff,
     0xff, 0xff, 0xff, 0xff, 0xff, 0xff, 0xff, 0xff,
     0xff, 0xff, 0xff, 0xff, 0xff, 0xff, 0xff, 0xff,
     0xff, 0xff, 0xff, 0xff, 0xff, 0xff, 0xff, 0xff,
     0xff, 0xfc]"

text \<open>The file-scope number that the answers for the NIST curves share.\<close>

definition mpi_sw_A :: bn_ptr where
  "mpi_sw_A = Obj 0"

definition crypto_ec_get_a :: "'m mpi_lib \<Rightarrow> ecp_group_id set \<Rightarrow> ecp_group \<Rightarrow> 'm bn_world \<Rightarrow> bn_ptr option \<times> 'm bn_world" where
  "crypto_ec_get_a lib enabled e st =
     (let from_table = (\<lambda>bin. let (rc, st) = mpi_read_binary lib mpi_sw_A bin st
                              in if rc = 0 then (Some mpi_sw_A, st) else (None, st))
      in if ecp_id e \<notin> enabled then (None, st)
         else case ecp_id e of
                MBEDTLS_ECP_DP_SECP256R1 \<Rightarrow> from_table secp256r1_a
              | MBEDTLS_ECP_DP_SECP384R1 \<Rightarrow> from_table secp384r1_a
              | MBEDTLS_ECP_DP_SECP521R1 \<Rightarrow> from_table secp521r1_a
              | MBEDTLS_ECP_DP_BP256R1 \<Rightarrow> (Some (ecp_A e), st)
              | MBEDTLS_ECP_DP_BP384R1 \<Rightarrow> (Some (ecp_A e), st)
              | MBEDTLS_ECP_DP_BP512R1 \<Rightarrow> (Some (ecp_A e), st)
              | MBEDTLS_ECP_DP_CURVE25519 \<Rightarrow> (Some (ecp_A e), st)
              | MBEDTLS_ECP_DP_CURVE448 \<Rightarrow> (Some (ecp_A e), st)
              | _ \<Rightarrow> (None, st))"

section \<open>The curve equation\<close>

definition crypto_ec_point_y_sqr_weierstrass ::
  "'m mpi_lib \<Rightarrow> ecp_group \<Rightarrow> bn_ptr \<Rightarrow> bn_ptr \<Rightarrow> 'm bn_world \<Rightarrow> int \<times> 'm bn_world" where
  "crypto_ec_point_y_sqr_weierstrass lib e x y2 st =
     or_else (or_else (or_else (or_else (or_else (or_else (or_else
       (mpi_mul_mpi lib y2 x x st)
       (mpi_mod_mpi lib y2 y2 (ecp_P e)))
       (if ecp_A_set e then mpi_add_mpi lib y2 y2 (ecp_A e) else mpi_sub_int lib y2 y2 3))
       (mpi_mod_mpi lib y2 y2 (ecp_P e)))
       (mpi_mul_mpi lib y2 y2 x))
       (mpi_mod_mpi lib y2 y2 (ecp_P e)))
       (mpi_add_mpi lib y2 y2 (ecp_B e)))
       (mpi_mod_mpi lib y2 y2 (ecp_P e))"

definition crypto_ec_point_compute_y_sqr ::
  "'m mpi_lib \<Rightarrow> ecp_group \<Rightarrow> bn_ptr \<Rightarrow> 'm bn_world \<Rightarrow> bn_ptr option \<times> 'm bn_world" where
  "crypto_ec_point_compute_y_sqr lib e x st =
     (let (y2, st) = bn_malloc lib st
      in case y2 of
           None \<Rightarrow> (None, st)
         | Some y2 \<Rightarrow>
             let st = mbedtls_mpi_init y2 st
             in if ecp_type e = MBEDTLS_ECP_TYPE_SHORT_WEIERSTRASS
                then let (rc, st) = crypto_ec_point_y_sqr_weierstrass lib e x y2 st
                     in if rc = 0 then (Some y2, st) else (None, mbedtls_mpi_free y2 st)
                else (None, mbedtls_mpi_free y2 st))"

text \<open>\<open>mbedtls_mpi_get_bit\<close>.\<close>

definition mpi_get_bit :: "'m bn_world \<Rightarrow> bn_ptr \<Rightarrow> nat \<Rightarrow> int" where
  "mpi_get_bit st X pos = \<bar>mpi_val st X\<bar> div 2 ^ pos mod 2"

text \<open>A comparison among the \<open>||\<close> operands: true ends the evaluation with 1.\<close>

definition fail_if :: "bool \<Rightarrow> 'm bn_world \<Rightarrow> int \<times> 'm bn_world" where
  "fail_if b st = (if b then 1 else 0, st)"

lemma fail_if_simps: "fail_if True st = (1, st)" "fail_if False st = (0, st)"
  by (simp_all add: fail_if_def)

definition crypto_mbedtls_short_weierstrass_derive_y ::
  "'m mpi_lib \<Rightarrow> ecp_group \<Rightarrow> bn_ptr \<Rightarrow> int \<Rightarrow> 'm bn_world \<Rightarrow> int \<times> 'm bn_world" where
  "crypto_mbedtls_short_weierstrass_derive_y lib grp bn parity_bit st =
     (let (cy2, st) = crypto_ec_point_compute_y_sqr lib grp bn st
      in case cy2 of
           None \<Rightarrow> (- 1, st)
         | Some cy2 \<Rightarrow>
             let ex = Tmp 0;
                 st = mbedtls_mpi_init ex st;
                 (rc, st) =
                   or_else (or_else (or_else (or_else (or_else
                     (fail_if (mpi_get_bit st (ecp_P grp) 0 \<noteq> 1) st)
                     (\<lambda>st. fail_if (mpi_get_bit st (ecp_P grp) 1 \<noteq> 1) st))
                     (mpi_add_int lib ex (ecp_P grp) 1))
                     (mpi_shift_r lib ex 2))
                     (mpi_exp_mod lib bn cy2 ex (ecp_P grp)))
                     (\<lambda>st. if mpi_get_bit st bn 0 \<noteq> parity_bit then mpi_sub_mpi lib bn (ecp_P grp) bn st else (0, st))
             in (if rc \<noteq> 0 then 1 else 0, mbedtls_mpi_free cy2 (mbedtls_mpi_free ex st)))"

text \<open>\<open>mbedtls_ecp_is_zero\<close> tests \<open>Z\<close>.\<close>

definition crypto_ec_point_invert :: "'m mpi_lib \<Rightarrow> ecp_group \<Rightarrow> ecp_point \<Rightarrow> 'm bn_world \<Rightarrow> int \<times> 'm bn_world" where
  "crypto_ec_point_invert lib e p st =
     (if ecp_type e = MBEDTLS_ECP_TYPE_MONTGOMERY then (- 1, st)
      else if mpi_val st (pt_Z p) = 0 \<or> mpi_val st (pt_Y p) = 0 then (0, st)
      else let (rc, st) = mpi_sub_abs lib (pt_Y p) (ecp_P e) (pt_Y p) st
           in (if rc = 0 then 0 else - 1, st))"

definition crypto_ec_point_x :: "'m mpi_lib \<Rightarrow> ecp_point \<Rightarrow> bn_ptr \<Rightarrow> 'm bn_world \<Rightarrow> int \<times> 'm bn_world" where
  "crypto_ec_point_x lib p x st = minus1_if (mpi_copy lib x (pt_X p) st)"

text \<open>Either coordinate may be left out; the octets written are those of x, then those of y.\<close>

definition crypto_ec_point_to_bin ::
  "'m mpi_lib \<Rightarrow> ecp_group \<Rightarrow> ecp_point \<Rightarrow> bool \<Rightarrow> bool \<Rightarrow> 'm bn_world \<Rightarrow> int \<times> u8 list option \<times> u8 list option" where
  "crypto_ec_point_to_bin lib e point x y st =
     (let len = crypto_ec_prime_len e;
          (rx, bx) = mpi_write_binary lib (mpi_val st (pt_X point)) len;
          (ry, byts) = mpi_write_binary lib (mpi_val st (pt_Y point)) len
      in if x \<and> rx \<noteq> 0 then (- 1, None, None)
         else if y \<and> ry \<noteq> 0 then (- 1, if x then Some bx else None, None)
         else (0, if x then Some bx else None, if y then Some byts else None))"

section \<open>What the curve functions compute\<close>

lemma mpi_sets_step:
  fixes st :: "'m bn_world"
  assumes "mpi_sets y (Some u) st r"
    and "\<And>st1 :: 'm bn_world. mpi_val st1 y = u \<Longrightarrow> (\<And>q. q \<noteq> y \<Longrightarrow> mpi_val st1 q = mpi_val st q) \<Longrightarrow> mpi_sets y v st1 (g st1)"
  shows "mpi_sets y v st (or_else r g)"
  by (rule mpi_sets_then [OF assms(1)], rule assms(2)) simp_all

definition curve_a :: "'m bn_world \<Rightarrow> ecp_group \<Rightarrow> int" where
  "curve_a st e = (if ecp_A_set e then mpi_val st (ecp_A e) else - 3)"

text \<open>The right side of the curve equation \<open>y^2 = x^3 + a x + b\<close>.\<close>

definition curve_rhs :: "'m bn_world \<Rightarrow> ecp_group \<Rightarrow> int \<Rightarrow> int" where
  "curve_rhs st e x = (x ^ 3 + curve_a st e * x + mpi_val st (ecp_B e)) mod mpi_val st (ecp_P e)"

lemma curve_rhs_horner:
  "((((x * x mod p + a) mod p * x) mod p + b) mod p :: int) = (x ^ 3 + a * x + b) mod p"
proof -
  have "(((x * x mod p + a) mod p * x) mod p + b) mod p = ((x * x + a) * x + b) mod p"
    by (simp only: mod_add_left_eq mod_mult_left_eq)
  then show ?thesis by (simp add: power3_eq_cube algebra_simps)
qed

lemma y_sqr_sets:
  fixes st :: "'m bn_world"
  assumes ok: "mpi_ok lib" and ne: "y2 \<notin> {x, ecp_P e, ecp_A e, ecp_B e}" and p: "0 < mpi_val st (ecp_P e)"
  shows "mpi_sets y2 (Some (curve_rhs st e (mpi_val st x))) st (crypto_ec_point_y_sqr_weierstrass lib e x y2 st)"
proof -
  let ?p = "mpi_val st (ecp_P e)" and ?x = "mpi_val st x" and ?a = "curve_a st e" and ?b = "mpi_val st (ecp_B e)"
  have md: "mpi_sets y2 (Some (u mod ?p)) st (or_else r (mpi_mod_mpi lib y2 y2 (ecp_P e)))" if "mpi_sets y2 (Some u) st r" for u r
  proof (rule mpi_sets_step [OF that])
    fix st1 :: "'m bn_world" assume v: "mpi_val st1 y2 = u" "\<And>q. q \<noteq> y2 \<Longrightarrow> mpi_val st1 q = mpi_val st q"
    then have "mpi_val st1 (ecp_P e) = ?p" using ne by auto
    then show "mpi_sets y2 (Some (u mod ?p)) st1 (mpi_mod_mpi lib y2 y2 (ecp_P e) st1)"
      using mpi_laws(7) [OF ok, of y2 "ecp_P e" st1 y2] ne v(1) p by (simp add: mod_value_def)
  qed
  have mu: "mpi_sets y2 (Some (u * ?x)) st (or_else r (mpi_mul_mpi lib y2 y2 x))" if "mpi_sets y2 (Some u) st r" for u r
  proof (rule mpi_sets_step [OF that])
    fix st1 :: "'m bn_world" assume v: "mpi_val st1 y2 = u" "\<And>q. q \<noteq> y2 \<Longrightarrow> mpi_val st1 q = mpi_val st q"
    then have "mpi_val st1 x = ?x" using ne by auto
    then show "mpi_sets y2 (Some (u * ?x)) st1 (mpi_mul_mpi lib y2 y2 x st1)" using mpi_laws(6) [OF ok, of y2 st1 y2 x] v(1) by simp
  qed
  have bb: "mpi_sets y2 (Some (u + ?b)) st (or_else r (mpi_add_mpi lib y2 y2 (ecp_B e)))" if "mpi_sets y2 (Some u) st r" for u r
  proof (rule mpi_sets_step [OF that])
    fix st1 :: "'m bn_world" assume v: "mpi_val st1 y2 = u" "\<And>q. q \<noteq> y2 \<Longrightarrow> mpi_val st1 q = mpi_val st q"
    then have "mpi_val st1 (ecp_B e) = ?b" using ne by auto
    then show "mpi_sets y2 (Some (u + ?b)) st1 (mpi_add_mpi lib y2 y2 (ecp_B e) st1)" using mpi_laws(4) [OF ok, of y2 st1 y2 "ecp_B e"] v(1) by simp
  qed
  have aa: "mpi_sets y2 (Some (u + ?a)) st
      (or_else r (if ecp_A_set e then mpi_add_mpi lib y2 y2 (ecp_A e) else mpi_sub_int lib y2 y2 3))" if "mpi_sets y2 (Some u) st r" for u r
  proof (rule mpi_sets_step [OF that])
    fix st1 :: "'m bn_world" assume v: "mpi_val st1 y2 = u" "\<And>q. q \<noteq> y2 \<Longrightarrow> mpi_val st1 q = mpi_val st q"
    then have "mpi_val st1 (ecp_A e) = mpi_val st (ecp_A e)" using ne by auto
    then show "mpi_sets y2 (Some (u + ?a)) st1 ((if ecp_A_set e then mpi_add_mpi lib y2 y2 (ecp_A e) else mpi_sub_int lib y2 y2 3) st1)"
      using mpi_laws(4) [OF ok, of y2 st1 y2 "ecp_A e"] mpi_laws(11) [OF ok, of y2 st1 y2 3] v(1) by (simp add: curve_a_def)
  qed
  show ?thesis
    unfolding crypto_ec_point_y_sqr_weierstrass_def curve_rhs_def curve_rhs_horner [symmetric]
    by (rule md [OF bb [OF md [OF mu [OF md [OF aa [OF md [OF mpi_laws(6) [OF ok]]]]]]]])
qed

text \<open>The square is in a new number; when there is no memory nothing changes.\<close>

lemma compute_y_sqr_runs:
  assumes ok: "mpi_ok lib" and live: "\<forall>q \<in> {x, ecp_P e, ecp_A e, ecp_B e}. mpis st q \<noteq> None" and p: "0 < mpi_val st (ecp_P e)"
    and r: "crypto_ec_point_compute_y_sqr lib e x st = (res, st')"
  shows "case res of
      None \<Rightarrow> mpis st' = mpis st
    | Some q \<Rightarrow> ecp_type e = MBEDTLS_ECP_TYPE_SHORT_WEIERSTRASS \<and> mpis st q = None \<and> (\<exists>n. q = Obj n) \<and>
        mpis st' = (mpis st)(q \<mapsto> curve_rhs st e (mpi_val st x))"
proof -
  obtain q st0 where al: "bn_malloc lib st = (q, st0)" by (rule prod.exhaust)
  have m0: "mpis st0 = mpis st" by (rule mpi_laws(17) [OF ok al])
  show ?thesis
  proof (cases q)
    case None
    then show ?thesis using al m0 r by (simp add: crypto_ec_point_compute_y_sqr_def)
  next
    case (Some y2)
    have fresh: "mpis st y2 = None" using mpi_laws(18) [OF ok] al Some by simp
    have obj: "\<exists>n. y2 = Obj n" using mpi_laws(19) [OF ok] al Some by simp
    let ?s = "mbedtls_mpi_init y2 st0"
    have s: "mpis ?s = (mpis st)(y2 \<mapsto> 0)" using m0 by (simp add: mbedtls_mpi_init_def)
    have ne: "y2 \<notin> {x, ecp_P e, ecp_A e, ecp_B e}" using live fresh by auto
    have v: "mpi_val ?s z = mpi_val st z" if "z \<in> {x, ecp_P e, ecp_A e, ecp_B e}" for z
      using s ne that by (auto simp: mpi_val_def)
    have rhs: "curve_rhs ?s e (mpi_val ?s x) = curve_rhs st e (mpi_val st x)"
      unfolding curve_rhs_def curve_a_def using v [of x] v [of "ecp_P e"] v [of "ecp_A e"] v [of "ecp_B e"] by simp
    obtain rc st1 where y: "crypto_ec_point_y_sqr_weierstrass lib e x y2 ?s = (rc, st1)" by (rule prod.exhaust)
    have sets: "mpi_sets y2 (Some (curve_rhs st e (mpi_val st x))) ?s (rc, st1)"
      using y_sqr_sets [OF ok ne, of ?s] v [of "ecp_P e"] p by (simp add: rhs y)
    have free: "mpis (mbedtls_mpi_free y2 s1) = mpis st" if "mpis s1 = (mpis st)(y2 \<mapsto> z)" for s1 :: "'a bn_world" and z
      using that fresh by (auto simp: mbedtls_mpi_free_def)
    show ?thesis
    proof (cases "ecp_type e = MBEDTLS_ECP_TYPE_SHORT_WEIERSTRASS \<and> rc = 0")
      case True
      then have "mpis st1 = (mpis st)(y2 \<mapsto> curve_rhs st e (mpi_val st x))" using mpi_setsD(1) [OF sets] s by simp
      then show ?thesis using True al Some r y fresh obj by (auto simp: crypto_ec_point_compute_y_sqr_def Let_def)
    next
      case False
      have "\<exists>z. mpis st1 = (mpis st)(y2 \<mapsto> z)" using sets s by (cases "rc = 0") (auto simp: mpi_sets_def)
      then show ?thesis using False al Some r y free s
        by (auto simp: crypto_ec_point_compute_y_sqr_def Let_def split: if_splits)
    qed
  qed
qed

section \<open>Recovering y\<close>

text \<open>Everything outside a set of numbers is as before.\<close>

definition same_but :: "bn_ptr set \<Rightarrow> 'm bn_world \<Rightarrow> 'm bn_world \<Rightarrow> bool" where
  "same_but S st st' \<longleftrightarrow> (\<forall>q. q \<notin> S \<longrightarrow> mpis st' q = mpis st q)"

lemma mpi_sets_same: "mpi_sets X v st r \<Longrightarrow> X \<in> S \<Longrightarrow> same_but S st (snd r)"
  by (cases "fst r = 0") (auto simp: mpi_sets_def same_but_def)

lemma same_but_then:
  assumes "same_but S st (snd r)" "same_but S (snd r) (snd (g (snd r)))"
  shows "same_but S st (snd (or_else r g))"
  using assms by (simp add: same_but_def or_else_def)

lemma same_but_val: "same_but S st st' \<Longrightarrow> q \<notin> S \<Longrightarrow> mpi_val st' q = mpi_val st q"
  by (simp add: same_but_def mpi_val_def)

lemma get_bits_3: "0 < p \<Longrightarrow> \<bar>p\<bar> div 2 ^ 0 mod 2 = 1 \<and> \<bar>p\<bar> div 2 ^ 1 mod 2 = 1 \<longleftrightarrow> p mod 4 = (3 :: int)"
  by (simp, presburger)

text \<open>The steps after the square \<open>w\<close> is known, with the number of \<open>exp\<close> initialised.\<close>

definition derive_y_steps :: "'m mpi_lib \<Rightarrow> bn_ptr \<Rightarrow> bn_ptr \<Rightarrow> bn_ptr \<Rightarrow> int \<Rightarrow> 'm bn_world \<Rightarrow> int \<times> 'm bn_world" where
  "derive_y_steps lib P bn cy2 parity_bit st =
     or_else (or_else (or_else (or_else (or_else
       (fail_if (mpi_get_bit st P 0 \<noteq> 1) st)
       (\<lambda>st. fail_if (mpi_get_bit st P 1 \<noteq> 1) st))
       (mpi_add_int lib (Tmp 0) P 1))
       (mpi_shift_r lib (Tmp 0) 2))
       (mpi_exp_mod lib bn cy2 (Tmp 0) P))
       (\<lambda>st. if mpi_get_bit st bn 0 \<noteq> parity_bit then mpi_sub_mpi lib bn P bn st else (0, st))"

definition root_of_parity :: "int \<Rightarrow> int \<Rightarrow> int \<Rightarrow> int" where
  "root_of_parity p w parity_bit =
     (let y = w ^ nat ((p + 1) div 4) mod p in if y mod 2 = parity_bit then y else p - y)"

lemma derive_y_steps_run:
  fixes st :: "'m bn_world"
  assumes ok: "mpi_ok lib" and ne: "P \<notin> {Tmp 0, bn}" "cy2 \<notin> {Tmp 0, bn}" "bn \<noteq> Tmp 0"
    and p: "0 < mpi_val st P"
    and r: "derive_y_steps lib P bn cy2 parity_bit st = (rc, st')"
  shows "same_but {Tmp 0, bn} st st' \<and>
    (rc = 0 \<longrightarrow> mpi_val st P mod 4 = 3 \<and> mpis st' bn = Some (root_of_parity (mpi_val st P) (mpi_val st cy2) parity_bit))"
proof (cases "mpi_val st P mod 4 = 3")
  case False
  then have "mpi_get_bit st P 0 \<noteq> 1 \<or> mpi_get_bit st P 1 \<noteq> 1" using get_bits_3 [OF p] by (auto simp: mpi_get_bit_def)
  then have "derive_y_steps lib P bn cy2 parity_bit st = (1, st)"
    by (cases "mpi_get_bit st P 0 = 1") (simp_all add: derive_y_steps_def or_else_simps fail_if_simps del: One_nat_def)
  then have "rc = 1 \<and> st' = st" using r by simp
  then show ?thesis by (simp add: same_but_def)
next
  case True
  let ?p = "mpi_val st P" and ?w = "mpi_val st cy2"
  have g: "mpi_get_bit st P 0 = 1" "mpi_get_bit st P 1 = 1" using True get_bits_3 [OF p] by (auto simp: mpi_get_bit_def)
  obtain r1 st1 where 1: "mpi_add_int lib (Tmp 0) P 1 st = (r1, st1)" by (rule prod.exhaust)
  obtain r2 st2 where 2: "mpi_shift_r lib (Tmp 0) 2 st1 = (r2, st2)" by (rule prod.exhaust)
  obtain r3 st3 where 3: "mpi_exp_mod lib bn cy2 (Tmp 0) P st2 = (r3, st3)" by (rule prod.exhaust)
  have run: "derive_y_steps lib P bn cy2 parity_bit st =
      (if r1 \<noteq> 0 then (r1, st1) else if r2 \<noteq> 0 then (r2, st2) else if r3 \<noteq> 0 then (r3, st3)
       else if mpi_get_bit st3 bn 0 \<noteq> parity_bit then mpi_sub_mpi lib bn P bn st3 else (0, st3))"
    by (cases "r1 = 0"; cases "r2 = 0"; cases "r3 = 0")
      (simp_all add: derive_y_steps_def fail_if_simps or_else_simps g 1 2 3 del: One_nat_def)
  have s1: "mpi_sets (Tmp 0) (Some (?p + 1)) st (r1, st1)" using mpi_laws(10) [OF ok, of "Tmp 0" st P 1] 1 by simp
  have b1: "same_but {Tmp 0, bn} st st1" using mpi_sets_same [OF s1] by simp
  show ?thesis
  proof (cases "r1 = 0")
    case False
    then show ?thesis using run r b1 by simp
  next
    case z1: True
    then have v1: "mpi_val st1 (Tmp 0) = ?p + 1" using mpi_setsD(1) [OF s1] by simp
    have s2: "mpi_sets (Tmp 0) (Some ((?p + 1) div 4)) st1 (r2, st2)"
      using mpi_laws(12) [OF ok, of st1 "Tmp 0" 2] v1 p 2 by simp
    have b2: "same_but {Tmp 0, bn} st st2" using mpi_sets_same [OF s2, of "{Tmp 0, bn}"] b1 by (simp add: same_but_def)
    show ?thesis
    proof (cases "r2 = 0")
      case False
      then show ?thesis using run r b2 z1 by simp
    next
      case z2: True
      then have v2: "mpi_val st2 (Tmp 0) = (?p + 1) div 4" using mpi_setsD(1) [OF s2] by simp
      have vp: "mpi_val st2 P = ?p" "mpi_val st2 cy2 = ?w" using same_but_val [OF b2] ne by auto
      have odd: "odd ?p" using True by presburger
      have s3: "mpi_sets bn (Some (?w ^ nat ((?p + 1) div 4) mod ?p)) st2 (r3, st3)"
      proof -
        have "bn \<noteq> P" "0 \<le> (?p + 1) div 4" using ne p by auto
        then show ?thesis using mpi_laws(9) [OF ok, of bn "Tmp 0" P st2 cy2] ne(3) 3 v2 vp p odd by (simp add: exp_mod_value_def)
      qed
      have b3: "same_but {Tmp 0, bn} st st3" using mpi_sets_same [OF s3, of "{Tmp 0, bn}"] b2 by (simp add: same_but_def)
      show ?thesis
      proof (cases "r3 = 0")
        case False
        then show ?thesis using run r b3 z1 z2 by simp
      next
        case z3: True
        define y where "y = ?w ^ nat ((?p + 1) div 4) mod ?p"
        have root: "root_of_parity ?p ?w parity_bit = (if y mod 2 = parity_bit then y else ?p - y)"
          by (simp only: root_of_parity_def Let_def y_def)
        have y0: "0 \<le> y" unfolding y_def using p by simp
        have m3: "mpis st3 bn = Some y" using mpi_setsD(1) [OF s3] z3 by (simp add: y_def)
        then have v3: "mpi_val st3 bn = y" "mpi_get_bit st3 bn 0 = y mod 2" using y0 by (simp_all add: mpi_val_def mpi_get_bit_def)
        have vp3: "mpi_val st3 P = ?p" using same_but_val [OF b3] ne by auto
        have s4: "mpi_sets bn (Some (?p - y)) st3 (mpi_sub_mpi lib bn P bn st3)"
          using mpi_laws(5) [OF ok, of bn st3 P bn] v3 vp3 by simp
        have b4: "same_but {Tmp 0, bn} st (snd (mpi_sub_mpi lib bn P bn st3))"
          using mpi_sets_same [OF s4, of "{Tmp 0, bn}"] b3 by (simp add: same_but_def)
        have fin: "(rc, st') = (if y mod 2 \<noteq> parity_bit then mpi_sub_mpi lib bn P bn st3 else (0, st3))"
          using run r z1 z2 z3 v3(2) by simp
        show ?thesis
        proof (cases "y mod 2 = parity_bit")
          case True
          then show ?thesis using fin b3 m3 root \<open>?p mod 4 = 3\<close> by simp
        next
          case f: False
          then have res: "mpi_sub_mpi lib bn P bn st3 = (rc, st')" using fin by simp
          have "rc = 0 \<Longrightarrow> mpis st' bn = Some (?p - y)" using mpi_setsD(1) [OF s4] by (simp add: res)
          then show ?thesis using b4 f root \<open>?p mod 4 = 3\<close> by (simp add: res)
        qed
      qed
    qed
  qed
qed

lemma parity_choice:
  fixes p y :: int
  assumes "0 \<le> y" "y < p" "y mod 2 \<noteq> b \<Longrightarrow> (p - y) mod 2 = b" "(p - y)\<^sup>2 mod p = y\<^sup>2 mod p" "y\<^sup>2 mod p = v"
  shows "0 \<le> (if y mod 2 = b then y else p - y) \<and> (if y mod 2 = b then y else p - y) \<le> p \<and>
    (if y mod 2 = b then y else p - y) mod 2 = b \<and> (if y mod 2 = b then y else p - y)\<^sup>2 mod p = v"
  using assms by (cases "y mod 2 = b") (simp_all only: if_True if_False, simp_all)

lemma root_of_parity_spec:
  assumes "prime_int p" "p mod 4 = 3" "parity_bit \<in> {0, 1}"
  shows "0 \<le> root_of_parity p w parity_bit \<and> root_of_parity p w parity_bit \<le> p \<and>
    root_of_parity p w parity_bit mod 2 = parity_bit \<and>
    (root_of_parity p w parity_bit)\<^sup>2 mod p = (if \<exists>z. z\<^sup>2 mod p = w mod p then w mod p else (- w) mod p)"
proof -
  let ?y = "w ^ nat ((p + 1) div 4) mod p"
  have p: "1 < p" "odd p" using assms(1,2) by (simp add: prime_int_def) (use assms(2) in presburger)
  have y: "0 \<le> ?y" "?y < p" using p by simp_all
  have par: "(p - ?y) mod 2 = parity_bit" if "?y mod 2 \<noteq> parity_bit"
    using p(2) assms(3) that by (auto simp: mod_2_eq_odd)
  have neg: "(p - ?y)\<^sup>2 mod p = ?y\<^sup>2 mod p"
  proof -
    have "(p - ?y)\<^sup>2 = ?y\<^sup>2 + p * (p - 2 * ?y)" by (simp add: power2_eq_square algebra_simps)
    then show ?thesis by simp
  qed
  have "?y\<^sup>2 mod p = (w ^ nat ((p + 1) div 4))\<^sup>2 mod p" by (rule power_mod)
  also have "\<dots> = (if \<exists>z. z\<^sup>2 mod p = w mod p then w mod p else (- w) mod p)"
  proof (cases "\<exists>z. z\<^sup>2 mod p = w mod p")
    case True
    show ?thesis
    proof (cases "p dvd w")
      case True
      have "3 \<le> p" using zmod_le_nonneg_dividend [of p 4] assms(2) p by simp
      then have "1 \<le> (p + 1) div 4" using zdiv_mono1 [of 4 "p + 1" 4] by simp
      with True have "p dvd (w ^ nat ((p + 1) div 4))\<^sup>2"
        using prime_int_dvd_power [OF assms(1)] by simp
      with True \<open>\<exists>z. z\<^sup>2 mod p = w mod p\<close> show ?thesis by (simp add: dvd_imp_mod_0)
    next
      case False
      with True root_3_mod_4 [OF assms(2)] euler_3_mod_4 [OF assms(1,2) False] p show ?thesis by auto
    qed
  next
    case False
    then show ?thesis using root_of_minus [OF assms(1,2) False] by simp
  qed
  finally have "?y\<^sup>2 mod p = (if \<exists>z. z\<^sup>2 mod p = w mod p then w mod p else (- w) mod p)" .
  from parity_choice [OF y par neg this] show ?thesis unfolding root_of_parity_def Let_def .
qed

lemma derive_y_runs:
  fixes st :: "'m bn_world"
  assumes ok: "mpi_ok lib" and live: "\<forall>q \<in> {bn, ecp_P grp, ecp_A grp, ecp_B grp}. mpis st q \<noteq> None"
    and loc: "mpis st (Tmp 0) = None" and ne: "bn \<noteq> ecp_P grp" and p: "0 < mpi_val st (ecp_P grp)"
    and r: "crypto_mbedtls_short_weierstrass_derive_y lib grp bn parity_bit st = (rc, st')"
  shows "same_but {bn} st st' \<and>
    (rc = 0 \<longrightarrow> mpi_val st (ecp_P grp) mod 4 = 3 \<and>
      mpi_val st' bn = root_of_parity (mpi_val st (ecp_P grp)) (curve_rhs st grp (mpi_val st bn)) parity_bit)"
proof -
  let ?P = "ecp_P grp"
  obtain q st1 where c: "crypto_ec_point_compute_y_sqr lib grp bn st = (q, st1)" by (rule prod.exhaust)
  note run = compute_y_sqr_runs [OF ok live p c]
  show ?thesis
  proof (cases q)
    case None
    then show ?thesis using r c run by (simp add: crypto_mbedtls_short_weierstrass_derive_y_def same_but_def)
  next
    case (Some cy2)
    let ?w = "curve_rhs st grp (mpi_val st bn)"
    have cy: "mpis st cy2 = None" "cy2 \<noteq> Tmp 0" "mpis st1 = (mpis st)(cy2 \<mapsto> ?w)" using run Some by auto
    let ?s = "mbedtls_mpi_init (Tmp 0) st1"
    have s: "mpis ?s = (mpis st)(cy2 \<mapsto> ?w, Tmp 0 \<mapsto> 0)" using cy by (simp add: mbedtls_mpi_init_def)
    have d: "?P \<notin> {Tmp 0, bn}" "cy2 \<notin> {Tmp 0, bn}" "bn \<noteq> Tmp 0" "cy2 \<noteq> ?P" using live loc ne cy by auto
    have v: "mpi_val ?s cy2 = ?w" "mpi_val ?s ?P = mpi_val st ?P" using d cy(2) by (auto simp: mpi_val_def s)
    obtain rc1 st2 where y: "derive_y_steps lib ?P bn cy2 parity_bit ?s = (rc1, st2)" by (rule prod.exhaust)
    have steps: "same_but {Tmp 0, bn} ?s st2"
      "rc1 = 0 \<Longrightarrow> mpi_val st ?P mod 4 = 3 \<and> mpis st2 bn = Some (root_of_parity (mpi_val st ?P) ?w parity_bit)"
      using derive_y_steps_run [OF ok d(1-3) _ y] v p by auto
    have res: "rc = (if rc1 \<noteq> 0 then 1 else 0)" "st' = mbedtls_mpi_free cy2 (mbedtls_mpi_free (Tmp 0) st2)"
      using r y by (simp_all add: crypto_mbedtls_short_weierstrass_derive_y_def c Some Let_def derive_y_steps_def)
    have "same_but {bn} st st'"
      using steps(1) loc cy(1) by (auto simp: same_but_def res mbedtls_mpi_free_def s)
    moreover have "mpi_val st' bn = mpi_val st2 bn" using d by (auto simp: res mbedtls_mpi_free_def mpi_val_def)
    ultimately show ?thesis using steps(2) res(1) by (simp add: mpi_val_def)
  qed
qed

text \<open>
  C13: a 0 from the recovery of y means that the prime is 3 modulo 4 and the number holds a y between
  0 and the prime, of the wanted parity, that satisfies the curve equation for x whenever some number
  does. For an x with no point on the curve it returns 0 as well, with a number whose square is minus
  the right side, so the caller has to check the point. Whatever it returns, no other number changes
  and nothing it allocated is left.
\<close>

theorem derive_y_on_curve:
  fixes st :: "'m bn_world"
  assumes "mpi_ok lib" and "\<forall>q \<in> {bn, ecp_P grp, ecp_A grp, ecp_B grp}. mpis st q \<noteq> None"
    and "mpis st (Tmp 0) = None" and "bn \<noteq> ecp_P grp" and "prime_int (mpi_val st (ecp_P grp))" and "parity_bit \<in> {0, 1}"
    and "crypto_mbedtls_short_weierstrass_derive_y lib grp bn parity_bit st = (rc, st')"
  shows "same_but {bn} st st' \<and>
    (rc = 0 \<longrightarrow>
      (let p = mpi_val st (ecp_P grp); w = curve_rhs st grp (mpi_val st bn); y = mpi_val st' bn
       in p mod 4 = 3 \<and> 0 \<le> y \<and> y \<le> p \<and> y mod 2 = parity_bit \<and>
          y\<^sup>2 mod p = (if \<exists>z. z\<^sup>2 mod p = w then w else (- w) mod p)))"
proof -
  have p: "0 < mpi_val st (ecp_P grp)" using assms(5) by (simp add: prime_int_def)
  have w: "curve_rhs st grp x mod mpi_val st (ecp_P grp) = curve_rhs st grp x" for x by (simp add: curve_rhs_def)
  show ?thesis
    using derive_y_runs [OF assms(1-4) p assms(7)]
      root_of_parity_spec [OF assms(5) _ assms(6), of "curve_rhs st grp (mpi_val st bn)"]
    by (auto simp: Let_def w)
qed

text \<open>The curve \<open>y^2 = x^3 - 3 x\<close> modulo 7: for x = 2 the right side is 2, the square of 3 and 4.\<close>

definition small_curve :: ecp_group where
  "small_curve = \<lparr>ecp_id = MBEDTLS_ECP_DP_SECP256R1, ecp_type = MBEDTLS_ECP_TYPE_SHORT_WEIERSTRASS, ecp_pbits = 3,
     ecp_P = Obj 2, ecp_A = Obj 3, ecp_A_set = False, ecp_B = Obj 4, ecp_N = Obj 5\<rparr>"

definition small_world :: "nat bn_world" where
  "small_world = \<lparr>mpis = [Obj 0 \<mapsto> 0, Obj 2 \<mapsto> 7, Obj 3 \<mapsto> 0, Obj 4 \<mapsto> 0, Obj 5 \<mapsto> 11, Obj 6 \<mapsto> 2], outside = 7\<rparr>"

lemma derive_y_on_curve_witness:
  "\<exists>st'. crypto_mbedtls_short_weierstrass_derive_y plain_mpi small_curve (Obj 6) 0 small_world = (0, st') \<and>
     same_but {Obj 6} small_world st' \<and> mpi_val st' (Obj 6) mod 2 = 0 \<and> (mpi_val st' (Obj 6))\<^sup>2 mod 7 = 2"
proof -
  obtain rc st' where r: "crypto_mbedtls_short_weierstrass_derive_y plain_mpi small_curve (Obj 6) 0 small_world = (rc, st')"
    by (rule prod.exhaust)
  have "rc = 0"
    using r by (simp add: crypto_mbedtls_short_weierstrass_derive_y_def crypto_ec_point_compute_y_sqr_def
      crypto_ec_point_y_sqr_weierstrass_def small_curve_def small_world_def plain_mpi_def mpi_put_def mpi_val_def
      mbedtls_mpi_init_def or_else_simps mod_value_def exp_mod_value_def fail_if_simps mpi_get_bit_def Let_def)
  moreover have v: "mpi_val small_world (ecp_P small_curve) = 7" "curve_rhs small_world small_curve (mpi_val small_world (Obj 6)) = 2"
    by (simp_all add: mpi_val_def small_world_def small_curve_def curve_rhs_def curve_a_def)
  moreover have "\<exists>z. z\<^sup>2 mod 7 = (2 :: int)" by (rule exI [of _ 3]) simp
  moreover have "\<forall>q \<in> {Obj 6, ecp_P small_curve, ecp_A small_curve, ecp_B small_curve}. mpis small_world q \<noteq> None"
    "mpis small_world (Tmp 0) = None" "Obj 6 \<noteq> ecp_P small_curve"
    by (simp_all add: small_world_def small_curve_def)
  ultimately show ?thesis
    using derive_y_on_curve [OF plain_mpi_ok, of "Obj 6" small_curve small_world 0 rc st'] r seven_is_prime
    by (simp add: Let_def)
qed

section \<open>The coefficient a and the inverse of a point\<close>

text \<open>The primes of the curves, as FIPS 186-4 defines them.\<close>

definition nist_prime :: "ecp_group_id \<Rightarrow> int" where
  "nist_prime i =
     (if i = MBEDTLS_ECP_DP_SECP256R1 then 2 ^ 256 - 2 ^ 224 + 2 ^ 192 + 2 ^ 96 - 1
      else if i = MBEDTLS_ECP_DP_SECP384R1 then 2 ^ 384 - 2 ^ 128 - 2 ^ 96 + 2 ^ 32 - 1
      else 2 ^ 521 - 1)"

definition nist_curves :: "ecp_group_id set" where
  "nist_curves = {MBEDTLS_ECP_DP_SECP256R1, MBEDTLS_ECP_DP_SECP384R1, MBEDTLS_ECP_DP_SECP521R1}"

lemma tables_are_minus_3:
  "os2ip secp256r1_a = nist_prime MBEDTLS_ECP_DP_SECP256R1 - 3"
  "os2ip secp384r1_a = nist_prime MBEDTLS_ECP_DP_SECP384R1 - 3"
  "os2ip secp521r1_a = nist_prime MBEDTLS_ECP_DP_SECP521R1 - 3"
  by (simp_all add: os2ip_def secp256r1_a_def secp384r1_a_def secp521r1_a_def nist_prime_def)

lemma get_a_runs:
  assumes "mpi_ok lib" "ecp_id e \<in> nist_curves \<inter> enabled" "crypto_ec_get_a lib enabled e st = (r, st')"
  shows "(r = None \<or> r = Some mpi_sw_A \<and> mpi_val st' mpi_sw_A = nist_prime (ecp_id e) - 3) \<and> same_but {mpi_sw_A} st st'"
proof -
  have row: "(r = None \<or> r = Some mpi_sw_A \<and> mpi_val st' mpi_sw_A = os2ip b) \<and> same_but {mpi_sw_A} st st'"
    if "(let (rc, st) = mpi_read_binary lib mpi_sw_A b st in if rc = 0 then (Some mpi_sw_A, st) else (None, st)) = (r, st')" for b
  proof -
    have sets: "mpi_sets mpi_sw_A (Some (os2ip b)) st (mpi_read_binary lib mpi_sw_A b st)" by (rule mpi_laws(1) [OF assms(1)])
    then show ?thesis using that mpi_setsD(1) [OF sets] mpi_sets_same [OF sets, of "{mpi_sw_A}"]
      by (auto simp: split_beta Let_def split: if_splits)
  qed
  consider "ecp_id e = MBEDTLS_ECP_DP_SECP256R1" | "ecp_id e = MBEDTLS_ECP_DP_SECP384R1" | "ecp_id e = MBEDTLS_ECP_DP_SECP521R1"
    using assms(2) by (auto simp: nist_curves_def)
  then show ?thesis
  proof cases
    case 1
    with assms(2,3) row [of secp256r1_a] show ?thesis by (simp add: crypto_ec_get_a_def tables_are_minus_3)
  next
    case 2
    with assms(2,3) row [of secp384r1_a] show ?thesis by (simp add: crypto_ec_get_a_def tables_are_minus_3)
  next
    case 3
    with assms(2,3) row [of secp521r1_a] show ?thesis by (simp add: crypto_ec_get_a_def tables_are_minus_3)
  qed
qed

text \<open>
  for the NIST curves the coefficient is the standard's, the prime less 3. The answer is one
  number that all calls share: after a call for another curve, the pointer that the first call
  returned reads the other curve's coefficient.
\<close>

theorem ec_coefficient_shared:
  assumes "mpi_ok lib" and "ecp_id e1 \<in> nist_curves \<inter> enabled" "ecp_id e2 \<in> nist_curves \<inter> enabled"
    and "crypto_ec_get_a lib enabled e1 st = (Some a1, st1)" and "crypto_ec_get_a lib enabled e2 st1 = (Some a2, st2)"
  shows "mpi_val st1 a1 = nist_prime (ecp_id e1) - 3 \<and> mpi_val st2 a2 = nist_prime (ecp_id e2) - 3 \<and>
    a1 = a2 \<and> mpi_val st2 a1 = nist_prime (ecp_id e2) - 3 \<and> (\<forall>q. q \<noteq> a1 \<longrightarrow> mpis st2 q = mpis st q)"
  using get_a_runs [OF assms(1,2,4)] get_a_runs [OF assms(1,3,5)] by (auto simp: same_but_def)

lemma ec_coefficient_shared_witness:
  "\<exists>st1 st2. crypto_ec_get_a plain_mpi UNIV (small_curve\<lparr>ecp_id := MBEDTLS_ECP_DP_SECP521R1\<rparr>) small_world = (Some mpi_sw_A, st1) \<and>
     crypto_ec_get_a plain_mpi UNIV small_curve st1 = (Some mpi_sw_A, st2) \<and>
     mpi_val st1 mpi_sw_A = 2 ^ 521 - 4 \<and> mpi_val st2 mpi_sw_A = 2 ^ 256 - 2 ^ 224 + 2 ^ 192 + 2 ^ 96 - 4"
proof -
  let ?e = "small_curve\<lparr>ecp_id := MBEDTLS_ECP_DP_SECP521R1\<rparr>"
  obtain r1 st1 where 1: "crypto_ec_get_a plain_mpi UNIV ?e small_world = (r1, st1)" by (rule prod.exhaust)
  obtain r2 st2 where 2: "crypto_ec_get_a plain_mpi UNIV small_curve st1 = (r2, st2)" by (rule prod.exhaust)
  have r: "r1 = Some mpi_sw_A" "r2 = Some mpi_sw_A"
    using 1 2 by (auto simp: crypto_ec_get_a_def plain_mpi_def mpi_put_def small_curve_def)
  have n: "ecp_id ?e \<in> nist_curves \<inter> UNIV" "ecp_id small_curve \<in> nist_curves \<inter> UNIV"
    by (simp_all add: nist_curves_def small_curve_def)
  from ec_coefficient_shared [OF plain_mpi_ok n 1 [unfolded r] 2 [unfolded r]] 1 2 r show ?thesis
    by (auto simp: nist_prime_def small_curve_def)
qed

text \<open>Whether the point is the point at infinity is read off \<open>Z\<close>; the coordinates of a point are below the prime.\<close>

lemma invert_runs:
  fixes st :: "'m bn_world"
  assumes ok: "mpi_ok lib" and sw: "ecp_type e = MBEDTLS_ECP_TYPE_SHORT_WEIERSTRASS"
    and d: "pt_Y p \<noteq> ecp_P e" "pt_Y p \<noteq> pt_Z p" and y: "0 \<le> mpi_val st (pt_Y p)" "mpi_val st (pt_Y p) < mpi_val st (ecp_P e)"
    and dom: "mpis st (pt_Y p) \<noteq> None" and r: "crypto_ec_point_invert lib e p st = (0, st')"
  shows "mpis st' = (mpis st)(pt_Y p \<mapsto>
    (if mpi_val st (pt_Z p) = 0 \<or> mpi_val st (pt_Y p) = 0 then mpi_val st (pt_Y p) else mpi_val st (ecp_P e) - mpi_val st (pt_Y p)))"
proof (cases "mpi_val st (pt_Z p) = 0 \<or> mpi_val st (pt_Y p) = 0")
  case True
  then show ?thesis using r sw dom by (auto simp: crypto_ec_point_invert_def mpi_val_def)
next
  case False
  have sets: "mpi_sets (pt_Y p) (Some (mpi_val st (ecp_P e) - mpi_val st (pt_Y p))) st (mpi_sub_abs lib (pt_Y p) (ecp_P e) (pt_Y p) st)"
    using mpi_laws(20) [OF ok, of "pt_Y p" st "pt_Y p" "ecp_P e"] y by simp
  have "fst (mpi_sub_abs lib (pt_Y p) (ecp_P e) (pt_Y p) st) = 0" "snd (mpi_sub_abs lib (pt_Y p) (ecp_P e) (pt_Y p) st) = st'"
    using False r sw by (auto simp: crypto_ec_point_invert_def split_beta Let_def split: if_splits)
  with mpi_setsD(1) [OF sets] False show ?thesis by simp
qed

text \<open>
  inverting a point of a short Weierstrass curve negates its y modulo the prime, so the inverse is
  on the curve where the point is, leaves everything else alone, and inverting twice gives the point
  back; for the other curves it refuses.
\<close>

theorem point_invert_twice:
  fixes st :: "'m bn_world"
  assumes "mpi_ok lib" and "pt_Y p \<notin> {ecp_P e, pt_Z p}" and "mpis st (pt_Y p) \<noteq> None"
    and "0 \<le> mpi_val st (pt_Y p)" "mpi_val st (pt_Y p) < mpi_val st (ecp_P e)"
  shows "(ecp_type e = MBEDTLS_ECP_TYPE_MONTGOMERY \<longrightarrow> crypto_ec_point_invert lib e p st = (- 1, st)) \<and>
    (\<forall>st1 st2. ecp_type e = MBEDTLS_ECP_TYPE_SHORT_WEIERSTRASS \<longrightarrow>
      crypto_ec_point_invert lib e p st = (0, st1) \<longrightarrow>
        0 \<le> mpi_val st1 (pt_Y p) \<and> mpi_val st1 (pt_Y p) < mpi_val st (ecp_P e) \<and>
        (mpi_val st1 (pt_Y p))\<^sup>2 mod mpi_val st (ecp_P e) = (mpi_val st (pt_Y p))\<^sup>2 mod mpi_val st (ecp_P e) \<and>
        (mpi_val st (pt_Z p) \<noteq> 0 \<longrightarrow> (mpi_val st1 (pt_Y p) + mpi_val st (pt_Y p)) mod mpi_val st (ecp_P e) = 0) \<and>
        same_but {pt_Y p} st st1 \<and>
        (crypto_ec_point_invert lib e p st1 = (0, st2) \<longrightarrow> mpis st2 = mpis st))"
proof (intro conjI allI impI)
  let ?y = "mpi_val st (pt_Y p)" and ?P = "mpi_val st (ecp_P e)"
  show "crypto_ec_point_invert lib e p st = (- 1, st)" if "ecp_type e = MBEDTLS_ECP_TYPE_MONTGOMERY"
    using that by (simp add: crypto_ec_point_invert_def)
  fix st1 st2 assume sw: "ecp_type e = MBEDTLS_ECP_TYPE_SHORT_WEIERSTRASS" and 1: "crypto_ec_point_invert lib e p st = (0, st1)"
  have d: "pt_Y p \<noteq> ecp_P e" "pt_Y p \<noteq> pt_Z p" using assms(2) by auto
  note m1 = invert_runs [OF assms(1) sw d assms(4,5,3) 1]
  have v1: "mpi_val st1 (ecp_P e) = ?P" "mpi_val st1 (pt_Z p) = mpi_val st (pt_Z p)"
    "mpi_val st1 (pt_Y p) = (if mpi_val st (pt_Z p) = 0 \<or> ?y = 0 then ?y else ?P - ?y)"
    using m1 d by (simp_all add: mpi_val_def)
  show 0: "0 \<le> mpi_val st1 (pt_Y p)" "mpi_val st1 (pt_Y p) < ?P" using v1(3) assms(4,5) by auto
  show "same_but {pt_Y p} st st1" using m1 by (simp add: same_but_def)
  have sq: "(?P - ?y)\<^sup>2 = ?y\<^sup>2 + ?P * (?P - 2 * ?y)" by (simp add: power2_eq_square algebra_simps)
  show "(mpi_val st1 (pt_Y p))\<^sup>2 mod ?P = ?y\<^sup>2 mod ?P" unfolding v1(3) by (simp add: sq)
  show "(mpi_val st1 (pt_Y p) + ?y) mod ?P = 0" if "mpi_val st (pt_Z p) \<noteq> 0"
  proof (cases "?y = 0")
    case True
    with v1(3) have "mpi_val st1 (pt_Y p) + ?y = 0" by simp
    then show ?thesis by (simp only: mod_0)
  next
    case False
    with v1(3) that have "mpi_val st1 (pt_Y p) + ?y = ?P" by simp
    then show ?thesis by (simp only: mod_self)
  qed
  assume 2: "crypto_ec_point_invert lib e p st1 = (0, st2)"
  have live: "mpis st1 (pt_Y p) \<noteq> None" using m1 by simp
  from invert_runs [OF assms(1) sw d 0(1) _ live 2] 0(2) v1(1)
  have m2: "mpis st2 = (mpis st1)(pt_Y p \<mapsto> (if mpi_val st (pt_Z p) = 0 \<or> mpi_val st1 (pt_Y p) = 0
      then mpi_val st1 (pt_Y p) else ?P - mpi_val st1 (pt_Y p)))" by (simp add: v1(1,2))
  have live0: "mpis st (pt_Y p) = Some ?y" using assms(3) by (auto simp: mpi_val_def)
  have turned: "(if mpi_val st (pt_Z p) = 0 \<or> mpi_val st1 (pt_Y p) = 0
      then mpi_val st1 (pt_Y p) else ?P - mpi_val st1 (pt_Y p)) = ?y" using v1(3) assms(5) by auto
  have "mpis st2 = (mpis st1)(pt_Y p \<mapsto> ?y)" using m2 unfolding turned .
  also have "\<dots> = (mpis st)(pt_Y p \<mapsto> ?y)" unfolding m1 by (rule fun_upd_upd)
  also have "\<dots> = mpis st" by (rule fun_upd_idem) (rule live0)
  finally show "mpis st2 = mpis st" .
qed

definition small_point :: ecp_point where
  "small_point = \<lparr>pt_X = Obj 3, pt_Y = Obj 6, pt_Z = Obj 5\<rparr>"

lemma point_invert_twice_witness:
  "\<exists>st1. crypto_ec_point_invert plain_mpi small_curve small_point small_world = (0, st1) \<and> mpi_val st1 (Obj 6) = 5 \<and>
     (\<exists>st2. crypto_ec_point_invert plain_mpi small_curve small_point st1 = (0, st2) \<and> mpis st2 = mpis small_world)"
proof -
  let ?inv = "crypto_ec_point_invert plain_mpi small_curve small_point"
  obtain r1 st1 where 1: "?inv small_world = (r1, st1)" by (rule prod.exhaust)
  obtain r2 st2 where 2: "?inv st1 = (r2, st2)" by (rule prod.exhaust)
  note run = crypto_ec_point_invert_def plain_mpi_def mpi_put_def small_curve_def small_point_def small_world_def mpi_val_def
  have "r1 = 0" "mpi_val st1 (Obj 6) = 5" using 1 by (auto simp: run)
  moreover have "r2 = 0" using 1 2 by (auto simp: run)
  moreover have "pt_Y small_point \<notin> {ecp_P small_curve, pt_Z small_point}" "mpis small_world (pt_Y small_point) \<noteq> None"
    "0 \<le> mpi_val small_world (pt_Y small_point)" "mpi_val small_world (pt_Y small_point) < mpi_val small_world (ecp_P small_curve)"
    "ecp_type small_curve = MBEDTLS_ECP_TYPE_SHORT_WEIERSTRASS"
    by (simp_all add: run)
  ultimately show ?thesis
    using point_invert_twice [OF plain_mpi_ok, of small_point small_curve small_world] 1 2 by blast
qed

section \<open>Public keys\<close>

text \<open>
  The Diffie-Hellman context is a value of \<open>'e\<close>. \<open>dh_point_write\<close> writes the own public point,
  uncompressed or not, into a buffer of the given size; \<open>dh_read_public\<close> takes the octets of the
  peer's; \<open>dh_alloc\<close> and \<open>dh_clear_free\<close> are the buffer's allocation and release, and
  \<open>dh_calc_secret\<close> the shared secret for a buffer of the given length.
\<close>

record 'e ecdh_lib =
  dh_point_write :: "bool \<Rightarrow> nat \<Rightarrow> 'e \<Rightarrow> u8 list option"
  dh_read_public :: "u8 list \<Rightarrow> 'e \<Rightarrow> int \<times> 'e"
  dh_alloc :: "nat \<Rightarrow> 'e \<Rightarrow> bool \<times> 'e"
  dh_calc_secret :: "nat \<Rightarrow> 'e \<Rightarrow> int \<times> u8 list \<times> 'e"
  dh_clear_free :: "'e \<Rightarrow> 'e"

definition crypto_ecdh_get_pubkey :: "'e ecdh_lib \<Rightarrow> ecp_group \<Rightarrow> bool \<Rightarrow> 'e \<Rightarrow> u8 list option" where
  "crypto_ecdh_get_pubkey dh grp inc_y ecdh =
     (case dh_point_write dh inc_y 256 ecdh of
        None \<Rightarrow> None
      | Some buf \<Rightarrow> if ecp_type grp = MBEDTLS_ECP_TYPE_SHORT_WEIERSTRASS then Some (tl buf) else Some buf)"

text \<open>The y of a compressed key, for the library before 3.4: read x, derive, write y.\<close>

definition peer_y :: "'m mpi_lib \<Rightarrow> ecp_group \<Rightarrow> u8 list \<Rightarrow> 'm bn_world \<Rightarrow> int \<times> u8 list \<times> 'm bn_world" where
  "peer_y lib grp key st =
     (let bn = Tmp 1;
          st = mbedtls_mpi_init bn st;
          (ret, st) = or_else (mpi_read_binary lib bn key st) (crypto_mbedtls_short_weierstrass_derive_y lib grp bn 0);
          (ret, out) = (if ret \<noteq> 0 then (ret, []) else mpi_write_binary lib (mpi_val st bn) (length key))
      in (ret, out, mbedtls_mpi_free bn st))"

text \<open>
  The octets handed to the library for a short Weierstrass curve, with the length that is left in
  \<open>len\<close>; \<open>None\<close> is the return of NULL. \<open>buf\<close> is the array of 256 octets.
\<close>

definition peer_frame ::
  "nat \<Rightarrow> 'm mpi_lib \<Rightarrow> ecp_group \<Rightarrow> bool \<Rightarrow> u8 list \<Rightarrow> u8 list \<Rightarrow> 'm bn_world \<Rightarrow> ((nat \<times> u8 list) option \<times> 'm bn_world) result" where
  "peer_frame version lib grp inc_y key buf st =
     (let len = length key
      in if 256 - 2 < len then Inr (None, st)
         else rbind (mem_write buf 0 [of_nat (1 + len)]) (\<lambda>buf.
              rbind (mem_write buf 1 [0x04]) (\<lambda>buf.
              rbind (mem_write buf 2 key) (\<lambda>buf.
                if inc_y
                then rbind (mem_read buf 0 (unat (buf ! 0) + 1)) (\<lambda>pub. Inr (Some (len div 2, pub), st))
                else if 0x03040000 \<le> version
                then rbind (mem_write buf 1 [0x02]) (\<lambda>buf.
                     rbind (mem_read buf 0 (unat (buf ! 0) + 1)) (\<lambda>pub. Inr (Some (len, pub), st)))
                else if 256 - 2 < len * 2 then Inr (None, st)
                else let (ret, y, st) = peer_y lib grp key st
                     in if ret \<noteq> 0 then Inr (None, st)
                        else rbind (mem_write buf (2 + len) y) (\<lambda>buf.
                             rbind (mem_write buf 0 [buf ! 0 + of_nat len]) (\<lambda>buf.
                             rbind (mem_read buf 0 (unat (buf ! 0) + 1)) (\<lambda>pub. Inr (Some (len, pub), st))))))))"

definition crypto_ecdh_set_peerkey ::
  "nat \<Rightarrow> 'm mpi_lib \<Rightarrow> 'e ecdh_lib \<Rightarrow> ecp_group \<Rightarrow> bool \<Rightarrow> u8 list \<Rightarrow> u8 list \<Rightarrow> 'e \<Rightarrow> 'm bn_world \<Rightarrow> (u8 list option \<times> 'e \<times> 'm bn_world) result" where
  "crypto_ecdh_set_peerkey version lib dh grp inc_y key buf ecdh st =
     (if length key = 0 then Inr (None, ecdh, st)
      else let secret = (\<lambda>len ecdh st.
                 let (ok, ecdh) = dh_alloc dh len ecdh
                 in if \<not> ok then Inr (None, ecdh, st)
                    else let (rc, z, ecdh) = dh_calc_secret dh len ecdh
                         in if rc = 0 then Inr (Some z, ecdh, st) else Inr (None, dh_clear_free dh ecdh, st))
           in case ecp_type grp of
                MBEDTLS_ECP_TYPE_SHORT_WEIERSTRASS \<Rightarrow>
                  rbind (peer_frame version lib grp inc_y key buf st) (\<lambda>(framed, st).
                    case framed of
                      None \<Rightarrow> Inr (None, ecdh, st)
                    | Some (len, pub) \<Rightarrow>
                        let (rc, ecdh) = dh_read_public dh pub ecdh
                        in if rc \<noteq> 0 then Inr (None, ecdh, st) else secret len ecdh st)
              | MBEDTLS_ECP_TYPE_MONTGOMERY \<Rightarrow>
                  let (rc, ecdh) = dh_read_public dh key ecdh
                  in if rc \<noteq> 0 then Inr (None, ecdh, st) else secret (length key) ecdh st)"

text \<open>
  A point from its octets: the two coordinates of \<open>len\<close> octets behind an uncompressed tag, or x in
  reverse for a Montgomery curve. \<open>buf\<close> is the array of \<open>1 + 2 * MBEDTLS_MPI_MAX_SIZE\<close> octets, with
  the library's constant, and \<open>point_read\<close> the library's reader.
\<close>

definition crypto_ec_point_from_bin :: "(u8 list \<Rightarrow> 'p option) \<Rightarrow> ecp_group \<Rightarrow> u8 list \<Rightarrow> u8 list \<Rightarrow> 'p option result" where
  "crypto_ec_point_from_bin point_read e v buf =
     (let len = crypto_ec_prime_len e
      in case ecp_type e of
           MBEDTLS_ECP_TYPE_SHORT_WEIERSTRASS \<Rightarrow>
             rbind (mem_read v 0 (len * 2)) (\<lambda>xy.
             rbind (mem_write buf 0 (0x04 # xy)) (\<lambda>buf.
             rbind (mem_read buf 0 (1 + len * 2)) (\<lambda>b. Inr (point_read b))))
         | MBEDTLS_ECP_TYPE_MONTGOMERY \<Rightarrow>
             rbind (mem_read v 0 len) (\<lambda>x.
             rbind (mem_write buf 0 (rev x)) (\<lambda>buf.
             rbind (mem_read buf 0 len) (\<lambda>b. Inr (point_read b)))))"

lemma point_from_bin_frames:
  assumes "length v = 2 * crypto_ec_prime_len e" "crypto_ec_prime_len e \<le> max_size"
    and "length buf = 1 + max_size * 2"
  shows "crypto_ec_point_from_bin point_read e v buf = Inr (point_read
    (if ecp_type e = MBEDTLS_ECP_TYPE_SHORT_WEIERSTRASS then 0x04 # v else rev (take (crypto_ec_prime_len e) v)))"
  using assms by (cases "ecp_type e") (simp_all add: crypto_ec_point_from_bin_def)

text \<open>What the array holds after the first three writes.\<close>

lemma frame_start:
  assumes "length key \<le> 254" "length buf = 256"
  shows "\<exists>rest. length rest = 254 - length key \<and>
    rbind (mem_write buf 0 [a]) (\<lambda>buf. rbind (mem_write buf 1 [t]) (\<lambda>buf. rbind (mem_write buf 2 key) f)) = f (a # t # key @ rest)"
proof -
  obtain b0 b1 rest where b: "buf = b0 # b1 # rest" "length rest = 254"
    using assms(2) by (cases buf; cases "tl buf") auto
  then show ?thesis using assms(1) by (intro exI [of _ "drop (length key) rest"]) (simp add: numeral_2_eq_2)
qed

lemma unat_u8_small: "n \<le> 255 \<Longrightarrow> unat (of_nat n :: u8) = n"
  by (simp add: unat_of_nat)

lemma peer_frame_plain:
  assumes "length key \<le> 254" "length buf = 256" "inc_y \<or> 0x03040000 \<le> version"
  shows "peer_frame version lib grp inc_y key buf st =
    Inr (Some (if inc_y then length key div 2 else length key, of_nat (1 + length key) # (if inc_y then 0x04 else 0x02) # key), st)"
proof -
  let ?a = "of_nat (1 + length key) :: u8"
  have a: "unat ?a = 1 + length key" by (rule unat_u8_small) (use assms(1) in simp)
  have rd: "mem_read (?a # t # key @ rest) 0 (unat ((?a # t # key @ rest) ! 0) + 1) = Inr (?a # t # key)" for t rest
    unfolding nth_Cons_0 a by (simp add: mem_read_def)
  have wr: "mem_write (?a # t # key @ rest) 1 [t'] = Inr (?a # t' # key @ rest)" for t t' rest by (simp add: mem_write_def)
  show ?thesis
  proof (cases inc_y)
    case True
    from frame_start [OF assms(1,2), of ?a 4 "\<lambda>buf. rbind (mem_read buf 0 (unat (buf ! 0) + 1)) (\<lambda>pub. Inr (Some (length key div 2, pub), st))"]
    show ?thesis using True assms(1) by (auto simp only: peer_frame_def Let_def rd if_True rbind_simps) simp
  next
    case False
    then have "0x03040000 \<le> version" using assms(3) by simp
    with frame_start [OF assms(1,2), of ?a 4 "\<lambda>buf. rbind (mem_write buf 1 [2]) (\<lambda>buf.
        rbind (mem_read buf 0 (unat (buf ! 0) + 1)) (\<lambda>pub. Inr (Some (length key, pub), st)))"]
    show ?thesis using False assms(1) by (auto simp only: peer_frame_def Let_def rd wr if_True if_False rbind_simps) simp
  qed
qed

text \<open>What the derivation on a local number gives: everything is freed, and y fits the length of x.\<close>

lemma peer_y_runs:
  fixes st :: "'m bn_world"
  assumes ok: "mpi_ok lib" and live: "\<forall>q \<in> {ecp_P grp, ecp_A grp, ecp_B grp}. mpis st q \<noteq> None"
    and loc: "mpis st (Tmp 0) = None" "mpis st (Tmp 1) = None" and p: "prime_int (mpi_val st (ecp_P grp))"
    and r: "peer_y lib grp key st = (ret, y, st')"
  shows "mpis st' = mpis st \<and>
    (ret = 0 \<longrightarrow> length y = length key \<and>
      os2ip y = root_of_parity (mpi_val st (ecp_P grp)) (curve_rhs st grp (os2ip key)) 0 \<and> mpi_val st (ecp_P grp) mod 4 = 3)"
proof -
  let ?s = "mbedtls_mpi_init (Tmp 1) st"
  obtain r1 st1 where 1: "mpi_read_binary lib (Tmp 1) key ?s = (r1, st1)" by (rule prod.exhaust)
  have s1: "mpi_sets (Tmp 1) (Some (os2ip key)) ?s (r1, st1)" using mpi_laws(1) [OF ok, of "Tmp 1" key ?s] 1 by simp
  obtain x where m1: "mpis st1 = (mpis st)(Tmp 1 \<mapsto> x)" "r1 = 0 \<Longrightarrow> x = os2ip key"
    using s1 by (cases "r1 = 0") (auto simp: mpi_sets_def mbedtls_mpi_init_def)
  have free: "mpis (mbedtls_mpi_free (Tmp 1) s) = mpis st" if "same_but {Tmp 1} st1 s" for s :: "'m bn_world"
  proof
    fix q show "mpis (mbedtls_mpi_free (Tmp 1) s) q = mpis st q"
      using that m1(1) loc(2) by (cases "q = Tmp 1") (auto simp: mbedtls_mpi_free_def same_but_def)
  qed
  show ?thesis
  proof (cases "r1 = 0")
    case False
    then show ?thesis using r 1 free [of st1] by (simp add: peer_y_def Let_def or_else_simps same_but_def del: One_nat_def)
  next
    case True
    obtain r2 st2 where 2: "crypto_mbedtls_short_weierstrass_derive_y lib grp (Tmp 1) 0 st1 = (r2, st2)" by (rule prod.exhaust)
    have ne: "Tmp 1 \<notin> {ecp_P grp, ecp_A grp, ecp_B grp}" using live loc(2) by auto
    have v1: "mpi_val st1 q = mpi_val st q" if "q \<noteq> Tmp 1" for q using m1(1) that by (simp add: mpi_val_def)
    have vx: "mpi_val st1 (Tmp 1) = os2ip key" using m1 True by (simp add: mpi_val_def)
    have vP: "mpi_val st1 (ecp_P grp) = mpi_val st (ecp_P grp)" "mpi_val st1 (ecp_A grp) = mpi_val st (ecp_A grp)"
      "mpi_val st1 (ecp_B grp) = mpi_val st (ecp_B grp)" using v1 ne by auto
    have rhs: "curve_rhs st1 grp (mpi_val st1 (Tmp 1)) = curve_rhs st grp (os2ip key)"
      unfolding curve_rhs_def curve_a_def vP vx ..
    have p0: "0 < mpi_val st1 (ecp_P grp)" using p vP by (simp add: prime_int_def)
    have live1: "\<forall>q \<in> {Tmp 1, ecp_P grp, ecp_A grp, ecp_B grp}. mpis st1 q \<noteq> None" using live m1(1) by auto
    have loc1: "mpis st1 (Tmp 0) = None" using loc(1) m1(1) by simp
    have run: "same_but {Tmp 1} st1 st2" "r2 = 0 \<Longrightarrow> mpi_val st (ecp_P grp) mod 4 = 3 \<and>
        mpi_val st2 (Tmp 1) = root_of_parity (mpi_val st (ecp_P grp)) (curve_rhs st grp (os2ip key)) 0"
      using derive_y_runs [OF ok live1 loc1 _ p0 2] ne vP rhs by auto
    have pos: "0 \<le> mpi_val st2 (Tmp 1)" if "r2 = 0"
      using root_of_parity_spec [OF p, of 0] run(2) [OF that] by simp
    obtain r3 out where 3: "mpi_write_binary lib (mpi_val st2 (Tmp 1)) (length key) = (r3, out)" by (rule prod.exhaust)
    have res: "ret = (if r2 \<noteq> 0 then r2 else r3)" "r2 = 0 \<Longrightarrow> y = out" "st' = mbedtls_mpi_free (Tmp 1) st2"
      using r 1 2 3 True by (auto simp: peer_y_def Let_def or_else_simps simp del: One_nat_def split: if_splits)
    have "length out = length key \<and> os2ip out = mpi_val st2 (Tmp 1)" if "ret = 0"
    proof -
      have z: "r2 = 0" "r3 = 0" using that res(1) by (auto split: if_splits)
      then have "mpi_val st2 (Tmp 1) < 256 ^ length key" using mpi_laws(21) [OF ok pos, of "length key"] 3 by simp
      then show ?thesis using mpi_laws(16) [OF ok pos] z 3 by fastforce
    qed
    then show ?thesis using free [OF run(1)] run(2) res by (auto split: if_splits)
  qed
qed

lemma peer_frame_derived:
  fixes st :: "'m bn_world"
  assumes ok: "mpi_ok lib" and live: "\<forall>q \<in> {ecp_P grp, ecp_A grp, ecp_B grp}. mpis st q \<noteq> None"
    and loc: "mpis st (Tmp 0) = None" "mpis st (Tmp 1) = None" and p: "prime_int (mpi_val st (ecp_P grp))"
    and len: "length key * 2 \<le> 254" "length buf = 256" and v: "version < 0x03040000"
  shows "\<exists>fr st'. peer_frame version lib grp False key buf st = Inr (fr, st') \<and> mpis st' = mpis st \<and>
    (\<forall>len' pub. fr = Some (len', pub) \<longrightarrow> len' = length key \<and> (\<exists>y. length y = length key \<and>
      pub = of_nat (1 + 2 * length key) # 0x04 # key @ y \<and> mpi_val st (ecp_P grp) mod 4 = 3 \<and>
      os2ip y = root_of_parity (mpi_val st (ecp_P grp)) (curve_rhs st grp (os2ip key)) 0))"
proof -
  let ?a = "of_nat (1 + length key) :: u8" and ?b = "of_nat (1 + 2 * length key) :: u8"
  let ?f = "\<lambda>buf. let (ret, y, st) = peer_y lib grp key st
     in if ret \<noteq> 0 then Inr (None, st)
        else rbind (mem_write buf (2 + length key) y) (\<lambda>buf.
             rbind (mem_write buf 0 [buf ! 0 + of_nat (length key)]) (\<lambda>buf.
             rbind (mem_read buf 0 (unat (buf ! 0) + 1)) (\<lambda>pub. Inr (Some (length key, pub), st))))"
  have "length key \<le> 254" using len(1) by simp
  from frame_start [OF this len(2), of ?a 4 ?f] obtain rest where rest: "length rest = 254 - length key"
    and f: "rbind (mem_write buf 0 [?a]) (\<lambda>buf. rbind (mem_write buf 1 [4]) (\<lambda>buf. rbind (mem_write buf 2 key) ?f)) = ?f (?a # 4 # key @ rest)"
    by blast
  have fr: "peer_frame version lib grp False key buf st = ?f (?a # 4 # key @ rest)"
    unfolding f [symmetric] using len v by (simp add: peer_frame_def Let_def)
  obtain ret y st1 where py: "peer_y lib grp key st = (ret, y, st1)" by (rule prod_cases3)
  note run = peer_y_runs [OF ok live loc p py]
  show ?thesis
  proof (cases "ret = 0")
    case False
    then show ?thesis using fr py run by simp
  next
    case True
    then have ly: "length y = length key" using run by simp
    have w1: "mem_write (?a # 4 # key @ rest) (2 + length key) y = Inr (?a # 4 # key @ y @ drop (length key) rest)"
      using rest len(1) ly by (simp add: mem_write_def numeral_2_eq_2)
    have ab: "?a + of_nat (length key) = ?b" by simp
    have b: "unat ?b = 1 + 2 * length key" by (rule unat_u8_small) (use len(1) in simp)
    have w2: "mem_write (?a # 4 # key @ y @ drop (length key) rest) 0 [?b] = Inr (?b # 4 # key @ y @ drop (length key) rest)"
      by (simp add: mem_write_def)
    have rd: "mem_read (?b # 4 # key @ y @ drop (length key) rest) 0 (unat ?b + 1) = Inr (?b # 4 # key @ y)"
      unfolding b using ly by (simp add: mem_read_def)
    have "peer_frame version lib grp False key buf st = Inr (Some (length key, ?b # 4 # key @ y), st1)"
      unfolding fr by (simp only: py Let_def prod.case True not_True_eq_False if_False simp_thms w1 rbind_simps nth_Cons_0 ab w2 rd)
    with run True ly show ?thesis by blast
  qed
qed

text \<open>Keys that do not fit are refused before anything is written out of the array.\<close>

lemma peer_frame_refused:
  assumes "length buf = 256" "254 < length key \<or> \<not> inc_y \<and> version < 0x03040000 \<and> 254 < length key * 2"
  shows "peer_frame version lib grp inc_y key buf st = Inr (None, st)"
proof (cases "254 < length key")
  case True
  then show ?thesis by (simp add: peer_frame_def)
next
  case False
  with assms(2) have c: "\<not> inc_y" "\<not> 0x03040000 \<le> version" "254 < length key * 2" "length key \<le> 254" by auto
  from frame_start [OF c(4) assms(1), of "of_nat (1 + length key)" 4 "\<lambda>buf. Inr (None, st)"]
  have "rbind (mem_write buf 0 [of_nat (1 + length key)]) (\<lambda>buf. rbind (mem_write buf 1 [0x04]) (\<lambda>buf.
      rbind (mem_write buf 2 key) (\<lambda>buf. Inr (None, st)))) = Inr (None, st)" by auto
  then show ?thesis using c by (simp add: peer_frame_def)
qed

text \<open>
  C16: for a key of any length, the framing of a peer's key for a short Weierstrass curve never leaves its
  array of 256 octets, its length octet is the number of octets that follow, and a key that does not fit is
  refused. A key with both coordinates that the other side's \<open>crypto_ecdh_get_pubkey\<close> gave goes to the
  library as that side's uncompressed point behind its length; a key that is x alone goes as a compressed
  point, or for a library before 3.4 as x and the y between 0 and the prime that is even and satisfies the
  curve equation if any does. The world of numbers is as before.
\<close>

theorem peer_key_framed:
  fixes st :: "'m bn_world"
  assumes "mpi_ok lib" and "\<forall>q \<in> {ecp_P grp, ecp_A grp, ecp_B grp}. mpis st q \<noteq> None"
    and "mpis st (Tmp 0) = None" "mpis st (Tmp 1) = None" and "prime_int (mpi_val st (ecp_P grp))"
    and "ecp_type grp = MBEDTLS_ECP_TYPE_SHORT_WEIERSTRASS" and "length buf = 256"
    and "\<forall>point. dh_point_write dh True 256 ecdh = Some point \<longrightarrow> length point \<le> 256 \<and> (\<exists>xy. point = 0x04 # xy)"
  shows "(\<exists>fr st'. peer_frame version lib grp inc_y key buf st = Inr (fr, st') \<and> mpis st' = mpis st \<and>
      (254 < length key \<longrightarrow> fr = None) \<and>
      (\<forall>len' pub. fr = Some (len', pub) \<longrightarrow> (\<exists>body. pub = of_nat (length body) # body \<and> length body \<le> 255)) \<and>
      (inc_y \<and> length key \<le> 254 \<longrightarrow> fr = Some (length key div 2, of_nat (1 + length key) # 0x04 # key)) \<and>
      (\<not> inc_y \<and> 0x03040000 \<le> version \<and> length key \<le> 254 \<longrightarrow> fr = Some (length key, of_nat (1 + length key) # 0x02 # key)) \<and>
      (\<not> inc_y \<and> version < 0x03040000 \<longrightarrow> (\<forall>len' pub. fr = Some (len', pub) \<longrightarrow> len' = length key \<and> length key * 2 \<le> 254 \<and>
        (\<exists>y. length y = length key \<and> pub = of_nat (1 + 2 * length key) # 0x04 # key @ y \<and>
          (let p = mpi_val st (ecp_P grp); w = curve_rhs st grp (os2ip key)
           in even (os2ip y) \<and> os2ip y \<le> p \<and> ((\<exists>z. z\<^sup>2 mod p = w) \<longrightarrow> (os2ip y)\<^sup>2 mod p = w)))))) \<and>
    (\<forall>point pub. dh_point_write dh True 256 ecdh = Some point \<and> crypto_ecdh_get_pubkey dh grp True ecdh = Some pub \<longrightarrow>
      peer_frame version lib grp True pub buf st =
        Inr (if length pub \<le> 254 then Some (length pub div 2, of_nat (length point) # point) else None, st))"
proof (intro conjI allI impI)
  fix point pub assume pt: "dh_point_write dh True 256 ecdh = Some point \<and> crypto_ecdh_get_pubkey dh grp True ecdh = Some pub"
  then have xy: "point = 0x04 # pub" using assms(6,8) by (auto simp: crypto_ecdh_get_pubkey_def)
  then show "peer_frame version lib grp True pub buf st =
      Inr (if length pub \<le> 254 then Some (length pub div 2, of_nat (length point) # point) else None, st)"
    using peer_frame_plain [of pub buf True version lib grp st] peer_frame_refused [of buf pub True version lib grp st] assms(7)
    by simp
next
  let ?p = "mpi_val st (ecp_P grp)" and ?w = "curve_rhs st grp (os2ip key)"
  have w: "?w mod ?p = ?w" by (simp add: curve_rhs_def)
  have root: "even y \<and> y \<le> ?p \<and> ((\<exists>z. z\<^sup>2 mod ?p = ?w) \<longrightarrow> y\<^sup>2 mod ?p = ?w)" if "y = root_of_parity ?p ?w 0" "?p mod 4 = 3" for y
    using root_of_parity_spec [OF assms(5) that(2), of 0 ?w] unfolding w that(1) [symmetric] by (simp add: even_iff_mod_2_eq_zero)
  consider (long) "254 < length key \<or> \<not> inc_y \<and> version < 0x03040000 \<and> 254 < length key * 2"
    | (plain) "length key \<le> 254" "inc_y \<or> 0x03040000 \<le> version"
    | (derived) "length key * 2 \<le> 254" "\<not> inc_y" "version < 0x03040000" by linarith
  then show "\<exists>fr st'. peer_frame version lib grp inc_y key buf st = Inr (fr, st') \<and> mpis st' = mpis st \<and>
      (254 < length key \<longrightarrow> fr = None) \<and>
      (\<forall>len' pub. fr = Some (len', pub) \<longrightarrow> (\<exists>body. pub = of_nat (length body) # body \<and> length body \<le> 255)) \<and>
      (inc_y \<and> length key \<le> 254 \<longrightarrow> fr = Some (length key div 2, of_nat (1 + length key) # 0x04 # key)) \<and>
      (\<not> inc_y \<and> 0x03040000 \<le> version \<and> length key \<le> 254 \<longrightarrow> fr = Some (length key, of_nat (1 + length key) # 0x02 # key)) \<and>
      (\<not> inc_y \<and> version < 0x03040000 \<longrightarrow> (\<forall>len' pub. fr = Some (len', pub) \<longrightarrow> len' = length key \<and> length key * 2 \<le> 254 \<and>
        (\<exists>y. length y = length key \<and> pub = of_nat (1 + 2 * length key) # 0x04 # key @ y \<and>
          (let p = ?p; w = ?w in even (os2ip y) \<and> os2ip y \<le> p \<and> ((\<exists>z. z\<^sup>2 mod p = w) \<longrightarrow> (os2ip y)\<^sup>2 mod p = w)))))"
  proof cases
    case long
    show ?thesis
      by (intro exI [of _ None] exI [of _ st] conjI peer_frame_refused [OF assms(7) long]) (use long in auto)
  next
    case plain
    let ?body = "(if inc_y then 0x04 else 0x02) # key"
    have "of_nat (1 + length key) # ?body = (of_nat (length ?body) :: u8) # ?body" "length ?body \<le> 255" using plain(1) by simp_all
    with peer_frame_plain [OF plain(1) assms(7) plain(2), of lib grp st] plain show ?thesis
      by (intro exI [of _ "Some (if inc_y then length key div 2 else length key, of_nat (1 + length key) # ?body)"] exI [of _ st])
        (auto intro!: exI [of _ ?body])
  next
    case derived
    from peer_frame_derived [OF assms(1-5) derived(1) assms(7) derived(3)] obtain fr st' where
      f: "peer_frame version lib grp False key buf st = Inr (fr, st')" "mpis st' = mpis st"
      and d: "\<And>len' pub. fr = Some (len', pub) \<Longrightarrow> len' = length key \<and> (\<exists>y. length y = length key \<and>
        pub = of_nat (1 + 2 * length key) # 0x04 # key @ y \<and> ?p mod 4 = 3 \<and> os2ip y = root_of_parity ?p ?w 0)" by blast
    have y: "len' = length key \<and> length key * 2 \<le> 254 \<and> (\<exists>y. length y = length key \<and> pub = of_nat (1 + 2 * length key) # 0x04 # key @ y \<and>
        (let p = ?p; w = ?w in even (os2ip y) \<and> os2ip y \<le> p \<and> ((\<exists>z. z\<^sup>2 mod p = w) \<longrightarrow> (os2ip y)\<^sup>2 mod p = w)))"
      if "fr = Some (len', pub)" for len' pub
      using d [OF that] root derived(1) unfolding Let_def by blast
    have b: "\<exists>body. pub = of_nat (length body) # body \<and> length body \<le> 255" if fr: "fr = Some (len', pub)" for len' pub
    proof -
      obtain y where yy: "length y = length key" "pub = of_nat (1 + 2 * length key) # 0x04 # key @ y" using d [OF fr] by blast
      then have "length (0x04 # key @ y) = 1 + 2 * length key" by simp
      with yy(2) derived(1) show ?thesis by (intro exI [of _ "0x04 # key @ y"]) (simp only: simp_thms)
    qed
    have n: "\<not> 254 < length key" "\<not> 0x03040000 \<le> version" using derived(1,3) by simp_all
    have "peer_frame version lib grp inc_y key buf st = Inr (fr, st')" using f(1) derived(2) by simp
    then show ?thesis
      by (intro exI [of _ fr] exI [of _ st'] conjI) (use f(2) y b derived(2) n in blast)+
  qed
qed

definition plain_dh :: "unit ecdh_lib" where
  "plain_dh = \<lparr>dh_point_write = \<lambda>inc_y size e. if inc_y \<and> 3 \<le> size then Some [4, 1, 2] else None, dh_read_public = \<lambda>pub e. (0, e),
     dh_alloc = \<lambda>n e. (True, e), dh_calc_secret = \<lambda>n e. (0, replicate n 7, e), dh_clear_free = \<lambda>e. e\<rparr>"

lemma peer_key_framed_witness:
  "peer_frame 0x03040000 plain_mpi small_curve True [1, 2] (replicate 256 0) small_world = Inr (Some (1, [3, 4, 1, 2]), small_world) \<and>
   (\<exists>st'. peer_frame 0x03040000 plain_mpi small_curve False [2] (replicate 256 0) small_world = Inr (Some (1, [2, 2, 2]), st')) \<and>
   (\<exists>fr st'. peer_frame 0x03030000 plain_mpi small_curve False [2] (replicate 256 0) small_world = Inr (fr, st') \<and> mpis st' = mpis small_world) \<and>
   (\<exists>st'. peer_frame 0x03030000 plain_mpi small_curve True (replicate 255 9) (replicate 256 0) small_world = Inr (None, st'))"
proof -
  have h: "\<forall>q \<in> {ecp_P small_curve, ecp_A small_curve, ecp_B small_curve}. mpis small_world q \<noteq> None"
    "mpis small_world (Tmp 0) = None" "mpis small_world (Tmp 1) = None" "prime_int (mpi_val small_world (ecp_P small_curve))"
    "ecp_type small_curve = MBEDTLS_ECP_TYPE_SHORT_WEIERSTRASS" "length (replicate 256 (0 :: u8)) = 256"
    using seven_is_prime by (simp_all add: small_world_def small_curve_def mpi_val_def)
  have d: "\<forall>point. dh_point_write plain_dh True 256 () = Some point \<longrightarrow> length point \<le> 256 \<and> (\<exists>xy. point = 0x04 # xy)"
    by (simp add: plain_dh_def)
  have g: "dh_point_write plain_dh True 256 () = Some [4, 1, 2] \<and> crypto_ecdh_get_pubkey plain_dh small_curve True () = Some [1, 2]"
    by (simp add: plain_dh_def crypto_ecdh_get_pubkey_def small_curve_def)
  note p = peer_key_framed [OF plain_mpi_ok h d]
  have "peer_frame 0x03040000 plain_mpi small_curve True [1, 2] (replicate 256 0) small_world =
      Inr (if length [1 :: u8, 2] \<le> 254 then Some (length [1 :: u8, 2] div 2, of_nat (length [4 :: u8, 1, 2]) # [4, 1, 2]) else None, small_world)"
    using conjunct2 [OF p [of "0x03040000"], rule_format, OF g] .
  then have 1: "peer_frame 0x03040000 plain_mpi small_curve True [1, 2] (replicate 256 0) small_world = Inr (Some (1, [3, 4, 1, 2]), small_world)"
    by simp
  have 2: "\<exists>st'. peer_frame 0x03040000 plain_mpi small_curve False [2] (replicate 256 0) small_world = Inr (Some (1, [2, 2, 2]), st')"
    using conjunct1 [OF p [of "0x03040000" False "[2]"]] by auto
  have 3: "\<exists>fr st'. peer_frame 0x03030000 plain_mpi small_curve False [2] (replicate 256 0) small_world = Inr (fr, st') \<and>
      mpis st' = mpis small_world"
    using conjunct1 [OF p [of "0x03030000" False "[2]"]] by blast
  have "254 < length (replicate 255 (9 :: u8))" by simp
  then have 4: "\<exists>st'. peer_frame 0x03030000 plain_mpi small_curve True (replicate 255 9) (replicate 256 0) small_world = Inr (None, st')"
    using conjunct1 [OF p [of "0x03030000" True "replicate 255 9"]] by blast
  from 1 2 3 4 show ?thesis by blast
qed

end
