(* ===== verification/Crypto_Objects.thy ===== *)
theory Crypto_Objects
  imports Crypto_Ec "HOL-Library.Multiset"
begin

text \<open>
  The life of the objects of the elliptic curve part of crypto_mbedtls_mm.c: groups, points and
  Diffie-Hellman exchanges are made, used and given back. The ledger holds every block of the heap and
  every initialised context of Mbed TLS that was not freed yet; freeing what is not in it is an error.
\<close>

section \<open>The ledger\<close>

text \<open>A resource belongs to an object, named by its address; number 0 stands for the stack of the call.\<close>

datatype resource = Block nat | Ecdh_context nat | Group nat | Point nat | Mpi nat | Pk nat

type_synonym ledger = "resource multiset"

definition take_res :: "resource \<Rightarrow> ledger \<Rightarrow> ledger" where
  "take_res r l = add_mset r l"

definition free_res :: "resource \<Rightarrow> ledger \<Rightarrow> ledger result" where
  "free_res r l = (if r \<in># l then Inr (l - {#r#}) else Inl Dangling)"

section \<open>Key pairs and exchanges\<close>

text \<open>What the calls answer, in their order; \<open>an_block\<close> is the block that \<open>malloc\<close> gives.\<close>

record ecdh_answers =
  an_pk_info :: bool
  an_pk_setup :: bool
  an_gen_key :: bool
  an_block :: "nat option"
  an_setup :: bool
  an_params :: bool
  an_export :: bool
  an_load :: bool
  an_copy :: bool

definition crypto_mbedtls_keypair_gen :: "ecp_group_id set \<Rightarrow> int \<Rightarrow> ecdh_answers \<Rightarrow> int" where
  "crypto_mbedtls_keypair_gen enabled group' a =
     (if crypto_mbedtls_ecp_group_id_from_ike_id enabled group' = MBEDTLS_ECP_DP_NONE then - 1
      else if \<not> an_pk_info a then - 1
      else if \<not> an_pk_setup a \<or> \<not> an_gen_key a then - 1 else 0)"

definition ecdh_cleanup :: "nat \<Rightarrow> ledger \<Rightarrow> (nat option \<times> ledger) result" where
  "ecdh_cleanup p l =
     rbind (free_res (Point p) l) (\<lambda>l. rbind (free_res (Group p) l) (\<lambda>l. rbind (free_res (Ecdh_context p) l) (\<lambda>l.
     rbind (free_res (Block p) l) (\<lambda>l. Inr (None, l)))))"

text \<open>\<open>v320\<close>: Mbed TLS 3.2.0 or later, where the key is exported; before, its group is loaded and its point copied.\<close>

definition crypto_ecdh_init2 :: "bool \<Rightarrow> ecp_group_id set \<Rightarrow> int \<Rightarrow> ecdh_answers \<Rightarrow> ledger \<Rightarrow> (nat option \<times> ledger) result" where
  "crypto_ecdh_init2 v320 enabled group' a l =
     (if crypto_mbedtls_ecp_group_id_from_ike_id enabled group' = MBEDTLS_ECP_DP_NONE then Inr (None, l)
      else case an_block a of
        None \<Rightarrow> Inr (None, l)
      | Some p \<Rightarrow>
          (let l = take_res (Point p) (take_res (Group p) (take_res (Ecdh_context p) (take_res (Block p) l)))
           in if an_setup a \<and> an_params a then
                if v320 then
                  (let l = take_res (Mpi 0) l
                   in if an_export a then rbind (free_res (Mpi 0) l) (\<lambda>l. Inr (Some p, l))
                      else rbind (free_res (Mpi 0) l) (ecdh_cleanup p))
                else if an_load a \<and> an_copy a then Inr (Some p, l) else ecdh_cleanup p l
              else ecdh_cleanup p l))"

definition crypto_ecdh_init :: "bool \<Rightarrow> ecp_group_id set \<Rightarrow> int \<Rightarrow> ecdh_answers \<Rightarrow> ledger \<Rightarrow> (nat option \<times> ledger) result" where
  "crypto_ecdh_init v320 enabled group' a l =
     (let l = take_res (Pk 0) l
      in rbind (if crypto_mbedtls_keypair_gen enabled group' a = 0 then crypto_ecdh_init2 v320 enabled group' a l else Inr (None, l))
           (\<lambda>(ecdh, l). rbind (free_res (Pk 0) l) (\<lambda>l. Inr (ecdh, l))))"

definition crypto_ecdh_deinit :: "nat option \<Rightarrow> ledger \<Rightarrow> ledger result" where
  "crypto_ecdh_deinit ecdh l =
     (case ecdh of
        None \<Rightarrow> Inr l
      | Some p \<Rightarrow> rbind (free_res (Point p) l) (\<lambda>l. rbind (free_res (Group p) l) (\<lambda>l.
          rbind (free_res (Ecdh_context p) l) (free_res (Block p)))))"

section \<open>Groups and points\<close>

definition crypto_ec_init :: "ecp_group_id set \<Rightarrow> int \<Rightarrow> nat option \<Rightarrow> bool \<Rightarrow> ledger \<Rightarrow> (nat option \<times> ledger) result" where
  "crypto_ec_init enabled group' block loaded l =
     (if crypto_mbedtls_ecp_group_id_from_ike_id enabled group' = MBEDTLS_ECP_DP_NONE then Inr (None, l)
      else case block of
        None \<Rightarrow> Inr (None, l)
      | Some p \<Rightarrow>
          (let l = take_res (Group p) (take_res (Block p) l)
           in if loaded then Inr (Some p, l)
              else rbind (free_res (Group p) l) (\<lambda>l. rbind (free_res (Block p) l) (\<lambda>l. Inr (None, l)))))"

definition crypto_ec_deinit :: "nat \<Rightarrow> ledger \<Rightarrow> ledger result" where
  "crypto_ec_deinit p l = rbind (free_res (Group p) l) (free_res (Block p))"

definition crypto_ec_point_init :: "nat option \<Rightarrow> ledger \<Rightarrow> nat option \<times> ledger" where
  "crypto_ec_point_init block l =
     (case block of None \<Rightarrow> (None, l) | Some p \<Rightarrow> (Some p, take_res (Point p) (take_res (Block p) l)))"

definition crypto_ec_point_deinit :: "nat \<Rightarrow> ledger \<Rightarrow> ledger result" where
  "crypto_ec_point_deinit p l = rbind (free_res (Point p) l) (free_res (Block p))"

section \<open>Point arithmetic\<close>

text \<open>
  \<open>pl_muladd m a n b\<close> is \<open>m a + n b\<close> and \<open>pl_mul\<close> the product, \<open>None\<close> when they fail; \<open>pl_check\<close> is whether
  the point is a valid public key.
\<close>

record 'p point_lib =
  pl_muladd :: "int \<Rightarrow> 'p \<Rightarrow> int \<Rightarrow> 'p \<Rightarrow> 'p option"
  pl_mul :: "int \<Rightarrow> 'p \<Rightarrow> 'p option"
  pl_is_zero :: "'p \<Rightarrow> bool"
  pl_check :: "'p \<Rightarrow> bool"
  pl_cmp :: "'p \<Rightarrow> 'p \<Rightarrow> int"

text \<open>\<open>lset\<close> is whether the number 1 could be stored; the result is left alone when a call fails.\<close>

definition crypto_ec_point_add :: "'p point_lib \<Rightarrow> bool \<Rightarrow> 'p \<Rightarrow> 'p \<Rightarrow> 'p \<Rightarrow> ledger \<Rightarrow> (int \<times> 'p \<times> ledger) result" where
  "crypto_ec_point_add pl lset a b c l =
     (let l = take_res (Mpi 0) l;
          (ret, c) = (if \<not> lset then (- 1, c) else case pl_muladd pl 1 a 1 b of None \<Rightarrow> (- 1, c) | Some s \<Rightarrow> (0, s))
      in rbind (free_res (Mpi 0) l) (\<lambda>l. Inr (ret, c, l)))"

definition crypto_ec_point_mul :: "'p point_lib \<Rightarrow> 'p \<Rightarrow> int \<Rightarrow> 'p \<Rightarrow> int \<times> 'p" where
  "crypto_ec_point_mul pl p b res = (case pl_mul pl b p of None \<Rightarrow> (- 1, res) | Some r \<Rightarrow> (0, r))"

definition crypto_ec_point_is_at_infinity :: "'p point_lib \<Rightarrow> 'p \<Rightarrow> bool" where
  "crypto_ec_point_is_at_infinity pl p = pl_is_zero pl p"

definition crypto_ec_point_is_on_curve :: "'p point_lib \<Rightarrow> 'p \<Rightarrow> bool" where
  "crypto_ec_point_is_on_curve pl p = pl_check pl p"

definition crypto_ec_point_cmp :: "'p point_lib \<Rightarrow> 'p \<Rightarrow> 'p \<Rightarrow> int" where
  "crypto_ec_point_cmp pl a b = pl_cmp pl a b"

text \<open>The number of significant bits, as \<open>mbedtls_mpi_bitlen\<close> documents it.\<close>

fun bitlen :: "nat \<Rightarrow> nat" where
  "bitlen n = (if n = 0 then 0 else Suc (bitlen (n div 2)))"

declare bitlen.simps [simp del]

definition crypto_ec_order_len :: "nat \<Rightarrow> nat" where
  "crypto_ec_order_len n = (bitlen n + 7) div 8"

section \<open>Lemmas\<close>

lemma free_take [simp]: "free_res r (add_mset r l) = Inr l"
  by (simp add: free_res_def)

lemma free_other [simp]: "r \<noteq> q \<Longrightarrow> free_res r (add_mset q l) = (case free_res r l of Inl e \<Rightarrow> Inl e | Inr l1 \<Rightarrow> Inr (add_mset q l1))"
  by (auto simp: free_res_def)

definition ecdh_owns :: "nat \<Rightarrow> ledger" where
  "ecdh_owns p = {#Point p, Group p, Ecdh_context p, Block p#}"

lemma ecdh_cleanup_runs: "ecdh_cleanup p (l + ecdh_owns p) = Inr (None, l)"
  by (simp add: ecdh_cleanup_def ecdh_owns_def)

lemma ecdh_deinit_runs: "crypto_ecdh_deinit (Some p) (l + ecdh_owns p) = Inr l"
  by (simp add: crypto_ecdh_deinit_def ecdh_owns_def)

lemma ecdh_init2_runs:
  "\<exists>r. crypto_ecdh_init2 v enabled g a l = Inr (r, l + (case r of None \<Rightarrow> {#} | Some p \<Rightarrow> ecdh_owns p))"
proof -
  have o: "take_res (Point p) (take_res (Group p) (take_res (Ecdh_context p) (take_res (Block p) l))) = l + ecdh_owns p" for p
    by (simp add: take_res_def ecdh_owns_def)
  show ?thesis
    unfolding crypto_ecdh_init2_def o Let_def
    by (auto simp: take_res_def ecdh_cleanup_runs split: option.splits)
qed

lemma bitlen_bounds: "n < 2 ^ bitlen n \<and> (0 < n \<longrightarrow> 2 ^ (bitlen n - 1) \<le> n)"
proof (induction n rule: bitlen.induct)
  case (1 n)
  show ?case
  proof (cases "n = 0")
    case False
    then have ih: "n div 2 < 2 ^ bitlen (n div 2)" "0 < n div 2 \<longrightarrow> 2 ^ (bitlen (n div 2) - 1) \<le> n div 2" using 1 by auto
    have b: "bitlen n = Suc (bitlen (n div 2))" using False by (simp add: bitlen.simps [of n])
    show ?thesis
    proof (cases "n div 2 = 0")
      case True
      then have "n = 1" using False by linarith
      then show ?thesis by (simp add: bitlen.simps)
    next
      case 2: False
      then have "0 < bitlen (n div 2)" by (simp add: bitlen.simps [of "n div 2"])
      then obtain k where k: "bitlen (n div 2) = Suc k" by (cases "bitlen (n div 2)") auto
      define P :: nat where "P = 2 ^ k"
      have "n div 2 < 2 * P" "P \<le> n div 2" using ih 2 by (simp_all add: k P_def)
      then have "n < 4 * P" "2 * P \<le> n" by linarith+
      then show ?thesis by (simp add: b k P_def)
    qed
  qed (simp add: bitlen.simps)
qed

section \<open>The properties\<close>

text \<open>
  C37: However the calls of Mbed TLS and the heap answer, making a Diffie-Hellman exchange frees nothing
  twice: a failed call leaves the ledger as it was, a successful one adds exactly the four resources of the
  object (the key pair and the exported number are gone), and giving the object back restores the ledger.
  The same holds of groups and points; adding points leaves the ledger alone.
\<close>

theorem crypto_objects_balanced:
  "(\<exists>r l1. crypto_ecdh_init v enabled g a l = Inr (r, l1) \<and> (case r of None \<Rightarrow> l1 = l | Some p \<Rightarrow> True) \<and> crypto_ecdh_deinit r l1 = Inr l) \<and>
   (\<exists>r l1. crypto_ec_init enabled g block loaded l = Inr (r, l1) \<and>
      (case r of None \<Rightarrow> l1 = l | Some p \<Rightarrow> loaded \<and> crypto_ec_deinit p l1 = Inr l)) \<and>
   (case crypto_ec_point_init block l of (None, l1) \<Rightarrow> l1 = l | (Some p, l1) \<Rightarrow> crypto_ec_point_deinit p l1 = Inr l) \<and>
   (\<exists>ret c1. crypto_ec_point_add pl lset pa pb c l = Inr (ret, c1, l))"
proof (intro conjI)
  obtain r where r: "crypto_ecdh_init2 v enabled g a (take_res (Pk 0) l) =
      Inr (r, take_res (Pk 0) l + (case r of None \<Rightarrow> {#} | Some p \<Rightarrow> ecdh_owns p))" using ecdh_init2_runs by blast
  define k where "k = (if crypto_mbedtls_keypair_gen enabled g a = 0 then r else None)"
  define l1 where "l1 = l + (case k of None \<Rightarrow> {#} | Some p \<Rightarrow> ecdh_owns p)"
  have "crypto_ecdh_deinit k l1 = Inr l"
    by (cases k) (simp_all only: l1_def ecdh_deinit_runs option.case, simp add: crypto_ecdh_deinit_def)
  moreover have "crypto_ecdh_init v enabled g a l = Inr (k, l1)"
    unfolding crypto_ecdh_init_def Let_def r by (simp add: take_res_def k_def l1_def)
  moreover have "case k of None \<Rightarrow> l1 = l | Some p \<Rightarrow> True" by (simp add: l1_def split: option.split)
  ultimately show "\<exists>r l1. crypto_ecdh_init v enabled g a l = Inr (r, l1) \<and> (case r of None \<Rightarrow> l1 = l | Some p \<Rightarrow> True) \<and> crypto_ecdh_deinit r l1 = Inr l"
    by blast
qed (auto simp: crypto_ec_init_def crypto_ec_deinit_def crypto_ec_point_init_def crypto_ec_point_deinit_def
      crypto_ec_point_add_def take_res_def Let_def split: option.splits)

text \<open>The length of the order in octets is the least number of octets that holds it.\<close>

lemma order_len_least:
  assumes "0 < n"
  shows "n < 256 ^ crypto_ec_order_len n \<and> 256 ^ (crypto_ec_order_len n - 1) \<le> n"
proof -
  define k where "k = crypto_ec_order_len n"
  have b: "n < 2 ^ bitlen n" "2 ^ (bitlen n - 1) \<le> n" "0 < bitlen n"
    using bitlen_bounds [of n] assms by (auto simp: bitlen.simps [of n])
  have k: "bitlen n \<le> 8 * k" "8 * (k - 1) \<le> bitlen n - 1" using b(3) by (auto simp: k_def crypto_ec_order_len_def)
  have e: "(256 :: nat) ^ j = 2 ^ (8 * j)" for j by (simp add: power_mult)
  have "n < 256 ^ k" using b(1) power_increasing [OF k(1), of "2 :: nat"] unfolding e by linarith
  moreover have "256 ^ (k - 1) \<le> n" using b(2) power_increasing [OF k(2), of "2 :: nat"] unfolding e by linarith
  ultimately show ?thesis by (simp add: k_def)
qed

end
