(* ===== verification/Discovery.thy ===== *)
theory Discovery
  imports Config_Load
begin

text \<open>
  How a server finds the proxy: the UDP responder of discovery.cpp and the mDNS advertisement of
  mdns_advert.cpp, in the HaLow variant. Sockets, the efuse and the mDNS library are parameters.
\<close>

section \<open>Identity\<close>

definition chip_id_hex :: "u8 list \<Rightarrow> u8 list" where
  "chip_id_hex mac = snd (snprintf_into (replicate 7 0) (hex_byte (mac ! 3) @ hex_byte (mac ! 4) @ hex_byte (mac ! 5)))"

definition kVariant :: "u8 list" where "kVariant = ascii ''halow''"
definition kProbe :: "u8 list" where "kProbe = ascii ''HC33-DISCOVER?''"

section \<open>The responder (discovery.cpp)\<close>

text \<open>\<open>strncmp(a, b, n) == 0\<close>: the strings agree up to \<open>n\<close> bytes or their common end.\<close>

fun strncmp_eq :: "nat \<Rightarrow> u8 list \<Rightarrow> u8 list \<Rightarrow> bool result" where
  "strncmp_eq 0 a b = Inr True"
| "strncmp_eq (Suc n) [] b = Inl Out_of_bounds"
| "strncmp_eq (Suc n) a [] = Inl Out_of_bounds"
| "strncmp_eq (Suc n) (x # a) (y # b) = (if x \<noteq> y then Inr False else if x = 0 then Inr True else strncmp_eq n a b)"

definition reply_text :: "u8 list \<Rightarrow> u16 \<Rightarrow> u8 list \<Rightarrow> u8 list" where
  "reply_text chip_id port bonded =
     ascii ''HC33-PROXY chip_id='' @ c_string chip_id @ ascii '' variant='' @ kVariant @
     ascii '' proxy_port='' @ decimal (unat port) @ ascii '' bonded_name='' @ bonded"

text \<open>
  One round of the task: \<open>received\<close> is what \<open>recvfrom\<close> put into \<open>rx\<close>, of which it takes 63 bytes at
  most; \<open>garbage\<close> is what the array \<open>reply\<close> holds before. The result is what is sent, if anything.
  A bonded name is a C++ string whose \<open>c_str\<close> is printed.
\<close>

definition send_reply :: "u8 list \<Rightarrow> u16 \<Rightarrow> u8 list option \<Rightarrow> u8 list \<Rightarrow> u8 list option result" where
  "send_reply chip_id port provider garbage =
     (let bonded = (case provider of None \<Rightarrow> [] | Some b \<Rightarrow> b);
          bonded = (if bonded = [] then ascii ''none'' else bonded);
          (rn, reply) = snprintf_into garbage (reply_text chip_id port (c_string (bonded @ [0])))
      in if 0 < rn then rbind (mem_read reply 0 rn) (\<lambda>d. Inr (Some d)) else Inr None)"

definition discovery_round ::
  "u8 list \<Rightarrow> u16 \<Rightarrow> u8 list option \<Rightarrow> u8 list \<Rightarrow> u8 list \<Rightarrow> u8 list \<Rightarrow> u8 list option result" where
  "discovery_round chip_id port provider garbage rx received =
     (if received = [] then Inr None
      else rbind (mem_write rx 0 received) (\<lambda>rx.
           rbind (mem_write rx (length received) [0]) (\<lambda>rx.
           rbind (strncmp_eq (length kProbe) rx (kProbe @ [0])) (\<lambda>probe.
             if \<not> probe then Inr None else send_reply chip_id port provider garbage))))"

section \<open>The advertisement (mdns_advert.cpp)\<close>

text \<open>
  The mDNS library is not part of the repository: what the code asks of it is recorded, call by call, and
  what it does with that is left open.
\<close>

datatype mdns_call =
    Begin "u8 list"
  | SetInstanceName "u8 list"
  | AddService "u8 list" "u8 list" u16
  | AddServiceTxt "u8 list" "u8 list" "u8 list" "u8 list"

record mdns_state =
  s_mdns_up :: bool
  s_last_bonded_name :: "u8 list"
  mdns_calls :: "mdns_call list"

definition mdns_start :: mdns_state where
  "mdns_start = \<lparr>s_mdns_up = False, s_last_bonded_name = [], mdns_calls = []\<rparr>"

definition TCP_PORT :: u16 where "TCP_PORT = 9876"

abbreviation service_txt :: "string \<Rightarrow> u8 list \<Rightarrow> mdns_call" where
  "service_txt key v \<equiv> AddServiceTxt (ascii ''hc33proxy'') (ascii ''tcp'') (ascii key) v"

definition mdns_do :: "mdns_call list \<Rightarrow> mdns_state \<Rightarrow> mdns_state" where
  "mdns_do cs s = s\<lparr>mdns_calls := mdns_calls s @ cs\<rparr>"

text \<open>\<open>started\<close> and \<open>service\<close> are what \<open>MDNS.begin\<close> of a host name and \<open>MDNS.addService\<close> return.\<close>

definition mdns_advert_begin :: "(u8 list \<Rightarrow> bool) \<Rightarrow> bool \<Rightarrow> u8 list \<Rightarrow> mdns_state \<Rightarrow> bool \<times> mdns_state" where
  "mdns_advert_begin started service mac s =
     (let chip_id = chip_id_hex mac;
          hostname = c_string (snd (snprintf_into (replicate 16 0) (ascii ''hc33-'' @ c_string chip_id)));
          s = mdns_do [Begin hostname] s
      in if \<not> started hostname then (False, s)
         else let s = mdns_do [SetInstanceName hostname, AddService (ascii ''hc33proxy'') (ascii ''tcp'') TCP_PORT] s
              in if \<not> service then (False, s)
                 else let s = mdns_do [service_txt ''chip_id'' (c_string chip_id), service_txt ''variant'' kVariant,
                            service_txt ''bonded_name'' (ascii ''none'')] s
                      in (True, s\<lparr>s_mdns_up := True, s_last_bonded_name := ascii ''none''\<rparr>))"

definition mdns_advert_refresh :: "u8 list \<Rightarrow> mdns_state \<Rightarrow> mdns_state" where
  "mdns_advert_refresh bonded_name s =
     (if \<not> s_mdns_up s then s
      else let v = (if bonded_name = [] then ascii ''none'' else bonded_name)
           in if v = s_last_bonded_name s then s
              else (mdns_do [service_txt ''bonded_name'' (c_string (v @ [0]))] s)\<lparr>s_last_bonded_name := v\<rparr>)"

section \<open>Text and lengths\<close>

lemma chip_id_string: "c_string (chip_id_hex mac) = hex_byte (mac ! 3) @ hex_byte (mac ! 4) @ hex_byte (mac ! 5)"
  by (simp add: chip_id_hex_def snprintf_into_def hex_byte_def c_string_def hex_digit_not_zero)

definition fixed_text :: "u8 list \<Rightarrow> u16 \<Rightarrow> u8 list" where
  "fixed_text mac port = reply_text (chip_id_hex mac) port []"

lemma reply_text_split: "reply_text (chip_id_hex mac) port name = fixed_text mac port @ name"
  by (simp add: fixed_text_def reply_text_def)

lemma fixed_text_length: "length (fixed_text mac port) \<le> 69"
proof -
  have "unat port < 10 ^ Suc 4" using unat_u16_lt [of port] by (simp del: unat_u16_lt)
  from decimal_length [OF this] show ?thesis
    by (simp add: fixed_text_def reply_text_def chip_id_string hex_byte_def kVariant_def)
qed

lemma strncmp_eq_prefix:
  assumes "0 \<notin> set p" "0 \<in> set a"
  shows "strncmp_eq (length p) a (p @ r) = Inr (take (length p) a = p)"
  using assms
proof (induction p arbitrary: a)
  case (Cons x p)
  then obtain y b where a: "a = y # b" by (cases a) auto
  show ?case
  proof (cases "y = x")
    case False
    then show ?thesis by (simp add: a)
  next
    case True
    then have "y \<noteq> 0" using Cons.prems(1) by auto
    then show ?thesis using Cons.IH [of b] Cons.prems True a by simp
  qed
qed simp

lemma kProbe_no_nul: "0 \<notin> set kProbe"
  by code_simp

definition bonded_text :: "u8 list option \<Rightarrow> u8 list" where
  "bonded_text provider = (case provider of None \<Rightarrow> ascii ''none'' | Some b \<Rightarrow> if b = [] then ascii ''none'' else b)"

lemma fixed_text_not_empty: "fixed_text mac port \<noteq> []"
  by (simp add: fixed_text_def reply_text_def ascii_def)

lemma send_reply_runs:
  assumes "length garbage = 160" "0 \<notin> set (bonded_text provider)"
  shows "send_reply (chip_id_hex mac) port provider garbage =
    (if length (fixed_text mac port @ bonded_text provider) \<le> 159 then Inr (Some (fixed_text mac port @ bonded_text provider))
     else if length (fixed_text mac port @ bonded_text provider) = 160
     then Inr (Some (take 159 (fixed_text mac port @ bonded_text provider) @ [0])) else Inl Out_of_bounds)"
proof -
  have b: "(if (case provider of None \<Rightarrow> [] | Some b \<Rightarrow> b) = [] then ascii ''none'' else (case provider of None \<Rightarrow> [] | Some b \<Rightarrow> b))
      = bonded_text provider"
    by (simp add: bonded_text_def split: option.splits)
  have cs: "c_string (bonded_text provider @ [0]) = bonded_text provider"
    using c_string_pad [OF assms(2), of 1] by simp
  have g: "length garbage = Suc 159" using assms(1) by simp
  have ne: "fixed_text mac port @ bonded_text provider \<noteq> []" using fixed_text_not_empty by simp
  have n: "Suc 159 = (160::nat)" by simp
  show ?thesis
    unfolding send_reply_def Let_def b cs reply_text_split
    by (rule snprintf_read [OF g ne, unfolded n])
qed

lemma probe_seen:
  assumes "length received \<le> 63" "length rx = 64"
  shows "strncmp_eq (length kProbe) (received @ 0 # drop (Suc (length received)) rx) (kProbe @ [0]) = Inr (take 14 received = kProbe)"
proof -
  define rest where "rest = drop (Suc (length received)) rx"
  have l: "length kProbe = 14" by (simp add: kProbe_def)
  have "take 14 (received @ 0 # rest) = kProbe \<longleftrightarrow> take 14 received = kProbe"
  proof (cases "14 \<le> length received")
    case False
    then have "0 \<in> set (take 14 (received @ 0 # rest))" by (cases "14 - length received") auto
    then have "take 14 (received @ 0 # rest) \<noteq> kProbe" using kProbe_no_nul by metis
    moreover have "take 14 received \<noteq> kProbe"
    proof
      assume "take 14 received = kProbe"
      then have "length (take 14 received) = 14" by (simp only: l)
      then show False using False by simp
    qed
    ultimately show ?thesis by blast
  qed simp
  then show ?thesis
    using strncmp_eq_prefix [OF kProbe_no_nul, of "received @ 0 # rest" "[0]"] l by (simp add: rest_def)
qed

lemma round_runs:
  assumes "length rx = 64" "length received \<le> 63"
  shows "discovery_round chip_id port provider garbage rx received =
    (if take 14 received \<noteq> kProbe then Inr None else send_reply chip_id port provider garbage)"
proof (cases "received = []")
  case True
  then show ?thesis by (simp add: discovery_round_def kProbe_def ascii_def)
next
  case False
  have "mem_write rx 0 received = Inr (received @ drop (length received) rx)"
    using assms by (simp add: mem_write_def)
  moreover have "mem_write (received @ drop (length received) rx) (length received) [0]
      = Inr (received @ 0 # drop (Suc (length received)) rx)"
    using assms by (simp add: mem_write_def)
  ultimately show ?thesis
    using probe_seen [OF assms(2,1)] False by (simp add: discovery_round_def del: strncmp_eq.simps)
qed

section \<open>The reply\<close>

text \<open>
  The responder answers a datagram exactly when it begins with the probe. The answer names the
  chip by the last three bytes of the base address, the port and the bonded mower, \<open>none\<close> when there
  is none. It is sent whole when it has at most 159 bytes; with 160 its last byte is a zero; with more
  the length \<open>snprintf\<close> returns is larger than the array and \<open>sendto\<close> reads past its end. A name of at
  most 90 bytes never does that.
\<close>

theorem discovery_reply:
  assumes "length rx = 64" "length received \<le> 63" "length garbage = 160" "0 \<notin> set (bonded_text provider)"
    and "chip = hex_byte (mac ! 3) @ hex_byte (mac ! 4) @ hex_byte (mac ! 5)"
    and "msg = ascii ''HC33-PROXY chip_id='' @ chip @ ascii '' variant=halow proxy_port='' @ decimal (unat port) @
          ascii '' bonded_name='' @ bonded_text provider"
  shows "discovery_round (chip_id_hex mac) port provider garbage rx received =
      (if take 14 received \<noteq> kProbe then Inr None
       else if length msg \<le> 159 then Inr (Some msg)
       else if length msg = 160 then Inr (Some (take 159 msg @ [0]))
       else Inl Out_of_bounds) \<and>
    (length (bonded_text provider) \<le> 90 \<longrightarrow> length msg \<le> 159)"
proof -
  have msg: "msg = fixed_text mac port @ bonded_text provider"
    using assms(5,6) by (simp add: fixed_text_def reply_text_def chip_id_string kVariant_def ascii_def)
  have run: "discovery_round (chip_id_hex mac) port provider garbage rx received =
      (if take 14 received \<noteq> kProbe then Inr None
       else if length msg \<le> 159 then Inr (Some msg)
       else if length msg = 160 then Inr (Some (take 159 msg @ [0]))
       else Inl Out_of_bounds)"
    unfolding round_runs [OF assms(1,2)] send_reply_runs [OF assms(3,4)] msg by (rule refl)
  have "length (bonded_text provider) \<le> 90 \<longrightarrow> length msg \<le> 159"
    using fixed_text_length [of mac port] by (simp add: msg)
  with run show ?thesis by blast
qed

text \<open>A mower named by 100 letters: the probe makes the responder read past \<open>reply\<close>.\<close>

lemma discovery_reply_witness:
  "discovery_round (chip_id_hex [0, 0, 0, 0xA4, 0x9D, 0xF4]) 8234 (Some (replicate 100 65)) (replicate 160 7)
     (replicate 64 7) kProbe = Inl Out_of_bounds"
proof -
  define msg where "msg = ascii ''HC33-PROXY chip_id='' @ (hex_byte 0xA4 @ hex_byte 0x9D @ hex_byte 0xF4) @
      ascii '' variant=halow proxy_port='' @ decimal (unat (8234 :: u16)) @ ascii '' bonded_name='' @
      bonded_text (Some (replicate 100 65))"
  have p: "length kProbe \<le> 63" "take 14 kProbe = kProbe" by code_simp+
  have b: "0 \<notin> set (bonded_text (Some (replicate 100 65)))" by code_simp
  have "length (bonded_text (Some (replicate 100 (65 :: u8)))) = 100" by code_simp
  then have n: "160 < length msg" by (simp add: msg_def hex_byte_def)
  have "discovery_round (chip_id_hex [0, 0, 0, 0xA4, 0x9D, 0xF4]) 8234 (Some (replicate 100 65)) (replicate 160 7)
      (replicate 64 7) kProbe =
      (if take 14 kProbe \<noteq> kProbe then Inr None
       else if length msg \<le> 159 then Inr (Some msg)
       else if length msg = 160 then Inr (Some (take 159 msg @ [0]))
       else Inl Out_of_bounds)"
    using discovery_reply [of "replicate 64 7" kProbe "replicate 160 7" "Some (replicate 100 65)", OF _ p(1) _ b refl refl,
        of "[0, 0, 0, 0xA4, 0x9D, 0xF4]" 8234] by (simp add: msg_def)
  with n p(2) show ?thesis by (simp only:) simp
qed

section \<open>What the mDNS library is asked\<close>

text \<open>The value \<open>mdns_advert_refresh\<close> hands over for a name.\<close>

abbreviation shown :: "u8 list \<Rightarrow> u8 list" where
  "shown v \<equiv> (if v = [] then ascii ''none'' else v)"

lemma refresh_runs:
  assumes "s_mdns_up s" "0 \<notin> set v"
  shows "mdns_advert_refresh v s =
    (if shown v = s_last_bonded_name s then s
     else s\<lparr>mdns_calls := mdns_calls s @ [service_txt ''bonded_name'' (shown v)], s_last_bonded_name := shown v\<rparr>)"
proof -
  have "0 \<notin> set (shown v)" using assms(2) by (auto simp: ascii_def)
  then have "c_string (shown v @ [0]) = shown v" using c_string_pad [of "shown v" 1] by simp
  then show ?thesis using assms(1) by (simp add: mdns_advert_refresh_def mdns_do_def Let_def)
qed

lemma remdups_adj_head: "remdups_adj (x # xs) = x # tl (remdups_adj (x # xs))"
  by (induction xs arbitrary: x) (auto split: if_splits)

lemma remdups_adj_tl: "x \<noteq> y \<Longrightarrow> tl (remdups_adj (x # y # ys)) = remdups_adj (y # ys)"
  by simp

text \<open>Refreshed with any names, it sets the item when, and only when, the name shown changes.\<close>

lemma refreshes_run:
  assumes "s_mdns_up s" "\<forall>v \<in> set vs. 0 \<notin> set v"
  shows "mdns_calls (fold mdns_advert_refresh vs s) =
      mdns_calls s @ map (service_txt ''bonded_name'') (tl (remdups_adj (s_last_bonded_name s # map shown vs)))"
  using assms
proof (induction vs arbitrary: s)
  case (Cons v vs)
  note r = refresh_runs [OF Cons.prems(1), of v]
  show ?case
  proof (cases "shown v = s_last_bonded_name s")
    case True
    then show ?thesis using Cons.IH [of s] Cons.prems r by simp
  next
    case False
    define s' where "s' = mdns_advert_refresh v s"
    define rest where "rest = map shown vs"
    have s': "mdns_calls s' = mdns_calls s @ [service_txt ''bonded_name'' (shown v)]" "s_last_bonded_name s' = shown v" "s_mdns_up s'"
      using False Cons.prems(1,2) r by (simp_all add: s'_def)
    have "mdns_calls (fold mdns_advert_refresh vs s') =
        mdns_calls s' @ map (service_txt ''bonded_name'') (tl (remdups_adj (s_last_bonded_name s' # rest)))"
      unfolding rest_def by (rule Cons.IH) (use s' Cons.prems(2) in simp_all)
    also have "\<dots> = mdns_calls s @ map (service_txt ''bonded_name'') (shown v # tl (remdups_adj (shown v # rest)))"
      unfolding s' by (simp only: append.assoc append.simps list.map)
    also have "\<dots> = mdns_calls s @ map (service_txt ''bonded_name'') (tl (remdups_adj (s_last_bonded_name s # shown v # rest)))"
      unfolding remdups_adj_tl [OF False [symmetric]] by (simp only: remdups_adj_head [symmetric])
    finally show ?thesis by (simp only: fold_simps s'_def rest_def list.map)
  qed
qed simp

text \<open>
  Once the advertisement is up, whatever names it is refreshed with, the library was asked for: the host name
  of the chip, the service, its chip identity and variant, and then the bonded name, \<open>none\<close> first and in the
  place of an empty one, exactly once for each time it changes.
\<close>

theorem mdns_published:
  assumes "mdns_advert_begin started service mac mdns_start = (True, s)" "\<forall>v \<in> set names. 0 \<notin> set v"
  shows "let chip = hex_byte (mac ! 3) @ hex_byte (mac ! 4) @ hex_byte (mac ! 5);
      host = ascii ''hc33-'' @ chip;
      shown_names = ascii ''none'' # map (\<lambda>v. if v = [] then ascii ''none'' else v) names
    in mdns_calls (fold mdns_advert_refresh names s) =
      [Begin host, SetInstanceName host, AddService (ascii ''hc33proxy'') (ascii ''tcp'') TCP_PORT,
       service_txt ''chip_id'' chip, service_txt ''variant'' kVariant] @
      map (service_txt ''bonded_name'') (remdups_adj shown_names)"
proof -
  define chip where "chip = hex_byte (mac ! 3) @ hex_byte (mac ! 4) @ hex_byte (mac ! 5)"
  have host: "c_string (snd (snprintf_into (replicate 16 0) (ascii ''hc33-'' @ chip))) = ascii ''hc33-'' @ chip"
    by (simp add: chip_def snprintf_into_def hex_byte_def c_string_def hex_digit_not_zero ascii_def)
  have id: "c_string (chip_id_hex mac) = chip" by (simp only: chip_id_string chip_def)
  have s: "s_mdns_up s" "s_last_bonded_name s = ascii ''none''"
    "mdns_calls s = [Begin (ascii ''hc33-'' @ chip), SetInstanceName (ascii ''hc33-'' @ chip),
       AddService (ascii ''hc33proxy'') (ascii ''tcp'') TCP_PORT, service_txt ''chip_id'' chip, service_txt ''variant'' kVariant,
       service_txt ''bonded_name'' (ascii ''none'')]"
    using assms(1) unfolding mdns_advert_begin_def Let_def id host
    by (auto simp: mdns_start_def mdns_do_def split: if_splits)
  define rest where "rest = map shown names"
  have "mdns_calls (fold mdns_advert_refresh names s) =
      mdns_calls s @ map (service_txt ''bonded_name'') (tl (remdups_adj (ascii ''none'' # rest)))"
    using refreshes_run [OF s(1) assms(2)] unfolding s(2) rest_def .
  also have "\<dots> = [Begin (ascii ''hc33-'' @ chip), SetInstanceName (ascii ''hc33-'' @ chip),
       AddService (ascii ''hc33proxy'') (ascii ''tcp'') TCP_PORT, service_txt ''chip_id'' chip, service_txt ''variant'' kVariant] @
      map (service_txt ''bonded_name'') (ascii ''none'' # tl (remdups_adj (ascii ''none'' # rest)))"
    unfolding s(3) by (simp only: append.simps list.map)
  finally show ?thesis
    unfolding Let_def chip_def [symmetric] rest_def [symmetric] remdups_adj_head [symmetric] .
qed

lemma mdns_published_witness:
  "let s = snd (mdns_advert_begin (\<lambda>h. True) True [0, 0, 0, 0xA4, 0x9D, 0xF4] mdns_start)
   in length (mdns_calls (fold mdns_advert_refresh [[], ascii ''Luba-A'', ascii ''Luba-A'', []] s)) = 8"
proof -
  define s where "s = snd (mdns_advert_begin (\<lambda>h. True) True [0, 0, 0, 0xA4, 0x9D, 0xF4] mdns_start)"
  have b: "mdns_advert_begin (\<lambda>h. True) True [0, 0, 0, 0xA4, 0x9D, 0xF4] mdns_start = (True, s)"
    by (simp add: s_def mdns_advert_begin_def Let_def)
  have n: "\<forall>v \<in> set [[], ascii ''Luba-A'', ascii ''Luba-A'', []]. 0 \<notin> set v" by code_simp
  show ?thesis
    using mdns_published [OF b n] unfolding s_def [symmetric] Let_def by (simp add: ascii_def)
qed

end
