(* ===== verification/Discovery_Task.thy ===== *)
theory Discovery_Task
  imports Discovery
begin

text \<open>
  The whole task of discovery.cpp: the start of the responder, the socket it opens and the loop over what
  arrives. The text of the answer is in Discovery.
\<close>

section \<open>Start\<close>

text \<open>\<open>s_bonded_provider\<close> is whether a provider of the name was given; \<open>created\<close> is the value of \<open>xTaskCreate\<close>.\<close>

record discovery_state =
  s_proxy_port :: u16
  s_bonded_provider :: bool

definition discovery_begin :: "u16 \<Rightarrow> bool \<Rightarrow> bool \<Rightarrow> discovery_state \<Rightarrow> bool \<times> discovery_state" where
  "discovery_begin proxy_port provider created s = (created, s\<lparr>s_proxy_port := proxy_port, s_bonded_provider := provider\<rparr>)"

text \<open>The socket of the task, or none when the task ends, and the open descriptors.\<close>

definition discovery_open :: "nat option \<Rightarrow> bool \<Rightarrow> nat list \<Rightarrow> nat option \<times> nat list" where
  "discovery_open sock bind_ok fds =
     (case sock of
        None \<Rightarrow> (None, fds)
      | Some s \<Rightarrow> (let fds = s # fds in if \<not> bind_ok then (None, remove1 s fds) else (Some s, fds)))"

section \<open>The loop\<close>

text \<open>
  What \<open>recvfrom\<close> gives in one round (no bytes when it fails), the name the provider returns in this round,
  and what \<open>reply\<close> holds before it is written.
\<close>

record 'a udp_round =
  ur_from :: 'a
  ur_bytes :: "u8 list"
  ur_name :: "u8 list"
  ur_garbage :: "u8 list"

datatype 'a udp_effect = Delay nat | Sent 'a "u8 list"

text \<open>The array \<open>rx\<close> after the round.\<close>

definition rx_after :: "u8 list \<Rightarrow> u8 list \<Rightarrow> u8 list result" where
  "rx_after rx received =
     (if received = [] then Inr rx
      else rbind (mem_write rx 0 received) (\<lambda>rx. mem_write rx (length received) [0]))"

definition round_effects :: "'a udp_round \<Rightarrow> u8 list option \<Rightarrow> 'a udp_effect list" where
  "round_effects r out =
     (if ur_bytes r = [] then [Delay 100] else case out of None \<Rightarrow> [] | Some d \<Rightarrow> [Sent (ur_from r) d])"

fun discovery_loop :: "discovery_state \<Rightarrow> u8 list \<Rightarrow> u8 list \<Rightarrow> 'a udp_round list \<Rightarrow> 'a udp_effect list result" where
  "discovery_loop s chip_id rx [] = Inr []"
| "discovery_loop s chip_id rx (r # rs) =
     rbind (discovery_round chip_id (s_proxy_port s) (if s_bonded_provider s then Some (ur_name r) else None)
              (ur_garbage r) rx (ur_bytes r)) (\<lambda>out.
     rbind (rx_after rx (ur_bytes r)) (\<lambda>rx.
     rbind (discovery_loop s chip_id rx rs) (\<lambda>es. Inr (round_effects r out @ es))))"

text \<open>The task over the given rounds: what it did and the descriptors that are open.\<close>

definition discovery_task ::
    "discovery_state \<Rightarrow> nat option \<Rightarrow> bool \<Rightarrow> u8 list \<Rightarrow> u8 list \<Rightarrow> 'a udp_round list \<Rightarrow> nat list \<Rightarrow> ('a udp_effect list \<times> nat list) result" where
  "discovery_task s sock bind_ok mac rx rounds fds =
     (case discovery_open sock bind_ok fds of
        (None, fds) \<Rightarrow> Inr ([], fds)
      | (Some d, fds) \<Rightarrow>
          (let chip_id = chip_id_hex mac in rbind (discovery_loop s chip_id rx rounds) (\<lambda>es. Inr (es, fds))))"

section \<open>What the task does\<close>

text \<open>The answer the protocol asks for, from the name that is bonded or none.\<close>

definition probe_answer :: "u8 list \<Rightarrow> u16 \<Rightarrow> u8 list \<Rightarrow> u8 list" where
  "probe_answer mac port name =
     ascii ''HC33-PROXY chip_id='' @ hex_byte (mac ! 3) @ hex_byte (mac ! 4) @ hex_byte (mac ! 5) @
     ascii '' variant=halow proxy_port='' @ decimal (unat port) @ ascii '' bonded_name='' @
     (if name = [] then ascii ''none'' else name)"

definition round_duty :: "u8 list \<Rightarrow> discovery_state \<Rightarrow> 'a udp_round \<Rightarrow> 'a udp_effect list" where
  "round_duty mac s r =
     (if ur_bytes r = [] then [Delay 100]
      else if take 14 (ur_bytes r) = kProbe
      then [Sent (ur_from r) (probe_answer mac (s_proxy_port s) (if s_bonded_provider s then ur_name r else []))] else [])"

definition round_ok :: "'a udp_round \<Rightarrow> bool" where
  "round_ok r \<longleftrightarrow> length (ur_bytes r) \<le> 63 \<and> length (ur_garbage r) = 160 \<and> 0 \<notin> set (ur_name r) \<and> length (ur_name r) \<le> 90"

lemma rx_after_ok:
  assumes "length rx = 64" "length received \<le> 63"
  shows "\<exists>rx1. rx_after rx received = Inr rx1 \<and> length rx1 = 64"
  using assms by (auto simp: rx_after_def mem_write_def)

lemma probe_answer_text:
  "probe_answer mac port name = fixed_text mac port @ bonded_text (Some name)"
  "probe_answer mac port [] = fixed_text mac port @ bonded_text None"
  by (simp_all add: probe_answer_def fixed_text_def reply_text_def chip_id_string kVariant_def bonded_text_def ascii_def)

lemma round_answers:
  assumes "round_ok r" "length rx = 64"
  shows "\<exists>out. discovery_round (chip_id_hex mac) (s_proxy_port s) (if s_bonded_provider s then Some (ur_name r) else None)
      (ur_garbage r) rx (ur_bytes r) = Inr out \<and> round_effects r out = round_duty mac s r"
proof -
  define provider where "provider = (if s_bonded_provider s then Some (ur_name r) else None)"
  have ok: "length (ur_bytes r) \<le> 63" "length (ur_garbage r) = 160" using assms(1) by (simp_all add: round_ok_def)
  have b: "0 \<notin> set (bonded_text provider)" "length (bonded_text provider) \<le> 90"
    using assms(1) by (simp_all add: provider_def bonded_text_def round_ok_def ascii_def)
  have "length (fixed_text mac (s_proxy_port s) @ bonded_text provider) \<le> 159"
    using fixed_text_length [of mac "s_proxy_port s"] b(2) by simp
  moreover have "fixed_text mac (s_proxy_port s) @ bonded_text provider =
      probe_answer mac (s_proxy_port s) (if s_bonded_provider s then ur_name r else [])"
    by (simp add: probe_answer_text provider_def bonded_text_def)
  ultimately have "discovery_round (chip_id_hex mac) (s_proxy_port s) provider (ur_garbage r) rx (ur_bytes r) =
      (if take 14 (ur_bytes r) \<noteq> kProbe then Inr None
       else Inr (Some (probe_answer mac (s_proxy_port s) (if s_bonded_provider s then ur_name r else []))))"
    unfolding round_runs [OF assms(2) ok(1)] send_reply_runs [OF ok(2) b(1)] by simp
  then show ?thesis unfolding provider_def by (auto simp: round_effects_def round_duty_def)
qed

lemma loop_answers_all:
  assumes "list_all round_ok rounds" "length rx = 64"
  shows "discovery_loop s (chip_id_hex mac) rx rounds = Inr (concat (map (round_duty mac s) rounds))"
  using assms
proof (induction rounds arbitrary: rx)
  case (Cons r rs)
  obtain out where o: "discovery_round (chip_id_hex mac) (s_proxy_port s) (if s_bonded_provider s then Some (ur_name r) else None)
      (ur_garbage r) rx (ur_bytes r) = Inr out" "round_effects r out = round_duty mac s r"
    using round_answers [of r rx mac s] Cons.prems by auto
  obtain rx1 where rx1: "rx_after rx (ur_bytes r) = Inr rx1" "length rx1 = 64"
    using rx_after_ok [of rx "ur_bytes r"] Cons.prems by (auto simp: round_ok_def)
  have "discovery_loop s (chip_id_hex mac) rx1 rs = Inr (concat (map (round_duty mac s) rs))"
    using Cons.IH [OF _ rx1(2)] Cons.prems(1) by simp
  then show ?case by (simp add: o rx1(1))
qed simp

text \<open>
  C33: After \<open>discovery_begin\<close> with a port and a provider of the name, the task runs over any errors and
  datagrams without reading or writing outside its arrays: it sends exactly the answer, with the current name,
  the port and the chip, to each sender of a probe, in the order of the probes, whatever \<open>rx\<close> and \<open>reply\<close> held
  before, and waits 100 ms after each error. When the socket cannot be opened or bound the task ends and leaves
  no descriptor open. The bound on the name is sharp: one probe while a name of 92 bytes is bonded to a port of
  five digits reads past \<open>reply\<close>.
\<close>

theorem discovery_serves:
  assumes "length rx = 64" "list_all round_ok rounds" "discovery_begin port provider created s0 = (up, s)"
  shows "discovery_task s sock bind_ok mac rx rounds fds =
      Inr (if sock = None \<or> \<not> bind_ok then ([], fds)
           else (concat (map (round_duty mac s) rounds), the sock # fds)) \<and>
    s_proxy_port s = port \<and> s_bonded_provider s = provider \<and>
    discovery_task \<lparr>s_proxy_port = 18234, s_bonded_provider = True\<rparr> (Some 3) True mac rx
      [\<lparr>ur_from = 0 :: nat, ur_bytes = kProbe, ur_name = replicate 92 65, ur_garbage = replicate 160 0\<rparr>] fds = Inl Out_of_bounds"
proof -
  have s: "s_proxy_port s = port" "s_bonded_provider s = provider"
    using assms(3) by (auto simp: discovery_begin_def)
  have run: "discovery_loop s (chip_id_hex mac) rx rounds = Inr (concat (map (round_duty mac s) rounds))"
    by (rule loop_answers_all [OF assms(2,1)])
  have task: "discovery_task s sock bind_ok mac rx rounds fds =
      Inr (if sock = None \<or> \<not> bind_ok then ([], fds) else (concat (map (round_duty mac s) rounds), the sock # fds))"
    by (cases sock) (simp_all add: discovery_task_def discovery_open_def run)
  have over: "discovery_round (chip_id_hex mac) 18234 (Some (replicate 92 65)) (replicate 160 0) rx kProbe = Inl Out_of_bounds"
  proof -
    have k: "length kProbe \<le> 63" "take 14 kProbe = kProbe" by code_simp+
    have b: "bonded_text (Some (replicate 92 (65 :: u8))) = replicate 92 65" by (simp add: bonded_text_def)
    have d: "length (decimal 18234) = 5" by (simp add: decimal.simps)
    have "length (fixed_text mac 18234) = 69"
      by (simp add: fixed_text_def reply_text_def chip_id_string hex_byte_def kVariant_def d)
    then have "160 < length (fixed_text mac 18234 @ bonded_text (Some (replicate 92 (65 :: u8))))" by (simp add: b)
    then show ?thesis
      unfolding round_runs [OF assms(1) k(1)] using k(2)
      by (subst send_reply_runs) (simp_all add: b)
  qed
  then have "discovery_task \<lparr>s_proxy_port = 18234, s_bonded_provider = True\<rparr> (Some 3) True mac rx
      [\<lparr>ur_from = 0 :: nat, ur_bytes = kProbe, ur_name = replicate 92 65, ur_garbage = replicate 160 0\<rparr>] fds = Inl Out_of_bounds"
    by (simp add: discovery_task_def discovery_open_def)
  with task s show ?thesis by blast
qed

text \<open>An error, a stray datagram and two probes, the name changing between them.\<close>

lemma discovery_serves_witness:
  "discovery_task \<lparr>s_proxy_port = 8234, s_bonded_provider = True\<rparr> (Some 5) True [0, 0, 0, 0xA4, 0x9D, 0xF4] (replicate 64 7)
     [\<lparr>ur_from = 1 :: nat, ur_bytes = [], ur_name = [], ur_garbage = replicate 160 9\<rparr>,
      \<lparr>ur_from = 2, ur_bytes = kProbe, ur_name = [], ur_garbage = replicate 160 9\<rparr>,
      \<lparr>ur_from = 3, ur_bytes = ascii ''HC33'', ur_name = [], ur_garbage = replicate 160 9\<rparr>,
      \<lparr>ur_from = 2, ur_bytes = kProbe, ur_name = ascii ''Luba'', ur_garbage = replicate 160 9\<rparr>] [4] =
   Inr ([Delay 100, Sent 2 (probe_answer [0, 0, 0, 0xA4, 0x9D, 0xF4] 8234 []),
         Sent 2 (probe_answer [0, 0, 0, 0xA4, 0x9D, 0xF4] 8234 (ascii ''Luba''))], [5, 4])"
proof -
  define rounds where "rounds = [\<lparr>ur_from = 1 :: nat, ur_bytes = [], ur_name = [], ur_garbage = replicate 160 9\<rparr>,
      \<lparr>ur_from = 2, ur_bytes = kProbe, ur_name = [], ur_garbage = replicate 160 9\<rparr>,
      \<lparr>ur_from = 3, ur_bytes = ascii ''HC33'', ur_name = [], ur_garbage = replicate 160 9\<rparr>,
      \<lparr>ur_from = 2, ur_bytes = kProbe, ur_name = ascii ''Luba'', ur_garbage = replicate 160 9\<rparr>]"
  have k: "length kProbe \<le> 63" "take 14 kProbe = kProbe" "kProbe \<noteq> []" "take 14 (ascii ''HC33'') \<noteq> kProbe"
    "0 \<notin> set (ascii ''Luba'')" "length (ascii ''Luba'') = 4" "length (ascii ''HC33'') = 4" "ascii ''HC33'' \<noteq> []" by code_simp+
  have ok: "list_all round_ok rounds" using k by (simp add: rounds_def round_ok_def)
  have b: "discovery_begin 8234 True True \<lparr>s_proxy_port = 0, s_bonded_provider = False\<rparr> = (True, \<lparr>s_proxy_port = 8234, s_bonded_provider = True\<rparr>)"
    by (simp add: discovery_begin_def)
  show ?thesis
    using conjunct1 [OF discovery_serves [OF _ ok b, of "replicate 64 7" "Some 5" True "[0, 0, 0, 0xA4, 0x9D, 0xF4]" "[4]"]] k
    by (simp add: rounds_def round_duty_def)
qed

end
