(* ===== verification/Link_Stats.thy ===== *)
theory Link_Stats
  imports Halow_Link Mmnetif
begin

text \<open>
  The once-a-second figures of the firmware: the idle share of each core (cpu_stats.cpp) and the line on
  the HaLow link (\<open>halow_link_stats_dump\<close> of main.cpp). Numbers that are printed are the value of the model.
\<close>

section \<open>Idle share of the cores (cpu_stats.cpp)\<close>

record cpu_stats =
  idle_ticks0 :: u32
  idle_ticks1 :: u32
  baseline0 :: u32
  baseline1 :: u32
  s_last_dump_ms :: u32

definition cpu_stats_start :: cpu_stats where
  "cpu_stats_start = \<lparr>idle_ticks0 = 0, idle_ticks1 = 0, baseline0 = 0, baseline1 = 0, s_last_dump_ms = 0\<rparr>"

definition idle_cb_cpu0 :: "cpu_stats \<Rightarrow> bool \<times> cpu_stats" where
  "idle_cb_cpu0 s = (True, s\<lparr>idle_ticks0 := idle_ticks0 s + 1\<rparr>)"

definition idle_cb_cpu1 :: "cpu_stats \<Rightarrow> bool \<times> cpu_stats" where
  "idle_cb_cpu1 s = (True, s\<lparr>idle_ticks1 := idle_ticks1 s + 1\<rparr>)"

text \<open>The hooks running \<open>n0\<close> and \<open>n1\<close> times.\<close>

definition idle_run :: "nat \<Rightarrow> nat \<Rightarrow> cpu_stats \<Rightarrow> cpu_stats" where
  "idle_run n0 n1 s = (((\<lambda>s. snd (idle_cb_cpu1 s)) ^^ n1) (((\<lambda>s. snd (idle_cb_cpu0 s)) ^^ n0) s))"

text \<open>Unsigned division; a zero divisor leaves the language.\<close>

definition u32_div :: "u32 \<Rightarrow> u32 \<Rightarrow> u32 result" where
  "u32_div a b = (if b = 0 then Inl Div_by_zero else Inr (a div b))"

text \<open>
  \<open>t0\<close>, \<open>t1\<close> and \<open>t2\<close> are the three readings of the clock; in the 200 ms between the first two the hooks
  run \<open>n0\<close> and \<open>n1\<close> times.
\<close>

definition cpu_stats_init :: "u32 \<Rightarrow> u32 \<Rightarrow> u32 \<Rightarrow> nat \<Rightarrow> nat \<Rightarrow> cpu_stats \<Rightarrow> cpu_stats result" where
  "cpu_stats_init t0 t1 t2 n0 n1 s =
     (let s = idle_run n0 n1 (s\<lparr>idle_ticks0 := 0, idle_ticks1 := 0\<rparr>);
          dt = t1 - t0;
          dt = (if dt = 0 then 1 else dt)
      in rbind (u32_div (idle_ticks0 s * 1000) dt) (\<lambda>b0.
         rbind (u32_div (idle_ticks1 s * 1000) dt) (\<lambda>b1.
           Inr (s\<lparr>baseline0 := b0, baseline1 := b1, idle_ticks0 := 0, idle_ticks1 := 0, s_last_dump_ms := t2\<rparr>))))"

text \<open>The share of one core: the baseline is 100 percent.\<close>

definition idle_percent :: "u32 \<Rightarrow> u32 \<Rightarrow> u32 result" where
  "idle_percent r base =
     (if base \<noteq> 0 then rbind (u32_div (r * 100) base) (\<lambda>p. Inr (if 100 < p then 100 else p)) else Inr 0)"

text \<open>The printed numbers: percent and rate of each core, and the interval.\<close>

record cpu_line =
  cl_p0 :: u32
  cl_r0 :: u32
  cl_p1 :: u32
  cl_r1 :: u32
  cl_dt :: u32

definition cpu_stats_dump_line :: "u32 \<Rightarrow> cpu_stats \<Rightarrow> (cpu_line option \<times> cpu_stats) result" where
  "cpu_stats_dump_line now s =
     (let dt = now - s_last_dump_ms s
      in if dt < 100 then Inr (None, s)
         else let i0 = idle_ticks0 s; i1 = idle_ticks1 s;
                  s = s\<lparr>s_last_dump_ms := now, idle_ticks0 := 0, idle_ticks1 := 0\<rparr>
              in rbind (u32_div (i0 * 1000) dt) (\<lambda>r0. rbind (u32_div (i1 * 1000) dt) (\<lambda>r1.
                 rbind (idle_percent r0 (baseline0 s)) (\<lambda>p0. rbind (idle_percent r1 (baseline1 s)) (\<lambda>p1.
                   Inr (Some \<lparr>cl_p0 = p0, cl_r0 = r0, cl_p1 = p1, cl_r1 = r1, cl_dt = dt\<rparr>, s))))))"

section \<open>Rate control statistics\<close>

record mmwlan_rc_stats =
  n_entries :: u32
  rate_info :: "u32 list"
  total_sent :: "u32 list"
  total_success :: "u32 list"

definition arr_get :: "u32 list \<Rightarrow> nat \<Rightarrow> u32 result" where
  "arr_get a i = (if i < length a then Inr (a ! i) else Inl Out_of_bounds)"

text \<open>The search for the most used rate: \<open>k\<close> entries are left from index \<open>i\<close> on.\<close>

fun best_from :: "u32 list \<Rightarrow> nat \<Rightarrow> nat \<Rightarrow> nat \<times> u32 \<Rightarrow> (nat \<times> u32) result" where
  "best_from sent 0 i best = Inr best"
| "best_from sent (Suc k) i best =
     rbind (arr_get sent i) (\<lambda>n. best_from sent k (Suc i) (if snd best < n then (i, n) else best))"

definition bw_name :: "u32 \<Rightarrow> u8 list" where
  "bw_name bw = (if bw = 0 then ascii ''1MHz'' else if bw = 1 then ascii ''2MHz'' else if bw = 2 then ascii ''4MHz''
     else if bw = 3 then ascii ''8MHz?'' else ascii ''?'')"

text \<open>\<open>bw_buf\<close>, an array of 12 bytes.\<close>

definition bw_text :: "u32 \<Rightarrow> u8 list" where
  "bw_text bw = c_string (snd (snprintf_into (replicate 12 0) (bw_name bw @ ascii ''(bw='' @ decimal (unat bw) @ ascii '')'')))"

definition sta_str :: "mmwlan_sta_state \<Rightarrow> string" where
  "sta_str sta = (case sta of MMWLAN_STA_DISABLED \<Rightarrow> ''DISABLED'' | MMWLAN_STA_CONNECTING \<Rightarrow> ''CONNECTING''
     | MMWLAN_STA_CONNECTED \<Rightarrow> ''CONN'')"

text \<open>What the line says of the rate.\<close>

record rate_line =
  rl_bw :: "u8 list"
  rl_mcs :: u32
  rl_short_guard :: bool
  rl_sent :: u32
  rl_ok :: u32
  rl_percent :: u32

definition MMWLAN_RC_STATS_RATE_INFO_BW_OFFSET :: nat where "MMWLAN_RC_STATS_RATE_INFO_BW_OFFSET = 0"
definition MMWLAN_RC_STATS_RATE_INFO_RATE_OFFSET :: nat where "MMWLAN_RC_STATS_RATE_INFO_RATE_OFFSET = 4"
definition MMWLAN_RC_STATS_RATE_INFO_GUARD_OFFSET :: nat where "MMWLAN_RC_STATS_RATE_INFO_GUARD_OFFSET = 8"

definition rate_fields :: "u32 \<Rightarrow> u32 \<times> u32 \<times> u32" where
  "rate_fields info' =
     (drop_bit MMWLAN_RC_STATS_RATE_INFO_BW_OFFSET info' AND 0xF,
      drop_bit MMWLAN_RC_STATS_RATE_INFO_RATE_OFFSET info' AND 0xF,
      drop_bit MMWLAN_RC_STATS_RATE_INFO_GUARD_OFFSET info' AND 0x1)"

definition rate_report :: "mmwlan_rc_stats option \<Rightarrow> rate_line option result" where
  "rate_report st =
     (case st of
        None \<Rightarrow> Inr None
      | Some st \<Rightarrow>
          rbind (best_from (total_sent st) (unat (n_entries st)) 0 (0, 0)) (\<lambda>(best_idx, best_sent).
            if best_sent = 0 then Inr None
            else rbind (arr_get (rate_info st) best_idx) (\<lambda>info'.
                 rbind (arr_get (total_success st) best_idx) (\<lambda>succ.
                 rbind (u32_div (100 * succ) best_sent) (\<lambda>pct.
                   let (bw, mcs, gi) = rate_fields info'
                   in Inr (Some \<lparr>rl_bw = bw_text bw, rl_mcs = mcs, rl_short_guard = (gi \<noteq> 0),
                        rl_sent = best_sent, rl_ok = succ, rl_percent = pct\<rparr>))))))"

text \<open>
  What the calls of one dump answer, in the order of the calls: the clock twice, the signal strength, the
  state, the statistics, the clock and the time of the last heartbeat, the counters of the sender, and the
  clock for the cores.
\<close>

record stats_answers =
  an_now :: u32
  an_set :: u32
  an_rssi :: int
  an_sta :: mmwlan_sta_state
  an_rc :: "mmwlan_rc_stats option"
  an_hb_now :: u32
  an_hb_ms :: u32
  an_tx :: halow_tx_nonblock
  an_cpu_now :: u32

record stats_lines =
  sl_sta :: string
  sl_rssi :: int
  sl_rate :: "rate_line option"
  sl_hb_age :: u32
  sl_tx :: halow_tx_nonblock
  sl_cpu :: "cpu_line option"

text \<open>\<open>last_ms\<close> is the static variable; an early return prints nothing.\<close>

definition halow_link_stats_dump ::
    "stats_answers \<Rightarrow> u32 \<times> cpu_stats \<Rightarrow> (stats_lines option \<times> u32 \<times> cpu_stats) result" where
  "halow_link_stats_dump a s =
     (if an_now a - fst s < 1000 then Inr (None, s)
      else rbind (rate_report (an_rc a)) (\<lambda>rate.
           rbind (cpu_stats_dump_line (an_cpu_now a) (snd s)) (\<lambda>(cpu, cs).
             Inr (Some \<lparr>sl_sta = sta_str (an_sta a), sl_rssi = an_rssi a, sl_rate = rate,
                    sl_hb_age = an_hb_now a - an_hb_ms a, sl_tx = an_tx a, sl_cpu = cpu\<rparr>, an_set a, cs))))"

section \<open>Lemmas: the cores\<close>

lemma u32_div_ok: "b \<noteq> 0 \<Longrightarrow> u32_div a b = Inr (a div b)"
  by (simp add: u32_div_def)

lemma unat_times: "unat a * unat b < 4294967296 \<Longrightarrow> unat (a * b :: u32) = unat a * unat b"
  by (simp add: unat_word_ariths)

lemma idle_percent_runs:
  "\<exists>p. idle_percent r b = Inr p \<and> p \<le> 100 \<and>
     (unat r * 100 < 4294967296 \<longrightarrow> b \<noteq> 0 \<longrightarrow> unat p = min 100 (unat r * 100 div unat b)) \<and> (b = 0 \<longrightarrow> p = 0)"
proof (cases "b = 0")
  case True
  then show ?thesis by (simp add: idle_percent_def)
next
  case False
  have "unat r * 100 < 4294967296 \<longrightarrow> unat (r * 100 div b) = unat r * 100 div unat b"
    using unat_times [of r 100] by (simp add: unat_div)
  moreover have "unat (if 100 < q then 100 else q) = min 100 (unat q) \<and> (if 100 < q then 100 else q) \<le> 100" for q :: u32
    by (simp add: u32_less_iff word_le_nat_alt)
  ultimately show ?thesis using False by (simp add: idle_percent_def u32_div_ok)
qed

text \<open>A count of ticks that does not overflow when scaled gives its rate, and the rate can be scaled again.\<close>

lemma tick_rate:
  assumes "unat i \<le> 4294967" "100 \<le> unat dt"
  shows "unat (i * 1000 div dt :: u32) = unat i * 1000 div unat dt \<and> unat i * 1000 div unat dt * 100 < 4294967296"
proof -
  have "unat i * 1000 div unat dt \<le> unat i * 1000 div 100" using assms(2) by (intro div_le_mono2) auto
  also have "\<dots> = unat i * 10" by linarith
  finally have "unat i * 1000 div unat dt * 100 < 4294967296" using assms(1) by linarith
  moreover have "unat (i * 1000) = unat i * 1000" using unat_times [of i 1000] assms(1) by simp
  ultimately show ?thesis by (simp add: unat_div)
qed

text \<open>
  A dump of the idle shares never divides by zero and never prints more than 100 percent. While at
  most 4294967 ticks were counted (more than an hour at one per millisecond) the printed rate is the ticks per second
  and the share is the quotient of the rate and the baseline, rounded down and cut at 100; a core without
  a baseline shows 0. Within 100 ms of the last dump nothing changes.
\<close>

theorem cpu_idle_shares:
  assumes "unat (idle_ticks0 s) \<le> 4294967" "unat (idle_ticks1 s) \<le> 4294967"
    and "share = (\<lambda>n base dt. if base = 0 then 0 else min 100 (n * 1000 div dt * 100 div base))"
  shows "if now - s_last_dump_ms s < 100 then cpu_stats_dump_line now s = Inr (None, s)
    else \<exists>l. cpu_stats_dump_line now s = Inr (Some l, s\<lparr>s_last_dump_ms := now, idle_ticks0 := 0, idle_ticks1 := 0\<rparr>) \<and>
      unat (cl_r0 l) = unat (idle_ticks0 s) * 1000 div unat (cl_dt l) \<and>
      unat (cl_r1 l) = unat (idle_ticks1 s) * 1000 div unat (cl_dt l) \<and>
      unat (cl_p0 l) = share (unat (idle_ticks0 s)) (unat (baseline0 s)) (unat (cl_dt l)) \<and>
      unat (cl_p1 l) = share (unat (idle_ticks1 s)) (unat (baseline1 s)) (unat (cl_dt l)) \<and>
      cl_p0 l \<le> 100 \<and> cl_p1 l \<le> 100 \<and> cl_dt l = now - s_last_dump_ms s"
proof (cases "now - s_last_dump_ms s < 100")
  case True
  then show ?thesis by (simp add: cpu_stats_dump_line_def Let_def)
next
  case False
  define dt where "dt = now - s_last_dump_ms s"
  have dt: "100 \<le> unat dt" using False by (simp add: dt_def u32_less_iff)
  then have ne: "dt \<noteq> 0" by auto
  note r0 = tick_rate [OF assms(1) dt] and r1 = tick_rate [OF assms(2) dt]
  obtain p0 where p0: "idle_percent (idle_ticks0 s * 1000 div dt) (baseline0 s) = Inr p0" "p0 \<le> 100"
    "unat p0 = share (unat (idle_ticks0 s)) (unat (baseline0 s)) (unat dt)"
    using idle_percent_runs [of "idle_ticks0 s * 1000 div dt" "baseline0 s"] r0 unfolding assms(3)
    by (auto simp: unat_eq_0 split: if_splits)
  obtain p1 where p1: "idle_percent (idle_ticks1 s * 1000 div dt) (baseline1 s) = Inr p1" "p1 \<le> 100"
    "unat p1 = share (unat (idle_ticks1 s)) (unat (baseline1 s)) (unat dt)"
    using idle_percent_runs [of "idle_ticks1 s * 1000 div dt" "baseline1 s"] r1 unfolding assms(3)
    by (auto simp: unat_eq_0 split: if_splits)
  show ?thesis
    using False p0 p1 r0 r1 ne unfolding cpu_stats_dump_line_def Let_def dt_def [symmetric]
    by (simp add: u32_div_ok)
qed

lemma cpu_idle_shares_witness:
  "\<exists>l. cpu_stats_dump_line 2000 \<lparr>idle_ticks0 = 250, idle_ticks1 = 1200, baseline0 = 1000, baseline1 = 1000, s_last_dump_ms = 1000\<rparr> =
     Inr (Some l, \<lparr>idle_ticks0 = 0, idle_ticks1 = 0, baseline0 = 1000, baseline1 = 1000, s_last_dump_ms = 2000\<rparr>) \<and>
     unat (cl_p0 l) = 25 \<and> unat (cl_p1 l) = 100"
  using cpu_idle_shares [OF _ _ refl, of "\<lparr>idle_ticks0 = 250, idle_ticks1 = 1200, baseline0 = 1000, baseline1 = 1000, s_last_dump_ms = 1000\<rparr>" 2000]
  by auto

text \<open>One tick more wraps at 32 bits: a core that was idle all the time shows 0 percent.\<close>

lemma idle_share_wraps:
  "\<exists>l s'. cpu_stats_dump_line 4296967 \<lparr>idle_ticks0 = 4294968, idle_ticks1 = 4294967, baseline0 = 1000, baseline1 = 1000,
     s_last_dump_ms = 2000\<rparr> = Inr (Some l, s') \<and> cl_p0 l = 0 \<and> cl_p1 l = 100"
  by (simp add: cpu_stats_dump_line_def idle_percent_def u32_div_def)

section \<open>Lemmas: the rate\<close>

definition best_of :: "u32 list \<Rightarrow> nat \<Rightarrow> nat \<Rightarrow> nat \<times> u32 \<Rightarrow> nat \<times> u32 \<Rightarrow> bool" where
  "best_of sent i j b r \<longleftrightarrow> (\<forall>m. i \<le> m \<longrightarrow> m < j \<longrightarrow> sent ! m \<le> snd r) \<and> snd b \<le> snd r \<and>
     (r = b \<or> snd b < snd r \<and> i \<le> fst r \<and> fst r < j \<and> snd r = sent ! fst r \<and> (\<forall>m. i \<le> m \<longrightarrow> m < fst r \<longrightarrow> sent ! m < snd r))"

lemma best_from_spec:
  assumes "i + k \<le> length sent"
  shows "\<exists>r. best_from sent k i b = Inr r \<and> best_of sent i (i + k) b r"
  using assms
proof (induction k arbitrary: i b)
  case 0
  then show ?case by (simp add: best_of_def)
next
  case (Suc k)
  define b' where "b' = (if snd b < sent ! i then (i, sent ! i) else b)"
  obtain r where r: "best_from sent k (Suc i) b' = Inr r" "best_of sent (Suc i) (Suc i + k) b' r"
    using Suc.IH [of "Suc i" b'] Suc.prems by auto
  have "best_from sent (Suc k) i b = Inr r" using Suc.prems r(1) by (simp add: arr_get_def b'_def)
  moreover have "best_of sent i (i + Suc k) b r"
  proof -
    have b': "sent ! i \<le> snd b'" "snd b \<le> snd b'" by (auto simp: b'_def)
    have all: "sent ! m \<le> snd r" if "i \<le> m" "m < i + Suc k" for m
      using that r(2) b'(1) by (cases "m = i") (auto simp: best_of_def intro: order_trans)
    have b1: "snd b \<le> snd r" using b'(2) r(2) by (auto simp: best_of_def)
    have "r = b \<or> snd b < snd r \<and> i \<le> fst r \<and> fst r < i + Suc k \<and> snd r = sent ! fst r \<and> (\<forall>m. i \<le> m \<longrightarrow> m < fst r \<longrightarrow> sent ! m < snd r)"
    proof (cases "r = b'")
      case True
      then show ?thesis by (auto simp: b'_def)
    next
      case False
      then have f: "snd b' < snd r" "Suc i \<le> fst r" "fst r < Suc i + k" "snd r = sent ! fst r" "\<forall>m. Suc i \<le> m \<longrightarrow> m < fst r \<longrightarrow> sent ! m < snd r"
        using r(2) by (auto simp: best_of_def)
      have "sent ! i < snd r" "snd b < snd r" using order.strict_trans1 [OF b'(1) f(1)] order.strict_trans1 [OF b'(2) f(1)] by this
      then have "sent ! m < snd r" if "i \<le> m" "m < fst r" for m
        using that f(5) by (cases "m = i") auto
      then show ?thesis using f(2-4) \<open>snd b < snd r\<close> by auto
    qed
    then show ?thesis using all b1 by (auto simp: best_of_def)
  qed
  ultimately show ?case by blast
qed

text \<open>Neither report leaves the language.\<close>

lemma rate_report_total:
  assumes "length (total_sent st) = unat (n_entries st)" "length (rate_info st) = unat (n_entries st)"
    and "length (total_success st) = unat (n_entries st)"
  shows "\<exists>r. rate_report (Some st) = Inr r"
proof -
  have "0 + unat (n_entries st) \<le> length (total_sent st)" using assms(1) by simp
  from best_from_spec [OF this, of "(0, 0)"] obtain bi bs
    where best: "best_from (total_sent st) (unat (n_entries st)) 0 (0, 0) = Inr (bi, bs)"
      and b: "best_of (total_sent st) 0 (0 + unat (n_entries st)) (0, 0) (bi, bs)" by auto
  then show ?thesis
    using assms(2,3) by (cases "bs = 0") (auto simp: rate_report_def best_of_def arr_get_def u32_div_ok split_beta Let_def)
qed

lemma cpu_dump_total: "\<exists>r. cpu_stats_dump_line now s = Inr r"
proof (cases "now - s_last_dump_ms s < 100")
  case True
  then show ?thesis by (simp add: cpu_stats_dump_line_def Let_def)
next
  case False
  define r0 r1 where "r0 = idle_ticks0 s * 1000 div (now - s_last_dump_ms s)" and "r1 = idle_ticks1 s * 1000 div (now - s_last_dump_ms s)"
  have ne: "now - s_last_dump_ms s \<noteq> 0" using False by auto
  obtain p0 where p0: "idle_percent r0 (baseline0 s) = Inr p0" using idle_percent_runs [of r0] by blast
  obtain p1 where p1: "idle_percent r1 (baseline1 s) = Inr p1" using idle_percent_runs [of r1] by blast
  show ?thesis
    using False p0 p1 unfolding cpu_stats_dump_line_def Let_def u32_div_ok [OF ne] rbind_simps r0_def [symmetric] r1_def [symmetric]
    by simp
qed

text \<open>The text of the bandwidth always fits; a nibble has sixteen values.\<close>

lemma bw_text_whole:
  assumes "bw \<le> 15"
  shows "bw_text bw = bw_name bw @ ascii ''(bw='' @ decimal (unat bw) @ ascii '')''"
proof -
  have "unat bw < 10 ^ Suc 1" "bw \<noteq> 3 \<or> unat bw < 10 ^ Suc 0" using assms by (auto simp: word_le_nat_alt)
  then have d: "length (decimal (unat bw)) \<le> 2" "bw = 3 \<Longrightarrow> length (decimal (unat bw)) \<le> 1"
    using decimal_length [of "unat bw" 1] decimal_length [of "unat bw" 0] by auto
  have "length (bw_name bw @ ascii ''(bw='' @ decimal (unat bw) @ ascii '')'') < length (replicate 12 (0 :: u8))"
    using d by (cases "bw = 3") (auto simp: bw_name_def)
  moreover have "0 \<notin> set (bw_name bw @ ascii ''(bw='' @ decimal (unat bw) @ ascii '')'')"
    using decimal_no_nul [of "unat bw"] by (simp add: bw_name_def ascii_def)
  ultimately show ?thesis unfolding bw_text_def by (rule snprintf_fits)
qed

lemma nibble_bound: "x AND 0xF \<le> (15 :: u32)"
  by (rule word_and_le1)

text \<open>
  C35: Given statistics whose arrays have the stated number of entries, the line on the link reads no array
  outside. It reports no rate exactly when nothing was sent; otherwise it reports the first of the rates
  with the most packets, with that rate's own successes, bandwidth (the text is never cut), scheme and
  guard interval. The printed percentage is a hundred times the successes, reduced modulo 2 to the 32, divided by
  the packets; so it is the percentage of successes while that product fits in 32 bits (up to 42949672 successes).
\<close>

theorem link_rate_reported:
  assumes "length (total_sent st) = unat (n_entries st)" "length (rate_info st) = unat (n_entries st)"
    and "length (total_success st) = unat (n_entries st)"
    and "text = (\<lambda>bw. bw_name bw @ ascii ''(bw='' @ decimal (unat bw) @ ascii '')'')"
  shows "(rate_report (Some st) = Inr None \<and> (\<forall>n \<in> set (total_sent st). n = 0)) \<or>
    (\<exists>i l. rate_report (Some st) = Inr (Some l) \<and> i < unat (n_entries st) \<and> 0 < rl_sent l \<and>
       rl_sent l = total_sent st ! i \<and> (\<forall>n \<in> set (total_sent st). n \<le> rl_sent l) \<and> (\<forall>j < i. total_sent st ! j < rl_sent l) \<and>
       rl_ok l = total_success st ! i \<and> rl_bw l = text (fst (rate_fields (rate_info st ! i))) \<and>
       rl_mcs l = fst (snd (rate_fields (rate_info st ! i))) \<and> rl_short_guard l = bit (rate_info st ! i) 8 \<and>
       unat (rl_percent l) = 100 * unat (rl_ok l) mod 4294967296 div unat (rl_sent l) \<and>
       (unat (rl_ok l) \<le> 42949672 \<longrightarrow> unat (rl_percent l) = 100 * unat (rl_ok l) div unat (rl_sent l)))"
proof -
  have "0 + unat (n_entries st) \<le> length (total_sent st)" using assms(1) by simp
  from best_from_spec [OF this, of "(0, 0)"] obtain bi bs
    where best: "best_from (total_sent st) (unat (n_entries st)) 0 (0, 0) = Inr (bi, bs)"
      and b: "best_of (total_sent st) 0 (0 + unat (n_entries st)) (0, 0) (bi, bs)" by auto
  have most: "\<forall>n \<in> set (total_sent st). n \<le> bs" using b assms(1) by (auto simp: best_of_def in_set_conv_nth)
  show ?thesis
  proof (cases "bs = 0")
    case True
    then have "\<forall>n \<in> set (total_sent st). n = 0" using most by (simp add: word_le_0_iff)
    moreover have "rate_report (Some st) = Inr None" using best True by (simp add: rate_report_def)
    ultimately show ?thesis by blast
  next
    case False
    then have i: "bi < unat (n_entries st)" "bs = total_sent st ! bi" "\<forall>j < bi. total_sent st ! j < bs"
      using b by (auto simp: best_of_def)
    have pos: "0 < bs" using False by (simp add: word_gt_0)
    let ?info = "rate_info st ! bi" and ?succ = "total_success st ! bi"
    define l where "l = \<lparr>rl_bw = bw_text (fst (rate_fields ?info)), rl_mcs = fst (snd (rate_fields ?info)),
      rl_short_guard = (snd (snd (rate_fields ?info)) \<noteq> 0), rl_sent = bs, rl_ok = ?succ, rl_percent = 100 * ?succ div bs\<rparr>"
    have "rate_report (Some st) = Inr (Some l)"
      using best False i(1) assms(2,3)
      by (simp add: rate_report_def arr_get_def u32_div_ok l_def split_beta Let_def)
    moreover have "rl_bw l = text (fst (rate_fields ?info))"
      unfolding assms(4) l_def by (simp add: rate_fields_def bw_text_whole nibble_bound)
    moreover have "rl_short_guard l = bit ?info 8"
      by (simp add: l_def rate_fields_def MMWLAN_RC_STATS_RATE_INFO_GUARD_OFFSET_def and_one_eq odd_iff_mod_2_eq_one [symmetric] bit_iff_odd_drop_bit)
    moreover have pc: "unat (rl_percent l) = 100 * unat (rl_ok l) mod 4294967296 div unat (rl_sent l)"
      by (simp add: l_def unat_div unat_word_ariths)
    moreover have "unat (rl_ok l) \<le> 42949672 \<longrightarrow> unat (rl_percent l) = 100 * unat (rl_ok l) div unat (rl_sent l)"
      unfolding pc by simp
    ultimately show ?thesis using i pos most by (intro disjI2 exI [of _ bi] exI [of _ l]) (simp add: l_def)
  qed
qed

definition sample_stats :: mmwlan_rc_stats where
  "sample_stats = \<lparr>n_entries = 3, rate_info = [0x000, 0x123, 0x011], total_sent = [7, 40, 40], total_success = [7, 30, 40]\<rparr>"

lemma link_rate_reported_witness:
  "rate_report (Some sample_stats) = Inr (Some \<lparr>rl_bw = ascii ''8MHz?(bw=3)'', rl_mcs = 2, rl_short_guard = True,
     rl_sent = 40, rl_ok = 30, rl_percent = 75\<rparr>) \<and> list_all (\<lambda>n. n \<le> 40) (total_sent sample_stats)"
proof -
  have l: "length (total_sent sample_stats) = unat (n_entries sample_stats)"
    "length (rate_info sample_stats) = unat (n_entries sample_stats)"
    "length (total_success sample_stats) = unat (n_entries sample_stats)"
    by (simp_all add: sample_stats_def)
  have r: "rate_report (Some sample_stats) = Inr (Some \<lparr>rl_bw = ascii ''8MHz?(bw=3)'', rl_mcs = 2, rl_short_guard = True,
     rl_sent = 40, rl_ok = 30, rl_percent = 75\<rparr>)" by code_simp
  show ?thesis using link_rate_reported [OF l refl] unfolding r by (auto simp: list_all_iff)
qed

text \<open>From 42949673 successes on the product wraps: 86 percent of fifty million is shown as 0.\<close>

lemma percent_wraps:
  "\<exists>l. rate_report (Some \<lparr>n_entries = 1, rate_info = [0], total_sent = [50000000], total_success = [42949673]\<rparr>) = Inr (Some l) \<and>
     rl_percent l = 0"
  by (simp add: rate_report_def rate_fields_def arr_get_def u32_div_def)

end
