(* ===== verification/Main_Loop.thy ===== *)
theory Main_Loop
  imports Proxy_World Link_Stats Discovery Ble_Central
begin

text \<open>
  The program: \<open>setup\<close> and \<open>loop\<close> of main.cpp, which call the components of the other theories. What the
  environment answers in one round is a record; the TCP client and the BLE link live in the world of
  Proxy_World. The build is the HaLow variant with access point and BLE. The task watchdog is part of it: it is
  armed at the end of \<open>setup\<close>, reset at the head of each round, and ends a round that takes too long.
\<close>

section \<open>State\<close>

text \<open>The objects and static variables of main.cpp; \<open>ap_link\<close> is the last link state seen and the access point.\<close>

record main_state =
  g_tcp :: tcp_proxy
  stats_last_ms :: u32
  g_cpu :: cpu_stats
  ap_link :: "mmwlan_sta_state \<times> soft_ap"
  g_mdns :: mdns_state
  s_mdns_last_ms :: u32
  s_task_dump_done :: bool
  s_task_dump_at_ms :: u32
  wdt_watched :: bool

section \<open>Boot\<close>

text \<open>
  The answers of a boot: the configuration partition, the clock and the idle hooks of \<open>cpu_stats_init\<close>,
  the driver calls of the access point, the mDNS library, the base address, and the mutex of the proxy.
\<close>

record boot_answers =
  bo_flash :: "(unit + u8 list) option"
  bo_cpu_ms :: "u32 \<times> u32 \<times> u32"
  bo_idle :: "nat \<times> nat"
  bo_ap :: ap_answers
  bo_mdns_started :: "u8 list \<Rightarrow> bool"
  bo_mdns_service :: bool
  bo_mac :: "u8 list"
  bo_mutex :: bool

text \<open>
  \<open>setup\<close>; it adds the loop task to the watchdog at its end. A reboot or undefined behaviour while the uplink is
  made is an error; no answer from \<open>net_connect\<close> is \<open>None\<close>.
\<close>

definition setup_boot :: "'h halow_env \<Rightarrow> boot_answers \<Rightarrow> 'h \<Rightarrow> (main_state \<times> 'h) result option" where
  "setup_boot he b h =
     (let cfg = config_load False (bo_flash b) g_cfg;
          (t0, t1, t2) = bo_cpu_ms b
      in case cpu_stats_init t0 t1 t2 (fst (bo_idle b)) (snd (bo_idle b)) cpu_stats_start of
           Inl e \<Rightarrow> Some (Inl e)
         | Inr cpu \<Rightarrow>
             (case net_connect he cfg h of
                None \<Rightarrow> None
              | Some (Undefined e, h1) \<Rightarrow> Some (Inl e)
              | Some (Restarted, h1) \<Rightarrow> Some (Inl Does_not_return)
              | Some (Connected ip, h1) \<Rightarrow>
                  (let (ok, ap) = soft_ap_begin (bo_ap b) soft_ap_init;
                       proxy = TcpProxy (bo_mutex b);
                       (up, md) = mdns_advert_begin (bo_mdns_started b) (bo_mdns_service b) (bo_mac b) mdns_start
                   in Some (Inr (\<lparr>g_tcp = proxy, stats_last_ms = 0, g_cpu = cpu, ap_link = (MMWLAN_STA_DISABLED, ap),
                        g_mdns = md, s_mdns_last_ms = 0, s_task_dump_done = False, s_task_dump_at_ms = 0,
                        wdt_watched = True\<rparr>, h1)))))"

section \<open>One round of the loop\<close>

text \<open>
  The answers of one round: idle hooks since the last one, those of the statistics, the link state and the
  driver calls of the access point, the bonded name, the readings of the clock in their order, and how long the
  round takes from its reset of the watchdog to the next one.
\<close>

record loop_answers =
  la_idle :: "nat \<times> nat"
  la_stats :: stats_answers
  la_sta :: mmwlan_sta_state
  la_ap :: ap_answers
  la_mdns_now :: u32
  la_mdns_set :: u32
  la_bonded :: "u8 list"
  la_arm_now :: u32
  la_dump_now :: u32
  la_round_ms :: nat

definition mdns_turn :: "loop_answers \<Rightarrow> main_state \<Rightarrow> main_state" where
  "mdns_turn a m =
     (if 1000 \<le> la_mdns_now a - s_mdns_last_ms m
      then m\<lparr>s_mdns_last_ms := la_mdns_set a, g_mdns := mdns_advert_refresh (la_bonded a) (g_mdns m)\<rparr> else m)"

text \<open>Whether the task table is printed in this round.\<close>

definition task_dump_turn :: "loop_answers \<Rightarrow> main_state \<Rightarrow> bool \<times> main_state" where
  "task_dump_turn a m =
     (if s_task_dump_done m then (False, m)
      else let m = (if s_task_dump_at_ms m = 0 then m\<lparr>s_task_dump_at_ms := la_arm_now a + 3000\<rparr> else m)
           in if 0 \<le> sint (la_dump_now a - s_task_dump_at_ms m) then (True, m\<lparr>s_task_dump_done := True\<rparr>) else (False, m))"

text \<open>The part of a round after the proxy's.\<close>

definition house_keeping :: "loop_answers \<Rightarrow> main_state \<Rightarrow> (stats_lines option \<times> bool \<times> main_state) result" where
  "house_keeping a m =
     rbind (halow_link_stats_dump (la_stats a) (stats_last_ms m, idle_run (fst (la_idle a)) (snd (la_idle a)) (g_cpu m)))
       (\<lambda>(lines, last_ms, cpu).
         let m = m\<lparr>stats_last_ms := last_ms, g_cpu := cpu\<rparr>;
             m = m\<lparr>ap_link := halow_softap_sync (la_ap a) (la_sta a) (ap_link m)\<rparr>;
             m = mdns_turn a m;
             (dumped, m) = task_dump_turn a m
         in Inr (lines, dumped, m))"

text \<open>
  The round starts with \<open>esp_task_wdt_reset\<close>. When it is not over after \<open>wdt_timeout_ms\<close> the watchdog panics and
  the device starts again from \<open>setup\<close>.
\<close>

datatype 'w round_end =
    Goes_on "stats_lines option" bool main_state 'w
  | Watchdog_panic

definition main_loop ::
    "'w net_env \<Rightarrow> 'w ble_env \<Rightarrow> 'w clock_env \<Rightarrow> loop_answers \<Rightarrow> main_state \<Rightarrow> 'w \<Rightarrow> 'w round_end result option" where
  "main_loop net ble clk a m w =
     (case proxy_loop net ble clk (g_tcp m) w of
        None \<Rightarrow> None
      | Some (proxy, w1) \<Rightarrow>
          Some (rbind (house_keeping a (m\<lparr>g_tcp := proxy\<rparr>)) (\<lambda>(lines, dumped, m1).
            Inr (if wdt_watched m \<and> wdt_timeout_ms < la_round_ms a then Watchdog_panic else Goes_on lines dumped m1 w1))))"

section \<open>Runs\<close>

text \<open>What the statistics calls promise: arrays as long as they say.\<close>

definition rc_stats_ok :: "mmwlan_rc_stats option \<Rightarrow> bool" where
  "rc_stats_ok st \<longleftrightarrow> (case st of None \<Rightarrow> True
     | Some s \<Rightarrow> length (total_sent s) = unat (n_entries s) \<and> length (rate_info s) = unat (n_entries s) \<and>
         length (total_success s) = unat (n_entries s))"

text \<open>
  The world right after the latest client was taken: in a round that finds no client connected the proxy
  may take a new one.
\<close>

definition session_start :: "behaviour \<Rightarrow> main_state \<Rightarrow> world \<Rightarrow> world \<Rightarrow> world" where
  "session_start o' m w w0 =
     (let (up, w1) = nc_connected (w_net o') w
      in if up then w0
         else let w2 = (if ble_open (g_tcp m) then snd (on_client_disconnected (w_ble o') (g_tcp m) w1) else w1);
                  (incoming, w3) = server_accept (w_net o') w2
              in if incoming then w3 else w0)"

text \<open>
  The states of the running program: after a boot with no client (the first one or after a panic), after a
  round that the watchdog did not end, and after a notification from the BLE host task; the last argument is
  the start of the latest session.
\<close>

inductive main_reach :: "'h halow_env \<Rightarrow> behaviour \<Rightarrow> main_state \<Rightarrow> world \<Rightarrow> world \<Rightarrow> bool" for he o' where
  main_boot: "setup_boot he b h = Some (Inr (m, h1)) \<Longrightarrow> w_client w = HalowClient r t \<Longrightarrow> main_reach he o' m w w"
| main_round: "main_reach he o' m w w0 \<Longrightarrow> rc_stats_ok (an_rc (la_stats a)) \<Longrightarrow>
     main_loop (w_net o') (w_ble o') (w_clock o') a m w = Some (Inr (Goes_on lines dumped m1 w1)) \<Longrightarrow>
     main_reach he o' m1 w1 (session_start o' m w w0)"
| main_notify: "main_reach he o' m w w0 \<Longrightarrow> main_reach he o' (m\<lparr>g_tcp := notify_callback data (g_tcp m)\<rparr>) w w0"

section \<open>Lemmas\<close>

lemma stats_dump_total:
  assumes "rc_stats_ok (an_rc a)"
  shows "\<exists>r. halow_link_stats_dump a s = Inr r"
proof -
  obtain rate where "rate_report (an_rc a) = Inr rate"
    using assms rate_report_total by (cases "an_rc a") (auto simp: rc_stats_ok_def rate_report_def)
  moreover obtain c where "cpu_stats_dump_line (an_cpu_now a) (snd s) = Inr c" using cpu_dump_total by blast
  ultimately show ?thesis by (cases c) (simp add: halow_link_stats_dump_def)
qed

lemma task_dump_turn_keeps:
  assumes "task_dump_turn a m = (dumped, m1)"
  shows "g_tcp m1 = g_tcp m" "ap_link m1 = ap_link m" "wdt_watched m1 = wdt_watched m"
  using assms by (auto simp: task_dump_turn_def Let_def split: if_splits)

text \<open>The part after the proxy always runs through and leaves the proxy alone.\<close>

lemma house_keeping_runs:
  assumes "rc_stats_ok (an_rc (la_stats a))"
  obtains lines dumped m1 where "house_keeping a m = Inr (lines, dumped, m1)" "g_tcp m1 = g_tcp m"
    "ap_link m1 = halow_softap_sync (la_ap a) (la_sta a) (ap_link m)"
    "wdt_watched m1 = wdt_watched m"
proof -
  obtain lines last_ms cpu
    where d: "halow_link_stats_dump (la_stats a) (stats_last_ms m, idle_run (fst (la_idle a)) (snd (la_idle a)) (g_cpu m)) =
      Inr (lines, last_ms, cpu)"
    using stats_dump_total [OF assms] by (metis prod_cases3)
  define m2 where "m2 = mdns_turn a (m\<lparr>stats_last_ms := last_ms, g_cpu := cpu, ap_link := halow_softap_sync (la_ap a) (la_sta a) (ap_link m)\<rparr>)"
  obtain dumped m1 where t: "task_dump_turn a m2 = (dumped, m1)" by fastforce
  show thesis
  proof (rule that)
    show "house_keeping a m = Inr (lines, dumped, m1)"
      using t by (simp add: house_keeping_def d m2_def)
  qed (use task_dump_turn_keeps [OF t] in \<open>simp_all add: m2_def mdns_turn_def\<close>)
qed

lemma main_loop_round:
  assumes "main_loop net ble clk a m w = Some (Inr (Goes_on lines dumped m1 w1))" "rc_stats_ok (an_rc (la_stats a))"
  shows "proxy_loop net ble clk (g_tcp m) w = Some (g_tcp m1, w1)"
    "ap_link m1 = halow_softap_sync (la_ap a) (la_sta a) (ap_link m)" "wdt_watched m1 = wdt_watched m"
proof -
  obtain proxy v where p: "proxy_loop net ble clk (g_tcp m) w = Some (proxy, v)"
    using assms(1) by (cases "proxy_loop net ble clk (g_tcp m) w") (auto simp: main_loop_def)
  obtain l' d' m' where h: "house_keeping a (m\<lparr>g_tcp := proxy\<rparr>) = Inr (l', d', m')" "g_tcp m' = g_tcp (m\<lparr>g_tcp := proxy\<rparr>)"
    "ap_link m' = halow_softap_sync (la_ap a) (la_sta a) (ap_link (m\<lparr>g_tcp := proxy\<rparr>))"
    "wdt_watched m' = wdt_watched (m\<lparr>g_tcp := proxy\<rparr>)"
    by (rule house_keeping_runs [OF assms(2)])
  have e: "m' = m1" "v = w1" using assms(1) h(1) by (simp_all add: main_loop_def p split: if_splits)
  show "proxy_loop net ble clk (g_tcp m) w = Some (g_tcp m1, w1)" using p h(2) e by simp
  show "ap_link m1 = halow_softap_sync (la_ap a) (la_sta a) (ap_link m)" using h(3) e by simp
  show "wdt_watched m1 = wdt_watched m" using h(4) e by simp
qed

text \<open>A client found gone is gone: only taking a new one connects again.\<close>

lemma gone_stays:
  assumes "nc_connected (w_net o') w = (False, w1)"
  shows "\<not> is_connected_flag (w_real w1)"
  using assms
  by (auto simp: w_net_def client_connected_def w_put_def w_real_def Let_def split: if_splits prod.splits)

lemma connected_flag: "fst (nc_connected (w_net o') w) \<Longrightarrow> is_connected_flag (w_real w)"
  by (auto simp: w_net_def client_connected_def Let_def split: if_splits)

lemma flag_tick: "is_connected_flag (w_real (w\<lparr>w_tick := k\<rparr>)) = is_connected_flag (w_real w)"
  by (simp add: w_real_def)

definition in_session :: "behaviour \<Rightarrow> tcp_proxy \<Rightarrow> world \<Rightarrow> world \<Rightarrow> bool" where
  "in_session o' st w w0 \<longleftrightarrow> (is_connected_flag (w_real w) \<longrightarrow>
     w_client w0 = HalowClient_fd 0 0 \<and> (\<exists>st0. proxy_reach (w_net o') (w_ble o') (w_clock o') st0 w0 st w))"

lemma round_in_session:
  assumes "in_session o' (g_tcp m) w w0" "proxy_loop (w_net o') (w_ble o') (w_clock o') (g_tcp m) w = Some (st1, w1)"
  shows "in_session o' st1 w1 (session_start o' m w w0)"
proof -
  obtain up v where c: "nc_connected (w_net o') w = (up, v)" by fastforce
  show ?thesis
  proof (cases up)
    case True
    then have up: "fst (nc_connected (w_net o') w)" using c by simp
    then obtain st0 where "w_client w0 = HalowClient_fd 0 0" "proxy_reach (w_net o') (w_ble o') (w_clock o') st0 w0 (g_tcp m) w"
      using assms(1) connected_flag [OF up] by (auto simp: in_session_def)
    moreover from reach_loop [OF this(2) up assms(2)] have "proxy_reach (w_net o') (w_ble o') (w_clock o') st0 w0 st1 w1" .
    moreover have "session_start o' m w w0 = w0" using c True by (simp add: session_start_def)
    ultimately show ?thesis by (auto simp: in_session_def)
  next
    case False
    obtain st2 v2 where d: "(if ble_open (g_tcp m) then on_client_disconnected (w_ble o') (g_tcp m) v else (g_tcp m, v)) = (st2, v2)"
      by fastforce
    obtain inc v3 where acc: "server_accept (w_net o') v2 = (inc, v3)" by fastforce
    have v2: "\<not> is_connected_flag (w_real v2)"
      using d gone_stays [of o' w v] c False
      by (auto simp: on_client_disconnected_def w_ble_def flag_tick Let_def split: if_splits)
    have s: "session_start o' m w w0 = (if inc then v3 else w0)"
      using c False d acc by (auto simp: session_start_def split: if_splits)
    show ?thesis
    proof (cases inc)
      case True
      then have on: "on_client_connected (w_net o') (w_ble o') (w_clock o') st2 v3 = (st1, w1)"
        using assms(2) c False d acc by (simp add: proxy_loop_def w_net_def)
      have "w_client v3 = HalowClient_fd 0 0"
        using acc True by (auto simp: w_net_def split: option.splits)
      moreover from reach_start [OF on]
      have "\<exists>st0. proxy_reach (w_net o') (w_ble o') (w_clock o') st0 v3 st1 w1" by blast
      ultimately show ?thesis using s True by (simp add: in_session_def)
    next
      case 2: False
      then have "w1 = v3" using assms(2) c False d acc by (simp add: proxy_loop_def)
      moreover have "\<not> is_connected_flag (w_real v3)"
        using acc 2 v2 by (auto simp: w_net_def flag_tick split: option.splits)
      ultimately show ?thesis by (simp add: in_session_def)
    qed
  qed
qed

lemma main_reach_session: "main_reach he o' m w w0 \<Longrightarrow> in_session o' (g_tcp m) w w0"
proof (induction rule: main_reach.induct)
  case (main_boot b h m h1 w r t)
  then show ?case by (simp add: in_session_def w_real_def HalowClient_def)
next
  case (main_round m w w0 a lines dumped m1 w1)
  show ?case
    by (rule round_in_session [OF main_round.IH main_loop_round(1) [OF main_round.hyps(3,2)]])
next
  case (main_notify m w w0 data)
  have "\<exists>st0. proxy_reach (w_net o') (w_ble o') (w_clock o') st0 w0 (notify_callback data (g_tcp m)) w"
    if "\<exists>st0. proxy_reach (w_net o') (w_ble o') (w_clock o') st0 w0 (g_tcp m) w"
    using that by (blast intro: reach_notify)
  with main_notify.IH show ?case by (simp add: in_session_def)
qed

text \<open>Every round of the proxy returns: with a client by the accounting of its session, without one at once.\<close>

lemma proxy_round_returns:
  assumes "in_session o' st w w0"
  shows "\<exists>r. proxy_loop (w_net o') (w_ble o') (w_clock o') st w = Some r"
proof (cases "fst (nc_connected (w_net o') w)")
  case True
  then obtain st0 where "proxy_reach (w_net o') (w_ble o') (w_clock o') st0 w0 st w"
    using assms connected_flag [OF True] by (auto simp: in_session_def)
  from world.lossless [OF this] True show ?thesis by blast
next
  case False
  then show ?thesis by (auto simp: proxy_loop_def split_beta Let_def)
qed

lemma main_reach_ap: "main_reach he o' m w w0 \<Longrightarrow> s_softap_up (snd (ap_link m)) \<longrightarrow> ap_works (snd (ap_link m))"
proof (induction rule: main_reach.induct)
  case (main_boot b h m h1 w r t)
  obtain ok ap where a: "soft_ap_begin (bo_ap b) soft_ap_init = (ok, ap)" by fastforce
  with main_boot(1) have "snd (ap_link m) = ap"
    by (auto simp: setup_boot_def split: prod.splits sum.splits option.splits net_outcome.splits)
  then show ?case using soft_ap_begin_works [OF a] by (simp add: soft_ap_init_def)
next
  case (main_round m w w0 a lines dumped m1 w1)
  show ?case unfolding main_loop_round(2) [OF main_round.hyps(3,2)] by (rule sync_up_works [OF main_round.IH])
qed simp

lemma main_reach_watched: "main_reach he o' m w w0 \<Longrightarrow> wdt_watched m"
proof (induction rule: main_reach.induct)
  case (main_boot b h m h1 w r t)
  then show ?case
    by (auto simp: setup_boot_def Let_def split: prod.splits sum.splits option.splits net_outcome.splits)
next
  case (main_round m w w0 a lines dumped m1 w1)
  with main_loop_round(3) [OF main_round.hyps(3,2)] show ?case by simp
qed simp

section \<open>The properties of the program\<close>

text \<open>
  C1: In every reachable state of the program, over any number of clients and whatever network, mower,
  clock, link and driver do: while a client is connected the mower has accepted, since that client was taken,
  exactly the first frames of that client's stream; if the access point counts as up it works; and the next
  round of the loop, if the statistics it is given are arrays of the length they claim, runs through without
  leaving the language: within the 30 seconds of the watchdog it ends in a reachable state again, and if its
  calls block for longer it is ended by the watchdog.
\<close>

theorem firmware_runs:
  assumes "main_reach he o' m w w0"
  shows "(fst (nc_connected (w_net o') w) \<longrightarrow>
      (\<exists>sent. w_accepted w = w_accepted w0 @ sent \<and> prefix sent (fst (deframe (tcp_pending (w_tcp w0)))))) \<and>
    (s_softap_up (snd (ap_link m)) \<longrightarrow> ap_works (snd (ap_link m))) \<and>
    (\<forall>a :: loop_answers. rc_stats_ok (an_rc (la_stats a)) \<longrightarrow>
      (if la_round_ms a \<le> 30000
       then \<exists>lines dumped m1 w1.
              main_loop (w_net o') (w_ble o') (w_clock o') a m w = Some (Inr (Goes_on lines dumped m1 w1)) \<and>
              main_reach he o' m1 w1 (session_start o' m w w0)
       else main_loop (w_net o') (w_ble o') (w_clock o') a m w = Some (Inr Watchdog_panic)))"
proof (intro conjI impI allI)
  have i: "in_session o' (g_tcp m) w w0" by (rule main_reach_session [OF assms])
  show "\<exists>sent. w_accepted w = w_accepted w0 @ sent \<and> prefix sent (fst (deframe (tcp_pending (w_tcp w0))))"
    if up: "fst (nc_connected (w_net o') w)"
  proof -
    from i connected_flag [OF up] obtain st0 where w0: "w_client w0 = HalowClient_fd 0 0"
      and r: "proxy_reach (w_net o') (w_ble o') (w_clock o') st0 w0 (g_tcp m) w" by (auto simp: in_session_def)
    from world.lossless [OF r] show ?thesis by (simp add: w_unread_new [OF w0])
  qed
  show "ap_works (snd (ap_link m))" if "s_softap_up (snd (ap_link m))" using main_reach_ap [OF assms] that by blast
  fix a :: loop_answers
  assume ok: "rc_stats_ok (an_rc (la_stats a))"
  obtain st1 w1 where p: "proxy_loop (w_net o') (w_ble o') (w_clock o') (g_tcp m) w = Some (st1, w1)"
    using proxy_round_returns [OF i] by auto
  obtain lines dumped m1 where "house_keeping a (m\<lparr>g_tcp := st1\<rparr>) = Inr (lines, dumped, m1)"
    by (rule house_keeping_runs [OF ok])
  then have l: "main_loop (w_net o') (w_ble o') (w_clock o') a m w =
      Some (Inr (if 30000 < la_round_ms a then Watchdog_panic else Goes_on lines dumped m1 w1))"
    using main_reach_watched [OF assms] by (simp add: main_loop_def p wdt_timeout_ms_def)
  show "if la_round_ms a \<le> 30000
    then \<exists>lines dumped m1 w1. main_loop (w_net o') (w_ble o') (w_clock o') a m w = Some (Inr (Goes_on lines dumped m1 w1)) \<and>
      main_reach he o' m1 w1 (session_start o' m w w0)
    else main_loop (w_net o') (w_ble o') (w_clock o') a m w = Some (Inr Watchdog_panic)"
  proof (cases "la_round_ms a \<le> 30000")
    case True
    with l have l': "main_loop (w_net o') (w_ble o') (w_clock o') a m w = Some (Inr (Goes_on lines dumped m1 w1))" by simp
    with main_round [OF assms ok l'] True show ?thesis by auto
  next
    case False
    with l show ?thesis by simp
  qed
qed

text \<open>A boot with a blank configuration partition next to its access point.\<close>

definition good_boot :: boot_answers where
  "good_boot = \<lparr>bo_flash = None, bo_cpu_ms = (0, 200, 200), bo_idle = (0, 0), bo_ap = all_well,
     bo_mdns_started = (\<lambda>h. True), bo_mdns_service = True, bo_mac = [0, 0, 0, 1, 2, 3], bo_mutex = True\<rparr>"

definition empty_world :: world where
  "empty_world = \<lparr>w_client = HalowClient 0 0, w_tcp = \<lparr>queued = [], coming = [], tick = 0, taken = []\<rparr>, w_accepted = [], w_tick = 0\<rparr>"

lemma good_boot_runs:
  "\<exists>m h1. setup_boot (traced near_uplink) good_boot (0, []) = Some (Inr (m, h1)) \<and> s_softap_up (snd (ap_link m)) \<and>
     g_tcp m = TcpProxy True \<and> fst (ap_link m) = MMWLAN_STA_DISABLED"
proof -
  obtain ip h1 where n: "net_connect (traced near_uplink) (load_defaults False g_cfg) (0, []) = Some (Connected ip, h1)"
    using default_uplink by blast
  obtain cpu where c: "cpu_stats_init 0 200 200 0 0 cpu_stats_start = Inr cpu"
    by (simp add: cpu_stats_init_def idle_run_def u32_div_def)
  obtain ok ap where a: "soft_ap_begin all_well soft_ap_init = (ok, ap)" "s_softap_up ap"
    by (simp add: soft_ap_begin_def soft_ap_init_def all_well_def preconfigure_def bring_up_def dhcps_option_offer_dns_def)
  show ?thesis using n c a
    by (simp add: setup_boot_def good_boot_def config_load_def Let_def split: prod.split)
qed

definition quiet :: loop_answers where
  "quiet = \<lparr>la_idle = (0, 0),
     la_stats = \<lparr>an_now = 0, an_set = 0, an_rssi = - 40, an_sta = MMWLAN_STA_CONNECTED, an_rc = None, an_hb_now = 0, an_hb_ms = 0,
       an_tx = halow_tx_nonblock_init, an_cpu_now = 0\<rparr>,
     la_sta = MMWLAN_STA_CONNECTED, la_ap = all_well, la_mdns_now = 0, la_mdns_set = 0, la_bonded = [], la_arm_now = 0,
     la_dump_now = 0, la_round_ms = 20\<rparr>"

lemma quiet_round:
  assumes "proxy_loop net ble clk (g_tcp m) w = Some (proxy, w1)"
  obtains lines dumped m1 where "main_loop net ble clk quiet m w = Some (Inr (Goes_on lines dumped m1 w1))" "g_tcp m1 = proxy"
    "ap_link m1 = halow_softap_sync all_well MMWLAN_STA_CONNECTED (ap_link m)"
proof -
  have ok: "rc_stats_ok (an_rc (la_stats quiet))" by (simp add: quiet_def rc_stats_ok_def)
  obtain lines dumped m1 where h: "house_keeping quiet (m\<lparr>g_tcp := proxy\<rparr>) = Inr (lines, dumped, m1)"
    "g_tcp m1 = g_tcp (m\<lparr>g_tcp := proxy\<rparr>)" "ap_link m1 = halow_softap_sync (la_ap quiet) (la_sta quiet) (ap_link (m\<lparr>g_tcp := proxy\<rparr>))"
    by (rule house_keeping_runs [OF ok])
  show thesis
  proof (rule that)
    show "main_loop net ble clk quiet m w = Some (Inr (Goes_on lines dumped m1 w1))"
      by (simp add: main_loop_def assms h(1)) (simp add: quiet_def wdt_timeout_ms_def)
  qed (use h in \<open>simp_all add: quiet_def\<close>)
qed

text \<open>The first round takes the client; the second finds it connected and passes its frame on.\<close>

lemma first_rounds:
  "proxy_loop (w_net calm) (w_ble calm) (w_clock calm) (TcpProxy True) empty_world =
     Some (calm_proxy WAIT_LEN 0 0 [], calm_world HalowClientRxBuffer 0 [] [0, 1, 7] 0 3 [])"
  "proxy_loop (w_net calm) (w_ble calm) (w_clock calm) (calm_proxy WAIT_LEN 0 0 [])
      (calm_world HalowClientRxBuffer 0 [] [0, 1, 7] 0 3 []) =
     Some (calm_proxy WAIT_LEN 0 0 [7], calm_world (filled [0, 1, 7] 3) 3000 [] [] 8 7 [[7]])"
proof -
  have c: "nc_connected (w_net calm) empty_world = (False, empty_world)"
    by (simp add: w_net_def client_connected_def w_real_def empty_world_def HalowClient_def w_put_def client_wf_def)
  have acc: "server_accept (w_net calm) empty_world = (True, calm_world HalowClientRxBuffer 0 [] [0, 1, 7] 0 1 [])"
    by (simp add: w_net_def calm_def empty_world_def calm_world_def HalowClient_fd_def)
  have nd: "nc_set_no_delay (w_net calm) w = w" for w by (simp add: w_net_def)
  show "proxy_loop (w_net calm) (w_ble calm) (w_clock calm) (TcpProxy True) empty_world =
     Some (calm_proxy WAIT_LEN 0 0 [], calm_world HalowClientRxBuffer 0 [] [0, 1, 7] 0 3 [])"
    by (simp add: proxy_loop_def c TcpProxy_def acc nd)
       (simp add: on_client_connected_def calm_run calm_proxy_def TcpProxy_def numeral_eq_Suc)
  show "proxy_loop (w_net calm) (w_ble calm) (w_clock calm) (calm_proxy WAIT_LEN 0 0 [])
      (calm_world HalowClientRxBuffer 0 [] [0, 1, 7] 0 3 []) =
     Some (calm_proxy WAIT_LEN 0 0 [7], calm_world (filled [0, 1, 7] 3) 3000 [] [] 8 7 [[7]])"
    using calm_poll [of "[0, 1, 7]" "[]" "Suc 0" "4" "[]"]
    by (simp add: proxy_loop_def calm_connected calm_run)
       (simp add: calm_proxy_def TcpProxy_def drain_notify_queue_def drain_queue_fold CLIENT_IDLE_TIMEOUT_MS_def numeral_eq_Suc)
qed

text \<open>
  After these two rounds the client is connected, its frame accepted and the access point up; a round of 20
  ms goes on and one of 50 seconds is ended.
\<close>

lemma firmware_runs_witness:
  "\<exists>m w w0. main_reach (traced near_uplink) calm m w w0 \<and> fst (nc_connected (w_net calm) w) \<and>
     w_accepted w = [[7]] \<and> fst (deframe (tcp_pending (w_tcp w0))) = [[7]] \<and> prefix [[7]] (fst (deframe (tcp_pending (w_tcp w0)))) \<and>
     ap_works (snd (ap_link m)) \<and>
     (\<exists>lines dumped m1 w1. main_loop (w_net calm) (w_ble calm) (w_clock calm) quiet m w = Some (Inr (Goes_on lines dumped m1 w1))) \<and>
     main_loop (w_net calm) (w_ble calm) (w_clock calm) (quiet\<lparr>la_round_ms := 50000\<rparr>) m w = Some (Inr Watchdog_panic)"
proof -
  let ?w1 = "calm_world HalowClientRxBuffer 0 [] [0, 1, 7] 0 3 []" and ?w2 = "calm_world (filled [0, 1, 7] 3) 3000 [] [] 8 7 [[7]]"
  let ?n = "w_net calm" and ?b = "w_ble calm" and ?c = "w_clock calm"
  have ok: "rc_stats_ok (an_rc (la_stats quiet))" by (simp add: quiet_def rc_stats_ok_def)
  obtain m h1 where b: "setup_boot (traced near_uplink) good_boot (0, []) = Some (Inr (m, h1))" "s_softap_up (snd (ap_link m))"
    "g_tcp m = TcpProxy True" "fst (ap_link m) = MMWLAN_STA_DISABLED" using good_boot_runs by blast
  have r0: "main_reach (traced near_uplink) calm m empty_world empty_world"
    by (rule main_boot [OF b(1)]) (simp add: empty_world_def)
  obtain l1 d1 m1 where m1: "main_loop ?n ?b ?c quiet m empty_world = Some (Inr (Goes_on l1 d1 m1 ?w1))" "g_tcp m1 = calm_proxy WAIT_LEN 0 0 []"
    "ap_link m1 = halow_softap_sync all_well MMWLAN_STA_CONNECTED (ap_link m)"
    by (rule quiet_round [OF first_rounds(1) [folded b(3)]])
  obtain l2 d2 m2 where m2: "main_loop ?n ?b ?c quiet m1 ?w1 = Some (Inr (Goes_on l2 d2 m2 ?w2))"
    "ap_link m2 = halow_softap_sync all_well MMWLAN_STA_CONNECTED (ap_link m1)"
    by (rule quiet_round [OF first_rounds(2) [folded m1(2)]])
  have s0: "session_start calm m empty_world empty_world = calm_world HalowClientRxBuffer 0 [] [0, 1, 7] 0 1 []"
    by (simp add: session_start_def w_net_def client_connected_def w_real_def empty_world_def HalowClient_def w_put_def
        client_wf_def b(3) TcpProxy_def calm_def calm_world_def HalowClient_fd_def)
  have up1: "nc_connected ?n ?w1 = (True, calm_world HalowClientRxBuffer 0 [0, 1, 7] [] 1 3 [])"
    by (simp add: calm_connected)
  have r2: "main_reach (traced near_uplink) calm m2 ?w2 (calm_world HalowClientRxBuffer 0 [] [0, 1, 7] 0 1 [])"
    using main_round [OF main_round [OF r0 ok m1(1)] ok m2(1)] by (simp add: s0 session_start_def [of calm m1 ?w1] up1)
  have up2: "fst (nc_connected ?n ?w2)"
    by (simp add: w_net_def calm_run client_connected_def) (simp add: HalowClient_fd_def)
  have ap: "s_softap_up (snd (ap_link m2))"
    using b(2,4) by (cases "ap_link m") (simp add: m2(2) m1(3) halow_softap_sync_def soft_ap_is_up_def)
  have df: "fst (deframe (tcp_pending (w_tcp (calm_world HalowClientRxBuffer 0 [] [0, 1, 7] 0 1 [])))) = [[7]]"
    by (simp add: calm_world_simps tcp_pending_def deframe_cases(3) frame_len_def)
  note F = firmware_runs [OF r2]
  have p: "prefix [[7]] (fst (deframe (tcp_pending (w_tcp (calm_world HalowClientRxBuffer 0 [] [0, 1, 7] 0 1 [])))))"
    using F up2 by (simp add: calm_world_simps)
  have w: "ap_works (snd (ap_link m2))" using F ap by blast
  have q: "rc_stats_ok (an_rc (la_stats (quiet\<lparr>la_round_ms := 50000\<rparr>)))" "la_round_ms quiet = 20" using ok by (simp_all add: quiet_def)
  have "\<exists>lines dumped m1 w1. main_loop ?n ?b ?c quiet m2 ?w2 = Some (Inr (Goes_on lines dumped m1 w1))"
    using conjunct2 [OF conjunct2 [OF F], rule_format, OF ok] q(2) by auto
  moreover have "main_loop ?n ?b ?c (quiet\<lparr>la_round_ms := 50000\<rparr>) m2 ?w2 = Some (Inr Watchdog_panic)"
    using conjunct2 [OF conjunct2 [OF F], rule_format, OF q(1)] by simp
  ultimately show ?thesis using r2 up2 df p w by (metis calm_world_simps(7))
qed

end
