(* ===== verification/Halow_Server_Api.thy ===== *)
theory Halow_Server_Api
  imports Halow_Sockets
begin

text \<open>
  The calls of HalowServer.cpp around accepting: options, the other names of \<open>begin\<close>, \<open>accept\<close> and \<open>end\<close>,
  and what the options do to the clients that are accepted.
\<close>

section \<open>The calls\<close>

datatype timeout_option = SO_RCVTIMEO | SO_SNDTIMEO

text \<open>\<open>so\<close> is \<open>setsockopt\<close> with a timeout in seconds.\<close>

definition server_setTimeout :: "(nat option \<Rightarrow> timeout_option \<Rightarrow> u32 \<Rightarrow> 'o \<Rightarrow> int \<times> 'o) \<Rightarrow> u32 \<Rightarrow> halow_server \<Rightarrow> 'o \<Rightarrow> int \<times> 'o" where
  "server_setTimeout so seconds s x =
     (let (r, x) = so (srv_sockfd s) SO_RCVTIMEO seconds x
      in if r < 0 then (- 1, x) else so (srv_sockfd s) SO_SNDTIMEO seconds x)"

definition server_available :: "nat option \<Rightarrow> bool \<Rightarrow> bool \<Rightarrow> sock_world \<Rightarrow> nat option \<times> sock_world" where
  "server_available conn keepalive_ok nodelay_ok w = server_accept conn keepalive_ok nodelay_ok w"

text \<open>\<open>enable\<close> is 1, which is only the value of SO_REUSEADDR.\<close>

definition server_begin_port :: "u16 \<Rightarrow> nat option \<Rightarrow> bool \<Rightarrow> bool \<Rightarrow> sock_world \<Rightarrow> sock_world" where
  "server_begin_port port fd bind_ok listen_ok w = server_begin port fd bind_ok listen_ok w"

definition server_setNoDelay :: "bool \<Rightarrow> sock_world \<Rightarrow> sock_world" where
  "server_setNoDelay nodelay w = w\<lparr>srv := (srv w)\<lparr>noDelay := nodelay\<rparr>\<rparr>"

definition server_getNoDelay :: "sock_world \<Rightarrow> bool" where
  "server_getNoDelay w = noDelay (srv w)"

definition server_close :: "sock_world \<Rightarrow> sock_world" where
  "server_close w = server_end w"

definition server_stop :: "sock_world \<Rightarrow> sock_world" where
  "server_stop w = server_end w"

text \<open>The destructor.\<close>

definition server_destroy :: "sock_world \<Rightarrow> sock_world" where
  "server_destroy w = server_end w"

section \<open>Lemmas\<close>

text \<open>The timeout counts as set exactly when both options were.\<close>

lemma server_setTimeout_ok:
  "0 \<le> fst (server_setTimeout so seconds s x) \<longleftrightarrow>
   (case so (srv_sockfd s) SO_RCVTIMEO seconds x of (r, x1) \<Rightarrow> 0 \<le> r \<and> 0 \<le> fst (so (srv_sockfd s) SO_SNDTIMEO seconds x1))"
  by (auto simp: server_setTimeout_def split: prod.split)

text \<open>
  The option must be set after \<open>begin\<close>, as the proxy does: a start that succeeds forgets one that was set
  before, a start of a listening server keeps it, and accepting and testing for a client never change it.
\<close>

lemma no_delay_kept:
  "server_getNoDelay (snd (server_accept conn k n w)) = server_getNoDelay w"
  "server_getNoDelay (snd (server_hasClient conn w)) = server_getNoDelay w"
  by (auto simp: server_getNoDelay_def server_accept_def server_hasClient_def lwip_accept_def split: option.splits prod.splits)

lemma no_delay_after_begin:
  "server_getNoDelay (server_setNoDelay b (server_begin_port port fd True True w)) = b"
  "\<not> listening (srv w) \<Longrightarrow> \<not> server_getNoDelay (server_begin_port port (Some d) True True (server_setNoDelay True w))"
  "listening (srv w) \<Longrightarrow> server_getNoDelay (server_begin_port port fd True True w) = server_getNoDelay w"
  by (simp_all add: server_getNoDelay_def server_setNoDelay_def server_begin_port_def server_begin_def Let_def)

text \<open>However it is ended, the server holds no listening descriptor afterwards and another end changes nothing.\<close>

lemma server_ended:
  assumes "f \<in> {server_end, server_close, server_stop, server_destroy}"
  shows "f w = server_end w \<and> srv_sockfd (srv (f w)) = None \<and> \<not> listening (srv (f w)) \<and> server_end (f w) = f w"
proof -
  have "f w = server_end w"
    using assms by (elim insertE emptyE) (simp_all add: server_close_def server_stop_def server_destroy_def)
  then show ?thesis by (simp add: server_end_def Let_def)
qed

end
