(* ===== verification/Ip_Text.thy ===== *)
theory Ip_Text
  imports Mmipal Halow_Link
begin

text \<open>
  Reading the IPv4 configuration back as text (mmipal_lwip.c) and what the uplink of halow_init.cpp makes of
  it. lwIP's \<open>ipaddr_ntoa_r\<close> is a parameter; the dotted decimal text is one that meets what is asked of it.
\<close>

section \<open>Reading the configuration\<close>

definition MMIPAL_IPADDR_STR_MAXLEN :: nat where "MMIPAL_IPADDR_STR_MAXLEN = 48"

definition MMIPAL_IP_CONFIG_DEFAULT :: mmipal_ip_config where
  "MMIPAL_IP_CONFIG_DEFAULT = \<lparr>cfg_mode = MMIPAL_DHCP, cfg_ip_addr = replicate MMIPAL_IPADDR_STR_MAXLEN 0,
     cfg_netmask = replicate MMIPAL_IPADDR_STR_MAXLEN 0, cfg_gateway_addr = replicate MMIPAL_IPADDR_STR_MAXLEN 0\<rparr>"

text \<open>\<open>ntoa addr buf\<close> is the array after the call, \<open>None\<close> when the text does not fit.\<close>

type_synonym ntoa = "u32 \<Rightarrow> u8 list \<Rightarrow> u8 list option"

definition text_of :: "ntoa \<Rightarrow> u32 \<Rightarrow> u8 list \<Rightarrow> u8 list result" where
  "text_of ntoa addr buf = (case ntoa addr buf of None \<Rightarrow> Inl Assert_failed | Some b \<Rightarrow> Inr b)"

definition mmipal_get_ip_config :: "ntoa \<Rightarrow> mmipal_ip_config \<Rightarrow> mmipal_data \<Rightarrow> (mmipal_status \<times> mmipal_ip_config) result" where
  "mmipal_get_ip_config ntoa config d =
     (let config = config\<lparr>cfg_mode := ip4_mode d\<rparr>
      in rbind (text_of ntoa (nf_ip (mm_netif d)) (cfg_ip_addr config)) (\<lambda>ip.
         let config = config\<lparr>cfg_ip_addr := ip\<rparr>
      in rbind (text_of ntoa (nf_netmask (mm_netif d)) (cfg_netmask config)) (\<lambda>nm.
         let config = config\<lparr>cfg_netmask := nm\<rparr>
      in rbind (text_of ntoa (nf_gw (mm_netif d)) (cfg_gateway_addr config)) (\<lambda>gw.
         Inr (MMIPAL_SUCCESS, config\<lparr>cfg_gateway_addr := gw\<rparr>)))))"

text \<open>An uplink environment over the IP layer: \<open>halow_get_ip\<close> reads the configuration of the layer.\<close>

definition over_ip_layer :: "ntoa \<Rightarrow> ('w \<Rightarrow> mmipal_data) \<Rightarrow> 'w halow_env \<Rightarrow> bool" where
  "over_ip_layer ntoa ip he \<longleftrightarrow> (\<forall>w. he_get_ip he w =
     (case mmipal_get_ip_config ntoa MMIPAL_IP_CONFIG_DEFAULT (ip w) of
        Inr (st, c) \<Rightarrow> if st \<noteq> MMIPAL_SUCCESS then None else Some (cfg_ip_addr c)
      | Inl e \<Rightarrow> None, w))"

text \<open>What lwIP documents of the texts: one fits, reads back, and is the one of 0.0.0.0 only for that.\<close>

definition lwip_text_ok :: "ntoa \<Rightarrow> (u8 list \<Rightarrow> u32 option) \<Rightarrow> bool" where
  "lwip_text_ok ntoa aton \<longleftrightarrow> (\<forall>a buf. length buf = MMIPAL_IPADDR_STR_MAXLEN \<longrightarrow>
     (\<exists>b. ntoa a buf = Some b \<and> length b = MMIPAL_IPADDR_STR_MAXLEN \<and> 0 \<in> set b \<and> aton b = Some a \<and>
        c_string b \<noteq> [] \<and> (c_string b = zero_ip \<longleftrightarrow> a = 0))) \<and> 
     (\<forall>b b1. c_string b = c_string b1 \<longrightarrow> aton b = aton b1)"

lemma text_of_ok:
  assumes "lwip_text_ok ntoa aton" "length buf = 48"
  obtains b where "text_of ntoa a buf = Inr b" "length b = 48" "0 \<in> set b" "aton b = Some a" "c_string b \<noteq> []"
    "c_string b = zero_ip \<longleftrightarrow> a = 0"
proof -
  obtain b where "ntoa a buf = Some b" "length b = 48" "0 \<in> set b" "aton b = Some a" "c_string b \<noteq> []" "c_string b = zero_ip \<longleftrightarrow> a = 0"
    using assms unfolding lwip_text_ok_def MMIPAL_IPADDR_STR_MAXLEN_def by blast
  then show thesis by (intro that [of b]) (simp_all add: text_of_def)
qed

lemma c_string_short: "0 \<in> set b \<Longrightarrow> length (c_string b) < length b"
  by (induction b) (auto simp: c_string_def)

text \<open>The configuration that is read names the addresses of the interface.\<close>

lemma get_ip_config_texts:
  fixes lw :: lwip
  assumes "lwip_text_ok ntoa (lw_aton lw)"
  obtains c where "mmipal_get_ip_config ntoa MMIPAL_IP_CONFIG_DEFAULT d = Inr (MMIPAL_SUCCESS, c)" "cfg_mode c = ip4_mode d"
    "parse_addrs lw (cfg_ip_addr c) (cfg_netmask c) (cfg_gateway_addr c) =
      Some (nf_ip (mm_netif d), nf_netmask (mm_netif d), nf_gw (mm_netif d))"
    "length (cfg_ip_addr c) = 48" "0 \<in> set (cfg_ip_addr c)" "c_string (cfg_ip_addr c) \<noteq> []"
    "c_string (cfg_ip_addr c) = zero_ip \<longleftrightarrow> nf_ip (mm_netif d) = 0"
proof -
  have l: "length (replicate 48 (0 :: u8)) = 48" by simp
  obtain i where i: "text_of ntoa (nf_ip (mm_netif d)) (replicate 48 0) = Inr i" "length i = 48" "0 \<in> set i"
    "lw_aton lw i = Some (nf_ip (mm_netif d))" "c_string i \<noteq> []" "c_string i = zero_ip \<longleftrightarrow> nf_ip (mm_netif d) = 0"
    by (rule text_of_ok [OF assms l])
  obtain m where m: "text_of ntoa (nf_netmask (mm_netif d)) (replicate 48 0) = Inr m" "lw_aton lw m = Some (nf_netmask (mm_netif d))"
    by (rule text_of_ok [OF assms l])
  obtain g where g: "text_of ntoa (nf_gw (mm_netif d)) (replicate 48 0) = Inr g" "lw_aton lw g = Some (nf_gw (mm_netif d))"
    by (rule text_of_ok [OF assms l])
  show ?thesis
    by (rule that [of "\<lparr>cfg_mode = ip4_mode d, cfg_ip_addr = i, cfg_netmask = m, cfg_gateway_addr = g\<rparr>"])
      (simp_all only: mmipal_get_ip_config_def MMIPAL_IP_CONFIG_DEFAULT_def MMIPAL_IPADDR_STR_MAXLEN_def Let_def i m g parse_addrs_def
        rbind_simps mmipal_ip_config.simps option.simps simp_thms)
qed

text \<open>What the uplink sees of it.\<close>

lemma uplink_sees_address:
  fixes lw :: lwip
  assumes "over_ip_layer ntoa ip he" "lwip_text_ok ntoa (lw_aton lw)" "length buf = 48"
  shows "\<exists>r. halow_get_ip he buf w = (Inr r, w) \<and>
    (if nf_ip (mm_netif (ip w)) = 0 then r = (False, buf) else fst r \<and> lw_aton lw (snd r) = Some (nf_ip (mm_netif (ip w))))"
proof -
  obtain c where c: "mmipal_get_ip_config ntoa MMIPAL_IP_CONFIG_DEFAULT (ip w) = Inr (MMIPAL_SUCCESS, c)"
    "parse_addrs lw (cfg_ip_addr c) (cfg_netmask c) (cfg_gateway_addr c) =
      Some (nf_ip (mm_netif (ip w)), nf_netmask (mm_netif (ip w)), nf_gw (mm_netif (ip w)))"
    "length (cfg_ip_addr c) = 48" "0 \<in> set (cfg_ip_addr c)" "c_string (cfg_ip_addr c) \<noteq> []"
    "c_string (cfg_ip_addr c) = zero_ip \<longleftrightarrow> nf_ip (mm_netif (ip w)) = 0"
    by (rule get_ip_config_texts [OF assms(2), of "ip w"]) blast
  have g: "he_get_ip he w = (Some (cfg_ip_addr c), w)" using assms(1) c(1) by (simp add: over_ip_layer_def)
  have a: "lw_aton lw (cfg_ip_addr c) = Some (nf_ip (mm_netif (ip w)))"
    using c(2) by (auto simp: parse_addrs_def split: option.splits)
  show ?thesis
  proof (cases "nf_ip (mm_netif (ip w)) = 0")
    case True
    with c(6) show ?thesis by (simp add: halow_get_ip_def g)
  next
    case False
    have "length (c_string (cfg_ip_addr c)) < 48" using c_string_short [OF c(4)] c(3) by simp
    obtain b where b: "strncpy_bytes 47 (cfg_ip_addr c) = Inr b" using strncpy_bytes_ok [OF c(4)] by blast
    have "c_string (b @ [0]) = take 47 (c_string (cfg_ip_addr c))" by (rule strncpy_terminated [OF c(4) b])
    then have "c_string (b @ [0]) = c_string (cfg_ip_addr c)" using \<open>length (c_string (cfg_ip_addr c)) < 48\<close> by simp
    then have "lw_aton lw (b @ [0]) = Some (nf_ip (mm_netif (ip w)))" using assms(2) a unfolding lwip_text_ok_def by metis
    moreover have "halow_get_ip he buf w = (Inr (True, b @ [0]), w)"
      using False c(5,6) by (simp add: halow_get_ip_def g assms(3) b)
    ultimately show ?thesis using False by simp
  qed
qed

section \<open>The dotted decimal text\<close>

definition dotted :: "u32 \<Rightarrow> u8 list" where
  "dotted a = (case bytes32 a of
     [p, q, r, s] \<Rightarrow> decimal (unat p) @ 46 # decimal (unat q) @ 46 # decimal (unat r) @ 46 # decimal (unat s) | _ \<Rightarrow> [])"

definition dotted_ntoa :: ntoa where
  "dotted_ntoa a buf = (let (n, b) = snprintf_into buf (dotted a) in if n < length buf then Some b else None)"

fun parts :: "u8 list \<Rightarrow> u8 list list" where
  "parts [] = [[]]"
| "parts (c # cs) = (if c = 46 then [] # parts cs else case parts cs of [] \<Rightarrow> [[c]] | p # ps \<Rightarrow> (c # p) # ps)"

definition digits_value :: "u8 list \<Rightarrow> nat" where
  "digits_value ds = foldl (\<lambda>n d. 10 * n + (unat d - 48)) 0 ds"

definition dotted_aton :: "u8 list \<Rightarrow> u32 option" where
  "dotted_aton t = (case map digits_value (parts (c_string t)) of
     [p, q, r, s] \<Rightarrow> Some (le32 [of_nat p, of_nat q, of_nat r, of_nat s]) | _ \<Rightarrow> None)"

lemma digit_u8: "k < 10 \<Longrightarrow> unat (of_nat (48 + k) :: u8) = 48 + k"
  by (simp add: unat_of_nat del: of_nat_add)

lemma decimal_value: "digits_value (decimal n) = n"
proof (induction n rule: decimal.induct)
  case (1 n)
  show ?case
  proof (cases "n < 10")
    case True
    then show ?thesis using digit_u8 [of n] by (subst decimal.simps) (simp add: digits_value_def del: of_nat_add)
  next
    case False
    then have "digits_value (decimal n) = 10 * digits_value (decimal (n div 10)) + (unat (of_nat (48 + n mod 10) :: u8) - 48)"
      by (subst decimal.simps) (simp add: digits_value_def del: of_nat_add)
    also have "\<dots> = 10 * (n div 10) + n mod 10"
    proof -
      have "n mod 10 < 10" by simp
      show ?thesis unfolding 1 [OF False] digit_u8 [OF \<open>n mod 10 < 10\<close>] by simp
    qed
    finally show ?thesis by simp
  qed
qed

lemma decimal_no_dot: "46 \<notin> set (decimal n)"
proof (induction n rule: decimal.induct)
  case (1 n)
  have "(of_nat (48 + k) :: u8) \<noteq> 46" if "k < 10" for k
  proof
    assume "(of_nat (48 + k) :: u8) = 46"
    then have "unat (of_nat (48 + k) :: u8) = unat (46 :: u8)" by (rule arg_cong)
    then show False unfolding digit_u8 [OF that] by simp
  qed
  then show ?case using 1 by (subst decimal.simps) (simp del: of_nat_add)
qed

lemma parts_dot: "46 \<notin> set p \<Longrightarrow> parts (p @ 46 # r) = p # parts r"
  by (induction p) auto

lemma parts_last: "46 \<notin> set p \<Longrightarrow> parts p = [p]"
  by (induction p) auto

lemma dotted_value:
  assumes "c_string t = dotted a"
  shows "dotted_aton t = Some a"
proof -
  have "parts (dotted a) = map (\<lambda>b. decimal (unat b)) (bytes32 a)"
    by (simp add: dotted_def bytes32_def parts_dot parts_last decimal_no_dot)
  then have "map digits_value (parts (c_string t)) = map unat (bytes32 a)"
    by (simp add: assms decimal_value comp_def)
  then have "dotted_aton t = Some (le32 (map (\<lambda>b. of_nat (unat b)) (bytes32 a)))"
    by (simp add: dotted_aton_def bytes32_def)
  then show ?thesis using le32_bytes32 [of a "[]"] by simp
qed

lemma dotted_length: "length (dotted a) < 48"
proof -
  have "length (decimal (unat b)) \<le> 3" for b :: u8
    using decimal_length [of "unat b" 2] unat_u8_lt [of b] by (simp del: unat_u8_lt)
  from this [of "ucast a"] this [of "ucast (drop_bit 8 a)"] this [of "ucast (drop_bit 16 a)"] this [of "ucast (drop_bit 24 a)"]
  show ?thesis unfolding dotted_def bytes32_def by simp
qed

lemma dotted_no_nul: "0 \<notin> set (dotted a)"
  by (simp add: dotted_def bytes32_def decimal_no_nul)

lemma dotted_zero: "dotted a = zero_ip \<longleftrightarrow> a = 0"
proof -
  have z: "dotted 0 = zero_ip" by code_simp
  have t: "c_string (dotted b @ [0]) = dotted b" for b using c_string_pad [OF dotted_no_nul, of b 1] by simp
  have "a = 0" if "dotted a = zero_ip"
    using dotted_value [of "dotted a @ [0]" a] dotted_value [of "dotted a @ [0]" 0] t [of a] that z by simp
  with z show ?thesis by blast
qed

lemma dotted_text_ok: "lwip_text_ok dotted_ntoa dotted_aton"
  unfolding lwip_text_ok_def MMIPAL_IPADDR_STR_MAXLEN_def
proof (intro conjI allI impI)
  fix a and buf :: "u8 list" assume l: "length buf = 48"
  define b where "b = snd (snprintf_into buf (dotted a))"
  have n: "dotted_ntoa a buf = Some b"
    using dotted_length [of a] l by (simp add: dotted_ntoa_def b_def snprintf_into_def Let_def)
  have c: "c_string b = dotted a"
    unfolding b_def using dotted_length [of a] l by (intro snprintf_fits dotted_no_nul) simp
  have "length b = 48" "0 \<in> set b"
    using dotted_length [of a] l by (simp_all add: b_def snprintf_into_def Let_def)
  moreover have "dotted a \<noteq> []" by (simp add: dotted_def bytes32_def)
  ultimately show "\<exists>b. dotted_ntoa a buf = Some b \<and> length b = 48 \<and> 0 \<in> set b \<and> dotted_aton b = Some a \<and> c_string b \<noteq> [] \<and>
      (c_string b = zero_ip \<longleftrightarrow> a = 0)"
    using n c dotted_value [OF c] dotted_zero by auto
qed (simp add: dotted_aton_def)

section \<open>Setting and reading back\<close>

text \<open>
  C34: A static configuration that was accepted is read back: the mode is static, the three texts parse to the
  addresses that were configured, and setting what was read succeeds and leaves the interface as it is. The
  uplink that waits for its address finds one exactly when the configured address is not 0.0.0.0, and the text
  it hands out parses to it.
\<close>

theorem ip_config_round_trip:
  assumes "lwip_text_ok ntoa (lw_aton lw)" "over_ip_layer ntoa layer he" "length buf = 48"
    and "mmipal_set_ip_config lw c d = Inr (MMIPAL_SUCCESS, layer w)" "cfg_mode c = MMIPAL_STATIC"
    and "parse_addrs lw (cfg_ip_addr c) (cfg_netmask c) (cfg_gateway_addr c) = Some (ip, nm, gw)"
  shows "\<exists>c1 d2 r. mmipal_get_ip_config ntoa MMIPAL_IP_CONFIG_DEFAULT (layer w) = Inr (MMIPAL_SUCCESS, c1) \<and>
    cfg_mode c1 = MMIPAL_STATIC \<and>
    parse_addrs lw (cfg_ip_addr c1) (cfg_netmask c1) (cfg_gateway_addr c1) = Some (ip, nm, gw) \<and>
    mmipal_set_ip_config lw c1 (layer w) = Inr (MMIPAL_SUCCESS, d2) \<and> mm_netif d2 = mm_netif (layer w) \<and>
    halow_get_ip he buf w = (Inr r, w) \<and>
    (if ip = 0 then r = (False, buf) else fst r \<and> lw_aton lw (snd r) = Some ip)"
proof -
  have n: "nf_ip (mm_netif (layer w)) = ip" "nf_netmask (mm_netif (layer w)) = nm" "nf_gw (mm_netif (layer w)) = gw"
    "ip4_mode (layer w) = MMIPAL_STATIC"
    using assms(4,6) by (auto simp: mmipal_set_ip_config_def assms(5) Let_def split: if_splits dest!: sym [of _ "layer w"])
  obtain c1 where c1: "mmipal_get_ip_config ntoa MMIPAL_IP_CONFIG_DEFAULT (layer w) = Inr (MMIPAL_SUCCESS, c1)"
    "cfg_mode c1 = MMIPAL_STATIC" "parse_addrs lw (cfg_ip_addr c1) (cfg_netmask c1) (cfg_gateway_addr c1) = Some (ip, nm, gw)"
    using get_ip_config_texts [OF assms(1), of "layer w"] n by metis
  let ?d = "netif_set_addr lw ip nm gw ((layer w)\<lparr>ip4_mode := MMIPAL_STATIC\<rparr>)"
  have "mmipal_set_ip_config lw c1 (layer w) = Inr (MMIPAL_SUCCESS, ?d)"
    using n(4) c1(2,3) by (simp add: mmipal_set_ip_config_def Let_def)
  moreover have "mm_netif ?d = mm_netif (layer w)" using n(1-3) by simp
  moreover obtain r where "halow_get_ip he buf w = (Inr r, w)"
    "if ip = 0 then r = (False, buf) else fst r \<and> lw_aton lw (snd r) = Some ip"
    using uplink_sees_address [OF assms(2,1,3), of w] n(1) by auto
  ultimately show ?thesis using c1 by blast
qed

text \<open>A layer after \<open>mmipal_init\<close> with DHCP is given 192.168.10.131.\<close>

definition dotted_lwip :: lwip where
  "dotted_lwip = plain_lwip\<lparr>lw_aton := dotted_aton\<rparr>"

definition sample_config :: mmipal_ip_config where
  "sample_config = \<lparr>cfg_mode = MMIPAL_STATIC, cfg_ip_addr = dotted 0x830AA8C0 @ [0],
     cfg_netmask = dotted 0x00FFFFFF @ [0], cfg_gateway_addr = dotted 0x010AA8C0 @ [0]\<rparr>"

definition layered_uplink :: "mmipal_data \<Rightarrow> nat halow_env" where
  "layered_uplink d = deaf_uplink\<lparr>he_get_ip := (\<lambda>w.
     (case mmipal_get_ip_config dotted_ntoa MMIPAL_IP_CONFIG_DEFAULT d of
        Inr (st, c) \<Rightarrow> if st \<noteq> MMIPAL_SUCCESS then None else Some (cfg_ip_addr c)
      | Inl e \<Rightarrow> None, w))\<rparr>"

lemma ip_config_round_trip_witness:
  "\<exists>d1 c1 r. mmipal_set_ip_config dotted_lwip sample_config dhcp_up = Inr (MMIPAL_SUCCESS, d1) \<and>
     mmipal_get_ip_config dotted_ntoa MMIPAL_IP_CONFIG_DEFAULT d1 = Inr (MMIPAL_SUCCESS, c1) \<and> cfg_mode c1 = MMIPAL_STATIC \<and>
     halow_get_ip (layered_uplink d1) (replicate 48 0) 7 = (Inr (True, r), 7) \<and> dotted_aton r = Some 0x830AA8C0"
proof -
  define d1 where "d1 = netif_set_addr dotted_lwip 0x830AA8C0 0x00FFFFFF 0x010AA8C0
      ((change_netif dotted_lwip (lw_dhcp_stop dotted_lwip (mm_netif dhcp_up)) dhcp_up)\<lparr>ip4_mode := MMIPAL_STATIC\<rparr>)"
  have t: "c_string (dotted b @ [0]) = dotted b" for b using c_string_pad [OF dotted_no_nul, of b 1] by simp
  have p: "parse_addrs dotted_lwip (cfg_ip_addr sample_config) (cfg_netmask sample_config) (cfg_gateway_addr sample_config) =
      Some (0x830AA8C0, 0x00FFFFFF, 0x010AA8C0)"
    by (simp add: parse_addrs_def dotted_lwip_def sample_config_def dotted_value [OF t])
  have s: "mmipal_set_ip_config dotted_lwip sample_config dhcp_up = Inr (MMIPAL_SUCCESS, d1)"
    using p by (simp add: mmipal_set_ip_config_def d1_def sample_config_def dhcp_up_def Let_def)
  have o': "over_ip_layer dotted_ntoa (\<lambda>w. d1) (layered_uplink d1)"
    by (simp add: over_ip_layer_def layered_uplink_def)
  have a: "lwip_text_ok dotted_ntoa (lw_aton dotted_lwip)" using dotted_text_ok by (simp add: dotted_lwip_def)
  have m: "cfg_mode sample_config = MMIPAL_STATIC" by (simp add: sample_config_def)
  from ip_config_round_trip [OF a o' length_replicate s m p, of 0 7]
  obtain c1 r where "mmipal_get_ip_config dotted_ntoa MMIPAL_IP_CONFIG_DEFAULT d1 = Inr (MMIPAL_SUCCESS, c1)"
    "cfg_mode c1 = MMIPAL_STATIC" "halow_get_ip (layered_uplink d1) (replicate 48 0) 7 = (Inr r, 7)"
    "fst r \<and> lw_aton dotted_lwip (snd r) = Some 0x830AA8C0" by auto
  then show ?thesis using s by (cases r) (auto simp: dotted_lwip_def)
qed

end
