(* ===== verification/Wifi_Link.thy ===== *)
theory Wifi_Link
  imports Halow_Link
begin

text \<open>
  The uplink of the WiFi variant (\<open>net_connect\<close> of main.cpp under USE_STANDARD_WIFI) and the heartbeat of
  lwIP's thread in the HaLow variant. The WiFi library, the clock and lwIP's timers are parameters.
\<close>

section \<open>WiFi\<close>

text \<open>\<open>we_begin\<close> is \<open>WiFi.mode\<close> and \<open>WiFi.begin\<close>, \<open>we_connected\<close> the test of \<open>WiFi.status\<close>.\<close>

record 'w wifi_env =
  we_begin :: "u8 list \<Rightarrow> u8 list \<Rightarrow> 'w \<Rightarrow> 'w"
  we_connected :: "'w \<Rightarrow> bool \<times> 'w"
  we_millis :: "'w \<Rightarrow> u32 \<times> 'w"
  we_delay :: "u32 \<Rightarrow> 'w \<Rightarrow> 'w"

datatype wifi_outcome = Wifi_connected | Wifi_restart

partial_function (option) await_wifi :: "'w wifi_env \<Rightarrow> u32 \<Rightarrow> 'w \<Rightarrow> (wifi_outcome \<times> 'w) option" where
  "await_wifi we t w =
     (let s = we_connected we w
      in if fst s then Some (Wifi_connected, snd s)
         else let n = we_millis we (we_delay we 500 (snd s))
          in if 30000 < fst n - t then Some (Wifi_restart, snd n) else await_wifi we t (snd n))"

definition wifi_net_connect :: "'w wifi_env \<Rightarrow> hc33_config_v1 \<Rightarrow> 'w \<Rightarrow> (wifi_outcome \<times> 'w) option" where
  "wifi_net_connect we cfg w =
     (let w = we_begin we (c_string (uplink_ssid cfg)) (c_string (uplink_pass cfg)) w;
          (t, w) = we_millis we w
      in await_wifi we t w)"

text \<open>The clock: \<open>delay\<close> lets at least its time pass and at most \<open>J\<close> more; the other calls take no time.\<close>

definition wifi_clock :: "'w wifi_env \<Rightarrow> ('w \<Rightarrow> nat) \<Rightarrow> nat \<Rightarrow> bool" where
  "wifi_clock we clk J \<longleftrightarrow>
     (\<forall>w. fst (we_millis we w) = of_nat (clk w) \<and> clk (snd (we_millis we w)) = clk w \<and> clk (snd (we_connected we w)) = clk w) \<and>
     (\<forall>n w. clk w + unat n \<le> clk (we_delay we n w) \<and> clk (we_delay we n w) \<le> clk w + unat n + J)"

lemma wifi_clockD:
  assumes "wifi_clock we clk J"
  shows "fst (we_millis we w) = of_nat (clk w)" "clk (snd (we_millis we w)) = clk w" "clk (snd (we_connected we w)) = clk w"
    "clk w + unat n \<le> clk (we_delay we n w)" "clk (we_delay we n w) \<le> clk w + unat n + J"
  using assms unfolding wifi_clock_def by blast+

lemma await_wifi_ends:
  assumes "wifi_clock we clk J" "J < 1000000" "t \<le> clk w" "clk w \<le> t + 30000"
  shows "\<exists>r w1. await_wifi we (of_nat t) w = Some (r, w1) \<and> clk w \<le> clk w1 \<and> clk w1 \<le> t + 30500 + J \<and>
    (case r of Wifi_connected \<Rightarrow> \<exists>w0. we_connected we w0 = (True, w1) | Wifi_restart \<Rightarrow> t + 30000 < clk w1)"
  using assms(3,4)
proof (induction "t + 30500 - clk w" arbitrary: w rule: less_induct)
  case less
  obtain up w1 where s: "we_connected we w = (up, w1)" by fastforce
  have c1: "clk w1 = clk w" using wifi_clockD(3) [OF assms(1), of w] s by simp
  show ?case
  proof (cases up)
    case True
    then have "await_wifi we (of_nat t) w = Some (Wifi_connected, w1)" by (subst await_wifi.simps) (simp add: s)
    with True s c1 less.prems show ?thesis by (intro exI [of _ Wifi_connected] exI [of _ w1]) auto
  next
    case False
    define w2 where "w2 = we_delay we 500 w1"
    obtain n w3 where m: "we_millis we w2 = (n, w3)" by fastforce
    have c2: "clk w + 500 \<le> clk w3" "clk w3 \<le> clk w + 500 + J" and n: "n = of_nat (clk w3)"
      using wifi_clockD(1,2) [OF assms(1), of w2] wifi_clockD(4,5) [OF assms(1), where n = 500 and w = w1] m c1 by (simp_all add: w2_def)
    have late: "30000 < n - of_nat t \<longleftrightarrow> 30000 < clk w3 - t"
      unfolding n using elapsed_u32 [of t "clk w3" 30000] less.prems c2 assms(2) by simp
    have step: "await_wifi we (of_nat t) w =
        (if 30000 < clk w3 - t then Some (Wifi_restart, w3) else await_wifi we (of_nat t) w3)"
      using False by (subst await_wifi.simps) (simp add: s w2_def [symmetric] m late)
    show ?thesis
    proof (cases "30000 < clk w3 - t")
      case True
      then show ?thesis unfolding step using c2 less.prems
        by (intro exI [of _ Wifi_restart] exI [of _ w3]) auto
    next
      case F: False
      have "t + 30500 - clk w3 < t + 30500 - clk w" using c2 less.prems by simp
      from less.hyps [OF this] F c2 less.prems obtain r w4 where
        r: "await_wifi we (of_nat t) w3 = Some (r, w4)" "clk w3 \<le> clk w4" "clk w4 \<le> t + 30500 + J"
        "case r of Wifi_connected \<Rightarrow> \<exists>w0. we_connected we w0 = (True, w4) | Wifi_restart \<Rightarrow> t + 30000 < clk w4"
        by fastforce
      have "clk w \<le> clk w4" using r(2) c2(1) by simp
      with r show ?thesis unfolding step using F by (intro exI [of _ r] exI [of _ w4]) simp
    qed
  qed
qed

text \<open>
  The wait for the WiFi link ends, also when the millisecond counter wraps meanwhile: connected, as the
  library said, or with a restart after more than 30 s, and never later than one poll after that.
\<close>

theorem wifi_connect_ends:
  assumes "wifi_clock we clk J" "J < 1000000"
    and "w0 = we_begin we (c_string (uplink_ssid cfg)) (c_string (uplink_pass cfg)) w"
  shows "\<exists>r w1. wifi_net_connect we cfg w = Some (r, w1) \<and> clk w1 \<le> clk w0 + 30500 + J \<and>
    (case r of Wifi_connected \<Rightarrow> \<exists>v. we_connected we v = (True, w1) | Wifi_restart \<Rightarrow> clk w0 + 30000 < clk w1)"
proof -
  obtain t w2 where m: "we_millis we w0 = (t, w2)" by fastforce
  have t: "t = of_nat (clk w0)" "clk w2 = clk w0" using wifi_clockD(1,2) [OF assms(1), of w0] m by simp_all
  have run: "wifi_net_connect we cfg w = await_wifi we (of_nat (clk w0)) w2"
    using m t(1) by (simp add: wifi_net_connect_def assms(3) [symmetric] Let_def)
  show ?thesis unfolding run using await_wifi_ends [OF assms(1,2), of "clk w0" w2] t(2) by auto
qed

section \<open>The heartbeat\<close>

text \<open>The stamp, and the timer of lwIP: after how many milliseconds the callback is called again.\<close>

record heartbeat =
  g_lwip_hb_ms :: u32
  hb_timer :: "u32 option"

definition lwip_heartbeat_cb :: "u32 \<Rightarrow> heartbeat \<Rightarrow> heartbeat" where
  "lwip_heartbeat_cb now h = h\<lparr>g_lwip_hb_ms := now, hb_timer := Some 200\<rparr>"

definition lwip_heartbeat_bootstrap :: "u32 \<Rightarrow> heartbeat \<Rightarrow> heartbeat" where
  "lwip_heartbeat_bootstrap now h = h\<lparr>g_lwip_hb_ms := now, hb_timer := Some 200\<rparr>"

text \<open>
  What lwIP does: the timer, once set, fires after its time and up to \<open>late\<close> milliseconds more. The run is
  the list of these delays.
\<close>

fun heartbeat_run :: "nat list \<Rightarrow> nat \<times> heartbeat \<Rightarrow> nat \<times> heartbeat" where
  "heartbeat_run [] s = s"
| "heartbeat_run (d # ds) (now, h) =
     (case hb_timer h of
        None \<Rightarrow> (now, h)
      | Some ms \<Rightarrow> (let now = now + unat ms + d in heartbeat_run ds (now, lwip_heartbeat_cb (of_nat now) h)))"

text \<open>The age the statistics print is the time the thread of lwIP is late, plus the time since its timer was set.\<close>

lemma heartbeat_age:
  assumes "heartbeat_run ds (t, lwip_heartbeat_bootstrap (of_nat t) h) = (now, h1)" "now \<le> n" "n - now < 4294967296"
  shows "unat (of_nat n - g_lwip_hb_ms h1) = n - now \<and> hb_timer h1 = Some 200 \<and> now = t + 200 * length ds + sum_list ds"
proof -
  have "now = t + 200 * length ds + sum_list ds \<and> g_lwip_hb_ms h1 = of_nat now \<and> hb_timer h1 = Some 200"
    if "heartbeat_run ds (t, h0) = (now, h1)" "g_lwip_hb_ms h0 = of_nat t" "hb_timer h0 = Some 200" for h0
    using that
  proof (induction ds arbitrary: t h0)
    case (Cons d ds)
    then have "heartbeat_run ds (t + 200 + d, lwip_heartbeat_cb (of_nat (t + 200 + d)) h0) = (now, h1)"
      by (simp add: Let_def)
    from Cons.IH [OF this] show ?case by (simp add: lwip_heartbeat_cb_def)
  qed simp
  from this [OF assms(1)] have r: "now = t + 200 * length ds + sum_list ds" "g_lwip_hb_ms h1 = of_nat now" "hb_timer h1 = Some 200"
    by (simp_all add: lwip_heartbeat_bootstrap_def)
  have "unat (of_nat n - g_lwip_hb_ms h1) = n - now"
    unfolding r(2) of_nat_diff_u32 [OF assms(2)] by (rule unat_of_nat_u32 [OF assms(3)])
  with r show ?thesis by blast
qed

end
