(* ===== verification/Failures.thy ===== *)
theory Failures
  imports Mmosal
begin

text \<open>
  What a failed assertion does (mmosal.h, mmosal_shim_freertos_esp32.c, mmhal.c): it logs the failure in memory
  that survives a reset and restarts the chip, and the next boot prints it. Also the critical sections and
  interrupt masks, which only call FreeRTOS, and the empty calls of mmhal.c.
\<close>

section \<open>The hardware layer\<close>

text \<open>\<open>esp_restart\<close> does not return.\<close>

definition mmhal_reset :: "'a result" where
  "mmhal_reset = Inl Does_not_return"

definition mmhal_log_flush :: "'w \<Rightarrow> 'w" where "mmhal_log_flush w = w"
definition mmhal_set_deep_sleep_veto :: "u8 \<Rightarrow> 'w \<Rightarrow> 'w" where "mmhal_set_deep_sleep_veto veto_id w = w"
definition mmhal_clear_deep_sleep_veto :: "u8 \<Rightarrow> 'w \<Rightarrow> 'w" where "mmhal_clear_deep_sleep_veto veto_id w = w"
definition mmhal_set_led :: "u8 \<Rightarrow> u8 \<Rightarrow> 'w \<Rightarrow> 'w" where "mmhal_set_led led level w = w"

section \<open>Critical sections\<close>

text \<open>The macros of FreeRTOS on the one spinlock of the shim, and the memory barrier.\<close>

record 'w rtos_locks =
  fr_enter :: "'w \<Rightarrow> 'w"
  fr_exit :: "'w \<Rightarrow> 'w"
  fr_disable :: "'w \<Rightarrow> 'w"
  fr_enable :: "'w \<Rightarrow> 'w"
  mem_sync :: "'w \<Rightarrow> 'w"

definition mmosal_task_enter_critical :: "'w rtos_locks \<Rightarrow> 'w \<Rightarrow> 'w" where
  "mmosal_task_enter_critical fr w = fr_enter fr w"

definition mmosal_task_exit_critical :: "'w rtos_locks \<Rightarrow> 'w \<Rightarrow> 'w" where
  "mmosal_task_exit_critical fr w = fr_exit fr w"

definition mmosal_disable_interrupts :: "'w rtos_locks \<Rightarrow> 'w \<Rightarrow> 'w" where
  "mmosal_disable_interrupts fr w = fr_disable fr w"

definition mmosal_enable_interrupts :: "'w rtos_locks \<Rightarrow> 'w \<Rightarrow> 'w" where
  "mmosal_enable_interrupts fr w = fr_enable fr w"

definition MMOSAL_TASK_ENTER_CRITICAL :: "'w rtos_locks \<Rightarrow> 'w \<Rightarrow> 'w" where
  "MMOSAL_TASK_ENTER_CRITICAL fr w = mmosal_task_enter_critical fr (mem_sync fr w)"

definition MMOSAL_TASK_EXIT_CRITICAL :: "'w rtos_locks \<Rightarrow> 'w \<Rightarrow> 'w" where
  "MMOSAL_TASK_EXIT_CRITICAL fr w = mmosal_task_exit_critical fr (mem_sync fr w)"

text \<open>The lock of FreeRTOS counts: sections may be nested, and the last exit opens the lock.\<close>

lemma sections_nest:
  assumes "\<And>w. fr_exit fr (fr_enter fr w) = w" "\<And>w. mem_sync fr w = w"
  shows "(MMOSAL_TASK_EXIT_CRITICAL fr ^^ n) ((MMOSAL_TASK_ENTER_CRITICAL fr ^^ n) w) = w"
proof (induction n arbitrary: w)
  case (Suc n)
  have "(MMOSAL_TASK_EXIT_CRITICAL fr ^^ Suc n) ((MMOSAL_TASK_ENTER_CRITICAL fr ^^ Suc n) w) =
      MMOSAL_TASK_EXIT_CRITICAL fr ((MMOSAL_TASK_EXIT_CRITICAL fr ^^ n) ((MMOSAL_TASK_ENTER_CRITICAL fr ^^ n) (MMOSAL_TASK_ENTER_CRITICAL fr w)))"
    by (simp add: funpow_swap1)
  also have "\<dots> = w"
    unfolding Suc.IH by (simp add: MMOSAL_TASK_EXIT_CRITICAL_def MMOSAL_TASK_ENTER_CRITICAL_def
      mmosal_task_enter_critical_def mmosal_task_exit_critical_def assms)
  finally show ?case .
qed simp

section \<open>A failed assertion\<close>

text \<open>MMPORT_GET_PC gives 0; the extra data has at most four words and the others are 0.\<close>

definition failure_at :: "u32 \<Rightarrow> u32 \<Rightarrow> u32 \<Rightarrow> u32 list \<Rightarrow> mmosal_failure_info" where
  "failure_at ra src ln data = \<lparr>pc = 0, lr = ra, fileid = src, line = ln, platform_info = data @ replicate (4 - length data) 0\<rparr>"

definition MMOSAL_LOG_FAILURE_INFO :: "u32 \<Rightarrow> u32 \<Rightarrow> u32 \<Rightarrow> u32 list \<Rightarrow> preserved_failure_info \<Rightarrow> preserved_failure_info" where
  "MMOSAL_LOG_FAILURE_INFO ra src ln data st = mmosal_log_failure_info st (failure_at ra src ln data)"

definition DELAY_BEFORE_RESET_MS :: u32 where "DELAY_BEFORE_RESET_MS = 1000"

text \<open>How it ends: stopped with what was printed, or reset after a delay.\<close>

datatype crash = Halted "(u32 \<times> mmosal_failure_info) list" | Reset_after u32

definition mmosal_impl_assert :: "bool \<Rightarrow> preserved_failure_info \<Rightarrow> crash \<times> preserved_failure_info" where
  "mmosal_impl_assert halt_on_assert st =
     (if halt_on_assert
      then let (out, st) = (if magic st = ASSERT_INFO_MAGIC then mmosal_dump_failure_info st else ([], st)) in (Halted out, st)
      else (Reset_after DELAY_BEFORE_RESET_MS, st))"

text \<open>\<open>None\<close> is to go on.\<close>

definition MMOSAL_ASSERT_LOG_DATA ::
    "bool \<Rightarrow> bool \<Rightarrow> u32 \<Rightarrow> u32 \<Rightarrow> u32 \<Rightarrow> u32 list \<Rightarrow> preserved_failure_info \<Rightarrow> crash option \<times> preserved_failure_info" where
  "MMOSAL_ASSERT_LOG_DATA halt expr ra src ln data st =
     (if \<not> expr then let (c, st) = mmosal_impl_assert halt (MMOSAL_LOG_FAILURE_INFO ra src ln data st) in (Some c, st)
      else (None, st))"

definition MMOSAL_ASSERT :: "bool \<Rightarrow> bool \<Rightarrow> u32 \<Rightarrow> u32 \<Rightarrow> u32 \<Rightarrow> preserved_failure_info \<Rightarrow> crash option \<times> preserved_failure_info" where
  "MMOSAL_ASSERT halt expr ra src ln st = MMOSAL_ASSERT_LOG_DATA halt expr ra src ln [0] st"

section \<open>From boot to boot\<close>

text \<open>
  The assertions that the tasks of the device evaluate during one life, in order: whether they hold, and where
  they stand (return address, file, line). A failed one returns to no caller, but it sleeps for a second before
  it resets the chip, and other tasks run on and may fail too.
\<close>

type_synonym place = "u32 \<times> u32 \<times> u32"

fun asserts :: "(bool \<times> place) list \<Rightarrow> preserved_failure_info \<Rightarrow> crash option list \<times> preserved_failure_info" where
  "asserts [] st = ([], st)"
| "asserts ((expr, ra, src, ln) # ps) st =
     (let (c, st) = MMOSAL_ASSERT False expr ra src ln st;
          (cs, st) = asserts ps st
      in (c # cs, st))"

text \<open>
  The lives of the device: each begins with what the boot prints, then the assertions are evaluated. The memory
  of the log is not cleared between them.
\<close>

fun lives :: "(bool \<times> place) list list \<Rightarrow> preserved_failure_info \<Rightarrow>
    ((u32 \<times> mmosal_failure_info) list \<times> crash option list) list \<times> preserved_failure_info" where
  "lives [] st = ([], st)"
| "lives (ps # pss) st =
     (let (out, st) = dump_failure_info_init st;
          (cs, st) = asserts ps st;
          (rest, st) = lives pss st
      in ((out, cs) # rest, st))"

definition place_info :: "place \<Rightarrow> mmosal_failure_info" where
  "place_info p = (case p of (ra, src, ln) \<Rightarrow> failure_at ra src ln [0])"

definition failures :: "(bool \<times> place) list \<Rightarrow> mmosal_failure_info list" where
  "failures ps = map (\<lambda>(_, p). place_info p) (filter (\<lambda>(expr, _). \<not> expr) ps)"

text \<open>
  What a boot prints of the failures \<open>fs\<close> that followed \<open>n\<close> earlier ones: at most the last four. Fewer than
  four are printed with their running numbers, four or more with numbers that begin below four.
\<close>

definition boot_report :: "nat \<Rightarrow> mmosal_failure_info list \<Rightarrow> (u32 \<times> mmosal_failure_info) list" where
  "boot_report n fs =
     (let k = min 4 (length fs); first_num = (if length fs < 4 then n else (n + length fs) mod 4)
      in zip (map (\<lambda>j. of_nat (first_num + j)) [0 ..< k]) (drop (length fs - k) fs))"

lemma assert_logs:
  "MMOSAL_ASSERT False False ra src ln st = (Some (Reset_after 1000), mmosal_log_failure_info st (place_info (ra, src, ln)))"
  by (simp add: MMOSAL_ASSERT_def MMOSAL_ASSERT_LOG_DATA_def mmosal_impl_assert_def MMOSAL_LOG_FAILURE_INFO_def place_info_def
    DELAY_BEFORE_RESET_MS_def)

lemma assert_holds: "MMOSAL_ASSERT halt True ra src ln st = (None, st)"
  by (simp add: MMOSAL_ASSERT_def MMOSAL_ASSERT_LOG_DATA_def)

text \<open>The log holds the failures \<open>hs\<close>, the first \<open>d\<close> of them shown; before the first one its magic number may be missing.\<close>

definition log_state :: "preserved_failure_info \<Rightarrow> mmosal_failure_info list \<Rightarrow> nat \<Rightarrow> bool" where
  "log_state st hs d \<longleftrightarrow> log_rep st hs d \<or> magic st \<noteq> ASSERT_INFO_MAGIC \<and> length (info st) = 4 \<and> hs = [] \<and> d = 0"

lemma log_state_log: "log_state st hs d \<Longrightarrow> log_state (mmosal_log_failure_info st i) (hs @ [i]) d"
  using log_step log_first by (auto simp: log_state_def)

lemma asserts_log:
  assumes "log_state st hs d"
  shows "fst (asserts ps st) = map (\<lambda>(expr, _). if expr then None else Some (Reset_after 1000)) ps \<and>
    log_state (snd (asserts ps st)) (hs @ failures ps) d"
  using assms
proof (induction ps arbitrary: st hs)
  case Nil
  then show ?case by (simp add: failures_def)
next
  case (Cons p ps)
  obtain expr ra src ln where p: "p = (expr, ra, src, ln)" by (metis prod_cases4)
  show ?case
  proof (cases expr)
    case True
    with Cons.IH [OF Cons.prems] show ?thesis by (simp add: p assert_holds failures_def split_beta)
  next
    case False
    with Cons.IH [OF log_state_log [OF Cons.prems, of "place_info (ra, src, ln)"]] show ?thesis
      by (simp add: p assert_logs failures_def split_beta)
  qed
qed

lemma boot_dump:
  assumes "log_state st (hs @ fs) (length hs)" "length fs < 4294967296"
  shows "fst (dump_failure_info_init st) = boot_report (length hs) fs \<and>
    log_state (snd (dump_failure_info_init st)) (hs @ fs) (length (hs @ fs))"
proof (cases "log_rep st (hs @ fs) (length hs)")
  case True
  have new: "length (hs @ fs) - length hs < 4294967296" using assms(2) by simp
  note d = dump_lists [OF True new]
  have "magic st = ASSERT_INFO_MAGIC" using True by (simp add: log_rep_def)
  then have e: "dump_failure_info_init st = mmosal_dump_failure_info st" by (simp add: dump_failure_info_init_def)
  have "fst (mmosal_dump_failure_info st) =
      zip (map fst (fst (mmosal_dump_failure_info st))) (map snd (fst (mmosal_dump_failure_info st)))"
    by (simp add: zip_map_fst_snd)
  also have "\<dots> = boot_report (length hs) fs"
    unfolding d(1,2) by (simp add: boot_report_def Let_def)
  finally show ?thesis using d(3) by (simp add: e log_state_def)
next
  case False
  with assms(1) show ?thesis by (simp add: log_state_def dump_failure_info_init_def boot_report_def)
qed

lemma lives_report:
  assumes "log_state st (hs @ fs) (length hs)" "\<forall>gs \<in> set (fs # map failures pss). length gs < 4294967296" "i < length pss"
  shows "fst (lives pss st) ! i =
    (boot_report (length hs + length (concat (take i (fs # map failures pss)))) ((fs # map failures pss) ! i),
     map (\<lambda>(expr, _). if expr then None else Some (Reset_after 1000)) (pss ! i))"
  using assms
proof (induction pss arbitrary: st hs fs i)
  case (Cons ps pss)
  define st1 where "st1 = snd (dump_failure_info_init st)"
  define st2 where "st2 = snd (asserts ps st1)"
  have b: "fst (dump_failure_info_init st) = boot_report (length hs) fs" "log_state st1 (hs @ fs) (length (hs @ fs))"
    using boot_dump [OF Cons.prems(1)] Cons.prems(2) by (simp_all add: st1_def)
  have a: "fst (asserts ps st1) = map (\<lambda>(expr, _). if expr then None else Some (Reset_after 1000)) ps"
    "log_state st2 ((hs @ fs) @ failures ps) (length (hs @ fs))"
    using asserts_log [OF b(2), of ps] by (simp_all add: st2_def)
  have e: "fst (lives (ps # pss) st) =
      (boot_report (length hs) fs, map (\<lambda>(expr, _). if expr then None else Some (Reset_after 1000)) ps) # fst (lives pss st2)"
    using b(1) a(1) by (simp add: split_beta st1_def [symmetric] st2_def [symmetric])
  show ?case
  proof (cases i)
    case 0
    then show ?thesis unfolding e by simp
  next
    case (Suc j)
    with Cons.prems(3) have "j < length pss" by simp
    from Cons.IH [OF a(2) _ this] Cons.prems(2) show ?thesis unfolding e by (simp add: Suc add.assoc)
  qed
qed simp

text \<open>
  C31: Every failed assertion resets the device after a second, an assertion that holds goes on, and each boot prints
  the failures of the life before it, every one once and with its place, and of no other life: all of them with
  their running numbers when there are fewer than four, otherwise the last four of them. Several tasks may fail in one
  life, and lives may end without a failure. This is from a power-up at which the memory of the log does not
  hold the magic number; what else it holds does not matter. A life has fewer than 2 to the 32 failures.
\<close>

theorem crashes_reported:
  assumes "magic st \<noteq> ASSERT_INFO_MAGIC" "length (info st) = 4"
    and "\<forall>ps \<in> set pss. length (failures ps) < 4294967296" and "i < length pss"
  shows "fst (lives pss st) ! i =
    (boot_report (length (concat (take i ([] # map failures pss)))) (([] # map failures pss) ! i),
     map (\<lambda>(expr, _). if expr then None else Some (Reset_after 1000)) (pss ! i))"
proof -
  have "log_state st ([] @ []) (length [])" using assms(1,2) by (simp add: log_state_def)
  from lives_report [OF this, of pss i] assms(3,4) show ?thesis by simp
qed

text \<open>
  Power-up with arbitrary memory; a failure on line 17; a life in which two tasks fail, on lines 18 and 19, and a third
  assertion holds; a life without failures.
\<close>

definition bad_days :: "(bool \<times> place) list list" where
  "bad_days = [[(False, 1, 2, 17)], [(False, 3, 4, 18), (True, 5, 6, 20), (False, 5, 6, 19)], [(True, 5, 6, 20)], []]"

definition stale_memory :: preserved_failure_info where
  "stale_memory = \<lparr>magic = 0x12345678, failure_count = 99, displayed_failure_count = 3, info = replicate 4 (failure_at 9 9 9 [9])\<rparr>"

lemma crashes_reported_witness:
  "fst (lives bad_days stale_memory) ! 0 = ([], [Some (Reset_after 1000)]) \<and>
   fst (lives bad_days stale_memory) ! 1 =
     ([(0, failure_at 1 2 17 [0])], [Some (Reset_after 1000), None, Some (Reset_after 1000)]) \<and>
   fst (lives bad_days stale_memory) ! 2 = ([(1, failure_at 3 4 18 [0]), (2, failure_at 5 6 19 [0])], [None]) \<and>
   fst (lives bad_days stale_memory) ! 3 = ([], [])"
proof -
  have st: "magic stale_memory \<noteq> ASSERT_INFO_MAGIC" "length (info stale_memory) = 4"
    by (simp_all add: stale_memory_def ASSERT_INFO_MAGIC_def)
  have few: "\<forall>ps \<in> set bad_days. length (failures ps) < 4294967296" and n: "length bad_days = 4"
    by (simp_all add: bad_days_def failures_def)
  have f: "map failures bad_days = [[failure_at 1 2 17 [0]], [failure_at 3 4 18 [0], failure_at 5 6 19 [0]], [], []]"
    by (simp add: bad_days_def failures_def place_info_def)
  have u: "[0 ..< 2] = [0, 1 :: nat]" by (simp add: upt_rec)
  show ?thesis
    using crashes_reported [OF st few, of 0] crashes_reported [OF st few, of 1]
      crashes_reported [OF st few, of 2] crashes_reported [OF st few, of 3]
    unfolding f n by (simp add: boot_report_def bad_days_def numeral_2_eq_2 numeral_3_eq_3)
qed

text \<open>With HALT_ON_ASSERT the device stops instead and prints the failure itself.\<close>

lemma halt_prints:
  assumes "log_rep st hs (length hs)"
  shows "\<exists>st1. MMOSAL_ASSERT True False ra src ln st = (Some (Halted [(of_nat (length hs), place_info (ra, src, ln))]), st1)"
proof -
  define st1 where "st1 = mmosal_log_failure_info st (place_info (ra, src, ln))"
  have l: "log_rep st1 (hs @ [place_info (ra, src, ln)]) (length hs)"
    unfolding st1_def by (rule log_step [OF assms])
  then have "fst (dump_failure_info_init st1) = [(of_nat (length hs), place_info (ra, src, ln))]"
    using boot_dump [of st1 hs "[place_info (ra, src, ln)]"] by (simp add: log_state_def boot_report_def)
  moreover have "magic st1 = ASSERT_INFO_MAGIC" using l by (simp add: log_rep_def)
  ultimately show ?thesis
    by (simp add: MMOSAL_ASSERT_def MMOSAL_ASSERT_LOG_DATA_def mmosal_impl_assert_def MMOSAL_LOG_FAILURE_INFO_def
      place_info_def dump_failure_info_init_def st1_def split_beta)
qed

end
